(* ===== verification/GoPrelude.thy ===== *)
theory GoPrelude
  imports Main "HOL-Library.AList" "HOL-Library.Sublist" "HOL-Library.List_Lexorder"
    "HOL-Library.Char_ord"
begin

text \<open>
  Shared vocabulary of the development: Go maps, Go sets, Go strings and the
  generic lemmas the component theories use.

  A Go map is an association list with at most one entry per key. Go leaves the order of
  a \<^verbatim>\<open>range\<close> loop over a map open; a model that iterates over a map follows the order of
  the list, and since the theorems quantify over every well-formed list, they hold for every
  iteration order. A Go set \<^verbatim>\<open>map[K]struct{}\<close> is a list without duplicates.
  A Go string is a list of bytes, \<^typ>\<open>char list\<close>.
\<close>

section \<open>Go maps\<close>

type_synonym ('k, 'v) gomap = "('k \<times> 'v) list"

type_synonym 'a goset = "'a list"

abbreviation gm_get :: "('k, 'v) gomap \<Rightarrow> 'k \<Rightarrow> 'v option" where
  "gm_get \<equiv> map_of"

abbreviation gm_set :: "'k \<Rightarrow> 'v \<Rightarrow> ('k, 'v) gomap \<Rightarrow> ('k, 'v) gomap" where
  "gm_set \<equiv> AList.update"

abbreviation gm_del :: "'k \<Rightarrow> ('k, 'v) gomap \<Rightarrow> ('k, 'v) gomap" where
  "gm_del \<equiv> AList.delete"

definition gm_wf :: "('k, 'v) gomap \<Rightarrow> bool" where
  "gm_wf m = distinct (map fst m)"

text \<open>\<open>m[k]\<close> where the zero value of the value type is an empty map, set or slice.\<close>

definition gm_list :: "('k, 'v list) gomap \<Rightarrow> 'k \<Rightarrow> 'v list" where
  "gm_list m k = (case map_of m k of None \<Rightarrow> [] | Some xs \<Rightarrow> xs)"

named_theorems gomap

lemma gm_wf_Nil [simp, intro]: "gm_wf []"
  by (simp add: gm_wf_def)

lemma gm_wf_set [simp, intro]: "gm_wf m \<Longrightarrow> gm_wf (gm_set k v m)"
  by (simp add: gm_wf_def distinct_update)

lemma gm_wf_del [simp, intro]: "gm_wf m \<Longrightarrow> gm_wf (gm_del k m)"
  by (simp add: gm_wf_def distinct_delete)

lemma gm_get_set [simp]: "gm_get (gm_set k v m) = (gm_get m)(k \<mapsto> v)"
  by (rule update_conv')

lemma gm_get_del [simp]: "gm_get (gm_del k m) = (gm_get m)(k := None)"
  by (rule delete_conv')

lemma gm_get_in [dest]: "gm_get m k = Some v \<Longrightarrow> (k, v) \<in> set m"
  by (rule map_of_SomeD)

lemma gm_wf_get: "gm_wf m \<Longrightarrow> gm_get m k = Some v \<longleftrightarrow> (k, v) \<in> set m"
  by (simp add: gm_wf_def map_of_eq_Some_iff)

lemma gm_empty_iff: "m = [] \<longleftrightarrow> (\<forall>k. gm_get m k = None)"
proof
  assume *: "\<forall>k. gm_get m k = None"
  show "m = []"
  proof (cases m)
    case (Cons p ps)
    from * have "gm_get m (fst p) = None" by (rule spec)
    with Cons show ?thesis by (cases p) simp
  qed
qed simp

lemma gm_list_set [simp]: "gm_list (gm_set k v m) k' = (if k' = k then v else gm_list m k')"
  by (simp add: gm_list_def)

lemma gm_list_del [simp]: "gm_list (gm_del k m) k' = (if k' = k then [] else gm_list m k')"
  by (simp add: gm_list_def)

lemma gm_list_Some: "gm_get m k = Some xs \<Longrightarrow> gm_list m k = xs"
  by (simp add: gm_list_def)

lemma gm_list_None: "gm_get m k = None \<Longrightarrow> gm_list m k = []"
  by (simp add: gm_list_def)

text \<open>Counting the entries of a map that satisfy a predicate.\<close>

definition gm_count :: "('v \<Rightarrow> bool) \<Rightarrow> ('k, 'v) gomap \<Rightarrow> nat" where
  "gm_count P m = length (filter (P \<circ> snd) m)"

lemma gm_count_Nil [simp]: "gm_count P [] = 0"
  by (simp add: gm_count_def)

lemma gm_count_fresh:
  "gm_get m k = None \<Longrightarrow> gm_count P (gm_set k v m) = gm_count P m + (if P v then 1 else 0)"
  by (induction m) (auto simp: gm_count_def split: if_splits)

lemma gm_count_del:
  "gm_wf m \<Longrightarrow> gm_get m k = Some v \<Longrightarrow>
     gm_count P (gm_del k m) = gm_count P m - (if P v then 1 else 0)"
proof (induction m)
  case (Cons p m)
  show ?case
  proof (cases "fst p = k")
    case True
    with Cons.prems have "k \<notin> fst ` set m" "snd p = v"
      by (auto simp: gm_wf_def)
    with True show ?thesis by (simp add: gm_count_def)
  next
    case False
    with Cons.prems have *: "gm_wf m" "gm_get m k = Some v"
      by (auto simp: gm_wf_def split: if_splits)
    then have "P v \<Longrightarrow> gm_count P m > 0"
      by (force simp: gm_count_def filter_empty_conv dest: map_of_SomeD)
    with Cons.IH [OF *] False show ?thesis
      by (auto simp: gm_count_def)
  qed
qed simp

lemma gm_count_update:
  "gm_get m k = Some v \<Longrightarrow> P v = P v' \<Longrightarrow> gm_count P (gm_set k v' m) = gm_count P m"
  by (induction m) (auto simp: gm_count_def split: if_splits)

lemma gm_count_cong:
  "(\<And>k v. (k, v) \<in> set m \<Longrightarrow> P v = Q v) \<Longrightarrow> gm_count P m = gm_count Q m"
  unfolding gm_count_def by (rule arg_cong [where f = length], rule filter_cong) auto

lemma gm_count_pos: "gm_count P m > 0 \<longleftrightarrow> (\<exists>k v. (k, v) \<in> set m \<and> P v)"
  by (force simp: gm_count_def filter_empty_conv)

section \<open>Go sets\<close>

definition gs_add :: "'a \<Rightarrow> 'a goset \<Rightarrow> 'a goset" where
  "gs_add x xs = (if x \<in> set xs then xs else xs @ [x])"

definition gs_del :: "'a \<Rightarrow> 'a goset \<Rightarrow> 'a goset" where
  "gs_del x xs = filter (\<lambda>y. y \<noteq> x) xs"

lemma set_gs_add [simp]: "set (gs_add x xs) = insert x (set xs)"
  by (auto simp: gs_add_def)

lemma set_gs_del [simp]: "set (gs_del x xs) = set xs - {x}"
  by (auto simp: gs_del_def)

lemma distinct_gs_add [simp, intro]: "distinct xs \<Longrightarrow> distinct (gs_add x xs)"
  by (simp add: gs_add_def)

lemma distinct_gs_del [simp, intro]: "distinct xs \<Longrightarrow> distinct (gs_del x xs)"
  by (simp add: gs_del_def)

lemma length_gs_add: "x \<notin> set xs \<Longrightarrow> length (gs_add x xs) = Suc (length xs)"
  by (simp add: gs_add_def)

lemma length_gs_del:
  "distinct xs \<Longrightarrow> x \<in> set xs \<Longrightarrow> length (gs_del x xs) = length xs - 1"
  by (metis card_Diff_singleton distinct_card distinct_gs_del set_gs_del)

section \<open>Go strings\<close>

text \<open>
  \<open>split_first c s\<close> splits \<open>s\<close> at the first \<open>c\<close>: \<^verbatim>\<open>strings.SplitN(s, c, 2)\<close> is
  \<open>[a, b]\<close> when it is \<open>(a, Some b)\<close> and \<open>[a]\<close> when it is \<open>(a, None)\<close>.
\<close>

definition split_first :: "char \<Rightarrow> string \<Rightarrow> string \<times> string option" where
  "split_first c s =
     (takeWhile (\<lambda>x. x \<noteq> c) s,
      (case dropWhile (\<lambda>x. x \<noteq> c) s of [] \<Rightarrow> None | _ # r \<Rightarrow> Some r))"

lemma takeWhile_neq_notin: "c \<notin> set (takeWhile (\<lambda>x. x \<noteq> c) s)"
  by (induction s) auto

lemma split_first_append: "c \<notin> set a \<Longrightarrow> split_first c (a @ c # b) = (a, Some b)"
  by (induction a) (auto simp: split_first_def)

lemma split_first_plain: "c \<notin> set a \<Longrightarrow> split_first c a = (a, None)"
  by (induction a) (auto simp: split_first_def)

lemma split_first_notin: "c \<notin> set (fst (split_first c s))"
  by (simp add: split_first_def takeWhile_neq_notin)

lemma split_first_cases:
  obtains (absent) "c \<notin> set s" "split_first c s = (s, None)"
  | (present) a b where "s = a @ c # b" "c \<notin> set a" "split_first c s = (a, Some b)"
proof (cases "c \<in> set s")
  case True
  then obtain a b where "s = a @ c # b" "c \<notin> set a" by (metis split_list_first)
  then show ?thesis using present by (simp add: split_first_append)
next
  case False
  then show ?thesis using absent by (simp add: split_first_plain)
qed

lemma split_first_Some: "split_first c s = (a, Some b) \<Longrightarrow> s = a @ c # b \<and> c \<notin> set a"
  by (rule split_first_cases [of c s]) auto

lemma split_first_None: "split_first c s = (a, None) \<Longrightarrow> s = a \<and> c \<notin> set a"
  by (rule split_first_cases [of c s]) auto

text \<open>
  \<^verbatim>\<open>unicode.IsSpace\<close>, \<^verbatim>\<open>IsDigit\<close> and \<^verbatim>\<open>IsLetter\<close> on the runes below 256, as the
  unicode package's Latin-1 property table has them.
\<close>

definition rune_space :: "char \<Rightarrow> bool" where
  "rune_space c = (let n = (of_char c :: nat)
                   in n \<in> {9, 10, 11, 12, 13, 32, 133, 160})"

definition rune_digit :: "char \<Rightarrow> bool" where
  "rune_digit c = (let n = (of_char c :: nat) in 48 \<le> n \<and> n \<le> 57)"

definition rune_letter :: "char \<Rightarrow> bool" where
  "rune_letter c = (let n = (of_char c :: nat)
                    in (65 \<le> n \<and> n \<le> 90) \<or> (97 \<le> n \<and> n \<le> 122) \<or> n \<in> {170, 181, 186}
                       \<or> (192 \<le> n \<and> n \<noteq> 215 \<and> n \<noteq> 247))"

text \<open>\<^verbatim>\<open>strings.ToLower\<close> on ASCII letters.\<close>

definition lower_char :: "char \<Rightarrow> char" where
  "lower_char c = (let n = (of_char c :: nat)
                   in if 65 \<le> n \<and> n \<le> 90 then char_of (n + 32) else c)"

definition to_lower :: "string \<Rightarrow> string" where
  "to_lower s = map lower_char s"

definition trim_left :: "string \<Rightarrow> string" where
  "trim_left s = dropWhile rune_space s"

definition trim_space :: "string \<Rightarrow> string" where
  "trim_space s = rev (dropWhile rune_space (rev (dropWhile rune_space s)))"

text \<open>\<^verbatim>\<open>strings.Split(s, c)\<close> and \<^verbatim>\<open>strings.Join(xs, c)\<close> for a one-byte separator.\<close>

fun split_all :: "char \<Rightarrow> string \<Rightarrow> string list" where
  "split_all c [] = [[]]"
| "split_all c (x # xs) =
     (if x = c then [] # split_all c xs
      else (case split_all c xs of [] \<Rightarrow> [[x]] | p # ps \<Rightarrow> (x # p) # ps))"

fun join_with :: "string \<Rightarrow> string list \<Rightarrow> string" where
  "join_with sep [] = []"
| "join_with sep [x] = x"
| "join_with sep (x # y # xs) = x @ sep @ join_with sep (y # xs)"

lemma split_all_ne [simp]: "split_all c s \<noteq> []"
  by (cases s) (auto split: list.splits)

lemma split_all_plain: "c \<notin> set a \<Longrightarrow> split_all c a = [a]"
  by (induction a) auto

lemma split_all_append: "c \<notin> set a \<Longrightarrow> split_all c (a @ c # b) = a # split_all c b"
  by (induction a) auto

lemma split_all_parts: "p \<in> set (split_all c s) \<Longrightarrow> c \<notin> set p"
  by (induction s arbitrary: p) (auto split: if_splits list.splits)

lemma join_split_all: "join_with [c] (split_all c s) = s"
proof (induction s)
  case (Cons x s)
  obtain p ps where s: "split_all c s = p # ps" by (cases "split_all c s") simp_all
  show ?case using Cons.IH by (cases ps) (simp_all add: s)
qed simp

text \<open>\<^verbatim>\<open>path.Clean\<close> and \<^verbatim>\<open>path.Join\<close>.\<close>

definition path_push :: "bool \<Rightarrow> string list \<Rightarrow> string \<Rightarrow> string list" where
  "path_push rooted stack e =
     (if e = '''' \<or> e = ''.'' then stack
      else if e = ''..'' then
        (case stack of
           t # ts \<Rightarrow> if t \<noteq> ''..'' then ts else e # stack
         | [] \<Rightarrow> if rooted then [] else [e])
      else e # stack)"

definition path_clean :: "string \<Rightarrow> string" where
  "path_clean s =
     (let rooted = (take 1 s = ''/'');
          parts = rev (foldl (path_push rooted) [] (split_all (CHR ''/'') s));
          body = join_with ''/'' parts
      in if rooted then ''/'' @ body else if body = '''' then ''.'' else body)"

definition path_join :: "string list \<Rightarrow> string" where
  "path_join es = (case dropWhile (\<lambda>e. e = '''') es of
     [] \<Rightarrow> '''' | es' \<Rightarrow> path_clean (join_with ''/'' es'))"

definition path_part :: "string \<Rightarrow> bool" where
  "path_part e \<longleftrightarrow> CHR ''/'' \<notin> set e \<and> e \<noteq> '''' \<and> e \<noteq> ''.'' \<and> e \<noteq> ''..''"

lemma path_push_part: "path_part e \<Longrightarrow> path_push rooted stack e = e # stack"
  by (simp add: path_push_def path_part_def)

lemma path_join_parts:
  assumes "path_part a" "path_part b"
  shows "path_join [''/'' @ a, b] = ''/'' @ a @ ''/'' @ b"
proof -
  have ns: "CHR ''/'' \<notin> set a" "CHR ''/'' \<notin> set b"
    using assms by (simp_all add: path_part_def)
  have "split_all (CHR ''/'') (''/'' @ a @ ''/'' @ b) = [[], a, b]"
    using split_all_append [OF ns(1), of b] split_all_plain [OF ns(2)] by simp
  then show ?thesis
    using assms by (simp add: path_join_def path_clean_def path_push_part path_push_def [of _ _ "[]"])
qed

text \<open>\<^verbatim>\<open>path.Split\<close>: everything up to and including the last slash, and the rest.\<close>

definition path_split :: "string \<Rightarrow> string \<times> string" where
  "path_split s = (rev (dropWhile (\<lambda>c. c \<noteq> CHR ''/'') (rev s)),
                   rev (takeWhile (\<lambda>c. c \<noteq> CHR ''/'') (rev s)))"

lemma path_split_append: "CHR ''/'' \<notin> set b \<Longrightarrow> path_split (a @ ''/'' @ b) = (a @ ''/'', b)"
proof -
  assume "CHR ''/'' \<notin> set b"
  then have "\<forall>x \<in> set (rev b). x \<noteq> CHR ''/''" by auto
  then show ?thesis by (simp add: path_split_def takeWhile_append dropWhile_append)
qed

lemma dropWhile_none: "(\<And>x. x \<in> set s \<Longrightarrow> \<not> P x) \<Longrightarrow> dropWhile P s = s"
  by (cases s) auto

lemma trim_space_id: "\<forall>c \<in> set s. \<not> rune_space c \<Longrightarrow> trim_space s = s"
  using dropWhile_none [of s rune_space] dropWhile_none [of "rev s" rune_space] by (simp add: trim_space_def)

section \<open>Decimal numbers\<close>

text \<open>\<^verbatim>\<open>fmt.Sprintf("%d", i)\<close> and \<^verbatim>\<open>strconv.ParseInt(s, 10, 64)\<close>.\<close>

fun nat_digits :: "nat \<Rightarrow> string" where
  "nat_digits n = (if n < 10 then [char_of (48 + n)] else nat_digits (n div 10) @ [char_of (48 + n mod 10)])"

declare nat_digits.simps [simp del]

definition digits_val :: "string \<Rightarrow> nat" where
  "digits_val s = foldl (\<lambda>n c. n * 10 + (of_char c - 48)) 0 s"

definition parse_nat :: "string \<Rightarrow> nat option" where
  "parse_nat s = (if s \<noteq> [] \<and> list_all rune_digit s then Some (digits_val s) else None)"

definition itoa :: "int \<Rightarrow> string" where
  "itoa i = (if i < 0 then CHR ''-'' # nat_digits (nat (- i)) else nat_digits (nat i))"

definition parse_int :: "string \<Rightarrow> int option" where
  "parse_int s =
     (case s of
        [] \<Rightarrow> None
      | c # r \<Rightarrow> if c = CHR ''-'' then map_option (\<lambda>n. - int n) (parse_nat r)
                 else if c = CHR ''+'' then map_option int (parse_nat r)
                 else map_option int (parse_nat s))"

definition parse_int64 :: "string \<Rightarrow> int option" where
  "parse_int64 s =
     (case parse_int s of
        None \<Rightarrow> None
      | Some i \<Rightarrow> if - (2 ^ 63) \<le> i \<and> i < 2 ^ 63 then Some i else None)"

lemma digit_char: "d < 10 \<Longrightarrow> of_char (char_of (48 + d) :: char) = 48 + (d :: nat)"
  by simp

lemma nat_digits_parse: "nat_digits n \<noteq> [] \<and> list_all rune_digit (nat_digits n) \<and> digits_val (nat_digits n) = n"
proof (induction n rule: nat_digits.induct)
  case (1 n)
  show ?case
  proof (cases "n < 10")
    case True
    then show ?thesis by (subst (1 2 3) nat_digits.simps) (simp add: rune_digit_def digits_val_def)
  next
    case False
    with 1 have "digits_val (nat_digits (n div 10)) = n div 10" "list_all rune_digit (nat_digits (n div 10))" by simp_all
    then show ?thesis using False
      by (subst (1 2 3) nat_digits.simps) (simp add: rune_digit_def digits_val_def)
  qed
qed

lemma parse_nat_digits: "parse_nat (nat_digits n) = Some n"
  by (simp add: parse_nat_def nat_digits_parse)

lemma parse_int_itoa: "parse_int (itoa i) = Some i"
proof (cases "i < 0")
  case True
  then show ?thesis by (simp add: itoa_def parse_int_def parse_nat_digits)
next
  case False
  let ?s = "nat_digits (nat i)"
  obtain c r where s: "?s = c # r" using nat_digits_parse [of "nat i"] by (cases ?s) simp_all
  have "rune_digit c" using nat_digits_parse [of "nat i"] by (simp add: s)
  then have "c \<noteq> CHR ''-''" "c \<noteq> CHR ''+''" by (auto simp: rune_digit_def)
  then show ?thesis using False parse_nat_digits [of "nat i"] by (simp add: itoa_def parse_int_def s)
qed

lemma parse_int64_itoa: "- (2 ^ 63) \<le> i \<Longrightarrow> i < 2 ^ 63 \<Longrightarrow> parse_int64 (itoa i) = Some i"
  by (simp add: parse_int64_def parse_int_itoa)

section \<open>Lists\<close>

lemma distinct_map_nth:
  "distinct (map f xs) \<Longrightarrow> i < length xs \<Longrightarrow> j < length xs \<Longrightarrow> f (xs ! i) = f (xs ! j) \<Longrightarrow> i = j"
  using nth_eq_iff_index_eq [of "map f xs" i j] by simp

section \<open>Results\<close>

text \<open>A Go function that returns \<^verbatim>\<open>(T, error)\<close> is a sum, the error on the left.\<close>

definition is_ok :: "'e + 'a \<Rightarrow> bool" where
  "is_ok r = (case r of Inl _ \<Rightarrow> False | Inr _ \<Rightarrow> True)"

lemma is_ok_simps [simp]: "\<not> is_ok (Inl e)" "is_ok (Inr x)"
  by (simp_all add: is_ok_def)

end
