(* ===== verification/Registrar.thy ===== *)
theory Registrar
  imports GoPrelude
begin

text \<open>
  The name registrar of pkg/registrar/registrar.go: a two-way index between names and
  keys. \<open>names\<close> maps a reserved name to its key, \<open>idx\<close> a key to the list of its
  names, in the order they were reserved. Every operation holds the one mutex for its
  whole body, so each is one atomic state transformer.
\<close>

section \<open>State and operations\<close>

datatype registrar_error = ErrNameReserved | ErrNameNotReserved | ErrNoSuchKey

record registrar =
  idx :: "(string, string list) gomap"
  names :: "(string, string) gomap"

definition new_registrar :: registrar where
  "new_registrar = \<lparr>idx = [], names = []\<rparr>"

definition reserve :: "string \<Rightarrow> string \<Rightarrow> registrar \<Rightarrow> registrar \<times> registrar_error option" where
  "reserve name key r =
     (case gm_get (names r) name of
        Some k \<Rightarrow> if k \<noteq> key then (r, Some ErrNameReserved) else (r, None)
      | None \<Rightarrow>
          (r\<lparr>idx := gm_set key (gm_list (idx r) key @ [name]) (idx r),
             names := gm_set name key (names r)\<rparr>, None))"

text \<open>
  The loop of \<^verbatim>\<open>Release\<close> cuts the first occurrence of the name out of the key's slice
  (\<^const>\<open>remove1\<close>) and leaves the map alone when there is none.
\<close>

definition release :: "string \<Rightarrow> registrar \<Rightarrow> registrar" where
  "release name r =
     (case gm_get (names r) name of
        None \<Rightarrow> r
      | Some key \<Rightarrow>
          let ns = gm_list (idx r) key;
              idx1 = (if name \<in> set ns then gm_set key (remove1 name ns) (idx r) else idx r);
              names1 = gm_del name (names r);
              idx2 = (if length (gm_list idx1 key) = 0 then gm_del key idx1 else idx1)
          in r\<lparr>idx := idx2, names := names1\<rparr>)"

definition delete_key :: "string \<Rightarrow> registrar \<Rightarrow> registrar" where
  "delete_key key r =
     r\<lparr>names := fold gm_del (gm_list (idx r) key) (names r),
       idx := gm_del key (idx r)\<rparr>"

definition get_names :: "string \<Rightarrow> registrar \<Rightarrow> registrar_error + string list" where
  "get_names key r =
     (case gm_get (idx r) key of None \<Rightarrow> Inl ErrNoSuchKey | Some ns \<Rightarrow> Inr ns)"

definition get_key :: "string \<Rightarrow> registrar \<Rightarrow> registrar_error + string" where
  "get_key name r =
     (case gm_get (names r) name of None \<Rightarrow> Inl ErrNameNotReserved | Some k \<Rightarrow> Inr k)"

definition get_all :: "registrar \<Rightarrow> (string, string list) gomap" where
  "get_all r = fold (\<lambda>(id, ns) out. gm_set id ns out) (idx r) []"

section \<open>The invariant\<close>

text \<open>
  The two indexes are inverse to each other, no name is listed twice, and no key is kept
  without a name.
\<close>

definition reg_inv :: "registrar \<Rightarrow> bool" where
  "reg_inv r \<longleftrightarrow> gm_wf (idx r) \<and> gm_wf (names r) \<and>
     (\<forall>k n. n \<in> set (gm_list (idx r) k) \<longleftrightarrow> gm_get (names r) n = Some k) \<and>
     (\<forall>k. distinct (gm_list (idx r) k)) \<and>
     (\<forall>k. gm_get (idx r) k \<noteq> Some [])"

lemma reg_invD:
  assumes "reg_inv r"
  shows "gm_wf (idx r)" "gm_wf (names r)"
    and "\<And>k n. n \<in> set (gm_list (idx r) k) \<longleftrightarrow> gm_get (names r) n = Some k"
    and "\<And>k. distinct (gm_list (idx r) k)"
    and "\<And>k. gm_get (idx r) k \<noteq> Some []"
  using assms by (auto simp: reg_inv_def)

lemma reg_inv_new [simp, intro]: "reg_inv new_registrar"
  by (simp add: reg_inv_def new_registrar_def gm_list_def)

lemma reserve_inv: "reg_inv r \<Longrightarrow> reg_inv (fst (reserve name key r))"
  by (auto simp: reg_inv_def reserve_def split: option.splits)

lemma release_names [simp]:
  "names (release name r) = (if gm_get (names r) name = None then names r else gm_del name (names r))"
  by (auto simp: release_def Let_def split: option.splits)

lemma release_idx:
  assumes "reg_inv r" "gm_get (names r) name = Some key"
  shows "gm_list (idx (release name r)) k =
           (if k = key then remove1 name (gm_list (idx r) key) else gm_list (idx r) k)"
    and "gm_wf (idx (release name r))"
    and "gm_get (idx (release name r)) k \<noteq> Some []"
proof -
  have mem: "name \<in> set (gm_list (idx r) key)" using reg_invD(3) [OF assms(1)] assms(2) by blast
  show "gm_list (idx (release name r)) k =
           (if k = key then remove1 name (gm_list (idx r) key) else gm_list (idx r) k)"
    using assms(2) mem by (simp add: release_def Let_def)
  show "gm_wf (idx (release name r))"
    using assms mem by (simp add: release_def Let_def reg_inv_def)
  show "gm_get (idx (release name r)) k \<noteq> Some []"
    using assms(2) mem reg_invD(5) [OF assms(1)] by (auto simp: release_def Let_def)
qed

lemma release_inv:
  assumes inv: "reg_inv r"
  shows "reg_inv (release name r)"
proof (cases "gm_get (names r) name")
  case None
  with inv show ?thesis by (simp add: release_def)
next
  case (Some key)
  note facts = release_idx [OF inv Some]
  show ?thesis
    unfolding reg_inv_def
    using inv Some facts reg_invD [OF inv]
    by (auto simp: set_remove1_eq)
qed

lemma fold_gm_del_get:
  "gm_get (fold gm_del ks m) k = (if k \<in> set ks then None else gm_get m k)"
  by (induction ks arbitrary: m) auto

lemma fold_gm_del_wf: "gm_wf m \<Longrightarrow> gm_wf (fold gm_del ks m)"
  by (induction ks arbitrary: m) auto

lemma delete_key_inv:
  assumes "reg_inv r"
  shows "reg_inv (delete_key key r)"
  using reg_invD [OF assms] unfolding reg_inv_def delete_key_def
  by (auto simp: fold_gm_del_get fold_gm_del_wf)

lemma get_all_eq: "gm_wf m \<Longrightarrow> gm_get (fold (\<lambda>(id, ns) out. gm_set id ns out) m acc) k =
    (case gm_get m k of None \<Rightarrow> gm_get acc k | Some v \<Rightarrow> Some v)"
proof (induction m arbitrary: acc)
  case (Cons p m)
  then have "gm_wf m" "gm_get m (fst p) = None"
    by (auto simp: gm_wf_def map_of_eq_None_iff)
  with Cons.IH show ?case by (auto split: prod.splits option.splits)
qed simp

section \<open>Abstract specification and refinement\<close>

text \<open>
  What clients rely on is a partial function from names to keys. \<open>reserve\<close> is a
  compare-and-set on it, \<open>release\<close> and \<open>delete_key\<close> restrict it.
\<close>

definition reg_abs :: "registrar \<Rightarrow> string \<Rightarrow> string option" where
  "reg_abs r = gm_get (names r)"

definition reserve_spec ::
  "string \<Rightarrow> string \<Rightarrow> (string \<Rightarrow> string option) \<Rightarrow> (string \<Rightarrow> string option) \<times> bool" where
  "reserve_spec name key f =
     (if f name = None \<or> f name = Some key then (f(name := Some key), True) else (f, False))"

lemma reserve_refines:
  "(reg_abs (fst (reserve name key r)), snd (reserve name key r) = None)
     = reserve_spec name key (reg_abs r)"
  by (auto simp: reg_abs_def reserve_spec_def reserve_def split: option.splits)

lemma release_refines: "reg_abs (release name r) = (reg_abs r)(name := None)"
  by (auto simp: reg_abs_def)

lemma delete_key_refines:
  assumes "reg_inv r"
  shows "reg_abs (delete_key key r) = (\<lambda>n. if reg_abs r n = Some key then None else reg_abs r n)"
  using reg_invD(3) [OF assms]
  by (auto simp: reg_abs_def delete_key_def fold_gm_del_get fun_eq_iff)

lemma get_names_abs:
  assumes "reg_inv r"
  shows "get_names key r = Inr ns \<Longrightarrow> set ns = {n. reg_abs r n = Some key}"
    and "(\<exists>e. get_names key r = Inl e) \<longleftrightarrow> {n. reg_abs r n = Some key} = {}"
proof -
  have *: "set (gm_list (idx r) key) = {n. reg_abs r n = Some key}"
    using reg_invD(3) [OF assms] by (auto simp: reg_abs_def)
  show "get_names key r = Inr ns \<Longrightarrow> set ns = {n. reg_abs r n = Some key}"
    using * by (auto simp: get_names_def gm_list_Some split: option.splits)
  show "(\<exists>e. get_names key r = Inl e) \<longleftrightarrow> {n. reg_abs r n = Some key} = {}"
    using * [symmetric] reg_invD(5) [OF assms, of key]
    by (auto simp: get_names_def gm_list_def split: option.splits)
qed

lemma get_key_abs: "get_key name r = Inr k \<longleftrightarrow> reg_abs r name = Some k"
  by (auto simp: get_key_def reg_abs_def split: option.splits)

section \<open>Interface of the name index\<close>

text \<open>
  What the daemon's naming code uses of the registrar: reserving is a compare-and-set on
  the abstract index, releasing removes exactly one name, lookups read it.
\<close>

locale name_index =
  fixes nreserve :: "string \<Rightarrow> string \<Rightarrow> 'r \<Rightarrow> 'r \<times> registrar_error option"
    and nrelease :: "string \<Rightarrow> 'r \<Rightarrow> 'r"
    and nget :: "string \<Rightarrow> 'r \<Rightarrow> registrar_error + string"
    and nabs :: "'r \<Rightarrow> string \<Rightarrow> string option"
    and ninv :: "'r \<Rightarrow> bool"
  assumes reserve_inv: "ninv r \<Longrightarrow> ninv (fst (nreserve n k r))"
    and release_inv: "ninv r \<Longrightarrow> ninv (nrelease n r)"
    and reserve_ok: "snd (nreserve n k r) = None \<longleftrightarrow> nabs r n = None \<or> nabs r n = Some k"
    and reserve_err: "snd (nreserve n k r) = Some e \<Longrightarrow> e = ErrNameReserved \<and> fst (nreserve n k r) = r"
    and reserve_abs: "snd (nreserve n k r) = None \<Longrightarrow> nabs (fst (nreserve n k r)) = (nabs r)(n := Some k)"
    and release_abs: "nabs (nrelease n r) = (nabs r)(n := None)"
    and get_iff: "nget n r = Inr k \<longleftrightarrow> nabs r n = Some k"
begin

text \<open>Reserving never takes a name away from another key.\<close>

lemma reserve_keeps:
  "nabs r m = Some j \<Longrightarrow> nabs (fst (nreserve n k r)) m = Some j"
  by (cases "snd (nreserve n k r)") (auto simp: reserve_abs reserve_ok dest: reserve_err)

lemma reserve_conflict:
  "nabs r n = Some j \<Longrightarrow> j \<noteq> k \<Longrightarrow>
     nreserve n k r = (r, Some ErrNameReserved) \<and> nget n r = Inr j"
  by (metis get_iff option.distinct(1) option.exhaust option.inject prod.collapse reserve_err reserve_ok)

lemma reserve_release:
  "nabs r n = None \<Longrightarrow> nabs (nrelease n (fst (nreserve n k r))) = nabs r"
  by (auto simp: release_abs reserve_abs reserve_ok fun_eq_iff)

end

interpretation reg: name_index reserve release get_key reg_abs reg_inv
proof (unfold_locales, goal_cases)
  case (1 r n k) then show ?case by (rule reserve_inv)
next
  case (2 r n) then show ?case by (rule release_inv)
next
  case (3 n k r) show ?case by (auto simp: reserve_def reg_abs_def split: option.splits)
next
  case (4 n k r e) then show ?case by (auto simp: reserve_def split: option.splits if_splits)
next
  case (5 n k r) then show ?case by (auto simp: reserve_def reg_abs_def split: option.splits if_splits)
next
  case (6 n r) show ?case by (rule release_refines)
next
  case (7 n r k) show ?case by (rule get_key_abs)
qed

text \<open>Operations on the registrar, and what they do to the abstract index.\<close>

datatype reg_op = Reserve string string | Release string | DeleteKey string

fun reg_step :: "reg_op \<Rightarrow> registrar \<Rightarrow> registrar" where
  "reg_step (Reserve n k) r = fst (reserve n k r)"
| "reg_step (Release n) r = release n r"
| "reg_step (DeleteKey k) r = delete_key k r"

fun reg_spec :: "reg_op \<Rightarrow> (string \<Rightarrow> string option) \<Rightarrow> string \<Rightarrow> string option" where
  "reg_spec (Reserve n k) f = fst (reserve_spec n k f)"
| "reg_spec (Release n) f = f(n := None)"
| "reg_spec (DeleteKey k) f = (\<lambda>n. if f n = Some k then None else f n)"

lemma reg_run:
  "reg_inv r \<Longrightarrow> reg_inv (fold reg_step ops r) \<and> reg_abs (fold reg_step ops r) = fold reg_spec ops (reg_abs r)"
proof (induction ops arbitrary: r)
  case (Cons op ops)
  have "reg_inv (reg_step op r)"
    using Cons.prems by (cases op) (simp_all add: reg.reserve_inv reg.release_inv delete_key_inv)
  moreover have "reg_abs (reg_step op r) = reg_spec op (reg_abs r)"
    using Cons.prems reserve_refines [THEN arg_cong [where f = fst]]
    by (cases op) (simp_all add: release_refines delete_key_refines)
  ultimately show ?case using Cons.IH by simp
qed simp

text \<open>
  C6. The registrar behaves as one partial function from names to keys under every sequence
  of operations, and its two indexes agree with it: a name is looked up as that function
  says, and a key lists each of its names once, and is unknown when it has none.
\<close>

theorem registrar_refines:
  "(get_key n (fold reg_step ops new_registrar) = Inr k \<longleftrightarrow> fold reg_spec ops (\<lambda>_. None) n = Some k) \<and>
    (case get_names k (fold reg_step ops new_registrar) of
       Inl _ \<Rightarrow> {m. fold reg_spec ops (\<lambda>_. None) m = Some k} = {}
     | Inr ns \<Rightarrow> distinct ns \<and> ns \<noteq> [] \<and> set ns = {m. fold reg_spec ops (\<lambda>_. None) m = Some k})"
proof -
  define r where "r = (\<lambda>ops. fold reg_step ops new_registrar)"
  define f where "f = (\<lambda>ops. fold reg_spec ops (\<lambda>_. None))"
  have abs0: "reg_abs new_registrar = (\<lambda>_. None)" by (simp add: reg_abs_def new_registrar_def fun_eq_iff)
  have inv: "reg_inv (r ops)" and abs: "reg_abs (r ops) = f ops"
    using reg_run [OF reg_inv_new, of ops] by (simp_all add: r_def f_def abs0)
  note names = get_names_abs [OF inv, of k, unfolded abs]
  have "case get_names k (r ops) of Inl _ \<Rightarrow> {m. f ops m = Some k} = {}
     | Inr ns \<Rightarrow> distinct ns \<and> ns \<noteq> [] \<and> set ns = {m. f ops m = Some k}"
  proof (cases "get_names k (r ops)")
    case (Inl e)
    with names(2) show ?thesis by simp
  next
    case (Inr ns)
    then have "gm_get (idx (r ops)) k = Some ns" by (simp add: get_names_def split: option.splits)
    with reg_invD(4,5) [OF inv, of k] names(1) [OF Inr] Inr show ?thesis by (auto simp: gm_list_Some)
  qed
  with get_key_abs [of n "r ops" k] abs show ?thesis unfolding r_def f_def by simp
qed

end
