(* ===== verification/TruncIndex.thy ===== *)
theory TruncIndex
  imports GoPrelude
begin

text \<open>
  The truncated-identifier index of pkg/truncindex/truncindex.go: identifiers are found by
  any unambiguous prefix. The index keeps a set of identifiers and a patricia trie of them.

  The trie is the vendored package go-patricia and enters as a record of functions
  \<open>trie_ops\<close>; \<open>trie_laws\<close> states the documented behaviour the code relies on: a key is
  inserted once, a present key is deleted, \<^verbatim>\<open>VisitSubtree\<close> calls the visitor once on every
  stored key with the given prefix.
\<close>

section \<open>The trie\<close>

record 't trie_ops =
  t_empty :: 't
  t_insert :: "string \<Rightarrow> 't \<Rightarrow> 't \<times> bool"
  t_delete :: "string \<Rightarrow> 't \<Rightarrow> 't \<times> bool"
  t_subtree :: "string \<Rightarrow> 't \<Rightarrow> string list"

definition trie_laws :: "'t trie_ops \<Rightarrow> ('t \<Rightarrow> string set) \<Rightarrow> bool" where
  "trie_laws T keys \<longleftrightarrow>
     keys (t_empty T) = {} \<and>
     (\<forall>k t. keys (fst (t_insert T k t)) = insert k (keys t) \<and>
            (snd (t_insert T k t) \<longleftrightarrow> k \<notin> keys t)) \<and>
     (\<forall>k t. k \<in> keys t \<longrightarrow> keys (fst (t_delete T k t)) = keys t - {k} \<and> snd (t_delete T k t)) \<and>
     (\<forall>p t. distinct (t_subtree T p t) \<and> set (t_subtree T p t) = {k \<in> keys t. prefix p k})"

text \<open>A list of keys is an instance of the laws.\<close>

definition list_trie :: "string list trie_ops" where
  "list_trie = \<lparr>t_empty = [],
     t_insert = (\<lambda>k t. (gs_add k t, k \<notin> set t)),
     t_delete = (\<lambda>k t. (gs_del k t, k \<in> set t)),
     t_subtree = (\<lambda>p t. filter (prefix p) (remdups t))\<rparr>"

lemma list_trie_laws: "trie_laws list_trie set"
  by (auto simp: trie_laws_def list_trie_def)

section \<open>State and operations\<close>

datatype trunc_error =
    ErrEmptyPrefix
  | ErrIllegalChar
  | ErrNotExist
  | ErrAmbiguousPrefix string
  | ErrIdExists string
  | ErrInsertFailed string
  | ErrNoSuchId string

record 't truncindex =
  ti_ids :: "string goset"
  ti_trie :: 't

definition addID :: "'t trie_ops \<Rightarrow> string \<Rightarrow> 't truncindex \<Rightarrow> 't truncindex \<times> trunc_error option" where
  "addID T cid ix =
     (if CHR '' '' \<in> set cid then (ix, Some ErrIllegalChar)
      else if cid = '''' then (ix, Some ErrEmptyPrefix)
      else if cid \<in> set (ti_ids ix) then (ix, Some (ErrIdExists cid))
      else (let ix1 = ix\<lparr>ti_ids := gs_add cid (ti_ids ix)\<rparr>;
                (t, inserted) = t_insert T cid (ti_trie ix)
            in (ix1\<lparr>ti_trie := t\<rparr>,
                if inserted then None else Some (ErrInsertFailed cid))))"

definition newTruncIndex :: "'t trie_ops \<Rightarrow> string list \<Rightarrow> 't truncindex" where
  "newTruncIndex T ids =
     fold (\<lambda>cid ix. fst (addID T cid ix)) ids \<lparr>ti_ids = [], ti_trie = t_empty T\<rparr>"

definition trunc_delete ::
  "'t trie_ops \<Rightarrow> string \<Rightarrow> 't truncindex \<Rightarrow> 't truncindex \<times> trunc_error option" where
  "trunc_delete T cid ix =
     (if cid \<notin> set (ti_ids ix) \<or> cid = '''' then (ix, Some (ErrNoSuchId cid))
      else (let (t, deleted) = t_delete T cid (ti_trie ix)
            in (ix\<lparr>ti_ids := gs_del cid (ti_ids ix), ti_trie := t\<rparr>,
                if deleted then None else Some (ErrNoSuchId cid))))"

text \<open>
  The visitor of \<^verbatim>\<open>Get\<close> keeps the identifier found so far in a captured variable, the
  empty string at first; a second visit stops the walk with an error that carries the key
  being visited.
\<close>

fun visit_get :: "string \<Rightarrow> string list \<Rightarrow> trunc_error + string" where
  "visit_get cid [] = Inr cid"
| "visit_get cid (k # ks) =
     (if cid \<noteq> '''' then Inl (ErrAmbiguousPrefix k) else visit_get k ks)"

definition trunc_get :: "'t trie_ops \<Rightarrow> string \<Rightarrow> 't truncindex \<Rightarrow> trunc_error + string" where
  "trunc_get T s ix =
     (if s = '''' then Inl ErrEmptyPrefix
      else (case visit_get '''' (t_subtree T s (ti_trie ix)) of
              Inl e \<Rightarrow> Inl e
            | Inr cid \<Rightarrow> if cid \<noteq> '''' then Inr cid else Inl ErrNotExist))"

text \<open>\<^verbatim>\<open>Iterate\<close> hands every identifier to the handler: here, the list of calls.\<close>

definition trunc_iterate :: "'t trie_ops \<Rightarrow> ('s \<Rightarrow> string \<Rightarrow> 's) \<Rightarrow> 't truncindex \<Rightarrow> 's \<Rightarrow> 's" where
  "trunc_iterate T handler ix s = foldl handler s (t_subtree T '''' (ti_trie ix))"

section \<open>Invariant\<close>

text \<open>The set and the trie hold the same identifiers, none empty, none with a space.\<close>

definition trunc_inv :: "('t \<Rightarrow> string set) \<Rightarrow> 't truncindex \<Rightarrow> bool" where
  "trunc_inv keys ix \<longleftrightarrow> distinct (ti_ids ix) \<and> keys (ti_trie ix) = set (ti_ids ix) \<and>
     (\<forall>cid \<in> set (ti_ids ix). cid \<noteq> '''' \<and> CHR '' '' \<notin> set cid)"

lemma trie_lawsD:
  assumes "trie_laws T keys"
  shows "keys (t_empty T) = {}"
    and "keys (fst (t_insert T k t)) = insert k (keys t)"
    and "snd (t_insert T k t) \<longleftrightarrow> k \<notin> keys t"
    and "k \<in> keys t \<Longrightarrow> keys (fst (t_delete T k t)) = keys t - {k}"
    and "k \<in> keys t \<Longrightarrow> snd (t_delete T k t)"
    and "distinct (t_subtree T p t)"
    and "set (t_subtree T p t) = {k \<in> keys t. prefix p k}"
  using assms by (simp_all add: trie_laws_def)

lemma addID_inv:
  assumes "trie_laws T keys" "trunc_inv keys ix"
  shows "trunc_inv keys (fst (addID T cid ix))"
  using assms(2) trie_lawsD(2) [OF assms(1), of cid "ti_trie ix"]
  by (cases "t_insert T cid (ti_trie ix)") (simp add: trunc_inv_def addID_def)

lemma addID_result:
  assumes "trie_laws T keys" "trunc_inv keys ix"
  shows "snd (addID T cid ix) = None \<longleftrightarrow> cid \<noteq> '''' \<and> CHR '' '' \<notin> set cid \<and> cid \<notin> set (ti_ids ix)"
    and "set (ti_ids (fst (addID T cid ix))) =
           (if snd (addID T cid ix) = None then insert cid (set (ti_ids ix)) else set (ti_ids ix))"
  using assms(2) trie_lawsD(3) [OF assms(1), of cid "ti_trie ix"]
  by (cases "t_insert T cid (ti_trie ix)"; simp add: trunc_inv_def addID_def)+

lemma trunc_delete_inv:
  assumes "trie_laws T keys" "trunc_inv keys ix"
  shows "trunc_inv keys (fst (trunc_delete T cid ix))"
  using assms(2) trie_lawsD(4) [OF assms(1), of cid "ti_trie ix"]
  by (cases "t_delete T cid (ti_trie ix)") (simp add: trunc_inv_def trunc_delete_def)

lemma trunc_delete_result:
  assumes "trie_laws T keys" "trunc_inv keys ix"
  shows "snd (trunc_delete T cid ix) = None \<longleftrightarrow> cid \<in> set (ti_ids ix)"
    and "set (ti_ids (fst (trunc_delete T cid ix))) = set (ti_ids ix) - {cid}"
  using assms(2) trie_lawsD(5) [OF assms(1), of cid "ti_trie ix"]
  by (cases "t_delete T cid (ti_trie ix)"; auto simp: trunc_inv_def trunc_delete_def)+

lemma newTruncIndex_inv:
  assumes "trie_laws T keys"
  shows "trunc_inv keys (newTruncIndex T ids)"
proof -
  have start: "trunc_inv keys \<lparr>ti_ids = [], ti_trie = t_empty T\<rparr>"
    using trie_lawsD(1) [OF assms] by (simp add: trunc_inv_def)
  have "trunc_inv keys ix \<Longrightarrow> trunc_inv keys (fold (\<lambda>cid ix. fst (addID T cid ix)) ids ix)" for ix
  proof (induction ids arbitrary: ix)
    case (Cons i ids)
    show ?case using Cons.IH [OF addID_inv [OF assms Cons.prems]] by simp
  qed simp
  from this [OF start] show ?thesis by (simp add: newTruncIndex_def)
qed

section \<open>Lookup by prefix\<close>

lemma visit_get_nonempty:
  "'''' \<notin> set ks \<Longrightarrow> visit_get '''' ks =
     (case ks of [] \<Rightarrow> Inr '''' | [k] \<Rightarrow> Inr k | _ # k # _ \<Rightarrow> Inl (ErrAmbiguousPrefix k))"
  by (cases ks; cases "tl ks") (auto split: list.splits)

text \<open>The three outcomes of a lookup, by the identifiers that have the prefix.\<close>

lemma trunc_get_cases:
  assumes "trie_laws T keys" "trunc_inv keys ix" "s \<noteq> ''''"
  defines "M \<equiv> {cid \<in> set (ti_ids ix). prefix s cid}"
  shows "M = {} \<Longrightarrow> trunc_get T s ix = Inl ErrNotExist"
    and "M = {cid} \<Longrightarrow> trunc_get T s ix = Inr cid"
    and "cid \<in> M \<Longrightarrow> cid' \<in> M \<Longrightarrow> cid \<noteq> cid' \<Longrightarrow> \<exists>k \<in> M. trunc_get T s ix = Inl (ErrAmbiguousPrefix k)"
proof -
  define ks where "ks = t_subtree T s (ti_trie ix)"
  have d: "distinct ks" and set: "set ks = M"
    using trie_lawsD(6,7) [OF assms(1), of s "ti_trie ix"] assms(2)
    by (auto simp: ks_def M_def trunc_inv_def)
  have ne: "'''' \<notin> set ks" using assms(2) set by (auto simp: M_def trunc_inv_def)
  have get: "trunc_get T s ix = (case ks of [] \<Rightarrow> Inl ErrNotExist | [k] \<Rightarrow> Inr k
               | _ # k # _ \<Rightarrow> Inl (ErrAmbiguousPrefix k))"
    using assms(3) ne visit_get_nonempty [OF ne]
    by (auto simp: trunc_get_def ks_def [symmetric] split: list.splits)
  show "M = {} \<Longrightarrow> trunc_get T s ix = Inl ErrNotExist" using get set by simp
  show "M = {cid} \<Longrightarrow> trunc_get T s ix = Inr cid"
    using get set d by (cases ks; cases "tl ks") auto
  show "cid \<in> M \<Longrightarrow> cid' \<in> M \<Longrightarrow> cid \<noteq> cid' \<Longrightarrow> \<exists>k \<in> M. trunc_get T s ix = Inl (ErrAmbiguousPrefix k)"
    using get set d by (cases ks; cases "tl ks") auto
qed

lemma trunc_get_Inr_iff:
  assumes "trie_laws T keys" "trunc_inv keys ix"
  shows "trunc_get T s ix = Inr cid \<longleftrightarrow>
           s \<noteq> '''' \<and> {i \<in> set (ti_ids ix). prefix s i} = {cid}"
proof (cases "s = ''''")
  case False
  note cases = trunc_get_cases [OF assms False]
  show ?thesis
  proof
    assume g: "trunc_get T s ix = Inr cid"
    let ?M = "{i \<in> set (ti_ids ix). prefix s i}"
    have "?M \<noteq> {}" using cases(1) g by fastforce
    then obtain i where i: "i \<in> ?M" by blast
    have "j = i" if "j \<in> ?M" for j
      using cases(3) [OF i that] g by fastforce
    with i have "?M = {i}" by blast
    with cases(2) [OF this] g False show "s \<noteq> '''' \<and> ?M = {cid}" by simp
  next
    assume "s \<noteq> '''' \<and> {i \<in> set (ti_ids ix). prefix s i} = {cid}"
    then show "trunc_get T s ix = Inr cid" using cases(2) by blast
  qed
qed (simp add: trunc_get_def)

lemma trunc_iterate_visits:
  assumes "trie_laws T keys" "trunc_inv keys ix"
  shows "\<exists>order. distinct order \<and> set order = set (ti_ids ix) \<and>
           trunc_iterate T h ix s = foldl h s order"
  using trie_lawsD(6,7) [OF assms(1), of "''''" "ti_trie ix"] assms(2)
  by (auto simp: trunc_iterate_def trunc_inv_def intro!: exI [of _ "t_subtree T '''' (ti_trie ix)"])

text \<open>Any sequence of additions and deletions.\<close>

definition trunc_run :: "'t trie_ops \<Rightarrow> (bool \<times> string) list \<Rightarrow> 't truncindex" where
  "trunc_run T ops = fold (\<lambda>(add, cid) ix.
     if add then fst (addID T cid ix) else fst (trunc_delete T cid ix)) ops (newTruncIndex T [])"

lemma trunc_run_inv:
  assumes "trie_laws T keys"
  shows "trunc_inv keys (trunc_run T ops)"
proof -
  have "trunc_inv keys ix \<Longrightarrow> trunc_inv keys (fold (\<lambda>(add, cid) ix.
     if add then fst (addID T cid ix) else fst (trunc_delete T cid ix)) ops ix)" for ix
  proof (induction ops arbitrary: ix)
    case (Cons op ops)
    obtain add cid where op: "op = (add, cid)" by (cases op)
    show ?case
      using Cons.IH addID_inv [OF assms Cons.prems] trunc_delete_inv [OF assms Cons.prems] by (simp add: op)
  qed simp
  with newTruncIndex_inv [OF assms] show ?thesis by (simp add: trunc_run_def)
qed

text \<open>
  C5. After any sequence of additions and deletions, looking up a non-empty prefix returns
  an identifier exactly when it is the only stored one with that prefix, reports that none
  exists when there is none, and reports an ambiguity, whose error carries one of the
  matching identifiers and not the prefix, when there are several.
\<close>

theorem trunc_lookup:
  fixes ops :: "(bool \<times> string) list"
  assumes "trie_laws T keys" "s \<noteq> ''''"
  defines "M \<equiv> {cid \<in> set (ti_ids (trunc_run T ops)). prefix s cid}"
  shows "(trunc_get T s (trunc_run T ops) = Inr cid \<longleftrightarrow> M = {cid}) \<and>
    (trunc_get T s (trunc_run T ops) = Inl ErrNotExist \<longleftrightarrow> M = {}) \<and>
    (is_ok (trunc_get T s (trunc_run T ops)) \<or> M = {} \<or>
      (\<exists>k \<in> M. trunc_get T s (trunc_run T ops) = Inl (ErrAmbiguousPrefix k)))"
proof -
  note inv = trunc_run_inv [OF assms(1), of ops]
  note cases = trunc_get_cases [OF assms(1) inv assms(2), folded M_def]
  have one: "trunc_get T s (trunc_run T ops) = Inr cid \<longleftrightarrow> M = {cid}"
    using trunc_get_Inr_iff [OF assms(1) inv] assms(2) by (simp add: M_def)
  consider "M = {}" | i where "M = {i}" | i j where "i \<in> M" "j \<in> M" "i \<noteq> j" by blast
  then show ?thesis
  proof cases
    case 1
    with cases(1) show ?thesis by simp
  next
    case (2 i)
    with cases(2) show ?thesis by auto
  next
    case (3 i j)
    from cases(3) [OF this] obtain k where "k \<in> M" "trunc_get T s (trunc_run T ops) = Inl (ErrAmbiguousPrefix k)"
      by blast
    with one 3 show ?thesis by auto
  qed
qed

theorem trunc_lookup_witness:
  "trunc_get list_trie ''ab'' (trunc_run list_trie [(True, ''abc''), (True, ''x''), (True, ''abd''), (False, ''abc'')])
     = Inr ''abd''"
proof -
  let ?ops = "[(True, ''abc''), (True, ''x''), (True, ''abd''), (False, ''abc'')]"
  have ids: "set (ti_ids (trunc_run list_trie ?ops)) = {''x'', ''abd''}"
    by (simp add: trunc_run_def newTruncIndex_def addID_def trunc_delete_def list_trie_def gs_add_def gs_del_def)
  have "{cid \<in> set (ti_ids (trunc_run list_trie ?ops)). prefix ''ab'' cid} = {''abd''}"
    unfolding ids by auto
  then show ?thesis
    by (rule trunc_lookup [OF list_trie_laws, THEN conjunct1, THEN iffD2, rotated]) simp
qed

end
