(* ===== verification/ContainerStore.thy ===== *)
theory ContainerStore
  imports GoPrelude "HOL-Library.Multiset"
begin

text \<open>
  The in-memory container store (container/memory_store.go), the listing order of
  container/history.go, and the merging of environment lists in container/env.go.
  The store is polymorphic in the container type; \<open>created\<close> reads its creation time.
\<close>

section \<open>The memory store\<close>

type_synonym 'c memory_store = "(string, 'c) gomap"

definition store_add :: "string \<Rightarrow> 'c \<Rightarrow> 'c memory_store \<Rightarrow> 'c memory_store" where
  "store_add cid c s = gm_set cid c s"

definition store_get :: "string \<Rightarrow> 'c memory_store \<Rightarrow> 'c option" where
  "store_get cid s = gm_get s cid"

definition store_delete :: "string \<Rightarrow> 'c memory_store \<Rightarrow> 'c memory_store" where
  "store_delete cid s = gm_del cid s"

definition store_size :: "'c memory_store \<Rightarrow> nat" where
  "store_size s = length s"

definition store_all :: "'c memory_store \<Rightarrow> 'c list" where
  "store_all s = map snd s"

text \<open>
  \<^verbatim>\<open>sort.Sort\<close> with \<^verbatim>\<open>Less(i, j)\<close> = "\<open>j\<close> was created before \<open>i\<close>": newest first. Go's
  sort is not stable; as it runs on a map's iteration order, a stable sort of an arbitrary
  order yields every outcome it can yield.
\<close>

definition history_less :: "('c \<Rightarrow> int) \<Rightarrow> 'c \<Rightarrow> 'c \<Rightarrow> bool" where
  "history_less created a b = (created b < created a)"

definition history_sort :: "('c \<Rightarrow> int) \<Rightarrow> 'c list \<Rightarrow> 'c list" where
  "history_sort created cs = sort_key (\<lambda>c. - created c) cs"

definition store_list :: "('c \<Rightarrow> int) \<Rightarrow> 'c memory_store \<Rightarrow> 'c list" where
  "store_list created s = history_sort created (store_all s)"

definition store_first :: "('c \<Rightarrow> bool) \<Rightarrow> 'c memory_store \<Rightarrow> 'c option" where
  "store_first P s = find P (store_all s)"

text \<open>
  \<^verbatim>\<open>ApplyAll\<close> runs the reducer once on every container, in any order, and waits for all
  of them: here on pointers' targets, one after the other.
\<close>

definition store_apply_all :: "('c \<Rightarrow> 's \<Rightarrow> 's) \<Rightarrow> 'c memory_store \<Rightarrow> 's \<Rightarrow> 's" where
  "store_apply_all f s x = fold f (store_all s) x"

lemma store_get_add [simp]:
  "store_get i (store_add j c s) = (if i = j then Some c else store_get i s)"
  by (simp add: store_get_def store_add_def)

lemma store_get_delete [simp]:
  "store_get i (store_delete j s) = (if i = j then None else store_get i s)"
  by (simp add: store_get_def store_delete_def)

lemma store_size_card: "gm_wf s \<Longrightarrow> store_size s = card {i. store_get i s \<noteq> None}"
proof -
  assume wf: "gm_wf s"
  have "{i. store_get i s \<noteq> None} = set (map fst s)"
    by (auto simp: store_get_def map_of_eq_None_iff [symmetric] dom_map_of_conv_image_fst [symmetric])
  moreover have "card (set (map fst s)) = length s"
    using wf distinct_card [of "map fst s"] by (simp add: gm_wf_def)
  ultimately show ?thesis by (simp add: store_size_def)
qed

lemma set_store_all: "gm_wf s \<Longrightarrow> set (store_all s) = {c. \<exists>i. store_get i s = Some c}"
  by (force simp: store_all_def store_get_def gm_wf_get)

lemma mset_store_list: "mset (store_list created s) = mset (store_all s)"
  by (simp add: store_list_def history_sort_def)

lemma sorted_wrt_history:
  "sorted_wrt (\<lambda>a b. \<not> history_less created b a) (history_sort created cs)"
proof -
  have "sorted (map (\<lambda>c. - created c) (history_sort created cs))"
    by (simp add: history_sort_def)
  then show ?thesis
    by (simp add: sorted_map history_less_def not_less)
qed

lemma store_first_Some: "store_first P s = Some c \<Longrightarrow> P c \<and> c \<in> set (store_all s)"
  by (auto simp: store_first_def find_Some_iff)

lemma store_first_None: "store_first P s = None \<longleftrightarrow> (\<forall>c \<in> set (store_all s). \<not> P c)"
  by (auto simp: store_first_def find_None_iff)

section \<open>Merging environments\<close>

text \<open>The key of an entry \<open>KEY=value\<close>; an entry without \<open>=\<close> is its own key.\<close>

definition env_key :: "string \<Rightarrow> string" where
  "env_key e = fst (split_first (CHR ''='') e)"

fun env_cache :: "nat \<Rightarrow> string list \<Rightarrow> (string, nat) gomap \<Rightarrow> (string, nat) gomap" where
  "env_cache i [] cache = cache"
| "env_cache i (e # es) cache = env_cache (Suc i) es (gm_set (env_key e) i cache)"

definition env_override :: "(string, nat) gomap \<Rightarrow> string \<Rightarrow> string list \<Rightarrow> string list" where
  "env_override cache v ds =
     (if CHR ''='' \<notin> set v
      then (case gm_get cache v of Some i \<Rightarrow> ds[i := ''''] | None \<Rightarrow> ds)
      else (case gm_get cache (env_key v) of Some i \<Rightarrow> ds[i := v] | None \<Rightarrow> ds @ [v]))"

definition ReplaceOrAppendEnvValues :: "string list \<Rightarrow> string list \<Rightarrow> string list" where
  "ReplaceOrAppendEnvValues defaults overrides =
     filter (\<lambda>e. e \<noteq> '''')
       (fold (env_override (env_cache 0 defaults [])) overrides defaults)"

lemma env_key_plain: "CHR ''='' \<notin> set v \<Longrightarrow> env_key v = v"
  by (simp add: env_key_def split_first_plain)

lemma env_cache_get:
  "distinct (map env_key es) \<Longrightarrow> (\<And>k. k \<in> env_key ` set es \<Longrightarrow> gm_get c k = None) \<Longrightarrow>
   gm_get (env_cache n es c) k =
     (if k \<in> env_key ` set es
      then Some (n + (THE i. i < length es \<and> env_key (es ! i) = k)) else gm_get c k)"
proof (induction es arbitrary: n c)
  case (Cons e es)
  have IH: "gm_get (env_cache (Suc n) es (gm_set (env_key e) n c)) k =
     (if k \<in> env_key ` set es
      then Some (Suc n + (THE i. i < length es \<and> env_key (es ! i) = k))
      else gm_get (gm_set (env_key e) n c) k)"
  proof (rule Cons.IH)
    show "distinct (map env_key es)" using Cons.prems(1) by simp
    fix k' assume k': "k' \<in> env_key ` set es"
    moreover have "env_key e \<notin> env_key ` set es" using Cons.prems(1) by simp
    ultimately have "k' \<noteq> env_key e" by blast
    moreover have "gm_get c k' = None" using Cons.prems(2) k' by simp
    ultimately show "gm_get (gm_set (env_key e) n c) k' = None" by simp
  qed
  show ?case
  proof (cases "k \<in> env_key ` set es")
    case True
    then obtain j where j: "j < length es" "env_key (es ! j) = k"
      by (auto simp: in_set_conv_nth)
    have uniq: "i = j" if "i < length es" "env_key (es ! i) = k" for i
      by (rule distinct_map_nth [of env_key es]) (use Cons.prems(1) that j in auto)
    have "(THE i. i < length es \<and> env_key (es ! i) = k) = j"
      by (rule the_equality, rule conjI [OF j], erule conjE, rule uniq, assumption+)
    moreover have "(THE i. i < length (e # es) \<and> env_key ((e # es) ! i) = k) = Suc j"
    proof (rule the_equality)
      show "Suc j < length (e # es) \<and> env_key ((e # es) ! Suc j) = k" using j by simp
      fix i assume i: "i < length (e # es) \<and> env_key ((e # es) ! i) = k"
      have "i \<noteq> 0" using i True Cons.prems(1) by (cases i) auto
      then show "i = Suc j" using i uniq by (cases i) auto
    qed
    ultimately show ?thesis using IH True by simp
  next
    case False
    have "(THE i. i < length (e # es) \<and> env_key ((e # es) ! i) = k) = 0" if "env_key e = k"
    proof (rule the_equality)
      show "0 < length (e # es) \<and> env_key ((e # es) ! 0) = k" using that by simp
      fix i assume "i < length (e # es) \<and> env_key ((e # es) ! i) = k"
      then show "i = 0" using False by (cases i) auto
    qed
    then show ?thesis using IH False by auto
  qed
qed simp

lemma env_cache_index:
  assumes "distinct (map env_key ds)"
  shows "gm_get (env_cache 0 ds []) k = Some i \<longleftrightarrow> i < length ds \<and> env_key (ds ! i) = k"
    and "gm_get (env_cache 0 ds []) k = None \<longleftrightarrow> k \<notin> env_key ` set ds"
proof -
  have get: "gm_get (env_cache 0 ds []) k =
     (if k \<in> env_key ` set ds then Some (THE i. i < length ds \<and> env_key (ds ! i) = k) else None)"
    using env_cache_get [OF assms, of "[]" 0 k] by (simp del: image_iff)
  show "gm_get (env_cache 0 ds []) k = None \<longleftrightarrow> k \<notin> env_key ` set ds"
    unfolding get by (cases "k \<in> env_key ` set ds") simp_all
  show "gm_get (env_cache 0 ds []) k = Some i \<longleftrightarrow> i < length ds \<and> env_key (ds ! i) = k"
  proof (cases "k \<in> env_key ` set ds")
    case True
    then obtain j where j: "j < length ds" "env_key (ds ! j) = k"
      by (auto simp: in_set_conv_nth)
    have uniq: "i = j" if "i < length ds" "env_key (ds ! i) = k" for i
      by (rule distinct_map_nth [OF assms]) (use that j in auto)
    have "(THE i. i < length ds \<and> env_key (ds ! i) = k) = j"
      by (rule the_equality, rule conjI [OF j], erule conjE, rule uniq, assumption+)
    then have "gm_get (env_cache 0 ds []) k = Some j" using get True by simp
    then show ?thesis using j uniq by (metis option.inject)
  next
    case False
    then show ?thesis using get by auto
  qed
qed

text \<open>
  What a default entry becomes under the overrides, and which overrides are appended.
\<close>

definition env_replace :: "string list \<Rightarrow> string \<Rightarrow> string" where
  "env_replace os e =
     (case map_of (map (\<lambda>v. (env_key v, v)) os) (env_key e) of
        None \<Rightarrow> e
      | Some v \<Rightarrow> if CHR ''='' \<in> set v then v else '''')"

definition env_added :: "string list \<Rightarrow> string list \<Rightarrow> string list" where
  "env_added ds os = filter (\<lambda>v. CHR ''='' \<in> set v \<and> env_key v \<notin> env_key ` set ds) os"

lemma env_fold_closed:
  assumes d: "distinct (map env_key ds)"
  shows "distinct (map env_key os) \<Longrightarrow>
    fold (env_override (env_cache 0 ds [])) os ds = map (env_replace os) ds @ env_added ds os"
proof (induction os rule: rev_induct)
  case Nil
  then show ?case by (simp add: env_replace_def env_added_def map_idI)
next
  case (snoc v os)
  let ?c = "env_cache 0 ds []"
  have new: "env_key v \<notin> env_key ` set os" using snoc.prems by auto
  have repl: "env_replace (os @ [v]) e =
      (if env_key e = env_key v then (if CHR ''='' \<in> set v then v else '''') else env_replace os e)" for e
  proof -
    have "map_of (map (\<lambda>v. (env_key v, v)) os) (env_key v) = None"
      using new by (auto simp: map_of_eq_None_iff image_image)
    then show ?thesis by (auto simp: env_replace_def map_add_def split: option.splits)
  qed
  have upd: "(map (env_replace os) ds @ env_added ds os)[i := w] =
      map (\<lambda>e. if env_key e = env_key v then w else env_replace os e) ds @ env_added ds os"
    if i: "i < length ds" "env_key (ds ! i) = env_key v" for i w
  proof -
    have "(map (env_replace os) ds)[i := w] =
        map (\<lambda>e. if env_key e = env_key v then w else env_replace os e) ds"
    proof (rule nth_equalityI)
      fix j assume "j < length ((map (env_replace os) ds)[i := w])"
      then have j: "j < length ds" by simp
      have "env_key (ds ! j) = env_key v \<longleftrightarrow> j = i"
        using distinct_map_nth [OF d j i(1)] i by auto
      then show "(map (env_replace os) ds)[i := w] ! j =
          map (\<lambda>e. if env_key e = env_key v then w else env_replace os e) ds ! j"
        using j i by (simp add: nth_list_update)
    qed simp
    then show ?thesis using i by (simp add: list_update_append)
  qed
  have step: "fold (env_override ?c) (os @ [v]) ds =
      env_override ?c v (map (env_replace os) ds @ env_added ds os)"
    using snoc by simp
  show ?case
  proof (cases "gm_get ?c (env_key v)")
    case None
    then have nv: "env_key v \<notin> env_key ` set ds" using env_cache_index(2) [OF d] by blast
    then have "env_key e \<noteq> env_key v" if "e \<in> set ds" for e
      using that by (metis image_eqI)
    then have same: "map (env_replace (os @ [v])) ds = map (env_replace os) ds"
      by (simp add: repl)
    show ?thesis
      unfolding step using None same nv
      by (auto simp: env_override_def env_added_def env_key_plain)
  next
    case (Some i)
    then have i: "i < length ds" "env_key (ds ! i) = env_key v"
      using env_cache_index(1) [OF d] by auto
    then have "env_key v \<in> env_key ` set ds" by (metis image_eqI nth_mem)
    then have add: "env_added ds (os @ [v]) = env_added ds os" by (simp add: env_added_def)
    show ?thesis
      unfolding step using Some upd [OF i] add
      by (auto simp: env_override_def env_key_plain repl)
  qed
qed

lemma env_replace_other:
  "env_key e \<notin> env_key ` set os \<Longrightarrow> env_replace os e = e"
proof -
  assume "env_key e \<notin> env_key ` set os"
  then have "map_of (map (\<lambda>v. (env_key v, v)) os) (env_key e) = None"
    by (simp add: map_of_eq_None_iff image_image)
  then show ?thesis by (simp add: env_replace_def)
qed

lemma env_replace_hit:
  assumes "distinct (map env_key os)" "v \<in> set os" "env_key e = env_key v"
  shows "env_replace os e = (if CHR ''='' \<in> set v then v else '''')"
proof -
  have "map_of (map (\<lambda>v. (env_key v, v)) os) (env_key v) = Some v"
    using assms(1,2) by (intro map_of_is_SomeI) (auto simp: o_def)
  then show ?thesis using assms(3) by (simp add: env_replace_def)
qed

text \<open>
  When neither list names a variable twice, merging an environment keeps exactly the
  overrides that set a value and the defaults no override mentions: an override without
  \<open>=\<close> removes its variable, one with \<open>=\<close> replaces it in place or is appended.
\<close>

theorem env_merge_contents:
  assumes ds: "distinct (map env_key ds)" and os: "distinct (map env_key os)"
  shows "v \<in> set (ReplaceOrAppendEnvValues ds os) \<longleftrightarrow>
    (v \<in> set os \<and> CHR ''='' \<in> set v) \<or> (v \<in> set ds \<and> v \<noteq> '''' \<and> env_key v \<notin> env_key ` set os)"
    (is "_ \<longleftrightarrow> ?over \<or> ?kept")
proof -
  have res: "set (ReplaceOrAppendEnvValues ds os) =
      (env_replace os ` set ds \<union> set (env_added ds os)) - {''''}"
    by (auto simp: ReplaceOrAppendEnvValues_def env_fold_closed [OF ds os])
  show ?thesis
  proof
    assume "v \<in> set (ReplaceOrAppendEnvValues ds os)"
    then consider "v \<in> set (env_added ds os)" | e where "e \<in> set ds" "v = env_replace os e" "v \<noteq> ''''"
      unfolding res by blast
    then show "?over \<or> ?kept"
    proof cases
      case (2 e)
      show ?thesis
      proof (cases "env_key e \<in> env_key ` set os")
        case True
        then obtain w where w: "w \<in> set os" "env_key e = env_key w" by blast
        then have "v = w" "CHR ''='' \<in> set w" using env_replace_hit [OF os w] 2(2,3) by (simp_all split: if_splits)
        then show ?thesis using w by blast
      next
        case False
        with 2 env_replace_other show ?thesis by metis
      qed
    qed (simp add: env_added_def)
  next
    assume "?over \<or> ?kept"
    then show "v \<in> set (ReplaceOrAppendEnvValues ds os)"
    proof
      assume o: ?over
      then have ne: "v \<noteq> ''''" by auto
      show ?thesis
      proof (cases "env_key v \<in> env_key ` set ds")
        case True
        then obtain e where e: "e \<in> set ds" "env_key e = env_key v" by (metis imageE)
        then have "env_replace os e = v" using env_replace_hit [OF os _ e(2)] o by simp
        with e(1) ne show ?thesis unfolding res by blast
      next
        case False
        with o ne show ?thesis unfolding res by (simp add: env_added_def)
      qed
    next
      assume k: ?kept
      then have "env_replace os v = v" using env_replace_other by blast
      with k show ?thesis unfolding res by (metis DiffI UnI1 image_eqI singletonD)
    qed
  qed
qed

theorem env_merge_contents_witness:
  "''A=2'' \<in> set (ReplaceOrAppendEnvValues [''A=1'', ''B=1''] [''A=2'', ''B'']) \<and>
   ''B=1'' \<notin> set (ReplaceOrAppendEnvValues [''A=1'', ''B=1''] [''A=2'', ''B''])"
proof -
  have "distinct (map env_key [''A=1'', ''B=1''])" "distinct (map env_key [''A=2'', ''B''])"
    by (simp_all add: env_key_def split_first_def)
  note m = env_merge_contents [OF this]
  show ?thesis unfolding m by (simp add: env_key_def split_first_def)
qed

end
