(* ===== verification/LinkIndex.thy ===== *)
theory LinkIndex
  imports GoPrelude
begin

text \<open>
  The link index of daemon/links.go: which container refers to which under which alias.
  The code keys its maps by container pointers; there is one container object per
  identifier, so \<open>'c\<close> stands for either. \<open>li_idx\<close> maps parent, alias to child,
  \<open>li_child\<close> maps child, parent to the set of aliases.
\<close>

record 'c linkindex =
  li_idx :: "('c, (string, 'c) gomap) gomap"
  li_child :: "('c, ('c, string goset) gomap) gomap"

definition newLinkIndex :: "'c linkindex" where
  "newLinkIndex = \<lparr>li_idx = [], li_child = []\<rparr>"

definition link :: "'c \<Rightarrow> 'c \<Rightarrow> string \<Rightarrow> 'c linkindex \<Rightarrow> 'c linkindex" where
  "link parent child alias l =
     (let aliases = gm_list (gm_list (li_child l) child) parent
      in l\<lparr>li_idx := gm_set parent (gm_set alias child (gm_list (li_idx l) parent)) (li_idx l),
           li_child := gm_set child
             (gm_set parent (gs_add alias aliases) (gm_list (li_child l) child)) (li_child l)\<rparr>)"

text \<open>Deleting from a nil map is a no-op, so an absent outer entry stays absent.\<close>

definition del_inner :: "'k \<Rightarrow> 'j \<Rightarrow> ('k, ('j, 'v) gomap) gomap \<Rightarrow> ('k, ('j, 'v) gomap) gomap" where
  "del_inner k j m = (case gm_get m k of None \<Rightarrow> m | Some inner \<Rightarrow> gm_set k (gm_del j inner) m)"

definition unlink :: "string \<Rightarrow> 'c \<Rightarrow> 'c \<Rightarrow> 'c linkindex \<Rightarrow> 'c linkindex" where
  "unlink alias child parent l =
     l\<lparr>li_idx := del_inner parent alias (li_idx l),
       li_child := del_inner child parent (li_child l)\<rparr>"

definition link_children :: "'c \<Rightarrow> 'c linkindex \<Rightarrow> (string, 'c) gomap" where
  "link_children parent l = gm_list (li_idx l) parent"

definition link_parents :: "'c \<Rightarrow> 'c linkindex \<Rightarrow> (string, 'c) gomap" where
  "link_parents child l =
     fold (\<lambda>(parent, aliases) out. fold (\<lambda>alias. gm_set alias parent) aliases out)
       (gm_list (li_child l) child) []"

definition link_delete :: "'c \<Rightarrow> 'c linkindex \<Rightarrow> 'c linkindex" where
  "link_delete c l =
     l\<lparr>li_idx := gm_del c (li_idx l),
       li_child := gm_del c
         (fold (\<lambda>(alias, child). del_inner child c) (gm_list (li_idx l) c) (li_child l))\<rparr>"

section \<open>The two indexes agree\<close>

definition links_to :: "'c linkindex \<Rightarrow> 'c \<Rightarrow> string \<Rightarrow> 'c \<Rightarrow> bool" where
  "links_to l p a c \<longleftrightarrow> gm_get (gm_list (li_idx l) p) a = Some c"

definition linked_from :: "'c linkindex \<Rightarrow> 'c \<Rightarrow> string \<Rightarrow> 'c \<Rightarrow> bool" where
  "linked_from l p a c \<longleftrightarrow> a \<in> set (gm_list (gm_list (li_child l) c) p)"

lemma gm_list_inner_set [simp]:
  "gm_list (gm_list (gm_set k m x) k') j = (if k' = k then gm_list m j else gm_list (gm_list x k') j)"
  by simp

lemma gm_list_del_inner:
  "gm_list (del_inner k j m) k' = (if k' = k then gm_del j (gm_list m k) else gm_list m k')"
  by (auto simp: del_inner_def gm_list_def split: option.splits)

lemma links_to_link:
  "links_to (link p c a l) p' a' c' \<longleftrightarrow>
     (if p' = p \<and> a' = a then c' = c else links_to l p' a' c')"
  by (auto simp: links_to_def link_def Let_def)

lemma linked_from_link:
  "linked_from (link p c a l) p' a' c' \<longleftrightarrow> (p' = p \<and> a' = a \<and> c' = c) \<or> linked_from l p' a' c'"
  by (auto simp: linked_from_def link_def Let_def)

lemma links_to_unlink:
  "links_to (unlink a c p l) p' a' c' \<longleftrightarrow> \<not> (p' = p \<and> a' = a) \<and> links_to l p' a' c'"
  by (auto simp: links_to_def unlink_def gm_list_del_inner)

text \<open>Unlinking one alias drops every alias of that parent from the child's side.\<close>

lemma linked_from_unlink:
  "linked_from (unlink a c p l) p' a' c' \<longleftrightarrow> \<not> (p' = p \<and> c' = c) \<and> linked_from l p' a' c'"
  by (auto simp: linked_from_def unlink_def gm_list_del_inner)

definition link_agree :: "'c linkindex \<Rightarrow> bool" where
  "link_agree l \<longleftrightarrow> (\<forall>p a c. links_to l p a c \<longleftrightarrow> linked_from l p a c)"

lemma link_agree_new: "link_agree newLinkIndex"
  by (simp add: link_agree_def links_to_def linked_from_def newLinkIndex_def gm_list_def)

lemma link_agree_link:
  "link_agree l \<Longrightarrow> (\<And>c'. links_to l p a c' \<Longrightarrow> c' = c) \<Longrightarrow> link_agree (link p c a l)"
  by (auto simp: link_agree_def links_to_link linked_from_link)

lemma link_agree_unlink:
  assumes "link_agree l" "links_to l p a c" "\<And>a'. links_to l p a' c \<Longrightarrow> a' = a"
  shows "link_agree (unlink a c p l)"
proof -
  have func: "c' = c" if "links_to l p a c'" for c'
    using that assms(2) by (simp add: links_to_def)
  have agree: "linked_from l p' a' c' \<longleftrightarrow> links_to l p' a' c'" for p' a' c'
    using assms(1) by (simp add: link_agree_def)
  show ?thesis
    unfolding link_agree_def links_to_unlink linked_from_unlink agree
    using func assms(3) by blast
qed

text \<open>The reverse lookup lists exactly the parents on the child's side.\<close>

lemma fold_aliases_get:
  "gm_get (fold (\<lambda>alias. gm_set alias p) as out) a =
     (if a \<in> set as then Some p else gm_get out a)"
  by (induction as arbitrary: out) auto

lemma link_parents_dom:
  "gm_get (link_parents c l) a \<noteq> None \<longleftrightarrow> (\<exists>(p, as) \<in> set (gm_list (li_child l) c). a \<in> set as)"
proof -
  have "gm_get (fold (\<lambda>(parent, aliases) out. fold (\<lambda>alias. gm_set alias parent) aliases out) xs out) a \<noteq> None
      \<longleftrightarrow> gm_get out a \<noteq> None \<or> (\<exists>(p, as) \<in> set xs. a \<in> set as)" for xs out
    by (induction xs arbitrary: out) (auto simp: fold_aliases_get split: prod.splits)
  from this [of "gm_list (li_child l) c" "[]"] show ?thesis
    by (simp add: link_parents_def)
qed

lemma fold_del_inner:
  "linked_from (l\<lparr>li_child := fold (\<lambda>(alias, child). del_inner child c) xs m\<rparr>) p a d \<longleftrightarrow>
     \<not> (p = c \<and> d \<in> snd ` set xs) \<and> linked_from (l\<lparr>li_child := m\<rparr>) p a d"
  by (induction xs arbitrary: m) (auto simp: linked_from_def gm_list_del_inner split: prod.splits)

text \<open>
  Deleting a container clears its own entries on both sides and its aliases on the side of
  its children, but not the entries by which its parents refer to it.
\<close>

lemma links_to_delete:
  "links_to (link_delete c l) p a d \<longleftrightarrow> p \<noteq> c \<and> links_to l p a d"
  by (auto simp: links_to_def link_delete_def)

lemma linked_from_delete:
  assumes "link_agree l" "gm_wf (gm_list (li_idx l) c)"
  shows "linked_from (link_delete c l) p a d \<longleftrightarrow> p \<noteq> c \<and> d \<noteq> c \<and> linked_from l p a d"
proof -
  have "linked_from (link_delete c l) p a d \<longleftrightarrow> d \<noteq> c \<and>
      linked_from (l\<lparr>li_child := fold (\<lambda>(alias, child). del_inner child c) (gm_list (li_idx l) c) (li_child l)\<rparr>) p a d"
    by (auto simp: linked_from_def link_delete_def gm_list_def)
  also have "\<dots> \<longleftrightarrow> d \<noteq> c \<and> \<not> (p = c \<and> d \<in> snd ` set (gm_list (li_idx l) c)) \<and> linked_from l p a d"
    by (simp add: fold_del_inner)
  also have "\<dots> \<longleftrightarrow> p \<noteq> c \<and> d \<noteq> c \<and> linked_from l p a d"
    using assms by (force simp: link_agree_def links_to_def gm_wf_get)
  finally show ?thesis .
qed

end
