(* ===== verification/DaemonNames.thy ===== *)
theory DaemonNames
  imports Registrar TruncIndex ContainerStore LinkIndex
begin

text \<open>
  How the daemon names containers: daemon/names.go, daemon/rename.go, the lookups of
  daemon/container.go, the links of daemon/daemon.go and the deregistration at the end of
  daemon/delete.go, over the registrar, the truncated-identifier index, the container
  store and the link index.

  There is one container object per identifier, so a pointer to a container is its
  identifier and an assignment to a field updates the stored record. Results of the
  outside world enter as arguments: the random words of the name generator, whether
  writing the container to disk succeeds, and the answers of the network controller.
\<close>

section \<open>Containers and the daemon's indexes\<close>

record container =
  c_ID :: string
  c_Name :: string
  c_anon :: bool
  c_running :: bool
  c_sandbox :: string
  c_created :: int

record 't daemon =
  nameIndex :: registrar
  idIndex :: "'t truncindex"
  containers :: "container memory_store"
  linkIdx :: "string linkindex"

datatype daemon_error =
    NoNameSupplied
  | NoEntity string
  | NoContainerFor string
  | NoSuchContainer string
  | IndexError trunc_error
  | AlreadyLoaded
  | InvalidEmptyId
  | InvalidName string
  | NameConflict string string
  | NameIndexError registrar_error
  | EmptyNames
  | SameName
  | LinkMismatch string string
  | AllocationError daemon_error
  | DiskError
  | SandboxError
  | NilContainer
  | DefaultNameConflict
  | NoParent string string

section \<open>Names\<close>

definition slash :: "string \<Rightarrow> string" where
  "slash name = (if take 1 name = ''/'' then name else ''/'' @ name)"

definition trim_slash :: "string \<Rightarrow> string" where
  "trim_slash name = (if take 1 name = ''/'' then drop 1 name else name)"

definition name_alnum :: "char \<Rightarrow> bool" where
  "name_alnum c = (let n = (of_char c :: nat)
     in (48 \<le> n \<and> n \<le> 57) \<or> (65 \<le> n \<and> n \<le> 90) \<or> (97 \<le> n \<and> n \<le> 122))"

definition name_char :: "char \<Rightarrow> bool" where
  "name_char c = (name_alnum c \<or> c = CHR ''_'' \<or> c = CHR ''.'' \<or> c = CHR ''-'')"

text \<open>\<^verbatim>\<open>RestrictedNamePattern\<close>: one letter or digit, then at least one name character.\<close>

definition restricted_name :: "string \<Rightarrow> bool" where
  "restricted_name s = (case s of [] \<Rightarrow> False | c # r \<Rightarrow> name_alnum c \<and> r \<noteq> [] \<and> list_all name_char r)"

definition TruncateID :: "string \<Rightarrow> string" where
  "TruncateID s =
     (let s1 = (case split_first (CHR '':'') s of (_, Some r) \<Rightarrow> r | (_, None) \<Rightarrow> s)
      in if length s1 > 12 then take 12 s1 else s1)"

text \<open>
  \<open>pick i\<close> is what the generator draws in its \<open>i\<close>-th call: the two words (after the
  redraws that avoid boring_wozniak) and a digit, which is used from the second call on.
\<close>

definition GetRandomName :: "(nat \<Rightarrow> string \<times> string \<times> char) \<Rightarrow> nat \<Rightarrow> string" where
  "GetRandomName pick retry =
     (case pick retry of (l, r, d) \<Rightarrow>
        let name = l @ ''_'' @ r in if retry > 0 then name @ [d] else name)"

definition reserveName :: "string \<Rightarrow> string \<Rightarrow> 't daemon \<Rightarrow> 't daemon \<times> (daemon_error + string)" where
  "reserveName cid name d =
     (if \<not> restricted_name (trim_slash name) then (d, Inl (InvalidName name))
      else (let name1 = slash name in
        (case reserve name1 cid (nameIndex d) of
           (r, None) \<Rightarrow> (d\<lparr>nameIndex := r\<rparr>, Inr name1)
         | (r, Some e) \<Rightarrow>
             (d\<lparr>nameIndex := r\<rparr>,
              if e = ErrNameReserved
              then (case get_key name1 r of
                      Inl e' \<Rightarrow> Inl (NameIndexError e')
                    | Inr holder \<Rightarrow> Inl (NameConflict name1 holder))
              else Inl (NameIndexError e)))))"

definition releaseName :: "string \<Rightarrow> 't daemon \<Rightarrow> 't daemon" where
  "releaseName name d = d\<lparr>nameIndex := release name (nameIndex d)\<rparr>"

text \<open>The loop over six random names; \<open>None\<close> when all were taken.\<close>

fun try_random_names ::
  "(nat \<Rightarrow> string \<times> string \<times> char) \<Rightarrow> string \<Rightarrow> nat list \<Rightarrow> registrar
     \<Rightarrow> registrar \<times> (registrar_error + string) option" where
  "try_random_names pick cid [] r = (r, None)"
| "try_random_names pick cid (i # is) r =
     (let name = slash (GetRandomName pick i) in
      (case reserve name cid r of
         (r1, None) \<Rightarrow> (r1, Some (Inr name))
       | (r1, Some e) \<Rightarrow>
           if e = ErrNameReserved then try_random_names pick cid is r1
           else (r1, Some (Inl e))))"

definition generateNewName ::
  "(nat \<Rightarrow> string \<times> string \<times> char) \<Rightarrow> string \<Rightarrow> 't daemon \<Rightarrow> 't daemon \<times> (daemon_error + string)" where
  "generateNewName pick cid d =
     (case try_random_names pick cid [0..<6] (nameIndex d) of
        (r, Some (Inr name)) \<Rightarrow> (d\<lparr>nameIndex := r\<rparr>, Inr name)
      | (r, Some (Inl e)) \<Rightarrow> (d\<lparr>nameIndex := r\<rparr>, Inl (NameIndexError e))
      | (r, None) \<Rightarrow>
          (let name = ''/'' @ TruncateID cid in
           (case reserve name cid r of
              (r1, None) \<Rightarrow> (d\<lparr>nameIndex := r1\<rparr>, Inr name)
            | (r1, Some e) \<Rightarrow> (d\<lparr>nameIndex := r1\<rparr>, Inl (NameIndexError e)))))"

definition validateID :: "string \<Rightarrow> daemon_error option" where
  "validateID cid = (if cid = '''' then Some InvalidEmptyId else None)"

definition generateIDAndName ::
  "(nat \<Rightarrow> string \<times> string \<times> char) \<Rightarrow> string \<Rightarrow> string \<Rightarrow> 't daemon
     \<Rightarrow> 't daemon \<times> (daemon_error + string \<times> string)" where
  "generateIDAndName pick cid name d =
     (case (if name = '''' then generateNewName pick cid d else reserveName cid name d) of
        (d1, Inl e) \<Rightarrow> (d1, Inl e)
      | (d1, Inr n) \<Rightarrow> (d1, Inr (cid, n)))"

section \<open>Lookups\<close>

definition GetByName :: "string \<Rightarrow> 't daemon \<Rightarrow> daemon_error + container" where
  "GetByName name d =
     (if name = '''' then Inl NoNameSupplied
      else (case get_key (slash name) (nameIndex d) of
              Inl _ \<Rightarrow> Inl (NoEntity name)
            | Inr cid \<Rightarrow>
                (case store_get cid (containers d) of
                   None \<Rightarrow> Inl (NoContainerFor cid)
                 | Some c \<Rightarrow> Inr c)))"

text \<open>A nil container with a nil error, which the last line can return, is \<open>Inr None\<close>.\<close>

definition GetContainer :: "'t trie_ops \<Rightarrow> string \<Rightarrow> 't daemon \<Rightarrow> daemon_error + container option" where
  "GetContainer T prefixOrName d =
     (if prefixOrName = '''' then Inl NoNameSupplied
      else (case store_get prefixOrName (containers d) of
              Some c \<Rightarrow> Inr (Some c)
            | None \<Rightarrow>
                (case GetByName prefixOrName d of
                   Inr c \<Rightarrow> Inr (Some c)
                 | Inl _ \<Rightarrow>
                     (case trunc_get T prefixOrName (idIndex d) of
                        Inl e \<Rightarrow> if e = ErrNotExist then Inl (NoSuchContainer prefixOrName)
                                 else Inl (IndexError e)
                      | Inr cid \<Rightarrow> Inr (store_get cid (containers d))))))"

definition Exists :: "'t trie_ops \<Rightarrow> string \<Rightarrow> 't daemon \<Rightarrow> bool" where
  "Exists T s d = (case GetContainer T s d of Inr (Some _) \<Rightarrow> True | _ \<Rightarrow> False)"

section \<open>Registration\<close>

definition Register :: "'t trie_ops \<Rightarrow> container \<Rightarrow> 't daemon \<Rightarrow> 't daemon" where
  "Register T c d =
     d\<lparr>containers := store_add (c_ID c) c (containers d),
       idIndex := fst (addID T (c_ID c) (idIndex d))\<rparr>"

text \<open>\<^verbatim>\<open>registerName\<close> names a loaded container; it returns the container with its name.\<close>

definition registerName ::
  "'t trie_ops \<Rightarrow> (nat \<Rightarrow> string \<times> string \<times> char) \<Rightarrow> container \<Rightarrow> 't daemon
     \<Rightarrow> 't daemon \<times> (daemon_error + container)" where
  "registerName T pick c d =
     (if Exists T (c_ID c) d then (d, Inl AlreadyLoaded)
      else (case validateID (c_ID c) of
        Some e \<Rightarrow> (d, Inl e)
      | None \<Rightarrow>
         (case (if c_Name c = '''' then generateNewName pick (c_ID c) d else (d, Inr (c_Name c))) of
            (d1, Inl e) \<Rightarrow> (d1, Inl e)
          | (d1, Inr name) \<Rightarrow>
             (case reserve name (c_ID c) (nameIndex d1) of
                (r, None) \<Rightarrow> (d1\<lparr>nameIndex := r\<rparr>, Inr (c\<lparr>c_Name := name\<rparr>))
              | (r, Some e) \<Rightarrow> (d1\<lparr>nameIndex := r\<rparr>, Inl (NameIndexError e))))))"

definition registerLink :: "container \<Rightarrow> container \<Rightarrow> string \<Rightarrow> 't daemon \<Rightarrow> 't daemon \<times> daemon_error option" where
  "registerLink parent child alias d =
     (let fullName = path_join [c_Name parent, alias] in
      (case reserve fullName (c_ID child) (nameIndex d) of
         (r, Some e) \<Rightarrow>
           (d\<lparr>nameIndex := r\<rparr>,
            if e = ErrNameReserved then None else Some (NameIndexError e))
       | (r, None) \<Rightarrow>
           (d\<lparr>nameIndex := r,
              linkIdx := link (c_ID parent) (c_ID child) fullName (linkIdx d)\<rparr>, None)))"

text \<open>
  \<^verbatim>\<open>rmLink\<close>: removing the link \<open>name\<close> of a container. The name is not empty: the
  container was found by it.
\<close>

definition rmLink :: "'t trie_ops \<Rightarrow> container \<Rightarrow> string \<Rightarrow> 't daemon \<Rightarrow> 't daemon \<times> daemon_error option" where
  "rmLink T c name0 d =
     (let name = slash name0; parent = fst (path_split name) in
      if parent = ''/'' then (d, Some DefaultNameConflict)
      else
       (let parent1 = rev (tl (rev parent)) in
        (case get_key parent1 (nameIndex d) of
           Inl _ \<Rightarrow> (d, Some (NoParent parent1 name))
         | Inr pe \<Rightarrow>
             (let d1 = releaseName name d in
              (case GetContainer T pe d1 of
                 Inr (Some p) \<Rightarrow>
                   (d1\<lparr>linkIdx := unlink name (c_ID c) (c_ID p) (linkIdx d1)\<rparr>, None)
               | _ \<Rightarrow> (d1, None))))))"

definition deregister :: "'t trie_ops \<Rightarrow> container \<Rightarrow> 't daemon \<Rightarrow> 't daemon" where
  "deregister T c d =
     d\<lparr>nameIndex := delete_key (c_ID c) (nameIndex d),
       linkIdx := link_delete (c_ID c) (linkIdx d),
       idIndex := fst (trunc_delete T (c_ID c) (idIndex d)),
       containers := store_delete (c_ID c) (containers d)\<rparr>"

section \<open>Renaming\<close>

record rename_env =
  re_disk :: "container \<Rightarrow> bool"
  re_netctl :: bool
  re_sandbox :: "string \<Rightarrow> bool"
  re_sbrename :: "string \<Rightarrow> string \<Rightarrow> bool"

definition add_new_links :: "string \<Rightarrow> string \<Rightarrow> (string \<times> string) list \<Rightarrow> 't daemon \<Rightarrow> 't daemon" where
  "add_new_links cid name links d =
     fold (\<lambda>(k, v) d. d\<lparr>nameIndex := fst (reserve (name @ k) v (nameIndex d)),
                        linkIdx := link cid v (name @ k) (linkIdx d)\<rparr>) links d"

definition drop_old_links :: "string \<Rightarrow> string \<Rightarrow> (string \<times> string) list \<Rightarrow> 't daemon \<Rightarrow> 't daemon" where
  "drop_old_links cid name links d =
     fold (\<lambda>(k, v) d. d\<lparr>nameIndex := release (name @ k) (nameIndex d),
                        linkIdx := unlink (name @ k) v cid (linkIdx d)\<rparr>) links d"

definition restore_links :: "string \<Rightarrow> string \<Rightarrow> string \<Rightarrow> (string \<times> string) list \<Rightarrow> 't daemon \<Rightarrow> 't daemon" where
  "restore_links cid oldName newName links d =
     fold (\<lambda>(k, v) d.
       d\<lparr>nameIndex := release (newName @ k) (fst (reserve (oldName @ k) v (nameIndex d))),
         linkIdx := unlink (newName @ k) v cid (link cid v (oldName @ k) (linkIdx d))\<rparr>) links d"

text \<open>The deferred function that runs when the rename fails after the indexes were changed.\<close>

definition rename_rollback ::
  "container \<Rightarrow> string \<Rightarrow> (string \<times> string) list \<Rightarrow> 't daemon \<Rightarrow> 't daemon" where
  "rename_rollback c newName links d =
     (let oldName = c_Name c;
          d1 = d\<lparr>containers := store_add (c_ID c) c (containers d)\<rparr>;
          d2 = fst (reserveName (c_ID c) oldName d1);
          d3 = restore_links (c_ID c) oldName newName links d2
      in releaseName newName d3)"

text \<open>The changes of a rename, from the new links to the release of the old name.\<close>

definition rename_apply ::
  "container \<Rightarrow> string \<Rightarrow> (string \<times> string) list \<Rightarrow> 't daemon \<Rightarrow> 't daemon" where
  "rename_apply c newName links d =
     (let c1 = c\<lparr>c_Name := newName, c_anon := False\<rparr>;
          d2 = add_new_links (c_ID c) newName links d;
          d3 = d2\<lparr>containers := store_add (c_ID c) c1 (containers d2)\<rparr>;
          d4 = drop_old_links (c_ID c) (c_Name c) links d3
      in releaseName (c_Name c) d4)"

text \<open>
  \<^verbatim>\<open>ContainerRename\<close> in the three parts between which other operations of the daemon can run. The
  first finds the container and reads its name and whether its endpoint is anonymous before the container is
  locked; the second, under the lock, changes the indexes and ends with the release of the name the
  first has read; the third writes the container and renames its sandbox, or undoes the second. The
  container that the first part returns, with the name read there, is the second's argument.
\<close>

definition rename_prepare :: "'t trie_ops \<Rightarrow> string \<Rightarrow> string \<Rightarrow> 't daemon \<Rightarrow> daemon_error + container" where
  "rename_prepare T oldRef newRef d =
     (if oldRef = '''' \<or> newRef = '''' then Inl EmptyNames
      else (case GetContainer T oldRef d of
        Inl e \<Rightarrow> Inl e
      | Inr None \<Rightarrow> Inl NilContainer
      | Inr (Some c) \<Rightarrow> if c_Name c = slash newRef then Inl SameName else Inr c))"

definition rename_locked ::
  "container \<Rightarrow> string \<Rightarrow> 't daemon \<Rightarrow> 't daemon \<times> (daemon_error + string \<times> (string \<times> string) list)" where
  "rename_locked c newRef d =
     (let oldName = c_Name c; cid = c_ID c; children = link_children cid (linkIdx d) in
      (case find (\<lambda>(k, v). \<not> prefix oldName k) children of
         Some (k, _) \<Rightarrow> (d, Inl (LinkMismatch k oldName))
       | None \<Rightarrow>
          (let links = map (\<lambda>(k, v). (drop (length oldName) k, v)) children in
           (case reserveName cid (slash newRef) d of
              (d1, Inl e) \<Rightarrow> (d1, Inl (AllocationError e))
            | (d1, Inr newName) \<Rightarrow> (rename_apply c newName links d1, Inr (newName, links))))))"

definition rename_finish ::
  "rename_env \<Rightarrow> container \<Rightarrow> string \<Rightarrow> (string \<times> string) list \<Rightarrow> 't daemon \<Rightarrow> 't daemon \<times> daemon_error option" where
  "rename_finish E c newName links d =
     (let c1 = c\<lparr>c_Name := newName, c_anon := False\<rparr>;
          failed = (\<lambda>e. (rename_rollback c newName links d, Some e))
      in if \<not> re_disk E c1 then failed DiskError
         else if \<not> c_running c then (d, None)
         else if c_sandbox c \<noteq> '''' \<and> re_netctl E then
           (if \<not> re_sandbox E (c_sandbox c) then failed SandboxError
            else if \<not> re_sbrename E (c_sandbox c) (trim_slash newName) then failed SandboxError
            else (d, None))
         else (d, None))"

definition ContainerRename ::
  "'t trie_ops \<Rightarrow> rename_env \<Rightarrow> string \<Rightarrow> string \<Rightarrow> 't daemon \<Rightarrow> 't daemon \<times> daemon_error option" where
  "ContainerRename T E oldRef newRef d =
     (case rename_prepare T oldRef newRef d of
        Inl e \<Rightarrow> (d, Some e)
      | Inr c \<Rightarrow>
          (case rename_locked c newRef d of
             (d1, Inl e) \<Rightarrow> (d1, Some e)
           | (d1, Inr (newName, links)) \<Rightarrow> rename_finish E c newName links d1))"

lemma ContainerRename_unfold:
  "ContainerRename T E oldRef newRef d =
     (if oldRef = '''' \<or> newRef = '''' then (d, Some EmptyNames)
      else (case GetContainer T oldRef d of
        Inl e \<Rightarrow> (d, Some e)
      | Inr None \<Rightarrow> (d, Some NilContainer)
      | Inr (Some c) \<Rightarrow>
           if c_Name c = slash newRef then (d, Some SameName)
           else
            (let children = link_children (c_ID c) (linkIdx d) in
             (case find (\<lambda>(k, v). \<not> prefix (c_Name c) k) children of
                Some (k, _) \<Rightarrow> (d, Some (LinkMismatch k (c_Name c)))
              | None \<Rightarrow>
                 (let links = map (\<lambda>(k, v). (drop (length (c_Name c)) k, v)) children in
                  (case reserveName (c_ID c) (slash newRef) d of
                     (d1, Inl e) \<Rightarrow> (d1, Some (AllocationError e))
                   | (d1, Inr newName) \<Rightarrow> rename_finish E c newName links (rename_apply c newName links d1)))))))"
  by (simp add: ContainerRename_def rename_prepare_def rename_locked_def Let_def split: sum.split option.split prod.split)

section \<open>Well-formed names\<close>

text \<open>The name of a container is a slash and a restricted name; a link's full name has a second slash.\<close>

definition container_name :: "string \<Rightarrow> bool" where
  "container_name n \<longleftrightarrow> (\<exists>s. n = ''/'' @ s \<and> restricted_name s)"

lemma restricted_no_slash: "restricted_name s \<Longrightarrow> CHR ''/'' \<notin> set s"
proof
  assume r: "restricted_name s" and m: "CHR ''/'' \<in> set s"
  from r have "\<forall>c \<in> set s. name_char c"
    by (auto simp: restricted_name_def name_char_def list_all_iff split: list.splits)
  with m show False by (auto simp: name_char_def name_alnum_def)
qed

lemma restricted_slash: "restricted_name s \<Longrightarrow> slash s = ''/'' @ s"
  using restricted_no_slash [of s] by (cases s) (auto simp: slash_def)

lemma slash_trim: "restricted_name (trim_slash n) \<Longrightarrow> container_name (slash n)"
  using restricted_slash by (cases n) (auto simp: container_name_def slash_def trim_slash_def)

lemma container_name_slash [simp]: "container_name n \<Longrightarrow> slash n = n"
  by (auto simp: container_name_def slash_def)

lemma container_name_trim: "container_name n \<Longrightarrow> restricted_name (trim_slash n)"
  by (auto simp: container_name_def trim_slash_def)

lemma link_name_inj:
  assumes "container_name n" "container_name m" "n @ ''/'' @ s = m @ ''/'' @ t"
  shows "n = m \<and> s = t"
proof -
  obtain a b where ab: "n = ''/'' @ a" "m = ''/'' @ b" "restricted_name a" "restricted_name b"
    using assms(1,2) by (auto simp: container_name_def)
  then have ns: "CHR ''/'' \<notin> set a" "CHR ''/'' \<notin> set b" using restricted_no_slash by blast+
  have "a @ CHR ''/'' # s = b @ CHR ''/'' # t" using assms(3) ab by simp
  then have "split_first (CHR ''/'') (a @ CHR ''/'' # s) = split_first (CHR ''/'') (b @ CHR ''/'' # t)"
    by simp
  then show ?thesis using ns ab by (simp add: split_first_append)
qed

lemma link_name_not_container: "container_name n \<Longrightarrow> \<not> container_name (n @ ''/'' @ s)"
  using restricted_no_slash by (fastforce simp: container_name_def)

lemma link_name_neq: "container_name n \<Longrightarrow> container_name m \<Longrightarrow> n @ ''/'' @ s \<noteq> m"
  using link_name_not_container by blast

section \<open>Effects on the name index\<close>

text \<open>What each operation does to the abstract name index, \<open>name_of d\<close>.\<close>

abbreviation name_of :: "'t daemon \<Rightarrow> string \<Rightarrow> string option" where
  "name_of d \<equiv> reg_abs (nameIndex d)"

lemma reserveName_Inr:
  assumes "reserveName cid name d = (d', Inr n)"
  shows "n = slash name" "container_name n" "name_of d' = (name_of d)(n \<mapsto> cid)"
    and "name_of d n = None \<or> name_of d n = Some cid"
    and "\<exists>r. d' = d\<lparr>nameIndex := r\<rparr> \<and> (reg_inv (nameIndex d) \<longrightarrow> reg_inv r)"
proof -
  let ?R = "reserve (slash name) cid (nameIndex d)"
  from assms have rn: "restricted_name (trim_slash name)" and n: "n = slash name"
    and ok: "snd ?R = None" and d': "d' = d\<lparr>nameIndex := fst ?R\<rparr>"
    by (auto simp: reserveName_def Let_def split: if_splits prod.splits option.splits sum.splits)
  show "n = slash name" by (rule n)
  show "container_name n" using rn n slash_trim by simp
  show "name_of d' = (name_of d)(n \<mapsto> cid)" using d' n reg.reserve_abs [OF ok] by simp
  show "name_of d n = None \<or> name_of d n = Some cid" using ok n reg.reserve_ok by simp
  show "\<exists>r. d' = d\<lparr>nameIndex := r\<rparr> \<and> (reg_inv (nameIndex d) \<longrightarrow> reg_inv r)"
    using d' reg.reserve_inv by blast
qed

lemma reserveName_Inl: "reserveName cid name d = (d', Inl e) \<Longrightarrow> d' = d"
  by (auto simp: reserveName_def Let_def dest: reg.reserve_err [rotated]
      split: if_splits prod.splits option.splits sum.splits)
     (metis daemon.surjective daemon.update_convs(1) fst_conv reg.reserve_err snd_conv)+

lemma add_new_links_frame:
  "containers (add_new_links cid name links d) = containers d"
  "idIndex (add_new_links cid name links d) = idIndex d"
  "reg_inv (nameIndex d) \<Longrightarrow> reg_inv (nameIndex (add_new_links cid name links d))"
  by (induction links arbitrary: d) (auto simp: add_new_links_def reg.reserve_inv split: prod.splits)

lemma drop_old_links_frame:
  "containers (drop_old_links cid name links d) = containers d"
  "idIndex (drop_old_links cid name links d) = idIndex d"
  "reg_inv (nameIndex d) \<Longrightarrow> reg_inv (nameIndex (drop_old_links cid name links d))"
  by (induction links arbitrary: d) (auto simp: drop_old_links_def reg.release_inv split: prod.splits)

lemma add_new_links_keeps:
  "name_of d n = Some j \<Longrightarrow> name_of (add_new_links cid name links d) n = Some j"
  by (induction links arbitrary: d) (auto simp: add_new_links_def reg.reserve_keeps split: prod.splits)

lemma reserve_other: "n \<noteq> m \<Longrightarrow> reg_abs (fst (reserve m k r)) n = reg_abs r n"
  by (cases "snd (reserve m k r)") (auto simp: reg.reserve_abs dest: reg.reserve_err)

lemma add_new_links_other:
  "n \<notin> (\<lambda>(k, v). name @ k) ` set links \<Longrightarrow> name_of (add_new_links cid name links d) n = name_of d n"
  by (induction links arbitrary: d) (auto simp: add_new_links_def reserve_other split: prod.splits)

lemma add_new_links_links:
  "links_to (linkIdx (add_new_links cid name links d)) p a c \<Longrightarrow>
     links_to (linkIdx d) p a c \<or> (p = cid \<and> a \<in> (\<lambda>(k, v). name @ k) ` set links)"
proof (induction links arbitrary: d)
  case (Cons kv links)
  obtain k v where kv: "kv = (k, v)" by (cases kv)
  from Cons.IH Cons.prems show ?case
    by (fastforce simp: add_new_links_def kv links_to_link split: if_splits)
qed (simp add: add_new_links_def)

lemma drop_old_links_names:
  "name_of (drop_old_links cid name links d) n =
     (if n \<in> (\<lambda>(k, v). name @ k) ` set links then None else name_of d n)"
  by (induction links arbitrary: d) (auto simp: drop_old_links_def reg.release_abs split: prod.splits)

lemma drop_old_links_links:
  "links_to (linkIdx (drop_old_links cid name links d)) p a c \<longleftrightarrow>
     \<not> (p = cid \<and> a \<in> (\<lambda>(k, v). name @ k) ` set links) \<and> links_to (linkIdx d) p a c"
  by (induction links arbitrary: d) (auto simp: drop_old_links_def links_to_unlink split: prod.splits)

section \<open>The naming invariant\<close>

text \<open>
  A state of the daemon's naming is the daemon and the containers that exist but are not
  registered yet: \<^verbatim>\<open>newContainer\<close> reserves the name, \<^verbatim>\<open>Register\<close> runs later. The invariant:
  every container, registered or pending, has a well-formed name which the name index maps
  to its identifier; the store and the identifier index hold the same identifiers; every
  link out of a registered container is named after it.
\<close>

definition registered :: "'t daemon \<Rightarrow> container set" where
  "registered d = {c. \<exists>i. store_get i (containers d) = Some c}"

definition named :: "'t daemon \<Rightarrow> container \<Rightarrow> bool" where
  "named d c \<longleftrightarrow> container_name (c_Name c) \<and> name_of d (c_Name c) = Some (c_ID c)"

definition good_id :: "string \<Rightarrow> bool" where
  "good_id i \<longleftrightarrow> i \<noteq> '''' \<and> CHR '' '' \<notin> set i"

definition naming_inv :: "('t \<Rightarrow> string set) \<Rightarrow> 't daemon \<Rightarrow> container list \<Rightarrow> bool" where
  "naming_inv A d P \<longleftrightarrow>
     reg_inv (nameIndex d) \<and> trunc_inv A (idIndex d) \<and>
     (\<forall>i c. store_get i (containers d) = Some c \<longrightarrow> c_ID c = i \<and> good_id i) \<and>
     set (ti_ids (idIndex d)) = {i. store_get i (containers d) \<noteq> None} \<and>
     distinct (map c_ID P) \<and>
     (\<forall>c \<in> set P. store_get (c_ID c) (containers d) = None \<and> good_id (c_ID c)) \<and>
     (\<forall>c \<in> registered d \<union> set P. named d c) \<and>
     (\<forall>p a ch. links_to (linkIdx d) p a ch \<longrightarrow>
        (\<exists>c s. store_get p (containers d) = Some c \<and> a = c_Name c @ ''/'' @ s))"

lemma naming_invD:
  assumes "naming_inv A d P"
  shows "reg_inv (nameIndex d)" "trunc_inv A (idIndex d)"
    and "store_get i (containers d) = Some c \<Longrightarrow> c_ID c = i \<and> good_id i"
    and "set (ti_ids (idIndex d)) = {i. store_get i (containers d) \<noteq> None}"
    and "distinct (map c_ID P)"
    and "c \<in> set P \<Longrightarrow> store_get (c_ID c) (containers d) = None \<and> good_id (c_ID c)"
    and "store_get i (containers d) = Some c \<Longrightarrow> named d c"
    and "c \<in> set P \<Longrightarrow> named d c"
    and "links_to (linkIdx d) p a ch \<Longrightarrow>
        \<exists>c s. store_get p (containers d) = Some c \<and> a = c_Name c @ ''/'' @ s"
  using assms unfolding naming_inv_def registered_def by blast+

text \<open>Two containers never share a name: the index maps a name to one identifier.\<close>

lemma naming_inv_unique:
  assumes "naming_inv A d P" "c \<in> registered d \<union> set P" "c' \<in> registered d \<union> set P"
    and "c_Name c = c_Name c'"
  shows "c_ID c = c_ID c'"
  using assms unfolding naming_inv_def named_def by (metis option.inject)

section \<open>Every step keeps the invariant\<close>

text \<open>A change of the name index that keeps every container's entry keeps the invariant.\<close>

lemma naming_inv_nameIndex:
  assumes "naming_inv A d P" "reg_inv r"
    and "\<And>c. c \<in> registered d \<union> set P \<Longrightarrow> reg_abs r (c_Name c) = Some (c_ID c)"
  shows "naming_inv A (d\<lparr>nameIndex := r\<rparr>) P"
  using assms unfolding naming_inv_def registered_def named_def by simp

lemma naming_inv_reserve:
  assumes inv: "naming_inv A d P" and res: "reserveName cid name d = (d1, Inr n)"
  shows "naming_inv A d1 P"
proof -
  note R = reserveName_Inr [OF res]
  from R(5) naming_invD(1) [OF inv] obtain r where r: "d1 = d\<lparr>nameIndex := r\<rparr>" "reg_inv r"
    by blast
  have "reg_abs r (c_Name c) = Some (c_ID c)" if "c \<in> registered d \<union> set P" for c
  proof -
    have "name_of d (c_Name c) = Some (c_ID c)"
      using inv that by (simp add: naming_inv_def named_def)
    with R(3,4) r(1) show ?thesis by (auto split: if_splits)
  qed
  from naming_inv_nameIndex [OF inv r(2) this] r(1) show ?thesis by simp
qed

lemma naming_inv_pending:
  assumes "naming_inv A d P" "good_id (c_ID c)" "store_get (c_ID c) (containers d) = None"
    and "c_ID c \<notin> c_ID ` set P" "named d c"
  shows "naming_inv A d (c # P)"
  using assms unfolding naming_inv_def by auto

text \<open>
  Generated names: \<open>good_pick\<close> says the random words are made of letters and digits,
  \<open>plain_id\<close> that the shortened identifier is a legal name, as it is for the hexadecimal
  identifiers the daemon generates.
\<close>

definition good_pick :: "(nat \<Rightarrow> string \<times> string \<times> char) \<Rightarrow> bool" where
  "good_pick pick \<longleftrightarrow> (\<forall>i. case pick i of (l, r, d) \<Rightarrow>
     l \<noteq> [] \<and> list_all name_alnum l \<and> list_all name_alnum r \<and> name_alnum d)"

definition plain_id :: "string \<Rightarrow> bool" where
  "plain_id i \<longleftrightarrow> good_id i \<and> restricted_name (TruncateID i)"

lemma GetRandomName_restricted:
  assumes "good_pick pick"
  shows "restricted_name (GetRandomName pick i)"
proof -
  obtain l r d where p: "pick i = (l, r, d)" by (cases "pick i")
  with assms have g: "l \<noteq> []" "list_all name_alnum l" "list_all name_alnum r" "name_alnum d"
    unfolding good_pick_def by (metis (mono_tags, lifting) case_prod_conv)+
  have c: "list_all name_alnum xs \<Longrightarrow> list_all name_char xs" for xs
    by (auto simp: list_all_iff name_char_def)
  obtain x xs where "l = x # xs" using g(1) by (cases l) auto
  with g c [of xs] c [of r] show ?thesis
    by (auto simp: GetRandomName_def p Let_def restricted_name_def name_char_def)
qed

lemma try_random_names_result:
  assumes "good_pick pick"
  shows "try_random_names pick cid is r = (r', res) \<Longrightarrow>
    (reg_inv r \<longrightarrow> reg_inv r') \<and>
    (case res of None \<Rightarrow> r' = r
     | Some (Inl e) \<Rightarrow> False
     | Some (Inr n) \<Rightarrow> container_name n \<and> (reg_abs r n = None \<or> reg_abs r n = Some cid) \<and>
         reg_abs r' = (reg_abs r)(n \<mapsto> cid))"
proof (induction "is" arbitrary: r)
  case (Cons i js)
  define n where "n = slash (GetRandomName pick i)"
  have n: "container_name n"
    using GetRandomName_restricted [OF assms] restricted_slash by (auto simp: n_def container_name_def)
  obtain r1 e where R: "reserve n cid r = (r1, e)" by (cases "reserve n cid r")
  show ?case
  proof (cases e)
    case None
    with R Cons.prems n reg.reserve_inv [of r n cid] reg.reserve_abs [of n cid r]
      reg.reserve_ok [of n cid r]
    show ?thesis by (auto simp: n_def [symmetric] Let_def)
  next
    case (Some x)
    with R have "x = ErrNameReserved" "r1 = r" using reg.reserve_err [of n cid r x] by auto
    with R Some Cons show ?thesis by (simp add: n_def [symmetric] Let_def)
  qed
qed simp

lemma generateNewName_Inr:
  assumes "generateNewName pick cid d = (d', Inr n)" "good_pick pick" "plain_id cid"
  shows "container_name n" "name_of d' = (name_of d)(n \<mapsto> cid)"
    and "name_of d n = None \<or> name_of d n = Some cid"
    and "\<exists>r. d' = d\<lparr>nameIndex := r\<rparr> \<and> (reg_inv (nameIndex d) \<longrightarrow> reg_inv r)"
proof -
  obtain r res where T: "try_random_names pick cid [0..<6] (nameIndex d) = (r, res)"
    by (cases "try_random_names pick cid [0..<6] (nameIndex d)")
  note T' = try_random_names_result [OF assms(2) T]
  let ?n = "''/'' @ TruncateID cid"
  have "container_name n \<and> name_of d' = (name_of d)(n \<mapsto> cid) \<and>
    (name_of d n = None \<or> name_of d n = Some cid) \<and>
    (\<exists>r. d' = d\<lparr>nameIndex := r\<rparr> \<and> (reg_inv (nameIndex d) \<longrightarrow> reg_inv r))"
  proof (cases res)
    case (Some x)
    then obtain m where "res = Some (Inr m)" using T' by (cases x) auto
    with T T' assms(1) show ?thesis by (auto simp: generateNewName_def)
  next
    case None
    with T T' have rr: "r = nameIndex d" by simp
    have ok: "snd (reserve ?n cid (nameIndex d)) = None" "n = ?n"
      "d' = d\<lparr>nameIndex := fst (reserve ?n cid (nameIndex d))\<rparr>"
      using assms(1) T None rr
      by (auto simp: generateNewName_def Let_def split: prod.splits option.splits)
    have "container_name ?n" using assms(3) by (auto simp: plain_id_def container_name_def)
    with ok reg.reserve_abs [OF ok(1)] reg.reserve_ok reg.reserve_inv show ?thesis by auto
  qed
  then show "container_name n" "name_of d' = (name_of d)(n \<mapsto> cid)"
    "name_of d n = None \<or> name_of d n = Some cid"
    "\<exists>r. d' = d\<lparr>nameIndex := r\<rparr> \<and> (reg_inv (nameIndex d) \<longrightarrow> reg_inv r)" by blast+
qed

text \<open>Naming a container, either way.\<close>

lemma generateIDAndName_Inr:
  assumes "generateIDAndName pick cid name d = (d', Inr (i, n))" "good_pick pick" "plain_id cid"
  shows "i = cid" "container_name n" "name_of d' = (name_of d)(n \<mapsto> cid)"
    and "name_of d n = None \<or> name_of d n = Some cid"
    and "\<exists>r. d' = d\<lparr>nameIndex := r\<rparr> \<and> (reg_inv (nameIndex d) \<longrightarrow> reg_inv r)"
proof -
  have "i = cid \<and> (generateNewName pick cid d = (d', Inr n) \<or> reserveName cid name d = (d', Inr n))"
    using assms(1) by (auto simp: generateIDAndName_def split: if_splits prod.splits sum.splits)
  then have i: "i = cid" and "generateNewName pick cid d = (d', Inr n) \<or> reserveName cid name d = (d', Inr n)"
    by auto
  from this(2) have "container_name n \<and> name_of d' = (name_of d)(n \<mapsto> cid) \<and>
    (name_of d n = None \<or> name_of d n = Some cid) \<and>
    (\<exists>r. d' = d\<lparr>nameIndex := r\<rparr> \<and> (reg_inv (nameIndex d) \<longrightarrow> reg_inv r))"
  proof
    assume g: "generateNewName pick cid d = (d', Inr n)"
    show ?thesis by (intro conjI generateNewName_Inr [OF g assms(2,3)])
  next
    assume g: "reserveName cid name d = (d', Inr n)"
    show ?thesis by (intro conjI reserveName_Inr [OF g])
  qed
  with i show "i = cid" "container_name n" "name_of d' = (name_of d)(n \<mapsto> cid)"
    "name_of d n = None \<or> name_of d n = Some cid"
    "\<exists>r. d' = d\<lparr>nameIndex := r\<rparr> \<and> (reg_inv (nameIndex d) \<longrightarrow> reg_inv r)" by blast+
qed

lemma naming_inv_names:
  assumes inv: "naming_inv A d P" and d1: "d1 = d\<lparr>nameIndex := r\<rparr>" "reg_inv (nameIndex d) \<longrightarrow> reg_inv r"
    and upd: "name_of d1 = (name_of d)(n \<mapsto> cid)" "name_of d n = None \<or> name_of d n = Some cid"
  shows "naming_inv A d1 P"
proof -
  have "reg_abs r (c_Name c) = Some (c_ID c)" if "c \<in> registered d \<union> set P" for c
  proof -
    have "name_of d (c_Name c) = Some (c_ID c)"
      using inv that by (simp add: naming_inv_def named_def)
    with upd d1(1) show ?thesis by (auto split: if_splits)
  qed
  from naming_inv_nameIndex [OF inv _ this] naming_invD(1) [OF inv] d1 show ?thesis by simp
qed

lemma naming_inv_add_links:
  assumes inv: "naming_inv A d P"
    and "naming_inv A (d\<lparr>nameIndex := r\<rparr>) P"
    and "\<And>p a ch. links_to l p a ch \<Longrightarrow> links_to (linkIdx d) p a ch \<or>
           (\<exists>c s. store_get p (containers d) = Some c \<and> a = c_Name c @ ''/'' @ s)"
  shows "naming_inv A (d\<lparr>nameIndex := r, linkIdx := l\<rparr>) P"
  using assms unfolding naming_inv_def registered_def named_def by simp metis

lemma naming_inv_Register:
  assumes laws: "trie_laws T A" and inv: "naming_inv A d P" and c: "c \<in> set P"
  shows "naming_inv A (Register T c d) (remove1 c P)"
proof -
  note I = naming_invD [OF inv]
  have new: "store_get (c_ID c) (containers d) = None" "good_id (c_ID c)" and "named d c"
    using I(6,8) [OF c] by simp_all
  have fresh: "c_ID c \<notin> set (ti_ids (idIndex d))" using I(4) new(1) by simp
  note add = addID_result [OF laws I(2), of "c_ID c"]
  have ids: "set (ti_ids (fst (addID T (c_ID c) (idIndex d)))) = insert (c_ID c) (set (ti_ids (idIndex d)))"
    using add new(2) fresh by (simp add: good_id_def)
  have dP: "distinct P" using I(5) by (simp add: distinct_map)
  have other: "c_ID x \<noteq> c_ID c" if "x \<in> set (remove1 c P)" for x
  proof -
    have "x \<in> set P" "x \<noteq> c" using that dP by auto
    then show ?thesis using I(5) c by (auto simp: distinct_map inj_on_def)
  qed
  have sub: "set (remove1 c P) \<subseteq> set P" by (rule set_remove1_subset)
  have old: "store_get p (containers d) = Some k \<Longrightarrow> p \<noteq> c_ID c" for p k
    using new(1) by auto
  show ?thesis
    unfolding naming_inv_def
  proof (intro conjI)
    show "reg_inv (nameIndex (Register T c d))" using I(1) by (simp add: Register_def)
    show "trunc_inv A (idIndex (Register T c d))"
      using addID_inv [OF laws I(2)] by (simp add: Register_def)
    show "\<forall>i ca. store_get i (containers (Register T c d)) = Some ca \<longrightarrow> c_ID ca = i \<and> good_id i"
      using I(3) new(2) by (simp add: Register_def)
    show "set (ti_ids (idIndex (Register T c d))) = {i. store_get i (containers (Register T c d)) \<noteq> None}"
      using ids I(4) by (auto simp: Register_def)
    show "distinct (map c_ID (remove1 c P))" using I(5) dP
      by (simp add: distinct_remove1_removeAll removeAll_filter_not_eq distinct_map_filter)
    show "\<forall>x \<in> set (remove1 c P). store_get (c_ID x) (containers (Register T c d)) = None \<and> good_id (c_ID x)"
      using I(6) other sub by (auto simp: Register_def)
    show "\<forall>x \<in> registered (Register T c d) \<union> set (remove1 c P). named (Register T c d) x"
      using I(7,8) c sub by (auto simp: Register_def registered_def named_def split: if_splits)
    show "\<forall>p a ch. links_to (linkIdx (Register T c d)) p a ch \<longrightarrow>
        (\<exists>ca s. store_get p (containers (Register T c d)) = Some ca \<and> a = c_Name ca @ ''/'' @ s)"
      using I(9) old by (simp add: Register_def) metis
  qed
qed

text \<open>Removing a container frees its name, its identifier and its links.\<close>

lemma deregister_names:
  assumes "reg_inv (nameIndex d)"
  shows "name_of (deregister T c d) n = (if name_of d n = Some (c_ID c) then None else name_of d n)"
  using delete_key_refines [OF assms] by (simp add: deregister_def)

lemma naming_inv_deregister:
  assumes laws: "trie_laws T A" and inv: "naming_inv A d P"
  shows "naming_inv A (deregister T c d) (filter (\<lambda>x. c_ID x \<noteq> c_ID c) P)"
proof -
  note I = naming_invD [OF inv]
  let ?d = "deregister T c d"
  have ids: "set (ti_ids (idIndex ?d)) = set (ti_ids (idIndex d)) - {c_ID c}"
    using trunc_delete_result(2) [OF laws I(2)] by (simp add: deregister_def)
  have conts: "store_get i (containers ?d) = (if i = c_ID c then None else store_get i (containers d))" for i
    by (simp add: deregister_def)
  have keep: "named d x \<Longrightarrow> c_ID x \<noteq> c_ID c \<Longrightarrow> named ?d x" for x
    by (simp add: named_def deregister_names [OF I(1)])
  show ?thesis
    unfolding naming_inv_def
  proof (intro conjI)
    show "reg_inv (nameIndex ?d)" using delete_key_inv [OF I(1)] by (simp add: deregister_def)
    show "trunc_inv A (idIndex ?d)"
      using trunc_delete_inv [OF laws I(2)] by (simp add: deregister_def)
    show "\<forall>i ca. store_get i (containers ?d) = Some ca \<longrightarrow> c_ID ca = i \<and> good_id i"
      using I(3) by (simp add: conts)
    show "set (ti_ids (idIndex ?d)) = {i. store_get i (containers ?d) \<noteq> None}"
      using ids I(4) by (auto simp: conts)
    show "distinct (map c_ID (filter (\<lambda>x. c_ID x \<noteq> c_ID c) P))" using I(5) by (rule distinct_map_filter)
    show "\<forall>x \<in> set (filter (\<lambda>x. c_ID x \<noteq> c_ID c) P). store_get (c_ID x) (containers ?d) = None \<and> good_id (c_ID x)"
      using I(6) by (auto simp: conts)
    show "\<forall>x \<in> registered ?d \<union> set (filter (\<lambda>x. c_ID x \<noteq> c_ID c) P). named ?d x"
      using I(3,7,8) keep by (auto simp: registered_def conts split: if_splits)
    show "\<forall>p a ch. links_to (linkIdx ?d) p a ch \<longrightarrow>
        (\<exists>ca s. store_get p (containers ?d) = Some ca \<and> a = c_Name ca @ ''/'' @ s)"
    proof (intro allI impI)
      fix p a ch assume "links_to (linkIdx ?d) p a ch"
      then have "p \<noteq> c_ID c" "links_to (linkIdx d) p a ch" by (simp_all add: deregister_def links_to_delete)
      with I(9) show "\<exists>ca s. store_get p (containers ?d) = Some ca \<and> a = c_Name ca @ ''/'' @ s"
        by (simp add: conts)
    qed
  qed
qed

lemma restricted_path_part: "restricted_name s \<Longrightarrow> path_part s"
  using restricted_no_slash [of s]
  by (auto simp: path_part_def restricted_name_def name_alnum_def)

lemma link_full_name:
  assumes "container_name n" "path_part alias"
  shows "path_join [n, alias] = n @ ''/'' @ alias"
  using assms path_join_parts [OF restricted_path_part assms(2)] by (auto simp: container_name_def)

lemma naming_inv_registerLink:
  assumes inv: "naming_inv A d P" and p: "store_get (c_ID p) (containers d) = Some p"
    and part: "path_part alias"
  shows "naming_inv A (fst (registerLink p ch alias d)) P"
proof -
  note I = naming_invD [OF inv]
  have n: "container_name (c_Name p)" using I(7) [OF p] by (simp add: named_def)
  let ?n = "c_Name p @ ''/'' @ alias"
  note full = link_full_name [OF n part]
  have "naming_inv A (d\<lparr>nameIndex := fst (reserve ?n (c_ID ch) (nameIndex d))\<rparr>) P"
  proof (rule naming_inv_nameIndex [OF inv reg.reserve_inv [OF I(1)]])
    fix c assume "c \<in> registered d \<union> set P"
    then have "named d c" using inv by (simp add: naming_inv_def)
    then show "reg_abs (fst (reserve ?n (c_ID ch) (nameIndex d))) (c_Name c) = Some (c_ID c)"
      by (simp add: named_def reg.reserve_keeps)
  qed
  from this naming_inv_add_links [OF inv this, of "link (c_ID p) (c_ID ch) ?n (linkIdx d)"] p
  show ?thesis
    by (auto simp: registerLink_def full Let_def links_to_link split: prod.splits option.splits if_splits)
qed

lemma naming_inv_rmLink:
  assumes inv: "naming_inv A d P"
  shows "naming_inv A (fst (rmLink T c name d)) P"
proof -
  note I = naming_invD [OF inv]
  let ?n = "slash name"
  have rel: "naming_inv A (releaseName ?n d) P" if "fst (path_split ?n) \<noteq> ''/''"
  proof -
    have "\<not> container_name ?n"
    proof
      assume "container_name ?n"
      then obtain s where s: "?n = ''/'' @ s" "restricted_name s" by (auto simp: container_name_def)
      then have "path_split ?n = (''/'', s)"
        using path_split_append [OF restricted_no_slash [OF s(2)], of "''''"] by simp
      with that show False by simp
    qed
    then have "reg_abs (release ?n (nameIndex d)) (c_Name x) = Some (c_ID x)"
      if x: "x \<in> registered d \<union> set P" for x
    proof -
      have nx: "named d x" using inv x unfolding naming_inv_def by blast
      then have "c_Name x \<noteq> ?n" using \<open>\<not> container_name ?n\<close> by (metis named_def)
      with nx show ?thesis by (simp add: named_def reg.release_abs)
    qed
    from naming_inv_nameIndex [OF inv reg.release_inv [OF I(1)] this]
    show ?thesis by (simp add: releaseName_def)
  qed
  have un: "naming_inv A d1 P \<Longrightarrow> naming_inv A (d1\<lparr>linkIdx := unlink ?n (c_ID c) q (linkIdx d1)\<rparr>) P" for d1 q
    unfolding naming_inv_def registered_def named_def by (simp add: links_to_unlink)
  show ?thesis
    using inv rel un by (auto simp: rmLink_def Let_def split: sum.splits option.splits)
qed

lemma restore_links_frame:
  "containers (restore_links cid old new links d) = containers d"
  "idIndex (restore_links cid old new links d) = idIndex d"
  "reg_inv (nameIndex d) \<Longrightarrow> reg_inv (nameIndex (restore_links cid old new links d))"
  by (induction links arbitrary: d)
     (auto simp: restore_links_def reg.reserve_inv reg.release_inv split: prod.splits)

lemma restore_links_other:
  "n \<notin> (\<lambda>(k, v). old @ k) ` set links \<Longrightarrow> n \<notin> (\<lambda>(k, v). new @ k) ` set links \<Longrightarrow>
     name_of (restore_links cid old new links d) n = name_of d n"
  by (induction links arbitrary: d)
     (auto simp: restore_links_def reg.release_abs reserve_other split: prod.splits)

lemma restore_links_links:
  "links_to (linkIdx (restore_links cid old new links d)) p a ch \<Longrightarrow>
     links_to (linkIdx d) p a ch \<and> \<not> (p = cid \<and> a \<in> (\<lambda>(k, v). new @ k) ` set links) \<or>
     (p = cid \<and> a \<in> (\<lambda>(k, v). old @ k) ` set links)"
proof (induction links arbitrary: d)
  case (Cons kv links)
  obtain k v where kv: "kv = (k, v)" by (cases kv)
  from Cons.IH Cons.prems show ?case
    by (fastforce simp: restore_links_def kv links_to_link links_to_unlink split: if_splits)
qed (simp add: restore_links_def)

lemma GetByName_registered: "GetByName name d = Inr c \<Longrightarrow> c \<in> registered d"
  by (auto simp: GetByName_def registered_def split: if_splits sum.splits option.splits)

lemma GetContainer_registered: "GetContainer T s d = Inr (Some c) \<Longrightarrow> c \<in> registered d"
  by (auto simp: GetContainer_def registered_def GetByName_registered
      dest: GetByName_registered split: if_splits sum.splits option.splits)

section \<open>Renaming\<close>

text \<open>
  What a rename of the registered container \<open>c\<close> to the reserved name \<open>new\<close> starts from:
  \<open>links\<close> are the suffixes of its links.
\<close>

definition rename_ready :: "('t \<Rightarrow> string set) \<Rightarrow> container \<Rightarrow> string \<Rightarrow> (string \<times> string) list \<Rightarrow>
    't daemon \<Rightarrow> container list \<Rightarrow> bool" where
  "rename_ready A c new links d P \<longleftrightarrow>
     naming_inv A d P \<and> store_get (c_ID c) (containers d) = Some c \<and>
     container_name new \<and> new \<noteq> c_Name c \<and> name_of d new = Some (c_ID c) \<and>
     (\<forall>(k, v) \<in> set links. \<exists>s. k = ''/'' @ s) \<and>
     (\<forall>a ch. links_to (linkIdx d) (c_ID c) a ch \<longrightarrow> a \<in> (\<lambda>(k, v). c_Name c @ k) ` set links)"

lemma link_suffix_in:
  assumes "\<forall>(k, v) \<in> set links. \<exists>s. k = ''/'' @ s" "a \<in> (\<lambda>(k, v). n @ k) ` set links"
  obtains s where "a = n @ ''/'' @ s"
proof -
  from assms(2) obtain k v where kv: "(k, v) \<in> set links" "a = n @ k" by auto
  from assms(1) kv(1) obtain s where "k = ''/'' @ s" by auto
  with kv(2) that show ?thesis by simp
qed

lemma link_suffix_notin:
  assumes "\<forall>(k, v) \<in> set links. \<exists>s. k = ''/'' @ s" "container_name n" "container_name m"
  shows "m \<notin> (\<lambda>(k, v). n @ k) ` set links"
  using link_suffix_in [OF assms(1)] link_name_neq [OF assms(2,3)] by metis

lemma link_suffix_disjoint:
  assumes "\<forall>(k, v) \<in> set links. \<exists>s. k = ''/'' @ s" "container_name n" "container_name m" "n \<noteq> m"
    and "a \<in> (\<lambda>(k, v). n @ k) ` set links"
  shows "a \<notin> (\<lambda>(k, v). m @ k) ` set links"
proof
  assume "a \<in> (\<lambda>(k, v). m @ k) ` set links"
  then obtain t where "a = m @ ''/'' @ t" by (rule link_suffix_in [OF assms(1)])
  moreover obtain s where "a = n @ ''/'' @ s" using assms(5) by (rule link_suffix_in [OF assms(1)])
  ultimately show False using link_name_inj [OF assms(2,3)] assms(4) by metis
qed

lemma rename_apply_frame:
  "store_get i (containers (rename_apply c new links d)) =
     (if i = c_ID c then Some (c\<lparr>c_Name := new, c_anon := False\<rparr>) else store_get i (containers d))"
  "idIndex (rename_apply c new links d) = idIndex d"
  "reg_inv (nameIndex d) \<Longrightarrow> reg_inv (nameIndex (rename_apply c new links d))"
  by (simp_all add: rename_apply_def Let_def releaseName_def add_new_links_frame drop_old_links_frame
        reg.release_inv)

text \<open>On container names the index changes only at the old name, which becomes free.\<close>

lemma rename_apply_names:
  assumes "\<forall>(k, v) \<in> set links. \<exists>s. k = ''/'' @ s" "container_name (c_Name c)" "container_name new"
    and "container_name n"
  shows "name_of (rename_apply c new links d) n = (if n = c_Name c then None else name_of d n)"
  using link_suffix_notin [OF assms(1) assms(2) assms(4)] link_suffix_notin [OF assms(1) assms(3) assms(4)]
  by (simp add: rename_apply_def Let_def releaseName_def reg.release_abs drop_old_links_names add_new_links_other)

text \<open>The links of \<open>c\<close> are now named after the new name, those of others are unchanged.\<close>

lemma rename_apply_links:
  assumes "links_to (linkIdx (rename_apply c new links d)) p a ch"
  shows "(links_to (linkIdx d) p a ch \<and> \<not> (p = c_ID c \<and> a \<in> (\<lambda>(k, v). c_Name c @ k) ` set links)) \<or>
     (p = c_ID c \<and> a \<in> (\<lambda>(k, v). new @ k) ` set links)"
  using assms
  by (auto simp: rename_apply_def Let_def releaseName_def drop_old_links_links dest: add_new_links_links)

lemma rename_ready_other:
  assumes ready: "rename_ready A c new links d P" and x: "x \<in> registered d \<union> set P" "c_ID x \<noteq> c_ID c"
  shows "named d x" "c_Name x \<noteq> c_Name c" "c_Name x \<noteq> new"
proof -
  have inv: "naming_inv A d P" and c: "store_get (c_ID c) (containers d) = Some c"
    and n: "name_of d new = Some (c_ID c)"
    using ready by (simp_all add: rename_ready_def)
  show nx: "named d x" using inv x(1) unfolding naming_inv_def by blast
  have "named d c" using naming_invD(7) [OF inv c] .
  with nx n x(2) show "c_Name x \<noteq> c_Name c" "c_Name x \<noteq> new" by (auto simp: named_def)
qed

lemma naming_inv_rename_apply:
  assumes ready: "rename_ready A c new links d P"
  shows "naming_inv A (rename_apply c new links d) P"
proof -
  from ready have inv: "naming_inv A d P" and c: "store_get (c_ID c) (containers d) = Some c"
    and new: "container_name new" "new \<noteq> c_Name c" "name_of d new = Some (c_ID c)"
    and suf: "\<forall>(k, v) \<in> set links. \<exists>s. k = ''/'' @ s"
    and all: "\<And>a ch. links_to (linkIdx d) (c_ID c) a ch \<Longrightarrow> a \<in> (\<lambda>(k, v). c_Name c @ k) ` set links"
    by (auto simp: rename_ready_def)
  note I = naming_invD [OF inv]
  let ?d = "rename_apply c new links d"
  let ?c1 = "c\<lparr>c_Name := new, c_anon := False\<rparr>"
  have cn: "container_name (c_Name c)" using I(7) [OF c] by (simp add: named_def)
  note names = rename_apply_names [OF suf cn new(1), where d = d]
  have keep: "named ?d x" if "x \<in> registered d \<union> set P" "c_ID x \<noteq> c_ID c" for x
    using rename_ready_other [OF ready that] by (simp add: named_def names)
  have c1: "named ?d ?c1" using new by (simp add: named_def names)
  have Pc: "x \<in> set P \<Longrightarrow> c_ID x \<noteq> c_ID c" for x using I(6) [of x] c by auto
  show ?thesis
    unfolding naming_inv_def
  proof (intro conjI)
    show "reg_inv (nameIndex ?d)" "trunc_inv A (idIndex ?d)" "distinct (map c_ID P)"
      using I(1,2,5) by (simp_all add: rename_apply_frame)
    show "\<forall>i ca. store_get i (containers ?d) = Some ca \<longrightarrow> c_ID ca = i \<and> good_id i"
      using I(3) [OF c] I(3) by (auto simp: rename_apply_frame)
    show "set (ti_ids (idIndex ?d)) = {i. store_get i (containers ?d) \<noteq> None}"
      using I(4) c by (auto simp: rename_apply_frame)
    show "\<forall>x \<in> set P. store_get (c_ID x) (containers ?d) = None \<and> good_id (c_ID x)"
      using I(6) Pc by (auto simp: rename_apply_frame)
    show "\<forall>x \<in> registered ?d \<union> set P. named ?d x"
    proof
      fix x assume "x \<in> registered ?d \<union> set P"
      then consider "x = ?c1" | "x \<in> registered d \<union> set P" "c_ID x \<noteq> c_ID c"
        using Pc I(3) by (auto simp: registered_def rename_apply_frame split: if_splits)
      then show "named ?d x" by cases (simp_all add: c1 keep)
    qed
    show "\<forall>p a ch. links_to (linkIdx ?d) p a ch \<longrightarrow>
        (\<exists>ca s. store_get p (containers ?d) = Some ca \<and> a = c_Name ca @ ''/'' @ s)"
    proof (intro allI impI)
      fix p a ch assume "links_to (linkIdx ?d) p a ch"
      from rename_apply_links [OF this] consider
        (old) "links_to (linkIdx d) p a ch" "\<not> (p = c_ID c \<and> a \<in> (\<lambda>(k, v). c_Name c @ k) ` set links)"
        | (new) "p = c_ID c" "a \<in> (\<lambda>(k, v). new @ k) ` set links" by blast
      then show "\<exists>ca s. store_get p (containers ?d) = Some ca \<and> a = c_Name ca @ ''/'' @ s"
      proof cases
        case old
        then have "p \<noteq> c_ID c" using all by blast
        with I(9) [OF old(1)] show ?thesis by (simp add: rename_apply_frame)
      next
        case new
        then obtain k v s where "a = new @ k" "k = ''/'' @ s" using suf by fastforce
        with new show ?thesis by (simp add: rename_apply_frame)
      qed
    qed
  qed
qed

text \<open>The deferred function undoes the changes, up to links that a later link took over.\<close>

lemma reserveName_free:
  assumes "container_name n" "name_of d n = None \<or> name_of d n = Some cid"
  shows "fst (reserveName cid n d) = d\<lparr>nameIndex := fst (reserve n cid (nameIndex d))\<rparr>"
    and "name_of (fst (reserveName cid n d)) = (name_of d)(n \<mapsto> cid)"
proof -
  have ok: "snd (reserve n cid (nameIndex d)) = None" using assms(2) by (simp add: reg.reserve_ok)
  then show fst: "fst (reserveName cid n d) = d\<lparr>nameIndex := fst (reserve n cid (nameIndex d))\<rparr>"
    using assms(1) container_name_trim [OF assms(1)]
    by (auto simp: reserveName_def Let_def split: prod.splits option.splits)
  show "name_of (fst (reserveName cid n d)) = (name_of d)(n \<mapsto> cid)"
    by (simp add: fst reg.reserve_abs [OF ok])
qed

lemma rename_rollback_undo:
  assumes ready: "rename_ready A c new links d P"
  defines "d' \<equiv> rename_rollback c new links (rename_apply c new links d)"
  shows "naming_inv A d' P"
    and "store_get i (containers d') = store_get i (containers d)"
    and "container_name n \<Longrightarrow> name_of d' n = (if n = new then None else name_of d n)"
    and "idIndex d' = idIndex d"
proof -
  from ready have inv: "naming_inv A d P" and c: "store_get (c_ID c) (containers d) = Some c"
    and new: "container_name new" "new \<noteq> c_Name c" "name_of d new = Some (c_ID c)"
    and suf: "\<forall>(k, v) \<in> set links. \<exists>s. k = ''/'' @ s"
    and all: "\<And>a ch. links_to (linkIdx d) (c_ID c) a ch \<Longrightarrow> a \<in> (\<lambda>(k, v). c_Name c @ k) ` set links"
    by (auto simp: rename_ready_def)
  note I = naming_invD [OF inv]
  let ?a = "rename_apply c new links d"
  have cn: "container_name (c_Name c)" and cid: "name_of d (c_Name c) = Some (c_ID c)"
    using I(7) [OF c] by (simp_all add: named_def)
  define d1 where "d1 = ?a\<lparr>containers := store_add (c_ID c) c (containers ?a)\<rparr>"
  define d2 where "d2 = fst (reserveName (c_ID c) (c_Name c) d1)"
  define d3 where "d3 = restore_links (c_ID c) (c_Name c) new links d2"
  have d': "d' = releaseName new d3"
    by (simp add: d'_def rename_rollback_def Let_def d1_def d2_def d3_def)
  have n1: "container_name n \<Longrightarrow> name_of d1 n = (if n = c_Name c then None else name_of d n)" for n
    using rename_apply_names [OF suf cn new(1), where d = d] cn by (simp add: d1_def)
  have free: "name_of d1 (c_Name c) = None \<or> name_of d1 (c_Name c) = Some (c_ID c)"
    using n1 [OF cn] by simp
  note R = reserveName_free [OF cn free]
  have n2: "container_name n \<Longrightarrow> name_of d2 n = name_of d n" for n
    using n1 cid by (simp add: d2_def R(2))
  have n3: "container_name n \<Longrightarrow> name_of d3 n = name_of d n" for n
    using n2 link_suffix_notin [OF suf cn] link_suffix_notin [OF suf new(1)]
    by (simp add: d3_def restore_links_other)
  show names: "container_name n \<Longrightarrow> name_of d' n = (if n = new then None else name_of d n)" for n
    using n3 by (simp add: d' releaseName_def reg.release_abs)
  have frame2: "containers d2 = containers d1" "idIndex d2 = idIndex d1" "linkIdx d2 = linkIdx d1"
    by (simp_all add: d2_def R(1))
  show conts: "store_get i (containers d') = store_get i (containers d)" for i
    using c by (simp add: d' releaseName_def d3_def restore_links_frame frame2 d1_def rename_apply_frame)
  show ids: "idIndex d' = idIndex d"
    by (simp add: d' releaseName_def d3_def restore_links_frame frame2 d1_def rename_apply_frame)
  have "reg_inv (nameIndex d1)" using I(1) by (simp add: d1_def rename_apply_frame)
  then have "reg_inv (nameIndex d2)" by (simp add: d2_def R(1) reg.reserve_inv)
  then have reg: "reg_inv (nameIndex d')"
    by (simp add: d' releaseName_def reg.release_inv d3_def restore_links_frame)
  have links: "links_to (linkIdx d) p a ch \<and> p \<noteq> c_ID c \<or> (p = c_ID c \<and> a \<in> (\<lambda>(k, v). c_Name c @ k) ` set links)"
    if "links_to (linkIdx d') p a ch" for p a ch
  proof -
    have "links_to (linkIdx d3) p a ch" using that by (simp add: d' releaseName_def)
    have l1: "linkIdx d1 = linkIdx ?a" by (simp add: d1_def)
    from restore_links_links [OF \<open>links_to (linkIdx d3) p a ch\<close> [unfolded d3_def]]
    consider "links_to (linkIdx ?a) p a ch" "\<not> (p = c_ID c \<and> a \<in> (\<lambda>(k, v). new @ k) ` set links)"
      | "p = c_ID c \<and> a \<in> (\<lambda>(k, v). c_Name c @ k) ` set links"
      unfolding frame2 l1 by blast
    then show ?thesis
    proof cases
      case 1
      with rename_apply_links [OF 1(1)] all show ?thesis by blast
    qed blast
  qed
  have regd: "registered d' = registered d" by (simp add: registered_def conts)
  show "naming_inv A d' P"
    unfolding naming_inv_def
  proof (intro conjI)
    show "reg_inv (nameIndex d')" by (rule reg)
    show "trunc_inv A (idIndex d')" "distinct (map c_ID P)" using I(2,5) by (simp_all add: ids)
    show "\<forall>i ca. store_get i (containers d') = Some ca \<longrightarrow> c_ID ca = i \<and> good_id i"
      using I(3) by (simp add: conts)
    show "set (ti_ids (idIndex d')) = {i. store_get i (containers d') \<noteq> None}"
      using I(4) by (simp add: conts ids)
    show "\<forall>x \<in> set P. store_get (c_ID x) (containers d') = None \<and> good_id (c_ID x)"
      using I(6) by (simp add: conts)
    show "\<forall>x \<in> registered d' \<union> set P. named d' x"
    proof
      fix x assume x: "x \<in> registered d' \<union> set P"
      show "named d' x"
      proof (cases "c_ID x = c_ID c")
        case True
        have "x \<notin> set P" using I(6) [of x] c True by auto
        with x have "x \<in> registered d" by (simp add: regd)
        then obtain i where i: "store_get i (containers d) = Some x" by (auto simp: registered_def)
        have "i = c_ID c" using I(3) [OF i] True by (metis (no_types))
        then have "x = c" using i c by (metis (no_types) option.inject)
        then show ?thesis using cn cid new(2) names [OF cn] by (simp add: named_def)
      next
        case False
        from rename_ready_other [OF ready x [unfolded regd] False] names show ?thesis
          by (simp add: named_def)
      qed
    qed
    show "\<forall>p a ch. links_to (linkIdx d') p a ch \<longrightarrow>
        (\<exists>ca s. store_get p (containers d') = Some ca \<and> a = c_Name ca @ ''/'' @ s)"
    proof (intro allI impI)
      fix p a ch assume "links_to (linkIdx d') p a ch"
      from links [OF this]
      show "\<exists>ca s. store_get p (containers d') = Some ca \<and> a = c_Name ca @ ''/'' @ s"
      proof
        assume "links_to (linkIdx d) p a ch \<and> p \<noteq> c_ID c"
        with I(9) [of p a ch] show ?thesis by (simp add: conts)
      next
        assume p: "p = c_ID c \<and> a \<in> (\<lambda>(k, v). c_Name c @ k) ` set links"
        then obtain s where "a = c_Name c @ ''/'' @ s" using link_suffix_in [OF suf] by metis
        with p c show ?thesis by (simp add: conts)
      qed
    qed
  qed
qed

section \<open>The rename as a whole\<close>

lemma rename_links_ready:
  assumes inv: "naming_inv A d P" and c: "store_get (c_ID c) (containers d) = Some c"
    and res: "reserveName (c_ID c) (slash newRef) d = (d1, Inr new)" and ne: "c_Name c \<noteq> slash newRef"
  defines "links \<equiv> map (\<lambda>(k, v). (drop (length (c_Name c)) k, v)) (link_children (c_ID c) (linkIdx d))"
  assumes wf: "gm_wf (link_children (c_ID c) (linkIdx d))"
  shows "rename_ready A c new links d1 P"
proof -
  note R = reserveName_Inr [OF res]
  have new: "new = slash newRef" using R(1) by (simp add: slash_def)
  obtain r where r: "d1 = d\<lparr>nameIndex := r\<rparr>" using R(5) by blast
  have kids: "links_to (linkIdx d) (c_ID c) k v" if "(k, v) \<in> set (link_children (c_ID c) (linkIdx d))" for k v
    using wf that by (simp add: links_to_def link_children_def gm_wf_get)
  have named_after: "\<exists>s. k = c_Name c @ ''/'' @ s" if "(k, v) \<in> set (link_children (c_ID c) (linkIdx d))" for k v
    using naming_invD(9) [OF inv kids [OF that]] c by auto
  have suf: "\<forall>(k, v) \<in> set links. \<exists>s. k = ''/'' @ s"
    using named_after by (fastforce simp: links_def)
  have all: "a \<in> (\<lambda>(k, v). c_Name c @ k) ` set links" if l: "links_to (linkIdx d) (c_ID c) a ch" for a ch
  proof -
    have m: "(a, ch) \<in> set (link_children (c_ID c) (linkIdx d))"
      using l by (auto simp: links_to_def link_children_def)
    obtain s where s: "a = c_Name c @ ''/'' @ s" using named_after [OF m] by blast
    have "(''/'' @ s, ch) \<in> set links" using m s by (force simp: links_def)
    then show ?thesis using s by force
  qed
  show ?thesis
    unfolding rename_ready_def
    using naming_inv_reserve [OF inv res] c R(2,3) ne new suf all r by simp
qed

definition link_wf :: "'c linkindex \<Rightarrow> bool" where
  "link_wf l \<longleftrightarrow> (\<forall>p. gm_wf (gm_list (li_idx l) p))"

lemma link_wf_new: "link_wf newLinkIndex"
  by (simp add: link_wf_def newLinkIndex_def gm_list_def)

lemma link_wf_steps:
  assumes "link_wf l"
  shows "link_wf (link p c a l)" "link_wf (unlink a c p l)" "link_wf (link_delete c l)"
  using assms by (auto simp: link_wf_def link_def Let_def unlink_def gm_list_del_inner link_delete_def)

lemma link_wf_folds:
  assumes "link_wf (linkIdx d)"
  shows "link_wf (linkIdx (add_new_links cid name links d))"
    and "link_wf (linkIdx (drop_old_links cid name links d))"
    and "link_wf (linkIdx (restore_links cid old name links d))"
  using assms
  by (induction links arbitrary: d)
     (auto simp: add_new_links_def drop_old_links_def restore_links_def link_wf_steps split: prod.splits)

lemma ContainerRename_outcome:
  assumes inv: "naming_inv A d P" and wf: "link_wf (linkIdx d)"
    and run: "ContainerRename T E oldRef newRef d = (d', e)"
  obtains (refused) "d' = d" "e \<noteq> None"
  | (changed) c d1 links where "GetContainer T oldRef d = Inr (Some c)"
      "reserveName (c_ID c) (slash newRef) d = (d1, Inr (slash newRef))"
      "rename_ready A c (slash newRef) links d1 P"
      "(e = None \<and> d' = rename_apply c (slash newRef) links d1) \<or>
       (e \<noteq> None \<and> d' = rename_rollback c (slash newRef) links (rename_apply c (slash newRef) links d1))"
      "links = map (\<lambda>(k, v). (drop (length (c_Name c)) k, v)) (link_children (c_ID c) (linkIdx d))"
proof (cases "d' = d \<and> e \<noteq> None")
  case True
  then show ?thesis using refused by blast
next
  case False
  obtain c where c: "GetContainer T oldRef d = Inr (Some c)"
    and ne: "c_Name c \<noteq> slash newRef" and refs: "oldRef \<noteq> ''''" "newRef \<noteq> ''''"
    using run False unfolding ContainerRename_unfold Let_def
    by (auto split: if_splits sum.splits option.splits)
  define links where "links = map (\<lambda>(k, v). (drop (length (c_Name c)) k, v)) (link_children (c_ID c) (linkIdx d))"
  have okkids: "find (\<lambda>(k, v). \<not> prefix (c_Name c) k) (link_children (c_ID c) (linkIdx d)) = None"
    using run False refs c ne unfolding ContainerRename_unfold Let_def
    by (auto split: option.splits)
  obtain d1 res where R: "reserveName (c_ID c) (slash newRef) d = (d1, res)"
    by (cases "reserveName (c_ID c) (slash newRef) d")
  show ?thesis
  proof (cases res)
    case (Inl x)
    with R reserveName_Inl have "d1 = d" by fastforce
    with run c ne refs okkids R Inl False show ?thesis
      by (simp add: ContainerRename_unfold Let_def)
  next
    case (Inr n)
    with R have R': "reserveName (c_ID c) (slash newRef) d = (d1, Inr n)" by simp
    have n: "n = slash newRef" using reserveName_Inr(1) [OF R'] by (simp add: slash_def)
    have reg: "store_get (c_ID c) (containers d) = Some c"
      using GetContainer_registered [OF c] naming_invD(3) [OF inv] unfolding registered_def by force
    have "gm_wf (link_children (c_ID c) (linkIdx d))"
      using wf by (simp add: link_wf_def link_children_def)
    from rename_links_ready [OF inv reg R' ne this, folded links_def] n
    have ready: "rename_ready A c (slash newRef) links d1 P" by simp
    have "(e = None \<and> d' = rename_apply c (slash newRef) links d1) \<or>
       (e \<noteq> None \<and> d' = rename_rollback c (slash newRef) links (rename_apply c (slash newRef) links d1))"
      using run c ne refs okkids R' n
      by (auto simp: ContainerRename_unfold rename_finish_def Let_def links_def [symmetric] split: if_splits)
    from changed [OF c _ ready this links_def] R' n show ?thesis by simp
  qed
qed

end
