(* ===== verification/NamingSteps.thy ===== *)
theory NamingSteps
  imports DaemonNames
begin

text \<open>
  The naming of containers as a state machine: the operations of the daemon that touch its
  name index, identifier index, container store and link index, in any order, and what
  holds in every state they reach. A step is a whole operation: the machine runs them one
  after another. The source does not enforce that for renames, which read the old name before they lock the
  container and lock nothing that creations or renames of other containers would wait for; the
  parts of a rename and two interleavings that break the naming are below.
\<close>

section \<open>Steps\<close>

text \<open>
  \<open>create\<close> is \<^verbatim>\<open>newContainer\<close>, \<open>load\<close> the naming of a container found on disk, both
  followed later by \<open>register\<close>; \<open>remove\<close> is also the clean-up of a failed creation.
\<close>

inductive naming_step :: "'t trie_ops \<Rightarrow> 't daemon \<times> container list \<Rightarrow> 't daemon \<times> container list \<Rightarrow> bool"
  for T :: "'t trie_ops" where
  create: "good_pick pick \<Longrightarrow> plain_id cid \<Longrightarrow> store_get cid (containers d) = None \<Longrightarrow>
     cid \<notin> c_ID ` set P \<Longrightarrow> generateIDAndName pick cid name d = (d1, Inr (c_ID c, c_Name c)) \<Longrightarrow>
     naming_step T (d, P) (d1, c # P)"
| create_fails: "good_pick pick \<Longrightarrow> plain_id cid \<Longrightarrow>
     generateIDAndName pick cid name d = (d1, Inl e) \<Longrightarrow> naming_step T (d, P) (d1, P)"
| load: "good_pick pick \<Longrightarrow> plain_id (c_ID c) \<Longrightarrow> c_ID c \<notin> c_ID ` set P \<Longrightarrow>
     c_Name c = '''' \<or> container_name (c_Name c) \<Longrightarrow>
     registerName T pick c d = (d1, Inr c1) \<Longrightarrow> naming_step T (d, P) (d1, c1 # P)"
| load_fails: "good_pick pick \<Longrightarrow> plain_id (c_ID c) \<Longrightarrow>
     registerName T pick c d = (d1, Inl e) \<Longrightarrow> naming_step T (d, P) (d1, P)"
| register: "c \<in> set P \<Longrightarrow> naming_step T (d, P) (Register T c d, remove1 c P)"
| rename: "ContainerRename T E oldRef newRef d = (d1, e) \<Longrightarrow> naming_step T (d, P) (d1, P)"
| remove: "c \<in> registered d \<union> set P \<Longrightarrow>
     naming_step T (d, P) (deregister T c d, filter (\<lambda>x. c_ID x \<noteq> c_ID c) P)"
| reg_link: "p \<in> registered d \<Longrightarrow> path_part alias \<Longrightarrow>
     naming_step T (d, P) (fst (registerLink p ch alias d), P)"
| rm_link: "c \<in> registered d \<Longrightarrow> naming_step T (d, P) (fst (rmLink T c name d), P)"

inductive naming_reach :: "'t trie_ops \<Rightarrow> 't daemon \<Rightarrow> container list \<Rightarrow> bool" for T :: "'t trie_ops" where
  start: "naming_reach T \<lparr>nameIndex = new_registrar, idIndex = newTruncIndex T [],
            containers = [], linkIdx = newLinkIndex\<rparr> []"
| step: "naming_reach T d P \<Longrightarrow> naming_step T (d, P) (d1, P1) \<Longrightarrow> naming_reach T d1 P1"

section \<open>The invariant holds in every reachable state\<close>

lemma generateNewName_Inl:
  assumes "generateNewName pick cid d = (d', Inl e)" "good_pick pick"
  shows "d' = d"
proof -
  obtain r res where T: "try_random_names pick cid [0..<6] (nameIndex d) = (r, res)"
    by (cases "try_random_names pick cid [0..<6] (nameIndex d)")
  note T' = try_random_names_result [OF assms(2) T]
  have "res = None" using T T' assms(1)
    by (auto simp: generateNewName_def split: option.splits sum.splits)
  with T' have r: "r = nameIndex d" by simp
  have "snd (reserve (''/'' @ TruncateID cid) cid r) \<noteq> None"
    "d' = d\<lparr>nameIndex := fst (reserve (''/'' @ TruncateID cid) cid r)\<rparr>"
    using assms(1) T \<open>res = None\<close> by (auto simp: generateNewName_def Let_def split: prod.splits option.splits)
  then show ?thesis using reg.reserve_err r by fastforce
qed

lemma generateIDAndName_Inl:
  "generateIDAndName pick cid name d = (d', Inl e) \<Longrightarrow> good_pick pick \<Longrightarrow> d' = d"
  by (auto simp: generateIDAndName_def dest: generateNewName_Inl reserveName_Inl
      split: if_splits prod.splits sum.splits)

lemma generateNewName_frame: "\<exists>r. fst (generateNewName pick cid d) = d\<lparr>nameIndex := r\<rparr>"
  by (auto simp: generateNewName_def Let_def split: prod.splits option.splits sum.splits)

lemma registerName_Inr:
  assumes run: "registerName T pick c d = (d1, Inr c1)" and inv: "naming_inv A d P"
    and c: "good_pick pick" "plain_id (c_ID c)" "c_Name c = '''' \<or> container_name (c_Name c)"
  shows "naming_inv A d1 P" "c_ID c1 = c_ID c" "named d1 c1"
    and "store_get (c_ID c) (containers d1) = None" "linkIdx d1 = linkIdx d"
    and "name_of d1 = (name_of d)(c_Name c1 \<mapsto> c_ID c1)" "registered d1 = registered d"
proof -
  from run have ex: "\<not> Exists T (c_ID c) d" by (auto simp: registerName_def split: if_splits)
  have idne: "c_ID c \<noteq> ''''" using c(2) by (simp add: plain_id_def good_id_def)
  have none: "store_get (c_ID c) (containers d) = None"
  proof (rule ccontr)
    assume "store_get (c_ID c) (containers d) \<noteq> None"
    then show False using ex idne by (auto simp: Exists_def GetContainer_def)
  qed
  define g where "g = (if c_Name c = '''' then generateNewName pick (c_ID c) d else (d, Inr (c_Name c)))"
  obtain d0 n where g: "g = (d0, Inr n)"
    and ok: "snd (reserve n (c_ID c) (nameIndex d0)) = None"
    and d1: "d1 = d0\<lparr>nameIndex := fst (reserve n (c_ID c) (nameIndex d0))\<rparr>" and c1: "c1 = c\<lparr>c_Name := n\<rparr>"
    using run ex unfolding registerName_def g_def [symmetric]
    by (auto simp: validateID_def idne split: prod.splits sum.splits option.splits)
  have pre: "naming_inv A d0 P \<and> container_name n \<and> (\<exists>r. d0 = d\<lparr>nameIndex := r\<rparr>) \<and>
      (name_of d0)(n \<mapsto> c_ID c) = (name_of d)(n \<mapsto> c_ID c)"
  proof (cases "c_Name c = ''''")
    case True
    then have G: "generateNewName pick (c_ID c) d = (d0, Inr n)" using g by (simp add: g_def)
    note GN = generateNewName_Inr [OF G c(1,2)]
    obtain r where r: "d0 = d\<lparr>nameIndex := r\<rparr>" "reg_inv (nameIndex d) \<longrightarrow> reg_inv r" using GN(4) by blast
    have "naming_inv A d0 P" by (rule naming_inv_names [OF inv r GN(2,3)])
    with GN(1,2) r(1) show ?thesis by auto
  next
    case False
    then show ?thesis using g c(3) inv by (auto simp: g_def intro: exI [of _ "nameIndex d"])
  qed
  then have inv0: "naming_inv A d0 P" and cn: "container_name n" and fr: "\<exists>r. d0 = d\<lparr>nameIndex := r\<rparr>"
    and nm: "(name_of d0)(n \<mapsto> c_ID c) = (name_of d)(n \<mapsto> c_ID c)" by blast+
  have free: "name_of d0 n = None \<or> name_of d0 n = Some (c_ID c)" using ok by (simp add: reg.reserve_ok)
  have upd: "name_of d1 = (name_of d0)(n \<mapsto> c_ID c)" using d1 reg.reserve_abs [OF ok] by simp
  show "naming_inv A d1 P"
    by (rule naming_inv_names [OF inv0 d1 _ upd free]) (simp add: reg.reserve_inv)
  show "c_ID c1 = c_ID c" by (simp add: c1)
  show "named d1 c1" using cn upd by (simp add: named_def c1)
  show "store_get (c_ID c) (containers d1) = None" "linkIdx d1 = linkIdx d" using none d1 fr by auto
  show "name_of d1 = (name_of d)(c_Name c1 \<mapsto> c_ID c1)" using upd nm by (simp add: c1)
  show "registered d1 = registered d" using d1 fr by (auto simp: registered_def)
qed

lemma registerName_Inl:
  assumes "registerName T pick c d = (d1, Inl e)" "good_pick pick" "plain_id (c_ID c)"
  shows "d1 = d"
proof -
  have res: "snd (reserve n i (nameIndex d')) = None \<or> fst (reserve n i (nameIndex d')) = nameIndex d'" for n i d'
    using reg.reserve_err [of n i "nameIndex d'"] by (cases "reserve n i (nameIndex d')") (metis option.exhaust prod.sel)
  show ?thesis
  proof (cases "Exists T (c_ID c) d \<or> validateID (c_ID c) \<noteq> None \<or> c_Name c \<noteq> ''''")
    case True
    then show ?thesis using assms(1) res [of "c_Name c" "c_ID c" d]
      by (auto simp: registerName_def split: if_splits option.splits prod.splits)
  next
    case False
    show ?thesis
    proof (cases "generateNewName pick (c_ID c) d")
      case (Pair d0 x)
      show ?thesis
      proof (cases x)
        case (Inl e')
        then show ?thesis using generateNewName_Inl [OF _ assms(2)] Pair assms(1) False by (simp add: registerName_def)
      next
        case (Inr n)
        with Pair have g: "generateNewName pick (c_ID c) d = (d0, Inr n)" by simp
        have "snd (reserve n (c_ID c) (nameIndex d0)) = None"
          using generateNewName_Inr(2) [OF g assms(2,3)] by (simp add: reg.reserve_ok)
        then show ?thesis using assms(1) g False by (simp add: registerName_def split: prod.splits)
      qed
    qed
  qed
qed

lemma Register_linkIdx [simp]: "linkIdx (Register T c d) = linkIdx d"
  by (simp add: Register_def)

lemma reserveName_linkIdx [simp]: "linkIdx (fst (reserveName i m d)) = linkIdx d"
  by (auto simp: reserveName_def Let_def split: prod.splits option.splits)

lemma rename_links_wf:
  assumes "link_wf (linkIdx d)" "ContainerRename T E a b d = (d', e)" "naming_inv A d P"
  shows "link_wf (linkIdx d')"
  using assms(3,1,2)
proof (cases rule: ContainerRename_outcome)
  case refused
  with assms(1) show ?thesis by simp
next
  case (changed c d1 links)
  obtain r where "d1 = d\<lparr>nameIndex := r\<rparr>" using reserveName_Inr(5) [OF changed(2)] by blast
  then have "link_wf (linkIdx d1)" using assms(1) by simp
  then have ap: "link_wf (linkIdx (rename_apply c (slash b) links d1))"
    by (simp add: rename_apply_def Let_def releaseName_def link_wf_folds)
  have rb: "link_wf (linkIdx (rename_rollback c n links x))" if "link_wf (linkIdx x)" for n x
    using that by (simp add: rename_rollback_def Let_def releaseName_def link_wf_folds)
  from changed(4) ap rb show ?thesis by auto
qed

lemma naming_step_inv:
  assumes laws: "trie_laws T A" and step: "naming_step T (d, P) (d', P')"
    and inv: "naming_inv A d P" and wf: "link_wf (linkIdx d)"
  shows "naming_inv A d' P' \<and> link_wf (linkIdx d')"
  using step
proof cases
  case (create pick cid name c)
  note G = generateIDAndName_Inr [OF create(6,2,3)]
  obtain r where r: "d' = d\<lparr>nameIndex := r\<rparr>" "reg_inv (nameIndex d) \<longrightarrow> reg_inv r" using G(5) by blast
  have inv': "naming_inv A d' P" by (rule naming_inv_names [OF inv r G(3,4)])
  have "naming_inv A d' (c # P)"
    by (rule naming_inv_pending [OF inv'])
       (use create G r in \<open>auto simp: plain_id_def named_def\<close>)
  with create(1) wf r(1) show ?thesis by simp
next
  case (create_fails pick cid name e)
  then show ?thesis using inv wf generateIDAndName_Inl by blast
next
  case (load pick c c1)
  note G = registerName_Inr [OF load(6) inv load(2,3,5)]
  have "naming_inv A d' (c1 # P)"
    by (rule naming_inv_pending [OF G(1)]) (use load G in \<open>auto simp: plain_id_def\<close>)
  with load(1) wf G(5) show ?thesis by simp
next
  case (load_fails pick c e)
  then show ?thesis using inv wf registerName_Inl by blast
next
  case (register c)
  with naming_inv_Register [OF laws inv] wf show ?thesis by simp
next
  case (rename E oldRef newRef e)
  from inv wf rename(2) have "naming_inv A d' P"
  proof (cases rule: ContainerRename_outcome)
    case (changed c d1 links)
    with naming_inv_rename_apply [OF changed(3)] rename_rollback_undo(1) [OF changed(3)]
    show ?thesis by auto
  qed (use inv in simp)
  with rename rename_links_wf [OF wf rename(2) inv] show ?thesis by simp
next
  case (remove c)
  with naming_inv_deregister [OF laws inv] wf show ?thesis by (simp add: deregister_def link_wf_steps)
next
  case (reg_link p al ch)
  then have "store_get (c_ID p) (containers d) = Some p"
    using naming_invD(3) [OF inv] unfolding registered_def by force
  from naming_inv_registerLink [OF inv this] reg_link wf show ?thesis
    by (auto simp: registerLink_def Let_def link_wf_steps split: prod.splits option.splits)
next
  case (rm_link c name)
  with naming_inv_rmLink [OF inv] wf show ?thesis
    by (auto simp: rmLink_def Let_def releaseName_def link_wf_steps split: sum.splits option.splits)
qed

lemma naming_reach_inv:
  assumes laws: "trie_laws T A" and "naming_reach T d P"
  shows "naming_inv A d P \<and> link_wf (linkIdx d)"
  using assms(2)
proof induction
  case start
  have "ti_ids (newTruncIndex T []) = []" by (simp add: newTruncIndex_def)
  then show ?case
    using newTruncIndex_inv [OF laws, of "[]"]
    by (simp add: naming_inv_def registered_def link_wf_new store_get_def links_to_def)
       (simp add: newLinkIndex_def gm_list_def)
next
  case (step d P d1 P1)
  with naming_step_inv [OF laws] show ?case by blast
qed

section \<open>Every reserved container name is the name of its container\<close>

definition names_owned :: "'t daemon \<Rightarrow> container list \<Rightarrow> bool" where
  "names_owned d P \<longleftrightarrow> (\<forall>n i. container_name n \<longrightarrow> name_of d n = Some i \<longrightarrow>
     (\<exists>c \<in> registered d \<union> set P. c_ID c = i \<and> c_Name c = n))"

lemma names_owned_shrink:
  assumes "names_owned d P" "registered d \<union> set P \<subseteq> registered d' \<union> set P'"
    "\<And>n i. container_name n \<Longrightarrow> name_of d' n = Some i \<Longrightarrow> name_of d n = Some i"
  shows "names_owned d' P'"
  using assms unfolding names_owned_def by blast

lemma names_owned_create:
  assumes "names_owned d P" "name_of d' = (name_of d)(c_Name c \<mapsto> c_ID c)" "registered d' = registered d"
  shows "names_owned d' (c # P)"
  using assms unfolding names_owned_def by simp

lemma names_owned_rename:
  assumes own: "names_owned d P" and ready: "rename_ready A c new links d1 P" and d1: "d1 = d\<lparr>nameIndex := r\<rparr>"
    and names: "\<And>n. container_name n \<Longrightarrow> n \<noteq> new \<Longrightarrow> name_of d1 n = name_of d n"
  shows "names_owned (rename_apply c new links d1) P"
  unfolding names_owned_def
proof (intro allI impI)
  fix n i assume n: "container_name n" "name_of (rename_apply c new links d1) n = Some i"
  let ?d' = "rename_apply c new links d1" and ?c1 = "c\<lparr>c_Name := new, c_anon := False\<rparr>"
  from ready have suf: "\<forall>(k, v) \<in> set links. \<exists>s. k = ''/'' @ s" and c: "store_get (c_ID c) (containers d1) = Some c"
    and inv1: "naming_inv A d1 P" and ne: "new \<noteq> c_Name c" and new: "container_name new" "name_of d1 new = Some (c_ID c)"
    by (auto simp: rename_ready_def)
  note I = naming_invD [OF inv1]
  have cn: "container_name (c_Name c)" using I(7) [OF c] by (simp add: named_def)
  note N = rename_apply_names [OF suf cn new(1) n(1), where d = d1]
  have st: "store_get j (containers ?d') = (if j = c_ID c then Some ?c1 else store_get j (containers d))" for j
    by (simp add: rename_apply_frame d1)
  show "\<exists>x \<in> registered ?d' \<union> set P. c_ID x = i \<and> c_Name x = n"
  proof (cases "n = new")
    case True
    then have "i = c_ID c" using n(2) N new(2) ne by simp
    moreover have "?c1 \<in> registered ?d'" using st [of "c_ID c"] by (auto simp: registered_def)
    ultimately show ?thesis using True by (intro bexI [of _ ?c1]) simp_all
  next
    case False
    then have "n \<noteq> c_Name c" "name_of d n = Some i" using N n names [OF n(1)] by (auto split: if_splits)
    then obtain x where x: "x \<in> registered d \<union> set P" "c_ID x = i" "c_Name x = n" using own n(1) unfolding names_owned_def by blast
    have "x \<in> registered ?d' \<union> set P"
    proof (cases "x \<in> registered d")
      case True
      then obtain j where j: "store_get j (containers d) = Some x" by (auto simp: registered_def)
      have "j \<noteq> c_ID c" using j c x(3) \<open>n \<noteq> c_Name c\<close> d1 by auto
      then show ?thesis using st [of j] j by (auto simp: registered_def)
    qed (use x in blast)
    then show ?thesis using x by blast
  qed
qed

lemma names_owned_step:
  assumes laws: "trie_laws T A" and step: "naming_step T (d, P) (d', P')"
    and inv: "naming_inv A d P" "link_wf (linkIdx d)" and own: "names_owned d P"
  shows "names_owned d' P'"
  using step
proof cases
  case (create pick cid name c)
  note G = generateIDAndName_Inr [OF create(6,2,3)]
  have "registered d' = registered d" using G(5) by (auto simp: registered_def)
  then show ?thesis unfolding create(1) by (intro names_owned_create [OF own]) (use G in simp_all)
next
  case (create_fails pick cid name e)
  then show ?thesis using own generateIDAndName_Inl by blast
next
  case (load pick c c1)
  note G = registerName_Inr [OF load(6) inv(1) load(2,3,5)]
  then show ?thesis unfolding load(1) by (intro names_owned_create [OF own]) simp_all
next
  case (load_fails pick c e)
  then show ?thesis using own registerName_Inl by blast
next
  case (register c)
  have none: "store_get (c_ID c) (containers d) = None" using naming_invD(6) [OF inv(1) register(3)] by blast
  have st: "store_get i (containers d') = (if i = c_ID c then Some c else store_get i (containers d))" for i
    unfolding register(1) by (simp add: Register_def)
  have "registered d \<subseteq> registered d'"
  proof
    fix x assume "x \<in> registered d"
    then obtain i where i: "store_get i (containers d) = Some x" by (auto simp: registered_def)
    then have "i \<noteq> c_ID c" using none by auto
    then show "x \<in> registered d'" using i st [of i] by (auto simp: registered_def)
  qed
  moreover have "c \<in> registered d'" using st [of "c_ID c"] by (auto simp: registered_def)
  then have "set P \<subseteq> registered d' \<union> set P'" unfolding register(2) by (auto simp: in_set_remove1) (metis in_set_remove1)
  ultimately show ?thesis
    by (intro names_owned_shrink [OF own]) (auto simp: register(1) Register_def)
next
  case (rename E oldRef newRef e)
  show ?thesis unfolding rename(1)
    using inv(1,2) rename(2)
  proof (cases rule: ContainerRename_outcome)
    case refused
    then show "names_owned d' P" using own by simp
  next
    case (changed c d1 links)
    note R = reserveName_Inr [OF changed(2)]
    obtain r where r: "d1 = d\<lparr>nameIndex := r\<rparr>" using R(5) by blast
    note U = rename_rollback_undo [OF changed(3)]
    show "names_owned d' P"
    proof (cases "e = None")
      case True
      then show ?thesis using changed(4) names_owned_rename [OF own changed(3) r] R(3) by simp
    next
      case False
      then have d': "d' = rename_rollback c (slash newRef) links (rename_apply c (slash newRef) links d1)" using changed(4) by blast
      have "registered d' = registered d" by (simp add: registered_def d' U(2)) (simp add: r)
      then show ?thesis by (intro names_owned_shrink [OF own]) (use U(3) R(3) d' in \<open>auto split: if_splits\<close>)
    qed
  qed
next
  case (remove c)
  show ?thesis unfolding names_owned_def
  proof (intro allI impI)
    fix n i assume n: "container_name n" "name_of d' n = Some i"
    then have i: "name_of d n = Some i" "i \<noteq> c_ID c"
      using deregister_names [OF naming_invD(1) [OF inv(1)], of T c n] remove(1) by (auto split: if_splits)
    then obtain x where x: "x \<in> registered d \<union> set P" "c_ID x = i" "c_Name x = n" using own n(1) unfolding names_owned_def by blast
    have "x \<in> registered d'" if "x \<in> registered d"
    proof -
      from that obtain j where j: "store_get j (containers d) = Some x" by (auto simp: registered_def)
      then have "j = i" using naming_invD(3) [OF inv(1) j] x(2) by simp
      then show ?thesis using j i(2) unfolding remove(1) by (auto simp: registered_def deregister_def)
    qed
    then show "\<exists>x \<in> registered d' \<union> set P'. c_ID x = i \<and> c_Name x = n" using x i(2) remove(2) by auto
  qed
next
  case (reg_link p al ch)
  then have "store_get (c_ID p) (containers d) = Some p"
    using naming_invD(3) [OF inv(1)] unfolding registered_def by force
  then have p: "container_name (c_Name p)" using naming_invD(7) [OF inv(1)] by (auto simp: named_def)
  let ?full = "path_join [c_Name p, al]"
  have nc: "\<not> container_name ?full" using link_full_name [OF p reg_link(4)] link_name_not_container [OF p] by simp
  have fr: "containers d' = containers d \<and> (\<exists>r. nameIndex d' = fst (reserve ?full (c_ID ch) (nameIndex d)))"
    unfolding reg_link(1) by (auto simp: registerLink_def Let_def split: prod.splits option.splits)
  then have "registered d' = registered d" by (simp add: registered_def)
  moreover have "name_of d' n = name_of d n" if "container_name n" for n
    using fr reserve_other [of n ?full] nc that by auto
  ultimately show ?thesis unfolding reg_link(2) by (intro names_owned_shrink [OF own]) auto
next
  case (rm_link c name)
  have "containers d' = containers d \<and> (nameIndex d' = nameIndex d \<or> nameIndex d' = release (slash name) (nameIndex d))"
    unfolding rm_link(1) by (auto simp: rmLink_def Let_def releaseName_def split: sum.splits option.splits)
  then have "registered d' = registered d" "name_of d' n = Some i \<Longrightarrow> name_of d n = Some i" for n i
    by (auto simp: registered_def reg.release_abs split: if_splits)
  then show ?thesis unfolding rm_link(2) by (intro names_owned_shrink [OF own]) auto
qed

lemma naming_reach_owned:
  assumes laws: "trie_laws T A" and "naming_reach T d P"
  shows "names_owned d P"
  using assms(2)
proof induction
  case start
  show ?case by (simp add: names_owned_def reg_abs_def new_registrar_def)
next
  case (step d P d1 P1)
  with names_owned_step [OF laws] naming_reach_inv [OF laws] show ?case by blast
qed

lemma reach_owned:
  assumes "trie_laws T A" "naming_reach T d P" "c \<in> registered d" "container_name n" "name_of d n = Some (c_ID c)"
  shows "c_Name c = n"
proof -
  obtain x where x: "x \<in> registered d \<union> set P" "c_ID x = c_ID c" "c_Name x = n"
    using naming_reach_owned [OF assms(1,2)] assms(4,5) unfolding names_owned_def by blast
  have inv: "naming_inv A d P" using naming_reach_inv [OF assms(1,2)] by blast
  obtain i where i: "store_get i (containers d) = Some c" using assms(3) by (auto simp: registered_def)
  have ci: "c_ID c = i" using naming_invD(3) [OF inv i] by blast
  have "x \<notin> set P" using naming_invD(6) [OF inv, of x] x(2) i ci by auto
  then obtain j where j: "store_get j (containers d) = Some x" using x(1) by (auto simp: registered_def)
  then have "j = i" using naming_invD(3) [OF inv j] x(2) ci by simp
  then show ?thesis using i j x(3) by simp
qed

section \<open>What the invariant gives\<close>

lemma reach_registered:
  assumes "trie_laws T A" "naming_reach T d P" "c \<in> registered d"
  shows "store_get (c_ID c) (containers d) = Some c" "named d c" "good_id (c_ID c)"
  using naming_reach_inv [OF assms(1,2)] assms(3) naming_invD(3,7) unfolding registered_def
  by (auto dest: naming_invD(3,7))

lemma GetByName_named:
  assumes "store_get (c_ID c) (containers d) = Some c" "named d c"
    and "s = c_Name c \<or> ''/'' @ s = c_Name c" "s \<noteq> ''''"
  shows "GetByName s d = Inr c"
proof -
  have n: "container_name (c_Name c)" "get_key (c_Name c) (nameIndex d) = Inr (c_ID c)"
    using assms(2) by (simp_all add: named_def reg.get_iff)
  have "slash s = c_Name c"
    using assms(3)
  proof
    assume "''/'' @ s = c_Name c"
    then have "restricted_name s" using n(1) by (auto simp: container_name_def)
    with restricted_slash \<open>''/'' @ s = c_Name c\<close> show ?thesis by simp
  qed (use n(1) in simp)
  with n(2) assms(1,4) show ?thesis by (simp add: GetByName_def)
qed

text \<open>A daemon with one container, by a creation and a registration.\<close>

definition ex_web :: container where
  "ex_web = \<lparr>c_ID = ''4f2a'', c_Name = ''/web'', c_anon = False, c_running = False,
     c_sandbox = '''', c_created = 0\<rparr>"

definition ex_pick :: "nat \<Rightarrow> string \<times> string \<times> char" where
  "ex_pick i = (''big'', ''cat'', CHR ''7'')"

definition ex_daemon :: "string list daemon" where
  "ex_daemon = \<lparr>nameIndex = \<lparr>idx = [(''4f2a'', [''/web''])], names = [(''/web'', ''4f2a'')]\<rparr>,
     idIndex = \<lparr>ti_ids = [''4f2a''], ti_trie = [''4f2a'']\<rparr>,
     containers = [(''4f2a'', ex_web)], linkIdx = newLinkIndex\<rparr>"

lemma ex_daemon_reach: "naming_reach list_trie ex_daemon []"
proof -
  let ?d0 = "\<lparr>nameIndex = new_registrar, idIndex = newTruncIndex list_trie [],
            containers = [], linkIdx = newLinkIndex\<rparr>"
  let ?d1 = "?d0\<lparr>nameIndex := \<lparr>idx = [(''4f2a'', [''/web''])], names = [(''/web'', ''4f2a'')]\<rparr>\<rparr>"
  have "good_pick ex_pick" by (simp add: good_pick_def ex_pick_def name_alnum_def)
  moreover have "plain_id ''4f2a''"
    by (simp add: plain_id_def good_id_def TruncateID_def split_first_def restricted_name_def
        name_alnum_def name_char_def)
  moreover have "generateIDAndName ex_pick ''4f2a'' ''web'' ?d0 = (?d1, Inr (c_ID ex_web, c_Name ex_web))"
    by (simp add: generateIDAndName_def reserveName_def trim_slash_def restricted_name_def
        name_alnum_def name_char_def slash_def reserve_def new_registrar_def gm_list_def ex_web_def Let_def)
  ultimately have "naming_step list_trie (?d0, []) (?d1, [ex_web])"
    by (intro naming_step.create [where pick = ex_pick and name = "''web''"]) (simp_all add: store_get_def)
  with naming_reach.start have r1: "naming_reach list_trie ?d1 [ex_web]" by (rule naming_reach.step)
  have "naming_step list_trie (?d1, [ex_web]) (Register list_trie ex_web ?d1, remove1 ex_web [ex_web])"
    by (rule naming_step.register) simp
  moreover have "Register list_trie ex_web ?d1 = ex_daemon"
    by (simp add: Register_def ex_daemon_def ex_web_def addID_def newTruncIndex_def list_trie_def
        gs_add_def store_add_def)
  ultimately have "naming_step list_trie (?d1, [ex_web]) (ex_daemon, [])" by simp
  with r1 show ?thesis by (rule naming_reach.step)
qed

lemma ex_web_registered: "ex_web \<in> registered ex_daemon"
  by (auto simp: registered_def ex_daemon_def store_get_def intro: exI [of _ "''4f2a''"])

section \<open>Properties\<close>

text \<open>
  C1. When the operations run one after another, each to its end before the next begins, then in every
  state that creations, loads, registrations, renames, removals and link operations reach, in any order, no
  two containers share a name, and looking up a registered container's name, with or without
  the leading slash, finds it. The daemon does not keep operations from running into a rename:
  \<open>stale_rename_steals_name\<close> and \<open>rollback_steals_name\<close> show two interleavings that leave two
  containers with one name.
\<close>

theorem container_names_unique:
  assumes "trie_laws T A" "naming_reach T d P" "c \<in> registered d"
  shows "(\<forall>c' \<in> registered d \<union> set P. c_Name c' = c_Name c \<longrightarrow> c_ID c' = c_ID c) \<and>
    GetByName (c_Name c) d = Inr c \<and> GetByName (trim_slash (c_Name c)) d = Inr c"
proof -
  note R = reach_registered [OF assms]
  have cn: "container_name (c_Name c)" using R(2) by (simp add: named_def)
  then obtain s where s: "c_Name c = ''/'' @ s" "restricted_name s" by (auto simp: container_name_def)
  have "s \<noteq> ''''" using s(2) by (auto simp: restricted_name_def)
  with s GetByName_named [OF R(1,2), of "c_Name c"] GetByName_named [OF R(1,2), of s]
  have "GetByName (c_Name c) d = Inr c" "GetByName (trim_slash (c_Name c)) d = Inr c"
    by (auto simp: trim_slash_def)
  moreover have "\<forall>c' \<in> registered d \<union> set P. c_Name c' = c_Name c \<longrightarrow> c_ID c' = c_ID c"
    using naming_inv_unique [of A d P] naming_reach_inv [OF assms(1,2)] assms(3) by blast
  ultimately show ?thesis by blast
qed

theorem container_names_unique_witness:
  "naming_reach list_trie ex_daemon [] \<and> GetByName ''web'' ex_daemon = Inr ex_web"
  using container_names_unique [OF list_trie_laws ex_daemon_reach ex_web_registered] ex_daemon_reach
  by (simp add: ex_web_def trim_slash_def)

text \<open>
  A successful rename moves the container to the new name: among container names the
  index changes at the new name, which now means the container, and at the old one, which
  is free; the stored container is the old one with the new name, every other container is
  untouched, and a reference other than an existing container's full identifier finds the
  container under its new name.
\<close>

theorem rename_moves_name:
  assumes laws: "trie_laws T A" and reach: "naming_reach T d P"
    and run: "ContainerRename T E oldRef newRef d = (d', None)"
  shows "\<exists>c. GetContainer T oldRef d = Inr (Some c) \<and> c \<in> registered d \<and>
    store_get (c_ID c) (containers d') = Some (c\<lparr>c_Name := slash newRef, c_anon := False\<rparr>) \<and>
    (\<forall>i. i \<noteq> c_ID c \<longrightarrow> store_get i (containers d') = store_get i (containers d)) \<and>
    (\<forall>n. container_name n \<longrightarrow> name_of d' n =
       (if n = slash newRef then Some (c_ID c) else if n = c_Name c then None else name_of d n)) \<and>
    GetByName newRef d' = Inr (c\<lparr>c_Name := slash newRef, c_anon := False\<rparr>)"
proof -
  have inv: "naming_inv A d P" "link_wf (linkIdx d)" using naming_reach_inv [OF laws reach] by blast+
  from inv run show ?thesis
  proof (cases rule: ContainerRename_outcome)
    case (changed c d1 links)
    let ?c1 = "c\<lparr>c_Name := slash newRef, c_anon := False\<rparr>"
    note R = reserveName_Inr [OF changed(2)]
    obtain r where r: "d1 = d\<lparr>nameIndex := r\<rparr>" using R(5) by blast
    from changed(3) have suf: "\<forall>(k, v) \<in> set links. \<exists>s. k = ''/'' @ s"
      and c: "store_get (c_ID c) (containers d1) = Some c" and inv1: "naming_inv A d1 P"
      and ne: "slash newRef \<noteq> c_Name c"
      by (auto simp: rename_ready_def)
    have cn: "container_name (c_Name c)" using naming_invD(7) [OF inv1 c] by (simp add: named_def)
    have d': "d' = rename_apply c (slash newRef) links d1" using changed(4) by simp
    note names = rename_apply_names [OF suf cn R(2), where d = d1, folded d']
    have st: "store_get i (containers d') = (if i = c_ID c then Some ?c1 else store_get i (containers d))" for i
      by (simp add: d' rename_apply_frame r)
    have "named d' ?c1" using names [OF R(2)] R(2,3) ne by (simp add: named_def)
    moreover have "newRef \<noteq> ''''" using run by (auto simp: ContainerRename_unfold)
    ultimately have "GetByName newRef d' = Inr ?c1"
      by (intro GetByName_named) (auto simp: st slash_def)
    moreover have "container_name n \<Longrightarrow> name_of d' n =
       (if n = slash newRef then Some (c_ID c) else if n = c_Name c then None else name_of d n)" for n
      using names [of n] R(3) ne by simp
    ultimately show ?thesis
      using changed(1) GetContainer_registered [OF changed(1)] st
      by (intro exI [of _ c] conjI allI impI) simp_all
  qed simp
qed

definition ex_env :: "bool \<Rightarrow> rename_env" where
  "ex_env ok = \<lparr>re_disk = (\<lambda>_. ok), re_netctl = False, re_sandbox = (\<lambda>_. True), re_sbrename = (\<lambda>_ _. True)\<rparr>"

lemma ex_rename: "snd (ContainerRename list_trie (ex_env ok) ''web'' ''db'' ex_daemon) =
    (if ok then None else Some DiskError)"
  by (simp add: ContainerRename_unfold rename_finish_def GetContainer_def GetByName_def ex_daemon_def store_get_def ex_web_def
      slash_def get_key_def link_children_def newLinkIndex_def gm_list_def reserveName_def reserve_def
      trim_slash_def restricted_name_def name_alnum_def name_char_def Let_def ex_env_def)

theorem rename_moves_name_witness:
  "\<exists>c. GetByName ''db'' (fst (ContainerRename list_trie (ex_env True) ''web'' ''db'' ex_daemon)) = Inr c"
proof -
  let ?R = "ContainerRename list_trie (ex_env True) ''web'' ''db'' ex_daemon"
  have "?R = (fst ?R, None)" using ex_rename [of True] by (simp add: prod_eq_iff)
  from rename_moves_name [OF list_trie_laws ex_daemon_reach this] show ?thesis by blast
qed

text \<open>
  C2. A rename that nothing else interrupts and that fails, whether it is refused, a name conflict
  included, or its changes are rolled back after the container could not be written or the
  network sandbox not be renamed, leaves every stored container as it was, and every container name
  with the meaning it had. In the daemon other operations can run after the rename has released
  the old name and before it writes the container; if one of them takes the old name the roll back does
  not get it back (\<open>rollback_steals_name\<close>).
\<close>

theorem rename_failure_restores:
  assumes laws: "trie_laws T A" and reach: "naming_reach T d P"
    and run: "ContainerRename T E oldRef newRef d = (d', Some e)"
  shows "(\<forall>i. store_get i (containers d') = store_get i (containers d)) \<and>
    (\<forall>n. container_name n \<longrightarrow> name_of d' n = name_of d n) \<and> idIndex d' = idIndex d"
proof -
  have inv: "naming_inv A d P" "link_wf (linkIdx d)" using naming_reach_inv [OF laws reach] by blast+
  from inv run show ?thesis
  proof (cases rule: ContainerRename_outcome)
    case (changed c d1 links)
    note R = reserveName_Inr [OF changed(2)]
    obtain r where r: "d1 = d\<lparr>nameIndex := r\<rparr>" using R(5) by blast
    have d': "d' = rename_rollback c (slash newRef) links (rename_apply c (slash newRef) links d1)"
      using changed(4) by simp
    note U = rename_rollback_undo [OF changed(3), folded d']
    from changed(3) have ne: "slash newRef \<noteq> c_Name c" by (simp add: rename_ready_def)
    have "name_of d (slash newRef) \<noteq> Some (c_ID c)"
      using reach_owned [OF laws reach GetContainer_registered [OF changed(1)] R(2)] ne by metis
    then have "container_name n \<Longrightarrow> name_of d' n = name_of d n" for n
      using U(3) [of n] R(3,4) by (auto split: if_splits)
    with U(2,4) r show ?thesis by simp
  qed simp
qed

theorem rename_failure_restores_witness:
  "name_of (fst (ContainerRename list_trie (ex_env False) ''web'' ''db'' ex_daemon)) ''/web'' = Some ''4f2a''"
proof -
  let ?R = "ContainerRename list_trie (ex_env False) ''web'' ''db'' ex_daemon"
  have 1: "?R = (fst ?R, Some DiskError)" using ex_rename [of False] by (simp add: prod_eq_iff)

  have 3: "container_name ''/web''"
    by (auto simp: container_name_def restricted_name_def name_alnum_def name_char_def)
  from rename_failure_restores [OF list_trie_laws ex_daemon_reach 1] 3
  show ?thesis by (simp add: ex_daemon_def reg_abs_def)
qed

text \<open>
  In every reachable state a container lookup never returns a nil container without an
  error, a full identifier finds its container, and a reference that is neither an
  identifier nor a name finds a container exactly when that is the only one whose
  identifier begins with the reference.
\<close>

theorem container_lookup:
  assumes laws: "trie_laws T A" and reach: "naming_reach T d P"
  shows "GetContainer T s d \<noteq> Inr None \<and>
    (\<forall>c \<in> registered d. GetContainer T (c_ID c) d = Inr (Some c)) \<and>
    (s \<noteq> '''' \<and> store_get s (containers d) = None \<and> \<not> is_ok (GetByName s d) \<longrightarrow>
      (GetContainer T s d = Inr (Some c) \<longleftrightarrow>
         c \<in> registered d \<and> {i. store_get i (containers d) \<noteq> None \<and> prefix s i} = {c_ID c}))"
proof -
  have inv: "naming_inv A d P" using naming_reach_inv [OF laws reach] by blast
  note I = naming_invD [OF inv]
  have hit: "trunc_get T s (idIndex d) = Inr i \<longleftrightarrow>
      s \<noteq> '''' \<and> {i. store_get i (containers d) \<noteq> None \<and> prefix s i} = {i}" for i
    using trunc_get_Inr_iff [OF laws I(2), of s i] I(4) by simp
  have some: "trunc_get T s (idIndex d) = Inr i \<Longrightarrow> store_get i (containers d) \<noteq> None" for i
    using hit by blast
  have one: "GetContainer T s d \<noteq> Inr None"
    using some by (auto simp: GetContainer_def split: option.splits sum.splits)
  have two: "GetContainer T (c_ID c) d = Inr (Some c)" if "c \<in> registered d" for c
    using reach_registered [OF laws reach that] by (simp add: GetContainer_def good_id_def)
  have three: "GetContainer T s d = Inr (Some c) \<longleftrightarrow>
         c \<in> registered d \<and> {i. store_get i (containers d) \<noteq> None \<and> prefix s i} = {c_ID c}"
    if s: "s \<noteq> ''''" "store_get s (containers d) = None" "\<not> is_ok (GetByName s d)"
  proof -
    have g: "GetContainer T s d = Inr (Some c) \<longleftrightarrow>
        (\<exists>i. trunc_get T s (idIndex d) = Inr i \<and> store_get i (containers d) = Some c)"
      using s by (cases "GetByName s d") (auto simp: GetContainer_def split: sum.splits)
    show ?thesis
      unfolding g hit using s(1) I(3) reach_registered(1) [OF laws reach, of c]
      by (auto simp: registered_def)
  qed
  from one two three show ?thesis by blast
qed

theorem container_lookup_witness:
  "GetContainer list_trie ''4f2a'' ex_daemon = Inr (Some ex_web)"
proof -
  have "c_ID ex_web = ''4f2a''" by (simp add: ex_web_def)
  with container_lookup [OF list_trie_laws ex_daemon_reach] ex_web_registered
  show ?thesis by metis
qed

section \<open>What a rename does not exclude\<close>

text \<open>
  The parts of a rename are not atomic together. Two renames of a container that both read its
  name before one of them has the lock: the second releases the name the first has already
  given up. When a container was created with it in between, that one loses it, and another
  can be created with the same name.
\<close>

definition race_after_creation :: "string list daemon" where
  "race_after_creation = Register list_trie (ex_web\<lparr>c_ID := ''9b01''\<rparr>) (fst (generateIDAndName ex_pick ''9b01'' ''web''
     (fst (ContainerRename list_trie (ex_env True) ''web'' ''db'' ex_daemon))))"

definition race_after_second :: "string list daemon" where
  "race_after_second = Register list_trie (ex_web\<lparr>c_ID := ''c3c3''\<rparr>) (fst (generateIDAndName ex_pick ''c3c3'' ''web''
     (fst (rename_locked ex_web ''cache'' race_after_creation))))"

lemma stale_rename_steals_name:
  "rename_prepare list_trie ''web'' ''cache'' ex_daemon = Inr ex_web"
  "GetByName ''web'' race_after_creation = Inr (ex_web\<lparr>c_ID := ''9b01''\<rparr>)"
  "GetByName ''web'' (fst (rename_locked ex_web ''cache'' race_after_creation)) = Inl (NoEntity ''web'')"
  "store_get ''9b01'' (containers race_after_second) = Some (ex_web\<lparr>c_ID := ''9b01''\<rparr>)"
  "store_get ''c3c3'' (containers race_after_second) = Some (ex_web\<lparr>c_ID := ''c3c3''\<rparr>)"
  by code_simp+

text \<open>
  A creation that takes the old name after a rename has released it, and before the rename fails to
  write the container: the deferred function gives the container its old name back
  without having it reserved, because the error of the reservation is dropped.
\<close>

definition rollback_after_creation :: "string list daemon" where
  "rollback_after_creation = Register list_trie (ex_web\<lparr>c_ID := ''9b01''\<rparr>) (fst (generateIDAndName ex_pick ''9b01'' ''web''
     (fst (rename_locked ex_web ''db'' ex_daemon))))"

lemma rollback_steals_name:
  "snd (rename_locked ex_web ''db'' ex_daemon) = Inr (''/db'', [])"
  "snd (rename_finish (ex_env False) ex_web ''/db'' [] rollback_after_creation) = Some DiskError"
  "store_get ''4f2a'' (containers (fst (rename_finish (ex_env False) ex_web ''/db'' [] rollback_after_creation))) = Some ex_web"
  "store_get ''9b01'' (containers (fst (rename_finish (ex_env False) ex_web ''/db'' [] rollback_after_creation))) =
     Some (ex_web\<lparr>c_ID := ''9b01''\<rparr>)"
  "name_of (fst (rename_finish (ex_env False) ex_web ''/db'' [] rollback_after_creation)) ''/web'' = Some ''9b01''"
  by code_simp+

section \<open>The child side of a rename\<close>

lemma drop_old_links_from:
  "linked_from (linkIdx (drop_old_links cid name links d)) p a c \<longleftrightarrow>
     \<not> (p = cid \<and> c \<in> snd ` set links) \<and> linked_from (linkIdx d) p a c"
  by (induction links arbitrary: d) (auto simp: drop_old_links_def linked_from_unlink split: prod.splits)

lemma add_new_links_to:
  assumes "(k, v) \<in> set links" "distinct (map fst links)"
  shows "links_to (linkIdx (add_new_links cid name links d)) cid (name @ k) v"
  using assms
proof (induction links arbitrary: d rule: rev_induct)
  case (snoc kv links)
  obtain k' v' where kv: "kv = (k', v')" by (cases kv)
  have "add_new_links cid name (links @ [kv]) d =
      (let e = add_new_links cid name links d in
       e\<lparr>nameIndex := fst (reserve (name @ k') v' (nameIndex e)), linkIdx := link cid v' (name @ k') (linkIdx e)\<rparr>)"
    by (simp add: add_new_links_def kv Let_def)
  then have "linkIdx (add_new_links cid name (links @ [kv]) d) =
      link cid v' (name @ k') (linkIdx (add_new_links cid name links d))" by (simp add: Let_def)
  moreover have "(k, v) = (k', v') \<or> ((k, v) \<in> set links \<and> k \<noteq> k')"
    using snoc.prems kv by (auto simp: image_iff)
  ultimately show ?case using snoc.IH snoc.prems by (auto simp: links_to_link)
qed simp

lemma rename_links_distinct:
  assumes "gm_wf m" "\<And>k v. (k, v) \<in> set m \<Longrightarrow> prefix p k"
  shows "distinct (map fst (map (\<lambda>(k, v). (drop (length p) k, v)) m))"
proof -
  have "inj_on (drop (length p)) (fst ` set m)"
  proof (rule inj_onI)
    fix x y assume x: "x \<in> fst ` set m" and y: "y \<in> fst ` set m" and e: "drop (length p) x = drop (length p) y"
    from x y assms(2) have "prefix p x" "prefix p y" by auto
    with e show "x = y" by (auto simp: prefix_def)
  qed
  then have "distinct (map (drop (length p)) (map fst m))"
    using assms(1) by (simp only: gm_wf_def distinct_map [of "drop (length p)"] set_map simp_thms)
  moreover have "map fst (map (\<lambda>(k, v). (drop (length p) k, v)) m) = map (drop (length p)) (map fst m)"
    by (induction m) auto
  ultimately show ?thesis by metis
qed

text \<open>
  Renaming a container that links to another: afterwards the parent's side of the link
  index has the link under the new name, but the child's side has no entry for the parent
  at all, because removing the old alias drops every alias the two shared. The container
  that was renamed is then missing from its child's list of parents.
\<close>

theorem rename_forgets_parent:
  assumes laws: "trie_laws T A" and reach: "naming_reach T d P"
    and run: "ContainerRename T E oldRef newRef d = (d', None)"
    and c: "GetContainer T oldRef d = Inr (Some c)" and kid: "links_to (linkIdx d) (c_ID c) a v"
  shows "(\<exists>s. a = c_Name c @ s \<and> links_to (linkIdx d') (c_ID c) (slash newRef @ s) v) \<and>
    (\<forall>a'. \<not> linked_from (linkIdx d') (c_ID c) a' v)"
proof -
  have inv: "naming_inv A d P" "link_wf (linkIdx d)" using naming_reach_inv [OF laws reach] by blast+
  from inv run show ?thesis
  proof (cases rule: ContainerRename_outcome)
    case (changed x d1 links)
    have x: "x = c" using changed(1) c by simp
    let ?new = "slash newRef" and ?kids = "link_children (c_ID c) (linkIdx d)"
    have d': "d' = rename_apply c ?new links d1" using changed(4) x by simp
    from changed(3) x have suf: "\<forall>(k, v) \<in> set links. \<exists>s. k = ''/'' @ s" and new: "container_name ?new"
      and ne: "?new \<noteq> c_Name c" and inv1: "naming_inv A d1 P"
      and reg: "store_get (c_ID c) (containers d1) = Some c"
      by (simp_all add: rename_ready_def)
    have cn: "container_name (c_Name c)" using naming_invD(7) [OF inv1 reg] by (simp add: named_def)
    have wf: "gm_wf ?kids" using inv(2) by (simp add: link_wf_def link_children_def)
    have stc: "store_get (c_ID c) (containers d) = Some c"
      using reach_registered(1) [OF laws reach GetContainer_registered [OF c]] .
    have pre: "\<exists>s. k = c_Name c @ s" if "(k, w) \<in> set ?kids" for k w
    proof -
      have "links_to (linkIdx d) (c_ID c) k w"
        using wf that by (simp add: links_to_def link_children_def gm_wf_get)
      from naming_invD(9) [OF inv(1) this] stc show ?thesis by auto
    qed
    have dist: "distinct (map fst links)"
      unfolding changed(5) x by (rule rename_links_distinct [OF wf]) (use pre in \<open>auto simp: prefix_def\<close>)
    have m: "(a, v) \<in> set ?kids" using kid by (auto simp: links_to_def link_children_def)
    then obtain k where k: "a = c_Name c @ k" using pre by blast
    with m have kv: "(k, v) \<in> set links" unfolding changed(5) x by force
    have "?new @ k \<in> (\<lambda>(k, v). ?new @ k) ` set links" using kv by force
    from link_suffix_disjoint [OF suf new cn ne this]
    have "?new @ k \<notin> (\<lambda>(k, v). c_Name c @ k) ` set links" .
    with add_new_links_to [OF kv dist] have "links_to (linkIdx d') (c_ID c) (?new @ k) v"
      by (simp add: d' rename_apply_def Let_def releaseName_def drop_old_links_links)
    moreover have "v \<in> snd ` set links" using kv by force
    then have "\<not> linked_from (linkIdx d') (c_ID c) a' v" for a'
      by (simp add: d' rename_apply_def Let_def releaseName_def drop_old_links_from)
    ultimately show ?thesis using k by blast
  qed simp
qed

definition ex_db :: container where
  "ex_db = \<lparr>c_ID = ''77aa'', c_Name = ''/db'', c_anon = False, c_running = False,
     c_sandbox = '''', c_created = 0\<rparr>"

definition ex_linked :: "string list daemon" where
  "ex_linked = fst (registerLink ex_web ex_db ''store'' ex_daemon)"

lemma ex_linked_reach: "naming_reach list_trie ex_linked []"
proof -
  have "naming_step list_trie (ex_daemon, []) (ex_linked, [])"
    unfolding ex_linked_def
    by (rule naming_step.reg_link [OF ex_web_registered]) (simp add: path_part_def)
  with ex_daemon_reach show ?thesis by (rule naming_reach.step)
qed

theorem rename_forgets_parent_witness:
  "\<not> linked_from (linkIdx (fst (ContainerRename list_trie (ex_env True) ''web'' ''www'' ex_linked)))
     ''4f2a'' ''/www/store'' ''77aa''"
proof -
  let ?R = "ContainerRename list_trie (ex_env True) ''web'' ''www'' ex_linked"
  have join: "path_join [''/web'', ''store''] = ''/web/store''"
    using path_join_parts [of "''web''" "''store''"] by (simp add: path_part_def)
  have d: "ex_linked = ex_daemon\<lparr>
      nameIndex := \<lparr>idx = [(''4f2a'', [''/web'']), (''77aa'', [''/web/store''])],
                    names = [(''/web'', ''4f2a''), (''/web/store'', ''77aa'')]\<rparr>,
      linkIdx := \<lparr>li_idx = [(''4f2a'', [(''/web/store'', ''77aa'')])],
                  li_child = [(''77aa'', [(''4f2a'', [''/web/store''])])]\<rparr>\<rparr>"
    by (simp add: ex_linked_def registerLink_def join reserve_def ex_web_def ex_db_def ex_daemon_def
        gm_list_def link_def newLinkIndex_def gs_add_def Let_def)
  have g: "GetContainer list_trie ''web'' ex_linked = Inr (Some ex_web)"
    by (simp add: d ex_daemon_def GetContainer_def GetByName_def store_get_def slash_def get_key_def)
  have "snd ?R = None"
    by (simp add: ContainerRename_unfold rename_finish_def g, simp add: rename_finish_def d ex_daemon_def ex_web_def link_children_def gm_list_def
        slash_def reserveName_def reserve_def trim_slash_def restricted_name_def name_alnum_def
        name_char_def Let_def ex_env_def)
  then have r: "?R = (fst ?R, None)" by (simp add: prod_eq_iff)
  have k: "links_to (linkIdx ex_linked) (c_ID ex_web) ''/web/store'' ''77aa''"
    by (simp add: d links_to_def gm_list_def ex_web_def)
  from rename_forgets_parent [OF list_trie_laws ex_linked_reach r g k]
  show ?thesis by (simp add: ex_web_def)
qed

end
