(* ===== verification/ReferenceStore.thy ===== *)
theory ReferenceStore
  imports GoPrelude
begin

text \<open>
  The reference store of reference/store.go: which image each tag and digest reference
  names, kept in memory with a reverse index and written to repositories.json after every
  change. The references themselves are the vendored package distribution/reference; the
  part the store uses, the four concrete types and their familiar form, is written out
  here, and \<^verbatim>\<open>ParseNormalizedNamed\<close> is a parameter \<open>parse\<close>, as is \<open>digest_ok\<close>, the
  format check of \<^verbatim>\<open>WithDigest\<close>.
\<close>

section \<open>References\<close>

record repo =
  r_domain :: string
  r_path :: string

datatype named =
    Repository repo
  | TaggedRef repo string
  | CanonicalRef repo string
  | FullRef repo string string

fun ref_repo :: "named \<Rightarrow> repo" where
  "ref_repo (Repository r) = r"
| "ref_repo (TaggedRef r _) = r"
| "ref_repo (CanonicalRef r _) = r"
| "ref_repo (FullRef r _ _) = r"

definition repo_name :: "repo \<Rightarrow> string" where
  "repo_name r = (if r_domain r = '''' then r_path r else r_domain r @ ''/'' @ r_path r)"

fun ref_string :: "named \<Rightarrow> string" where
  "ref_string (Repository r) = repo_name r"
| "ref_string (TaggedRef r t) = repo_name r @ '':'' @ t"
| "ref_string (CanonicalRef r d) = repo_name r @ ''@'' @ d"
| "ref_string (FullRef r t d) = repo_name r @ '':'' @ t @ ''@'' @ d"

definition familiarizeName :: "repo \<Rightarrow> repo" where
  "familiarizeName r =
     (if r_domain r = ''docker.io''
      then \<lparr>r_domain = '''',
             r_path = (case split_all (CHR ''/'') (r_path r) of
                         [a, b] \<Rightarrow> if a = ''library'' then b else r_path r
                       | _ \<Rightarrow> r_path r)\<rparr>
      else r)"

definition FamiliarName :: "named \<Rightarrow> string" where
  "FamiliarName ref = repo_name (familiarizeName (ref_repo ref))"

fun familiar :: "named \<Rightarrow> named" where
  "familiar (Repository r) = Repository (familiarizeName r)"
| "familiar (TaggedRef r t) = TaggedRef (familiarizeName r) t"
| "familiar (CanonicalRef r d) = CanonicalRef (familiarizeName r) d"
| "familiar (FullRef r t d) = FullRef (familiarizeName r) t d"

definition FamiliarString :: "named \<Rightarrow> string" where
  "FamiliarString ref = ref_string (familiar ref)"

fun TagNameOnly :: "named \<Rightarrow> named" where
  "TagNameOnly (Repository r) = TaggedRef r ''latest''"
| "TagNameOnly ref = ref"

fun canonical_digest :: "named \<Rightarrow> string option" where
  "canonical_digest (CanonicalRef _ d) = Some d"
| "canonical_digest (FullRef _ _ d) = Some d"
| "canonical_digest _ = None"

section \<open>The store\<close>

type_synonym repositories = "(string, (string, string) gomap) gomap"

datatype ref_file = Absent | Unreadable | Saved repositories

record ref_store =
  rs_repos :: repositories
  rs_cache :: "(string, (string, named) gomap) gomap"
  rs_file :: ref_file

datatype ref_error =
    DigestAsTag
  | AmbiguousTag
  | InvalidDigest
  | OverwriteDigest string
  | TagConflict string string
  | RefDoesNotExist
  | WriteFailed
  | ReadFailed
  | FileNotExist
  | NoWorkingDirectory

text \<open>\<open>wok\<close> says whether the atomic write of the file succeeds.\<close>

definition ref_save :: "bool \<Rightarrow> ref_store \<Rightarrow> ref_store \<times> ref_error option" where
  "ref_save wok st =
     (if wok then (st\<lparr>rs_file := Saved (rs_repos st)\<rparr>, None) else (st, Some WriteFailed))"

definition cache_put :: "string \<Rightarrow> string \<Rightarrow> named \<Rightarrow> ref_store \<Rightarrow> ref_store" where
  "cache_put i s ref st = st\<lparr>rs_cache := gm_set i (gm_set s ref (gm_list (rs_cache st) i)) (rs_cache st)\<rparr>"

definition cache_drop :: "string \<Rightarrow> string \<Rightarrow> ref_store \<Rightarrow> ref_store" where
  "cache_drop i s st =
     (case gm_get (rs_cache st) i of
        None \<Rightarrow> st
      | Some refs \<Rightarrow>
          st\<lparr>rs_cache := (if gm_del s refs = [] then gm_del i (rs_cache st)
                          else gm_set i (gm_del s refs) (rs_cache st))\<rparr>)"

definition favorDigest :: "(string \<Rightarrow> bool) \<Rightarrow> named \<Rightarrow> ref_error + named" where
  "favorDigest digest_ok ref =
     (case ref of
        FullRef r t d \<Rightarrow> if digest_ok d then Inr (CanonicalRef r d) else Inl InvalidDigest
      | _ \<Rightarrow> Inr ref)"

definition addReference ::
  "(string \<Rightarrow> bool) \<Rightarrow> named \<Rightarrow> string \<Rightarrow> bool \<Rightarrow> bool \<Rightarrow> ref_store \<Rightarrow> ref_store \<times> ref_error option" where
  "addReference digest_ok ref0 i force wok st =
     (case favorDigest digest_ok ref0 of
        Inl e \<Rightarrow> (st, Some e)
      | Inr ref \<Rightarrow>
         (let refName = FamiliarName ref; refStr = FamiliarString ref in
          if refName = ''sha256'' then (st, Some AmbiguousTag)
          else
           (let repository = gm_list (rs_repos st) refName;
                st1 = (if repository = [] then st\<lparr>rs_repos := gm_set refName [] (rs_repos st)\<rparr> else st);
                add = (\<lambda>st2. ref_save wok (cache_put i refStr ref
                        (st2\<lparr>rs_repos := gm_set refName (gm_set refStr i repository) (rs_repos st2)\<rparr>)))
            in (case gm_get repository refStr of
                  None \<Rightarrow> add st1
                | Some oldID \<Rightarrow>
                    (case canonical_digest ref of
                       Some d \<Rightarrow> (st1, Some (OverwriteDigest d))
                     | None \<Rightarrow>
                         if \<not> force then (st1, Some (TagConflict refStr oldID))
                         else add (cache_drop oldID refStr st1))))))"

definition AddTag ::
  "(string \<Rightarrow> bool) \<Rightarrow> named \<Rightarrow> string \<Rightarrow> bool \<Rightarrow> bool \<Rightarrow> ref_store \<Rightarrow> ref_store \<times> ref_error option" where
  "AddTag digest_ok ref i force wok st =
     (if canonical_digest ref \<noteq> None then (st, Some DigestAsTag)
      else addReference digest_ok (TagNameOnly ref) i force wok st)"

definition AddDigest ::
  "(string \<Rightarrow> bool) \<Rightarrow> named \<Rightarrow> string \<Rightarrow> bool \<Rightarrow> bool \<Rightarrow> ref_store \<Rightarrow> ref_store \<times> ref_error option" where
  "AddDigest digest_ok ref i force wok st = addReference digest_ok ref i force wok st"

text \<open>\<open>ref_delete\<close> returns whether a deletion happened and the error.\<close>

definition ref_delete ::
  "(string \<Rightarrow> bool) \<Rightarrow> named \<Rightarrow> bool \<Rightarrow> ref_store \<Rightarrow> ref_store \<times> bool \<times> ref_error option" where
  "ref_delete digest_ok ref0 wok st =
     (case favorDigest digest_ok ref0 of
        Inl e \<Rightarrow> (st, False, Some e)
      | Inr ref1 \<Rightarrow>
         (let ref = TagNameOnly ref1; refName = FamiliarName ref; refStr = FamiliarString ref in
          (case gm_get (rs_repos st) refName of
             None \<Rightarrow> (st, False, Some RefDoesNotExist)
           | Some repository \<Rightarrow>
              (case gm_get repository refStr of
                 None \<Rightarrow> (st, False, Some RefDoesNotExist)
               | Some i \<Rightarrow>
                   (let repos1 = (if gm_del refStr repository = [] then gm_del refName (rs_repos st)
                                  else gm_set refName (gm_del refStr repository) (rs_repos st));
                        (st1, e) = ref_save wok (cache_drop i refStr (st\<lparr>rs_repos := repos1\<rparr>))
                    in (st1, True, e))))))"

definition ref_get :: "(string \<Rightarrow> bool) \<Rightarrow> named \<Rightarrow> ref_store \<Rightarrow> ref_error + string" where
  "ref_get digest_ok ref0 st =
     (case (case ref0 of
              FullRef r t d \<Rightarrow> if digest_ok d then Inr (CanonicalRef r d) else Inl InvalidDigest
            | CanonicalRef r d \<Rightarrow> Inr ref0
            | _ \<Rightarrow> Inr (TagNameOnly ref0)) of
        Inl e \<Rightarrow> Inl e
      | Inr ref \<Rightarrow>
         (case gm_get (rs_repos st) (FamiliarName ref) of
            None \<Rightarrow> Inl RefDoesNotExist
          | Some repository \<Rightarrow>
              (case gm_get repository (FamiliarString ref) of
                 None \<Rightarrow> Inl RefDoesNotExist
               | Some i \<Rightarrow> Inr i)))"

text \<open>\<^verbatim>\<open>sort.Sort\<close> by the string of the reference.\<close>

definition References :: "string \<Rightarrow> ref_store \<Rightarrow> named list" where
  "References i st = sort_key ref_string (map snd (gm_list (rs_cache st) i))"

fun parse_all :: "(string \<Rightarrow> named option) \<Rightarrow> (string \<times> string) list \<Rightarrow> (named \<times> string) list option" where
  "parse_all parse [] = Some []"
| "parse_all parse ((s, i) # rest) =
     (case parse s of
        None \<Rightarrow> None
      | Some ref \<Rightarrow> (case parse_all parse rest of None \<Rightarrow> None | Some as \<Rightarrow> Some ((ref, i) # as)))"

definition ReferencesByName :: "(string \<Rightarrow> named option) \<Rightarrow> named \<Rightarrow> ref_store \<Rightarrow> (named \<times> string) list" where
  "ReferencesByName parse ref st =
     (case gm_get (rs_repos st) (FamiliarName ref) of
        None \<Rightarrow> []
      | Some repository \<Rightarrow>
          (case parse_all parse repository of
             None \<Rightarrow> []
           | Some as \<Rightarrow> sort_key (\<lambda>a. ref_string (fst a)) as))"

text \<open>Decoding fills the exported field; the loops rebuild the reverse index.\<close>

definition reload_entry :: "(string \<Rightarrow> named option) \<Rightarrow> string \<times> string \<Rightarrow> ref_store \<Rightarrow> ref_store" where
  "reload_entry parse e st =
     (case e of (s, i) \<Rightarrow> (case parse s of None \<Rightarrow> st | Some ref \<Rightarrow> cache_put i s ref st))"

definition ref_reload :: "(string \<Rightarrow> named option) \<Rightarrow> ref_store \<Rightarrow> ref_store \<times> ref_error option" where
  "ref_reload parse st =
     (case rs_file st of
        Absent \<Rightarrow> (st, Some FileNotExist)
      | Unreadable \<Rightarrow> (st, Some ReadFailed)
      | Saved repos \<Rightarrow>
          (fold (\<lambda>(name, repository). fold (reload_entry parse) repository)
             repos (st\<lparr>rs_repos := repos\<rparr>), None))"

definition NewReferenceStore ::
  "(string \<Rightarrow> named option) \<Rightarrow> bool \<Rightarrow> bool \<Rightarrow> ref_file \<Rightarrow> ref_error + ref_store" where
  "NewReferenceStore parse abs_ok wok file =
     (if \<not> abs_ok then Inl NoWorkingDirectory
      else (case ref_reload parse \<lparr>rs_repos = [], rs_cache = [], rs_file = file\<rparr> of
              (st, None) \<Rightarrow> Inr st
            | (st, Some e) \<Rightarrow>
                if e = FileNotExist
                then (case ref_save wok st of (st1, None) \<Rightarrow> Inr st1 | (st1, Some e') \<Rightarrow> Inl e')
                else Inl e))"

section \<open>The invariant\<close>

text \<open>
  What the store relies on of the reference package: parsing the familiar string of a
  valid reference gives the reference back, valid digests are well-formed, and adding the
  default tag or dropping the tag next to a digest keeps a reference valid.
\<close>

definition ref_laws :: "(string \<Rightarrow> named option) \<Rightarrow> (string \<Rightarrow> bool) \<Rightarrow> (named \<Rightarrow> bool) \<Rightarrow> bool" where
  "ref_laws parse digest_ok valid \<longleftrightarrow>
     (\<forall>r. valid r \<longrightarrow> parse (FamiliarString r) = Some r \<and> valid (TagNameOnly r)) \<and>
     (\<forall>r t d. valid (FullRef r t d) \<longrightarrow> valid (CanonicalRef r d) \<and> digest_ok d)"

definition stored_form :: "named \<Rightarrow> bool" where
  "stored_form r = (case r of TaggedRef _ _ \<Rightarrow> True | CanonicalRef _ _ \<Rightarrow> True | _ \<Rightarrow> False)"

definition rs_look :: "ref_store \<Rightarrow> string \<Rightarrow> string \<Rightarrow> string option" where
  "rs_look st n s = gm_get (gm_list (rs_repos st) n) s"

definition cache_look :: "ref_store \<Rightarrow> string \<Rightarrow> string \<Rightarrow> named option" where
  "cache_look st i s = gm_get (gm_list (rs_cache st) i) s"

definition maps_wf :: "('a, ('b, 'c) gomap) gomap \<Rightarrow> bool" where
  "maps_wf m \<longleftrightarrow> gm_wf m \<and> (\<forall>k. gm_wf (gm_list m k)) \<and> (\<forall>k. gm_get m k \<noteq> Some [])"

text \<open>
  Every entry belongs to a valid reference with a tag or a digest and stands in the
  repository of its name; the reverse index holds exactly the entries of the repositories.
\<close>

definition ref_inv :: "(named \<Rightarrow> bool) \<Rightarrow> ref_store \<Rightarrow> bool" where
  "ref_inv valid st \<longleftrightarrow> maps_wf (rs_repos st) \<and> maps_wf (rs_cache st) \<and>
     (\<forall>n s i. rs_look st n s = Some i \<longrightarrow>
        (\<exists>r. valid r \<and> stored_form r \<and> n = FamiliarName r \<and> s = FamiliarString r)) \<and>
     (\<forall>i s r. cache_look st i s = Some r \<longleftrightarrow>
        valid r \<and> stored_form r \<and> s = FamiliarString r \<and> rs_look st (FamiliarName r) s = Some i)"

lemma ref_invD:
  assumes "ref_inv valid st"
  shows "maps_wf (rs_repos st)" "maps_wf (rs_cache st)"
    and "rs_look st n s = Some i \<Longrightarrow>
      \<exists>r. valid r \<and> stored_form r \<and> n = FamiliarName r \<and> s = FamiliarString r"
    and "cache_look st i s = Some r \<longleftrightarrow>
        valid r \<and> stored_form r \<and> s = FamiliarString r \<and> rs_look st (FamiliarName r) s = Some i"
  using assms by (simp_all add: ref_inv_def)

lemma gm_set_ne [simp]: "gm_set k v m \<noteq> []"
  by (cases m) auto

lemma maps_wf_put:
  "maps_wf m \<Longrightarrow> maps_wf (gm_set k (gm_set s v (gm_list m k)) m)"
  by (auto simp: maps_wf_def)

lemma maps_wf_drop:
  assumes "maps_wf m" "gm_get m k = Some x"
  shows "maps_wf (if gm_del s x = [] then gm_del k m else gm_set k (gm_del s x) m)"
proof -
  have "gm_wf x" using assms gm_list_Some [OF assms(2)] by (metis maps_wf_def)
  then have "gm_wf (gm_del s x)" by simp
  with assms(1) show ?thesis by (simp add: maps_wf_def)
qed

lemma cache_look_put [simp]:
  "cache_look (cache_put i s r st) j t = (if j = i \<and> t = s then Some r else cache_look st j t)"
  by (auto simp: cache_look_def cache_put_def)

lemma cache_look_drop [simp]:
  "cache_look (cache_drop i s st) j t = (if j = i \<and> t = s then None else cache_look st j t)"
proof (cases "gm_get (rs_cache st) i")
  case None
  then show ?thesis by (auto simp: cache_look_def cache_drop_def gm_list_None)
next
  case (Some refs)
  have e: "gm_get (gm_del s refs) t = (if t = s then None else gm_get refs t)" by simp
  show ?thesis
  proof (cases "gm_del s refs = []")
    case True
    with e have "t \<noteq> s \<Longrightarrow> gm_get refs t = None" by (simp split: if_splits)
    with Some True show ?thesis by (auto simp: cache_look_def cache_drop_def gm_list_Some)
  next
    case False
    with Some show ?thesis by (auto simp: cache_look_def cache_drop_def gm_list_Some)
  qed
qed

lemma rs_look_cache [simp]:
  "rs_look (cache_put i s r st) n t = rs_look st n t" "rs_look (cache_drop i s st) n t = rs_look st n t"
  by (simp_all add: rs_look_def cache_put_def cache_drop_def split: option.split)

lemma cache_wf [simp]:
  "maps_wf (rs_cache st) \<Longrightarrow> maps_wf (rs_cache (cache_put i s r st))"
  "maps_wf (rs_cache st) \<Longrightarrow> maps_wf (rs_cache (cache_drop i s st))"
  using maps_wf_drop [of "rs_cache st" i _ s]
  by (auto simp: cache_put_def maps_wf_put cache_drop_def split: option.split)

lemma cache_repos [simp]:
  "rs_repos (cache_put i s r st) = rs_repos st" "rs_repos (cache_drop i s st) = rs_repos st"
  by (simp_all add: cache_put_def cache_drop_def split: option.split)

lemma ref_save_inv [simp]:
  "rs_repos (fst (ref_save wok st)) = rs_repos st" "rs_cache (fst (ref_save wok st)) = rs_cache st"
  by (simp_all add: ref_save_def)

lemma ref_laws_inj:
  "ref_laws parse dok valid \<Longrightarrow> valid r \<Longrightarrow> valid q \<Longrightarrow> FamiliarString r = FamiliarString q \<Longrightarrow> r = q"
  unfolding ref_laws_def by (metis option.inject)

lemma ref_inv_insert:
  assumes laws: "ref_laws parse dok valid" and inv: "ref_inv valid st"
    and ref: "valid ref" "stored_form ref"
    and wf: "maps_wf (rs_repos st')" "maps_wf (rs_cache st')"
    and look: "\<And>n s. rs_look st' n s =
      (if n = FamiliarName ref \<and> s = FamiliarString ref then Some i else rs_look st n s)"
    and cache: "\<And>j s. cache_look st' j s =
      (if s = FamiliarString ref then (if j = i then Some ref else None) else cache_look st j s)"
  shows "ref_inv valid st'"
  unfolding ref_inv_def
proof (intro conjI allI impI wf)
  fix n s j assume "rs_look st' n s = Some j"
  then show "\<exists>r. valid r \<and> stored_form r \<and> n = FamiliarName r \<and> s = FamiliarString r"
    using ref ref_invD(3) [OF inv] by (auto simp: look split: if_splits)
next
  fix j s r
  show "cache_look st' j s = Some r \<longleftrightarrow>
     valid r \<and> stored_form r \<and> s = FamiliarString r \<and> rs_look st' (FamiliarName r) s = Some j"
  proof (cases "s = FamiliarString ref")
    case True
    have "cache_look st' j s = Some r \<longleftrightarrow> j = i \<and> r = ref" using True by (auto simp: cache)
    moreover have "valid r \<and> s = FamiliarString r \<Longrightarrow> r = ref"
      using ref_laws_inj [OF laws] ref(1) True by metis
    ultimately show ?thesis using ref True look by auto
  next
    case False
    then show ?thesis using ref_invD(4) [OF inv] by (simp add: cache look)
  qed
qed

lemma ref_inv_remove:
  assumes laws: "ref_laws parse dok valid" and inv: "ref_inv valid st"
    and ref: "valid ref" "stored_form ref"
    and wf: "maps_wf (rs_repos st')" "maps_wf (rs_cache st')"
    and look: "\<And>n s. rs_look st' n s =
      (if n = FamiliarName ref \<and> s = FamiliarString ref then None else rs_look st n s)"
    and cache: "\<And>j s. cache_look st' j s = (if s = FamiliarString ref then None else cache_look st j s)"
  shows "ref_inv valid st'"
  unfolding ref_inv_def
proof (intro conjI allI impI wf)
  fix n s j assume "rs_look st' n s = Some j"
  then show "\<exists>r. valid r \<and> stored_form r \<and> n = FamiliarName r \<and> s = FamiliarString r"
    using ref_invD(3) [OF inv] by (auto simp: look split: if_splits)
next
  fix j s r
  have "valid r \<and> s = FamiliarString r \<and> s = FamiliarString ref \<Longrightarrow> r = ref"
    using ref_laws_inj [OF laws] ref(1) by metis
  then show "cache_look st' j s = Some r \<longleftrightarrow>
     valid r \<and> stored_form r \<and> s = FamiliarString r \<and> rs_look st' (FamiliarName r) s = Some j"
    using ref_invD(4) [OF inv] by (auto simp: cache look)
qed

text \<open>In a well-formed store an entry is cached only under the image it names.\<close>

lemma cache_at_ref:
  assumes "ref_laws parse dok valid" "ref_inv valid st" "valid ref" "stored_form ref"
  shows "cache_look st j (FamiliarString ref) =
    (if rs_look st (FamiliarName ref) (FamiliarString ref) = Some j then Some ref else None)"
proof (cases "cache_look st j (FamiliarString ref)")
  case None
  then show ?thesis using ref_invD(4) [OF assms(2), of j "FamiliarString ref" ref] assms(3,4) by auto
next
  case (Some r)
  from ref_invD(4) [OF assms(2), THEN iffD1, OF Some] ref_laws_inj [OF assms(1) _ assms(3)]
  have "r = ref" "rs_look st (FamiliarName ref) (FamiliarString ref) = Some j" by metis+
  with Some show ?thesis by simp
qed

text \<open>
  Adding a reference: the entry is written unless the name is reserved or the reference
  exists and may not be overwritten. A failed write of the file is reported, the store in
  memory has changed all the same.
\<close>

definition may_add :: "named \<Rightarrow> bool \<Rightarrow> ref_store \<Rightarrow> bool" where
  "may_add ref force st \<longleftrightarrow> FamiliarName ref \<noteq> ''sha256'' \<and>
     (rs_look st (FamiliarName ref) (FamiliarString ref) = None \<or> (canonical_digest ref = None \<and> force))"

lemma addReference_outcome:
  assumes laws: "ref_laws parse dok valid" and inv: "ref_inv valid st"
    and fav: "favorDigest dok ref0 = Inr ref" and ref: "valid ref" "stored_form ref"
    and run: "addReference dok ref0 i force wok st = (st', e)"
  shows "if may_add ref force st
    then ref_inv valid st' \<and> e = (if wok then None else Some WriteFailed) \<and>
      (\<forall>n s. rs_look st' n s =
        (if n = FamiliarName ref \<and> s = FamiliarString ref then Some i else rs_look st n s)) \<and>
      rs_file st' = (if wok then Saved (rs_repos st') else rs_file st)
    else st' = st \<and> e \<noteq> None"
proof -
  let ?N = "FamiliarName ref" and ?S = "FamiliarString ref"
  define rp where "rp = gm_list (rs_repos st) ?N"
  define st1 where "st1 = (if rp = [] then st\<lparr>rs_repos := gm_set ?N [] (rs_repos st)\<rparr> else st)"
  have look: "rs_look st ?N ?S = gm_get rp ?S" by (simp add: rs_look_def rp_def)
  have rc: "rs_cache st1 = rs_cache st" "rs_file st1 = rs_file st" by (simp_all add: st1_def)
  have reps: "gm_set ?N x (rs_repos st1) = gm_set ?N x (rs_repos st)" for x
    by (simp add: st1_def)
  define add where "add = (\<lambda>st2. cache_put i ?S ref
      (st2\<lparr>rs_repos := gm_set ?N (gm_set ?S i rp) (rs_repos st2)\<rparr>))"
  have added: "ref_inv valid (fst (ref_save wok (add st2))) \<and>
      (\<forall>n s. rs_look (fst (ref_save wok (add st2))) n s =
        (if n = ?N \<and> s = ?S then Some i else rs_look st n s)) \<and>
      rs_file (fst (ref_save wok (add st2))) =
        (if wok then Saved (rs_repos (fst (ref_save wok (add st2)))) else rs_file st)"
    if st2: "rs_repos st2 = rs_repos st1" "maps_wf (rs_cache st2)" "rs_file st2 = rs_file st"
      "\<And>j s. cache_look st2 j s = (if s = ?S then None else cache_look st j s)" for st2
  proof -
    let ?st = "fst (ref_save wok (add st2))"
    have look': "rs_look ?st n s = (if n = ?N \<and> s = ?S then Some i else rs_look st n s)" for n s
      by (simp add: rs_look_def add_def st2(1) reps rp_def)
    have "ref_inv valid ?st"
    proof (rule ref_inv_insert [OF laws inv ref])
      show "maps_wf (rs_repos ?st)"
        using maps_wf_put [OF ref_invD(1) [OF inv]] by (simp add: add_def st2(1) reps rp_def)
      show "maps_wf (rs_cache ?st)"
        unfolding ref_save_inv add_def by (rule cache_wf(1)) (simp add: st2(2))
      show "rs_look ?st n s = (if n = ?N \<and> s = ?S then Some i else rs_look st n s)" for n s
        by (rule look')
      have "cache_look (st2\<lparr>rs_repos := x\<rparr>) j s = cache_look st2 j s" for x j s
        by (simp add: cache_look_def)
      moreover have "cache_look ?st j s = cache_look (add st2) j s" for j s
        by (simp only: cache_look_def ref_save_inv)
      ultimately show "cache_look ?st j s =
          (if s = ?S then (if j = i then Some ref else None) else cache_look st j s)" for j s
        by (simp add: add_def st2(4))
    qed
    moreover have "rs_file ?st = (if wok then Saved (rs_repos ?st) else rs_file st)"
      by (simp add: ref_save_def add_def cache_put_def st2(3))
    ultimately show ?thesis using look' by blast
  qed
  have run': "(st', e) =
     (if ?N = ''sha256'' then (st, Some AmbiguousTag)
      else (case gm_get rp ?S of
              None \<Rightarrow> ref_save wok (add st1)
            | Some old \<Rightarrow>
                (case canonical_digest ref of
                   Some d \<Rightarrow> (st1, Some (OverwriteDigest d))
                 | None \<Rightarrow> if \<not> force then (st1, Some (TagConflict ?S old))
                           else ref_save wok (add (cache_drop old ?S st1)))))"
    unfolding run [symmetric] addReference_def fav Let_def sum.case st1_def rp_def add_def by (rule refl)
  have fresh: "st1 = st" if "gm_get rp ?S = Some old" for old
    using that by (auto simp: st1_def)
  have e: "snd (ref_save wok x) = (if wok then None else Some WriteFailed)" for x
    by (simp add: ref_save_def)
  show ?thesis
  proof (cases "may_add ref force st")
    case False
    then show ?thesis using run' fresh
      by (auto simp: may_add_def look split: if_splits option.splits)
  next
    case True
    have "\<exists>st2. (st', e) = ref_save wok (add st2) \<and> rs_repos st2 = rs_repos st1 \<and> maps_wf (rs_cache st2)
        \<and> rs_file st2 = rs_file st \<and>
        (\<forall>j s. cache_look st2 j s = (if s = ?S then None else cache_look st j s))"
    proof (cases "gm_get rp ?S")
      case None
      have "cache_look st1 j s = (if s = ?S then None else cache_look st j s)" for j s
        using cache_at_ref [OF laws inv ref, of j] None by (simp add: look cache_look_def rc)
      with None True run' ref_invD(2) [OF inv] show ?thesis
        by (intro exI [of _ st1]) (simp add: may_add_def rc)
    next
      case (Some old)
      let ?st2 = "cache_drop old ?S st1"
      have "cache_look ?st2 j s = (if s = ?S then None else cache_look st j s)" for j s
        using cache_at_ref [OF laws inv ref, of j] Some by (simp add: look fresh [OF Some])
      moreover have "maps_wf (rs_cache ?st2)" by (rule cache_wf(2)) (simp add: rc ref_invD(2) [OF inv])
      moreover have "rs_file ?st2 = rs_file st" by (simp add: cache_drop_def rc split: option.split)
      ultimately show ?thesis using Some True run'
        by (intro exI [of _ ?st2]) (simp add: may_add_def look)
    qed
    then obtain st2 where st2: "(st', e) = ref_save wok (add st2)" "rs_repos st2 = rs_repos st1"
      "maps_wf (rs_cache st2)" "rs_file st2 = rs_file st"
      "\<And>j s. cache_look st2 j s = (if s = ?S then None else cache_look st j s)" by blast
    have "st' = fst (ref_save wok (add st2))" "e = (if wok then None else Some WriteFailed)"
      using st2(1) e [of "add st2"] by (metis fst_conv, metis snd_conv)
    with added [OF st2(2-5)] True show ?thesis by simp
  qed
qed

section \<open>Operations as updates of one map\<close>

text \<open>The reference under which a request is stored and looked up.\<close>

definition normal_ref :: "named \<Rightarrow> named" where
  "normal_ref ref = (case ref of FullRef r t d \<Rightarrow> CanonicalRef r d | _ \<Rightarrow> TagNameOnly ref)"

text \<open>What clients see: a partial function from references to images.\<close>

definition rs_abs :: "(named \<Rightarrow> bool) \<Rightarrow> ref_store \<Rightarrow> named \<Rightarrow> string option" where
  "rs_abs valid st r =
     (if valid r \<and> stored_form r then rs_look st (FamiliarName r) (FamiliarString r) else None)"

lemma normal_ref_valid:
  assumes "ref_laws parse dok valid" "valid r"
  shows "valid (normal_ref r)" "stored_form (normal_ref r)"
  using assms by (cases r; simp add: normal_ref_def ref_laws_def stored_form_def; metis TagNameOnly.simps)+

lemma rs_abs_update:
  assumes laws: "ref_laws parse dok valid" and ref: "valid ref" "stored_form ref"
    and look: "\<And>n s. rs_look st' n s =
      (if n = FamiliarName ref \<and> s = FamiliarString ref then x else rs_look st n s)"
  shows "rs_abs valid st' = (rs_abs valid st)(ref := x)"
proof
  fix r
  show "rs_abs valid st' r = ((rs_abs valid st)(ref := x)) r"
    using ref look ref_laws_inj [OF laws _ ref(1), of r] by (auto simp: rs_abs_def)
qed

lemma ref_delete_outcome:
  assumes laws: "ref_laws parse dok valid" and inv: "ref_inv valid st" and v: "valid ref0"
    and run: "ref_delete dok ref0 wok st = (st', done, e)"
  shows "if rs_abs valid st (normal_ref ref0) = None
    then st' = st \<and> \<not> done \<and> e = Some RefDoesNotExist
    else ref_inv valid st' \<and> rs_abs valid st' = (rs_abs valid st)(normal_ref ref0 := None) \<and> done \<and>
      e = (if wok then None else Some WriteFailed) \<and>
      rs_file st' = (if wok then Saved (rs_repos st') else rs_file st)"
proof -
  define ref where "ref = normal_ref ref0"
  note ref = normal_ref_valid [OF laws v, folded ref_def]
  let ?N = "FamiliarName ref" and ?S = "FamiliarString ref"
  obtain r1 where fav: "favorDigest dok ref0 = Inr r1" "TagNameOnly r1 = ref"
    using v laws by (cases ref0) (auto simp: favorDigest_def ref_def normal_ref_def ref_laws_def)
  have abs: "rs_abs valid st ref = rs_look st ?N ?S" using ref by (simp add: rs_abs_def)
  show ?thesis
  proof (cases "gm_get (rs_repos st) ?N")
    case None
    then have "rs_look st ?N ?S = None" by (simp add: rs_look_def gm_list_None)
    with None run fav abs show ?thesis by (simp add: ref_delete_def Let_def ref_def)
  next
    case (Some rp)
    have look: "rs_look st ?N ?S = gm_get rp ?S" using Some by (simp add: rs_look_def gm_list_Some)
    show ?thesis
    proof (cases "gm_get rp ?S")
      case None
      with Some run fav abs look show ?thesis by (simp add: ref_delete_def Let_def ref_def)
    next
      case (Some i)
      define repos1 where "repos1 = (if gm_del ?S rp = [] then gm_del ?N (rs_repos st)
                                  else gm_set ?N (gm_del ?S rp) (rs_repos st))"
      let ?c = "cache_drop i ?S (st\<lparr>rs_repos := repos1\<rparr>)"
      have st': "st' = fst (ref_save wok ?c)" "done" "e = (if wok then None else Some WriteFailed)"
        using run fav \<open>gm_get (rs_repos st) ?N = Some rp\<close> Some
        by (auto simp: ref_delete_def Let_def repos1_def ref_save_def split: if_splits)
      have rp': "rs_repos st' = repos1" by (simp add: st'(1))
      have look': "rs_look st' n s = (if n = ?N \<and> s = ?S then None else rs_look st n s)" for n s
      proof (cases "gm_del ?S rp = []")
        case True
        have "s \<noteq> ?S \<Longrightarrow> gm_get rp s = None"
          using True delete_conv' [of ?S rp] by (simp add: fun_eq_iff split: if_splits) metis
        with True \<open>gm_get (rs_repos st) ?N = Some rp\<close> show ?thesis
          unfolding rs_look_def rp' by (auto simp: repos1_def gm_list_Some)
      next
        case False
        with \<open>gm_get (rs_repos st) ?N = Some rp\<close> show ?thesis
          unfolding rs_look_def rp' by (auto simp: repos1_def gm_list_Some)
      qed
      have "ref_inv valid st'"
      proof (rule ref_inv_remove [OF laws inv ref _ _ look'])
        show "maps_wf (rs_repos st')"
          unfolding rp' repos1_def
          by (rule maps_wf_drop [OF ref_invD(1) [OF inv] \<open>gm_get (rs_repos st) ?N = Some rp\<close>])
        show "maps_wf (rs_cache st')"
          unfolding st'(1) ref_save_inv by (rule cache_wf(2)) (simp add: ref_invD(2) [OF inv])
        have c: "cache_look (st\<lparr>rs_repos := x\<rparr>) j s = cache_look st j s" for x j s
          by (simp add: cache_look_def)
        have "cache_look st' j s = cache_look ?c j s" for j s
          by (simp only: cache_look_def st'(1) ref_save_inv)
        then show "cache_look st' j s = (if s = ?S then None else cache_look st j s)" for j s
          using cache_at_ref [OF laws inv ref, of j] Some look by (auto simp: c)
      qed
      moreover have "rs_abs valid st' = (rs_abs valid st)(ref := None)"
        by (rule rs_abs_update [OF laws ref look'])
      moreover have "rs_file st' = (if wok then Saved (rs_repos st') else rs_file st)"
        by (simp add: st'(1) ref_save_def cache_drop_def split: option.split)
      ultimately show ?thesis using st' abs look Some by (simp add: ref_def)
    qed
  qed
qed

lemma ref_get_abs:
  assumes "ref_laws parse dok valid" "valid ref0"
  shows "ref_get dok ref0 st =
    (case rs_abs valid st (normal_ref ref0) of None \<Rightarrow> Inl RefDoesNotExist | Some i \<Rightarrow> Inr i)"
proof -
  note n = normal_ref_valid [OF assms]
  have "ref_get dok ref0 st =
      (case gm_get (rs_repos st) (FamiliarName (normal_ref ref0)) of None \<Rightarrow> Inl RefDoesNotExist
       | Some rp \<Rightarrow> (case gm_get rp (FamiliarString (normal_ref ref0)) of
            None \<Rightarrow> Inl RefDoesNotExist | Some i \<Rightarrow> Inr i))"
    using assms
    by (cases ref0) (auto simp: ref_get_def normal_ref_def ref_laws_def split: option.split)
  then show ?thesis using n
    by (simp add: rs_abs_def rs_look_def gm_list_def split: option.split)
qed

section \<open>Every sequence of operations\<close>

datatype ref_op =
    OpAddTag named string bool bool
  | OpAddDigest named string bool bool
  | OpDelete named bool

fun ref_step :: "(string \<Rightarrow> bool) \<Rightarrow> ref_op \<Rightarrow> ref_store \<Rightarrow> ref_store" where
  "ref_step dok (OpAddTag r i force wok) st = fst (AddTag dok r i force wok st)"
| "ref_step dok (OpAddDigest r i force wok) st = fst (AddDigest dok r i force wok st)"
| "ref_step dok (OpDelete r wok) st = fst (ref_delete dok r wok st)"

fun op_ref :: "ref_op \<Rightarrow> named" where
  "op_ref (OpAddTag r _ _ _) = r"
| "op_ref (OpAddDigest r _ _ _) = r"
| "op_ref (OpDelete r _) = r"

text \<open>A request is well-formed when its reference is valid and \<^verbatim>\<open>AddDigest\<close> gets a digest.\<close>

definition op_ok :: "(named \<Rightarrow> bool) \<Rightarrow> ref_op \<Rightarrow> bool" where
  "op_ok valid op = (valid (op_ref op) \<and>
     (case op of OpAddDigest r _ _ _ \<Rightarrow> canonical_digest r \<noteq> None | _ \<Rightarrow> True))"

text \<open>The specification: a tag can be set when it is free or forced, a digest only when free.\<close>

definition spec_add :: "named \<Rightarrow> string \<Rightarrow> bool \<Rightarrow> (named \<Rightarrow> string option) \<Rightarrow> named \<Rightarrow> string option" where
  "spec_add ref i force f =
     (if FamiliarName ref \<noteq> ''sha256'' \<and> (f ref = None \<or> (canonical_digest ref = None \<and> force))
      then f(ref := Some i) else f)"

fun spec_step :: "ref_op \<Rightarrow> (named \<Rightarrow> string option) \<Rightarrow> named \<Rightarrow> string option" where
  "spec_step (OpAddTag r i force _) f =
     (if canonical_digest r \<noteq> None then f else spec_add (normal_ref r) i force f)"
| "spec_step (OpAddDigest r i force _) f = spec_add (normal_ref r) i force f"
| "spec_step (OpDelete r _) f = f(normal_ref r := None)"

lemma addReference_abs:
  assumes laws: "ref_laws parse dok valid" and inv: "ref_inv valid st"
    and fav: "favorDigest dok ref0 = Inr ref" and ref: "valid ref" "stored_form ref"
  shows "ref_inv valid (fst (addReference dok ref0 i force wok st)) \<and>
    rs_abs valid (fst (addReference dok ref0 i force wok st)) = spec_add ref i force (rs_abs valid st)"
proof -
  obtain st' e where run: "addReference dok ref0 i force wok st = (st', e)"
    by (cases "addReference dok ref0 i force wok st")
  note out = addReference_outcome [OF laws inv fav ref run]
  have "may_add ref force st \<longleftrightarrow> FamiliarName ref \<noteq> ''sha256'' \<and>
      (rs_abs valid st ref = None \<or> (canonical_digest ref = None \<and> force))"
    using ref by (simp add: may_add_def rs_abs_def)
  with out inv rs_abs_update [OF laws ref, of st' "Some i" st] run show ?thesis
    by (auto simp: spec_add_def split: if_splits)
qed

lemma ref_step_abs:
  assumes laws: "ref_laws parse dok valid" and inv: "ref_inv valid st" and op: "op_ok valid op"
  shows "ref_inv valid (ref_step dok op st) \<and>
    rs_abs valid (ref_step dok op st) = spec_step op (rs_abs valid st)"
proof (cases op)
  case (OpAddTag r i force wok)
  then have v: "valid r" using op by (simp add: op_ok_def)
  show ?thesis
  proof (cases "canonical_digest r")
    case None
    then have n: "normal_ref r = TagNameOnly r" by (cases r) (simp_all add: normal_ref_def)
    with None have fav: "favorDigest dok (TagNameOnly r) = Inr (normal_ref r)"
      by (cases r) (simp_all add: favorDigest_def)
    from addReference_abs [OF laws inv fav normal_ref_valid [OF laws v]] None OpAddTag
    show ?thesis by (simp add: AddTag_def)
  qed (use OpAddTag inv in \<open>simp add: AddTag_def\<close>)
next
  case (OpAddDigest r i force wok)
  then have v: "valid r" and c: "canonical_digest r \<noteq> None" using op by (simp_all add: op_ok_def)
  then have fav: "favorDigest dok r = Inr (normal_ref r)"
    using laws by (cases r) (auto simp: favorDigest_def normal_ref_def ref_laws_def)
  from addReference_abs [OF laws inv fav normal_ref_valid [OF laws v]] OpAddDigest
  show ?thesis by (simp add: AddDigest_def)
next
  case (OpDelete r wok)
  then have v: "valid r" using op by (simp add: op_ok_def)
  obtain st' b e where run: "ref_delete dok r wok st = (st', b, e)" by (cases "ref_delete dok r wok st")
  have step: "ref_step dok op st = st'" using run OpDelete by simp
  show ?thesis
  proof (cases "rs_abs valid st (normal_ref r)")
    case None
    then have "st' = st" using ref_delete_outcome [OF laws inv v run] by simp
    with None inv OpDelete step show ?thesis by (simp add: fun_upd_idem)
  next
    case (Some j)
    with ref_delete_outcome [OF laws inv v run] OpDelete step show ?thesis by simp
  qed
qed

lemma ref_run_abs:
  assumes laws: "ref_laws parse dok valid"
  shows "ref_inv valid st \<Longrightarrow> list_all (op_ok valid) ops \<Longrightarrow>
    ref_inv valid (fold (ref_step dok) ops st) \<and>
    rs_abs valid (fold (ref_step dok) ops st) = fold spec_step ops (rs_abs valid st)"
  by (induction ops arbitrary: st) (auto simp: ref_step_abs [OF laws])

lemma ref_inv_empty: "ref_inv valid \<lparr>rs_repos = [], rs_cache = [], rs_file = f\<rparr>"
  by (simp add: ref_inv_def maps_wf_def rs_look_def cache_look_def gm_list_def)

lemma rs_abs_empty: "rs_abs valid \<lparr>rs_repos = [], rs_cache = [], rs_file = f\<rparr> = (\<lambda>_. None)"
  by (simp add: rs_abs_def rs_look_def gm_list_def fun_eq_iff)

lemma References_abs:
  assumes laws: "ref_laws parse dok valid" and inv: "ref_inv valid st"
  shows "set (References i st) = {r. rs_abs valid st r = Some i}" "distinct (References i st)"
    and "sorted (map ref_string (References i st))"
proof -
  let ?m = "gm_list (rs_cache st) i"
  have wf: "gm_wf ?m" using ref_invD(2) [OF inv] by (simp add: maps_wf_def)
  have mem: "(s, r) \<in> set ?m \<longleftrightarrow>
      valid r \<and> stored_form r \<and> s = FamiliarString r \<and> rs_look st (FamiliarName r) s = Some i" for s r
    using ref_invD(4) [OF inv, of i s r] gm_wf_get [OF wf, of s r] by (simp add: cache_look_def)
  show "set (References i st) = {r. rs_abs valid st r = Some i}"
  proof (rule set_eqI)
    fix r
    have "r \<in> set (References i st) \<longleftrightarrow> (\<exists>s. (s, r) \<in> set ?m)"
      unfolding References_def set_sort set_map image_iff by (metis prod.collapse snd_conv)
    then show "r \<in> set (References i st) \<longleftrightarrow> r \<in> {r. rs_abs valid st r = Some i}"
      unfolding mem by (auto simp: rs_abs_def)
  qed
  have "inj_on snd (set ?m)"
  proof (rule inj_onI)
    fix x y assume xy: "x \<in> set ?m" "y \<in> set ?m" "snd x = snd y"
    obtain s r where x: "x = (s, r)" by (cases x)
    obtain t q where y: "y = (t, q)" by (cases y)
    from xy mem [of s r] mem [of t q] show "x = y" by (simp add: x y)
  qed
  moreover have "distinct ?m" using wf by (auto simp: gm_wf_def distinct_map)
  ultimately have "distinct (map snd ?m)" by (simp add: distinct_map)
  then show "distinct (References i st)" by (simp add: References_def)
  show "sorted (map ref_string (References i st))" by (simp add: References_def)
qed

section \<open>Restart\<close>

lemma reload_entry_facts:
  "rs_repos (reload_entry parse e st) = rs_repos st"
  "rs_file (reload_entry parse e st) = rs_file st"
  "maps_wf (rs_cache st) \<Longrightarrow> maps_wf (rs_cache (reload_entry parse e st))"
  "cache_look (reload_entry parse e st) i s =
     (if e = (s, i) \<and> parse s \<noteq> None then parse s else cache_look st i s)"
  by (cases e; auto simp: reload_entry_def cache_put_def maps_wf_put cache_look_def split: option.splits)+

lemma reload_fold:
  "rs_repos (fold (reload_entry parse) es st) = rs_repos st"
  "rs_file (fold (reload_entry parse) es st) = rs_file st"
  "maps_wf (rs_cache st) \<Longrightarrow> maps_wf (rs_cache (fold (reload_entry parse) es st))"
  "cache_look (fold (reload_entry parse) es st) i s =
     (if (s, i) \<in> set es \<and> parse s \<noteq> None then parse s else cache_look st i s)"
  by (induction es arbitrary: st) (auto simp: reload_entry_facts)

lemma fold_concat_repos:
  "fold (\<lambda>(name, repository). fold (reload_entry parse) repository) m st =
     fold (reload_entry parse) (concat (map snd m)) st"
  by (induction m arbitrary: st) (auto split: prod.splits)

lemma repos_entries:
  assumes "maps_wf m"
  shows "(s, i) \<in> set (concat (map snd m)) \<longleftrightarrow> (\<exists>n. gm_get (gm_list m n) s = Some i)"
proof
  assume "(s, i) \<in> set (concat (map snd m))"
  then obtain n rp where rp: "(n, rp) \<in> set m" "(s, i) \<in> set rp" by force
  then have "gm_get m n = Some rp" using assms by (simp add: maps_wf_def gm_wf_get)
  then have "gm_list m n = rp" by (rule gm_list_Some)
  then show "\<exists>n. gm_get (gm_list m n) s = Some i"
    using assms rp(2) gm_wf_get by (metis maps_wf_def)
next
  assume "\<exists>n. gm_get (gm_list m n) s = Some i"
  then obtain n where n: "gm_get (gm_list m n) s = Some i" by blast
  then obtain rp where rp: "gm_get m n = Some rp" by (auto simp: gm_list_def split: option.splits)
  then have "gm_list m n = rp" by (rule gm_list_Some)
  with n rp show "(s, i) \<in> set (concat (map snd m))" by force
qed

lemma reload_restores:
  assumes laws: "ref_laws parse dok valid" and inv: "ref_inv valid st"
    and saved: "rs_file st = Saved (rs_repos st)"
  shows "\<exists>st'. NewReferenceStore parse True wok (rs_file st) = Inr st' \<and> ref_inv valid st' \<and>
    rs_repos st' = rs_repos st \<and> (\<forall>i s. cache_look st' i s = cache_look st i s)"
proof -
  let ?st0 = "\<lparr>rs_repos = rs_repos st, rs_cache = [], rs_file = Saved (rs_repos st)\<rparr>"
  define st' where "st' = fold (reload_entry parse) (concat (map snd (rs_repos st))) ?st0"
  have new: "NewReferenceStore parse True wok (rs_file st) = Inr st'"
    by (simp add: NewReferenceStore_def ref_reload_def saved fold_concat_repos st'_def)
  have repos: "rs_repos st' = rs_repos st" by (simp add: st'_def reload_fold)
  have wf: "maps_wf (rs_cache st')"
    unfolding st'_def by (rule reload_fold(3)) (simp add: maps_wf_def gm_list_def)
  have ent: "(s, i) \<in> set (concat (map snd (rs_repos st))) \<longleftrightarrow> (\<exists>n. rs_look st n s = Some i)" for s i
    using repos_entries [OF ref_invD(1) [OF inv]] by (simp add: rs_look_def)
  have cache: "cache_look st' i s = cache_look st i s" for i s
  proof (cases "\<exists>n. rs_look st n s = Some i")
    case True
    then obtain n where n: "rs_look st n s = Some i" by blast
    from ref_invD(3) [OF inv n] obtain r
      where r: "valid r" "stored_form r" "n = FamiliarName r" "s = FamiliarString r" by blast
    have "parse s = Some r" using laws r by (simp add: ref_laws_def)
    with True ent have "cache_look st' i s = Some r" by (simp add: st'_def reload_fold)
    moreover have "cache_look st i s = Some r" using ref_invD(4) [OF inv] r n by simp
    ultimately show ?thesis by simp
  next
    case False
    then have "cache_look st' i s = None"
      using ent by (simp add: st'_def reload_fold) (simp add: cache_look_def gm_list_def)
    moreover have "cache_look st i s = None"
      using False ref_invD(4) [OF inv, of i s] by (cases "cache_look st i s") auto
    ultimately show ?thesis by simp
  qed
  have "ref_inv valid st'"
    using inv wf repos cache ref_invD(1) [OF inv] unfolding ref_inv_def rs_look_def by simp
  with new repos cache show ?thesis by blast
qed

section \<open>Properties\<close>

text \<open>A concrete instance of the reference package: two references to one repository.\<close>

definition ex_repo :: repo where
  "ex_repo = \<lparr>r_domain = ''docker.io'', r_path = ''library/redis''\<rparr>"

definition ex_valid :: "named \<Rightarrow> bool" where
  "ex_valid r \<longleftrightarrow> r = TaggedRef ex_repo ''latest'' \<or> r = CanonicalRef ex_repo ''sha256:00''"

definition ex_parse :: "string \<Rightarrow> named option" where
  "ex_parse s = (if s = ''redis:latest'' then Some (TaggedRef ex_repo ''latest'')
     else if s = ''redis@sha256:00'' then Some (CanonicalRef ex_repo ''sha256:00'') else None)"

lemma ex_familiar [simp]:
  "familiarizeName ex_repo = \<lparr>r_domain = '''', r_path = ''redis''\<rparr>"
  "FamiliarName (TaggedRef ex_repo t) = ''redis''" "FamiliarName (CanonicalRef ex_repo t) = ''redis''"
  "FamiliarString (TaggedRef ex_repo t) = ''redis:'' @ t" "FamiliarString (CanonicalRef ex_repo t) = ''redis@'' @ t"
  by (simp_all add: FamiliarName_def FamiliarString_def familiarizeName_def ex_repo_def repo_name_def)

lemma ex_ref_laws: "ref_laws ex_parse (\<lambda>_. True) ex_valid"
  by (auto simp: ref_laws_def ex_valid_def ex_parse_def)

text \<open>
  C18. From an empty store, any sequence of well-formed tag, digest and delete requests,
  failing writes included, makes the store behave as one map from references to images: a
  lookup returns what the map says, with the default tag added and a tag next to a digest
  ignored, and the reverse index lists exactly the references of an image, each once, in
  the order of their names.
\<close>

theorem reference_store_refines:
  assumes laws: "ref_laws parse dok valid" and ops: "list_all (op_ok valid) ops"
    and new: "NewReferenceStore parse True wok Absent = Inr st0" and r: "valid r"
  shows "ref_get dok r (fold (ref_step dok) ops st0) =
      (case fold spec_step ops (\<lambda>_. None) (normal_ref r) of
         None \<Rightarrow> Inl RefDoesNotExist | Some i \<Rightarrow> Inr i) \<and>
    set (References j (fold (ref_step dok) ops st0)) = {q. fold spec_step ops (\<lambda>_. None) q = Some j} \<and>
    distinct (References j (fold (ref_step dok) ops st0)) \<and>
    sorted (map ref_string (References j (fold (ref_step dok) ops st0)))"
proof -
  have "st0 = \<lparr>rs_repos = [], rs_cache = [], rs_file = Saved []\<rparr>"
    using new by (cases wok) (simp_all add: NewReferenceStore_def ref_reload_def ref_save_def)
  then have "ref_inv valid st0" "rs_abs valid st0 = (\<lambda>_. None)"
    by (simp_all add: ref_inv_empty rs_abs_empty)
  with ref_run_abs [OF laws _ ops] have inv: "ref_inv valid (fold (ref_step dok) ops st0)"
    and abs: "rs_abs valid (fold (ref_step dok) ops st0) = fold spec_step ops (\<lambda>_. None)" by auto
  show ?thesis
    using ref_get_abs [OF laws r] References_abs [OF laws inv, of j] by (simp add: abs)
qed

theorem reference_store_refines_witness:
  "ref_get (\<lambda>_. True) (TaggedRef ex_repo ''latest'')
     (fold (ref_step (\<lambda>_. True)) [OpAddTag (TaggedRef ex_repo ''latest'') ''img1'' False True,
        OpAddTag (TaggedRef ex_repo ''latest'') ''img2'' False True,
        OpAddTag (TaggedRef ex_repo ''latest'') ''img3'' True False]
       \<lparr>rs_repos = [], rs_cache = [], rs_file = Saved []\<rparr>) = Inr ''img3''"
proof -
  let ?ops = "[OpAddTag (TaggedRef ex_repo ''latest'') ''img1'' False True,
        OpAddTag (TaggedRef ex_repo ''latest'') ''img2'' False True,
        OpAddTag (TaggedRef ex_repo ''latest'') ''img3'' True False]"
  have 1: "list_all (op_ok ex_valid) ?ops" by (simp add: op_ok_def ex_valid_def)
  have 2: "NewReferenceStore ex_parse True True Absent = Inr \<lparr>rs_repos = [], rs_cache = [], rs_file = Saved []\<rparr>"
    by (simp add: NewReferenceStore_def ref_reload_def ref_save_def)
  have 3: "ex_valid (TaggedRef ex_repo ''latest'')" by (simp add: ex_valid_def)
  from reference_store_refines [OF ex_ref_laws 1 2 3]
  show ?thesis by (simp add: normal_ref_def spec_add_def)
qed

text \<open>
  A daemon restart loses nothing: after any sequence of well-formed requests whose
  writes succeed, a store opened on the file answers every lookup and every listing of an
  image's references as the old one did.
\<close>

theorem reference_store_restart:
  assumes laws: "ref_laws parse dok valid" and ops: "list_all (op_ok valid) ops"
    and writes: "list_all (\<lambda>op. case op of OpAddTag _ _ _ w \<Rightarrow> w | OpAddDigest _ _ _ w \<Rightarrow> w | OpDelete _ w \<Rightarrow> w) ops"
  shows "\<exists>st'. NewReferenceStore parse True wok
      (rs_file (fold (ref_step dok) ops \<lparr>rs_repos = [], rs_cache = [], rs_file = Saved []\<rparr>)) = Inr st' \<and>
    (\<forall>r. ref_get dok r st' = ref_get dok r (fold (ref_step dok) ops \<lparr>rs_repos = [], rs_cache = [], rs_file = Saved []\<rparr>)) \<and>
    (\<forall>i. set (References i st') =
       set (References i (fold (ref_step dok) ops \<lparr>rs_repos = [], rs_cache = [], rs_file = Saved []\<rparr>)))"
proof -
  let ?w = "\<lambda>op. case op of OpAddTag _ _ _ w \<Rightarrow> w | OpAddDigest _ _ _ w \<Rightarrow> w | OpDelete _ w \<Rightarrow> w"
  have step: "rs_file (ref_step dok op st) = Saved (rs_repos (ref_step dok op st))"
    if st: "ref_inv valid st" "rs_file st = Saved (rs_repos st)" and op: "op_ok valid op" "?w op" for op st
  proof -
    have add: "rs_file (fst (addReference dok r i force True st)) = Saved (rs_repos (fst (addReference dok r i force True st)))"
      for r i force
      using st(2)
      by (auto simp: addReference_def Let_def ref_save_def split: sum.split option.split)
    have del: "rs_file (fst (ref_delete dok r True st)) = Saved (rs_repos (fst (ref_delete dok r True st)))" for r
      using st(2) by (auto simp: ref_delete_def Let_def ref_save_def split: sum.split option.split)
    show ?thesis using op(2) st(2) add del by (cases op) (simp_all add: AddTag_def AddDigest_def)
  qed
  have run: "ref_inv valid st \<Longrightarrow> rs_file st = Saved (rs_repos st) \<Longrightarrow> list_all (op_ok valid) os \<Longrightarrow> list_all ?w os \<Longrightarrow>
      rs_file (fold (ref_step dok) os st) = Saved (rs_repos (fold (ref_step dok) os st))" for os st
    using ref_step_abs [OF laws] step by (induction os arbitrary: st) auto
  let ?st0 = "\<lparr>rs_repos = [], rs_cache = [], rs_file = Saved []\<rparr> :: ref_store"
  let ?st = "fold (ref_step dok) ops ?st0"
  have inv: "ref_inv valid ?st" using ref_run_abs [OF laws ref_inv_empty ops] by blast
  have saved: "rs_file ?st = Saved (rs_repos ?st)" by (rule run [OF ref_inv_empty _ ops writes]) simp
  from reload_restores [OF laws inv saved] obtain st' where
    st': "NewReferenceStore parse True wok (rs_file ?st) = Inr st'" "ref_inv valid st'"
      "rs_repos st' = rs_repos ?st" by blast
  have "rs_abs valid st' = rs_abs valid ?st" using st'(3) by (simp add: rs_abs_def rs_look_def fun_eq_iff)
  then have "set (References i st') = set (References i ?st)" for i
    using References_abs(1) [OF laws st'(2)] References_abs(1) [OF laws inv] by simp
  moreover have "ref_get dok r st' = ref_get dok r ?st" for r
    unfolding ref_get_def st'(3) by (rule refl)
  ultimately show ?thesis using st'(1) by blast
qed

theorem reference_store_restart_witness:
  "\<exists>st'. NewReferenceStore ex_parse True True
      (rs_file (fold (ref_step (\<lambda>_. True)) [OpAddTag (TaggedRef ex_repo ''latest'') ''img1'' False True]
         \<lparr>rs_repos = [], rs_cache = [], rs_file = Saved []\<rparr>)) = Inr st'"
proof -
  have "list_all (op_ok ex_valid) [OpAddTag (TaggedRef ex_repo ''latest'') ''img1'' False True]"
    by (simp add: op_ok_def ex_valid_def)
  from reference_store_restart [OF ex_ref_laws this, where wok = True] show ?thesis by auto
qed

lemma spec_add_digest:
  "f (CanonicalRef r d) = Some i \<Longrightarrow> spec_add ref j force f (CanonicalRef r d) = Some i"
  by (cases "ref = CanonicalRef r d") (auto simp: spec_add_def)

text \<open>
  A digest reference never changes its image: once it names one, no tag or digest
  request, forced or not, makes it name another; only deleting it does.
\<close>

theorem digest_reference_immutable:
  assumes laws: "ref_laws parse dok valid" and inv: "ref_inv valid st"
    and ops: "list_all (op_ok valid) ops" and d: "valid (CanonicalRef r d)"
    and set: "ref_get dok (CanonicalRef r d) st = Inr i"
    and keep: "\<forall>op \<in> set ops. \<forall>q w. op = OpDelete q w \<longrightarrow> normal_ref q \<noteq> CanonicalRef r d"
  shows "ref_get dok (CanonicalRef r d) (fold (ref_step dok) ops st) = Inr i"
proof -
  have n: "normal_ref (CanonicalRef r d) = CanonicalRef r d" by (simp add: normal_ref_def)
  have "rs_abs valid st (CanonicalRef r d) = Some i"
    using set ref_get_abs [OF laws d, of st] n by (simp split: option.splits)
  moreover have "f (CanonicalRef r d) = Some i \<Longrightarrow>
      \<forall>op \<in> set ops. \<forall>q w. op = OpDelete q w \<longrightarrow> normal_ref q \<noteq> CanonicalRef r d \<Longrightarrow>
      fold spec_step ops f (CanonicalRef r d) = Some i" for f
  proof (induction ops arbitrary: f)
    case (Cons op ops)
    have "spec_step op f (CanonicalRef r d) = Some i"
      using Cons.prems by (cases op) (auto simp: spec_add_digest)
    with Cons show ?case by simp
  qed simp
  ultimately have "fold spec_step ops (rs_abs valid st) (CanonicalRef r d) = Some i" using keep by blast
  with ref_run_abs [OF laws inv ops] ref_get_abs [OF laws d] n show ?thesis by simp
qed

theorem digest_reference_immutable_witness:
  "ref_get (\<lambda>_. True) (CanonicalRef ex_repo ''sha256:00'')
    (fold (ref_step (\<lambda>_. True)) [OpAddDigest (CanonicalRef ex_repo ''sha256:00'') ''img2'' True True]
       (fst (AddDigest (\<lambda>_. True) (CanonicalRef ex_repo ''sha256:00'') ''img1'' False True
         \<lparr>rs_repos = [], rs_cache = [], rs_file = Saved []\<rparr>))) = Inr ''img1''"
proof -
  let ?d = "CanonicalRef ex_repo ''sha256:00''"
  let ?st0 = "\<lparr>rs_repos = [], rs_cache = [], rs_file = Saved []\<rparr> :: ref_store"
  have ok: "op_ok ex_valid (OpAddDigest ?d i f w)" for i f w by (simp add: op_ok_def ex_valid_def)
  have inv: "ref_inv ex_valid (fst (AddDigest (\<lambda>_. True) ?d ''img1'' False True ?st0))"
    using ref_step_abs [OF ex_ref_laws ref_inv_empty ok] by simp
  have v: "ex_valid ?d" by (simp add: ex_valid_def)
  have g: "ref_get (\<lambda>_. True) ?d (fst (AddDigest (\<lambda>_. True) ?d ''img1'' False True ?st0)) = Inr ''img1''"
    by (simp add: AddDigest_def addReference_def favorDigest_def Let_def gm_list_def ref_save_def
        cache_put_def ref_get_def)
  show ?thesis
    by (rule digest_reference_immutable [OF ex_ref_laws inv _ v g]) (simp_all add: ok)
qed

end
