(* ===== verification/LayerStore.thy ===== *)
theory LayerStore
  imports GoPrelude
begin

text \<open>
  The layer store of layer/layer_store.go, ro_layer.go and mounted_layer.go: read-only
  layers shared by images and containers, kept alive by reference counts.

  A \<^verbatim>\<open>*roLayer\<close> is an index into \<open>ls_heap\<close>, so that two objects with one chain identifier
  stay apart; a new object goes to the end of the list. A client's reference is the fresh
  number it was created with. The metadata store, the graph driver, the digest function and
  the tar-split package are records of functions; every call of the driver or the metadata
  store returns whether it succeeded. The loops along the chain of parents are partial
  functions, so that not returning is \<^const>\<open>None\<close>.
\<close>

section \<open>Data\<close>

record descriptor =
  desc_Digest :: string
  desc_MediaType :: string
  desc_Size :: int

record rolayer =
  rl_chainID :: string
  rl_diffID :: string
  rl_parent :: "nat option"
  rl_cacheID :: string
  rl_size :: int
  rl_descriptor :: descriptor
  rl_count :: int
  rl_refs :: "nat goset"

record mlayer =
  ml_name :: string
  ml_mountID :: string
  ml_initID :: string
  ml_parent :: "nat option"
  ml_refs :: "nat goset"

record ('m, 'd) layerstore =
  ls_store :: 'm
  ls_driver :: 'd
  ls_heap :: "rolayer list"
  ls_layerMap :: "(string, nat) gomap"
  ls_mounts :: "(string, mlayer) gomap"
  ls_fresh :: nat

text \<open>What \<^verbatim>\<open>Get\<close> and \<^verbatim>\<open>Register\<close> return, and what \<^verbatim>\<open>Map\<close> lists.\<close>

datatype layer_ref = CacheRef nat nat | RawLayer nat

fun ref_layer :: "layer_ref \<Rightarrow> nat" where
  "ref_layer (CacheRef r a) = a"
| "ref_layer (RawLayer a) = a"

datatype rw_ref = RWRef nat string

record layer_metadata =
  lm_ChainID :: string
  lm_DiffID :: string
  lm_Size :: int
  lm_DiffSize :: int

datatype layer_error =
    ErrLayerDoesNotExist
  | ErrLayerNotRetained
  | ErrMountDoesNotExist
  | ErrMountNameConflict
  | ErrMaxDepthExceeded
  | DriverFailure
  | StoreFailure
  | TarFailure
  | InitFailure
  | NotAParent string
  | LayerPanic string

section \<open>Interfaces of the metadata store and the graph driver\<close>

record ('m, 'x) meta_ops =
  mo_start :: "'m \<Rightarrow> 'm \<times> 'x option"
  mo_set_size :: "int \<Rightarrow> 'x \<Rightarrow> 'x \<times> bool"
  mo_set_parent :: "string \<Rightarrow> 'x \<Rightarrow> 'x \<times> bool"
  mo_set_diff :: "string \<Rightarrow> 'x \<Rightarrow> 'x \<times> bool"
  mo_set_cache :: "string \<Rightarrow> 'x \<Rightarrow> 'x \<times> bool"
  mo_set_desc :: "descriptor \<Rightarrow> 'x \<Rightarrow> 'x \<times> bool"
  mo_tarsplit :: "string \<Rightarrow> 'x \<Rightarrow> 'x \<times> bool"
  mo_commit :: "'x \<Rightarrow> string \<Rightarrow> 'm \<Rightarrow> 'm \<times> bool"
  mo_cancel :: "'x \<Rightarrow> 'm \<Rightarrow> 'm \<times> bool"
  mo_size :: "'m \<Rightarrow> string \<Rightarrow> int option"
  mo_parent :: "'m \<Rightarrow> string \<Rightarrow> string option"
  mo_diff :: "'m \<Rightarrow> string \<Rightarrow> string option"
  mo_cache :: "'m \<Rightarrow> string \<Rightarrow> string option"
  mo_desc :: "'m \<Rightarrow> string \<Rightarrow> descriptor option"
  mo_tarsplit_read :: "'m \<Rightarrow> string \<Rightarrow> string option"
  mo_set_mountid :: "string \<Rightarrow> string \<Rightarrow> 'm \<Rightarrow> 'm \<times> bool"
  mo_set_initid :: "string \<Rightarrow> string \<Rightarrow> 'm \<Rightarrow> 'm \<times> bool"
  mo_set_mountparent :: "string \<Rightarrow> string \<Rightarrow> 'm \<Rightarrow> 'm \<times> bool"
  mo_mountid :: "'m \<Rightarrow> string \<Rightarrow> string option"
  mo_initid :: "'m \<Rightarrow> string \<Rightarrow> string option"
  mo_mountparent :: "'m \<Rightarrow> string \<Rightarrow> string option"
  mo_list :: "'m \<Rightarrow> (string list \<times> string list) option"
  mo_remove :: "string \<Rightarrow> 'm \<Rightarrow> 'm \<times> bool"
  mo_remove_mount :: "string \<Rightarrow> 'm \<Rightarrow> 'm \<times> bool"

record 'd driver_ops =
  do_create :: "string \<Rightarrow> string \<Rightarrow> 'd \<Rightarrow> 'd \<times> bool"
  do_create_rw :: "string \<Rightarrow> string \<Rightarrow> string \<Rightarrow> (string \<times> string) list \<Rightarrow> 'd \<Rightarrow> 'd \<times> bool"
  do_apply :: "string \<Rightarrow> string \<Rightarrow> string \<Rightarrow> 'd \<Rightarrow> 'd \<times> int option"
  do_remove :: "string \<Rightarrow> 'd \<Rightarrow> 'd \<times> bool"
  do_get :: "string \<Rightarrow> string \<Rightarrow> 'd \<Rightarrow> 'd \<times> string option"
  do_put :: "string \<Rightarrow> 'd \<Rightarrow> 'd \<times> bool"
  do_diff :: "string \<Rightarrow> string \<Rightarrow> 'd \<Rightarrow> string option"
  do_files :: "string \<Rightarrow> 'd \<Rightarrow> string option"

text \<open>
  \<open>lo_digest\<close> is the canonical digest of a byte string, \<open>lo_asm\<close> the metadata that tar-split
  records of a tar stream (\<^const>\<open>None\<close> when it cannot read the stream), \<open>lo_unasm\<close> the
  stream it rebuilds from the files of a layer and that metadata.
\<close>

record ('m, 'x, 'd) layer_ops =
  lo_meta :: "('m, 'x) meta_ops"
  lo_drv :: "'d driver_ops"
  lo_digest :: "string \<Rightarrow> string"
  lo_asm :: "string \<Rightarrow> string option"
  lo_unasm :: "string \<Rightarrow> string \<Rightarrow> string option"
  lo_useTarSplit :: bool

record 'd rw_opts =
  ro_MountLabel :: string
  ro_InitFunc :: "(string \<Rightarrow> 'd \<Rightarrow> 'd \<times> bool) option"
  ro_StorageOpt :: "(string \<times> string) list"

section \<open>Chain identifiers\<close>

fun createChainIDFromParent :: "(string \<Rightarrow> string) \<Rightarrow> string \<Rightarrow> string list \<Rightarrow> string" where
  "createChainIDFromParent H parent [] = parent"
| "createChainIDFromParent H parent (d # ds) =
     (if parent = '''' then createChainIDFromParent H d ds
      else createChainIDFromParent H (H (parent @ '' '' @ d)) ds)"

definition CreateChainID :: "(string \<Rightarrow> string) \<Rightarrow> string list \<Rightarrow> string" where
  "CreateChainID H dgsts = createChainIDFromParent H '''' dgsts"

section \<open>Read-only layers\<close>

definition obj :: "('m, 'd) layerstore \<Rightarrow> nat \<Rightarrow> rolayer" where
  "obj ls a = ls_heap ls ! a"

definition upd :: "nat \<Rightarrow> (rolayer \<Rightarrow> rolayer) \<Rightarrow> ('m, 'd) layerstore \<Rightarrow> ('m, 'd) layerstore" where
  "upd a f ls = ls\<lparr>ls_heap := (ls_heap ls)[a := f (obj ls a)]\<rparr>"

definition alloc :: "rolayer \<Rightarrow> ('m, 'd) layerstore \<Rightarrow> ('m, 'd) layerstore \<times> nat" where
  "alloc l ls = (ls\<lparr>ls_heap := ls_heap ls @ [l]\<rparr>, length (ls_heap ls))"

definition add_count :: "int \<Rightarrow> nat \<Rightarrow> ('m, 'd) layerstore \<Rightarrow> ('m, 'd) layerstore" where
  "add_count n a ls = upd a (\<lambda>l. l\<lparr>rl_count := rl_count l + n\<rparr>) ls"

definition getReference :: "nat \<Rightarrow> ('m, 'd) layerstore \<Rightarrow> ('m, 'd) layerstore \<times> layer_ref" where
  "getReference a ls =
     (let r = ls_fresh ls
      in (upd a (\<lambda>l. l\<lparr>rl_refs := gs_add r (rl_refs l)\<rparr>) (ls\<lparr>ls_fresh := Suc r\<rparr>), CacheRef r a))"

definition hasReference :: "nat \<Rightarrow> layer_ref \<Rightarrow> ('m, 'd) layerstore \<Rightarrow> bool" where
  "hasReference a ref ls =
     (case ref of CacheRef r _ \<Rightarrow> r \<in> set (rl_refs (obj ls a)) | RawLayer _ \<Rightarrow> False)"

definition hasReferences :: "nat \<Rightarrow> ('m, 'd) layerstore \<Rightarrow> bool" where
  "hasReferences a ls = (length (rl_refs (obj ls a)) > 0)"

definition deleteReference :: "nat \<Rightarrow> layer_ref \<Rightarrow> ('m, 'd) layerstore \<Rightarrow> ('m, 'd) layerstore" where
  "deleteReference a ref ls =
     (case ref of
        CacheRef r _ \<Rightarrow> upd a (\<lambda>l. l\<lparr>rl_refs := gs_del r (rl_refs l)\<rparr>) ls
      | RawLayer _ \<Rightarrow> ls)"

partial_function (option) layer_depth :: "('m, 'd) layerstore \<Rightarrow> nat \<Rightarrow> nat option" where
  "layer_depth ls a =
     (case rl_parent (obj ls a) of
        None \<Rightarrow> Some 1
      | Some p \<Rightarrow> Option.bind (layer_depth ls p) (\<lambda>d. Some (d + 1)))"

partial_function (option) layer_Size :: "('m, 'd) layerstore \<Rightarrow> nat \<Rightarrow> int option" where
  "layer_Size ls a =
     (case rl_parent (obj ls a) of
        None \<Rightarrow> Some (rl_size (obj ls a))
      | Some p \<Rightarrow> Option.bind (layer_Size ls p) (\<lambda>s. Some (s + rl_size (obj ls a))))"

definition storeLayer ::
  "('m, 'x, 'd) layer_ops \<Rightarrow> rolayer \<Rightarrow> string option \<Rightarrow> 'x \<Rightarrow> 'x \<times> bool" where
  "storeLayer K l parentChain tx =
     (let M = lo_meta K;
          (tx, ok) = mo_set_diff M (rl_diffID l) tx
      in if \<not> ok then (tx, False) else
     (let (tx, ok) = mo_set_size M (rl_size l) tx
      in if \<not> ok then (tx, False) else
     (let (tx, ok) = mo_set_cache M (rl_cacheID l) tx
      in if \<not> ok then (tx, False) else
     (let (tx, ok) = (if desc_Digest (rl_descriptor l) \<noteq> '''' then mo_set_desc M (rl_descriptor l) tx else (tx, True))
      in if \<not> ok then (tx, False) else
     (case parentChain of None \<Rightarrow> (tx, True) | Some c \<Rightarrow> mo_set_parent M c tx)))))"

section \<open>Getting and releasing layers\<close>

definition maxLayerDepth :: nat where
  "maxLayerDepth = 125"

definition getWithoutLock :: "string \<Rightarrow> ('m, 'd) layerstore \<Rightarrow> ('m, 'd) layerstore \<times> nat option" where
  "getWithoutLock layer ls =
     (case gm_get (ls_layerMap ls) layer of
        None \<Rightarrow> (ls, None)
      | Some a \<Rightarrow> (add_count 1 a ls, Some a))"

definition ls_Get :: "string \<Rightarrow> ('m, 'd) layerstore \<Rightarrow> ('m, 'd) layerstore \<times> (layer_error + layer_ref)" where
  "ls_Get l ls =
     (case getWithoutLock l ls of
        (ls1, None) \<Rightarrow> (ls1, Inl ErrLayerDoesNotExist)
      | (ls1, Some a) \<Rightarrow> (case getReference a ls1 of (ls2, r) \<Rightarrow> (ls2, Inr r)))"

definition ls_Map :: "('m, 'd) layerstore \<Rightarrow> (string, layer_ref) gomap" where
  "ls_Map ls = fold (\<lambda>(k, a). gm_set k (RawLayer a)) (ls_layerMap ls) []"

text \<open>\<open>deleteLayer\<close> returns the metadata of the deleted layer.\<close>

definition deleteLayer ::
  "('m, 'x, 'd) layer_ops \<Rightarrow> nat \<Rightarrow> ('m, 'd) layerstore
     \<Rightarrow> (('m, 'd) layerstore \<times> (layer_error + layer_metadata)) option" where
  "deleteLayer K a ls =
     (let l = obj ls a; (d, ok) = do_remove (lo_drv K) (rl_cacheID l) (ls_driver ls);
          ls1 = ls\<lparr>ls_driver := d\<rparr>
      in if \<not> ok then Some (ls1, Inl DriverFailure)
         else
          (let (m, ok) = mo_remove (lo_meta K) (rl_chainID l) (ls_store ls1);
               ls2 = ls1\<lparr>ls_store := m\<rparr>
           in if \<not> ok then Some (ls2, Inl StoreFailure)
              else Option.bind (layer_Size ls2 a)
                (\<lambda>s. Some (ls2, Inr \<lparr>lm_ChainID = rl_chainID l, lm_DiffID = rl_diffID l,
                                    lm_Size = s, lm_DiffSize = rl_size l\<rparr>))))"

text \<open>The loop of \<^verbatim>\<open>releaseLayer\<close>, with its local variables \<open>depth\<close> and \<open>removed\<close>.\<close>

partial_function (option) release_loop ::
  "('m, 'x, 'd) layer_ops \<Rightarrow> nat \<Rightarrow> layer_metadata list \<Rightarrow> nat \<Rightarrow> ('m, 'd) layerstore
     \<Rightarrow> (('m, 'd) layerstore \<times> (layer_error + layer_metadata list)) option" where
  "release_loop K depth removed a ls =
     (if rl_count (obj ls a) = 0 then Some (ls, Inl (LayerPanic ''layer not retained''))
      else
       (let ls1 = add_count (-1) a ls in
        if rl_count (obj ls1 a) \<noteq> 0 then Some (ls1, Inr removed)
        else if length removed = 0 \<and> depth > 0
          then Some (ls1, Inl (LayerPanic ''cannot remove layer with child''))
        else if hasReferences a ls1
          then Some (ls1, Inl (LayerPanic ''cannot delete referenced layer''))
        else
          Option.bind (deleteLayer K a ls1) (\<lambda>(ls2, res).
            case res of
              Inl e \<Rightarrow> Some (ls2, Inl e)
            | Inr metadata \<Rightarrow>
                (let ls3 = ls2\<lparr>ls_layerMap := gm_del (rl_chainID (obj ls2 a)) (ls_layerMap ls2)\<rparr>;
                     removed1 = removed @ [metadata]
                 in (case rl_parent (obj ls3 a) of
                       None \<Rightarrow> Some (ls3, Inr removed1)
                     | Some p \<Rightarrow> release_loop K (depth + 1) removed1 p ls3)))))"

definition releaseLayer ::
  "('m, 'x, 'd) layer_ops \<Rightarrow> nat \<Rightarrow> ('m, 'd) layerstore
     \<Rightarrow> (('m, 'd) layerstore \<times> (layer_error + layer_metadata list)) option" where
  "releaseLayer K a ls = release_loop K 0 [] a ls"

definition ls_Release ::
  "('m, 'x, 'd) layer_ops \<Rightarrow> layer_ref \<Rightarrow> ('m, 'd) layerstore
     \<Rightarrow> (('m, 'd) layerstore \<times> (layer_error + layer_metadata list)) option" where
  "ls_Release K l ls =
     (case gm_get (ls_layerMap ls) (rl_chainID (obj ls (ref_layer l))) of
        None \<Rightarrow> Some (ls, Inr [])
      | Some a \<Rightarrow>
          if \<not> hasReference a l ls then Some (ls, Inl ErrLayerNotRetained)
          else releaseLayer K a (deleteReference a l ls))"

text \<open>
  The registrations release a parent in a deferred function that drops what \<^verbatim>\<open>releaseLayer\<close>
  returns: its metadata and its error, but not a panic, which goes on.
\<close>

fun after_release :: "layer_error + layer_metadata list \<Rightarrow> layer_error + 'a \<Rightarrow> layer_error + 'a" where
  "after_release (Inl (LayerPanic s)) res = Inl (LayerPanic s)"
| "after_release _ res = res"

section \<open>Registering a layer\<close>

text \<open>
  \<^verbatim>\<open>registerWithDescriptor\<close> in the three parts between which it holds no lock: taking the
  parent, building the new layer, and committing it under the lock. Only the first and the
  last touch the shared maps; other operations run in between.
\<close>

definition register_parent ::
  "('m, 'x, 'd) layer_ops \<Rightarrow> string \<Rightarrow> ('m, 'd) layerstore
     \<Rightarrow> (('m, 'd) layerstore \<times> (layer_error + nat option)) option" where
  "register_parent K parent ls =
     (if parent = '''' then Some (ls, Inr None)
      else (case getWithoutLock parent ls of
        (ls1, None) \<Rightarrow> Some (ls1, Inl ErrLayerDoesNotExist)
      | (ls1, Some p) \<Rightarrow>
          Option.bind (layer_depth ls1 p) (\<lambda>d.
            if d \<ge> maxLayerDepth
            then Option.bind (releaseLayer K p ls1) (\<lambda>(ls2, r). Some (ls2, after_release r (Inl ErrMaxDepthExceeded)))
            else Some (ls1, Inr (Some p)))))"

definition release_parent ::
  "('m, 'x, 'd) layer_ops \<Rightarrow> nat option \<Rightarrow> layer_error \<Rightarrow> ('m, 'd) layerstore
     \<Rightarrow> (('m, 'd) layerstore \<times> (layer_error + 'a)) option" where
  "release_parent K p e ls =
     (case p of
        None \<Rightarrow> Some (ls, Inl e)
      | Some a \<Rightarrow> Option.bind (releaseLayer K a ls) (\<lambda>(ls1, r). Some (ls1, after_release r (Inl e))))"

text \<open>\<^verbatim>\<open>applyTar\<close>: the size and the digest of the stream that was unpacked.\<close>

definition applyTar ::
  "('m, 'x, 'd) layer_ops \<Rightarrow> string \<Rightarrow> string \<Rightarrow> string \<Rightarrow> 'x \<Rightarrow> ('m, 'd) layerstore
     \<Rightarrow> ('m, 'd) layerstore \<times> 'x \<times> (layer_error + int \<times> string)" where
  "applyTar K ts parent cacheID tx ls =
     (let (tx1, asm) =
        (if lo_useTarSplit K
         then (case lo_asm K ts of
                 None \<Rightarrow> (tx, False)
               | Some packed \<Rightarrow> mo_tarsplit (lo_meta K) packed tx)
         else (tx, True))
      in if \<not> asm then (ls, tx1, Inl TarFailure)
         else (case do_apply (lo_drv K) cacheID parent ts (ls_driver ls) of
                 (d, None) \<Rightarrow> (ls\<lparr>ls_driver := d\<rparr>, tx1, Inl DriverFailure)
               | (d, Some sz) \<Rightarrow> (ls\<lparr>ls_driver := d\<rparr>, tx1, Inr (sz, lo_digest K ts))))"

text \<open>The cleanup that runs when the registration ends in an error, or finds the layer existing.\<close>

definition register_cleanup ::
  "('m, 'x, 'd) layer_ops \<Rightarrow> string \<Rightarrow> 'x \<Rightarrow> ('m, 'd) layerstore \<Rightarrow> ('m, 'd) layerstore" where
  "register_cleanup K cacheID tx ls =
     (let ls1 = ls\<lparr>ls_driver := fst (do_remove (lo_drv K) cacheID (ls_driver ls))\<rparr>
      in ls1\<lparr>ls_store := fst (mo_cancel (lo_meta K) tx (ls_store ls1))\<rparr>)"

definition register_build ::
  "('m, 'x, 'd) layer_ops \<Rightarrow> string \<Rightarrow> string \<Rightarrow> nat option \<Rightarrow> descriptor \<Rightarrow> ('m, 'd) layerstore
     \<Rightarrow> (('m, 'd) layerstore \<times> (layer_error + rolayer \<times> 'x)) option" where
  "register_build K ts cacheID p desc ls =
     (let pid = (case p of None \<Rightarrow> '''' | Some a \<Rightarrow> rl_cacheID (obj ls a));
          pchain = (case p of None \<Rightarrow> None | Some a \<Rightarrow> Some (rl_chainID (obj ls a)));
          (d, ok) = do_create (lo_drv K) cacheID pid (ls_driver ls);
          ls1 = ls\<lparr>ls_driver := d\<rparr>
      in if \<not> ok then release_parent K p DriverFailure ls1
         else (case mo_start (lo_meta K) (ls_store ls1) of
           (m, None) \<Rightarrow> release_parent K p StoreFailure (ls1\<lparr>ls_store := m\<rparr>)
         | (m, Some tx) \<Rightarrow>
             (let ls2 = ls1\<lparr>ls_store := m\<rparr> in
              (case applyTar K ts pid cacheID tx ls2 of
                 (ls3, tx1, Inl e) \<Rightarrow> release_parent K p e (register_cleanup K cacheID tx1 ls3)
               | (ls3, tx1, Inr (sz, diffID)) \<Rightarrow>
                   (let chain = (case pchain of
                          None \<Rightarrow> diffID
                        | Some c \<Rightarrow> createChainIDFromParent (lo_digest K) c [diffID]);
                        l = \<lparr>rl_chainID = chain, rl_diffID = diffID, rl_parent = p, rl_cacheID = cacheID,
                             rl_size = sz, rl_descriptor = desc, rl_count = 1, rl_refs = []\<rparr>;
                        (tx2, ok) = storeLayer K l pchain tx1
                    in if \<not> ok then release_parent K p StoreFailure (register_cleanup K cacheID tx2 ls3)
                       else Some (ls3, Inr (l, tx2)))))))"

definition register_commit ::
  "('m, 'x, 'd) layer_ops \<Rightarrow> rolayer \<Rightarrow> 'x \<Rightarrow> ('m, 'd) layerstore
     \<Rightarrow> (('m, 'd) layerstore \<times> (layer_error + layer_ref)) option" where
  "register_commit K l tx ls =
     (case getWithoutLock (rl_chainID l) ls of
        (ls1, Some existing) \<Rightarrow>
          (case getReference existing ls1 of (ls2, ref) \<Rightarrow>
             (case rl_parent l of
                None \<Rightarrow> Some (register_cleanup K (rl_cacheID l) tx ls2, Inr ref)
              | Some p \<Rightarrow>
                  Option.bind (releaseLayer K p (register_cleanup K (rl_cacheID l) tx ls2))
                    (\<lambda>(ls3, r). Some (ls3, after_release r (Inr ref)))))
      | (ls1, None) \<Rightarrow>
          (case mo_commit (lo_meta K) tx (rl_chainID l) (ls_store ls1) of
             (m, False) \<Rightarrow>
               release_parent K (rl_parent l) StoreFailure
                 (register_cleanup K (rl_cacheID l) tx (ls1\<lparr>ls_store := m\<rparr>))
           | (m, True) \<Rightarrow>
               (case alloc l (ls1\<lparr>ls_store := m\<rparr>) of (ls2, a) \<Rightarrow>
                  (case getReference a (ls2\<lparr>ls_layerMap := gm_set (rl_chainID l) a (ls_layerMap ls2)\<rparr>) of
                     (ls3, ref) \<Rightarrow> Some (ls3, Inr ref)))))"

definition registerWithDescriptor ::
  "('m, 'x, 'd) layer_ops \<Rightarrow> string \<Rightarrow> string \<Rightarrow> string \<Rightarrow> descriptor \<Rightarrow> ('m, 'd) layerstore
     \<Rightarrow> (('m, 'd) layerstore \<times> (layer_error + layer_ref)) option" where
  "registerWithDescriptor K ts parent cacheID desc ls =
     Option.bind (register_parent K parent ls) (\<lambda>(ls1, res).
       case res of
         Inl e \<Rightarrow> Some (ls1, Inl e)
       | Inr p \<Rightarrow>
           Option.bind (register_build K ts cacheID p desc ls1) (\<lambda>(ls2, res2).
             case res2 of
               Inl e \<Rightarrow> Some (ls2, Inl e)
             | Inr (l, tx) \<Rightarrow> register_commit K l tx ls2))"

definition ls_Register ::
  "('m, 'x, 'd) layer_ops \<Rightarrow> string \<Rightarrow> string \<Rightarrow> string \<Rightarrow> ('m, 'd) layerstore
     \<Rightarrow> (('m, 'd) layerstore \<times> (layer_error + layer_ref)) option" where
  "ls_Register K ts parent cacheID ls =
     registerWithDescriptor K ts parent cacheID \<lparr>desc_Digest = '''', desc_MediaType = '''', desc_Size = 0\<rparr> ls"

section \<open>Read-write layers\<close>

definition rw_getReference :: "string \<Rightarrow> mlayer \<Rightarrow> ('m, 'd) layerstore \<Rightarrow> ('m, 'd) layerstore \<times> rw_ref" where
  "rw_getReference name m ls =
     (let r = ls_fresh ls
      in (ls\<lparr>ls_fresh := Suc r,
             ls_mounts := gm_set name (m\<lparr>ml_refs := gs_add r (ml_refs m)\<rparr>) (ls_mounts ls)\<rparr>,
          RWRef r name))"

definition initMount ::
  "('m, 'x, 'd) layer_ops \<Rightarrow> string \<Rightarrow> string \<Rightarrow> string \<Rightarrow> (string \<Rightarrow> 'd \<Rightarrow> 'd \<times> bool)
     \<Rightarrow> (string \<times> string) list \<Rightarrow> ('m, 'd) layerstore \<Rightarrow> ('m, 'd) layerstore \<times> (layer_error + string)" where
  "initMount K graphID parent mountLabel initFunc storageOpt ls =
     (let initID = graphID @ ''-init'';
          (d, ok) = do_create_rw (lo_drv K) initID parent mountLabel storageOpt (ls_driver ls)
      in if \<not> ok then (ls\<lparr>ls_driver := d\<rparr>, Inl DriverFailure)
         else (case do_get (lo_drv K) initID '''' d of
           (d, None) \<Rightarrow> (ls\<lparr>ls_driver := d\<rparr>, Inl DriverFailure)
         | (d, Some path) \<Rightarrow>
             (case initFunc path d of
                (d, False) \<Rightarrow> (ls\<lparr>ls_driver := fst (do_put (lo_drv K) initID d)\<rparr>, Inl InitFailure)
              | (d, True) \<Rightarrow>
                  (case do_put (lo_drv K) initID d of
                     (d, False) \<Rightarrow> (ls\<lparr>ls_driver := d\<rparr>, Inl DriverFailure)
                   | (d, True) \<Rightarrow> (ls\<lparr>ls_driver := d\<rparr>, Inr initID)))))"

definition saveMount ::
  "('m, 'x, 'd) layer_ops \<Rightarrow> mlayer \<Rightarrow> ('m, 'd) layerstore \<Rightarrow> ('m, 'd) layerstore \<times> bool" where
  "saveMount K m ls =
     (let M = lo_meta K; (s, ok) = mo_set_mountid M (ml_name m) (ml_mountID m) (ls_store ls)
      in if \<not> ok then (ls\<lparr>ls_store := s\<rparr>, False) else
     (let (s, ok) = (if ml_initID m \<noteq> '''' then mo_set_initid M (ml_name m) (ml_initID m) s else (s, True))
      in if \<not> ok then (ls\<lparr>ls_store := s\<rparr>, False) else
     (let (s, ok) = (case ml_parent m of
            None \<Rightarrow> (s, True)
          | Some a \<Rightarrow> mo_set_mountparent M (ml_name m) (rl_chainID (obj ls a)) s)
      in if \<not> ok then (ls\<lparr>ls_store := s\<rparr>, False)
         else (ls\<lparr>ls_store := s, ls_mounts := gm_set (ml_name m) m (ls_mounts ls)\<rparr>, True))))"

text \<open>The mount lock is held throughout; the layer lock only while the parent is taken.\<close>

definition create_rw_parent ::
  "string \<Rightarrow> string \<Rightarrow> ('m, 'd) layerstore \<Rightarrow> ('m, 'd) layerstore \<times> (layer_error + nat option)" where
  "create_rw_parent name parent ls =
     (case gm_get (ls_mounts ls) name of
        Some _ \<Rightarrow> (ls, Inl ErrMountNameConflict)
      | None \<Rightarrow>
          if parent = '''' then (ls, Inr None)
          else (case getWithoutLock parent ls of
                  (ls1, None) \<Rightarrow> (ls1, Inl ErrLayerDoesNotExist)
                | (ls1, Some p) \<Rightarrow> (ls1, Inr (Some p))))"

definition create_rw_build ::
  "('m, 'x, 'd) layer_ops \<Rightarrow> string \<Rightarrow> string \<Rightarrow> nat option \<Rightarrow> 'd rw_opts option \<Rightarrow> ('m, 'd) layerstore
     \<Rightarrow> (('m, 'd) layerstore \<times> (layer_error + rw_ref)) option" where
  "create_rw_build K name mountID p opts ls =
     (let pid = (case p of None \<Rightarrow> '''' | Some a \<Rightarrow> rl_cacheID (obj ls a));
          label = (case opts of None \<Rightarrow> '''' | Some o' \<Rightarrow> ro_MountLabel o');
          stopt = (case opts of None \<Rightarrow> [] | Some o' \<Rightarrow> ro_StorageOpt o');
          init = (case opts of None \<Rightarrow> None | Some o' \<Rightarrow> ro_InitFunc o');
          m = \<lparr>ml_name = name, ml_mountID = mountID, ml_initID = '''', ml_parent = p, ml_refs = []\<rparr>;
          (ls1, ires) = (case init of
             None \<Rightarrow> (ls, Inr (pid, m))
           | Some f \<Rightarrow>
               (case initMount K mountID pid label f stopt ls of
                  (ls', Inl e) \<Rightarrow> (ls', Inl e)
                | (ls', Inr i) \<Rightarrow> (ls', Inr (i, m\<lparr>ml_initID := i\<rparr>))))
      in (case ires of
            Inl e \<Rightarrow> release_parent K p e ls1
          | Inr (pid, m) \<Rightarrow>
              (case do_create_rw (lo_drv K) mountID pid '''' stopt (ls_driver ls1) of
                 (d, False) \<Rightarrow> release_parent K p DriverFailure (ls1\<lparr>ls_driver := d\<rparr>)
               | (d, True) \<Rightarrow>
                   (case saveMount K m (ls1\<lparr>ls_driver := d\<rparr>) of
                      (ls2, False) \<Rightarrow> release_parent K p StoreFailure ls2
                    | (ls2, True) \<Rightarrow>
                        (case rw_getReference name m ls2 of (ls3, r) \<Rightarrow> Some (ls3, Inr r))))))"

definition CreateRWLayer ::
  "('m, 'x, 'd) layer_ops \<Rightarrow> string \<Rightarrow> string \<Rightarrow> string \<Rightarrow> 'd rw_opts option \<Rightarrow> ('m, 'd) layerstore
     \<Rightarrow> (('m, 'd) layerstore \<times> (layer_error + rw_ref)) option" where
  "CreateRWLayer K name parent mountID opts ls =
     (case create_rw_parent name parent ls of
        (ls1, Inl e) \<Rightarrow> Some (ls1, Inl e)
      | (ls1, Inr p) \<Rightarrow> create_rw_build K name mountID p opts ls1)"

definition GetRWLayer :: "string \<Rightarrow> ('m, 'd) layerstore \<Rightarrow> ('m, 'd) layerstore \<times> (layer_error + rw_ref)" where
  "GetRWLayer name ls =
     (case gm_get (ls_mounts ls) name of
        None \<Rightarrow> (ls, Inl ErrMountDoesNotExist)
      | Some m \<Rightarrow> (case rw_getReference name m ls of (ls1, r) \<Rightarrow> (ls1, Inr r)))"

definition GetMountID :: "string \<Rightarrow> ('m, 'd) layerstore \<Rightarrow> layer_error + string" where
  "GetMountID name ls =
     (case gm_get (ls_mounts ls) name of
        None \<Rightarrow> Inl ErrMountDoesNotExist
      | Some m \<Rightarrow> Inr (ml_mountID m))"

text \<open>
  The mount after a failed removal: the reference is taken again. On success the mount is
  gone and its parent loses a holder.
\<close>

definition ReleaseRWLayer ::
  "('m, 'x, 'd) layer_ops \<Rightarrow> rw_ref \<Rightarrow> ('m, 'd) layerstore
     \<Rightarrow> (('m, 'd) layerstore \<times> (layer_error + layer_metadata list)) option" where
  "ReleaseRWLayer K l ls =
     (case l of RWRef r name \<Rightarrow>
      (case gm_get (ls_mounts ls) name of
         None \<Rightarrow> Some (ls, Inr [])
       | Some m \<Rightarrow>
          if r \<notin> set (ml_refs m) then Some (ls, Inl ErrLayerNotRetained)
          else
           (let m1 = m\<lparr>ml_refs := gs_del r (ml_refs m)\<rparr>;
                ls1 = ls\<lparr>ls_mounts := gm_set name m1 (ls_mounts ls)\<rparr>;
                retake = (\<lambda>ls. ls\<lparr>ls_mounts := gm_set name (m1\<lparr>ml_refs := gs_add r (ml_refs m1)\<rparr>) (ls_mounts ls)\<rparr>)
            in if length (ml_refs m1) > 0 then Some (ls1, Inr [])
               else (case do_remove (lo_drv K) (ml_mountID m) (ls_driver ls1) of
                 (d, False) \<Rightarrow> Some (retake (ls1\<lparr>ls_driver := d\<rparr>), Inl DriverFailure)
               | (d, True) \<Rightarrow>
                  (let ls2 = ls1\<lparr>ls_driver := d\<rparr>;
                       (d, ok) = (if ml_initID m \<noteq> '''' then do_remove (lo_drv K) (ml_initID m) d else (d, True));
                       ls3 = ls2\<lparr>ls_driver := d\<rparr>
                   in if \<not> ok then Some (retake ls3, Inl DriverFailure)
                      else (case mo_remove_mount (lo_meta K) name (ls_store ls3) of
                        (s, False) \<Rightarrow> Some (retake (ls3\<lparr>ls_store := s\<rparr>), Inl StoreFailure)
                      | (s, True) \<Rightarrow>
                         (let ls4 = ls3\<lparr>ls_store := s, ls_mounts := gm_del name (ls_mounts ls3)\<rparr>
                          in (case ml_parent m of
                                Some p \<Rightarrow> releaseLayer K p ls4
                              | None \<Rightarrow> Some (ls4, Inr [])))))))))"

section \<open>Reading a layer's contents\<close>

definition assembleTarTo :: "('m, 'x, 'd) layer_ops \<Rightarrow> string \<Rightarrow> string \<Rightarrow> ('m, 'd) layerstore \<Rightarrow> layer_error + string" where
  "assembleTarTo K graphID metadata ls =
     (case do_files (lo_drv K) graphID (ls_driver ls) of
        None \<Rightarrow> Inl DriverFailure
      | Some files \<Rightarrow> (case lo_unasm K files metadata of None \<Rightarrow> Inl TarFailure | Some ts \<Rightarrow> Inr ts))"

definition getTarStream :: "('m, 'x, 'd) layer_ops \<Rightarrow> nat \<Rightarrow> ('m, 'd) layerstore \<Rightarrow> layer_error + string" where
  "getTarStream K a ls =
     (if \<not> lo_useTarSplit K
      then (let pid = (case rl_parent (obj ls a) of None \<Rightarrow> '''' | Some p \<Rightarrow> rl_cacheID (obj ls p))
            in (case do_diff (lo_drv K) (rl_cacheID (obj ls a)) pid (ls_driver ls) of
                  None \<Rightarrow> Inl DriverFailure | Some ts \<Rightarrow> Inr ts))
      else (case mo_tarsplit_read (lo_meta K) (ls_store ls) (rl_chainID (obj ls a)) of
              None \<Rightarrow> Inl StoreFailure
            | Some packed \<Rightarrow> assembleTarTo K (rl_cacheID (obj ls a)) packed ls))"

text \<open>The bytes of a layer: reading to the end fails unless their digest is the layer's.\<close>

definition TarStream :: "('m, 'x, 'd) layer_ops \<Rightarrow> nat \<Rightarrow> ('m, 'd) layerstore \<Rightarrow> layer_error + string" where
  "TarStream K a ls =
     (case getTarStream K a ls of
        Inl e \<Rightarrow> Inl e
      | Inr ts \<Rightarrow> if lo_digest K ts = rl_diffID (obj ls a) then Inr ts else Inl TarFailure)"

text \<open>The walk of \<^verbatim>\<open>TarStreamFrom\<close> over the ancestors of a layer.\<close>

partial_function (option) find_parent_cache :: "string \<Rightarrow> nat option \<Rightarrow> ('m, 'd) layerstore \<Rightarrow> string option" where
  "find_parent_cache parent pl ls =
     (case pl of
        None \<Rightarrow> Some ''''
      | Some a \<Rightarrow>
          if rl_chainID (obj ls a) = parent then Some (rl_cacheID (obj ls a))
          else find_parent_cache parent (rl_parent (obj ls a)) ls)"

definition TarStreamFrom ::
  "('m, 'x, 'd) layer_ops \<Rightarrow> string \<Rightarrow> nat \<Rightarrow> ('m, 'd) layerstore \<Rightarrow> (layer_error + string) option" where
  "TarStreamFrom K parent a ls =
     Option.bind (find_parent_cache parent (rl_parent (obj ls a)) ls) (\<lambda>parentCacheID.
       if parent \<noteq> '''' \<and> parentCacheID = '''' then Some (Inl (NotAParent parent))
       else (case do_diff (lo_drv K) (rl_cacheID (obj ls a)) parentCacheID (ls_driver ls) of
               None \<Rightarrow> Some (Inl DriverFailure)
             | Some ts \<Rightarrow> Some (Inr ts)))"

definition cacheParent :: "mlayer \<Rightarrow> ('m, 'd) layerstore \<Rightarrow> string" where
  "cacheParent m ls =
     (if ml_initID m \<noteq> '''' then ml_initID m
      else (case ml_parent m of Some p \<Rightarrow> rl_cacheID (obj ls p) | None \<Rightarrow> ''''))"

section \<open>Loading the store\<close>

partial_function (option) loadLayer ::
  "('m, 'x, 'd) layer_ops \<Rightarrow> string \<Rightarrow> ('m, 'd) layerstore
     \<Rightarrow> (('m, 'd) layerstore \<times> (layer_error + nat)) option" where
  "loadLayer K layer ls =
     (case gm_get (ls_layerMap ls) layer of
        Some a \<Rightarrow> Some (ls, Inr a)
      | None \<Rightarrow>
         (let M = lo_meta K; s = ls_store ls in
          if mo_diff M s layer = None \<or> mo_size M s layer = None \<or> mo_cache M s layer = None \<or>
             mo_parent M s layer = None \<or> mo_desc M s layer = None
          then Some (ls, Inl StoreFailure)
          else
           (let cl = \<lparr>rl_chainID = layer, rl_diffID = the (mo_diff M s layer), rl_parent = None,
                      rl_cacheID = the (mo_cache M s layer), rl_size = the (mo_size M s layer),
                      rl_descriptor = the (mo_desc M s layer), rl_count = 0, rl_refs = []\<rparr>;
                insert = (\<lambda>cl ls. case alloc cl ls of
                   (ls', a) \<Rightarrow> (ls'\<lparr>ls_layerMap := gm_set layer a (ls_layerMap ls')\<rparr>, Inr a))
            in if the (mo_parent M s layer) = '''' then Some (insert cl ls)
               else Option.bind (loadLayer K (the (mo_parent M s layer)) ls) (\<lambda>(ls1, res).
                 case res of
                   Inl e \<Rightarrow> Some (ls1, Inl e)
                 | Inr p \<Rightarrow> Some (insert (cl\<lparr>rl_parent := Some p\<rparr>) ls1)))))"

definition loadMount ::
  "('m, 'x, 'd) layer_ops \<Rightarrow> string \<Rightarrow> ('m, 'd) layerstore
     \<Rightarrow> (('m, 'd) layerstore \<times> layer_error option) option" where
  "loadMount K mount ls =
     (case gm_get (ls_mounts ls) mount of
        Some _ \<Rightarrow> Some (ls, None)
      | None \<Rightarrow>
         (let M = lo_meta K; s = ls_store ls in
          if mo_mountid M s mount = None \<or> mo_initid M s mount = None \<or> mo_mountparent M s mount = None
          then Some (ls, Some StoreFailure)
          else
           (let ml = \<lparr>ml_name = mount, ml_mountID = the (mo_mountid M s mount),
                      ml_initID = the (mo_initid M s mount), ml_parent = None, ml_refs = []\<rparr>;
                parent = the (mo_mountparent M s mount)
            in if parent = '''' then Some (ls\<lparr>ls_mounts := gm_set mount ml (ls_mounts ls)\<rparr>, None)
               else Option.bind (loadLayer K parent ls) (\<lambda>(ls1, res).
                 case res of
                   Inl e \<Rightarrow> Some (ls1, Some e)
                 | Inr p \<Rightarrow>
                     (let ls2 = add_count 1 p ls1
                      in Some (ls2\<lparr>ls_mounts := gm_set mount (ml\<lparr>ml_parent := Some p\<rparr>) (ls_mounts ls2)\<rparr>, None))))))"

fun load_layers ::
  "('m, 'x, 'd) layer_ops \<Rightarrow> string list \<Rightarrow> ('m, 'd) layerstore \<Rightarrow> ('m, 'd) layerstore option" where
  "load_layers K [] ls = Some ls"
| "load_layers K (i # is) ls =
     (case loadLayer K i ls of
        None \<Rightarrow> None
      | Some (ls1, Inl e) \<Rightarrow> load_layers K is ls1
      | Some (ls1, Inr a) \<Rightarrow>
          load_layers K is (case rl_parent (obj ls1 a) of None \<Rightarrow> ls1 | Some p \<Rightarrow> add_count 1 p ls1))"

fun load_mounts ::
  "('m, 'x, 'd) layer_ops \<Rightarrow> string list \<Rightarrow> ('m, 'd) layerstore \<Rightarrow> ('m, 'd) layerstore option" where
  "load_mounts K [] ls = Some ls"
| "load_mounts K (m # ms) ls =
     (case loadMount K m ls of None \<Rightarrow> None | Some (ls1, _) \<Rightarrow> load_mounts K ms ls1)"

definition NewStoreFromGraphDriver ::
  "('m, 'x, 'd) layer_ops \<Rightarrow> 'm \<Rightarrow> 'd \<Rightarrow> (layer_error + ('m, 'd) layerstore) option" where
  "NewStoreFromGraphDriver K m d =
     (case mo_list (lo_meta K) m of
        None \<Rightarrow> Some (Inl StoreFailure)
      | Some (ids, mounts) \<Rightarrow>
          Option.bind (load_layers K ids \<lparr>ls_store = m, ls_driver = d, ls_heap = [], ls_layerMap = [],
              ls_mounts = [], ls_fresh = 0\<rparr>)
            (\<lambda>ls1. Option.bind (load_mounts K mounts ls1) (\<lambda>ls2. Some (Inr ls2))))"

text \<open>The loops are evaluated by unfolding.\<close>

declare layer_depth.simps [code] layer_Size.simps [code] release_loop.simps [code]
  find_parent_cache.simps [code] loadLayer.simps [code]

end
