(* ===== verification/LayerInv.thy ===== *)
theory LayerInv
  imports LayerStore
begin

text \<open>
  The invariant of the layer store: a layer's count is the number of its client references,
  child layers, mounts and holders in flight, everything that is referred to is in the
  store, and parents are older than their children. Every operation keeps it, returns, and
  never reaches one of the panics of the release loop.
\<close>

section \<open>Structure\<close>

definition live :: "('m, 'd) layerstore \<Rightarrow> nat \<Rightarrow> bool" where
  "live ls a \<longleftrightarrow> gm_get (ls_layerMap ls) (rl_chainID (obj ls a)) = Some a"

definition children :: "('m, 'd) layerstore \<Rightarrow> nat \<Rightarrow> nat" where
  "children ls a = gm_count (\<lambda>b. rl_parent (obj ls b) = Some a) (ls_layerMap ls)"

definition mounts_on :: "('m, 'd) layerstore \<Rightarrow> nat \<Rightarrow> nat" where
  "mounts_on ls a = gm_count (\<lambda>m. ml_parent m = Some a) (ls_mounts ls)"

text \<open>\<open>h a\<close> counts the operations in flight that hold layer \<open>a\<close>.\<close>

definition layer_wf :: "('m, 'd) layerstore \<Rightarrow> bool" where
  "layer_wf ls \<longleftrightarrow> gm_wf (ls_layerMap ls) \<and> gm_wf (ls_mounts ls) \<and>
     (\<forall>k a. gm_get (ls_layerMap ls) k = Some a \<longrightarrow> a < length (ls_heap ls) \<and> rl_chainID (obj ls a) = k) \<and>
     (\<forall>a p. live ls a \<longrightarrow> rl_parent (obj ls a) = Some p \<longrightarrow> p < a \<and> live ls p) \<and>
     (\<forall>n m p. gm_get (ls_mounts ls) n = Some m \<longrightarrow> ml_parent m = Some p \<longrightarrow> live ls p) \<and>
     (\<forall>a. live ls a \<longrightarrow> distinct (rl_refs (obj ls a)) \<and> (\<forall>r \<in> set (rl_refs (obj ls a)). r < ls_fresh ls)) \<and>
     (\<forall>n m. gm_get (ls_mounts ls) n = Some m \<longrightarrow> distinct (ml_refs m) \<and> (\<forall>r \<in> set (ml_refs m). r < ls_fresh ls))"

definition layer_inv :: "('m, 'd) layerstore \<Rightarrow> (nat \<Rightarrow> nat) \<Rightarrow> bool" where
  "layer_inv ls h \<longleftrightarrow> layer_wf ls \<and> (\<forall>a. h a > 0 \<longrightarrow> live ls a) \<and>
     (\<forall>a. live ls a \<longrightarrow> rl_count (obj ls a) =
        int (length (rl_refs (obj ls a)) + children ls a + mounts_on ls a + h a))"

lemma layer_wfD:
  assumes "layer_wf ls"
  shows "gm_wf (ls_layerMap ls)" "gm_wf (ls_mounts ls)"
    and "gm_get (ls_layerMap ls) k = Some a \<Longrightarrow> a < length (ls_heap ls) \<and> rl_chainID (obj ls a) = k"
    and "live ls a \<Longrightarrow> rl_parent (obj ls a) = Some p \<Longrightarrow> p < a \<and> live ls p"
    and "gm_get (ls_mounts ls) n = Some m \<Longrightarrow> ml_parent m = Some p \<Longrightarrow> live ls p"
    and "live ls a \<Longrightarrow> distinct (rl_refs (obj ls a))"
    and "live ls a \<Longrightarrow> r \<in> set (rl_refs (obj ls a)) \<Longrightarrow> r < ls_fresh ls"
    and "gm_get (ls_mounts ls) n = Some m \<Longrightarrow> distinct (ml_refs m)"
    and "gm_get (ls_mounts ls) n = Some m \<Longrightarrow> r \<in> set (ml_refs m) \<Longrightarrow> r < ls_fresh ls"
  using assms unfolding layer_wf_def by blast+

lemma layer_invD:
  assumes "layer_inv ls h"
  shows "layer_wf ls" "h a > 0 \<Longrightarrow> live ls a"
    and "live ls a \<Longrightarrow> rl_count (obj ls a) =
        int (length (rl_refs (obj ls a)) + children ls a + mounts_on ls a + h a)"
  using assms unfolding layer_inv_def by blast+

lemma live_get: "layer_wf ls \<Longrightarrow> gm_get (ls_layerMap ls) k = Some a \<Longrightarrow> live ls a"
  using layer_wfD(3) [of ls k a] by (simp add: live_def)

lemma live_bound: "layer_wf ls \<Longrightarrow> live ls a \<Longrightarrow> a < length (ls_heap ls)"
  using layer_wfD(3) [of ls _ a] by (simp add: live_def)

lemma obj_upd: "obj (upd a f ls) b = (if b = a \<and> a < length (ls_heap ls) then f (obj ls a) else obj ls b)"
  by (cases "a < length (ls_heap ls)") (auto simp: obj_def upd_def list_update_beyond)

lemma upd_frame [simp]:
  "ls_store (upd a f ls) = ls_store ls" "ls_driver (upd a f ls) = ls_driver ls"
  "ls_layerMap (upd a f ls) = ls_layerMap ls" "ls_mounts (upd a f ls) = ls_mounts ls"
  "ls_fresh (upd a f ls) = ls_fresh ls" "length (ls_heap (upd a f ls)) = length (ls_heap ls)"
  by (simp_all add: upd_def)

text \<open>Changes of the driver and of the metadata store do not matter to the invariant.\<close>

lemma obj_frame [simp]:
  "obj (ls\<lparr>ls_driver := d\<rparr>) = obj ls" "obj (ls\<lparr>ls_store := m\<rparr>) = obj ls"
  "obj (ls\<lparr>ls_layerMap := k\<rparr>) = obj ls" "obj (ls\<lparr>ls_mounts := n\<rparr>) = obj ls" "obj (ls\<lparr>ls_fresh := f\<rparr>) = obj ls"
  by (simp_all add: obj_def fun_eq_iff)

lemma live_frame [simp]:
  "live (ls\<lparr>ls_driver := d\<rparr>) a = live ls a" "live (ls\<lparr>ls_store := m\<rparr>) a = live ls a"
  "live (ls\<lparr>ls_mounts := n\<rparr>) a = live ls a" "live (ls\<lparr>ls_fresh := f\<rparr>) a = live ls a"
  by (simp_all add: live_def)

lemma layer_inv_frame [simp]:
  "layer_inv (ls\<lparr>ls_driver := d\<rparr>) h = layer_inv ls h" "layer_inv (ls\<lparr>ls_store := m\<rparr>) h = layer_inv ls h"
  by (simp_all add: layer_inv_def layer_wf_def children_def mounts_on_def)

text \<open>A change of one object that keeps its identity and its parent.\<close>

definition same_shape :: "(rolayer \<Rightarrow> rolayer) \<Rightarrow> bool" where
  "same_shape f \<longleftrightarrow> (\<forall>l. rl_chainID (f l) = rl_chainID l \<and> rl_parent (f l) = rl_parent l)"

lemma upd_shape:
  assumes "same_shape f"
  shows "rl_chainID (obj (upd a f ls) b) = rl_chainID (obj ls b)"
    and "rl_parent (obj (upd a f ls) b) = rl_parent (obj ls b)"
    and "live (upd a f ls) b = live ls b" "children (upd a f ls) b = children ls b"
    and "mounts_on (upd a f ls) b = mounts_on ls b"
  using assms by (auto simp: obj_upd same_shape_def live_def children_def mounts_on_def
      intro!: gm_count_cong)

lemma layer_inv_upd:
  assumes inv: "layer_inv ls h" and f: "same_shape f" and a: "live ls a"
    and refs: "distinct (rl_refs (f (obj ls a)))" "\<And>r. r \<in> set (rl_refs (f (obj ls a))) \<Longrightarrow> r < ls_fresh ls"
    and count: "rl_count (f (obj ls a)) = int (length (rl_refs (f (obj ls a))) + children ls a + mounts_on ls a + h' a)"
    and others: "\<And>b. b \<noteq> a \<Longrightarrow> h' b = h b"
  shows "layer_inv (upd a f ls) h'"
proof -
  note I = layer_invD [OF inv] and W = layer_wfD [OF layer_invD(1) [OF inv]]
  have b: "a < length (ls_heap ls)" by (rule live_bound [OF I(1) a])
  have obj: "obj (upd a f ls) c = (if c = a then f (obj ls a) else obj ls c)" for c
    using b by (simp add: obj_upd)
  note S = upd_shape [OF f, of a ls]
  have wf: "layer_wf (upd a f ls)"
    unfolding layer_wf_def S using W refs by (simp add: obj)
  show ?thesis
    unfolding layer_inv_def
  proof (intro conjI allI impI)
    show "layer_wf (upd a f ls)" by (rule wf)
    fix c
    show "0 < h' c \<Longrightarrow> live (upd a f ls) c" using others [of c] I(2) a by (cases "c = a") (simp_all add: S)
    show "live (upd a f ls) c \<Longrightarrow> rl_count (obj (upd a f ls) c) =
        int (length (rl_refs (obj (upd a f ls) c)) + children (upd a f ls) c + mounts_on (upd a f ls) c + h' c)"
      using count others [of c] I(3) by (cases "c = a") (simp_all add: S obj)
  qed
qed

lemma add_count_inv:
  assumes "layer_inv ls h" "live ls a" "int (h' a) = int (h a) + n" "\<And>b. b \<noteq> a \<Longrightarrow> h' b = h b"
  shows "layer_inv (add_count n a ls) h'"
  unfolding add_count_def
  by (rule layer_inv_upd [OF assms(1)])
     (use assms layer_invD(3) [OF assms(1,2)] layer_wfD(6,7) [OF layer_invD(1) [OF assms(1)] assms(2)]
      in \<open>auto simp: same_shape_def\<close>)

lemma add_count_frame [simp]:
  "ls_store (add_count n a ls) = ls_store ls" "ls_driver (add_count n a ls) = ls_driver ls"
  "ls_layerMap (add_count n a ls) = ls_layerMap ls" "ls_mounts (add_count n a ls) = ls_mounts ls"
  "ls_fresh (add_count n a ls) = ls_fresh ls" "length (ls_heap (add_count n a ls)) = length (ls_heap ls)"
  "rl_refs (obj (add_count n a ls) b) = rl_refs (obj ls b)"
  "rl_chainID (obj (add_count n a ls) b) = rl_chainID (obj ls b)"
  "rl_parent (obj (add_count n a ls) b) = rl_parent (obj ls b)"
  "live (add_count n a ls) b = live ls b"
  by (auto simp: add_count_def obj_upd upd_shape same_shape_def)

section \<open>The walks along the parents return\<close>

lemma layer_Size_total:
  "layer_wf ls \<Longrightarrow> live ls a \<Longrightarrow> \<exists>s. layer_Size ls a = Some s"
proof (induction a rule: less_induct)
  case (less a)
  show ?case
  proof (cases "rl_parent (obj ls a)")
    case None
    then show ?thesis by (subst layer_Size.simps) simp
  next
    case (Some p)
    with layer_wfD(4) [OF less.prems] less.IH [of p] less.prems(1)
    obtain s where "layer_Size ls p = Some s" by blast
    with Some show ?thesis by (subst layer_Size.simps) simp
  qed
qed

lemma layer_depth_total:
  "layer_wf ls \<Longrightarrow> live ls a \<Longrightarrow> \<exists>n. layer_depth ls a = Some n \<and> n > 0"
proof (induction a rule: less_induct)
  case (less a)
  show ?case
  proof (cases "rl_parent (obj ls a)")
    case None
    then show ?thesis by (subst layer_depth.simps) simp
  next
    case (Some p)
    with layer_wfD(4) [OF less.prems] less.IH [of p] less.prems(1)
    obtain s where "layer_depth ls p = Some s" by blast
    with Some show ?thesis by (subst layer_depth.simps) simp
  qed
qed

lemma find_parent_cache_total:
  "layer_wf ls \<Longrightarrow> (\<And>a. pl = Some a \<Longrightarrow> live ls a) \<Longrightarrow> \<exists>c. find_parent_cache parent pl ls = Some c"
proof (induction "case pl of None \<Rightarrow> 0 | Some a \<Rightarrow> Suc a" arbitrary: pl rule: less_induct)
  case less
  show ?case
  proof (cases pl)
    case None
    then show ?thesis by (subst find_parent_cache.simps) simp
  next
    case (Some a)
    then have a: "live ls a" using less.prems(2) by simp
    have "\<exists>c. find_parent_cache parent (rl_parent (obj ls a)) ls = Some c"
      by (rule less.hyps)
         (use layer_wfD(4) [OF less.prems(1) a] Some less.prems(1) in \<open>auto split: option.split\<close>)
    with Some show ?thesis by (subst find_parent_cache.simps) auto
  qed
qed

section \<open>Releasing\<close>

text \<open>Removing a layer without holders turns its hold on the parent into one in flight.\<close>

definition drop_layer :: "nat \<Rightarrow> ('m, 'd) layerstore \<Rightarrow> ('m, 'd) layerstore" where
  "drop_layer a ls = ls\<lparr>ls_layerMap := gm_del (rl_chainID (obj ls a)) (ls_layerMap ls)\<rparr>"

lemma drop_layer_inv:
  assumes inv: "layer_inv ls h" and a: "live ls a" and zero: "rl_count (obj ls a) = 0"
  shows "layer_inv (drop_layer a ls) (case rl_parent (obj ls a) of None \<Rightarrow> h | Some p \<Rightarrow> h(p := Suc (h p)))"
    and "live (drop_layer a ls) b \<longleftrightarrow> b \<noteq> a \<and> live ls b"
    and "rl_refs (obj ls a) = []" "children ls a = 0" "mounts_on ls a = 0" "h a = 0"
proof -
  note I = layer_invD [OF inv] and W = layer_wfD [OF layer_invD(1) [OF inv]]
  let ?d = "drop_layer a ls" and ?k = "rl_chainID (obj ls a)"
  have "length (rl_refs (obj ls a)) + children ls a + mounts_on ls a + h a = 0"
    using I(3) [OF a] zero by (metis of_nat_eq_0_iff)
  then show z: "rl_refs (obj ls a) = []" "children ls a = 0" "mounts_on ls a = 0" "h a = 0" by simp_all
  have obj: "obj ?d = obj ls" by (simp add: drop_layer_def)
  have key: "gm_get (ls_layerMap ls) ?k = Some a" using a by (simp add: live_def)
  show live: "live ?d b \<longleftrightarrow> b \<noteq> a \<and> live ls b" for b
    using key by (auto simp: live_def obj) (auto simp: drop_layer_def split: if_splits)
  have nochild: "rl_parent (obj ls b) \<noteq> Some a" if "live ls b" for b
  proof
    assume "rl_parent (obj ls b) = Some a"
    moreover have "(rl_chainID (obj ls b), b) \<in> set (ls_layerMap ls)" using that by (auto simp: live_def)
    ultimately have "children ls a > 0" by (auto simp: children_def gm_count_pos)
    with z show False by simp
  qed
  have nomount: "ml_parent m \<noteq> Some a" if "gm_get (ls_mounts ls) n = Some m" for n m
  proof
    assume "ml_parent m = Some a"
    with that have "mounts_on ls a > 0" by (auto simp: mounts_on_def gm_count_pos dest: map_of_SomeD)
    with z show False by simp
  qed
  have kids: "children ?d b = children ls b - (if rl_parent (obj ls a) = Some b then 1 else 0)" for b
    unfolding children_def obj drop_layer_def
    using gm_count_del [OF W(1) key, of "\<lambda>c. rl_parent (obj ls c) = Some b"] by simp
  have pos: "children ls b > 0" if "rl_parent (obj ls a) = Some b" for b
    using that key by (auto simp: children_def gm_count_pos dest!: map_of_SomeD)
  have mts: "mounts_on ?d b = mounts_on ls b" for b by (simp add: mounts_on_def drop_layer_def)
  let ?h = "case rl_parent (obj ls a) of None \<Rightarrow> h | Some p \<Rightarrow> h(p := Suc (h p))"
  have wf: "layer_wf ?d"
    unfolding layer_wf_def obj live
  proof (intro conjI allI impI)
    show "gm_wf (ls_layerMap ?d)" "gm_wf (ls_mounts ?d)" using W(1,2) by (simp_all add: drop_layer_def)
    fix k b
    assume "gm_get (ls_layerMap ?d) k = Some b"
    then have "gm_get (ls_layerMap ls) k = Some b" by (simp add: drop_layer_def split: if_splits)
    from W(3) [OF this] show "b < length (ls_heap ?d)" "rl_chainID (obj ls b) = k"
      by (simp_all add: drop_layer_def)
  next
    fix b p assume "b \<noteq> a \<and> live ls b" "rl_parent (obj ls b) = Some p"
    with W(4) [of b p] nochild [of b] show "p < b" "p \<noteq> a" "live ls p" by auto
  next
    fix n m p assume "gm_get (ls_mounts ?d) n = Some m" "ml_parent m = Some p"
    with W(5) [of n m p] nomount [of n m] show "p \<noteq> a" "live ls p" by (auto simp: drop_layer_def)
  next
    fix b assume "b \<noteq> a \<and> live ls b"
    with W(6) [of b] show "distinct (rl_refs (obj ls b))" by blast
  next
    fix b r assume "b \<noteq> a \<and> live ls b"
    with W(7) [of b] show "\<forall>r \<in> set (rl_refs (obj ls b)). r < ls_fresh ?d" by (auto simp: drop_layer_def)
  next
    fix n m assume "gm_get (ls_mounts ?d) n = Some m"
    with W(8,9) [of n m] show "distinct (ml_refs m)" "\<forall>r \<in> set (ml_refs m). r < ls_fresh ?d"
      by (auto simp: drop_layer_def)
  qed
  show "layer_inv ?d ?h"
    unfolding layer_inv_def
  proof (intro conjI allI impI)
    show "layer_wf ?d" by (rule wf)
    fix b
    show "live ?d b" if "0 < ?h b"
    proof (cases "rl_parent (obj ls a) = Some b")
      case True
      with W(4) [OF a] show ?thesis by (auto simp: live)
    next
      case False
      with that have "h b > 0" by (auto split: option.splits if_splits)
      with I(2) z show ?thesis by (auto simp: live)
    qed
    show "rl_count (obj ?d b) = int (length (rl_refs (obj ?d b)) + children ?d b + mounts_on ?d b + ?h b)"
      if "live ?d b"
    proof -
      have "live ls b" using that live by simp
      from I(3) [OF this] pos [of b] show ?thesis
        by (auto simp: obj kids mts split: option.split)
    qed
  qed
qed

text \<open>Objects keep everything but their count, and the layers of \<open>ms\<close> have left the map.\<close>

definition shrinks :: "('m, 'd) layerstore \<Rightarrow> ('m, 'd) layerstore \<Rightarrow> layer_metadata list \<Rightarrow> bool" where
  "shrinks ls ls' ms \<longleftrightarrow> ls_mounts ls' = ls_mounts ls \<and> ls_fresh ls' = ls_fresh ls \<and>
     length (ls_heap ls') = length (ls_heap ls) \<and>
     (\<forall>b. obj ls' b = (obj ls b)\<lparr>rl_count := rl_count (obj ls' b)\<rparr>) \<and>
     (\<forall>k. gm_get (ls_layerMap ls') k =
        (if k \<in> lm_ChainID ` set ms then None else gm_get (ls_layerMap ls) k))"

lemma shrinks_obj:
  assumes "shrinks ls ls' ms"
  shows "rl_chainID (obj ls' b) = rl_chainID (obj ls b)" "rl_parent (obj ls' b) = rl_parent (obj ls b)"
    and "rl_refs (obj ls' b) = rl_refs (obj ls b)" "rl_diffID (obj ls' b) = rl_diffID (obj ls b)"
proof -
  have "obj ls' b = (obj ls b)\<lparr>rl_count := rl_count (obj ls' b)\<rparr>" using assms by (simp add: shrinks_def)
  then show "rl_chainID (obj ls' b) = rl_chainID (obj ls b)" "rl_parent (obj ls' b) = rl_parent (obj ls b)"
    "rl_refs (obj ls' b) = rl_refs (obj ls b)" "rl_diffID (obj ls' b) = rl_diffID (obj ls b)"
    by (metis rolayer.simps(1-8) rolayer.surjective rolayer.update_convs(7))+
qed

lemma shrinks_refl: "shrinks ls ls []"
  by (simp add: shrinks_def)

lemma shrinks_trans:
  assumes "shrinks ls ls1 ms" "shrinks ls1 ls2 ns"
  shows "shrinks ls ls2 (ms @ ns)"
proof -
  have "obj ls2 b = (obj ls b)\<lparr>rl_count := rl_count (obj ls2 b)\<rparr>" for b
  proof -
    have one: "obj ls1 b = (obj ls b)\<lparr>rl_count := rl_count (obj ls1 b)\<rparr>"
      and two: "obj ls2 b = (obj ls1 b)\<lparr>rl_count := rl_count (obj ls2 b)\<rparr>"
      using assms by (simp_all add: shrinks_def)
    have "(obj ls1 b)\<lparr>rl_count := c\<rparr> = (obj ls b)\<lparr>rl_count := c\<rparr>" for c
      by (subst one) simp
    with two show ?thesis by metis
  qed
  moreover have "gm_get (ls_layerMap ls2) k =
      (if k \<in> lm_ChainID ` set (ms @ ns) then None else gm_get (ls_layerMap ls) k)" for k
    using assms by (simp add: shrinks_def image_Un)
  ultimately show ?thesis using assms by (simp add: shrinks_def)
qed

lemma shrinks_count: "shrinks ls (add_count n a ls) []"
  by (auto simp: shrinks_def add_count_def obj_upd)

lemma shrinks_io [simp]:
  "shrinks ls (ls1\<lparr>ls_driver := d\<rparr>) ms = shrinks ls ls1 ms" "shrinks ls (ls1\<lparr>ls_store := m\<rparr>) ms = shrinks ls ls1 ms"
  by (simp_all add: shrinks_def)

lemma shrinksD:
  assumes "shrinks ls ls' ms"
  shows "ls_mounts ls' = ls_mounts ls" "ls_fresh ls' = ls_fresh ls" "length (ls_heap ls') = length (ls_heap ls)"
    and "gm_get (ls_layerMap ls') k = (if k \<in> lm_ChainID ` set ms then None else gm_get (ls_layerMap ls) k)"
  using assms unfolding shrinks_def by blast+

lemma shrinks_live: "shrinks ls ls' ms \<Longrightarrow> live ls' b \<Longrightarrow> live ls b"
  by (simp add: live_def shrinks_obj(1) shrinksD(4) split: if_splits)

text \<open>What \<^verbatim>\<open>deleteLayer\<close> does to a layer of a well-formed store.\<close>

lemma deleteLayer_cases:
  assumes "layer_wf ls" "live ls a"
  obtains (failed) d m e where "deleteLayer K a ls = Some (ls\<lparr>ls_driver := d, ls_store := m\<rparr>, Inl e)"
      "e = DriverFailure \<or> e = StoreFailure"
  | (deleted) d m md where "deleteLayer K a ls = Some (ls\<lparr>ls_driver := d, ls_store := m\<rparr>, Inr md)"
      "lm_ChainID md = rl_chainID (obj ls a)" "lm_DiffID md = rl_diffID (obj ls a)"
      "lm_DiffSize md = rl_size (obj ls a)" "layer_Size (ls\<lparr>ls_driver := d, ls_store := m\<rparr>) a = Some (lm_Size md)"
proof -
  obtain d ok where d: "do_remove (lo_drv K) (rl_cacheID (obj ls a)) (ls_driver ls) = (d, ok)"
    by (cases "do_remove (lo_drv K) (rl_cacheID (obj ls a)) (ls_driver ls)")
  obtain m ok2 where m: "mo_remove (lo_meta K) (rl_chainID (obj ls a)) (ls_store ls) = (m, ok2)"
    by (cases "mo_remove (lo_meta K) (rl_chainID (obj ls a)) (ls_store ls)")
  let ?ls2 = "ls\<lparr>ls_driver := d, ls_store := m\<rparr>"
  have "layer_wf ?ls2" using assms(1) by (simp add: layer_wf_def)
  then obtain s where s: "layer_Size ?ls2 a = Some s" using layer_Size_total [of ?ls2 a] assms(2) by auto
  show ?thesis
  proof (cases ok)
    case False
    then have "deleteLayer K a ls = Some (ls\<lparr>ls_driver := d, ls_store := ls_store ls\<rparr>, Inl DriverFailure)"
      by (simp add: deleteLayer_def d)
    then show ?thesis using failed by blast
  next
    case True
    show ?thesis
    proof (cases ok2)
      case False
      with True have "deleteLayer K a ls = Some (?ls2, Inl StoreFailure)"
        by (simp add: deleteLayer_def d m)
      then show ?thesis using failed by blast
    next
      case T2: True
      with True s have "deleteLayer K a ls = Some (?ls2, Inr \<lparr>lm_ChainID = rl_chainID (obj ls a),
          lm_DiffID = rl_diffID (obj ls a), lm_Size = s, lm_DiffSize = rl_size (obj ls a)\<rparr>)"
        by (simp add: deleteLayer_def d m Let_def)
      then show ?thesis using deleted s by simp
    qed
  qed
qed

text \<open>
  The loop returns, keeps the invariant with one holder less, panics never, and when no
  call fails it removes the layer unless something else holds it, and so on up the chain.
\<close>

definition gone_or_held :: "('m, 'd) layerstore \<Rightarrow> nat \<Rightarrow> bool" where
  "gone_or_held ls b \<longleftrightarrow> \<not> live ls b \<or> rl_count (obj ls b) > 0"

lemma release_loop_ok:
  assumes "layer_inv ls (h(a := Suc (h a)))" "removed \<noteq> [] \<or> depth = 0"
  shows "\<exists>ls' res ms. release_loop K depth removed a ls = Some (ls', res) \<and> layer_inv ls' h \<and> shrinks ls ls' ms \<and>
     (\<forall>b. live ls b \<and> rl_refs (obj ls b) \<noteq> [] \<longrightarrow> live ls' b) \<and>
     (case res of
        Inl e \<Rightarrow> e = DriverFailure \<or> e = StoreFailure
      | Inr r \<Rightarrow> r = removed @ ms \<and> gone_or_held ls' a \<and>
          (\<forall>c b. live ls c \<and> \<not> live ls' c \<and> rl_parent (obj ls c) = Some b \<longrightarrow> gone_or_held ls' b))"
  using assms
proof (induction a arbitrary: ls h removed depth rule: less_induct)
  case (less a)
  note inv = less.prems(1)
  have a: "live ls a" using layer_invD(2) [OF inv, of a] by simp
  have count: "rl_count (obj ls a) > 0" using layer_invD(3) [OF inv a] by simp
  let ?ls1 = "add_count (-1) a ls"
  have inv1: "layer_inv ?ls1 h"
    by (rule add_count_inv [OF inv a]) simp_all
  have sh1: "shrinks ls ?ls1 []" by (rule shrinks_count)
  have a1: "live ?ls1 a" using a by simp
  show ?case
  proof (cases "rl_count (obj ?ls1 a) = 0")
    case False
    have "rl_count (obj ?ls1 a) > 0" using layer_invD(3) [OF inv1 a1] False by linarith
    moreover have "release_loop K depth removed a ls = Some (?ls1, Inr removed)"
      using count False by (subst release_loop.simps) simp
    moreover have "\<forall>b. live ls b \<and> rl_refs (obj ls b) \<noteq> [] \<longrightarrow> live ?ls1 b" by simp
    ultimately show ?thesis using inv1 sh1
      by (intro exI [of _ ?ls1] exI [of _ "Inr removed"] exI [of _ "[]"]) (auto simp: gone_or_held_def)
  next
    case True
    note D = drop_layer_inv [OF inv1 a1 True]
    have norefs: "\<not> hasReferences a ?ls1" using D(3) by (simp add: hasReferences_def)
    have guard: "\<not> (length removed = 0 \<and> depth > 0)" using less.prems(2) by auto
    from layer_invD(1) [OF inv1] a1 show ?thesis
    proof (cases rule: deleteLayer_cases [where K = K])
      case (failed d m e)
      have "release_loop K depth removed a ls = Some (?ls1\<lparr>ls_driver := d, ls_store := m\<rparr>, Inl e)"
        using count True norefs guard failed(1) by (subst release_loop.simps) (auto simp: Let_def)
      with failed(2) inv1 sh1 show ?thesis by (intro exI conjI) (assumption | simp)+
    next
      case (deleted d m md)
      let ?ls2 = "?ls1\<lparr>ls_driver := d, ls_store := m\<rparr>"
      let ?ls3 = "drop_layer a ?ls2"
      have drop: "?ls3 = ?ls2\<lparr>ls_layerMap := gm_del (rl_chainID (obj ?ls2 a)) (ls_layerMap ?ls2)\<rparr>"
        by (simp add: drop_layer_def)
      have loop: "release_loop K depth removed a ls =
          (case rl_parent (obj ls a) of None \<Rightarrow> Some (?ls3, Inr (removed @ [md]))
           | Some p \<Rightarrow> release_loop K (depth + 1) (removed @ [md]) p ?ls3)"
        using count True norefs guard deleted(1)
        by (subst release_loop.simps) (auto simp: Let_def drop split: option.split)
      have inv2: "layer_inv ?ls2 h" using inv1 by simp
      note D2 = drop_layer_inv [OF inv2, of a]
      have a2: "live ?ls2 a" "rl_count (obj ?ls2 a) = 0" using a1 True by simp_all
      have sh3: "shrinks ls ?ls3 [md]"
      proof -
        have "shrinks ?ls2 ?ls3 [md]"
          using deleted(2) by (simp add: shrinks_def drop_layer_def)
        moreover have "shrinks ls ?ls2 []" using sh1 by simp
        ultimately show ?thesis using shrinks_trans by fastforce
      qed
      show ?thesis
      proof (cases "rl_parent (obj ls a)")
        case None
        have "layer_inv ?ls3 h" using D2(1) [OF a2] None by simp
        moreover have "gone_or_held ?ls3 a" using D2(2) [OF a2] by (simp add: gone_or_held_def)
        moreover have "live ls c \<and> \<not> live ?ls3 c \<Longrightarrow> rl_parent (obj ls c) = None" for c
          using D2(2) [OF a2, of c] None by auto
        moreover have "\<forall>b. live ls b \<and> rl_refs (obj ls b) \<noteq> [] \<longrightarrow> live ?ls3 b"
          using D2(2) [OF a2] D(3) by auto
        ultimately show ?thesis using loop None sh3
          by (intro exI [of _ ?ls3] exI [of _ "Inr (removed @ [md])"] exI [of _ "[md]"]) fastforce
      next
        case (Some p)
        have pa: "p < a" using layer_wfD(4) [OF layer_invD(1) [OF inv] a Some] by simp
        have inv3: "layer_inv ?ls3 (h(p := Suc (h p)))" using D2(1) [OF a2] Some by simp
        from less.IH [OF pa inv3, of "removed @ [md]" "depth + 1"] obtain ls' res ms where
          R: "release_loop K (depth + 1) (removed @ [md]) p ?ls3 = Some (ls', res)" "layer_inv ls' h"
             "shrinks ?ls3 ls' ms" "\<forall>b. live ?ls3 b \<and> rl_refs (obj ?ls3 b) \<noteq> [] \<longrightarrow> live ls' b"
          and res: "case res of Inl e \<Rightarrow> e = DriverFailure \<or> e = StoreFailure
             | Inr r \<Rightarrow> r = (removed @ [md]) @ ms \<and> gone_or_held ls' p \<and>
                 (\<forall>c b. live ?ls3 c \<and> \<not> live ls' c \<and> rl_parent (obj ?ls3 c) = Some b \<longrightarrow> gone_or_held ls' b)"
          by auto
        have kept: "\<forall>b. live ls b \<and> rl_refs (obj ls b) \<noteq> [] \<longrightarrow> live ls' b"
        proof (intro allI impI)
          fix b assume b: "live ls b \<and> rl_refs (obj ls b) \<noteq> []"
          with D(3) have "b \<noteq> a" by auto
          with b D2(2) [OF a2, of b] have "live ?ls3 b" by simp
          moreover have "rl_refs (obj ?ls3 b) = rl_refs (obj ls b)" by (rule shrinks_obj(3) [OF sh3])
          ultimately show "live ls' b" using R(4) b by simp
        qed
        have "\<not> live ls' a" using shrinks_live [OF R(3), of a] D2(2) [OF a2] by blast
        then have ga: "gone_or_held ls' a" by (simp add: gone_or_held_def)
        have sh: "shrinks ls ls' ([md] @ ms)" by (rule shrinks_trans [OF sh3 R(3)])
        have chain: "gone_or_held ls' b"
          if "live ls c" "\<not> live ls' c" "rl_parent (obj ls c) = Some b"
            and r: "gone_or_held ls' p"
              "\<forall>c b. live ?ls3 c \<and> \<not> live ls' c \<and> rl_parent (obj ?ls3 c) = Some b \<longrightarrow> gone_or_held ls' b" for c b
        proof (cases "c = a")
          case True
          then show ?thesis using Some that r by simp
        next
          case False
          then have "live ?ls3 c" using D2(2) [OF a2, of c] that(1) by simp
          then show ?thesis using r(2) that(2,3) shrinks_obj(2) [OF sh3] by metis
        qed
        show ?thesis
        proof (cases res)
          case (Inl e)
          with loop Some R(1,2) sh res kept show ?thesis
            by (intro exI [of _ ls'] exI [of _ res] exI [of _ "[md] @ ms"]) auto
        next
          case (Inr r)
          with loop Some R(1,2) sh res ga chain kept show ?thesis
            by (intro exI [of _ ls'] exI [of _ res] exI [of _ "[md] @ ms"]) auto
        qed
      qed
    qed
  qed
qed

section \<open>Operations on read-only layers\<close>

definition hold :: "nat option \<Rightarrow> (nat \<Rightarrow> nat) \<Rightarrow> nat \<Rightarrow> nat" where
  "hold p h = (case p of None \<Rightarrow> h | Some a \<Rightarrow> h(a := Suc (h a)))"

lemma hold_simps [simp]: "hold None h = h" "hold (Some a) h = h(a := Suc (h a))"
  by (simp_all add: hold_def)

lemma hold_live: "layer_inv ls (h(a := Suc (h a))) \<Longrightarrow> live ls a"
  using layer_invD(2) [of ls "h(a := Suc (h a))" a] by simp

lemma releaseLayer_ok:
  assumes "layer_inv ls (h(a := Suc (h a)))"
  obtains ls' res ms where "releaseLayer K a ls = Some (ls', res)" "layer_inv ls' h" "shrinks ls ls' ms"
    "\<And>b. live ls b \<Longrightarrow> rl_refs (obj ls b) \<noteq> [] \<Longrightarrow> live ls' b"
    "case res of
        Inl e \<Rightarrow> e = DriverFailure \<or> e = StoreFailure
      | Inr r \<Rightarrow> r = ms \<and> gone_or_held ls' a \<and>
          (\<forall>c b. live ls c \<and> \<not> live ls' c \<and> rl_parent (obj ls c) = Some b \<longrightarrow> gone_or_held ls' b)"
proof -
  from release_loop_ok [OF assms, of "[]" 0 K] obtain ls' res ms where
    R: "release_loop K 0 [] a ls = Some (ls', res)" "layer_inv ls' h" "shrinks ls ls' ms"
      "\<forall>b. live ls b \<and> rl_refs (obj ls b) \<noteq> [] \<longrightarrow> live ls' b"
    and res: "case res of Inl e \<Rightarrow> e = DriverFailure \<or> e = StoreFailure
      | Inr r \<Rightarrow> r = [] @ ms \<and> gone_or_held ls' a \<and>
          (\<forall>c b. live ls c \<and> \<not> live ls' c \<and> rl_parent (obj ls c) = Some b \<longrightarrow> gone_or_held ls' b)" by blast
  show ?thesis
    by (rule that [of ls' res ms]) (use R res in \<open>simp_all add: releaseLayer_def split: sum.splits\<close>)
qed

lemma after_release_simps [simp]:
  "case r of Inl e \<Rightarrow> e = DriverFailure \<or> e = StoreFailure | Inr x \<Rightarrow> Q x \<Longrightarrow> after_release r res = res"
  by (cases r) auto

lemma after_release_Inr: "after_release r (Inl e) \<noteq> Inr z"
  by (cases "(r, Inl e)" rule: after_release.cases) simp_all

lemma getWithoutLock_inv:
  assumes inv: "layer_inv ls h" and run: "getWithoutLock k ls = (ls', r)"
  shows "layer_inv ls' (hold r h)" "r = None \<Longrightarrow> ls' = ls"
    and "r = Some a \<Longrightarrow> live ls a \<and> rl_chainID (obj ls a) = k \<and> ls' = add_count 1 a ls"
proof -
  show "layer_inv ls' (hold r h)"
  proof (cases "gm_get (ls_layerMap ls) k")
    case (Some a)
    from live_get [OF layer_invD(1) [OF inv] Some] have "live ls a" .
    then have "layer_inv (add_count 1 a ls) (h(a := Suc (h a)))"
      by (intro add_count_inv [OF inv]) simp_all
    moreover have "r = Some a" "ls' = add_count 1 a ls" using run Some by (simp_all add: getWithoutLock_def)
    ultimately show ?thesis by simp
  qed (use inv run in \<open>auto simp: getWithoutLock_def\<close>)
  show "r = None \<Longrightarrow> ls' = ls" using run by (auto simp: getWithoutLock_def split: option.splits)
  show "r = Some a \<Longrightarrow> live ls a \<and> rl_chainID (obj ls a) = k \<and> ls' = add_count 1 a ls"
    using run live_get [OF layer_invD(1) [OF inv]] layer_wfD(3) [OF layer_invD(1) [OF inv]]
    by (auto simp: getWithoutLock_def split: option.splits)
qed

lemma layer_inv_fresh: "layer_inv ls h \<Longrightarrow> f \<ge> ls_fresh ls \<Longrightarrow> layer_inv (ls\<lparr>ls_fresh := f\<rparr>) h"
proof -
  assume inv: "layer_inv ls h" and f: "f \<ge> ls_fresh ls"
  note W = layer_wfD [OF layer_invD(1) [OF inv]]
  have "layer_wf (ls\<lparr>ls_fresh := f\<rparr>)"
    unfolding layer_wf_def
  proof (intro conjI allI impI)
    fix a assume "live (ls\<lparr>ls_fresh := f\<rparr>) a"
    then show "distinct (rl_refs (obj (ls\<lparr>ls_fresh := f\<rparr>) a))"
      "\<forall>r \<in> set (rl_refs (obj (ls\<lparr>ls_fresh := f\<rparr>) a)). r < ls_fresh (ls\<lparr>ls_fresh := f\<rparr>)"
      using W(6,7) [of a] f by (auto intro: less_le_trans)
  next
    fix n m assume "gm_get (ls_mounts (ls\<lparr>ls_fresh := f\<rparr>)) n = Some m"
    then show "distinct (ml_refs m)" "\<forall>r \<in> set (ml_refs m). r < ls_fresh (ls\<lparr>ls_fresh := f\<rparr>)"
      using W(8,9) [of n m] f by (auto intro: less_le_trans)
  next
    fix a p assume "live (ls\<lparr>ls_fresh := f\<rparr>) a" "rl_parent (obj (ls\<lparr>ls_fresh := f\<rparr>) a) = Some p"
    then show "p < a" "live (ls\<lparr>ls_fresh := f\<rparr>) p" using W(4) [of a p] by simp_all
  qed (use W(1,2,3,5) in simp_all)
  then show "layer_inv (ls\<lparr>ls_fresh := f\<rparr>) h"
    using layer_invD(2,3) [OF inv] by (simp add: layer_inv_def children_def mounts_on_def)
qed

lemma getReference_inv:
  assumes inv: "layer_inv ls (h(a := Suc (h a)))"
  shows "layer_inv (fst (getReference a ls)) h"
    and "snd (getReference a ls) = CacheRef (ls_fresh ls) a"
    and "hasReference a (snd (getReference a ls)) (fst (getReference a ls))"
    and "ls_layerMap (fst (getReference a ls)) = ls_layerMap ls"
    and "rl_chainID (obj (fst (getReference a ls)) b) = rl_chainID (obj ls b)"
proof -
  let ?r = "ls_fresh ls" and ?ls = "ls\<lparr>ls_fresh := Suc (ls_fresh ls)\<rparr>"
  let ?f = "\<lambda>l. l\<lparr>rl_refs := gs_add ?r (rl_refs l)\<rparr>"
  have a: "live ls a" by (rule hold_live [OF inv])
  have inv1: "layer_inv ?ls (h(a := Suc (h a)))" by (rule layer_inv_fresh [OF inv]) simp
  note W = layer_wfD [OF layer_invD(1) [OF inv]]
  have new: "?r \<notin> set (rl_refs (obj ls a))" using W(7) [OF a, of ?r] by auto
  have f: "same_shape ?f" by (simp add: same_shape_def)
  have fst: "fst (getReference a ls) = upd a ?f ?ls" by (simp add: getReference_def Let_def)
  show "layer_inv (fst (getReference a ls)) h"
    unfolding fst
  proof (rule layer_inv_upd [OF inv1 f])
    show "live ?ls a" using a by simp
    show "distinct (rl_refs (?f (obj ?ls a)))" using W(6) [OF a] by simp
    show "r \<in> set (rl_refs (?f (obj ?ls a))) \<Longrightarrow> r < ls_fresh ?ls" for r
      using W(7) [OF a] by (auto intro: less_SucI)
    have "length (gs_add ?r (rl_refs (obj ls a))) = Suc (length (rl_refs (obj ls a)))"
      using new by (rule length_gs_add)
    then show "rl_count (?f (obj ?ls a)) =
        int (length (rl_refs (?f (obj ?ls a))) + children ?ls a + mounts_on ?ls a + h a)"
      using layer_invD(3) [OF inv a] by (simp add: children_def mounts_on_def)
    show "b \<noteq> a \<Longrightarrow> h b = (h(a := Suc (h a))) b" for b by simp
  qed
  show "snd (getReference a ls) = CacheRef (ls_fresh ls) a" by (simp add: getReference_def Let_def)
  show "hasReference a (snd (getReference a ls)) (fst (getReference a ls))"
    using live_bound [OF layer_invD(1) [OF inv] a]
    by (simp add: getReference_def Let_def hasReference_def obj_upd)
  show "ls_layerMap (fst (getReference a ls)) = ls_layerMap ls" by (simp add: fst)
  show "rl_chainID (obj (fst (getReference a ls)) b) = rl_chainID (obj ls b)"
    by (simp add: fst obj_upd)
qed

lemma ls_Get_inv:
  assumes inv: "layer_inv ls h"
  shows "layer_inv (fst (ls_Get k ls)) h"
proof -
  obtain ls1 r where R: "getWithoutLock k ls = (ls1, r)" by (cases "getWithoutLock k ls")
  note G = getWithoutLock_inv [OF inv R]
  show ?thesis
  proof (cases r)
    case None
    with R G show ?thesis by (simp add: ls_Get_def)
  next
    case (Some a)
    with G(1) have "layer_inv (fst (getReference a ls1)) h" by (intro getReference_inv(1)) simp
    with R Some show ?thesis by (cases "getReference a ls1") (simp add: ls_Get_def)
  qed
qed

lemma ls_Release_inv:
  assumes inv: "layer_inv ls h"
  obtains (absent) "ls_Release K l ls = Some (ls, Inr [])"
  | (foreign) "ls_Release K l ls = Some (ls, Inl ErrLayerNotRetained)"
  | (released) a ls1 ls' res ms where "gm_get (ls_layerMap ls) (rl_chainID (obj ls (ref_layer l))) = Some a"
      "hasReference a l ls" "ls1 = deleteReference a l ls" "ls_Release K l ls = Some (ls', res)"
      "layer_inv ls' h" "shrinks ls1 ls' ms"
      "\<And>b. live ls1 b \<Longrightarrow> rl_refs (obj ls1 b) \<noteq> [] \<Longrightarrow> live ls' b"
      "case res of
        Inl e \<Rightarrow> e = DriverFailure \<or> e = StoreFailure
      | Inr r \<Rightarrow> r = ms \<and> gone_or_held ls' a \<and>
          (\<forall>c b. live ls1 c \<and> \<not> live ls' c \<and> rl_parent (obj ls1 c) = Some b \<longrightarrow> gone_or_held ls' b)"
proof (cases "gm_get (ls_layerMap ls) (rl_chainID (obj ls (ref_layer l)))")
  case None
  then show ?thesis using absent by (simp add: ls_Release_def)
next
  case (Some a)
  show ?thesis
  proof (cases "hasReference a l ls")
    case False
    with Some show ?thesis using foreign by (simp add: ls_Release_def)
  next
    case True
    then obtain r a' where l: "l = CacheRef r a'" and r: "r \<in> set (rl_refs (obj ls a))"
      by (auto simp: hasReference_def split: layer_ref.splits)
    let ?f = "\<lambda>l. l\<lparr>rl_refs := gs_del r (rl_refs l)\<rparr>"
    have a: "live ls a" by (rule live_get [OF layer_invD(1) [OF inv] Some])
    note W = layer_wfD [OF layer_invD(1) [OF inv]]
    have "layer_inv (upd a ?f ls) (h(a := Suc (h a)))"
    proof (rule layer_inv_upd [OF inv _ a])
      show "same_shape ?f" by (simp add: same_shape_def)
      show "distinct (rl_refs (?f (obj ls a)))" using W(6) [OF a] by simp
      show "q \<in> set (rl_refs (?f (obj ls a))) \<Longrightarrow> q < ls_fresh ls" for q using W(7) [OF a] by auto
      have "length (rl_refs (obj ls a)) \<ge> 1" using r by (cases "rl_refs (obj ls a)") auto
      then show "rl_count (?f (obj ls a)) =
          int (length (rl_refs (?f (obj ls a))) + children ls a + mounts_on ls a + (h(a := Suc (h a))) a)"
        using layer_invD(3) [OF inv a] length_gs_del [OF W(6) [OF a] r] by (simp add: of_nat_diff)
    qed simp
    then have inv1: "layer_inv (deleteReference a l ls) (h(a := Suc (h a)))"
      by (simp add: deleteReference_def l)
    from inv1 show ?thesis
    proof (cases rule: releaseLayer_ok [where K = K])
      case (1 ls' res ms)
      moreover have "ls_Release K l ls = Some (ls', res)" using Some True 1(1) by (simp add: ls_Release_def)
      ultimately show ?thesis using released [OF Some True refl] by simp
    qed
  qed
qed

section \<open>Registration\<close>

text \<open>Same objects except for counts, no layer added, and none removed that has a reference.\<close>

definition narrows :: "('m, 'd) layerstore \<Rightarrow> ('m, 'd) layerstore \<Rightarrow> bool" where
  "narrows ls ls' \<longleftrightarrow> (\<exists>ms. shrinks ls ls' ms) \<and> (\<forall>b. live ls b \<longrightarrow> rl_refs (obj ls b) \<noteq> [] \<longrightarrow> live ls' b)"

lemma narrows_count [simp]: "narrows ls (add_count n a ls)"
  using shrinks_count by (auto simp: narrows_def)

lemma narrows_refl [simp]: "narrows ls ls"
  using shrinks_refl by (auto simp: narrows_def)

lemma narrows_trans: "narrows ls ls1 \<Longrightarrow> narrows ls1 ls2 \<Longrightarrow> narrows ls ls2"
  unfolding narrows_def using shrinks_trans shrinks_obj(3) by metis

lemma narrows_io [simp]:
  "narrows ls (ls1\<lparr>ls_driver := d\<rparr>) = narrows ls ls1" "narrows ls (ls1\<lparr>ls_store := m\<rparr>) = narrows ls ls1"
  by (simp_all add: narrows_def)

lemma release_parent_ok:
  assumes "layer_inv ls (hold p h)"
  shows "\<exists>ls'. release_parent K p e ls = Some (ls', Inl e) \<and> layer_inv ls' h \<and> narrows ls ls'"
proof (cases p)
  case None
  with assms show ?thesis by (simp add: release_parent_def)
next
  case (Some a)
  with assms have "layer_inv ls (h(a := Suc (h a)))" by simp
  then show ?thesis
  proof (cases rule: releaseLayer_ok [where K = K])
    case (1 ls' res ms)
    from after_release_simps [OF 1(5)] have "release_parent K p e ls = Some (ls', Inl e)"
      using Some 1(1) by (simp add: release_parent_def)
    with 1 show ?thesis by (auto simp: narrows_def)
  qed
qed

lemma register_parent_ok:
  assumes inv: "layer_inv ls h"
  obtains (ok) ls' p where "register_parent K parent ls = Some (ls', Inr p)" "layer_inv ls' (hold p h)" "narrows ls ls'"
      "parent = '''' \<longleftrightarrow> p = None"
      "\<And>a. p = Some a \<Longrightarrow> live ls' a \<and> rl_chainID (obj ls' a) = parent \<and>
         (\<exists>n. layer_depth ls' a = Some n \<and> n < maxLayerDepth)"
  | (refused) ls' e where "register_parent K parent ls = Some (ls', Inl e)" "layer_inv ls' h" "narrows ls ls'"
      "e = ErrLayerDoesNotExist \<or> e = ErrMaxDepthExceeded"
proof (cases "parent = ''''")
  case True
  show ?thesis
    by (rule ok [of ls None]) (use True inv in \<open>simp_all add: register_parent_def\<close>)
next
  case False
  obtain ls1 r where R: "getWithoutLock parent ls = (ls1, r)" by (cases "getWithoutLock parent ls")
  note G = getWithoutLock_inv [OF inv R]
  show ?thesis
  proof (cases r)
    case None
    with R G(2) have "register_parent K parent ls = Some (ls, Inl ErrLayerDoesNotExist)"
      using False by (simp add: register_parent_def)
    then show ?thesis using refused [of ls ErrLayerDoesNotExist] inv by simp
  next
    case (Some a)
    have inv1: "layer_inv ls1 (h(a := Suc (h a)))" using G(1) Some by simp
    have a: "live ls a" "rl_chainID (obj ls a) = parent" "ls1 = add_count 1 a ls" using G(3) [OF Some] by simp_all
    have n1: "narrows ls ls1" using a(3) by simp
    obtain n where n: "layer_depth ls1 a = Some n"
      using layer_depth_total [OF layer_invD(1) [OF inv1] hold_live [OF inv1]] by blast
    show ?thesis
    proof (cases "n \<ge> maxLayerDepth")
      case False': False
      show ?thesis
      proof (rule ok [of ls1 "Some a"])
        show "register_parent K parent ls = Some (ls1, Inr (Some a))"
          using False False' R Some n by (simp add: register_parent_def)
        show "layer_inv ls1 (hold (Some a) h)" using inv1 by simp
        show "narrows ls ls1" by (rule n1)
        show "parent = '''' \<longleftrightarrow> Some a = None" using False by simp
        fix b assume "Some a = Some b"
        then show "live ls1 b \<and> rl_chainID (obj ls1 b) = parent \<and> (\<exists>n. layer_depth ls1 b = Some n \<and> n < maxLayerDepth)"
          using a n False' by auto
      qed
    next
      case True
      from inv1 show ?thesis
      proof (cases rule: releaseLayer_ok [where K = K])
        case (1 ls' res ms)
        from after_release_simps [OF 1(5)] have "register_parent K parent ls = Some (ls', Inl ErrMaxDepthExceeded)"
          using False True R Some n 1(1) by (simp add: register_parent_def)
        moreover have "narrows ls1 ls'" using 1(3,4) by (auto simp: narrows_def)
        then have "narrows ls ls'" by (rule narrows_trans [OF n1])
        ultimately show ?thesis using refused 1(2) by blast
      qed
    qed
  qed
qed

lemma register_cleanup_frame:
  "layer_inv (register_cleanup K c tx ls) h = layer_inv ls h"
  "narrows ls1 (register_cleanup K c tx ls) = narrows ls1 ls"
  "obj (register_cleanup K c tx ls) = obj ls" "ls_layerMap (register_cleanup K c tx ls) = ls_layerMap ls"
  "ls_fresh (register_cleanup K c tx ls) = ls_fresh ls"
  by (simp_all add: register_cleanup_def Let_def)

lemma applyTar_frame:
  assumes "applyTar K ts pid c tx ls = (ls', tx', r)"
  shows "\<exists>d. ls' = ls\<lparr>ls_driver := d\<rparr>" and "r = Inr (sz, dg) \<Longrightarrow> dg = lo_digest K ts"
    and "r = Inl e \<Longrightarrow> e = TarFailure \<or> e = DriverFailure"
proof -
  have "\<exists>d. ls = ls\<lparr>ls_driver := d\<rparr>" by (rule exI [of _ "ls_driver ls"]) simp
  then show "\<exists>d. ls' = ls\<lparr>ls_driver := d\<rparr>"
    using assms by (auto simp: applyTar_def Let_def split: if_splits prod.splits option.splits)
  show "r = Inr (sz, dg) \<Longrightarrow> dg = lo_digest K ts" "r = Inl e \<Longrightarrow> e = TarFailure \<or> e = DriverFailure"
    using assms by (auto simp: applyTar_def Let_def split: if_splits prod.splits option.splits)
qed

text \<open>The layer that \<open>register_build\<close> hands over for the commit.\<close>

definition built :: "('m, 'x, 'd) layer_ops \<Rightarrow> string \<Rightarrow> string \<Rightarrow> nat option \<Rightarrow> ('m, 'd) layerstore \<Rightarrow> rolayer \<Rightarrow> bool" where
  "built K ts c p ls l \<longleftrightarrow> rl_parent l = p \<and> rl_cacheID l = c \<and> rl_count l = 1 \<and> rl_refs l = [] \<and>
     rl_diffID l = lo_digest K ts \<and>
     rl_chainID l = (case p of None \<Rightarrow> lo_digest K ts
       | Some a \<Rightarrow> createChainIDFromParent (lo_digest K) (rl_chainID (obj ls a)) [lo_digest K ts])"

lemma register_build_ok:
  assumes inv: "layer_inv ls (hold p h)"
  obtains (ok) ls' l tx where "register_build K ts c p desc ls = Some (ls', Inr (l, tx))"
      "layer_inv ls' (hold p h)" "narrows ls ls'" "built K ts c p ls l"
  | (failed) ls' e where "register_build K ts c p desc ls = Some (ls', Inl e)" "layer_inv ls' h" "narrows ls ls'"
      "e = DriverFailure \<or> e = StoreFailure \<or> e = TarFailure"
proof -
  define pid where "pid = (case p of None \<Rightarrow> '''' | Some a \<Rightarrow> rl_cacheID (obj ls a))"
  define pchain where "pchain = (case p of None \<Rightarrow> None | Some a \<Rightarrow> Some (rl_chainID (obj ls a)))"
  have fail: thesis if "register_build K ts c p desc ls = release_parent K p e ls0"
    "layer_inv ls0 (hold p h)" "narrows ls ls0" "e = DriverFailure \<or> e = StoreFailure \<or> e = TarFailure" for ls0 e
  proof -
    have "\<exists>ls'. register_build K ts c p desc ls = Some (ls', Inl e) \<and> layer_inv ls' h \<and> narrows ls0 ls'"
      unfolding that(1) by (rule release_parent_ok [OF that(2)])
    then obtain ls' where
      r: "register_build K ts c p desc ls = Some (ls', Inl e)" "layer_inv ls' h" "narrows ls0 ls'" by blast
    show thesis by (rule failed [OF r(1,2) narrows_trans [OF that(3) r(3)] that(4)])
  qed
  obtain d okc where C: "do_create (lo_drv K) c pid (ls_driver ls) = (d, okc)"
    by (cases "do_create (lo_drv K) c pid (ls_driver ls)")
  let ?ls1 = "ls\<lparr>ls_driver := d\<rparr>"
  show thesis
  proof (cases okc)
    case False
    then have "register_build K ts c p desc ls = release_parent K p DriverFailure ?ls1"
      using C by (simp add: register_build_def pid_def [symmetric] Let_def)
    then show thesis by (rule fail) (use inv in simp_all)
  next
    case True
    obtain m txo where S: "mo_start (lo_meta K) (ls_store ?ls1) = (m, txo)"
      by (cases "mo_start (lo_meta K) (ls_store ?ls1)")
    let ?ls2 = "?ls1\<lparr>ls_store := m\<rparr>"
    show thesis
    proof (cases txo)
      case None
      then have "register_build K ts c p desc ls = release_parent K p StoreFailure ?ls2"
        using C S True by (simp add: register_build_def pid_def [symmetric] Let_def)
      then show thesis by (rule fail) (use inv in simp_all)
    next
      case (Some tx)
      obtain ls3 tx1 r where A: "applyTar K ts pid c tx ?ls2 = (ls3, tx1, r)"
        by (cases "applyTar K ts pid c tx ?ls2") auto
      note AF = applyTar_frame [OF A]
      from AF(1) obtain d' where ls3: "ls3 = ?ls2\<lparr>ls_driver := d'\<rparr>" by blast
      have inv3: "layer_inv ls3 (hold p h)" "narrows ls ls3" using inv ls3 by simp_all
      show thesis
      proof (cases r)
        case (Inl e)
        then have "register_build K ts c p desc ls = release_parent K p e (register_cleanup K c tx1 ls3)"
          using C S True Some A by (simp add: register_build_def pid_def [symmetric] Let_def)
        then show thesis by (rule fail) (use inv3 AF(3) [OF Inl] in \<open>auto simp: register_cleanup_frame\<close>)
      next
        case (Inr sd)
        obtain sz dg where sd: "sd = (sz, dg)" by (cases sd)
        have dg: "dg = lo_digest K ts" using AF(2) Inr sd by simp
        define l where "l = \<lparr>rl_chainID = (case pchain of None \<Rightarrow> dg
              | Some c' \<Rightarrow> createChainIDFromParent (lo_digest K) c' [dg]),
            rl_diffID = dg, rl_parent = p, rl_cacheID = c, rl_size = sz, rl_descriptor = desc,
            rl_count = 1, rl_refs = []\<rparr>"
        have b: "built K ts c p ls l"
          by (simp add: built_def l_def dg pchain_def split: option.split)
        obtain tx2 oks where L: "storeLayer K l pchain tx1 = (tx2, oks)" by (cases "storeLayer K l pchain tx1")
        have run: "register_build K ts c p desc ls =
            (if \<not> oks then release_parent K p StoreFailure (register_cleanup K c tx2 ls3)
             else Some (ls3, Inr (l, tx2)))"
          using C S True Some A Inr sd L [unfolded l_def]
          by (simp add: register_build_def pid_def [symmetric] pchain_def [symmetric] Let_def l_def)
        show thesis
        proof (cases oks)
          case True
          with run ok inv3 b show thesis by simp
        next
          case False
          with run have "register_build K ts c p desc ls = release_parent K p StoreFailure (register_cleanup K c tx2 ls3)"
            by simp
          then show thesis by (rule fail) (use inv3 in \<open>simp_all add: register_cleanup_frame\<close>)
        qed
      qed
    qed
  qed
qed

text \<open>States whose live objects agree on identity, parent and digest, and keep their references.\<close>

definition keeps_refs :: "('m, 'd) layerstore \<Rightarrow> ('m, 'd) layerstore \<Rightarrow> bool" where
  "keeps_refs ls ls' \<longleftrightarrow> (\<forall>a. live ls a \<longrightarrow> rl_chainID (obj ls' a) = rl_chainID (obj ls a) \<and>
     set (rl_refs (obj ls a)) \<subseteq> set (rl_refs (obj ls' a)) \<and> (rl_refs (obj ls a) \<noteq> [] \<longrightarrow> live ls' a))"

definition agrees :: "('m, 'd) layerstore \<Rightarrow> ('m, 'd) layerstore \<Rightarrow> bool" where
  "agrees ls ls' \<longleftrightarrow> ls_mounts ls' = ls_mounts ls \<and> keeps_refs ls ls' \<and> (\<forall>a. live ls a \<longrightarrow>
     rl_chainID (obj ls' a) = rl_chainID (obj ls a) \<and>
     rl_parent (obj ls' a) = rl_parent (obj ls a) \<and> rl_diffID (obj ls' a) = rl_diffID (obj ls a))"

lemma keeps_refs_refl [simp]: "keeps_refs ls ls"
  by (simp add: keeps_refs_def)

lemma keeps_refs_trans:
  "keeps_refs ls ls1 \<Longrightarrow> keeps_refs ls1 ls2 \<Longrightarrow> (\<And>a. live ls a \<Longrightarrow> live ls1 a) \<Longrightarrow> keeps_refs ls ls2"
  unfolding keeps_refs_def by (metis set_empty subset_empty subset_trans)

lemma keeps_refs_narrows: "narrows ls ls' \<Longrightarrow> keeps_refs ls ls'"
  by (auto simp: narrows_def keeps_refs_def shrinks_obj)

lemma keeps_refs_same: "obj ls' = obj ls \<Longrightarrow> ls_layerMap ls' = ls_layerMap ls \<Longrightarrow> keeps_refs ls ls'"
  by (simp add: keeps_refs_def live_def)

lemma agrees_refl [simp]: "agrees ls ls"
  by (simp add: agrees_def)

lemma agrees_trans:
  "agrees ls ls1 \<Longrightarrow> agrees ls1 ls2 \<Longrightarrow> (\<And>a. live ls a \<Longrightarrow> live ls1 a) \<Longrightarrow> agrees ls ls2"
  unfolding agrees_def using keeps_refs_trans by metis

lemma agrees_narrows: "narrows ls ls' \<Longrightarrow> agrees ls ls'"
  using keeps_refs_narrows by (auto simp: narrows_def agrees_def shrinks_obj shrinksD(1))

lemma narrows_live: "narrows ls ls' \<Longrightarrow> live ls' a \<Longrightarrow> live ls a"
  using shrinks_live by (auto simp: narrows_def)

lemma agrees_narrows_trans: "agrees ls ls1 \<Longrightarrow> (\<And>a. live ls a \<Longrightarrow> live ls1 a) \<Longrightarrow> narrows ls1 ls2 \<Longrightarrow> agrees ls ls2"
  using agrees_trans agrees_narrows by blast

lemma agrees_upd:
  assumes "same_shape f" "\<And>l. rl_diffID (f l) = rl_diffID l" "\<And>l. set (rl_refs l) \<subseteq> set (rl_refs (f l))"
  shows "agrees ls (upd a f ls)"
proof -
  have "keeps_refs ls (upd a f ls)"
    using assms(1,3) by (auto simp: keeps_refs_def obj_upd same_shape_def upd_shape [OF assms(1)])
  then show ?thesis using assms by (auto simp: agrees_def obj_upd same_shape_def)
qed

lemma getReference_agrees:
  "agrees ls (fst (getReference a ls))" "live (fst (getReference a ls)) b = live ls b"
proof -
  let ?f = "\<lambda>l. l\<lparr>rl_refs := gs_add (ls_fresh ls) (rl_refs l)\<rparr>"
  let ?ls = "ls\<lparr>ls_fresh := Suc (ls_fresh ls)\<rparr>"
  have f: "same_shape ?f" by (simp add: same_shape_def)
  have e: "fst (getReference a ls) = upd a ?f ?ls" by (simp add: getReference_def Let_def)
  have "agrees ?ls (upd a ?f ?ls)" by (rule agrees_upd [OF f]) auto
  moreover have "agrees ls ?ls" by (simp add: agrees_def keeps_refs_same)
  ultimately show "agrees ls (fst (getReference a ls))" unfolding e using agrees_trans [of ls ?ls] by simp
  show "live (fst (getReference a ls)) b = live ls b" unfolding e by (simp add: upd_shape [OF f])
qed

text \<open>A new object enters the map; its hold on the parent becomes that of a child.\<close>

definition insert_layer :: "rolayer \<Rightarrow> ('m, 'd) layerstore \<Rightarrow> ('m, 'd) layerstore" where
  "insert_layer l ls = ls\<lparr>ls_heap := ls_heap ls @ [l],
     ls_layerMap := gm_set (rl_chainID l) (length (ls_heap ls)) (ls_layerMap ls)\<rparr>"

lemma insert_layer_obj:
  "obj (insert_layer l ls) b = (if b = length (ls_heap ls) then l
     else if b < length (ls_heap ls) then obj ls b else obj (insert_layer l ls) b)"
  by (auto simp: insert_layer_def obj_def nth_append)

lemma insert_layer_inv:
  assumes inv: "layer_inv ls (hold (rl_parent l) h)"
    and new: "gm_get (ls_layerMap ls) (rl_chainID l) = None"
    and l: "rl_refs l = []" "rl_count l = n" "n = int m"
  defines "a \<equiv> length (ls_heap ls)"
  shows "layer_inv (insert_layer l ls) (h(a := m))"
    and "live (insert_layer l ls) b \<longleftrightarrow> b = a \<or> live ls b" "h a = 0"
proof -
  note I = layer_invD [OF inv] and W = layer_wfD [OF layer_invD(1) [OF inv]]
  let ?n = "insert_layer l ls"
  have bound: "live ls b \<Longrightarrow> b < a" for b using live_bound [OF I(1)] by (simp add: a_def)
  have oa: "obj ?n a = l" using insert_layer_obj [of l ls a] by (simp add: a_def)
  have ob: "b < a \<Longrightarrow> obj ?n b = obj ls b" for b using insert_layer_obj [of l ls b] by (simp add: a_def)
  have map: "gm_get (ls_layerMap ?n) k = (if k = rl_chainID l then Some a else gm_get (ls_layerMap ls) k)" for k
    by (simp add: insert_layer_def a_def)
  have range: "gm_get (ls_layerMap ?n) k = Some b \<Longrightarrow> b = a \<or> b < a" for k b
    using W(3) [of k b] map [of k] by (auto simp: a_def split: if_splits)
  show live: "live ?n b \<longleftrightarrow> b = a \<or> live ls b" for b
  proof (cases "b < a")
    case True
    show ?thesis
    proof (cases "rl_chainID (obj ls b) = rl_chainID l")
      case True
      with \<open>b < a\<close> new show ?thesis by (simp add: live_def ob map)
    next
      case False
      with True show ?thesis by (simp add: live_def ob map)
    qed
  next
    case False
    then show ?thesis using range [of "rl_chainID (obj ?n b)" b] bound [of b]
      by (auto simp: live_def oa map)
  qed
  have na: "\<not> live ls a" using bound [of a] by blast
  have ha: "hold (rl_parent l) h a = 0" using I(2) [of a] na by auto
  then show ha': "h a = 0" by (cases "rl_parent l") (auto split: if_splits)
  have pl: "rl_parent l = Some p \<Longrightarrow> p < a \<and> live ls p" for p
    using I(2) [of p] bound [of p] by simp
  have mts: "mounts_on ?n b = mounts_on ls b" for b by (simp add: mounts_on_def insert_layer_def)
  have kids: "children ?n b = children ls b + (if rl_parent l = Some b then 1 else 0)" for b
  proof -
    have "gm_count (\<lambda>c. rl_parent (obj ?n c) = Some b) (ls_layerMap ls) = children ls b"
      unfolding children_def
    proof (rule gm_count_cong)
      fix k c assume "(k, c) \<in> set (ls_layerMap ls)"
      then have "c < a" using W(1,3) by (simp add: gm_wf_get a_def)
      then show "(rl_parent (obj ?n c) = Some b) = (rl_parent (obj ls c) = Some b)" by (simp add: ob)
    qed
    moreover have "children ?n b = gm_count (\<lambda>c. rl_parent (obj ?n c) = Some b)
        (gm_set (rl_chainID l) a (ls_layerMap ls))"
      by (simp add: children_def insert_layer_def a_def)
    ultimately show ?thesis using gm_count_fresh [OF new] by (simp add: oa)
  qed
  have nokid: "children ls a = 0"
  proof (rule ccontr)
    assume "children ls a \<noteq> 0"
    then obtain k b where "(k, b) \<in> set (ls_layerMap ls)" "rl_parent (obj ls b) = Some a"
      by (auto simp: children_def gm_count_pos)
    with W(1) live_get [OF I(1)] W(4) [of b a] na show False by (auto simp: gm_wf_get)
  qed
  have nomount: "mounts_on ls a = 0"
  proof (rule ccontr)
    assume "mounts_on ls a \<noteq> 0"
    then obtain k m where "(k, m) \<in> set (ls_mounts ls)" "ml_parent m = Some a"
      by (auto simp: mounts_on_def gm_count_pos)
    with W(2) W(5) [of k m a] na show False by (auto simp: gm_wf_get)
  qed
  have wf: "layer_wf ?n"
    unfolding layer_wf_def live
  proof (intro conjI allI impI)
    show "gm_wf (ls_layerMap ?n)" "gm_wf (ls_mounts ?n)" using W(1,2) by (simp_all add: insert_layer_def)
    fix k b assume kb: "gm_get (ls_layerMap ?n) k = Some b"
    show "b < length (ls_heap ?n)" using range [OF kb] by (auto simp: insert_layer_def a_def)
    show "rl_chainID (obj ?n b) = k"
    proof (cases "k = rl_chainID l")
      case True
      with kb have "b = a" by (simp add: map)
      with True show ?thesis by (simp add: oa)
    next
      case False
      with kb have "gm_get (ls_layerMap ls) k = Some b" by (simp add: map)
      from W(3) [OF this] show ?thesis by (simp add: ob a_def)
    qed
  next
    fix b p assume b: "b = a \<or> live ls b" "rl_parent (obj ?n b) = Some p"
    then show "p < b" "p = a \<or> live ls p"
      using pl [of p] W(4) [of b p] bound [of b] by (auto simp: oa ob)
  next
    fix n m p assume "gm_get (ls_mounts ?n) n = Some m" "ml_parent m = Some p"
    with W(5) [of n m p] show "p = a \<or> live ls p" by (simp add: insert_layer_def)
  next
    fix b assume b: "b = a \<or> live ls b"
    have fr: "ls_fresh ?n = ls_fresh ls" by (simp add: insert_layer_def)
    show "distinct (rl_refs (obj ?n b))" "\<forall>r \<in> set (rl_refs (obj ?n b)). r < ls_fresh ?n"
      using b W(6,7) [of b] bound [of b] l(1) by (auto simp: oa ob fr)
  next
    fix n m assume "gm_get (ls_mounts ?n) n = Some m"
    then show "distinct (ml_refs m)" "\<forall>r \<in> set (ml_refs m). r < ls_fresh ?n"
      using W(8,9) [of n m] by (auto simp: insert_layer_def)
  qed
  show "layer_inv ?n (h(a := m))"
    unfolding layer_inv_def
  proof (intro conjI allI impI)
    show "layer_wf ?n" by (rule wf)
    fix b
    show "0 < (h(a := m)) b \<Longrightarrow> live ?n b"
      using I(2) [of b] by (cases "rl_parent l") (auto simp: live split: if_splits)
    show "rl_count (obj ?n b) = int (length (rl_refs (obj ?n b)) + children ?n b + mounts_on ?n b + (h(a := m)) b)"
      if "live ?n b"
    proof (cases "b = a")
      case True
      then show ?thesis using l nokid nomount pl [of a] by (auto simp: oa kids mts)
    next
      case False
      with that have "live ls b" by (simp add: live)
      with I(3) [OF this] bound [OF this] False show ?thesis
        by (cases "rl_parent l") (auto simp: ob kids mts)
    qed
  qed
qed

lemma register_commit_ok:
  assumes inv: "layer_inv ls (hold (rl_parent l) h)" and l: "rl_refs l = []" "rl_count l = 1"
  shows "\<exists>ls' res. register_commit K l tx ls = Some (ls', res) \<and> layer_inv ls' h \<and> agrees ls ls' \<and>
    (\<forall>a. live ls' a \<longrightarrow> live ls a \<or> (rl_chainID (obj ls' a) = rl_chainID l \<and>
       rl_parent (obj ls' a) = rl_parent l \<and> rl_diffID (obj ls' a) = rl_diffID l)) \<and>
    (case res of
       Inl e \<Rightarrow> e = StoreFailure \<and> narrows ls ls'
     | Inr ref \<Rightarrow> rl_chainID (obj ls' (ref_layer ref)) = rl_chainID l \<and>
         live ls' (ref_layer ref) \<and> hasReference (ref_layer ref) ref ls')"
proof -
  obtain ls1 r where R: "getWithoutLock (rl_chainID l) ls = (ls1, r)" by (cases "getWithoutLock (rl_chainID l) ls")
  note G = getWithoutLock_inv [OF inv R]
  show ?thesis
  proof (cases r)
    case (Some e)
    have e: "live ls e" "rl_chainID (obj ls e) = rl_chainID l" "ls1 = add_count 1 e ls" using G(3) [OF Some] by simp_all
    obtain ls2 ref where GR: "getReference e ls1 = (ls2, ref)" by (cases "getReference e ls1")
    have inv1: "layer_inv ls1 ((hold (rl_parent l) h)(e := Suc (hold (rl_parent l) h e)))" using G(1) Some by simp
    note RF = getReference_inv [OF inv1, unfolded GR fst_conv snd_conv]
    let ?ls3 = "register_cleanup K (rl_cacheID l) tx ls2"
    have inv3: "layer_inv ?ls3 (hold (rl_parent l) h)" using RF(1) by (simp add: register_cleanup_frame)
    have lv3: "live ?ls3 b = live ls b" for b
      using getReference_agrees(2) [of e ls1 b] GR e(3) by (simp add: live_def register_cleanup_frame)
    have cl: "ls_mounts ?ls3 = ls_mounts ls2" by (simp add: register_cleanup_def Let_def)
    have ag12: "agrees ls1 ls2" using getReference_agrees(1) [of ls1 e] GR by simp
    have "agrees ls ls1" using e(3) by (intro agrees_narrows) simp
    then have "agrees ls ls2" using ag12 by (rule agrees_trans) (simp add: e(3))
    then have ag3: "agrees ls ?ls3"
      by (rule agrees_trans) (simp_all add: agrees_def register_cleanup_frame cl keeps_refs_same lv3 [symmetric], simp add: live_def register_cleanup_frame)
    have live3: "live ?ls3 e" "rl_chainID (obj ?ls3 e) = rl_chainID l" "hasReference e ref ?ls3"
      using RF(3) RF(4) RF(5) e
      by (simp_all add: live_def register_cleanup_frame hasReference_def split: layer_ref.splits)
    show ?thesis
    proof (cases "rl_parent l")
      case None
      with R Some GR inv3 live3 RF(2) ag3 lv3 show ?thesis by (simp add: register_commit_def)
    next
      case (Some p)
      with inv3 have "layer_inv ?ls3 (h(p := Suc (h p)))" by simp
      then show ?thesis
      proof (cases rule: releaseLayer_ok [where K = K])
        case (1 ls' res ms)
        from after_release_simps [OF 1(5)] have run: "register_commit K l tx ls = Some (ls', Inr ref)"
          using R \<open>r = Some e\<close> GR Some 1(1) by (simp add: register_commit_def)
        have ref: "ref = CacheRef (ls_fresh ls1) e" by (rule RF(2))
        have has: "ls_fresh ls1 \<in> set (rl_refs (obj ?ls3 e))" using live3(3) by (simp add: hasReference_def ref)
        have "live ls' e" by (rule 1(4) [OF live3(1)]) (use has in auto)
        moreover have n: "narrows ?ls3 ls'" using 1(3,4) by (auto simp: narrows_def)
        have "agrees ls ls'" by (rule agrees_narrows_trans [OF ag3 _ n]) (simp add: lv3)
        moreover have "live ls' b \<Longrightarrow> live ls b" for b using narrows_live [OF n] lv3 by blast
        ultimately show ?thesis using run 1(2) live3 shrinks_obj [OF 1(3), of e] has
          by (simp add: ref hasReference_def)
      qed
    qed
  next
    case None
    have "ls1 = ls" using G(2) [OF None] .
    obtain m ok where C: "mo_commit (lo_meta K) tx (rl_chainID l) (ls_store ls) = (m, ok)"
      by (cases "mo_commit (lo_meta K) tx (rl_chainID l) (ls_store ls)")
    let ?ls1 = "ls\<lparr>ls_store := m\<rparr>"
    show ?thesis
    proof (cases ok)
      case False
      let ?ls2 = "register_cleanup K (rl_cacheID l) tx ?ls1"
      have run: "register_commit K l tx ls = release_parent K (rl_parent l) StoreFailure ?ls2"
        using R None \<open>ls1 = ls\<close> C False by (simp add: register_commit_def)
      have inv2: "layer_inv ?ls2 (hold (rl_parent l) h)" using inv by (simp add: register_cleanup_frame)
      have "\<exists>ls'. register_commit K l tx ls = Some (ls', Inl StoreFailure) \<and> layer_inv ls' h \<and> narrows ?ls2 ls'"
        unfolding run by (rule release_parent_ok [OF inv2])
      then obtain ls' where L: "register_commit K l tx ls = Some (ls', Inl StoreFailure)" "layer_inv ls' h"
        "narrows ?ls2 ls'" by blast
      have "narrows ls ?ls2" by (simp add: register_cleanup_frame)
      have n: "narrows ls ls'" by (rule narrows_trans [OF \<open>narrows ls ?ls2\<close> L(3)])
      from L(1,2) n agrees_narrows [OF n] narrows_live [OF n] show ?thesis by auto
    next
      case True
      have new: "gm_get (ls_layerMap ?ls1) (rl_chainID l) = None"
        using R None by (auto simp: getWithoutLock_def split: option.splits)
      let ?a = "length (ls_heap ls)"
      have inv1: "layer_inv ?ls1 (hold (rl_parent l) h)" using inv by simp
      note N = insert_layer_inv [OF inv1 new l, of 1]
      have inv2: "layer_inv (insert_layer l ?ls1) (h(?a := Suc (h ?a)))" using N(1,3) by simp
      note RF = getReference_inv [OF inv2]
      obtain ls3 ref where GR: "getReference ?a (insert_layer l ?ls1) = (ls3, ref)"
        by (cases "getReference ?a (insert_layer l ?ls1)")
      have "(case alloc l ?ls1 of (ls2, a) \<Rightarrow>
            getReference a (ls2\<lparr>ls_layerMap := gm_set (rl_chainID l) a (ls_layerMap ls2)\<rparr>)) = (ls3, ref)"
        using GR by (simp add: alloc_def insert_layer_def)
      then have run: "register_commit K l tx ls = Some (ls3, Inr ref)"
        using R None \<open>ls1 = ls\<close> C True by (simp add: register_commit_def alloc_def)
      note RF' = RF [unfolded GR fst_conv snd_conv]
      have oa: "rl_chainID (obj (insert_layer l ?ls1) ?a) = rl_chainID l"
        using insert_layer_obj [of l ?ls1 ?a] by simp
      have la: "live (insert_layer l ?ls1) ?a" using N(2) by simp
      have agi: "agrees ls (insert_layer l ?ls1)"
      proof -
        have "obj (insert_layer l ?ls1) b = obj ls b" if "live ls b" for b
          using insert_layer_obj [of l ?ls1 b] live_bound [OF layer_invD(1) [OF inv] that] by simp
        moreover have "live (insert_layer l ?ls1) b" if "live ls b" for b using N(2) [of b] that by simp
        ultimately show ?thesis by (simp add: agrees_def keeps_refs_def) (simp add: insert_layer_def)
      qed
      have ag3: "agrees (insert_layer l ?ls1) ls3" "\<And>b. live ls3 b = live (insert_layer l ?ls1) b"
        using getReference_agrees(1) [of "insert_layer l ?ls1" ?a] getReference_agrees(2) [of ?a "insert_layer l ?ls1"] GR
      by simp_all
      have "agrees ls ls3" by (rule agrees_trans [OF agi ag3(1)]) (simp add: N(2))
      moreover have "live ls3 b \<longrightarrow> live ls b \<or> (rl_chainID (obj ls3 b) = rl_chainID l \<and>
          rl_parent (obj ls3 b) = rl_parent l \<and> rl_diffID (obj ls3 b) = rl_diffID l)" for b
      proof (cases "b = ?a")
        case True
        have "obj (insert_layer l ?ls1) ?a = l" using insert_layer_obj [of l ?ls1 ?a] by simp
        with ag3(1) la True show ?thesis by (simp add: agrees_def)
      next
        case False
        then show ?thesis using ag3(2) [of b] N(2) [of b] by simp
      qed
      ultimately show ?thesis using run RF' oa la by (simp add: live_def)
    qed
  qed
qed

section \<open>Operations on read-write layers\<close>

lemma layer_inv_mounts:
  assumes inv: "layer_inv ls h" and wf: "gm_wf ms"
    and ok: "\<And>n m p. gm_get ms n = Some m \<Longrightarrow> ml_parent m = Some p \<Longrightarrow> live ls p"
    and refs: "\<And>n m. gm_get ms n = Some m \<Longrightarrow> distinct (ml_refs m) \<and> (\<forall>r \<in> set (ml_refs m). r < ls_fresh ls)"
    and count: "\<And>a. gm_count (\<lambda>m. ml_parent m = Some a) ms + h' a = mounts_on ls a + h a"
  shows "layer_inv (ls\<lparr>ls_mounts := ms\<rparr>) h'"
proof -
  note I = layer_invD [OF inv] and W = layer_wfD [OF layer_invD(1) [OF inv]]
  let ?n = "ls\<lparr>ls_mounts := ms\<rparr>"
  have wf': "layer_wf ?n"
    unfolding layer_wf_def
  proof (intro conjI allI impI)
    fix a assume "live ?n a"
    then show "distinct (rl_refs (obj ?n a))" "\<forall>r \<in> set (rl_refs (obj ?n a)). r < ls_fresh ?n"
      using W(6,7) [of a] by simp_all
  next
    fix a p assume "live ?n a" "rl_parent (obj ?n a) = Some p"
    then show "p < a" "live ?n p" using W(4) [of a p] by simp_all
  next
    fix n m assume "gm_get (ls_mounts ?n) n = Some m"
    with refs [of n m] show "distinct (ml_refs m)" "\<forall>r \<in> set (ml_refs m). r < ls_fresh ?n" by simp_all
  qed (use W(1,3) wf ok in auto)
  have m: "mounts_on ?n a + h' a = mounts_on ls a + h a" for a using count by (simp add: mounts_on_def)
  have c: "children ?n a = children ls a" for a by (simp add: children_def)
  show ?thesis
    unfolding layer_inv_def
  proof (intro conjI allI impI wf')
    fix a
    show "live ?n a" if "0 < h' a"
    proof (cases "h a > 0")
      case True
      with I(2) show ?thesis by simp
    next
      case False
      with m [of a] that have "mounts_on ls a > 0" by linarith
      then obtain n q where "(n, q) \<in> set (ls_mounts ls)" "ml_parent q = Some a"
        by (auto simp: mounts_on_def gm_count_pos)
      with W(2) W(5) [of n q a] show ?thesis by (simp add: gm_wf_get)
    qed
    show "rl_count (obj ?n a) = int (length (rl_refs (obj ?n a)) + children ?n a + mounts_on ?n a + h' a)"
      if "live ?n a"
      using that I(3) [of a] m [of a] by (simp add: c)
  qed
qed

lemma mount_insert_inv:
  assumes inv: "layer_inv ls (hold (ml_parent m) h)" and new: "gm_get (ls_mounts ls) n = None"
    and m: "distinct (ml_refs m)" "\<And>r. r \<in> set (ml_refs m) \<Longrightarrow> r < ls_fresh ls"
  shows "layer_inv (ls\<lparr>ls_mounts := gm_set n m (ls_mounts ls)\<rparr>) h"
proof (rule layer_inv_mounts [OF inv])
  note I = layer_invD [OF inv] and W = layer_wfD [OF layer_invD(1) [OF inv]]
  show "gm_wf (gm_set n m (ls_mounts ls))" using W(2) by simp
  show "gm_get (gm_set n m (ls_mounts ls)) k = Some q \<Longrightarrow> ml_parent q = Some p \<Longrightarrow> live ls p" for k q p
    using W(5) [of k q p] I(2) [of p] by (auto split: if_splits)
  show "gm_get (gm_set n m (ls_mounts ls)) k = Some q \<Longrightarrow> distinct (ml_refs q) \<and> (\<forall>r \<in> set (ml_refs q). r < ls_fresh ls)" for k q
    using W(8,9) [of k q] m by (auto split: if_splits)
  show "gm_count (\<lambda>m. ml_parent m = Some a) (gm_set n m (ls_mounts ls)) + h a = mounts_on ls a + hold (ml_parent m) h a" for a
    using gm_count_fresh [OF new] by (cases "ml_parent m") (auto simp: mounts_on_def)
qed

lemma mount_update_inv:
  assumes inv: "layer_inv ls h" and old: "gm_get (ls_mounts ls) n = Some m" and same: "ml_parent m' = ml_parent m"
    and m: "distinct (ml_refs m')" "\<And>r. r \<in> set (ml_refs m') \<Longrightarrow> r < ls_fresh ls"
  shows "layer_inv (ls\<lparr>ls_mounts := gm_set n m' (ls_mounts ls)\<rparr>) h"
proof (rule layer_inv_mounts [OF inv])
  note I = layer_invD [OF inv] and W = layer_wfD [OF layer_invD(1) [OF inv]]
  show "gm_wf (gm_set n m' (ls_mounts ls))" using W(2) by simp
  show "gm_get (gm_set n m' (ls_mounts ls)) k = Some q \<Longrightarrow> ml_parent q = Some p \<Longrightarrow> live ls p" for k q p
    using W(5) [of k q p] W(5) [OF old, of p] same by (auto split: if_splits)
  show "gm_get (gm_set n m' (ls_mounts ls)) k = Some q \<Longrightarrow> distinct (ml_refs q) \<and> (\<forall>r \<in> set (ml_refs q). r < ls_fresh ls)" for k q
    using W(8,9) [of k q] m by (auto split: if_splits)
  show "gm_count (\<lambda>m. ml_parent m = Some a) (gm_set n m' (ls_mounts ls)) + h a = mounts_on ls a + h a" for a
    using gm_count_update [OF old, of "\<lambda>m. ml_parent m = Some a" m'] same by (simp add: mounts_on_def)
qed

lemma mount_delete_inv:
  assumes inv: "layer_inv ls h" and old: "gm_get (ls_mounts ls) n = Some m"
  shows "layer_inv (ls\<lparr>ls_mounts := gm_del n (ls_mounts ls)\<rparr>) (hold (ml_parent m) h)"
proof (rule layer_inv_mounts [OF inv])
  note I = layer_invD [OF inv] and W = layer_wfD [OF layer_invD(1) [OF inv]]
  show "gm_wf (gm_del n (ls_mounts ls))" using W(2) by simp
  show "gm_get (gm_del n (ls_mounts ls)) k = Some q \<Longrightarrow> ml_parent q = Some p \<Longrightarrow> live ls p" for k q p
    using W(5) [of k q p] by (auto split: if_splits)
  show "gm_get (gm_del n (ls_mounts ls)) k = Some q \<Longrightarrow> distinct (ml_refs q) \<and> (\<forall>r \<in> set (ml_refs q). r < ls_fresh ls)" for k q
    using W(8,9) [of k q] by (auto split: if_splits)
  fix a
  have "(n, m) \<in> set (ls_mounts ls)" using old by (rule map_of_SomeD)
  then have "ml_parent m = Some a \<Longrightarrow> gm_count (\<lambda>m. ml_parent m = Some a) (ls_mounts ls) > 0"
    by (auto simp: gm_count_pos)
  then show "gm_count (\<lambda>m. ml_parent m = Some a) (gm_del n (ls_mounts ls)) + hold (ml_parent m) h a = mounts_on ls a + h a"
    using gm_count_del [OF W(2) old, of "\<lambda>m. ml_parent m = Some a"]
    by (cases "ml_parent m") (auto simp: mounts_on_def)
qed

lemma rw_getReference_inv:
  assumes inv: "layer_inv ls h" and m: "gm_get (ls_mounts ls) n = Some m"
  shows "layer_inv (fst (rw_getReference n m ls)) h"
    and "gm_get (ls_mounts (fst (rw_getReference n m ls))) n = Some (m\<lparr>ml_refs := gs_add (ls_fresh ls) (ml_refs m)\<rparr>)"
    and "snd (rw_getReference n m ls) = RWRef (ls_fresh ls) n"
proof -
  let ?ls = "ls\<lparr>ls_fresh := Suc (ls_fresh ls)\<rparr>" and ?m = "m\<lparr>ml_refs := gs_add (ls_fresh ls) (ml_refs m)\<rparr>"
  note W = layer_wfD [OF layer_invD(1) [OF inv]]
  have inv1: "layer_inv ?ls h" by (rule layer_inv_fresh [OF inv]) simp
  have "layer_inv (?ls\<lparr>ls_mounts := gm_set n ?m (ls_mounts ?ls)\<rparr>) h"
    by (rule mount_update_inv [OF inv1, where m = m])
       (use W(8,9) [OF m] m in \<open>auto intro: less_SucI\<close>)
  then show "layer_inv (fst (rw_getReference n m ls)) h" by (simp add: rw_getReference_def Let_def)
  show "gm_get (ls_mounts (fst (rw_getReference n m ls))) n = Some ?m"
    "snd (rw_getReference n m ls) = RWRef (ls_fresh ls) n"
    by (simp_all add: rw_getReference_def Let_def)
qed

lemma create_rw_parent_inv:
  assumes inv: "layer_inv ls h" and run: "create_rw_parent n parent ls = (ls', res)"
  shows "case res of Inl e \<Rightarrow> ls' = ls
    | Inr p \<Rightarrow> layer_inv ls' (hold p h) \<and> gm_get (ls_mounts ls') n = None \<and> ls_mounts ls' = ls_mounts ls"
proof -
  obtain ls1 r where R: "getWithoutLock parent ls = (ls1, r)" by (cases "getWithoutLock parent ls")
  note G = getWithoutLock_inv [OF inv R]
  have m: "ls_mounts ls1 = ls_mounts ls" using R by (auto simp: getWithoutLock_def split: option.splits)
  show ?thesis
    using run R G(1,2) inv m
    by (cases r) (auto simp: create_rw_parent_def split: option.splits if_splits)
qed

lemma initMount_frame:
  assumes "initMount K g p lab f so ls = (ls', res)"
  shows "\<exists>d. ls' = ls\<lparr>ls_driver := d\<rparr>" and "res = Inr i \<Longrightarrow> i = g @ ''-init''"
    and "res = Inl e \<Longrightarrow> e = DriverFailure \<or> e = InitFailure"
  using assms by (auto simp: initMount_def Let_def split: prod.splits option.splits bool.splits if_splits)

lemma saveMount_frame:
  assumes "saveMount K m ls = (ls', ok)"
  shows "\<exists>s. ls' = (if ok then ls\<lparr>ls_store := s, ls_mounts := gm_set (ml_name m) m (ls_mounts ls)\<rparr>
                    else ls\<lparr>ls_store := s\<rparr>)"
  using assms
  by (auto simp: saveMount_def Let_def split: prod.splits option.splits if_splits)

lemma create_rw_build_ok:
  assumes inv: "layer_inv ls (hold p h)" and new: "gm_get (ls_mounts ls) n = None"
  shows "\<exists>ls' res. create_rw_build K n mid p opts ls = Some (ls', res) \<and> layer_inv ls' h \<and>
    (case res of
       Inl e \<Rightarrow> e \<in> {DriverFailure, StoreFailure, InitFailure} \<and> narrows ls ls'
     | Inr ref \<Rightarrow> obj ls' = obj ls \<and> ls_layerMap ls' = ls_layerMap ls \<and>
         (\<exists>r m. ref = RWRef r n \<and> gm_get (ls_mounts ls') n = Some m \<and> ml_parent m = p \<and>
         ml_mountID m = mid \<and> ml_refs m = [r]))"
proof -
  define pid where "pid = (case p of None \<Rightarrow> '''' | Some a \<Rightarrow> rl_cacheID (obj ls a))"
  define label where "label = (case opts of None \<Rightarrow> '''' | Some o' \<Rightarrow> ro_MountLabel o')"
  define stopt where "stopt = (case opts of None \<Rightarrow> [] | Some o' \<Rightarrow> ro_StorageOpt o')"
  define init where "init = (case opts of None \<Rightarrow> None | Some o' \<Rightarrow> ro_InitFunc o')"
  define m0 where "m0 = \<lparr>ml_name = n, ml_mountID = mid, ml_initID = '''', ml_parent = p, ml_refs = []\<rparr>"
  define ir where "ir = (case init of
             None \<Rightarrow> (ls, Inr (pid, m0))
           | Some f \<Rightarrow>
               (case initMount K mid pid label f stopt ls of
                  (ls', Inl e) \<Rightarrow> (ls', Inl e)
                | (ls', Inr i) \<Rightarrow> (ls', Inr (i, m0\<lparr>ml_initID := i\<rparr>))))"
  obtain ls1 ires where ir': "ir = (ls1, ires)" by (cases ir)
  have frame: "\<exists>d. ls1 = ls\<lparr>ls_driver := d\<rparr>"
  proof (cases init)
    case None
    then show ?thesis using ir' by (auto simp: ir_def intro: exI [of _ "ls_driver ls"])
  next
    case (Some f)
    obtain lsx rx where "initMount K mid pid label f stopt ls = (lsx, rx)"
      by (cases "initMount K mid pid label f stopt ls")
    with Some ir' initMount_frame(1) [OF this] show ?thesis by (auto simp: ir_def split: sum.splits)
  qed
  have mm: "ml_name m = n \<and> ml_parent m = p \<and> ml_mountID m = mid \<and> ml_refs m = []" if "ires = Inr (i, m)" for i m
    using that ir' by (auto simp: ir_def m0_def split: option.splits prod.splits sum.splits)
  have run: "create_rw_build K n mid p opts ls =
     (case ires of
            Inl e \<Rightarrow> release_parent K p e ls1
          | Inr (pid, m) \<Rightarrow>
              (case do_create_rw (lo_drv K) mid pid '''' stopt (ls_driver ls1) of
                 (d, False) \<Rightarrow> release_parent K p DriverFailure (ls1\<lparr>ls_driver := d\<rparr>)
               | (d, True) \<Rightarrow>
                   (case saveMount K m (ls1\<lparr>ls_driver := d\<rparr>) of
                      (ls2, False) \<Rightarrow> release_parent K p StoreFailure ls2
                    | (ls2, True) \<Rightarrow>
                        (case rw_getReference n m ls2 of (ls3, r) \<Rightarrow> Some (ls3, Inr r)))))"
    unfolding create_rw_build_def Let_def pid_def [symmetric] label_def [symmetric] stopt_def [symmetric]
      init_def [symmetric] m0_def [symmetric] ir_def [symmetric] ir' by simp
  obtain d1 where ls1: "ls1 = ls\<lparr>ls_driver := d1\<rparr>" using frame by blast
  have bad: "e \<in> {DriverFailure, StoreFailure, InitFailure}" if "ires = Inl e" for e
    using that ir' initMount_frame(3) by (fastforce simp: ir_def split: option.splits prod.splits sum.splits)
  have fail: ?thesis if "create_rw_build K n mid p opts ls = release_parent K p e ls0"
    "layer_inv ls0 (hold p h)" "narrows ls ls0" "e \<in> {DriverFailure, StoreFailure, InitFailure}" for e ls0
  proof -
    have "\<exists>ls'. create_rw_build K n mid p opts ls = Some (ls', Inl e) \<and> layer_inv ls' h \<and> narrows ls0 ls'"
      unfolding that(1) by (rule release_parent_ok [OF that(2)])
    then obtain ls' where L: "create_rw_build K n mid p opts ls = Some (ls', Inl e)" "layer_inv ls' h" "narrows ls0 ls'"
      by blast
    from L narrows_trans [OF that(3) L(3)] that(4) show ?thesis by auto
  qed
  show ?thesis
  proof (cases ires)
    case (Inl e)
    then have "create_rw_build K n mid p opts ls = release_parent K p e ls1" by (simp add: run)
    then show ?thesis by (rule fail) (use inv ls1 bad [OF Inl] in simp_all)
  next
    case (Inr im)
    obtain i m where im: "im = (i, m)" by (cases im)
    note m = mm [OF Inr [unfolded im]]
    obtain d ok where D: "do_create_rw (lo_drv K) mid i '''' stopt (ls_driver ls1) = (d, ok)"
      by (cases "do_create_rw (lo_drv K) mid i '''' stopt (ls_driver ls1)")
    let ?lsd = "ls1\<lparr>ls_driver := d\<rparr>"
    have invd: "layer_inv ?lsd (hold p h)" "narrows ls ?lsd" using inv ls1 by simp_all
    show ?thesis
    proof (cases ok)
      case False
      then have "create_rw_build K n mid p opts ls = release_parent K p DriverFailure ?lsd"
        using Inr im D by (simp add: run)
      then show ?thesis by (rule fail) (use invd in simp_all)
    next
      case True
      obtain ls2 sok where S: "saveMount K m ?lsd = (ls2, sok)" by (cases "saveMount K m ?lsd")
      from saveMount_frame [OF S] obtain s where
        ls2: "ls2 = (if sok then ?lsd\<lparr>ls_store := s, ls_mounts := gm_set (ml_name m) m (ls_mounts ?lsd)\<rparr>
                    else ?lsd\<lparr>ls_store := s\<rparr>)" by blast
      show ?thesis
      proof (cases sok)
        case False
        then have "create_rw_build K n mid p opts ls = release_parent K p StoreFailure ls2"
          using Inr im D True S by (simp add: run)
        then show ?thesis by (rule fail) (use invd ls2 False in simp_all)
      next
        case T2: True
        let ?lss = "?lsd\<lparr>ls_store := s\<rparr>"
        have invs: "layer_inv ?lss (hold (ml_parent m) h)" using invd m by simp
        have news: "gm_get (ls_mounts ?lss) n = None" using new ls1 by simp
        have e2: "ls2 = ?lss\<lparr>ls_mounts := gm_set n m (ls_mounts ?lss)\<rparr>" using ls2 T2 m by simp
        have inv2: "layer_inv ls2 h"
          unfolding e2 by (rule mount_insert_inv [OF invs news]) (use m in simp_all)
        have get2: "gm_get (ls_mounts ls2) n = Some m" by (simp add: e2)
        note RW = rw_getReference_inv [OF inv2 get2]
        have "create_rw_build K n mid p opts ls = Some (fst (rw_getReference n m ls2), Inr (snd (rw_getReference n m ls2)))"
          using Inr im D True S T2 by (simp add: run split: prod.split)
        moreover have "obj (fst (rw_getReference n m ls2)) = obj ls"
          "ls_layerMap (fst (rw_getReference n m ls2)) = ls_layerMap ls"
          by (simp_all add: rw_getReference_def Let_def e2 ls1)
        ultimately show ?thesis using RW m by (simp add: gs_add_def)
      qed
    qed
  qed
qed

text \<open>Releasing a mount: refused, one reference less, kept after a failed removal, or gone.\<close>

text \<open>What becomes of a mount whose reference \<open>r\<close> is released.\<close>

definition mount_outcome :: "mlayer option \<Rightarrow> nat \<Rightarrow> mlayer option \<Rightarrow> (layer_error + 'a) \<Rightarrow> bool" where
  "mount_outcome old r new res \<longleftrightarrow>
     (case old of
        None \<Rightarrow> new = None \<and> is_ok res
      | Some m \<Rightarrow>
          if r \<notin> set (ml_refs m) then new = old \<and> res = Inl ErrLayerNotRetained
          else if gs_del r (ml_refs m) \<noteq> [] then new = Some (m\<lparr>ml_refs := gs_del r (ml_refs m)\<rparr>) \<and> is_ok res
          else new = None \<or> new = old \<and> (res = Inl DriverFailure \<or> res = Inl StoreFailure))"

lemma mount_retaken:
  assumes "distinct (ml_refs m)" "r \<in> set (ml_refs m)" "gs_del r (ml_refs m) = []"
  shows "m\<lparr>ml_refs := gs_add r (gs_del r (ml_refs m))\<rparr> = m"
proof -
  have "length (ml_refs m) = 1" using length_gs_del [OF assms(1,2)] assms(2,3) by (cases "ml_refs m") auto
  then have "ml_refs m = [r]" using assms(2) by (cases "ml_refs m") auto
  with assms(3) show ?thesis by (simp add: gs_add_def)
qed

lemma ReleaseRWLayer_ok:
  assumes inv: "layer_inv ls h"
  shows "\<exists>ls' res ls1. ReleaseRWLayer K (RWRef r n) ls = Some (ls', res) \<and> layer_inv ls' h \<and>
    (\<forall>s. res \<noteq> Inl (LayerPanic s)) \<and>
    (\<forall>k. k \<noteq> n \<longrightarrow> gm_get (ls_mounts ls') k = gm_get (ls_mounts ls) k) \<and>
    mount_outcome (gm_get (ls_mounts ls) n) r (gm_get (ls_mounts ls') n) res \<and>
    obj ls1 = obj ls \<and> ls_layerMap ls1 = ls_layerMap ls \<and> narrows ls1 ls'"
proof (cases "gm_get (ls_mounts ls) n")
  case None
  then show ?thesis using inv by (auto simp: ReleaseRWLayer_def mount_outcome_def intro!: exI [of _ ls])
next
  case (Some m)
  note W = layer_wfD [OF layer_invD(1) [OF inv]]
  show ?thesis
  proof (cases "r \<in> set (ml_refs m)")
    case False
    then show ?thesis using Some inv by (auto simp: ReleaseRWLayer_def mount_outcome_def intro!: exI [of _ ls])
  next
    case True
    define m1 where "m1 = m\<lparr>ml_refs := gs_del r (ml_refs m)\<rparr>"
    define ls1 where "ls1 = ls\<lparr>ls_mounts := gm_set n m1 (ls_mounts ls)\<rparr>"
    define retake where "retake = (\<lambda>ls::('a, 'b) layerstore.
      ls\<lparr>ls_mounts := gm_set n (m1\<lparr>ml_refs := gs_add r (ml_refs m1)\<rparr>) (ls_mounts ls)\<rparr>)"
    have inv1: "layer_inv ls1 h"
      unfolding ls1_def
      by (rule mount_update_inv [OF inv Some]) (use W(8,9) [OF Some] in \<open>auto simp: m1_def\<close>)
    have get1: "gm_get (ls_mounts ls1) n = Some m1" by (simp add: ls1_def)
    have ret: "layer_inv (retake x) h" if "layer_inv x h" "gm_get (ls_mounts x) n = Some m1" "ls_fresh x = ls_fresh ls1" for x
      unfolding retake_def
      by (rule mount_update_inv [OF that(1,2)])
         (use W(8,9) [OF Some] that(3) True in \<open>auto simp: m1_def ls1_def\<close>)
    have run: "ReleaseRWLayer K (RWRef r n) ls =
      (if length (ml_refs m1) > 0 then Some (ls1, Inr [])
               else (case do_remove (lo_drv K) (ml_mountID m) (ls_driver ls1) of
                 (d, False) \<Rightarrow> Some (retake (ls1\<lparr>ls_driver := d\<rparr>), Inl DriverFailure)
               | (d, True) \<Rightarrow>
                  (let ls2 = ls1\<lparr>ls_driver := d\<rparr>;
                       (d, ok) = (if ml_initID m \<noteq> '''' then do_remove (lo_drv K) (ml_initID m) d else (d, True));
                       ls3 = ls2\<lparr>ls_driver := d\<rparr>
                   in if \<not> ok then Some (retake ls3, Inl DriverFailure)
                      else (case mo_remove_mount (lo_meta K) n (ls_store ls3) of
                        (s, False) \<Rightarrow> Some (retake (ls3\<lparr>ls_store := s\<rparr>), Inl StoreFailure)
                      | (s, True) \<Rightarrow>
                         (let ls4 = ls3\<lparr>ls_store := s, ls_mounts := gm_del n (ls_mounts ls3)\<rparr>
                          in (case ml_parent m of
                                Some p \<Rightarrow> releaseLayer K p ls4
                              | None \<Rightarrow> Some (ls4, Inr [])))))))"
      using Some True unfolding ReleaseRWLayer_def m1_def ls1_def retake_def by (simp add: Let_def)
    have same1: "obj ls1 = obj ls" "ls_layerMap ls1 = ls_layerMap ls" by (simp_all add: ls1_def)
    have quiet: ?thesis if "ReleaseRWLayer K (RWRef r n) ls = Some (x, res)" "layer_inv x h"
        "obj x = obj ls" "ls_layerMap x = ls_layerMap ls" "\<And>s. res \<noteq> Inl (LayerPanic s)"
        "\<And>k. k \<noteq> n \<Longrightarrow> gm_get (ls_mounts x) k = gm_get (ls_mounts ls) k"
        "mount_outcome (Some m) r (gm_get (ls_mounts x) n) res" for x res
      using that Some by (intro exI [of _ x] exI [of _ res]) auto
    have frame1: "k \<noteq> n \<Longrightarrow> gm_get (ls_mounts ls1) k = gm_get (ls_mounts ls) k" for k by (simp add: ls1_def)
    have retake_io: "obj (retake x) = obj x" "ls_layerMap (retake x) = ls_layerMap x"
        "k \<noteq> n \<Longrightarrow> gm_get (ls_mounts (retake x)) k = gm_get (ls_mounts x) k" for x k
      by (simp_all add: retake_def)
    have out: "mount_outcome (Some m) r (gm_get (ls_mounts (retake x)) n) (Inl DriverFailure)"
        "mount_outcome (Some m) r (gm_get (ls_mounts (retake x)) n) (Inl StoreFailure)" if "ml_refs m1 = []" for x
      using that True mount_retaken [OF W(8) [OF Some] True]
      by (simp_all add: mount_outcome_def retake_def m1_def)
    show ?thesis
    proof (cases "length (ml_refs m1) > 0")
      case T: True
      with run show ?thesis
        by (intro quiet [of ls1 "Inr []"] inv1)
           (use True in \<open>simp_all add: same1 mount_outcome_def m1_def ls1_def\<close>)
    next
      case F: False
      obtain d okd where D: "do_remove (lo_drv K) (ml_mountID m) (ls_driver ls1) = (d, okd)"
        by (cases "do_remove (lo_drv K) (ml_mountID m) (ls_driver ls1)")
      obtain d2 ok2 where D2: "(if ml_initID m \<noteq> '''' then do_remove (lo_drv K) (ml_initID m) d else (d, True)) = (d2, ok2)"
        by (cases "if ml_initID m \<noteq> '''' then do_remove (lo_drv K) (ml_initID m) d else (d, True)")
      let ?ls3 = "ls1\<lparr>ls_driver := d2\<rparr>"
      obtain s sok where S: "mo_remove_mount (lo_meta K) n (ls_store ls1) = (s, sok)"
        by (cases "mo_remove_mount (lo_meta K) n (ls_store ls1)")
      let ?ls4 = "?ls3\<lparr>ls_store := s, ls_mounts := gm_del n (ls_mounts ?ls3)\<rparr>"
      have run': "ReleaseRWLayer K (RWRef r n) ls =
        (if \<not> okd then Some (retake (ls1\<lparr>ls_driver := d\<rparr>), Inl DriverFailure)
         else if \<not> ok2 then Some (retake ?ls3, Inl DriverFailure)
         else if \<not> sok then Some (retake (?ls3\<lparr>ls_store := s\<rparr>), Inl StoreFailure)
         else (case ml_parent m of Some p \<Rightarrow> releaseLayer K p ?ls4 | None \<Rightarrow> Some (?ls4, Inr [])))"
        using F D D2 S unfolding run by (simp add: Let_def split: bool.split option.split)
      consider "\<not> okd" | "okd" "\<not> ok2" | "okd" "ok2" "\<not> sok" | "okd" "ok2" "sok" by blast
      then show ?thesis
      proof cases
        case 4
        have "layer_inv (?ls3\<lparr>ls_store := s\<rparr>) h" using inv1 by simp
        from mount_delete_inv [OF this, of n m1] get1
        have inv4: "layer_inv ?ls4 (hold (ml_parent m1) h)" by simp
        show ?thesis
        proof (cases "ml_parent m")
          case None
          with inv4 run' 4 F True show ?thesis
            by (intro quiet [of ?ls4 "Inr []"]) (simp_all add: m1_def same1 mount_outcome_def ls1_def)
        next
          case (Some p)
          with inv4 have "layer_inv ?ls4 (h(p := Suc (h p)))" by (simp add: m1_def)
          then show ?thesis
          proof (cases rule: releaseLayer_ok [where K = K])
            case (1 ls' res ms)
            have "narrows ?ls4 ls'" using 1(3,4) unfolding narrows_def by blast
            moreover have "obj ?ls4 = obj ls" "ls_layerMap ?ls4 = ls_layerMap ls" by (simp_all add: same1)
            moreover have "ReleaseRWLayer K (RWRef r n) ls = Some (ls', res)" using run' 4 Some 1(1) by simp
            moreover have "res \<noteq> Inl (LayerPanic s)" for s using 1(5) by auto
            moreover have "\<forall>k. k \<noteq> n \<longrightarrow> gm_get (ls_mounts ls') k = gm_get (ls_mounts ls) k"
              by (simp add: shrinksD(1) [OF 1(3)] ls1_def)
            moreover have "mount_outcome (Some m) r (gm_get (ls_mounts ls') n) res"
              using True F by (simp add: shrinksD(1) [OF 1(3)] mount_outcome_def m1_def)
            ultimately show ?thesis using 1(2) \<open>gm_get (ls_mounts ls) n = Some m\<close>
              by (intro exI [of _ ls'] exI [of _ res] exI [of _ ?ls4]) simp
          qed
        qed
      next
        case 1
        with run' show ?thesis
          by (intro quiet [of "retake (ls1\<lparr>ls_driver := d\<rparr>)" "Inl DriverFailure"] ret)
             (use F in \<open>simp_all add: inv1 get1 same1 frame1 out retake_io\<close>)
      next
        case 2
        with run' show ?thesis
          by (intro quiet [of "retake ?ls3" "Inl DriverFailure"] ret)
             (use F in \<open>simp_all add: inv1 get1 same1 frame1 out retake_io\<close>)
      next
        case 3
        with run' show ?thesis
          by (intro quiet [of "retake (?ls3\<lparr>ls_store := s\<rparr>)" "Inl StoreFailure"] ret)
             (use F in \<open>simp_all add: inv1 get1 same1 frame1 out retake_io\<close>)
      qed
    qed
  qed
qed

end
