(* ===== verification/LayerSteps.thy ===== *)
theory LayerSteps
  imports LayerInv
begin

text \<open>
  The layer store under concurrent clients: an operation runs in the parts between which it
  holds no lock, other operations in between, and what holds in every state that can be
  reached.
\<close>

section \<open>Steps\<close>

text \<open>
  Operations in flight: a registration that has taken its parent, one whose layer is built
  and waits for the commit, and a mount being created, which keeps the mount lock.
\<close>

datatype 'x pending =
    Registering "nat option"
  | Built rolayer 'x
  | Mounting string "nat option"

fun pend_parent :: "'x pending \<Rightarrow> nat option" where
  "pend_parent (Registering p) = p"
| "pend_parent (Built l tx) = rl_parent l"
| "pend_parent (Mounting n p) = p"

definition held :: "'x pending list \<Rightarrow> nat \<Rightarrow> nat" where
  "held P a = length (filter (\<lambda>p. pend_parent p = Some a) P)"

definition mount_free :: "'x pending list \<Rightarrow> bool" where
  "mount_free P \<longleftrightarrow> (\<forall>p \<in> set P. case p of Mounting _ _ \<Rightarrow> False | _ \<Rightarrow> True)"

inductive layer_step ::
  "('m, 'x, 'd) layer_ops \<Rightarrow> ('m, 'd) layerstore \<times> 'x pending list \<Rightarrow> ('m, 'd) layerstore \<times> 'x pending list \<Rightarrow> bool"
  for K :: "('m, 'x, 'd) layer_ops" where
  get: "layer_step K (ls, P) (fst (ls_Get k ls), P)"
| release: "ls_Release K l ls = Some (ls', res) \<Longrightarrow> layer_step K (ls, P) (ls', P)"
| reg_begin: "register_parent K parent ls = Some (ls', Inr p) \<Longrightarrow>
    layer_step K (ls, P) (ls', Registering p # P)"
| reg_refused: "register_parent K parent ls = Some (ls', Inl e) \<Longrightarrow> layer_step K (ls, P) (ls', P)"
| reg_build: "register_build K ts c p desc ls = Some (ls', Inr (l, tx)) \<Longrightarrow>
    layer_step K (ls, P @ Registering p # Q) (ls', P @ Built l tx # Q)"
| reg_fails: "register_build K ts c p desc ls = Some (ls', Inl e) \<Longrightarrow>
    layer_step K (ls, P @ Registering p # Q) (ls', P @ Q)"
| reg_commit: "register_commit K l tx ls = Some (ls', res) \<Longrightarrow>
    layer_step K (ls, P @ Built l tx # Q) (ls', P @ Q)"
| rw_begin: "mount_free P \<Longrightarrow> create_rw_parent n parent ls = (ls', Inr p) \<Longrightarrow>
    layer_step K (ls, P) (ls', Mounting n p # P)"
| rw_build: "create_rw_build K n mid p opts ls = Some (ls', res) \<Longrightarrow>
    layer_step K (ls, P @ Mounting n p # Q) (ls', P @ Q)"
| rw_get: "mount_free P \<Longrightarrow> layer_step K (ls, P) (fst (GetRWLayer n ls), P)"
| rw_release: "mount_free P \<Longrightarrow> ReleaseRWLayer K ref ls = Some (ls', res) \<Longrightarrow>
    layer_step K (ls, P) (ls', P)"

definition empty_store :: "'m \<Rightarrow> 'd \<Rightarrow> ('m, 'd) layerstore" where
  "empty_store m d = \<lparr>ls_store = m, ls_driver = d, ls_heap = [], ls_layerMap = [], ls_mounts = [], ls_fresh = 0\<rparr>"

inductive layer_reach ::
  "('m, 'x, 'd) layer_ops \<Rightarrow> ('m, 'd) layerstore \<Rightarrow> 'x pending list \<Rightarrow> bool"
  for K :: "('m, 'x, 'd) layer_ops" where
  start: "layer_reach K (empty_store m d) []"
| step: "layer_reach K ls P \<Longrightarrow> layer_step K (ls, P) (ls', P') \<Longrightarrow> layer_reach K ls' P'"

lemma held_simps [simp]:
  "held [] = (\<lambda>_. 0)" "held (p # P) = hold (pend_parent p) (held P)"
  "held (P @ p # Q) = hold (pend_parent p) (held (P @ Q))"
  by (auto simp: held_def fun_eq_iff hold_def split: option.split)

section \<open>Chain identifiers and depth\<close>

text \<open>
  Every layer's identifier is computed from its parent's and its content's digest, and no
  chain is longer than the limit.
\<close>

definition chain_id :: "(string \<Rightarrow> string) \<Rightarrow> ('m, 'd) layerstore \<Rightarrow> rolayer \<Rightarrow> string" where
  "chain_id H ls l = (case rl_parent l of None \<Rightarrow> rl_diffID l
     | Some p \<Rightarrow> createChainIDFromParent H (rl_chainID (obj ls p)) [rl_diffID l])"

definition chain_ok :: "('m, 'x, 'd) layer_ops \<Rightarrow> ('m, 'd) layerstore \<Rightarrow> bool" where
  "chain_ok K ls \<longleftrightarrow> (\<forall>a. live ls a \<longrightarrow>
     rl_chainID (obj ls a) = chain_id (lo_digest K) ls (obj ls a) \<and>
     (\<exists>n \<le> maxLayerDepth. layer_depth ls a = Some n))"

definition pend_ok :: "('m, 'x, 'd) layer_ops \<Rightarrow> ('m, 'd) layerstore \<Rightarrow> 'x pending \<Rightarrow> bool" where
  "pend_ok K ls p = (case p of
      Registering q \<Rightarrow> (\<forall>a. q = Some a \<longrightarrow> (\<exists>n < maxLayerDepth. layer_depth ls a = Some n))
    | Built l tx \<Rightarrow> rl_refs l = [] \<and> rl_count l = 1 \<and> rl_chainID l = chain_id (lo_digest K) ls l \<and>
        (\<forall>a. rl_parent l = Some a \<longrightarrow> (\<exists>n < maxLayerDepth. layer_depth ls a = Some n))
    | Mounting n q \<Rightarrow> gm_get (ls_mounts ls) n = None)"

text \<open>States whose live objects have the same identity, parent and digest.\<close>

definition same_ids :: "('m, 'd) layerstore \<Rightarrow> ('m, 'd) layerstore \<Rightarrow> bool" where
  "same_ids ls ls' \<longleftrightarrow> (\<forall>a. live ls a \<longrightarrow> rl_chainID (obj ls' a) = rl_chainID (obj ls a) \<and>
     rl_parent (obj ls' a) = rl_parent (obj ls a) \<and> rl_diffID (obj ls' a) = rl_diffID (obj ls a))"

lemma same_ids_agrees: "agrees ls ls' \<Longrightarrow> same_ids ls ls'"
  by (simp add: agrees_def same_ids_def)

lemma same_ids_depth:
  assumes "same_ids ls ls'" "layer_wf ls"
  shows "live ls a \<Longrightarrow> layer_depth ls' a = layer_depth ls a"
proof (induction a rule: less_induct)
  case (less a)
  have par: "rl_parent (obj ls' a) = rl_parent (obj ls a)" using assms(1) less.prems by (simp add: same_ids_def)
  show ?case
  proof (cases "rl_parent (obj ls a)")
    case None
    then show ?thesis using par by (subst (1 2) layer_depth.simps) simp
  next
    case (Some p)
    with layer_wfD(4) [OF assms(2) less.prems] less.IH [of p] have "layer_depth ls' p = layer_depth ls p" by blast
    then show ?thesis using par Some by (subst (1 2) layer_depth.simps) simp
  qed
qed

lemma chain_id_same:
  assumes "same_ids ls ls'" "\<And>p. rl_parent l = Some p \<Longrightarrow> live ls p"
  shows "chain_id H ls' l = chain_id H ls l"
  using assms by (auto simp: chain_id_def same_ids_def split: option.split)

lemma chain_ok_live:
  assumes ok: "chain_ok K ls" and wf: "layer_wf ls" and ag: "same_ids ls ls'" and a: "live ls a"
  shows "rl_chainID (obj ls' a) = chain_id (lo_digest K) ls' (obj ls' a) \<and>
      (\<exists>n \<le> maxLayerDepth. layer_depth ls' a = Some n)"
proof -
  have "chain_id (lo_digest K) ls' (obj ls' a) = chain_id (lo_digest K) ls' (obj ls a)"
    using ag a by (simp add: same_ids_def chain_id_def split: option.split)
  also have "\<dots> = chain_id (lo_digest K) ls (obj ls a)"
    by (rule chain_id_same [OF ag]) (use layer_wfD(4) [OF wf a] in blast)
  finally show ?thesis
    using ok a same_ids_depth [OF ag wf a] ag by (simp add: chain_ok_def same_ids_def)
qed

lemma pend_ok_same:
  assumes ok: "pend_ok K ls p" and wf: "layer_wf ls" and ag: "same_ids ls ls'"
    and par: "\<And>a. pend_parent p = Some a \<Longrightarrow> live ls a"
    and mnt: "\<And>n q. p = Mounting n q \<Longrightarrow> gm_get (ls_mounts ls') n = gm_get (ls_mounts ls) n"
  shows "pend_ok K ls' p"
proof (cases p)
  case (Registering q)
  then show ?thesis using ok par same_ids_depth [OF ag wf] by (auto simp: pend_ok_def)
next
  case (Built l tx)
  have "chain_id (lo_digest K) ls' l = chain_id (lo_digest K) ls l"
    by (rule chain_id_same [OF ag]) (use par Built in simp)
  then show ?thesis using ok par same_ids_depth [OF ag wf] Built by (auto simp: pend_ok_def)
next
  case (Mounting n q)
  then show ?thesis using ok mnt by (simp add: pend_ok_def)
qed

section \<open>The invariant of the state machine\<close>

text \<open>At most one operation holds the mount lock.\<close>

definition one_mount :: "'x pending list \<Rightarrow> bool" where
  "one_mount P \<longleftrightarrow> length (filter (\<lambda>p. case p of Mounting _ _ \<Rightarrow> True | _ \<Rightarrow> False) P) \<le> 1"

definition store_ok :: "('m, 'x, 'd) layer_ops \<Rightarrow> ('m, 'd) layerstore \<Rightarrow> 'x pending list \<Rightarrow> bool" where
  "store_ok K ls P \<longleftrightarrow> layer_inv ls (held P) \<and> chain_ok K ls \<and> (\<forall>p \<in> set P. pend_ok K ls p) \<and> one_mount P"

lemma store_okD:
  assumes "store_ok K ls P"
  shows "layer_inv ls (held P)" "chain_ok K ls" "p \<in> set P \<Longrightarrow> pend_ok K ls p" "one_mount P"
    and "layer_wf ls" "p \<in> set P \<Longrightarrow> pend_parent p = Some a \<Longrightarrow> live ls a"
proof -
  show 1: "layer_inv ls (held P)" "chain_ok K ls" "p \<in> set P \<Longrightarrow> pend_ok K ls p" "one_mount P"
    using assms by (simp_all add: store_ok_def)
  show "layer_wf ls" by (rule layer_invD(1) [OF 1(1)])
  assume "p \<in> set P" "pend_parent p = Some a"
  then have "held P a > 0" by (auto simp: held_def filter_empty_conv)
  then show "live ls a" by (rule layer_invD(2) [OF 1(1)])
qed

lemma one_mount_simps:
  "one_mount (P @ p # Q) \<Longrightarrow> one_mount (P @ Q)"
  "one_mount (P @ Registering q # Q) \<Longrightarrow> one_mount (P @ Built l tx # Q)"
  "mount_free P \<Longrightarrow> one_mount (Mounting n q # P)"
  "one_mount P \<Longrightarrow> one_mount (Registering q # P)"
  "one_mount (P @ Mounting n q # Q) \<Longrightarrow> mount_free (P @ Q)"
  by (auto simp: one_mount_def mount_free_def filter_empty_conv split: pending.splits)

text \<open>A step that adds no layer and does not change identities keeps the invariant.\<close>

lemma store_ok_same:
  assumes ok: "store_ok K ls P" and inv: "layer_inv ls' (held P')" and ag: "same_ids ls ls'"
    and live: "\<And>a. live ls' a \<Longrightarrow> live ls a"
    and mnt: "mount_free P' \<or> ls_mounts ls' = ls_mounts ls"
    and sub: "\<And>p. p \<in> set P' \<Longrightarrow> p \<in> set P \<or> pend_ok K ls' p" and one: "one_mount P'"
  shows "store_ok K ls' P'"
proof -
  note I = store_okD [OF ok]
  have "pend_ok K ls' p" if p: "p \<in> set P'" for p
  proof (cases "p \<in> set P")
    case True
    show ?thesis
    proof (rule pend_ok_same [OF I(3) [OF True] I(5) ag I(6) [OF True]])
      fix n q assume "p = Mounting n q"
      then have "\<not> mount_free P'" using p by (auto simp: mount_free_def intro!: bexI [of _ "Mounting n q"])
      with mnt show "gm_get (ls_mounts ls') n = gm_get (ls_mounts ls) n" by simp
    qed
  qed (use sub p in blast)
  moreover have "chain_ok K ls'"
    unfolding chain_ok_def using chain_ok_live [OF I(2,5) ag] live by blast
  ultimately show ?thesis using inv one by (simp add: store_ok_def)
qed

lemma store_ok_narrow:
  assumes "store_ok K ls P" "layer_inv ls' (held P')" "narrows ls ls'"
    and "\<And>p. p \<in> set P' \<Longrightarrow> p \<in> set P \<or> pend_ok K ls' p" "one_mount P'"
  shows "store_ok K ls' P'"
  by (rule store_ok_same [OF assms(1,2)])
     (use assms(3-5) agrees_narrows [OF assms(3)] narrows_live [OF assms(3)] in
      \<open>auto simp: same_ids_agrees agrees_def\<close>)

section \<open>Every step keeps it\<close>

lemma same_ids_trans:
  "same_ids ls ls1 \<Longrightarrow> (\<And>a. live ls a \<Longrightarrow> live ls1 a) \<Longrightarrow> same_ids ls1 ls2 \<Longrightarrow> same_ids ls ls2"
  by (simp add: same_ids_def)

lemma ls_Get_same:
  "same_ids ls (fst (ls_Get k ls))" "live (fst (ls_Get k ls)) a = live ls a"
  "ls_mounts (fst (ls_Get k ls)) = ls_mounts ls"
proof -
  have "same_ids ls (fst (ls_Get k ls)) \<and> (\<forall>a. live (fst (ls_Get k ls)) a = live ls a) \<and>
    ls_mounts (fst (ls_Get k ls)) = ls_mounts ls"
  proof (cases "gm_get (ls_layerMap ls) k")
    case None
    then show ?thesis by (simp add: ls_Get_def getWithoutLock_def same_ids_def)
  next
    case (Some b)
    let ?ls1 = "add_count 1 b ls"
    have e: "fst (ls_Get k ls) = fst (getReference b ?ls1)"
      using Some by (cases "getReference b ?ls1") (simp add: ls_Get_def getWithoutLock_def)
    have n: "narrows ls ?ls1" using shrinks_count by (auto simp: narrows_def)
    have "agrees ls (fst (getReference b ?ls1))"
      by (rule agrees_trans [OF agrees_narrows [OF n] getReference_agrees(1)]) simp
    then show ?thesis by (simp add: e same_ids_agrees getReference_agrees(2)) (simp add: agrees_def)
  qed
  then show "same_ids ls (fst (ls_Get k ls))" "live (fst (ls_Get k ls)) a = live ls a"
    "ls_mounts (fst (ls_Get k ls)) = ls_mounts ls" by blast+
qed

lemma deleteReference_same:
  "same_ids ls (deleteReference a l ls)" "live (deleteReference a l ls) b = live ls b"
  "ls_mounts (deleteReference a l ls) = ls_mounts ls"
proof -
  have "same_ids ls (deleteReference a l ls) \<and> (\<forall>b. live (deleteReference a l ls) b = live ls b) \<and>
    ls_mounts (deleteReference a l ls) = ls_mounts ls"
  proof (cases l)
    case (CacheRef r c)
    let ?f = "\<lambda>l. l\<lparr>rl_refs := gs_del r (rl_refs l)\<rparr>"
    have f: "same_shape ?f" by (simp add: same_shape_def)
    have "same_ids ls (upd a ?f ls)" by (auto simp: same_ids_def obj_upd)
    then show ?thesis by (simp add: CacheRef deleteReference_def upd_shape [OF f])
  qed (simp add: deleteReference_def same_ids_def)
  then show "same_ids ls (deleteReference a l ls)" "live (deleteReference a l ls) b = live ls b"
    "ls_mounts (deleteReference a l ls) = ls_mounts ls" by blast+
qed

lemma step_release_ok:
  assumes ok: "store_ok K ls P" and run: "ls_Release K l ls = Some (ls', res)"
  shows "store_ok K ls' P"
  using store_okD(1) [OF ok]
proof (cases rule: ls_Release_inv [where K = K and l = l])
  case (released a ls1 lsx resx ms)
  have e: "lsx = ls'" using run released(4) by simp
  have n: "narrows ls1 ls'" using released(6,7) unfolding e narrows_def by blast
  have s1: "same_ids ls ls1" "\<And>b. live ls1 b = live ls b" "ls_mounts ls1 = ls_mounts ls"
    by (simp_all add: released(3) deleteReference_same)
  show ?thesis
  proof (rule store_ok_same [OF ok])
    show "layer_inv ls' (held P)" using released(5) e by simp
    show "same_ids ls ls'"
      by (rule same_ids_trans [OF s1(1) _ same_ids_agrees [OF agrees_narrows [OF n]]]) (simp add: s1)
    show "live ls' a \<Longrightarrow> live ls a" for a using narrows_live [OF n] s1(2) by blast
    show "mount_free P \<or> ls_mounts ls' = ls_mounts ls"
      using agrees_narrows [OF n] s1(3) by (simp add: agrees_def)
    show "one_mount P" by (rule store_okD(4) [OF ok])
  qed simp
qed (use ok run in auto)

lemma step_build_ok:
  assumes ok: "store_ok K ls (P @ Registering p # Q)"
    and run: "register_build K ts c p desc ls = Some (ls', Inr (l, tx))"
  shows "store_ok K ls' (P @ Built l tx # Q)"
proof -
  note I = store_okD [OF ok]
  have inv: "layer_inv ls (hold p (held (P @ Q)))" using I(1) by simp
  then show ?thesis
  proof (cases rule: register_build_ok [where K = K and ts = ts and c = c and desc = desc])
    case (ok lsx lx txx)
    have e: "lsx = ls'" "lx = l" "txx = tx" using run ok(1) by simp_all
    note b = ok(4) [unfolded e built_def] and n = ok(3) [unfolded e]
    have ag: "same_ids ls ls'" by (rule same_ids_agrees [OF agrees_narrows [OF n]])
    have pl: "rl_parent l = p" using b by simp
    have par: "live ls a" if "p = Some a" for a using I(6) [of "Registering p" a] that by simp
    have "chain_id (lo_digest K) ls l = rl_chainID l"
      using b by (simp add: chain_id_def split: option.split)
    moreover have "chain_id (lo_digest K) ls' l = chain_id (lo_digest K) ls l"
      by (rule chain_id_same [OF ag]) (use par pl in simp)
    moreover have "\<exists>n<maxLayerDepth. layer_depth ls' a = Some n" if "rl_parent l = Some a" for a
      using I(3) [of "Registering p"] same_ids_depth [OF ag I(5) par] that pl by (simp add: pend_ok_def)
    ultimately have pend: "pend_ok K ls' (Built l tx)" using b by (simp add: pend_ok_def)
    show ?thesis
    proof (rule store_ok_narrow [OF assms(1) _ n])
      show "layer_inv ls' (held (P @ Built l tx # Q))" using ok(2) e pl by simp
      show "q \<in> set (P @ Built l tx # Q) \<Longrightarrow> q \<in> set (P @ Registering p # Q) \<or> pend_ok K ls' q" for q
        using pend by auto
      show "one_mount (P @ Built l tx # Q)" by (rule one_mount_simps(2) [OF I(4)])
    qed
  qed (use run in simp)
qed

lemma step_commit_ok:
  assumes ok: "store_ok K ls (P @ Built l tx # Q)"
    and run: "register_commit K l tx ls = Some (ls', res)"
  shows "store_ok K ls' (P @ Q)"
proof -
  note I = store_okD [OF ok]
  have inv: "layer_inv ls (hold (rl_parent l) (held (P @ Q)))" using I(1) by simp
  have b: "rl_refs l = []" "rl_count l = 1" "rl_chainID l = chain_id (lo_digest K) ls l"
    and d: "\<And>a. rl_parent l = Some a \<Longrightarrow> \<exists>n<maxLayerDepth. layer_depth ls a = Some n"
    using I(3) [of "Built l tx"] by (simp_all add: pend_ok_def)
  from register_commit_ok [OF inv b(1,2), of K tx] run have inv': "layer_inv ls' (held (P @ Q))" and ag: "agrees ls ls'"
    and new: "\<And>a. live ls' a \<Longrightarrow> live ls a \<or> (rl_chainID (obj ls' a) = rl_chainID l \<and>
       rl_parent (obj ls' a) = rl_parent l \<and> rl_diffID (obj ls' a) = rl_diffID l)" by auto
  note si = same_ids_agrees [OF ag]
  have par: "live ls a" if "rl_parent l = Some a" for a using I(6) [of "Built l tx" a] that by simp
  have "chain_ok K ls'"
    unfolding chain_ok_def
  proof (intro allI impI)
    fix a assume a: "live ls' a"
    show "rl_chainID (obj ls' a) = chain_id (lo_digest K) ls' (obj ls' a) \<and>
      (\<exists>n \<le> maxLayerDepth. layer_depth ls' a = Some n)"
    proof (cases "live ls a")
      case True
      then show ?thesis by (rule chain_ok_live [OF I(2,5) si])
    next
      case False
      with new [OF a] have o: "rl_chainID (obj ls' a) = rl_chainID l" "rl_parent (obj ls' a) = rl_parent l"
        "rl_diffID (obj ls' a) = rl_diffID l" by blast+
      have "chain_id (lo_digest K) ls' (obj ls' a) = chain_id (lo_digest K) ls' l"
        using o by (simp add: chain_id_def split: option.split)
      also have "\<dots> = chain_id (lo_digest K) ls l" by (rule chain_id_same [OF si]) (rule par)
      finally have c: "rl_chainID (obj ls' a) = chain_id (lo_digest K) ls' (obj ls' a)" using b o by simp
      have "\<exists>n \<le> maxLayerDepth. layer_depth ls' a = Some n"
      proof (cases "rl_parent l")
        case None
        then have "layer_depth ls' a = Some 1" using o by (subst layer_depth.simps) simp
        then show ?thesis by (simp add: maxLayerDepth_def)
      next
        case (Some p)
        with d obtain n where n: "n < maxLayerDepth" "layer_depth ls p = Some n" by blast
        have "layer_depth ls' p = Some n" using same_ids_depth [OF si I(5) par [OF Some]] n by simp
        then have "layer_depth ls' a = Some (n + 1)" using o Some by (subst layer_depth.simps) simp
        with n(1) show ?thesis by (intro exI [of _ "n + 1"]) simp
      qed
      with c show ?thesis by blast
    qed
  qed
  moreover have "pend_ok K ls' q" if q: "q \<in> set (P @ Q)" for q
    by (rule pend_ok_same [OF _ I(5) si]) (use q I(3) [of q] I(6) [of q] ag in \<open>auto simp: agrees_def\<close>)
  ultimately show ?thesis using inv' one_mount_simps(1) [OF I(4)] by (simp add: store_ok_def)
qed

lemma same_obj_ids:
  "obj ls' = obj ls \<Longrightarrow> ls_layerMap ls' = ls_layerMap ls \<Longrightarrow> same_ids ls ls' \<and> (\<forall>a. live ls' a = live ls a)"
  by (simp add: same_ids_def live_def)

lemma step_rw_build_ok:
  assumes ok: "store_ok K ls (P @ Mounting n p # Q)"
    and run: "create_rw_build K n mid p opts ls = Some (ls', res)"
  shows "store_ok K ls' (P @ Q)"
proof -
  note I = store_okD [OF ok]
  have inv: "layer_inv ls (hold p (held (P @ Q)))" using I(1) by simp
  have new: "gm_get (ls_mounts ls) n = None" using I(3) [of "Mounting n p"] by (simp add: pend_ok_def)
  from create_rw_build_ok [OF inv new, of K mid opts] run
  have inv': "layer_inv ls' (held (P @ Q))"
    and r: "narrows ls ls' \<or> (obj ls' = obj ls \<and> ls_layerMap ls' = ls_layerMap ls)"
    by (auto split: sum.splits)
  have "same_ids ls ls' \<and> (\<forall>a. live ls' a \<longrightarrow> live ls a)"
    using r same_ids_agrees agrees_narrows narrows_live same_obj_ids by blast
  then show ?thesis
    by (intro store_ok_same [OF ok inv'])
       (use one_mount_simps(5) [OF I(4)] one_mount_simps(1) [OF I(4)] in auto)
qed

lemma GetRWLayer_inv:
  assumes inv: "layer_inv ls h"
  shows "layer_inv (fst (GetRWLayer n ls)) h" "obj (fst (GetRWLayer n ls)) = obj ls"
    "ls_layerMap (fst (GetRWLayer n ls)) = ls_layerMap ls"
proof -
  have "layer_inv (fst (GetRWLayer n ls)) h \<and> obj (fst (GetRWLayer n ls)) = obj ls \<and>
    ls_layerMap (fst (GetRWLayer n ls)) = ls_layerMap ls"
  proof (cases "gm_get (ls_mounts ls) n")
    case (Some m)
    have e: "fst (GetRWLayer n ls) = fst (rw_getReference n m ls)"
      using Some by (cases "rw_getReference n m ls") (simp add: GetRWLayer_def)
    show ?thesis using rw_getReference_inv(1) [OF inv Some]
      by (simp add: e) (simp add: rw_getReference_def Let_def)
  qed (use inv in \<open>simp add: GetRWLayer_def\<close>)
  then show "layer_inv (fst (GetRWLayer n ls)) h" "obj (fst (GetRWLayer n ls)) = obj ls"
    "ls_layerMap (fst (GetRWLayer n ls)) = ls_layerMap ls" by blast+
qed

lemma layer_step_ok:
  assumes "layer_step K (ls, P) (ls', P')" and ok: "store_ok K ls P"
  shows "store_ok K ls' P'"
  using assms(1)
proof cases
  case (get k)
  note I = store_okD [OF ok]
  show ?thesis
    unfolding get
    by (rule store_ok_same [OF ok ls_Get_inv [OF I(1)] ls_Get_same(1)])
       (use I(4) in \<open>simp_all add: ls_Get_same\<close>)
next
  case (release l res)
  with step_release_ok [OF ok] show ?thesis by simp
next
  case (reg_begin parent p)
  note I = store_okD [OF ok]
  from I(1) show ?thesis
  proof (cases rule: register_parent_ok [where K = K and parent = parent])
    case (ok lsx q)
    have e: "lsx = ls'" "q = p" using reg_begin(2) ok(1) by simp_all
    have "pend_ok K ls' (Registering p)" using ok(5) e by (auto simp: pend_ok_def)
    then show ?thesis
      unfolding reg_begin(1)
      by (intro store_ok_narrow [OF assms(2)])
         (use ok e one_mount_simps(4) [OF I(4)] in auto)
  qed (use reg_begin(2) in simp)
next
  case (reg_refused parent e)
  note I = store_okD [OF ok]
  from I(1) show ?thesis
  proof (cases rule: register_parent_ok [where K = K and parent = parent])
    case (refused lsx e')
    then show ?thesis using reg_refused
      by (intro store_ok_narrow [OF assms(2)]) (use I(4) in auto)
  qed (use reg_refused in simp)
next
  case (reg_build ts c p desc l tx Pa Q)
  show ?thesis
    unfolding reg_build(2)
    by (rule step_build_ok [where p = p]) (use ok reg_build in simp_all)
next
  case (reg_fails ts c p desc e Pa Q)
  note I = store_okD [OF ok]
  have inv: "layer_inv ls (hold p (held (Pa @ Q)))" using I(1) reg_fails by simp
  then show ?thesis
  proof (cases rule: register_build_ok [where K = K and ts = ts and c = c and desc = desc])
    case (failed lsx e')
    have e: "lsx = ls'" using reg_fails(3) failed(1) by simp
    show ?thesis
      unfolding reg_fails(2)
      by (rule store_ok_narrow [OF assms(2)])
         (use failed e one_mount_simps(1) [OF I(4) [unfolded reg_fails(1)]] reg_fails(1) in auto)
  qed (use reg_fails in simp)
next
  case (reg_commit l tx res Pa Q)
  show ?thesis
    unfolding reg_commit(2)
    by (rule step_commit_ok [where l = l and tx = tx]) (use ok reg_commit in simp_all)
next
  case (rw_begin n parent p)
  note I = store_okD [OF ok]
  obtain lsx r where R: "getWithoutLock parent ls = (lsx, r)" by (cases "getWithoutLock parent ls")
  have n: "narrows ls ls'"
  proof -
    have "ls' = ls \<or> ls' = lsx" using rw_begin(3) R
      by (auto simp: create_rw_parent_def split: option.splits if_splits)
    moreover have "narrows ls lsx" using getWithoutLock_inv(2,3) [OF I(1) R] shrinks_count
      by (cases r) (auto simp: narrows_def)
    ultimately show ?thesis by auto
  qed
  from create_rw_parent_inv [OF I(1) rw_begin(3)] show ?thesis
    unfolding rw_begin(1)
    by (intro store_ok_narrow [OF ok _ n])
       (use one_mount_simps(3) [OF rw_begin(2)] in \<open>auto simp: pend_ok_def\<close>)
next
  case (rw_build n mid p opts res Pa Q)
  show ?thesis
    unfolding rw_build(2)
    by (rule step_rw_build_ok [where n = n and p = p]) (use ok rw_build in simp_all)
next
  case (rw_get n)
  note I = store_okD [OF ok]
  note G = GetRWLayer_inv [OF I(1), of n]
  show ?thesis
    unfolding rw_get
    by (rule store_ok_same [OF ok G(1)])
       (use same_obj_ids [OF G(2,3)] rw_get(3) I(4) in auto)
next
  case (rw_release ref res)
  note I = store_okD [OF ok]
  obtain r n where ref: "ref = RWRef r n" by (cases ref)
  from ReleaseRWLayer_ok [OF I(1), of K r n] obtain lsx resx ls1 where
    R: "ReleaseRWLayer K (RWRef r n) ls = Some (lsx, resx)" "layer_inv lsx (held P)"
      "obj ls1 = obj ls" "ls_layerMap ls1 = ls_layerMap ls" "narrows ls1 lsx" by blast
  have e: "lsx = ls'" using R(1) rw_release(3) ref by simp
  note s = same_obj_ids [OF R(3,4)]
  have "same_ids ls ls'"
    by (rule same_ids_trans [OF _ _ same_ids_agrees [OF agrees_narrows [OF R(5) [unfolded e]]]]) (use s in auto)
  moreover have "live ls' a \<Longrightarrow> live ls a" for a using narrows_live [OF R(5)] e s by blast
  ultimately show ?thesis
    unfolding rw_release(1)
    by (intro store_ok_same [OF ok]) (use R(2) e rw_release(2) I(4) in auto)
qed

lemma empty_store_ok: "store_ok K (empty_store m d) []"
  by (simp add: store_ok_def layer_inv_def layer_wf_def empty_store_def live_def chain_ok_def one_mount_def)

lemma layer_reach_ok: "layer_reach K ls P \<Longrightarrow> store_ok K ls P"
  by (induction rule: layer_reach.induct) (simp_all add: empty_store_ok layer_step_ok)

end
