(* ===== verification/LayerProps.thy ===== *)
theory LayerProps
  imports LayerSteps
begin

text \<open>
  What the layer store guarantees in every state its clients can bring it to: exact
  reference counts, chain identifiers and depths, operations that always return, and a
  release that frees what nobody uses and nothing else.
\<close>

section \<open>Whole operations are sequences of steps\<close>

lemma mount_free_simps [simp]: "mount_free []" "mount_free (Registering p # P) = mount_free P"
  by (simp_all add: mount_free_def)

lemma registerWithDescriptor_reach:
  assumes r: "layer_reach K ls P" and run: "registerWithDescriptor K ts parent c desc ls = Some (ls', res)"
  shows "layer_reach K ls' P"
proof -
  from run obtain ls1 r1 where 1: "register_parent K parent ls = Some (ls1, r1)"
    by (auto simp: registerWithDescriptor_def bind_eq_Some_conv)
  show ?thesis
  proof (cases r1)
    case (Inl e)
    then show ?thesis using run 1 layer_reach.step [OF r layer_step.reg_refused]
      by (auto simp: registerWithDescriptor_def)
  next
    case (Inr p)
    note R1 = layer_reach.step [OF r layer_step.reg_begin [OF 1 [unfolded Inr]]]
    from run 1 Inr obtain ls2 r2 where 2: "register_build K ts c p desc ls1 = Some (ls2, r2)"
      by (auto simp: registerWithDescriptor_def bind_eq_Some_conv)
    show ?thesis
    proof (cases r2)
      case (Inl e)
      have "layer_step K (ls1, [] @ Registering p # P) (ls2, [] @ P)"
        by (rule layer_step.reg_fails [OF 2 [unfolded Inl]])
      then have "layer_reach K ls2 P" using layer_reach.step [OF R1] by simp
      then show ?thesis using run 1 2 \<open>r1 = Inr p\<close> Inl by (simp add: registerWithDescriptor_def)
    next
      case [simp]: (Inr x)
      obtain l tx where [simp]: "x = (l, tx)" by (cases x)
      have "layer_step K (ls1, [] @ Registering p # P) (ls2, [] @ Built l tx # P)"
        by (rule layer_step.reg_build) (use 2 in simp)
      then have R2: "layer_reach K ls2 (Built l tx # P)" using layer_reach.step [OF R1] by simp
      have "register_commit K l tx ls2 = Some (ls', res)"
        using run 1 2 \<open>r1 = Inr p\<close> by (simp add: registerWithDescriptor_def)
      then have "layer_step K (ls2, [] @ Built l tx # P) (ls', [] @ P)" by (rule layer_step.reg_commit)
      then show ?thesis using layer_reach.step [OF R2] by simp
    qed
  qed
qed

lemma ls_Register_reach:
  "layer_reach K ls P \<Longrightarrow> ls_Register K ts parent c ls = Some (ls', res) \<Longrightarrow> layer_reach K ls' P"
  unfolding ls_Register_def by (rule registerWithDescriptor_reach)

lemma CreateRWLayer_reach:
  assumes r: "layer_reach K ls P" and free: "mount_free P"
    and run: "CreateRWLayer K n parent mid opts ls = Some (ls', res)"
  shows "layer_reach K ls' P"
proof -
  obtain ls1 r1 where 1: "create_rw_parent n parent ls = (ls1, r1)" by (cases "create_rw_parent n parent ls")
  show ?thesis
  proof (cases r1)
    case (Inl e)
    then have "ls1 = ls" using 1
      by (auto simp: create_rw_parent_def getWithoutLock_def split: option.splits if_splits)
    then show ?thesis using run 1 Inl r by (simp add: CreateRWLayer_def)
  next
    case (Inr p)
    note R1 = layer_reach.step [OF r layer_step.rw_begin [OF free 1 [unfolded Inr]]]
    have "create_rw_build K n mid p opts ls1 = Some (ls', res)"
      using run 1 Inr by (simp add: CreateRWLayer_def)
    then have "layer_step K (ls1, [] @ Mounting n p # P) (ls', [] @ P)" by (rule layer_step.rw_build)
    then show ?thesis using layer_reach.step [OF R1] by simp
  qed
qed

section \<open>Every operation returns\<close>

lemma registerWithDescriptor_ok:
  assumes inv: "layer_inv ls h"
  shows "\<exists>ls' res. registerWithDescriptor K ts parent c desc ls = Some (ls', res) \<and> layer_inv ls' h \<and>
    (case res of
       Inl e \<Rightarrow> e \<in> {ErrLayerDoesNotExist, ErrMaxDepthExceeded, DriverFailure, StoreFailure, TarFailure} \<and> narrows ls ls'
     | Inr ref \<Rightarrow> live ls' (ref_layer ref) \<and> hasReference (ref_layer ref) ref ls' \<and>
         rl_chainID (obj ls' (ref_layer ref)) = (if parent = '''' then lo_digest K ts
            else createChainIDFromParent (lo_digest K) parent [lo_digest K ts]))"
  using inv
proof (cases rule: register_parent_ok [where K = K and parent = parent])
  case (refused ls1 e)
  then show ?thesis by (auto simp: registerWithDescriptor_def)
next
  case (ok ls1 p)
  note P = this
  from P(2) show ?thesis
  proof (cases rule: register_build_ok [where K = K and ts = ts and c = c and desc = desc])
    case (failed ls2 e)
    then show ?thesis using P(1) narrows_trans [OF P(3)] by (auto simp: registerWithDescriptor_def)
  next
    case (ok ls2 l tx)
    note b = ok(4) [unfolded built_def]
    have inv2: "layer_inv ls2 (hold (rl_parent l) h)" using ok(2) b by simp
    have ch: "rl_chainID l = (if parent = '''' then lo_digest K ts
            else createChainIDFromParent (lo_digest K) parent [lo_digest K ts])"
      using b P(4,5) by (auto split: option.splits)
    obtain ls3 res where C: "register_commit K l tx ls2 = Some (ls3, res)" "layer_inv ls3 h"
      "case res of
         Inl e \<Rightarrow> e = StoreFailure \<and> narrows ls2 ls3
       | Inr ref \<Rightarrow> rl_chainID (obj ls3 (ref_layer ref)) = rl_chainID l \<and>
         live ls3 (ref_layer ref) \<and> hasReference (ref_layer ref) ref ls3"
      using register_commit_ok [OF inv2, of K tx] b by blast
    have "registerWithDescriptor K ts parent c desc ls = Some (ls3, res)"
      using P(1) ok(1) C(1) by (simp add: registerWithDescriptor_def)
    moreover have "case res of
       Inl e \<Rightarrow> e \<in> {ErrLayerDoesNotExist, ErrMaxDepthExceeded, DriverFailure, StoreFailure, TarFailure} \<and> narrows ls ls3
     | Inr ref \<Rightarrow> live ls3 (ref_layer ref) \<and> hasReference (ref_layer ref) ref ls3 \<and>
         rl_chainID (obj ls3 (ref_layer ref)) = (if parent = '''' then lo_digest K ts
            else createChainIDFromParent (lo_digest K) parent [lo_digest K ts])"
      using C(3) ch narrows_trans [OF P(3) narrows_trans [OF ok(3)]]
      by (cases res) (simp_all split: if_splits)
    ultimately show ?thesis using C(2) by blast
  qed
qed

lemma CreateRWLayer_ok:
  assumes inv: "layer_inv ls h"
  shows "\<exists>ls' res. CreateRWLayer K n parent mid opts ls = Some (ls', res) \<and> layer_inv ls' h \<and>
    (case res of
       Inl e \<Rightarrow> \<forall>s. e \<noteq> LayerPanic s
     | Inr ref \<Rightarrow> gm_get (ls_mounts ls) n = None \<and>
         (\<exists>r m. ref = RWRef r n \<and> gm_get (ls_mounts ls') n = Some m \<and> ml_mountID m = mid \<and> ml_refs m = [r]))"
proof -
  obtain ls1 r1 where 1: "create_rw_parent n parent ls = (ls1, r1)" by (cases "create_rw_parent n parent ls")
  note P = create_rw_parent_inv [OF inv 1]
  show ?thesis
  proof (cases r1)
    case (Inl e)
    then have "e = ErrMountNameConflict \<or> e = ErrLayerDoesNotExist"
      using 1 by (auto simp: create_rw_parent_def split: option.splits if_splits prod.splits)
    then show ?thesis using Inl 1 P inv by (auto simp: CreateRWLayer_def)
  next
    case (Inr p)
    from P [unfolded Inr sum.case] have inv1: "layer_inv ls1 (hold p h)"
      and new: "gm_get (ls_mounts ls1) n = None" and same: "ls_mounts ls1 = ls_mounts ls" by blast+
    have e: "CreateRWLayer K n parent mid opts ls = create_rw_build K n mid p opts ls1"
      using 1 Inr by (simp add: CreateRWLayer_def)
    from create_rw_build_ok [OF inv1 new, of K mid opts] show ?thesis
      unfolding e using new same by (fastforce split: sum.splits)
  qed
qed

lemma LayerPanic_not [simp]:
  "DriverFailure \<noteq> LayerPanic s" "StoreFailure \<noteq> LayerPanic s" "TarFailure \<noteq> LayerPanic s"
  by simp_all

lemma ls_Release_ok:
  assumes inv: "layer_inv ls h"
  shows "\<exists>ls' res. ls_Release K l ls = Some (ls', res) \<and> layer_inv ls' h \<and>
    (\<forall>s. res \<noteq> Inl (LayerPanic s))"
  using inv
proof (cases rule: ls_Release_inv [where K = K and l = l])
  case (released a ls1 ls' res ms)
  then show ?thesis by (auto split: sum.splits)
qed (use inv in auto)

section \<open>A concrete driver and metadata store\<close>

text \<open>
  For the examples: a driver that keeps the list of its directories, a metadata store that
  accepts everything, and a digest function.
\<close>

definition ex_meta :: "(unit, unit) meta_ops" where
  "ex_meta = \<lparr>mo_start = (\<lambda>m. (m, Some ())), mo_set_size = (\<lambda>_ x. (x, True)), mo_set_parent = (\<lambda>_ x. (x, True)),
     mo_set_diff = (\<lambda>_ x. (x, True)), mo_set_cache = (\<lambda>_ x. (x, True)), mo_set_desc = (\<lambda>_ x. (x, True)),
     mo_tarsplit = (\<lambda>_ x. (x, True)), mo_commit = (\<lambda>_ _ m. (m, True)), mo_cancel = (\<lambda>_ m. (m, True)),
     mo_size = (\<lambda>_ _. None), mo_parent = (\<lambda>_ _. None), mo_diff = (\<lambda>_ _. None), mo_cache = (\<lambda>_ _. None),
     mo_desc = (\<lambda>_ _. None), mo_tarsplit_read = (\<lambda>_ _. None), mo_set_mountid = (\<lambda>_ _ m. (m, True)),
     mo_set_initid = (\<lambda>_ _ m. (m, True)), mo_set_mountparent = (\<lambda>_ _ m. (m, True)),
     mo_mountid = (\<lambda>_ _. None), mo_initid = (\<lambda>_ _. None), mo_mountparent = (\<lambda>_ _. None),
     mo_list = (\<lambda>_. None), mo_remove = (\<lambda>_ m. (m, True)), mo_remove_mount = (\<lambda>_ m. (m, True))\<rparr>"

definition ex_driver :: "string list driver_ops" where
  "ex_driver = \<lparr>do_create = (\<lambda>i _ d. (d @ [i], i \<notin> set d)), do_create_rw = (\<lambda>i _ _ _ d. (d @ [i], i \<notin> set d)),
     do_apply = (\<lambda>i _ ts d. (d, Some (int (length ts)))), do_remove = (\<lambda>i d. (removeAll i d, i \<in> set d)),
     do_get = (\<lambda>i _ d. (d, Some i)), do_put = (\<lambda>_ d. (d, True)), do_diff = (\<lambda>_ _ _. None), do_files = (\<lambda>_ _. None)\<rparr>"

definition ex_ops :: "(unit, unit, string list) layer_ops" where
  "ex_ops = \<lparr>lo_meta = ex_meta, lo_drv = ex_driver, lo_digest = (\<lambda>s. ''sha:'' @ s), lo_asm = Some,
     lo_unasm = (\<lambda>_ s. Some s), lo_useTarSplit = True\<rparr>"

definition ex_base :: rolayer where
  "ex_base = \<lparr>rl_chainID = ''sha:os'', rl_diffID = ''sha:os'', rl_parent = None, rl_cacheID = ''c1'', rl_size = 2,
     rl_descriptor = \<lparr>desc_Digest = '''', desc_MediaType = '''', desc_Size = 0\<rparr>, rl_count = 1, rl_refs = [0]\<rparr>"
definition ex_app :: rolayer where
  "ex_app = \<lparr>rl_chainID = ''sha:sha:os sha:app'', rl_diffID = ''sha:app'', rl_parent = Some 0, rl_cacheID = ''c2'', rl_size = 3,
     rl_descriptor = \<lparr>desc_Digest = '''', desc_MediaType = '''', desc_Size = 0\<rparr>, rl_count = 1, rl_refs = [1]\<rparr>"

definition ex_store1 :: "(unit, string list) layerstore" where
  "ex_store1 = \<lparr>ls_store = (), ls_driver = [''c1''], ls_heap = [ex_base], ls_layerMap = [(''sha:os'', 0)], ls_mounts = [], ls_fresh = 1\<rparr>"
definition ex_store2 :: "(unit, string list) layerstore" where
  "ex_store2 = \<lparr>ls_store = (), ls_driver = [''c1'', ''c2''], ls_heap = [ex_base\<lparr>rl_count := 2\<rparr>, ex_app],
     ls_layerMap = [(''sha:os'', 0), (''sha:sha:os sha:app'', 1)], ls_mounts = [], ls_fresh = 2\<rparr>"

lemma ex_register_base: "ls_Register ex_ops ''os'' '''' ''c1'' (empty_store () []) = Some (ex_store1, Inr (CacheRef 0 0))"
  by code_simp

lemma ex_register_app: "ls_Register ex_ops ''app'' ''sha:os'' ''c2'' ex_store1 = Some (ex_store2, Inr (CacheRef 1 1))"
  by code_simp

lemma ex_store2_reach: "layer_reach ex_ops ex_store2 []"
  by (rule ls_Register_reach [OF ls_Register_reach [OF layer_reach.start ex_register_base] ex_register_app])

section \<open>Reference counts\<close>

text \<open>
  C7. In every state the layer store can reach, whatever the interleaving of its clients,
  the reference count of each layer in the map is exact: the client references, the child
  layers, the mounts and the operations in flight that rest on it. The map's key of a layer
  is its chain identifier, and its parent is in the map too.
\<close>

theorem layer_counts_exact:
  assumes "layer_reach K ls P" "gm_get (ls_layerMap ls) k = Some a"
  shows "rl_chainID (obj ls a) = k \<and>
     rl_count (obj ls a) = int (length (rl_refs (obj ls a)) + children ls a + mounts_on ls a + held P a) \<and>
     (\<forall>p. rl_parent (obj ls a) = Some p \<longrightarrow> gm_get (ls_layerMap ls) (rl_chainID (obj ls p)) = Some p)"
proof -
  note I = store_okD [OF layer_reach_ok [OF assms(1)]]
  have a: "live ls a" by (rule live_get [OF I(5) assms(2)])
  show ?thesis
    using layer_invD(3) [OF I(1) a] layer_wfD(3) [OF I(5) assms(2)] layer_wfD(4) [OF I(5) a]
    by (auto simp: live_def)
qed

theorem layer_counts_exact_witness: "rl_count (obj ex_store2 0) = 2 \<and> children ex_store2 0 = 1"
proof -
  have "gm_get (ls_layerMap ex_store2) ''sha:os'' = Some 0" by (simp add: ex_store2_def)
  from layer_counts_exact [OF ex_store2_reach this] show ?thesis
    by (simp add: ex_store2_def children_def mounts_on_def gm_count_def obj_def ex_base_def ex_app_def)
qed

section \<open>Chain identifiers and depth\<close>

text \<open>The digests of a layer's contents and its ancestors', the base layer first.\<close>

partial_function (option) layer_diffs :: "('m, 'd) layerstore \<Rightarrow> nat \<Rightarrow> string list option" where
  "layer_diffs ls a =
     (case rl_parent (obj ls a) of
        None \<Rightarrow> Some [rl_diffID (obj ls a)]
      | Some p \<Rightarrow> Option.bind (layer_diffs ls p) (\<lambda>ds. Some (ds @ [rl_diffID (obj ls a)])))"

lemma createChainIDFromParent_append:
  "createChainIDFromParent H p (ds @ es) = createChainIDFromParent H (createChainIDFromParent H p ds) es"
  by (induction H p ds rule: createChainIDFromParent.induct) simp_all

lemma layer_diffs_chain:
  assumes wf: "layer_wf ls" and ok: "chain_ok K ls"
  shows "live ls a \<Longrightarrow> \<exists>ds. layer_diffs ls a = Some ds \<and> layer_depth ls a = Some (length ds) \<and>
    rl_chainID (obj ls a) = CreateChainID (lo_digest K) ds"
proof (induction a rule: less_induct)
  case (less a)
  have c: "rl_chainID (obj ls a) = chain_id (lo_digest K) ls (obj ls a)"
    using ok less.prems by (simp add: chain_ok_def)
  show ?case
  proof (cases "rl_parent (obj ls a)")
    case None
    have "layer_diffs ls a = Some [rl_diffID (obj ls a)]" using None by (subst layer_diffs.simps) simp
    moreover have "layer_depth ls a = Some 1" using None by (subst layer_depth.simps) simp
    moreover have "rl_chainID (obj ls a) = CreateChainID (lo_digest K) [rl_diffID (obj ls a)]"
      using c None by (simp add: chain_id_def CreateChainID_def)
    ultimately show ?thesis by simp
  next
    case (Some p)
    from layer_wfD(4) [OF wf less.prems Some] less.IH [of p] obtain ds where
      p: "layer_diffs ls p = Some ds" "layer_depth ls p = Some (length ds)"
        "rl_chainID (obj ls p) = CreateChainID (lo_digest K) ds" by blast
    have "layer_diffs ls a = Some (ds @ [rl_diffID (obj ls a)])"
      using Some p(1) by (subst layer_diffs.simps) simp
    moreover have "layer_depth ls a = Some (length (ds @ [rl_diffID (obj ls a)]))"
      using Some p(2) by (subst layer_depth.simps) simp
    moreover have "rl_chainID (obj ls a) = CreateChainID (lo_digest K) (ds @ [rl_diffID (obj ls a)])"
      using c Some p(3) by (simp add: chain_id_def CreateChainID_def createChainIDFromParent_append)
    ultimately show ?thesis by blast
  qed
qed

text \<open>
  C10. Every layer in the map is named by the chain identifier that \<^verbatim>\<open>CreateChainID\<close>
  computes from the digests of the contents along its chain, and no chain is longer than
  \<^const>\<open>maxLayerDepth\<close>; walking the chain terminates.
\<close>

theorem layer_chain_identity:
  assumes "layer_reach K ls P" "gm_get (ls_layerMap ls) k = Some a"
  shows "\<exists>ds. layer_diffs ls a = Some ds \<and> k = CreateChainID (lo_digest K) ds \<and>
     layer_depth ls a = Some (length ds) \<and> length ds \<le> maxLayerDepth"
proof -
  note I = store_okD [OF layer_reach_ok [OF assms(1)]]
  have a: "live ls a" by (rule live_get [OF I(5) assms(2)])
  obtain n where n: "layer_depth ls a = Some n" "n \<le> maxLayerDepth"
    using I(2) a by (auto simp: chain_ok_def)
  from layer_diffs_chain [OF I(5,2) a] obtain ds where
    ds: "layer_diffs ls a = Some ds" "layer_depth ls a = Some (length ds)"
      "rl_chainID (obj ls a) = CreateChainID (lo_digest K) ds" by blast
  have "k = CreateChainID (lo_digest K) ds" using ds(3) layer_wfD(3) [OF I(5) assms(2)] by simp
  with ds(1,2) n show ?thesis by auto
qed

theorem layer_chain_identity_witness:
  "\<exists>ds. layer_diffs ex_store2 1 = Some ds \<and> ''sha:sha:os sha:app'' = CreateChainID (\<lambda>s. ''sha:'' @ s) ds \<and>
     layer_depth ex_store2 1 = Some (length ds) \<and> length ds \<le> maxLayerDepth"
proof -
  have "gm_get (ls_layerMap ex_store2) ''sha:sha:os sha:app'' = Some 1" by (simp add: ex_store2_def)
  from layer_chain_identity [OF ex_store2_reach this] show ?thesis by (simp add: ex_ops_def)
qed

section \<open>Operations return\<close>

text \<open>
  C9. Whatever the driver and the metadata store answer, releasing and registering a layer and creating and
  releasing a mount, started in a reachable state in which no mount is being created (the operations
  on mounts wait for that lock), return, in a reachable state, and never with one of the panics of
  \<^verbatim>\<open>releaseLayer\<close>; a registration or a creation would pass on a panic of the release of its parent.
\<close>

theorem layer_ops_return:
  assumes "layer_reach K ls P" "mount_free P"
  shows "(\<exists>ls' res. ls_Release K l ls = Some (ls', res) \<and> layer_reach K ls' P \<and> (\<forall>s. res \<noteq> Inl (LayerPanic s))) \<and>
     (\<exists>ls' res. registerWithDescriptor K ts parent c desc ls = Some (ls', res) \<and> layer_reach K ls' P \<and>
        (\<forall>s. res \<noteq> Inl (LayerPanic s))) \<and>
     (\<exists>ls' res. CreateRWLayer K n parent mid opts ls = Some (ls', res) \<and> layer_reach K ls' P \<and>
        (\<forall>s. res \<noteq> Inl (LayerPanic s))) \<and>
     (\<exists>ls' res. ReleaseRWLayer K ref ls = Some (ls', res) \<and> layer_reach K ls' P \<and>
        (\<forall>s. res \<noteq> Inl (LayerPanic s)))"
proof (intro conjI)
  note inv = store_okD(1) [OF layer_reach_ok [OF assms(1)]]
  show "\<exists>ls' res. ls_Release K l ls = Some (ls', res) \<and> layer_reach K ls' P \<and> (\<forall>s. res \<noteq> Inl (LayerPanic s))"
    using ls_Release_ok [OF inv, of K l] layer_reach.step [OF assms(1) layer_step.release] by blast
  obtain ls1 res where "registerWithDescriptor K ts parent c desc ls = Some (ls1, res)"
      "case res of Inl e \<Rightarrow> e \<in> {ErrLayerDoesNotExist, ErrMaxDepthExceeded, DriverFailure, StoreFailure, TarFailure}
       | Inr ref \<Rightarrow> True"
    using registerWithDescriptor_ok [OF inv, of K ts parent c desc] by (fastforce split: sum.splits)
  moreover from this(2) have "res \<noteq> Inl (LayerPanic s)" for s by auto
  ultimately show "\<exists>ls' res. registerWithDescriptor K ts parent c desc ls = Some (ls', res) \<and>
      layer_reach K ls' P \<and> (\<forall>s. res \<noteq> Inl (LayerPanic s))"
    using registerWithDescriptor_reach [OF assms(1)] by blast
  obtain ls2 res2 where "CreateRWLayer K n parent mid opts ls = Some (ls2, res2)"
      "case res2 of Inl e \<Rightarrow> \<forall>s. e \<noteq> LayerPanic s | Inr ref \<Rightarrow> True"
    using CreateRWLayer_ok [OF inv, of K n parent mid opts] by (fastforce split: sum.splits)
  moreover from this(2) have "res2 \<noteq> Inl (LayerPanic s)" for s by auto
  ultimately show "\<exists>ls' res. CreateRWLayer K n parent mid opts ls = Some (ls', res) \<and> layer_reach K ls' P \<and>
      (\<forall>s. res \<noteq> Inl (LayerPanic s))"
    using CreateRWLayer_reach [OF assms] by blast
  obtain r m where "ref = RWRef r m" by (cases ref)
  then show "\<exists>ls' res. ReleaseRWLayer K ref ls = Some (ls', res) \<and> layer_reach K ls' P \<and>
      (\<forall>s. res \<noteq> Inl (LayerPanic s))"
    using ReleaseRWLayer_ok [OF inv, of K r m] layer_reach.step [OF assms(1) layer_step.rw_release [OF assms(2)]]
    by blast
qed

theorem layer_ops_return_witness:
  "\<exists>ls' res. ls_Release ex_ops (CacheRef 0 0) ex_store2 = Some (ls', res) \<and> layer_reach ex_ops ls' []"
  using conjunct1 [OF layer_ops_return [OF ex_store2_reach mount_free_simps(1), of "CacheRef 0 0"]] by blast

section \<open>What a release frees\<close>

definition no_garbage :: "('m, 'd) layerstore \<Rightarrow> bool" where
  "no_garbage ls \<longleftrightarrow> (\<forall>a. live ls a \<longrightarrow> rl_count (obj ls a) > 0)"

lemma children_pos: "layer_wf ls \<Longrightarrow> children ls b > 0 \<longleftrightarrow> (\<exists>c. live ls c \<and> rl_parent (obj ls c) = Some b)"
  unfolding children_def gm_count_pos
  using gm_wf_get [OF layer_wfD(1)] layer_wfD(3) live_get unfolding live_def by metis

lemma mounts_on_pos: "layer_wf ls \<Longrightarrow> mounts_on ls b > 0 \<longleftrightarrow> (\<exists>n m. gm_get (ls_mounts ls) n = Some m \<and> ml_parent m = Some b)"
  unfolding mounts_on_def gm_count_pos using gm_wf_get [OF layer_wfD(2)] by metis

lemma release_keeps_used:
  assumes inv: "layer_inv ls' h" and sh: "shrinks ls1 ls' ms" and b: "live ls1 b"
    and used: "h b > 0 \<or> mounts_on ls1 b > 0 \<or> (\<exists>c. live ls' c \<and> rl_parent (obj ls1 c) = Some b)"
    and wf: "layer_wf ls1"
  shows "live ls' b"
  using used
proof (elim disjE exE conjE)
  assume "mounts_on ls1 b > 0"
  then obtain n m where "gm_get (ls_mounts ls1) n = Some m" "ml_parent m = Some b"
    using mounts_on_pos [OF wf] by blast
  then show ?thesis
    using layer_wfD(5) [OF layer_invD(1) [OF inv]] shrinksD(1) [OF sh] by simp
next
  fix c assume "live ls' c" "rl_parent (obj ls1 c) = Some b"
  then show ?thesis
    using layer_wfD(4) [OF layer_invD(1) [OF inv]] shrinks_obj(2) [OF sh] by simp
qed (rule layer_invD(2) [OF inv])

definition ref_ids :: "layer_ref \<Rightarrow> nat set" where
  "ref_ids l = (case l of CacheRef r _ \<Rightarrow> {r} | RawLayer _ \<Rightarrow> {})"

lemma deleteReference_obj:
  "rl_parent (obj (deleteReference a l ls) b) = rl_parent (obj ls b)"
  "rl_chainID (obj (deleteReference a l ls) b) = rl_chainID (obj ls b)"
  "set (rl_refs (obj (deleteReference a l ls) b)) \<supseteq> set (rl_refs (obj ls b)) - ref_ids l"
  "b \<noteq> a \<Longrightarrow> rl_refs (obj (deleteReference a l ls) b) = rl_refs (obj ls b)"
  "ls_layerMap (deleteReference a l ls) = ls_layerMap ls"
  by (auto simp: deleteReference_def ref_ids_def obj_upd split: layer_ref.split)

lemma layer_wf_deleteReference: "layer_wf ls \<Longrightarrow> layer_wf (deleteReference a l ls)"
proof (cases l)
  case (CacheRef r c)
  let ?f = "\<lambda>l. l\<lparr>rl_refs := gs_del r (rl_refs l)\<rparr>"
  assume wf: "layer_wf ls"
  have f: "same_shape ?f" by (simp add: same_shape_def)
  have refs: "distinct (rl_refs (obj (upd a ?f ls) b)) \<and> (\<forall>q \<in> set (rl_refs (obj (upd a ?f ls) b)). q < ls_fresh ls)"
    if "live ls b" for b using layer_wfD(6,7) [OF wf that] by (auto simp: obj_upd)
  show ?thesis
    using wf refs unfolding CacheRef deleteReference_def layer_ref.case
    by (simp only: layer_wf_def upd_frame upd_shape [OF f]) blast
qed (simp add: deleteReference_def)

lemma no_garbage_release:
  assumes inv: "layer_inv ls h" and inv': "layer_inv ls' h" and ng: "no_garbage ls"
    and ls1: "ls1 = deleteReference a l ls" and sh: "shrinks ls1 ls' ms"
    and a: "gone_or_held ls' a"
    and del: "\<And>c b. live ls1 c \<Longrightarrow> \<not> live ls' c \<Longrightarrow> rl_parent (obj ls1 c) = Some b \<Longrightarrow> gone_or_held ls' b"
  shows "no_garbage ls'"
  unfolding no_garbage_def
proof (intro allI impI)
  fix b assume b: "live ls' b"
  have bl: "live ls b" using shrinks_live [OF sh b] by (simp add: ls1 deleteReference_same)
  note W = layer_invD(1) [OF inv] and W' = layer_invD(1) [OF inv']
  show "rl_count (obj ls' b) > 0"
  proof (cases "gone_or_held ls' b")
    case True
    with b show ?thesis by (simp add: gone_or_held_def)
  next
    case False
    then have ba: "b \<noteq> a" and kids: "\<And>c. live ls c \<Longrightarrow> rl_parent (obj ls c) = Some b \<Longrightarrow> live ls' c"
      using a del by (auto simp: ls1 deleteReference_same deleteReference_obj)
    have "rl_count (obj ls b) > 0" using ng bl by (simp add: no_garbage_def)
    then consider "rl_refs (obj ls b) \<noteq> []" | "children ls b > 0" | "mounts_on ls b > 0" | "h b > 0"
      using layer_invD(3) [OF inv bl] by fastforce
    then have "length (rl_refs (obj ls' b)) + children ls' b + mounts_on ls' b + h b > 0"
    proof cases
      case 1
      then show ?thesis using ba by (simp add: shrinks_obj(3) [OF sh] ls1 deleteReference_obj)
    next
      case 2
      then obtain c where "live ls c" "rl_parent (obj ls c) = Some b" using children_pos [OF W] by blast
      moreover from this have "rl_parent (obj ls' c) = Some b"
        by (simp add: shrinks_obj(2) [OF sh] ls1 deleteReference_obj)
      ultimately show ?thesis using kids children_pos [OF W'] by auto
    next
      case 3
      then show ?thesis
        using mounts_on_pos [OF W] mounts_on_pos [OF W'] shrinksD(1) [OF sh] by (simp add: ls1 deleteReference_same)
    qed simp
    then show ?thesis unfolding layer_invD(3) [OF inv' b] by linarith
  qed
qed

text \<open>
  C8. A release that succeeds removes from the map exactly the layers whose metadata it
  returns. Each of them had no reference but the one released, no mount and no operation in
  flight on it, and no child that stays. Nothing is left behind: if every layer was in use
  before, every layer is in use after.
\<close>

theorem layer_release_frees:
  assumes "layer_reach K ls P" "no_garbage ls" "ls_Release K l ls = Some (ls', Inr ms)"
  shows "no_garbage ls' \<and>
     (\<forall>k. gm_get (ls_layerMap ls') k = (if k \<in> lm_ChainID ` set ms then None else gm_get (ls_layerMap ls) k)) \<and>
     (\<forall>b. live ls b \<and> \<not> live ls' b \<longrightarrow> set (rl_refs (obj ls b)) \<subseteq> ref_ids l \<and> mounts_on ls b = 0 \<and>
        held P b = 0 \<and> (\<forall>c. live ls c \<and> rl_parent (obj ls c) = Some b \<longrightarrow> \<not> live ls' c))"
proof -
  note inv = store_okD(1) [OF layer_reach_ok [OF assms(1)]]
  from inv show ?thesis
  proof (cases rule: ls_Release_inv [where K = K and l = l])
    case absent
    then show ?thesis using assms by simp
  next
    case foreign
    then show ?thesis using assms by simp
  next
    case (released a ls1 lsx res msx)
    have e: "lsx = ls'" "res = Inr ms" using assms(3) released(4) by simp_all
    note R = released(5,6,7) [unfolded e] and rel = released(8) [unfolded e sum.case]
    have wf1: "layer_wf ls1"
      unfolding released(3) by (rule layer_wf_deleteReference [OF layer_invD(1) [OF inv]])
    have "no_garbage ls'"
      using rel by (intro no_garbage_release [OF inv R(1) assms(2) released(3) R(2)]) blast+
    moreover have "gm_get (ls_layerMap ls') k = (if k \<in> lm_ChainID ` set ms then None else gm_get (ls_layerMap ls) k)" for k
      using shrinksD(4) [OF R(2), of k] rel by (simp add: released(3) deleteReference_obj)
    moreover have "set (rl_refs (obj ls b)) \<subseteq> ref_ids l \<and> mounts_on ls b = 0 \<and> held P b = 0 \<and>
        (\<forall>c. live ls c \<and> rl_parent (obj ls c) = Some b \<longrightarrow> \<not> live ls' c)" if b: "live ls b" "\<not> live ls' b" for b
    proof -
      have b1: "live ls1 b" using b by (simp add: released(3) deleteReference_same)
      have "rl_refs (obj ls1 b) = []" using R(3) [OF b1] b(2) by blast
      then have "set (rl_refs (obj ls b)) \<subseteq> ref_ids l"
        using deleteReference_obj(3) [of ls b l a] released(3) by auto
      moreover note u = release_keeps_used [OF R(1,2) b1 _ wf1]
      have "mounts_on ls1 b = mounts_on ls b" by (simp add: mounts_on_def released(3) deleteReference_same)
      moreover have "rl_parent (obj ls1 c) = rl_parent (obj ls c)" for c by (simp add: released(3) deleteReference_obj)
      ultimately show ?thesis using u b(2) by (metis gr_zeroI)
    qed
    ultimately show ?thesis by blast
  qed
qed

lemma live_cases: "live ls a \<Longrightarrow> a \<in> snd ` set (ls_layerMap ls)"
  by (force simp: live_def)

lemma ex_store2_no_garbage: "no_garbage ex_store2"
  unfolding no_garbage_def
proof (intro allI impI)
  fix a assume "live ex_store2 a"
  then have "a \<in> {0, 1}" using live_cases [of ex_store2 a] by (simp add: ex_store2_def)
  then show "rl_count (obj ex_store2 a) > 0" by (auto simp: ex_store2_def obj_def ex_base_def ex_app_def)
qed

definition ex_store3 :: "(unit, string list) layerstore" where
  "ex_store3 = \<lparr>ls_store = (), ls_driver = [''c1''], ls_heap = [ex_base, ex_app\<lparr>rl_count := 0, rl_refs := []\<rparr>],
     ls_layerMap = [(''sha:os'', 0)], ls_mounts = [], ls_fresh = 2\<rparr>"

definition ex_app_metadata :: layer_metadata where
  "ex_app_metadata = \<lparr>lm_ChainID = ''sha:sha:os sha:app'', lm_DiffID = ''sha:app'', lm_Size = 5, lm_DiffSize = 3\<rparr>"

lemma ex_release_app: "ls_Release ex_ops (CacheRef 1 1) ex_store2 = Some (ex_store3, Inr [ex_app_metadata])"
  by code_simp

theorem layer_release_frees_witness:
  "no_garbage ex_store3 \<and> gm_get (ls_layerMap ex_store3) ''sha:sha:os sha:app'' = None"
  using layer_release_frees [OF ex_store2_reach ex_store2_no_garbage ex_release_app]
  by (simp add: ex_app_metadata_def)

section \<open>Registration\<close>

text \<open>
  C11. A registration returns. When it succeeds the map holds, under the chain identifier of
  the parent and the digest of the stream, the layer the returned reference is for, and that
  reference is among the layer's own. When it fails it has added nothing.
\<close>

theorem layer_register_result:
  assumes "layer_reach K ls P"
  shows "\<exists>ls' res. ls_Register K ts parent c ls = Some (ls', res) \<and>
     (case res of
        Inl e \<Rightarrow> (\<forall>k. gm_get (ls_layerMap ls') k = None \<or> gm_get (ls_layerMap ls') k = gm_get (ls_layerMap ls) k)
      | Inr ref \<Rightarrow> hasReference (ref_layer ref) ref ls' \<and>
          gm_get (ls_layerMap ls') (if parent = '''' then lo_digest K ts
            else createChainIDFromParent (lo_digest K) parent [lo_digest K ts]) = Some (ref_layer ref))"
proof -
  note inv = store_okD(1) [OF layer_reach_ok [OF assms]]
  let ?chain = "if parent = '''' then lo_digest K ts
            else createChainIDFromParent (lo_digest K) parent [lo_digest K ts]"
  obtain ls' res where R: "ls_Register K ts parent c ls = Some (ls', res)" "layer_inv ls' (held P)"
    "case res of
       Inl e \<Rightarrow> e \<in> {ErrLayerDoesNotExist, ErrMaxDepthExceeded, DriverFailure, StoreFailure, TarFailure} \<and> narrows ls ls'
     | Inr ref \<Rightarrow> live ls' (ref_layer ref) \<and> hasReference (ref_layer ref) ref ls' \<and>
         rl_chainID (obj ls' (ref_layer ref)) = ?chain"
    using registerWithDescriptor_ok [OF inv, of K ts parent c "\<lparr>desc_Digest = '''', desc_MediaType = '''', desc_Size = 0\<rparr>"]
    unfolding ls_Register_def by blast
  show ?thesis
  proof (intro exI conjI)
    show "ls_Register K ts parent c ls = Some (ls', res)" by (rule R(1))
    show "case res of
        Inl e \<Rightarrow> (\<forall>k. gm_get (ls_layerMap ls') k = None \<or> gm_get (ls_layerMap ls') k = gm_get (ls_layerMap ls) k)
      | Inr ref \<Rightarrow> hasReference (ref_layer ref) ref ls' \<and> gm_get (ls_layerMap ls') ?chain = Some (ref_layer ref)"
    proof (cases res)
      case (Inl e)
      then obtain ms where "shrinks ls ls' ms" using R(3) by (auto simp: narrows_def)
      then show ?thesis by (simp add: Inl shrinksD(4))
    next
      case (Inr ref)
      from R(3) [unfolded Inr sum.case] have A: "live ls' (ref_layer ref)" "hasReference (ref_layer ref) ref ls'"
        "rl_chainID (obj ls' (ref_layer ref)) = ?chain" by blast+
      show ?thesis
        unfolding Inr sum.case A(3) [symmetric] using A(1,2) unfolding live_def by blast
    qed
  qed
qed

theorem layer_register_result_witness:
  "gm_get (ls_layerMap ex_store2) ''sha:sha:os sha:app'' = Some 1 \<and> hasReference 1 (CacheRef 1 1) ex_store2"
proof -
  have "layer_reach ex_ops ex_store1 []"
    by (rule ls_Register_reach [OF layer_reach.start ex_register_base])
  from layer_register_result [OF this, of "''app''" "''sha:os''" "''c2''"] ex_register_app
  show ?thesis by (simp add: ex_ops_def)
qed

section \<open>Mounts\<close>

text \<open>
  A mount that was created is found under its name with the identifier it was given.
  Releasing its reference returns: a success takes the mount away. A failure of the driver or
  of the metadata store before the mount's metadata is removed leaves the mount as it was,
  with the reference, so that the release can be repeated. Other mounts are not touched.
\<close>

theorem mount_lifecycle:
  assumes "layer_reach K ls P" "mount_free P" "CreateRWLayer K n parent mid opts ls = Some (ls1, Inr ref)"
  shows "gm_get (ls_mounts ls) n = None \<and> GetMountID n ls1 = Inr mid \<and>
     (\<exists>r m ls2 res. ref = RWRef r n \<and> ml_refs m = [r] \<and> gm_get (ls_mounts ls1) n = Some m \<and>
        ReleaseRWLayer K ref ls1 = Some (ls2, res) \<and>
        (gm_get (ls_mounts ls2) n = None \<or>
         gm_get (ls_mounts ls2) n = Some m \<and> (res = Inl DriverFailure \<or> res = Inl StoreFailure)) \<and>
        (\<forall>k. k \<noteq> n \<longrightarrow> gm_get (ls_mounts ls2) k = gm_get (ls_mounts ls1) k))"
proof -
  note inv = store_okD(1) [OF layer_reach_ok [OF assms(1)]]
  from CreateRWLayer_ok [OF inv, of K n parent mid opts] assms(3) obtain r m where
    C: "gm_get (ls_mounts ls) n = None" "ref = RWRef r n" "gm_get (ls_mounts ls1) n = Some m"
      "ml_mountID m = mid" "ml_refs m = [r]" by auto
  note inv1 = store_okD(1) [OF layer_reach_ok [OF CreateRWLayer_reach [OF assms]]]
  from ReleaseRWLayer_ok [OF inv1, of K r n] obtain ls2 res where
    R: "ReleaseRWLayer K (RWRef r n) ls1 = Some (ls2, res)"
      "\<forall>k. k \<noteq> n \<longrightarrow> gm_get (ls_mounts ls2) k = gm_get (ls_mounts ls1) k"
      "mount_outcome (gm_get (ls_mounts ls1) n) r (gm_get (ls_mounts ls2) n) res" by blast
  have "gs_del r (ml_refs m) = []" by (simp add: C(5) gs_del_def)
  with R(3) C(3,5) have "gm_get (ls_mounts ls2) n = None \<or>
      gm_get (ls_mounts ls2) n = Some m \<and> (res = Inl DriverFailure \<or> res = Inl StoreFailure)"
    by (simp add: mount_outcome_def)
  moreover have "GetMountID n ls1 = Inr mid" using C by (simp add: GetMountID_def)
  ultimately show ?thesis using C R by blast
qed

definition ex_box :: mlayer where
  "ex_box = \<lparr>ml_name = ''box'', ml_mountID = ''m1'', ml_initID = '''', ml_parent = Some 0, ml_refs = [2]\<rparr>"

definition ex_store4 :: "(unit, string list) layerstore" where
  "ex_store4 = ex_store2\<lparr>ls_heap := [ex_base\<lparr>rl_count := 3\<rparr>, ex_app], ls_driver := [''c1'', ''c2'', ''m1''],
      ls_mounts := [(''box'', ex_box)], ls_fresh := 3\<rparr>"

lemma ex_create_box:
  "CreateRWLayer ex_ops ''box'' ''sha:os'' ''m1'' None ex_store2 = Some (ex_store4, Inr (RWRef 2 ''box''))"
  by code_simp

lemma ex_store4_reach: "layer_reach ex_ops ex_store4 []"
  by (rule CreateRWLayer_reach [OF ex_store2_reach mount_free_simps(1) ex_create_box])

theorem mount_lifecycle_witness:
  "GetMountID ''box'' ex_store4 = Inr ''m1'' \<and>
     (\<exists>ls2 res. ReleaseRWLayer ex_ops (RWRef 2 ''box'') ex_store4 = Some (ls2, res))"
  using mount_lifecycle [OF ex_store2_reach mount_free_simps(1) ex_create_box] by auto

text \<open>
  While a mount has other references, taking one more and releasing it leaves the store as
  it was: neither the graph driver, nor the metadata store, nor a layer is touched.
\<close>

theorem mount_shared_release:
  assumes "layer_reach K ls P" "GetRWLayer n ls = (ls1, Inr ref)"
    and "gm_get (ls_mounts ls) n = Some m" "ml_refs m \<noteq> []"
  shows "ReleaseRWLayer K ref ls1 = Some (ls\<lparr>ls_fresh := Suc (ls_fresh ls)\<rparr>, Inr [])"
proof -
  note wf = store_okD(5) [OF layer_reach_ok [OF assms(1)]]
  have fresh: "ls_fresh ls \<notin> set (ml_refs m)" using layer_wfD(9) [OF wf assms(3)] by blast
  let ?m = "m\<lparr>ml_refs := gs_add (ls_fresh ls) (ml_refs m)\<rparr>"
  have 1: "ls1 = ls\<lparr>ls_fresh := Suc (ls_fresh ls), ls_mounts := gm_set n ?m (ls_mounts ls)\<rparr>"
      "ref = RWRef (ls_fresh ls) n"
    using assms(2,3) by (simp_all add: GetRWLayer_def rw_getReference_def Let_def)
  have del: "gs_del (ls_fresh ls) (gs_add (ls_fresh ls) (ml_refs m)) = ml_refs m"
    using fresh by (auto simp: gs_add_def gs_del_def intro!: filter_True)
  have "gm_set n m (gm_set n ?m (ls_mounts ls)) = ls_mounts ls"
    using assms(3) by (simp add: update_triv)
  with del assms(4) show ?thesis
    by (simp add: 1 ReleaseRWLayer_def Let_def)
qed

theorem mount_shared_release_witness:
  "ReleaseRWLayer ex_ops (RWRef 3 ''box'') (fst (GetRWLayer ''box'' ex_store4)) =
     Some (ex_store4\<lparr>ls_fresh := 4\<rparr>, Inr [])"
proof -
  have m: "gm_get (ls_mounts ex_store4) ''box'' = Some ex_box" "ls_fresh ex_store4 = 3" by (simp_all add: ex_store4_def)
  then have g: "GetRWLayer ''box'' ex_store4 = (fst (GetRWLayer ''box'' ex_store4), Inr (RWRef 3 ''box''))"
    by (simp add: GetRWLayer_def rw_getReference_def Let_def)
  have "ml_refs ex_box \<noteq> []" by (simp add: ex_box_def)
  from mount_shared_release [OF ex_store4_reach g m(1) this] show ?thesis by (simp add: m)
qed

end
