(* ===== verification/FileStore.thy ===== *)
theory FileStore
  imports LayerProps "HOL-Library.Char_ord" "HOL-Library.List_Lexorder"
begin

text \<open>
  The metadata store of layer/filestore.go: the files that describe the layers and the mounts
  on disk, and the write sets of pkg/ioutils/fswriters.go that make a layer's files appear at
  once.

  A directory is a map from file names to contents. What the json and gzip packages encode is
  kept as the value that was encoded. \<open>disk\<close> answers for each path whether system calls on it
  succeed; a call that fails changes nothing. Names of mounts are container identifiers, so
  that their directories are apart.
\<close>

section \<open>Digests\<close>

definition hex_char :: "char \<Rightarrow> bool" where
  "hex_char c = (let n = (of_char c :: nat) in (48 \<le> n \<and> n \<le> 57) \<or> (97 \<le> n \<and> n \<le> 102))"

definition hex_char_any :: "char \<Rightarrow> bool" where
  "hex_char_any c = (let n = (of_char c :: nat) in hex_char c \<or> (65 \<le> n \<and> n \<le> 70))"

text \<open>The digest algorithms that are available, with the length of their hex form.\<close>

definition digest_hex_len :: "string \<Rightarrow> nat option" where
  "digest_hex_len alg =
     (if alg = ''sha256'' then Some 64 else if alg = ''sha384'' then Some 96
      else if alg = ''sha512'' then Some 128 else None)"

definition digest_valid :: "string \<Rightarrow> bool" where
  "digest_valid s =
     (case split_first (CHR '':'') s of
        (alg, None) \<Rightarrow> False
      | (alg, Some hex) \<Rightarrow> list_all hex_char_any hex \<and> digest_hex_len alg = Some (length hex))"

definition digest_parse :: "string \<Rightarrow> string option" where
  "digest_parse s = (if digest_valid s then Some s else None)"

text \<open>\<^verbatim>\<open>Algorithm\<close> and \<^verbatim>\<open>Hex\<close>; without a separator they panic.\<close>

definition digest_split :: "string \<Rightarrow> (string \<times> string) option" where
  "digest_split s = (case split_first (CHR '':'') s of (alg, Some hex) \<Rightarrow> Some (alg, hex) | (alg, None) \<Rightarrow> None)"

section \<open>Files\<close>

datatype content = Text string | Json descriptor | Gzip string

type_synonym files = "(string, content) gomap"

record write_set =
  ws_root :: nat
  ws_files :: files

record filestore =
  fs_layers :: "(string \<times> string, files) gomap"
  fs_mounts :: "(string, files) gomap"
  fs_sets :: "nat list"
  fs_next :: nat

datatype read_result = NotExist | ReadFails | Content content

type_synonym disk = "string list \<Rightarrow> bool"

definition read_file :: "disk \<Rightarrow> string list \<Rightarrow> files option \<Rightarrow> string \<Rightarrow> read_result" where
  "read_file disk dir fs name =
     (if \<not> disk (dir @ [name]) then ReadFails
      else case fs of
        None \<Rightarrow> NotExist
      | Some fs \<Rightarrow> (case gm_get fs name of None \<Rightarrow> NotExist | Some c \<Rightarrow> Content c))"

definition read_text :: "disk \<Rightarrow> string list \<Rightarrow> files option \<Rightarrow> string \<Rightarrow> string option" where
  "read_text disk dir fs name = (case read_file disk dir fs name of Content (Text s) \<Rightarrow> Some s | _ \<Rightarrow> None)"

text \<open>\<^verbatim>\<open>stringIDRegexp\<close>.\<close>

definition string_id :: "string \<Rightarrow> bool" where
  "string_id s \<longleftrightarrow> length (take 64 s) = 64 \<and> list_all hex_char (take 64 s) \<and>
     (drop 64 s = '''' \<or> drop 64 s = ''-init'')"

section \<open>Write sets\<close>

definition set_dir :: "nat \<Rightarrow> string list" where
  "set_dir n = [''tmp'', ''write-set-'' @ nat_digits n]"

definition NewAtomicWriteSet :: "disk \<Rightarrow> filestore \<Rightarrow> filestore \<times> write_set option" where
  "NewAtomicWriteSet disk m =
     (let n = fs_next m in
      if \<not> disk (set_dir n) then (m\<lparr>fs_next := Suc n\<rparr>, None)
      else (m\<lparr>fs_next := Suc n, fs_sets := fs_sets m @ [n]\<rparr>, Some \<lparr>ws_root = n, ws_files = []\<rparr>))"

definition ws_WriteFile :: "disk \<Rightarrow> string \<Rightarrow> content \<Rightarrow> write_set \<Rightarrow> write_set \<times> bool" where
  "ws_WriteFile disk name c tx =
     (if \<not> disk (set_dir (ws_root tx) @ [name]) then (tx, False)
      else (tx\<lparr>ws_files := gm_set name c (ws_files tx)\<rparr>, True))"

definition ws_Cancel :: "disk \<Rightarrow> write_set \<Rightarrow> filestore \<Rightarrow> filestore \<times> bool" where
  "ws_Cancel disk tx m =
     (if \<not> disk (set_dir (ws_root tx)) then (m, False)
      else (m\<lparr>fs_sets := removeAll (ws_root tx) (fs_sets m)\<rparr>, True))"

text \<open>The rename of \<^verbatim>\<open>Commit\<close> fails when the target is a directory that is not empty.\<close>

definition ws_Commit :: "disk \<Rightarrow> write_set \<Rightarrow> string \<times> string \<Rightarrow> filestore \<Rightarrow> filestore \<times> bool" where
  "ws_Commit disk tx target m =
     (if \<not> disk [fst target, snd target] \<or> ws_root tx \<notin> set (fs_sets m) \<or> gm_list (fs_layers m) target \<noteq> []
      then (m, False)
      else (m\<lparr>fs_layers := gm_set target (ws_files tx) (fs_layers m),
              fs_sets := removeAll (ws_root tx) (fs_sets m)\<rparr>, True))"

section \<open>Transactions\<close>

definition StartTransaction :: "disk \<Rightarrow> filestore \<Rightarrow> filestore \<times> write_set option" where
  "StartTransaction disk m = (if \<not> disk [''tmp''] then (m, None) else NewAtomicWriteSet disk m)"

definition SetSize :: "disk \<Rightarrow> int \<Rightarrow> write_set \<Rightarrow> write_set \<times> bool" where
  "SetSize disk sz tx = ws_WriteFile disk ''size'' (Text (itoa sz)) tx"

definition SetParent :: "disk \<Rightarrow> string \<Rightarrow> write_set \<Rightarrow> write_set \<times> bool" where
  "SetParent disk parent tx = ws_WriteFile disk ''parent'' (Text parent) tx"

definition SetDiffID :: "disk \<Rightarrow> string \<Rightarrow> write_set \<Rightarrow> write_set \<times> bool" where
  "SetDiffID disk diff tx = ws_WriteFile disk ''diff'' (Text diff) tx"

definition SetCacheID :: "disk \<Rightarrow> string \<Rightarrow> write_set \<Rightarrow> write_set \<times> bool" where
  "SetCacheID disk cacheID tx = ws_WriteFile disk ''cache-id'' (Text cacheID) tx"

definition SetDescriptor :: "disk \<Rightarrow> descriptor \<Rightarrow> write_set \<Rightarrow> write_set \<times> bool" where
  "SetDescriptor disk ref tx = ws_WriteFile disk ''descriptor.json'' (Json ref) tx"

definition TarSplitWriter :: "disk \<Rightarrow> string \<Rightarrow> write_set \<Rightarrow> write_set \<times> bool" where
  "TarSplitWriter disk packed tx = ws_WriteFile disk ''tar-split.json.gz'' (Gzip packed) tx"

text \<open>
  \<open>getLayerDirectory\<close> panics for an identifier without a separator; such an identifier is
  not the result of a digest, and its operations fail here.
\<close>

definition getLayerDirectory :: "string \<Rightarrow> (string \<times> string) option" where
  "getLayerDirectory layer = digest_split layer"

definition Commit :: "disk \<Rightarrow> write_set \<Rightarrow> string \<Rightarrow> filestore \<Rightarrow> filestore \<times> bool" where
  "Commit disk tx layer m =
     (case getLayerDirectory layer of
        None \<Rightarrow> (m, False)
      | Some dir \<Rightarrow> if \<not> disk [fst dir] then (m, False) else ws_Commit disk tx dir m)"

definition Cancel :: "disk \<Rightarrow> write_set \<Rightarrow> filestore \<Rightarrow> filestore \<times> bool" where
  "Cancel disk tx m = ws_Cancel disk tx m"

section \<open>Reading a layer's metadata\<close>

definition read_layer :: "disk \<Rightarrow> filestore \<Rightarrow> string \<Rightarrow> string \<Rightarrow> read_result" where
  "read_layer disk m layer name =
     (case getLayerDirectory layer of
        None \<Rightarrow> ReadFails
      | Some dir \<Rightarrow> read_file disk [fst dir, snd dir] (gm_get (fs_layers m) dir) name)"

definition GetSize :: "disk \<Rightarrow> filestore \<Rightarrow> string \<Rightarrow> int option" where
  "GetSize disk m layer = (case read_layer disk m layer ''size'' of Content (Text s) \<Rightarrow> parse_int64 s | _ \<Rightarrow> None)"

definition GetParent :: "disk \<Rightarrow> filestore \<Rightarrow> string \<Rightarrow> string option" where
  "GetParent disk m layer =
     (case read_layer disk m layer ''parent'' of
        NotExist \<Rightarrow> Some ''''
      | Content (Text s) \<Rightarrow> digest_parse (trim_space s)
      | _ \<Rightarrow> None)"

definition GetDiffID :: "disk \<Rightarrow> filestore \<Rightarrow> string \<Rightarrow> string option" where
  "GetDiffID disk m layer =
     (case read_layer disk m layer ''diff'' of Content (Text s) \<Rightarrow> digest_parse (trim_space s) | _ \<Rightarrow> None)"

definition GetCacheID :: "disk \<Rightarrow> filestore \<Rightarrow> string \<Rightarrow> string option" where
  "GetCacheID disk m layer =
     (case read_layer disk m layer ''cache-id'' of
        Content (Text s) \<Rightarrow> if string_id (trim_space s) then Some (trim_space s) else None
      | _ \<Rightarrow> None)"

definition empty_descriptor :: descriptor where
  "empty_descriptor = \<lparr>desc_Digest = '''', desc_MediaType = '''', desc_Size = 0\<rparr>"

definition GetDescriptor :: "disk \<Rightarrow> filestore \<Rightarrow> string \<Rightarrow> descriptor option" where
  "GetDescriptor disk m layer =
     (case read_layer disk m layer ''descriptor.json'' of
        NotExist \<Rightarrow> Some empty_descriptor
      | Content (Json d) \<Rightarrow> Some d
      | _ \<Rightarrow> None)"

definition TarSplitReader :: "disk \<Rightarrow> filestore \<Rightarrow> string \<Rightarrow> string option" where
  "TarSplitReader disk m layer =
     (case read_layer disk m layer ''tar-split.json.gz'' of Content (Gzip p) \<Rightarrow> Some p | _ \<Rightarrow> None)"

section \<open>Mounts\<close>

text \<open>The directory of the mount is made first, and stays when the write fails.\<close>

definition write_mount :: "disk \<Rightarrow> string \<Rightarrow> string \<Rightarrow> string \<Rightarrow> filestore \<Rightarrow> filestore \<times> bool" where
  "write_mount disk mount name s m =
     (if \<not> disk [''mounts'', mount] then (m, False)
      else
       (let m1 = m\<lparr>fs_mounts := gm_set mount (gm_list (fs_mounts m) mount) (fs_mounts m)\<rparr>
        in if \<not> disk [''mounts'', mount, name] then (m1, False)
           else (m1\<lparr>fs_mounts := gm_set mount (gm_set name (Text s) (gm_list (fs_mounts m1) mount)) (fs_mounts m1)\<rparr>,
                 True)))"

definition SetMountID :: "disk \<Rightarrow> string \<Rightarrow> string \<Rightarrow> filestore \<Rightarrow> filestore \<times> bool" where
  "SetMountID disk mount mountID m = write_mount disk mount ''mount-id'' mountID m"

definition SetInitID :: "disk \<Rightarrow> string \<Rightarrow> string \<Rightarrow> filestore \<Rightarrow> filestore \<times> bool" where
  "SetInitID disk mount ini m = write_mount disk mount ''init-id'' ini m"

definition SetMountParent :: "disk \<Rightarrow> string \<Rightarrow> string \<Rightarrow> filestore \<Rightarrow> filestore \<times> bool" where
  "SetMountParent disk mount parent m = write_mount disk mount ''parent'' parent m"

definition read_mount :: "disk \<Rightarrow> filestore \<Rightarrow> string \<Rightarrow> string \<Rightarrow> read_result" where
  "read_mount disk m mount name = read_file disk [''mounts'', mount] (gm_get (fs_mounts m) mount) name"

definition fs_GetMountID :: "disk \<Rightarrow> filestore \<Rightarrow> string \<Rightarrow> string option" where
  "fs_GetMountID disk m mount =
     (case read_mount disk m mount ''mount-id'' of
        Content (Text s) \<Rightarrow> if string_id (trim_space s) then Some (trim_space s) else None
      | _ \<Rightarrow> None)"

definition GetInitID :: "disk \<Rightarrow> filestore \<Rightarrow> string \<Rightarrow> string option" where
  "GetInitID disk m mount =
     (case read_mount disk m mount ''init-id'' of
        NotExist \<Rightarrow> Some ''''
      | Content (Text s) \<Rightarrow> if string_id (trim_space s) then Some (trim_space s) else None
      | _ \<Rightarrow> None)"

definition GetMountParent :: "disk \<Rightarrow> filestore \<Rightarrow> string \<Rightarrow> string option" where
  "GetMountParent disk m mount =
     (case read_mount disk m mount ''parent'' of
        NotExist \<Rightarrow> Some ''''
      | Content (Text s) \<Rightarrow> digest_parse (trim_space s)
      | _ \<Rightarrow> None)"

section \<open>Listing and removing\<close>

definition supportedAlgorithms :: "string list" where
  "supportedAlgorithms = [''sha256'']"

definition list_algorithm :: "string \<Rightarrow> filestore \<Rightarrow> string list" where
  "list_algorithm alg m =
     filter digest_valid (map (\<lambda>hex. alg @ '':'' @ hex)
       (filter (\<lambda>name. name \<noteq> ''mounts'') (sort (map snd (filter (\<lambda>d. fst d = alg) (map fst (fs_layers m)))))))"

definition fs_List :: "disk \<Rightarrow> filestore \<Rightarrow> (string list \<times> string list) option" where
  "fs_List disk m =
     (if \<exists>alg \<in> set supportedAlgorithms. \<not> disk [alg] then None
      else if \<not> disk [''mounts''] then None
      else Some (concat (map (\<lambda>alg. list_algorithm alg m) supportedAlgorithms), sort (map fst (fs_mounts m))))"

definition fs_Remove :: "disk \<Rightarrow> string \<Rightarrow> filestore \<Rightarrow> filestore \<times> bool" where
  "fs_Remove disk layer m =
     (case getLayerDirectory layer of
        None \<Rightarrow> (m, False)
      | Some dir \<Rightarrow> if \<not> disk [fst dir, snd dir] then (m, False)
                   else (m\<lparr>fs_layers := gm_del dir (fs_layers m)\<rparr>, True))"

definition fs_RemoveMount :: "disk \<Rightarrow> string \<Rightarrow> filestore \<Rightarrow> filestore \<times> bool" where
  "fs_RemoveMount disk mount m =
     (if \<not> disk [''mounts'', mount] then (m, False)
      else (m\<lparr>fs_mounts := gm_del mount (fs_mounts m)\<rparr>, True))"

text \<open>The store as the layer store uses it.\<close>

definition fs_meta :: "disk \<Rightarrow> (filestore, write_set) meta_ops" where
  "fs_meta disk = \<lparr>mo_start = StartTransaction disk, mo_set_size = SetSize disk, mo_set_parent = SetParent disk,
     mo_set_diff = SetDiffID disk, mo_set_cache = SetCacheID disk, mo_set_desc = SetDescriptor disk,
     mo_tarsplit = TarSplitWriter disk, mo_commit = Commit disk, mo_cancel = Cancel disk,
     mo_size = GetSize disk, mo_parent = GetParent disk, mo_diff = GetDiffID disk, mo_cache = GetCacheID disk,
     mo_desc = GetDescriptor disk, mo_tarsplit_read = TarSplitReader disk, mo_set_mountid = SetMountID disk,
     mo_set_initid = SetInitID disk, mo_set_mountparent = SetMountParent disk,
     mo_mountid = fs_GetMountID disk, mo_initid = GetInitID disk, mo_mountparent = GetMountParent disk,
     mo_list = fs_List disk, mo_remove = fs_Remove disk, mo_remove_mount = fs_RemoveMount disk\<rparr>"

end
