(* ===== verification/MetadataStore.thy ===== *)
theory MetadataStore
  imports FileStore
begin

text \<open>
  What the layer store relies on in its metadata store, as a locale, with the layer store's
  lemmas proved from it; the file store as its instance; and what a registered layer reads
  back as.
\<close>

section \<open>The interface\<close>

text \<open>The metadata of a layer that a transaction has collected.\<close>

record lmeta =
  lv_size :: "int option"
  lv_parent :: "string option"
  lv_diff :: "string option"
  lv_cache :: "string option"
  lv_desc :: "descriptor option"
  lv_tar :: "string option"

definition empty_lmeta :: lmeta where
  "empty_lmeta = \<lparr>lv_size = None, lv_parent = None, lv_diff = None, lv_cache = None, lv_desc = None, lv_tar = None\<rparr>"

text \<open>Metadata that the store can represent: sizes of 64 bits, digests and identifiers well formed.\<close>

definition lmeta_valid :: "lmeta \<Rightarrow> bool" where
  "lmeta_valid v \<longleftrightarrow> (\<forall>n. lv_size v = Some n \<longrightarrow> - (2 ^ 63) \<le> n \<and> n < 2 ^ 63) \<and>
     (\<forall>p. lv_parent v = Some p \<longrightarrow> digest_valid p) \<and> (\<forall>d. lv_diff v = Some d \<longrightarrow> digest_valid d) \<and>
     (\<forall>c. lv_cache v = Some c \<longrightarrow> string_id c)"

text \<open>
  A read answers \<open>v\<close>, or fails; where no system call fails (\<open>io\<close>) it answers. Reading the
  metadata of \<open>c\<close> yields what the transaction collected.
\<close>

definition answers :: "bool \<Rightarrow> 'a option \<Rightarrow> 'a option \<Rightarrow> bool" where
  "answers io r v \<longleftrightarrow> r = v \<or> \<not> io \<and> r = None"

definition reads_as :: "('m, 'x) meta_ops \<Rightarrow> bool \<Rightarrow> lmeta \<Rightarrow> 'm \<Rightarrow> string \<Rightarrow> bool" where
  "reads_as M io v m c \<longleftrightarrow>
     answers io (mo_size M m c) (lv_size v) \<and> answers io (mo_diff M m c) (lv_diff v) \<and>
     answers io (mo_cache M m c) (lv_cache v) \<and>
     answers io (mo_parent M m c) (Some (case lv_parent v of None \<Rightarrow> '''' | Some p \<Rightarrow> p)) \<and>
     answers io (mo_desc M m c) (Some (case lv_desc v of None \<Rightarrow> empty_descriptor | Some d \<Rightarrow> d)) \<and>
     answers io (mo_tarsplit_read M m c) (lv_tar v)"

text \<open>The metadata of \<open>c\<close> is the same in both states.\<close>

definition same_reads :: "('m, 'x) meta_ops \<Rightarrow> 'm \<Rightarrow> 'm \<Rightarrow> string \<Rightarrow> bool" where
  "same_reads M m m' c \<longleftrightarrow> mo_size M m' c = mo_size M m c \<and> mo_diff M m' c = mo_diff M m c \<and>
     mo_cache M m' c = mo_cache M m c \<and> mo_parent M m' c = mo_parent M m c \<and>
     mo_desc M m' c = mo_desc M m c \<and> mo_tarsplit_read M m' c = mo_tarsplit_read M m c"

locale metadata_store =
  fixes M :: "('m, 'x) meta_ops" and wf_tx :: "'x \<Rightarrow> bool" and view :: "'x \<Rightarrow> lmeta" and io :: bool
  assumes start: "mo_start M m = (m1, Some tx) \<Longrightarrow> wf_tx tx \<and> view tx = empty_lmeta"
    and set_size: "mo_set_size M n tx = (tx1, True) \<Longrightarrow> wf_tx tx \<Longrightarrow> wf_tx tx1 \<and> view tx1 = (view tx)\<lparr>lv_size := Some n\<rparr>"
    and set_parent: "mo_set_parent M p tx = (tx1, True) \<Longrightarrow> wf_tx tx \<Longrightarrow> wf_tx tx1 \<and> view tx1 = (view tx)\<lparr>lv_parent := Some p\<rparr>"
    and set_diff: "mo_set_diff M d tx = (tx1, True) \<Longrightarrow> wf_tx tx \<Longrightarrow> wf_tx tx1 \<and> view tx1 = (view tx)\<lparr>lv_diff := Some d\<rparr>"
    and set_cache: "mo_set_cache M i tx = (tx1, True) \<Longrightarrow> wf_tx tx \<Longrightarrow> wf_tx tx1 \<and> view tx1 = (view tx)\<lparr>lv_cache := Some i\<rparr>"
    and set_desc: "mo_set_desc M r tx = (tx1, True) \<Longrightarrow> wf_tx tx \<Longrightarrow> wf_tx tx1 \<and> view tx1 = (view tx)\<lparr>lv_desc := Some r\<rparr>"
    and set_tar: "mo_tarsplit M t tx = (tx1, True) \<Longrightarrow> wf_tx tx \<Longrightarrow> wf_tx tx1 \<and> view tx1 = (view tx)\<lparr>lv_tar := Some t\<rparr>"
    and commit_reads: "mo_commit M tx c m = (m1, True) \<Longrightarrow> wf_tx tx \<Longrightarrow> lmeta_valid (view tx) \<Longrightarrow> reads_as M io (view tx) m1 c"
    and commit_other: "mo_commit M tx c m = (m1, ok) \<Longrightarrow> ok \<longrightarrow> c' \<noteq> c \<Longrightarrow> same_reads M m m1 c'"
    and remove_other: "mo_remove M c m = (m1, ok) \<Longrightarrow> c' \<noteq> c \<Longrightarrow> same_reads M m m1 c'"
    and start_other: "mo_start M m = (m1, res) \<Longrightarrow> same_reads M m m1 c'"
    and cancel_other: "mo_cancel M tx m = (m1, ok) \<Longrightarrow> same_reads M m m1 c'"
    and mountid_other: "mo_set_mountid M mnt i m = (m1, ok) \<Longrightarrow> same_reads M m m1 c'"
    and initid_other: "mo_set_initid M mnt i m = (m1, ok) \<Longrightarrow> same_reads M m m1 c'"
    and mountparent_other: "mo_set_mountparent M mnt p m = (m1, ok) \<Longrightarrow> same_reads M m m1 c'"
    and removemount_other: "mo_remove_mount M mnt m = (m1, ok) \<Longrightarrow> same_reads M m m1 c'"
begin

text \<open>The metadata that \<^const>\<open>storeLayer\<close> writes.\<close>

lemma storeLayer_view:
  assumes "lo_meta K = M" "storeLayer K l pc tx = (tx1, True)" and wf: "wf_tx tx"
  shows "wf_tx tx1 \<and> view tx1 = (view tx)\<lparr>lv_size := Some (rl_size l), lv_diff := Some (rl_diffID l), lv_cache := Some (rl_cacheID l),
     lv_desc := (if desc_Digest (rl_descriptor l) \<noteq> '''' then Some (rl_descriptor l) else lv_desc (view tx)),
     lv_parent := (case pc of None \<Rightarrow> lv_parent (view tx) | Some p \<Rightarrow> Some p)\<rparr>"
proof -
  obtain t1 where 1: "mo_set_diff M (rl_diffID l) tx = (t1, True)"
    using assms by (cases "mo_set_diff M (rl_diffID l) tx") (auto simp: storeLayer_def Let_def split: if_splits)
  obtain t2 where 2: "mo_set_size M (rl_size l) t1 = (t2, True)"
    using assms 1 by (cases "mo_set_size M (rl_size l) t1") (auto simp: storeLayer_def Let_def split: if_splits)
  obtain t3 where 3: "mo_set_cache M (rl_cacheID l) t2 = (t3, True)"
    using assms 1 2 by (cases "mo_set_cache M (rl_cacheID l) t2") (auto simp: storeLayer_def Let_def split: if_splits)
  obtain t4 where 4: "(if desc_Digest (rl_descriptor l) \<noteq> '''' then mo_set_desc M (rl_descriptor l) t3 else (t3, True)) = (t4, True)"
    using assms 1 2 3
    by (cases "if desc_Digest (rl_descriptor l) \<noteq> '''' then mo_set_desc M (rl_descriptor l) t3 else (t3, True)")
       (auto simp: storeLayer_def Let_def split: if_splits)
  have 5: "(case pc of None \<Rightarrow> (t4, True) | Some p \<Rightarrow> mo_set_parent M p t4) = (tx1, True)"
    using assms 1 2 3 4 by (simp add: storeLayer_def)
  have w1: "wf_tx t1 \<and> view t1 = (view tx)\<lparr>lv_diff := Some (rl_diffID l)\<rparr>" by (rule set_diff [OF 1 wf])
  then have w2: "wf_tx t2 \<and> view t2 = (view t1)\<lparr>lv_size := Some (rl_size l)\<rparr>" using set_size [OF 2] by blast
  then have w3: "wf_tx t3 \<and> view t3 = (view t2)\<lparr>lv_cache := Some (rl_cacheID l)\<rparr>" using set_cache [OF 3] by blast
  have v3: "view t3 = (view tx)\<lparr>lv_diff := Some (rl_diffID l), lv_size := Some (rl_size l), lv_cache := Some (rl_cacheID l)\<rparr>"
    using w1 w2 w3 by simp
  have v4: "wf_tx t4 \<and> view t4 = (view t3)\<lparr>lv_desc := (if desc_Digest (rl_descriptor l) \<noteq> '''' then Some (rl_descriptor l) else lv_desc (view t3))\<rparr>"
    using 4 set_desc w3 by (auto split: if_splits)
  have v5: "wf_tx tx1 \<and> view tx1 = (view t4)\<lparr>lv_parent := (case pc of None \<Rightarrow> lv_parent (view t4) | Some p \<Rightarrow> Some p)\<rparr>"
    using 5 set_parent v4 by (auto split: option.splits)
  have p4: "lv_parent (view t4) = lv_parent (view tx)" using v4 v3 by simp
  have "view tx1 = (view t3)\<lparr>lv_desc := (if desc_Digest (rl_descriptor l) \<noteq> '''' then Some (rl_descriptor l) else lv_desc (view t3)),
      lv_parent := (case pc of None \<Rightarrow> lv_parent (view tx) | Some p \<Rightarrow> Some p)\<rparr>"
    using conjunct2 [OF v5] unfolding p4 unfolding conjunct2 [OF v4] .
  then show ?thesis using v5 unfolding v3 by (cases "view tx") simp
qed

text \<open>The metadata a registration has collected when its layer is built.\<close>

lemma register_build_view:
  assumes K: "lo_meta K = M" and run: "register_build K ts c p desc ls = Some (ls1, Inr (l, tx))"
  shows "wf_tx tx \<and> view tx = \<lparr>lv_size = Some (rl_size l),
     lv_parent = (case p of None \<Rightarrow> None | Some a \<Rightarrow> Some (rl_chainID (obj ls a))),
     lv_diff = Some (lo_digest K ts), lv_cache = Some c,
     lv_desc = (if desc_Digest desc \<noteq> '''' then Some desc else None),
     lv_tar = (if lo_useTarSplit K then lo_asm K ts else None)\<rparr> \<and>
     rl_diffID l = lo_digest K ts \<and> rl_cacheID l = c \<and> rl_parent l = p \<and> rl_descriptor l = desc \<and>
     rl_chainID l = (case p of None \<Rightarrow> lo_digest K ts
       | Some a \<Rightarrow> createChainIDFromParent (lo_digest K) (rl_chainID (obj ls a)) [lo_digest K ts])"
proof -
  let ?pid = "case p of None \<Rightarrow> '''' | Some a \<Rightarrow> rl_cacheID (obj ls a)"
  let ?pc = "case p of None \<Rightarrow> None | Some a \<Rightarrow> Some (rl_chainID (obj ls a))"
  have norel: "release_parent K p e x \<noteq> Some (y, Inr z)" for e x y and z :: "rolayer \<times> 'x"
    by (auto simp: release_parent_def bind_eq_Some_conv after_release_Inr split: option.splits)
  obtain d where d: "do_create (lo_drv K) c ?pid (ls_driver ls) = (d, True)"
    using run norel by (cases "do_create (lo_drv K) c ?pid (ls_driver ls)")
      (auto simp: register_build_def Let_def split: if_splits)
  let ?ls1 = "ls\<lparr>ls_driver := d\<rparr>"
  obtain m t0 where m: "mo_start M (ls_store ls) = (m, Some t0)"
    using run norel d K by (cases "mo_start M (ls_store ls)")
      (auto simp: register_build_def Let_def split: option.splits)
  let ?ls2 = "?ls1\<lparr>ls_store := m\<rparr>"
  obtain ls3 t1 r where a: "applyTar K ts ?pid c t0 ?ls2 = (ls3, t1, r)" by (cases "applyTar K ts ?pid c t0 ?ls2")
  obtain sz dg where r: "r = Inr (sz, dg)"
  proof (cases r)
    case (Inl e)
    then show ?thesis using run norel d m K a by (auto simp: register_build_def Let_def)
  qed auto
  have dg: "dg = lo_digest K ts" by (rule applyTar_frame(2) [OF a r])
  have v1: "wf_tx t1 \<and> view t1 = empty_lmeta\<lparr>lv_tar := (if lo_useTarSplit K then lo_asm K ts else None)\<rparr>"
  proof (cases "lo_useTarSplit K")
    case False
    then show ?thesis using a r start [OF m]
      by (auto simp: applyTar_def empty_lmeta_def split: prod.splits option.splits)
  next
    case True
    then obtain packed where p: "lo_asm K ts = Some packed"
      using a r by (auto simp: applyTar_def split: option.splits)
    obtain t' ok where t': "mo_tarsplit M packed t0 = (t', ok)" by (cases "mo_tarsplit M packed t0")
    have "ok \<and> t1 = t'" using a r True p t' K
      by (auto simp: applyTar_def split: prod.splits option.splits if_splits)
    then show ?thesis using set_tar t' start [OF m] True p by auto
  qed
  let ?chain = "case ?pc of None \<Rightarrow> dg | Some q \<Rightarrow> createChainIDFromParent (lo_digest K) q [dg]"
  let ?l = "\<lparr>rl_chainID = ?chain, rl_diffID = dg, rl_parent = p, rl_cacheID = c,
     rl_size = sz, rl_descriptor = desc, rl_count = 1, rl_refs = []\<rparr>"
  obtain t2 ok where s: "storeLayer K ?l ?pc t1 = (t2, ok)" by (cases "storeLayer K ?l ?pc t1")
  have "ok \<and> l = ?l \<and> tx = t2"
    using run norel d m K a r s by (cases ok) (simp_all add: register_build_def Let_def)
  then have l: "l = ?l" and t2: "storeLayer K ?l ?pc t1 = (tx, True)" using s by simp_all
  from storeLayer_view [OF K t2] v1 show ?thesis
    unfolding l by (simp add: dg empty_lmeta_def split: option.split)
qed

text \<open>After the commit of a new layer, its metadata reads as what was collected.\<close>

lemma register_commit_reads:
  assumes K: "lo_meta K = M" and run: "register_commit K l tx ls = Some (ls1, Inr ref)"
    and new: "gm_get (ls_layerMap ls) (rl_chainID l) = None" and v: "wf_tx tx" "lmeta_valid (view tx)"
  shows "reads_as M io (view tx) (ls_store ls1) (rl_chainID l)"
    "c \<noteq> rl_chainID l \<Longrightarrow> same_reads M (ls_store ls) (ls_store ls1) c"
proof -
  obtain m ok where m: "mo_commit M tx (rl_chainID l) (ls_store ls) = (m, ok)"
    by (cases "mo_commit M tx (rl_chainID l) (ls_store ls)")
  have ok: "ok"
    using run new m K
    by (cases ok) (auto simp: register_commit_def getWithoutLock_def release_parent_def bind_eq_Some_conv after_release_Inr split: option.splits)
  then have "ls_store ls1 = m"
    using run new m K
    by (auto simp: register_commit_def getWithoutLock_def alloc_def getReference_def Let_def upd_def)
  then show "reads_as M io (view tx) (ls_store ls1) (rl_chainID l)"
    "c \<noteq> rl_chainID l \<Longrightarrow> same_reads M (ls_store ls) (ls_store ls1) c"
    using commit_reads [of tx _ "ls_store ls"] commit_other m ok v by auto
qed

end

section \<open>The file store is a metadata store\<close>

definition text_of :: "content option \<Rightarrow> string option" where
  "text_of c = (case c of Some (Text s) \<Rightarrow> Some s | _ \<Rightarrow> None)"

definition files_view :: "files \<Rightarrow> lmeta" where
  "files_view fs = \<lparr>lv_size = Option.bind (text_of (gm_get fs ''size'')) parse_int,
     lv_parent = text_of (gm_get fs ''parent''), lv_diff = text_of (gm_get fs ''diff''),
     lv_cache = text_of (gm_get fs ''cache-id''),
     lv_desc = (case gm_get fs ''descriptor.json'' of Some (Json d) \<Rightarrow> Some d | _ \<Rightarrow> None),
     lv_tar = (case gm_get fs ''tar-split.json.gz'' of Some (Gzip p) \<Rightarrow> Some p | _ \<Rightarrow> None)\<rparr>"

lemma rune_space_hex: "hex_char_any c \<Longrightarrow> \<not> rune_space c"
  by (auto simp: hex_char_any_def hex_char_def rune_space_def Let_def)

lemma digest_valid_trim: "digest_valid s \<Longrightarrow> trim_space s = s"
proof (rule trim_space_id)
  assume v: "digest_valid s"
  then obtain alg hex where s: "split_first (CHR '':'') s = (alg, Some hex)" "list_all hex_char_any hex"
      "digest_hex_len alg \<noteq> None"
    by (auto simp: digest_valid_def split: prod.splits option.splits)
  have "alg \<in> {''sha256'', ''sha384'', ''sha512''}"
    using s(3) by (auto simp: digest_hex_len_def split: if_splits)
  then have "\<forall>c \<in> set alg. \<not> rune_space c" by (auto simp: rune_space_def)
  moreover have "\<forall>c \<in> set hex. \<not> rune_space c" using s(2) rune_space_hex by (auto simp: list_all_iff)
  moreover have "\<not> rune_space (CHR '':'')" by (simp add: rune_space_def)
  ultimately show "\<forall>c \<in> set s. \<not> rune_space c" using split_first_Some [OF s(1)] by auto
qed

lemma string_id_trim: "string_id s \<Longrightarrow> trim_space s = s"
proof (rule trim_space_id)
  assume v: "string_id s"
  have "\<forall>c \<in> set (take 64 s). \<not> rune_space c"
    using v rune_space_hex by (auto simp: string_id_def list_all_iff hex_char_any_def)
  moreover have "\<forall>c \<in> set (drop 64 s). \<not> rune_space c"
    using v by (auto simp: string_id_def rune_space_def)
  ultimately show "\<forall>c \<in> set s. \<not> rune_space c"
    by (metis Un_iff append_take_drop_id set_append)
qed

lemma digest_split_inj: "digest_split a = Some d \<Longrightarrow> digest_split b = Some d \<Longrightarrow> a = b"
  by (auto simp: digest_split_def split: prod.splits option.splits dest!: split_first_Some)

lemma read_layer_same:
  assumes "\<And>dir. getLayerDirectory c = Some dir \<Longrightarrow> gm_get (fs_layers m') dir = gm_get (fs_layers m) dir"
  shows "same_reads (fs_meta disk) m m' c"
proof -
  have "read_layer disk m' c f = read_layer disk m c f" for f
    using assms by (simp add: read_layer_def split: option.split)
  then show ?thesis
    by (simp add: same_reads_def fs_meta_def GetSize_def GetDiffID_def GetCacheID_def GetParent_def
        GetDescriptor_def TarSplitReader_def)
qed

text \<open>The files of a write set are of the kinds the setters write.\<close>

definition kind_ok :: "files \<Rightarrow> bool" where
  "kind_ok fs \<longleftrightarrow> (\<forall>n c. gm_get fs n = Some c \<longrightarrow>
     (case c of Text s \<Rightarrow> n \<noteq> ''descriptor.json'' \<and> n \<noteq> ''tar-split.json.gz''
      | Json d \<Rightarrow> n = ''descriptor.json'' | Gzip p \<Rightarrow> n = ''tar-split.json.gz''))"

lemma kind_ok_simps [simp]:
  "kind_ok []"
  "kind_ok fs \<Longrightarrow> n \<noteq> ''descriptor.json'' \<Longrightarrow> n \<noteq> ''tar-split.json.gz'' \<Longrightarrow> kind_ok (gm_set n (Text s) fs)"
  "kind_ok fs \<Longrightarrow> kind_ok (gm_set ''descriptor.json'' (Json d) fs)"
  "kind_ok fs \<Longrightarrow> kind_ok (gm_set ''tar-split.json.gz'' (Gzip p) fs)"
  by (auto simp: kind_ok_def)

lemma kind_text:
  "kind_ok fs \<Longrightarrow> gm_get fs n = Some c \<Longrightarrow> n \<noteq> ''descriptor.json'' \<Longrightarrow> n \<noteq> ''tar-split.json.gz'' \<Longrightarrow> \<exists>s. c = Text s"
  "kind_ok fs \<Longrightarrow> gm_get fs ''descriptor.json'' = Some c \<Longrightarrow> \<exists>d. c = Json d"
  "kind_ok fs \<Longrightarrow> gm_get fs ''tar-split.json.gz'' = Some c \<Longrightarrow> \<exists>p. c = Gzip p"
  unfolding kind_ok_def by (cases c; fastforce)+

lemma read_text_cases:
  assumes "kind_ok fs" "n \<noteq> ''descriptor.json''" "n \<noteq> ''tar-split.json.gz''"
  obtains (absent) "gm_get fs n = None" | (found) s where "gm_get fs n = Some (Text s)"
  using assms kind_text(1) by (cases "gm_get fs n") blast+

lemma reads_as_files:
  assumes v: "lmeta_valid (files_view fs)" and k: "kind_ok fs" and dir: "getLayerDirectory c = Some dir"
    and f: "gm_get (fs_layers m) dir = Some fs"
  shows "reads_as (fs_meta disk) (\<forall>p. disk p) (files_view fs) m c"
proof -
  let ?p = "\<lambda>n. [fst dir, snd dir] @ [n]"
  have r: "read_layer disk m c n = (if \<not> disk (?p n) then ReadFails
      else case gm_get fs n of None \<Rightarrow> NotExist | Some x \<Rightarrow> Content x)" for n
    by (simp add: read_layer_def dir read_file_def f)
  note V = v [unfolded lmeta_valid_def files_view_def, simplified]
  note D = files_view_def text_of_def answers_def
  have "answers (\<forall>p. disk p) (GetSize disk m c) (lv_size (files_view fs))"
    by (rule read_text_cases [OF k, of "''size''"])
       (use V in \<open>auto simp: GetSize_def r D parse_int64_def split: option.split\<close>)
  moreover have "answers (\<forall>p. disk p) (GetDiffID disk m c) (lv_diff (files_view fs))"
    by (rule read_text_cases [OF k, of "''diff''"])
       (use V digest_valid_trim in \<open>auto simp: GetDiffID_def r D digest_parse_def\<close>)
  moreover have "answers (\<forall>p. disk p) (GetCacheID disk m c) (lv_cache (files_view fs))"
    by (rule read_text_cases [OF k, of "''cache-id''"])
       (use V string_id_trim in \<open>auto simp: GetCacheID_def r D\<close>)
  moreover have "answers (\<forall>p. disk p) (GetParent disk m c) (Some (case lv_parent (files_view fs) of None \<Rightarrow> '''' | Some p \<Rightarrow> p))"
    by (rule read_text_cases [OF k, of "''parent''"])
       (use V digest_valid_trim in \<open>auto simp: GetParent_def r D digest_parse_def\<close>)
  moreover have "answers (\<forall>p. disk p) (GetDescriptor disk m c)
      (Some (case lv_desc (files_view fs) of None \<Rightarrow> empty_descriptor | Some d \<Rightarrow> d))"
    using kind_text(2) [OF k] by (cases "gm_get fs ''descriptor.json''") (auto simp: GetDescriptor_def r D)
  moreover have "answers (\<forall>p. disk p) (TarSplitReader disk m c) (lv_tar (files_view fs))"
    using kind_text(3) [OF k] by (cases "gm_get fs ''tar-split.json.gz''") (auto simp: TarSplitReader_def r D)
  ultimately show ?thesis by (simp add: reads_as_def fs_meta_def)
qed

abbreviation ws_view :: "write_set \<Rightarrow> lmeta" where
  "ws_view tx \<equiv> files_view (ws_files tx)"

abbreviation ws_ok :: "write_set \<Rightarrow> bool" where
  "ws_ok tx \<equiv> kind_ok (ws_files tx)"

lemma ws_write_view:
  assumes "ws_WriteFile disk name c tx = (tx1, True)"
  shows "ws_files tx1 = gm_set name c (ws_files tx)"
  using assms by (auto simp: ws_WriteFile_def split: if_splits)

lemmas setter_defs = fs_meta_def SetSize_def SetParent_def SetDiffID_def SetCacheID_def SetDescriptor_def TarSplitWriter_def

lemma mounts_same: "same_reads (fs_meta disk) m (fst (write_mount disk n f s m)) c"
  by (rule read_layer_same) (simp add: write_mount_def Let_def)

interpretation fs: metadata_store "fs_meta disk" ws_ok ws_view "\<forall>p. disk p" for disk :: disk
proof (unfold_locales, goal_cases)
  case (1 m m1 tx)
  then show ?case
    by (auto simp: fs_meta_def StartTransaction_def NewAtomicWriteSet_def Let_def files_view_def empty_lmeta_def
        text_of_def split: if_splits)
next
  case (2 n tx tx1)
  then show ?case by (simp add: setter_defs ws_write_view files_view_def text_of_def parse_int_itoa)
next
  case (3 p tx tx1)
  then show ?case by (simp add: setter_defs ws_write_view files_view_def text_of_def)
next
  case (4 d tx tx1)
  then show ?case by (simp add: setter_defs ws_write_view files_view_def text_of_def)
next
  case (5 i tx tx1)
  then show ?case by (simp add: setter_defs ws_write_view files_view_def text_of_def)
next
  case (6 r tx tx1)
  then show ?case by (simp add: setter_defs ws_write_view files_view_def text_of_def)
next
  case (7 t tx tx1)
  then show ?case by (simp add: setter_defs ws_write_view files_view_def text_of_def)
next
  case (8 tx c m m1)
  then obtain dir where d: "getLayerDirectory c = Some dir" "gm_get (fs_layers m1) dir = Some (ws_files tx)"
    by (auto simp: fs_meta_def Commit_def ws_Commit_def split: option.splits if_splits)
  show ?case by (rule reads_as_files [OF 8(3,2) d])
next
  case (9 tx c m m1 ok c')
  show ?case
  proof (rule read_layer_same)
    fix dir assume "getLayerDirectory c' = Some dir"
    then show "gm_get (fs_layers m1) dir = gm_get (fs_layers m) dir"
      using 9 digest_split_inj
      by (auto simp: fs_meta_def Commit_def ws_Commit_def getLayerDirectory_def split: option.splits if_splits)
  qed
next
  case (10 c m m1 ok c')
  show ?case
  proof (rule read_layer_same)
    fix dir assume "getLayerDirectory c' = Some dir"
    then show "gm_get (fs_layers m1) dir = gm_get (fs_layers m) dir"
      using 10 digest_split_inj
      by (auto simp: fs_meta_def fs_Remove_def getLayerDirectory_def split: option.splits if_splits)
  qed
next
  case (11 m m1 res c')
  then show ?case
    by (intro read_layer_same)
       (auto simp: fs_meta_def StartTransaction_def NewAtomicWriteSet_def Let_def split: if_splits)
next
  case (12 tx m m1 ok c')
  then show ?case
    by (intro read_layer_same) (auto simp: fs_meta_def Cancel_def ws_Cancel_def split: if_splits)
next
  case (13 n i m m1 ok c')
  then have "m1 = fst (SetMountID disk n i m)" by (simp add: fs_meta_def)
  then show ?case by (simp add: SetMountID_def mounts_same)
next
  case (14 n i m m1 ok c')
  then have "m1 = fst (SetInitID disk n i m)" by (simp add: fs_meta_def)
  then show ?case by (simp add: SetInitID_def mounts_same)
next
  case (15 n p m m1 ok c')
  then have "m1 = fst (SetMountParent disk n p m)" by (simp add: fs_meta_def)
  then show ?case by (simp add: SetMountParent_def mounts_same)
next
  case (16 n m m1 ok c')
  then show ?case
    by (intro read_layer_same) (auto simp: fs_meta_def fs_RemoveMount_def split: if_splits)
qed

section \<open>What a registered layer reads back as\<close>

lemma register_decompose:
  assumes "registerWithDescriptor K ts parent c desc ls = Some (ls3, Inr ref)"
  obtains ls1 p ls2 l tx where "register_parent K parent ls = Some (ls1, Inr p)"
    "register_build K ts c p desc ls1 = Some (ls2, Inr (l, tx))" "register_commit K l tx ls2 = Some (ls3, Inr ref)"
proof -
  from assms obtain ls1 r1 where 1: "register_parent K parent ls = Some (ls1, r1)"
      "(case r1 of Inl e \<Rightarrow> Some (ls1, Inl e)
        | Inr p \<Rightarrow> Option.bind (register_build K ts c p desc ls1) (\<lambda>(ls2, res2).
             case res2 of Inl e \<Rightarrow> Some (ls2, Inl e) | Inr (l, tx) \<Rightarrow> register_commit K l tx ls2)) = Some (ls3, Inr ref)"
    by (auto simp: registerWithDescriptor_def bind_eq_Some_conv)
  then obtain p where p: "r1 = Inr p" by (cases r1) auto
  with 1 obtain ls2 r2 where 2: "register_build K ts c p desc ls1 = Some (ls2, r2)"
      "(case r2 of Inl e \<Rightarrow> Some (ls2, Inl e) | Inr (l, tx) \<Rightarrow> register_commit K l tx ls2) = Some (ls3, Inr ref)"
    by (auto simp: bind_eq_Some_conv)
  then show ?thesis using that 1(1) p by (cases r2) auto
qed

lemma register_commit_new:
  assumes "register_commit K l tx ls = Some (ls1, Inr ref)" "gm_get (ls_layerMap ls) (rl_chainID l) = None"
  shows "ls_driver ls1 = ls_driver ls" "rl_size (obj ls1 (ref_layer ref)) = rl_size l"
    "rl_diffID (obj ls1 (ref_layer ref)) = rl_diffID l" "rl_cacheID (obj ls1 (ref_layer ref)) = rl_cacheID l"
    "rl_chainID (obj ls1 (ref_layer ref)) = rl_chainID l"
proof -
  obtain m ok where m: "mo_commit (lo_meta K) tx (rl_chainID l) (ls_store ls) = (m, ok)"
    by (cases "mo_commit (lo_meta K) tx (rl_chainID l) (ls_store ls)")
  have ok: "ok"
    using assms m
    by (cases ok) (auto simp: register_commit_def getWithoutLock_def release_parent_def bind_eq_Some_conv after_release_Inr split: option.splits)
  then show "ls_driver ls1 = ls_driver ls" "rl_size (obj ls1 (ref_layer ref)) = rl_size l"
    "rl_diffID (obj ls1 (ref_layer ref)) = rl_diffID l" "rl_cacheID (obj ls1 (ref_layer ref)) = rl_cacheID l"
    "rl_chainID (obj ls1 (ref_layer ref)) = rl_chainID l"
    using assms m by (auto simp: register_commit_def getWithoutLock_def alloc_def getReference_def Let_def upd_def obj_def)
qed

lemma registered_view:
  fixes K :: "(filestore, write_set, 'd) layer_ops"
  assumes reach: "layer_reach K ls P" and K: "lo_meta K = fs_meta disk"
    and run: "ls_Register K ts parent c ls = Some (ls1, Inr ref)"
    and chain: "chain = (if parent = '''' then lo_digest K ts
        else createChainIDFromParent (lo_digest K) parent [lo_digest K ts])"
    and new: "gm_get (ls_layerMap ls) chain = None"
    and valid: "digest_valid (lo_digest K ts)" "parent = '''' \<or> digest_valid parent" "string_id c"
    and sz: "- (2 ^ 63) \<le> rl_size (obj ls1 (ref_layer ref))" "rl_size (obj ls1 (ref_layer ref)) < 2 ^ 63"
  shows "reads_as (fs_meta disk) (\<forall>p. disk p) \<lparr>lv_size = Some (rl_size (obj ls1 (ref_layer ref))),
       lv_parent = (if parent = '''' then None else Some parent), lv_diff = Some (lo_digest K ts), lv_cache = Some c,
       lv_desc = None, lv_tar = (if lo_useTarSplit K then lo_asm K ts else None)\<rparr> (ls_store ls1) chain"
    and "rl_diffID (obj ls1 (ref_layer ref)) = lo_digest K ts \<and> rl_cacheID (obj ls1 (ref_layer ref)) = c \<and>
       rl_chainID (obj ls1 (ref_layer ref)) = chain"
proof -
  note inv = store_okD(1) [OF layer_reach_ok [OF reach]]
  from run obtain lsa p lsb l tx where R: "register_parent K parent ls = Some (lsa, Inr p)"
    "register_build K ts c p \<lparr>desc_Digest = '''', desc_MediaType = '''', desc_Size = 0\<rparr> lsa = Some (lsb, Inr (l, tx))"
    "register_commit K l tx lsb = Some (ls1, Inr ref)"
    unfolding ls_Register_def by (rule register_decompose)
  from inv obtain n1: "narrows ls lsa" and p: "parent = '''' \<longleftrightarrow> p = None"
      "\<And>a. p = Some a \<Longrightarrow> rl_chainID (obj lsa a) = parent" and inva: "layer_inv lsa (hold p (held P))"
    by (cases rule: register_parent_ok [where K = K and parent = parent]) (use R(1) in auto)
  from inva have n2: "narrows lsa lsb"
    by (cases rule: register_build_ok [where K = K and ts = ts and c = c
          and desc = "\<lparr>desc_Digest = '''', desc_MediaType = '''', desc_Size = 0\<rparr>"]) (use R(2) in auto)
  note B = fs.register_build_view [OF K R(2)]
  have par: "(case p of None \<Rightarrow> None | Some a \<Rightarrow> Some (rl_chainID (obj lsa a))) = (if parent = '''' then None else Some parent)"
    using p by (auto split: option.split)
  have l: "rl_chainID l = chain" using B p chain by (auto split: option.splits)
  from narrows_trans [OF n1 n2] obtain ms where ms: "shrinks ls lsb ms" by (auto simp: narrows_def)
  have new2: "gm_get (ls_layerMap lsb) (rl_chainID l) = None" using shrinksD(4) [OF ms] new l by simp
  note C = register_commit_new [OF R(3) new2]
  show "rl_diffID (obj ls1 (ref_layer ref)) = lo_digest K ts \<and> rl_cacheID (obj ls1 (ref_layer ref)) = c \<and>
       rl_chainID (obj ls1 (ref_layer ref)) = chain" using C B l by simp
  have v: "lmeta_valid (ws_view tx)"
    using B valid p sz C by (auto simp: lmeta_valid_def split: option.splits)
  from fs.register_commit_reads(1) [OF K R(3) new2 _ v] B
  show "reads_as (fs_meta disk) (\<forall>p. disk p) \<lparr>lv_size = Some (rl_size (obj ls1 (ref_layer ref))),
       lv_parent = (if parent = '''' then None else Some parent), lv_diff = Some (lo_digest K ts), lv_cache = Some c,
       lv_desc = None, lv_tar = (if lo_useTarSplit K then lo_asm K ts else None)\<rparr> (ls_store ls1) chain"
    by (simp add: C l par)
qed

text \<open>
  C12. A layer that was registered and is new to the store reads back from disk with the
  digest of its contents, its parent, its cache identifier, its size and the metadata
  tar-split recorded for it, whatever operations ran before.
\<close>

theorem layer_metadata_roundtrip:
  fixes K :: "(filestore, write_set, 'd) layer_ops"
  defines "disk \<equiv> (\<lambda>_ :: string list. True)"
  assumes reach: "layer_reach K ls P" and K: "lo_meta K = fs_meta disk"
    and run: "ls_Register K ts parent c ls = Some (ls1, Inr ref)"
    and chain: "chain = (if parent = '''' then lo_digest K ts
        else createChainIDFromParent (lo_digest K) parent [lo_digest K ts])"
    and new: "gm_get (ls_layerMap ls) chain = None"
    and valid: "digest_valid (lo_digest K ts)" "parent = '''' \<or> digest_valid parent" "string_id c"
    and sz: "- (2 ^ 63) \<le> rl_size (obj ls1 (ref_layer ref))" "rl_size (obj ls1 (ref_layer ref)) < 2 ^ 63"
  shows "GetDiffID disk (ls_store ls1) chain = Some (lo_digest K ts) \<and>
     GetParent disk (ls_store ls1) chain = Some parent \<and>
     GetCacheID disk (ls_store ls1) chain = Some c \<and>
     GetSize disk (ls_store ls1) chain = Some (rl_size (obj ls1 (ref_layer ref))) \<and>
     GetDescriptor disk (ls_store ls1) chain = Some empty_descriptor \<and>
     TarSplitReader disk (ls_store ls1) chain = (if lo_useTarSplit K then lo_asm K ts else None)"
  using registered_view(1) [OF reach K run chain new valid sz]
  by (auto simp: reads_as_def answers_def fs_meta_def disk_def)

text \<open>
  Reading the tar stream of a registered layer yields the bytes that were registered, when
  tar-split reassembles the stream from the files of the layer's directory and the metadata
  it recorded.
\<close>

theorem layer_tar_roundtrip:
  fixes K :: "(filestore, write_set, 'd) layer_ops"
  assumes reach: "layer_reach K ls P" and K: "lo_meta K = fs_meta (\<lambda>_. True)"
    and run: "ls_Register K ts parent c ls = Some (ls1, Inr ref)"
    and chain: "chain = (if parent = '''' then lo_digest K ts
        else createChainIDFromParent (lo_digest K) parent [lo_digest K ts])"
    and new: "gm_get (ls_layerMap ls) chain = None"
    and valid: "digest_valid (lo_digest K ts)" "parent = '''' \<or> digest_valid parent" "string_id c"
    and sz: "- (2 ^ 63) \<le> rl_size (obj ls1 (ref_layer ref))" "rl_size (obj ls1 (ref_layer ref)) < 2 ^ 63"
    and split: "lo_useTarSplit K" "lo_asm K ts = Some packed"
    and files: "do_files (lo_drv K) c (ls_driver ls1) = Some dir" "lo_unasm K dir packed = Some ts"
  shows "TarStream K (ref_layer ref) ls1 = Inr ts"
proof -
  note V = registered_view [OF reach K run chain new valid sz]
  have "mo_tarsplit_read (lo_meta K) (ls_store ls1) chain = Some packed"
    using V(1) split by (auto simp: reads_as_def answers_def K)
  then show ?thesis
    using V(2) split files by (simp add: TarStream_def getTarStream_def assembleTarTo_def)
qed

text \<open>An example: one layer on disk.\<close>

definition ex_fs_ops :: "(filestore, write_set, string list) layer_ops" where
  "ex_fs_ops = \<lparr>lo_meta = fs_meta (\<lambda>_. True), lo_drv = ex_driver\<lparr>do_files := \<lambda>_ _. Some ''''\<rparr>,
     lo_digest = (\<lambda>s. ''sha256:'' @ replicate 64 (if s = ''os'' then CHR ''a'' else CHR ''b'')), lo_asm = Some,
     lo_unasm = (\<lambda>_ s. Some s), lo_useTarSplit = True\<rparr>"

definition ex_cache :: string where
  "ex_cache = replicate 64 (CHR ''c'')"

definition ex_fs_empty :: filestore where
  "ex_fs_empty = \<lparr>fs_layers = [], fs_mounts = [], fs_sets = [], fs_next = 0\<rparr>"

definition ex_fs_run :: "(filestore, string list) layerstore" where
  "ex_fs_run = (case ls_Register ex_fs_ops ''os'' '''' ex_cache (empty_store ex_fs_empty []) of
     Some (ls, _) \<Rightarrow> ls | None \<Rightarrow> empty_store ex_fs_empty [])"

lemma ex_fs_register:
  "ls_Register ex_fs_ops ''os'' '''' ex_cache (empty_store ex_fs_empty []) = Some (ex_fs_run, Inr (CacheRef 0 0))"
  by code_simp

lemma ex_fs_facts:
  "lo_meta ex_fs_ops = fs_meta (\<lambda>_. True)" "digest_valid (lo_digest ex_fs_ops ''os'')" "string_id ex_cache"
  "rl_size (obj ex_fs_run 0) = 2" "do_files (lo_drv ex_fs_ops) ex_cache (ls_driver ex_fs_run) = Some ''''"
proof -
  show "lo_meta ex_fs_ops = fs_meta (\<lambda>_. True)" by (simp add: ex_fs_ops_def)
  show "digest_valid (lo_digest ex_fs_ops ''os'')" by code_simp
  show "string_id ex_cache" by code_simp
  show "rl_size (obj ex_fs_run 0) = 2" by code_simp
  show "do_files (lo_drv ex_fs_ops) ex_cache (ls_driver ex_fs_run) = Some ''''" by (simp add: ex_fs_ops_def)
qed

theorem layer_metadata_roundtrip_witness:
  "GetCacheID (\<lambda>_. True) (ls_store ex_fs_run) (lo_digest ex_fs_ops ''os'') = Some ex_cache"
  using layer_metadata_roundtrip [OF layer_reach.start ex_fs_facts(1) ex_fs_register refl _ _ _ ex_fs_facts(3)]
    ex_fs_facts by (simp add: empty_store_def)

theorem layer_tar_roundtrip_witness: "TarStream ex_fs_ops 0 ex_fs_run = Inr ''os''"
proof -
  have "gm_get (ls_layerMap (empty_store ex_fs_empty ([] :: string list))) k = None" for k
    by (simp add: empty_store_def)
  moreover have "lo_useTarSplit ex_fs_ops" "lo_asm ex_fs_ops ''os'' = Some ''os''" "lo_unasm ex_fs_ops '''' ''os'' = Some ''os''"
    by (simp_all add: ex_fs_ops_def)
  ultimately show ?thesis
    using layer_tar_roundtrip [OF layer_reach.start ex_fs_facts(1) ex_fs_register refl _ _ _ ex_fs_facts(3)]
      ex_fs_facts by simp
qed

end
