(* ===== verification/Locker.thy ===== *)
theory Locker
  imports GoPrelude
begin

text \<open>
  The named locks of pkg/locker/locker.go, under every interleaving of the goroutines that
  use them.

  A \<^verbatim>\<open>*lockCtr\<close> is an index into \<open>lk_heap\<close>, so that a lock that was deleted from the map and
  a new one with its name stay apart. \<^verbatim>\<open>Lock\<close> is the three parts between which other
  goroutines run: the section under the main mutex, the wait for the named mutex, and the
  decrement after it. \<^verbatim>\<open>Unlock\<close> runs under the main mutex.
\<close>

section \<open>State\<close>

record lock_ctr =
  lc_locked :: bool
  lc_waiters :: int

record locker =
  lk_heap :: "lock_ctr list"
  lk_locks :: "(string, nat) gomap"

text \<open>Where a goroutine is.\<close>

datatype pc =
    Idle
  | Waiting string nat
  | Acquired string nat
  | Holding string nat

datatype unlock_result = Unlocked | ErrNoSuchLock | UnlockOfUnlockedMutex

section \<open>Operations\<close>

definition new_locker :: locker where
  "new_locker = \<lparr>lk_heap = [], lk_locks = []\<rparr>"

definition lc_inc :: "nat \<Rightarrow> locker \<Rightarrow> locker" where
  "lc_inc a s = s\<lparr>lk_heap := (lk_heap s)[a := (lk_heap s ! a)\<lparr>lc_waiters := lc_waiters (lk_heap s ! a) + 1\<rparr>]\<rparr>"

definition lc_dec :: "nat \<Rightarrow> locker \<Rightarrow> locker" where
  "lc_dec a s = s\<lparr>lk_heap := (lk_heap s)[a := (lk_heap s ! a)\<lparr>lc_waiters := lc_waiters (lk_heap s ! a) - 1\<rparr>]\<rparr>"

definition lc_lock :: "nat \<Rightarrow> bool \<Rightarrow> locker \<Rightarrow> locker" where
  "lc_lock a b s = s\<lparr>lk_heap := (lk_heap s)[a := (lk_heap s ! a)\<lparr>lc_locked := b\<rparr>]\<rparr>"

text \<open>\<^verbatim>\<open>Lock\<close> up to the unlock of the main mutex: the lock found or made, its waiters counted.\<close>

definition lock_enter :: "string \<Rightarrow> locker \<Rightarrow> locker \<times> nat" where
  "lock_enter name s =
     (let (s1, a) =
        (case gm_get (lk_locks s) name of
           Some a \<Rightarrow> (s, a)
         | None \<Rightarrow> (s\<lparr>lk_heap := lk_heap s @ [\<lparr>lc_locked = False, lc_waiters = 0\<rparr>],
                      lk_locks := gm_set name (length (lk_heap s)) (lk_locks s)\<rparr>, length (lk_heap s)))
      in (lc_inc a s1, a))"

definition lock_unlock :: "string \<Rightarrow> locker \<Rightarrow> locker \<times> unlock_result" where
  "lock_unlock name s =
     (case gm_get (lk_locks s) name of
        None \<Rightarrow> (s, ErrNoSuchLock)
      | Some a \<Rightarrow>
          (let s1 = (if lc_waiters (lk_heap s ! a) = 0 then s\<lparr>lk_locks := gm_del name (lk_locks s)\<rparr> else s)
           in if \<not> lc_locked (lk_heap s ! a) then (s1, UnlockOfUnlockedMutex)
              else (lc_lock a False s1, Unlocked)))"

section \<open>Goroutines\<close>

text \<open>A goroutine unlocks the names it holds.\<close>

inductive lock_step :: "locker \<times> pc list \<Rightarrow> locker \<times> pc list \<Rightarrow> bool" where
  spawn: "lock_step (s, T) (s, T @ [Idle])"
| enter: "t < length T \<Longrightarrow> T ! t = Idle \<Longrightarrow> lock_enter n s = (s', a) \<Longrightarrow>
    lock_step (s, T) (s', T[t := Waiting n a])"
| acquire: "t < length T \<Longrightarrow> T ! t = Waiting n a \<Longrightarrow> \<not> lc_locked (lk_heap s ! a) \<Longrightarrow>
    lock_step (s, T) (lc_lock a True s, T[t := Acquired n a])"
| dec: "t < length T \<Longrightarrow> T ! t = Acquired n a \<Longrightarrow> lock_step (s, T) (lc_dec a s, T[t := Holding n a])"
| unlock: "t < length T \<Longrightarrow> T ! t = Holding n a \<Longrightarrow>
    lock_step (s, T) (fst (lock_unlock n s), T[t := Idle])"

inductive lock_reach :: "locker \<Rightarrow> pc list \<Rightarrow> bool" where
  start: "lock_reach new_locker []"
| step: "lock_reach s T \<Longrightarrow> lock_step (s, T) (s', T') \<Longrightarrow> lock_reach s' T'"

section \<open>The invariant\<close>

fun pc_name :: "pc \<Rightarrow> (string \<times> nat) option" where
  "pc_name Idle = None"
| "pc_name (Waiting n a) = Some (n, a)"
| "pc_name (Acquired n a) = Some (n, a)"
| "pc_name (Holding n a) = Some (n, a)"

fun pc_waits :: "nat \<Rightarrow> pc \<Rightarrow> bool" where
  "pc_waits a (Waiting n b) = (a = b)"
| "pc_waits a (Acquired n b) = (a = b)"
| "pc_waits a _ = False"

fun pc_owns :: "nat \<Rightarrow> pc \<Rightarrow> bool" where
  "pc_owns a (Acquired n b) = (a = b)"
| "pc_owns a (Holding n b) = (a = b)"
| "pc_owns a _ = False"

definition count_pc :: "(pc \<Rightarrow> bool) \<Rightarrow> pc list \<Rightarrow> nat" where
  "count_pc P T = length (filter P T)"

text \<open>
  The map is injective, every name in use is mapped to the lock its goroutines use, every
  mapped lock is in use, the waiters are counted and the mutex is locked iff one goroutine
  owns it.
\<close>

definition lock_inv :: "locker \<Rightarrow> pc list \<Rightarrow> bool" where
  "lock_inv s T \<longleftrightarrow> gm_wf (lk_locks s) \<and>
     (\<forall>n m a. gm_get (lk_locks s) n = Some a \<longrightarrow> gm_get (lk_locks s) m = Some a \<longrightarrow> n = m) \<and>
     (\<forall>n a. gm_get (lk_locks s) n = Some a \<longrightarrow> a < length (lk_heap s) \<and>
        (\<exists>p \<in> set T. pc_name p = Some (n, a)) \<and>
        lc_waiters (lk_heap s ! a) = int (count_pc (pc_waits a) T) \<and>
        count_pc (pc_owns a) T = (if lc_locked (lk_heap s ! a) then 1 else 0)) \<and>
     (\<forall>p n a. p \<in> set T \<longrightarrow> pc_name p = Some (n, a) \<longrightarrow> gm_get (lk_locks s) n = Some a)"

lemma lock_invD:
  assumes "lock_inv s T"
  shows "gm_wf (lk_locks s)"
    and "gm_get (lk_locks s) n = Some a \<Longrightarrow> gm_get (lk_locks s) m = Some a \<Longrightarrow> n = m"
    and "gm_get (lk_locks s) n = Some a \<Longrightarrow> a < length (lk_heap s)"
    and "gm_get (lk_locks s) n = Some a \<Longrightarrow> \<exists>p \<in> set T. pc_name p = Some (n, a)"
    and "gm_get (lk_locks s) n = Some a \<Longrightarrow> lc_waiters (lk_heap s ! a) = int (count_pc (pc_waits a) T)"
    and "gm_get (lk_locks s) n = Some a \<Longrightarrow> count_pc (pc_owns a) T = (if lc_locked (lk_heap s ! a) then 1 else 0)"
    and "p \<in> set T \<Longrightarrow> pc_name p = Some (n, a) \<Longrightarrow> gm_get (lk_locks s) n = Some a"
  using assms unfolding lock_inv_def by blast+

text \<open>Changing what one goroutine does.\<close>

lemma count_pc_update:
  assumes "t < length T"
  shows "count_pc P (T[t := p]) + (if P (T ! t) then 1 else 0) = count_pc P T + (if P p then 1 else 0)"
proof -
  have s: "T = take t T @ T ! t # drop (Suc t) T" by (rule id_take_nth_drop [OF assms])
  have "count_pc P (T[t := p]) = count_pc P (take t T @ p # drop (Suc t) T)"
    by (simp add: upd_conv_take_nth_drop [OF assms])
  moreover have "count_pc P T = count_pc P (take t T @ T ! t # drop (Suc t) T)" using s by simp
  ultimately show ?thesis by (simp add: count_pc_def)
qed

lemma in_set_update:
  assumes "t < length T"
  shows "q \<in> set (T[t := p]) \<Longrightarrow> q = p \<or> q \<in> set T"
    and "q \<in> set T \<Longrightarrow> q \<noteq> T ! t \<Longrightarrow> q \<in> set (T[t := p])" and "p \<in> set (T[t := p])"
proof -
  show "q \<in> set (T[t := p]) \<Longrightarrow> q = p \<or> q \<in> set T" using set_update_subset_insert [of T t p] by auto
  show "p \<in> set (T[t := p])" by (rule set_update_memI [OF assms])
  assume "q \<in> set T" "q \<noteq> T ! t"
  then obtain i where "i < length T" "T ! i = q" "i \<noteq> t" by (auto simp: in_set_conv_nth)
  then show "q \<in> set (T[t := p])" by (metis length_list_update nth_list_update_neq nth_mem)
qed

lemma lock_invI:
  assumes "gm_wf (lk_locks s)"
    and "\<And>n m a. gm_get (lk_locks s) n = Some a \<Longrightarrow> gm_get (lk_locks s) m = Some a \<Longrightarrow> n = m"
    and "\<And>n a. gm_get (lk_locks s) n = Some a \<Longrightarrow> a < length (lk_heap s)"
    and "\<And>n a. gm_get (lk_locks s) n = Some a \<Longrightarrow> \<exists>p \<in> set T. pc_name p = Some (n, a)"
    and "\<And>n a. gm_get (lk_locks s) n = Some a \<Longrightarrow> lc_waiters (lk_heap s ! a) = int (count_pc (pc_waits a) T)"
    and "\<And>n a. gm_get (lk_locks s) n = Some a \<Longrightarrow> count_pc (pc_owns a) T = (if lc_locked (lk_heap s ! a) then 1 else 0)"
    and "\<And>p n a. p \<in> set T \<Longrightarrow> pc_name p = Some (n, a) \<Longrightarrow> gm_get (lk_locks s) n = Some a"
  shows "lock_inv s T"
  using assms unfolding lock_inv_def by blast

lemma count_pc_pos: "count_pc P T > 0 \<longleftrightarrow> (\<exists>p \<in> set T. P p)"
  by (auto simp: count_pc_def filter_empty_conv)

lemma pc_waits_name: "pc_waits a p \<Longrightarrow> \<exists>n. pc_name p = Some (n, a)"
  by (cases p) auto

lemma pc_owns_name: "pc_owns a p \<Longrightarrow> \<exists>n. pc_name p = Some (n, a)"
  by (cases p) auto

text \<open>A step that changes one mutex and one goroutine, and keeps the map.\<close>

lemma lock_inv_local:
  assumes inv: "lock_inv s T" and t: "t < length T"
    and map: "gm_get (lk_locks s) n = Some a"
    and p: "pc_name p = Some (n, a)" and old: "T ! t = Idle \<or> pc_name (T ! t) = Some (n, a)"
    and s': "lk_locks s' = lk_locks s" "length (lk_heap s') = length (lk_heap s)"
      "\<And>b. b \<noteq> a \<Longrightarrow> lk_heap s' ! b = lk_heap s ! b"
    and w: "lc_waiters (lk_heap s' ! a) = int (count_pc (pc_waits a) (T[t := p]))"
    and o: "count_pc (pc_owns a) (T[t := p]) = (if lc_locked (lk_heap s' ! a) then 1 else 0)"
  shows "lock_inv s' (T[t := p])"
proof (rule lock_invI)
  note I = lock_invD [OF inv]
  have same: "count_pc (pc_waits b) (T[t := p]) = count_pc (pc_waits b) T"
      "count_pc (pc_owns b) (T[t := p]) = count_pc (pc_owns b) T" if "b \<noteq> a" for b
  proof -
    have "\<not> pc_waits b p" "\<not> pc_waits b (T ! t)" "\<not> pc_owns b p" "\<not> pc_owns b (T ! t)"
      using p old that pc_waits_name [of b] pc_owns_name [of b] by fastforce+
    then show "count_pc (pc_waits b) (T[t := p]) = count_pc (pc_waits b) T"
      "count_pc (pc_owns b) (T[t := p]) = count_pc (pc_owns b) T"
      using count_pc_update [OF t, of "pc_waits b" p] count_pc_update [OF t, of "pc_owns b" p] by simp_all
  qed
  show "gm_wf (lk_locks s')" using I(1) s'(1) by simp
  show "gm_get (lk_locks s') m = Some b \<Longrightarrow> gm_get (lk_locks s') m' = Some b \<Longrightarrow> m = m'" for m m' b
    using I(2) s'(1) by simp
  fix m b assume m: "gm_get (lk_locks s') m = Some b"
  then have m': "gm_get (lk_locks s) m = Some b" by (simp add: s'(1))
  show "b < length (lk_heap s')" using I(3) [OF m'] s'(2) by simp
  show "\<exists>q \<in> set (T[t := p]). pc_name q = Some (m, b)"
  proof -
    obtain q where q: "q \<in> set T" "pc_name q = Some (m, b)" using I(4) [OF m'] by blast
    show ?thesis
    proof (cases "q = T ! t")
      case True
      then have "(m, b) = (n, a)" using q(2) old by auto
      then show ?thesis using p in_set_update(3) [OF t] by blast
    next
      case False
      then show ?thesis using q in_set_update(2) [OF t] by blast
    qed
  qed
  show "lc_waiters (lk_heap s' ! b) = int (count_pc (pc_waits b) (T[t := p]))"
    using w I(5) [OF m'] s'(3) same(1) by (cases "b = a") simp_all
  show "count_pc (pc_owns b) (T[t := p]) = (if lc_locked (lk_heap s' ! b) then 1 else 0)"
    using o I(6) [OF m'] s'(3) same(2) by (cases "b = a") simp_all
next
  fix q m b assume "q \<in> set (T[t := p])" "pc_name q = Some (m, b)"
  then show "gm_get (lk_locks s') m = Some b"
    using in_set_update(1) [OF t] p map lock_invD(7) [OF inv] by (fastforce simp: s'(1))
qed

lemma lc_simps [simp]:
  "lk_locks (lc_inc a s) = lk_locks s" "lk_locks (lc_dec a s) = lk_locks s" "lk_locks (lc_lock a b s) = lk_locks s"
  "length (lk_heap (lc_inc a s)) = length (lk_heap s)" "length (lk_heap (lc_dec a s)) = length (lk_heap s)"
  "length (lk_heap (lc_lock a b s)) = length (lk_heap s)"
  "c \<noteq> a \<Longrightarrow> lk_heap (lc_inc a s) ! c = lk_heap s ! c" "c \<noteq> a \<Longrightarrow> lk_heap (lc_dec a s) ! c = lk_heap s ! c"
  "c \<noteq> a \<Longrightarrow> lk_heap (lc_lock a b s) ! c = lk_heap s ! c"
  "a < length (lk_heap s) \<Longrightarrow> lk_heap (lc_inc a s) ! a = (lk_heap s ! a)\<lparr>lc_waiters := lc_waiters (lk_heap s ! a) + 1\<rparr>"
  "a < length (lk_heap s) \<Longrightarrow> lk_heap (lc_dec a s) ! a = (lk_heap s ! a)\<lparr>lc_waiters := lc_waiters (lk_heap s ! a) - 1\<rparr>"
  "a < length (lk_heap s) \<Longrightarrow> lk_heap (lc_lock a b s) ! a = (lk_heap s ! a)\<lparr>lc_locked := b\<rparr>"
  by (simp_all add: lc_inc_def lc_dec_def lc_lock_def)

lemma lock_inv_enter_old:
  assumes inv: "lock_inv s T" and t: "t < length T" "T ! t = Idle" and map: "gm_get (lk_locks s) n = Some a"
  shows "lock_inv (lc_inc a s) (T[t := Waiting n a])"
proof (rule lock_inv_local [OF inv t(1) map])
  note I = lock_invD [OF inv]
  show "lc_waiters (lk_heap (lc_inc a s) ! a) = int (count_pc (pc_waits a) (T[t := Waiting n a]))"
    using count_pc_update [OF t(1), of "pc_waits a" "Waiting n a"] I(3,5) [OF map] t(2) by simp
  show "count_pc (pc_owns a) (T[t := Waiting n a]) = (if lc_locked (lk_heap (lc_inc a s) ! a) then 1 else 0)"
    using count_pc_update [OF t(1), of "pc_owns a" "Waiting n a"] I(3,6) [OF map] t(2) by simp
qed (use t in simp_all)

lemma lock_inv_acquire:
  assumes inv: "lock_inv s T" and t: "t < length T" "T ! t = Waiting n a" and free: "\<not> lc_locked (lk_heap s ! a)"
  shows "lock_inv (lc_lock a True s) (T[t := Acquired n a])"
proof -
  note I = lock_invD [OF inv]
  have map: "gm_get (lk_locks s) n = Some a" using I(7) [OF nth_mem [OF t(1)]] t(2) by simp
  show ?thesis
  proof (rule lock_inv_local [OF inv t(1) map])
    show "lc_waiters (lk_heap (lc_lock a True s) ! a) = int (count_pc (pc_waits a) (T[t := Acquired n a]))"
      using count_pc_update [OF t(1), of "pc_waits a" "Acquired n a"] I(3,5) [OF map] t(2) by simp
    show "count_pc (pc_owns a) (T[t := Acquired n a]) = (if lc_locked (lk_heap (lc_lock a True s) ! a) then 1 else 0)"
      using count_pc_update [OF t(1), of "pc_owns a" "Acquired n a"] I(3,6) [OF map] t(2) free by simp
  qed (use t in simp_all)
qed

lemma lock_inv_dec:
  assumes inv: "lock_inv s T" and t: "t < length T" "T ! t = Acquired n a"
  shows "lock_inv (lc_dec a s) (T[t := Holding n a])"
proof -
  note I = lock_invD [OF inv]
  have map: "gm_get (lk_locks s) n = Some a" using I(7) [OF nth_mem [OF t(1)]] t(2) by simp
  show ?thesis
  proof (rule lock_inv_local [OF inv t(1) map])
    show "lc_waiters (lk_heap (lc_dec a s) ! a) = int (count_pc (pc_waits a) (T[t := Holding n a]))"
      using count_pc_update [OF t(1), of "pc_waits a" "Holding n a"] I(3,5) [OF map] t(2) by simp
    show "count_pc (pc_owns a) (T[t := Holding n a]) = (if lc_locked (lk_heap (lc_dec a s) ! a) then 1 else 0)"
      using count_pc_update [OF t(1), of "pc_owns a" "Holding n a"] I(3,6) [OF map] t(2) by simp
  qed (use t in simp_all)
qed

lemma lock_inv_enter_new:
  assumes inv: "lock_inv s T" and t: "t < length T" "T ! t = Idle" and map: "gm_get (lk_locks s) n = None"
  defines "a \<equiv> length (lk_heap s)"
  defines "s1 \<equiv> s\<lparr>lk_heap := lk_heap s @ [\<lparr>lc_locked = False, lc_waiters = 0\<rparr>], lk_locks := gm_set n a (lk_locks s)\<rparr>"
  shows "lock_inv (lc_inc a s1) (T[t := Waiting n a])"
proof (rule lock_invI)
  note I = lock_invD [OF inv]
  have a1: "a < length (lk_heap s1)" and heap: "\<And>b. b < a \<Longrightarrow> lk_heap s1 ! b = lk_heap s ! b"
    and new: "lk_heap s1 ! a = \<lparr>lc_locked = False, lc_waiters = 0\<rparr>"
    by (simp_all add: s1_def a_def nth_append)
  have fresh: "b < a \<and> b \<noteq> a" if "p \<in> set T" "pc_name p = Some (m, b)" for p m b
    using I(3) [OF I(7) [OF that]] by (simp add: a_def)
  have zero: "count_pc (pc_waits a) T = 0" "count_pc (pc_owns a) T = 0"
    using fresh count_pc_pos [of "pc_waits a" T] count_pc_pos [of "pc_owns a" T] pc_waits_name pc_owns_name
    by (metis gr_zeroI)+
  have get: "gm_get (lk_locks s1) m = Some b \<longleftrightarrow> (m = n \<and> b = a) \<or> (m \<noteq> n \<and> gm_get (lk_locks s) m = Some b)" for m b
    by (auto simp: s1_def)
  have low: "gm_get (lk_locks s) m = Some b \<Longrightarrow> b < a" for m b using I(3) by (simp add: a_def)
  show "gm_wf (lk_locks (lc_inc a s1))" using I(1) by (simp add: s1_def)
  show "m = m'" if "gm_get (lk_locks (lc_inc a s1)) m = Some b" "gm_get (lk_locks (lc_inc a s1)) m' = Some b" for m m' b
  proof -
    have "gm_get (lk_locks s1) m = Some b" "gm_get (lk_locks s1) m' = Some b" using that by simp_all
    then show ?thesis unfolding get using I(2) low by blast
  qed
  fix m b assume "gm_get (lk_locks (lc_inc a s1)) m = Some b"
  then have m: "(m = n \<and> b = a) \<or> (m \<noteq> n \<and> gm_get (lk_locks s) m = Some b)" using get by simp
  show "b < length (lk_heap (lc_inc a s1))" using m low a1 by (auto simp: s1_def a_def dest: I(3))
  show "\<exists>p \<in> set (T[t := Waiting n a]). pc_name p = Some (m, b)"
    using m
  proof
    assume "m = n \<and> b = a"
    then show ?thesis using in_set_update(3) [OF t(1), of "Waiting n a"] by force
  next
    assume m: "m \<noteq> n \<and> gm_get (lk_locks s) m = Some b"
    then obtain q where "q \<in> set T" "pc_name q = Some (m, b)" using I(4) by blast
    moreover from this have "q \<noteq> T ! t" using t by auto
    ultimately show ?thesis using in_set_update(2) [OF t(1)] by blast
  qed
  have cnt: "count_pc (pc_waits b) (T[t := Waiting n a]) = count_pc (pc_waits b) T + (if b = a then 1 else 0)"
      "count_pc (pc_owns b) (T[t := Waiting n a]) = count_pc (pc_owns b) T"
    using count_pc_update [OF t(1), of "pc_waits b" "Waiting n a"] count_pc_update [OF t(1), of "pc_owns b" "Waiting n a"] t(2)
    by simp_all
  show "lc_waiters (lk_heap (lc_inc a s1) ! b) = int (count_pc (pc_waits b) (T[t := Waiting n a]))"
    using m
  proof
    assume "m = n \<and> b = a"
    then show ?thesis using cnt by (simp add: zero a1 new)
  next
    assume m: "m \<noteq> n \<and> gm_get (lk_locks s) m = Some b"
    then have "b < a" using low by blast
    then show ?thesis using m I(5) [of m b] by (simp add: cnt heap)
  qed
  show "count_pc (pc_owns b) (T[t := Waiting n a]) = (if lc_locked (lk_heap (lc_inc a s1) ! b) then 1 else 0)"
    using m
  proof
    assume "m = n \<and> b = a"
    then show ?thesis using cnt by (simp add: zero a1 new)
  next
    assume m: "m \<noteq> n \<and> gm_get (lk_locks s) m = Some b"
    then have "b < a" using low by blast
    then show ?thesis using m I(6) [of m b] by (simp add: cnt heap)
  qed
next
  fix p m b assume "p \<in> set (T[t := Waiting n a])" "pc_name p = Some (m, b)"
  then show "gm_get (lk_locks (lc_inc a s1)) m = Some b"
    using in_set_update(1) [OF t(1)] lock_invD(7) [OF inv] map by (fastforce simp: s1_def)
qed

lemma lock_inv_unlock:
  assumes inv: "lock_inv s T" and t: "t < length T" "T ! t = Holding n a"
  shows "lock_inv (fst (lock_unlock n s)) (T[t := Idle])" "snd (lock_unlock n s) = Unlocked"
proof -
  note I = lock_invD [OF inv]
  have map: "gm_get (lk_locks s) n = Some a" using I(7) [OF nth_mem [OF t(1)]] t(2) by simp
  have a: "a < length (lk_heap s)" by (rule I(3) [OF map])
  have "count_pc (pc_owns a) T > 0" unfolding count_pc_pos using nth_mem [OF t(1)] t(2) by force
  then have locked: "lc_locked (lk_heap s ! a)" and one: "count_pc (pc_owns a) T = 1"
    using I(6) [OF map] by (simp_all split: if_splits)
  let ?s1 = "if lc_waiters (lk_heap s ! a) = 0 then s\<lparr>lk_locks := gm_del n (lk_locks s)\<rparr> else s"
  have run: "lock_unlock n s = (lc_lock a False ?s1, Unlocked)"
    using map locked by (simp add: lock_unlock_def Let_def)
  then show "snd (lock_unlock n s) = Unlocked" by simp
  have owns0: "count_pc (pc_owns a) (T[t := Idle]) = 0"
    using count_pc_update [OF t(1), of "pc_owns a" Idle] one t(2) by simp
  have waits: "count_pc (pc_waits b) (T[t := Idle]) = count_pc (pc_waits b) T" for b
    using count_pc_update [OF t(1), of "pc_waits b" Idle] t(2) by simp
  have owns: "b \<noteq> a \<Longrightarrow> count_pc (pc_owns b) (T[t := Idle]) = count_pc (pc_owns b) T" for b
    using count_pc_update [OF t(1), of "pc_owns b" Idle] t(2) by simp
  have sub: "q \<in> set (T[t := Idle]) \<Longrightarrow> pc_name q = Some x \<Longrightarrow> q \<in> set T" for q x
    using in_set_update(1) [OF t(1), of q Idle] by auto
  have user: "\<exists>q \<in> set (T[t := Idle]). pc_name q = Some (m, b)" if m: "gm_get (lk_locks s) m = Some b" "b \<noteq> a" for m b
  proof -
    obtain q where "q \<in> set T" "pc_name q = Some (m, b)" using I(4) [OF m(1)] by blast
    then show ?thesis using in_set_update(2) [OF t(1), of q Idle] m(2) t(2) by fastforce
  qed
  show "lock_inv (fst (lock_unlock n s)) (T[t := Idle])"
  proof (cases "lc_waiters (lk_heap s ! a) = 0")
    case True
    then have w0: "count_pc (pc_waits a) (T[t := Idle]) = 0" using I(5) [OF map] waits by simp
    have none: "q \<in> set (T[t := Idle]) \<Longrightarrow> pc_name q \<noteq> Some (m, a)" for q m
    proof
      assume q: "q \<in> set (T[t := Idle])" "pc_name q = Some (m, a)"
      have "pc_waits a q \<or> pc_owns a q" using q(2) by (cases q) auto
      then show False using q(1) w0 owns0 count_pc_pos [of "pc_waits a" "T[t := Idle]"]
        count_pc_pos [of "pc_owns a" "T[t := Idle]"] by auto
    qed
    have e: "fst (lock_unlock n s) = lc_lock a False (s\<lparr>lk_locks := gm_del n (lk_locks s)\<rparr>)"
      using run True by simp
    show ?thesis
      unfolding e
    proof (rule lock_invI)
      show "gm_wf (lk_locks (lc_lock a False (s\<lparr>lk_locks := gm_del n (lk_locks s)\<rparr>)))" using I(1) by simp
      show "m = m'" if "gm_get (lk_locks (lc_lock a False (s\<lparr>lk_locks := gm_del n (lk_locks s)\<rparr>))) m = Some b"
        "gm_get (lk_locks (lc_lock a False (s\<lparr>lk_locks := gm_del n (lk_locks s)\<rparr>))) m' = Some b" for m m' b
        using that I(2) [of m b m'] by (simp split: if_splits)
      fix m b assume "gm_get (lk_locks (lc_lock a False (s\<lparr>lk_locks := gm_del n (lk_locks s)\<rparr>))) m = Some b"
      then have m: "m \<noteq> n" "gm_get (lk_locks s) m = Some b" by (simp_all split: if_splits)
      then have ba: "b \<noteq> a" using I(2) [OF m(2), of n] map by auto
      show "b < length (lk_heap (lc_lock a False (s\<lparr>lk_locks := gm_del n (lk_locks s)\<rparr>)))" using I(3) [OF m(2)] by simp
      show "\<exists>q \<in> set (T[t := Idle]). pc_name q = Some (m, b)" by (rule user [OF m(2) ba])
      show "lc_waiters (lk_heap (lc_lock a False (s\<lparr>lk_locks := gm_del n (lk_locks s)\<rparr>)) ! b) =
          int (count_pc (pc_waits b) (T[t := Idle]))" using ba I(5) [OF m(2)] waits by simp
      show "count_pc (pc_owns b) (T[t := Idle]) =
          (if lc_locked (lk_heap (lc_lock a False (s\<lparr>lk_locks := gm_del n (lk_locks s)\<rparr>)) ! b) then 1 else 0)"
        using ba I(6) [OF m(2)] owns by simp
    next
      fix q m b assume q: "q \<in> set (T[t := Idle])" "pc_name q = Some (m, b)"
      have "gm_get (lk_locks s) m = Some b" by (rule I(7) [OF sub [OF q] q(2)])
      moreover have "b \<noteq> a" using none [OF q(1)] q(2) by auto
      ultimately show "gm_get (lk_locks (lc_lock a False (s\<lparr>lk_locks := gm_del n (lk_locks s)\<rparr>))) m = Some b"
        using map by auto
    qed
  next
    case False
    then have "count_pc (pc_waits a) (T[t := Idle]) > 0" using I(5) [OF map] waits by simp
    then obtain q where q: "q \<in> set (T[t := Idle])" "pc_waits a q" unfolding count_pc_pos by blast
    then obtain m where m: "pc_name q = Some (m, a)" using pc_waits_name by blast
    have "m = n" using I(7) [OF sub [OF q(1) m] m] map I(2) by blast
    have e: "fst (lock_unlock n s) = lc_lock a False s" using run False by simp
    show ?thesis
      unfolding e
    proof (rule lock_invI)
      show "gm_wf (lk_locks (lc_lock a False s))" using I(1) by simp
      show "m = m'" if "gm_get (lk_locks (lc_lock a False s)) m = Some b"
        "gm_get (lk_locks (lc_lock a False s)) m' = Some b" for m m' b using that I(2) by simp
      fix m' b assume "gm_get (lk_locks (lc_lock a False s)) m' = Some b"
      then have m': "gm_get (lk_locks s) m' = Some b" by simp
      show "b < length (lk_heap (lc_lock a False s))" using I(3) [OF m'] by simp
      show "\<exists>q \<in> set (T[t := Idle]). pc_name q = Some (m', b)"
      proof (cases "b = a")
        case True
        then have "m' = n" using I(2) [OF m'] map by blast
        then show ?thesis using q(1) m \<open>m = n\<close> True by blast
      qed (rule user [OF m'])
      show "lc_waiters (lk_heap (lc_lock a False s) ! b) = int (count_pc (pc_waits b) (T[t := Idle]))"
        using I(5) [OF m'] waits a by (cases "b = a") simp_all
      show "count_pc (pc_owns b) (T[t := Idle]) = (if lc_locked (lk_heap (lc_lock a False s) ! b) then 1 else 0)"
        using I(6) [OF m'] owns owns0 a by (cases "b = a") simp_all
    next
      fix q m b assume q: "q \<in> set (T[t := Idle])" "pc_name q = Some (m, b)"
      then show "gm_get (lk_locks (lc_lock a False s)) m = Some b" using I(7) [OF sub [OF q] q(2)] by simp
    qed
  qed
qed

lemma lock_step_inv:
  assumes "lock_step (s, T) (s', T')" "lock_inv s T"
  shows "lock_inv s' T'"
  using assms(1)
proof cases
  case spawn
  have "count_pc P (T @ [Idle]) = count_pc P T" if "\<not> P Idle" for P using that by (simp add: count_pc_def)
  then show ?thesis using assms(2) spawn unfolding lock_inv_def by auto
next
  case (enter t n a)
  then show ?thesis
    using lock_inv_enter_old [OF assms(2) enter(2,3)] lock_inv_enter_new [OF assms(2) enter(2,3)]
    by (auto simp: lock_enter_def Let_def split: option.splits)
next
  case (acquire t n a)
  then show ?thesis using lock_inv_acquire [OF assms(2)] by simp
next
  case (dec t n a)
  then show ?thesis using lock_inv_dec [OF assms(2)] by simp
next
  case (unlock t n a)
  then show ?thesis using lock_inv_unlock(1) [OF assms(2)] by simp
qed

lemma lock_reach_inv: "lock_reach s T \<Longrightarrow> lock_inv s T"
  by (induction rule: lock_reach.induct) (simp_all add: lock_step_inv, simp add: lock_inv_def new_locker_def)

section \<open>Properties\<close>

fun holds_name :: "string \<Rightarrow> pc \<Rightarrow> bool" where
  "holds_name n (Acquired m a) = (n = m)"
| "holds_name n (Holding m a) = (n = m)"
| "holds_name n _ = False"

text \<open>
  C27. The named locks exclude each other: whatever the interleaving, at most one goroutine is
  past \<^verbatim>\<open>Lock\<close> of a name, even though locks are deleted and made anew; a goroutine's \<^verbatim>\<open>Unlock\<close>
  of the name it holds succeeds; and a name that no goroutine uses has no lock left.
\<close>

theorem locker_mutual_exclusion:
  assumes "lock_reach s T"
  shows "count_pc (holds_name n) T \<le> 1 \<and>
     (\<forall>t < length T. \<forall>a. T ! t = Holding n a \<longrightarrow> snd (lock_unlock n s) = Unlocked) \<and>
     ((\<forall>p \<in> set T. \<forall>a. pc_name p \<noteq> Some (n, a)) \<longrightarrow> gm_get (lk_locks s) n = None)"
proof (intro conjI allI impI)
  note inv = lock_reach_inv [OF assms] and I = lock_invD [OF lock_reach_inv [OF assms]]
  show "count_pc (holds_name n) T \<le> 1"
  proof (cases "\<exists>p \<in> set T. holds_name n p")
    case True
    then obtain p where p: "p \<in> set T" "holds_name n p" by blast
    obtain a where "pc_name p = Some (n, a)" using p(2) by (cases p) auto
    then have map: "gm_get (lk_locks s) n = Some a" using I(7) [OF p(1)] by blast
    have "holds_name n q \<longleftrightarrow> pc_owns a q" if q: "q \<in> set T" for q
    proof -
      have same: "n = m \<longleftrightarrow> a = b" if "pc_name q = Some (m, b)" for m b
      proof -
        have "gm_get (lk_locks s) m = Some b" by (rule I(7) [OF q that])
        then show ?thesis using I(2) [of n a m] map by auto
      qed
      show ?thesis by (cases q) (simp_all add: same)
    qed
    then have "count_pc (holds_name n) T = count_pc (pc_owns a) T"
      unfolding count_pc_def by (metis (mono_tags, lifting) filter_cong)
    then show ?thesis using I(6) [OF map] by simp
  next
    case False
    then have "count_pc (holds_name n) T = 0" using count_pc_pos [of "holds_name n" T] by auto
    then show ?thesis by simp
  qed
  show "snd (lock_unlock n s) = Unlocked" if "t < length T" "T ! t = Holding n a" for t a
    by (rule lock_inv_unlock(2) [OF inv that])
  show "gm_get (lk_locks s) n = None" if "\<forall>p \<in> set T. \<forall>a. pc_name p \<noteq> Some (n, a)"
    using that I(4) [of n] by (cases "gm_get (lk_locks s) n") blast+
qed

definition ex_locker :: locker where
  "ex_locker = \<lparr>lk_heap = [\<lparr>lc_locked = False, lc_waiters = 1\<rparr>], lk_locks = [(''web'', 0)]\<rparr>"

lemma ex_locker_reach: "lock_reach ex_locker [Waiting ''web'' 0]"
proof -
  have "lock_step (new_locker, []) (new_locker, [] @ [Idle])" by (rule lock_step.spawn)
  then have "lock_reach new_locker [Idle]" using lock_reach.step [OF lock_reach.start] by simp
  moreover have "lock_step (new_locker, [Idle]) (ex_locker, [Idle][0 := Waiting ''web'' 0])"
    by (rule lock_step.enter) (simp_all add: lock_enter_def new_locker_def ex_locker_def lc_inc_def)
  ultimately show ?thesis using lock_reach.step by fastforce
qed

theorem locker_mutual_exclusion_witness: "count_pc (holds_name ''web'') [Waiting ''web'' 0] \<le> 1"
  using locker_mutual_exclusion [OF ex_locker_reach] by blast

end
