(* ===== verification/RefCounter.thy ===== *)
theory RefCounter
  imports GoPrelude
begin

text \<open>
  The reference counter of daemon/graphdriver/counter.go, with which the graph drivers share
  one mount between several users. Each operation comes with what the checker answers when it
  is asked whether the path is mounted.
\<close>

record minfo =
  mi_check :: bool
  mi_count :: int

type_synonym refcounter = "(string, minfo) gomap"

definition NewRefCounter :: refcounter where
  "NewRefCounter = []"

definition incdec :: "string \<Rightarrow> bool \<Rightarrow> (minfo \<Rightarrow> minfo) \<Rightarrow> refcounter \<Rightarrow> refcounter \<times> int" where
  "incdec path mounted infoOp c =
     (let m = (case gm_get c path of None \<Rightarrow> \<lparr>mi_check = False, mi_count = 0\<rparr> | Some m \<Rightarrow> m);
          m1 = (if mi_check m then m
                else m\<lparr>mi_check := True, mi_count := mi_count m + (if mounted then 1 else 0)\<rparr>);
          m2 = infoOp m1
      in (gm_set path m2 c, mi_count m2))"

definition Increment :: "string \<Rightarrow> bool \<Rightarrow> refcounter \<Rightarrow> refcounter \<times> int" where
  "Increment path mounted c = incdec path mounted (\<lambda>m. m\<lparr>mi_count := mi_count m + 1\<rparr>) c"

definition Decrement :: "string \<Rightarrow> bool \<Rightarrow> refcounter \<Rightarrow> refcounter \<times> int" where
  "Decrement path mounted c = incdec path mounted (\<lambda>m. m\<lparr>mi_count := mi_count m - 1\<rparr>) c"

section \<open>What the counter counts\<close>

datatype refc_op = Inc string bool | Dec string bool

fun refc_step :: "refc_op \<Rightarrow> refcounter \<Rightarrow> refcounter \<times> int" where
  "refc_step (Inc p b) c = Increment p b c"
| "refc_step (Dec p b) c = Decrement p b c"

definition refc_run :: "refc_op list \<Rightarrow> refcounter" where
  "refc_run ops = foldl (\<lambda>c o'. fst (refc_step o' c)) NewRefCounter ops"

fun op_path :: "refc_op \<Rightarrow> string" where
  "op_path (Inc p b) = p" | "op_path (Dec p b) = p"

fun op_mounted :: "refc_op \<Rightarrow> bool" where
  "op_mounted (Inc p b) = b" | "op_mounted (Dec p b) = b"

fun op_delta :: "refc_op \<Rightarrow> int" where
  "op_delta (Inc p b) = 1" | "op_delta (Dec p b) = -1"

text \<open>The users of a path: who mounted it before the counter knew of it, and the operations since.\<close>

definition refc_spec :: "refc_op list \<Rightarrow> string \<Rightarrow> int" where
  "refc_spec ops path =
     (case filter (\<lambda>o'. op_path o' = path) ops of
        [] \<Rightarrow> 0
      | first # rest \<Rightarrow> (if op_mounted first then 1 else 0) + sum_list (map op_delta (first # rest)))"

lemma refc_run_snoc: "refc_run (ops @ [o']) = fst (refc_step o' (refc_run ops))"
  by (simp add: refc_run_def)

lemma refc_step_get:
  "gm_get (fst (refc_step o' c)) p =
     (if p = op_path o'
      then Some \<lparr>mi_check = True, mi_count = snd (refc_step o' c)\<rparr> else gm_get c p)"
  "snd (refc_step o' c) = op_delta o' +
     (case gm_get c (op_path o') of None \<Rightarrow> (if op_mounted o' then 1 else 0)
      | Some m \<Rightarrow> mi_count m + (if mi_check m \<or> \<not> op_mounted o' then 0 else 1))"
  by (cases o'; auto simp: Increment_def Decrement_def incdec_def Let_def split: option.split)+

lemma refc_spec_snoc:
  "refc_spec (ops @ [o']) p =
     (if op_path o' \<noteq> p then refc_spec ops p
      else if filter (\<lambda>o'. op_path o' = p) ops = [] then op_delta o' + (if op_mounted o' then 1 else 0)
      else refc_spec ops p + op_delta o')"
  by (cases "filter (\<lambda>o'. op_path o' = p) ops") (simp_all add: refc_spec_def)

lemma refc_run_get:
  "gm_get (refc_run ops) p =
     (if filter (\<lambda>o'. op_path o' = p) ops = [] then None
      else Some \<lparr>mi_check = True, mi_count = refc_spec ops p\<rparr>)"
proof (induction ops arbitrary: p rule: rev_induct)
  case Nil
  then show ?case by (simp add: refc_run_def NewRefCounter_def)
next
  case (snoc o' ops)
  show ?case
    by (simp add: refc_run_snoc refc_step_get refc_spec_snoc snoc.IH)
qed

text \<open>
  After any sequence of increments and decrements the value the counter returns for a path
  is the number of its users: one if the path was mounted when the counter first saw it,
  whatever the checker says later, plus the increments, minus the decrements of that path
  alone.
\<close>

theorem refcounter_exact:
  "snd (refc_step o' (refc_run ops)) = refc_spec (ops @ [o']) (op_path o')"
  by (simp add: refc_step_get refc_run_get refc_spec_snoc)
end
