(* ===== verification/ContainerState.thy ===== *)
theory ContainerState
  imports GoPrelude
begin

text \<open>
  The state of a container (container/state.go, health.go, state_unix.go) and the waiters for
  its end.

  Times are nanoseconds, zero the zero time. A channel that waiters read is a number:
  \<open>cs_wait\<close> is the channel of the current run, and every smaller number is closed. The methods
  that lock around one read or write are atomic.
\<close>

section \<open>Health\<close>

record probe_result =
  pr_start :: int
  pr_end :: int
  pr_exit :: int
  pr_output :: string

record health =
  h_Status :: string
  h_FailingStreak :: int
  h_Log :: "probe_result list"
  h_open :: bool

text \<open>\<open>h_open\<close> says whether the monitor's channel exists.\<close>

definition Health_String :: "health \<Rightarrow> string" where
  "Health_String h =
     (if \<not> h_open h then ''unhealthy''
      else if h_Status h = ''starting'' then ''health: starting''
      else h_Status h)"

text \<open>\<open>OpenMonitorChannel\<close> also returns whether a new channel was made.\<close>

definition OpenMonitorChannel :: "health \<Rightarrow> health \<times> bool" where
  "OpenMonitorChannel h = (if \<not> h_open h then (h\<lparr>h_open := True\<rparr>, True) else (h, False))"

definition CloseMonitorChannel :: "health \<Rightarrow> health" where
  "CloseMonitorChannel h = (if h_open h then h\<lparr>h_open := False\<rparr> else h)"

section \<open>The state\<close>

record cstate =
  cs_Running :: bool
  cs_Paused :: bool
  cs_Restarting :: bool
  cs_OOMKilled :: bool
  cs_RemovalInProgress :: bool
  cs_Dead :: bool
  cs_Pid :: int
  cs_ExitCode :: int
  cs_ErrorMsg :: string
  cs_StartedAt :: int
  cs_FinishedAt :: int
  cs_wait :: nat
  cs_Health :: "health option"

record exit_status =
  es_ExitCode :: int
  es_OOMKilled :: bool

definition NewState :: cstate where
  "NewState = \<lparr>cs_Running = False, cs_Paused = False, cs_Restarting = False, cs_OOMKilled = False,
     cs_RemovalInProgress = False, cs_Dead = False, cs_Pid = 0, cs_ExitCode = 0, cs_ErrorMsg = '''',
     cs_StartedAt = 0, cs_FinishedAt = 0, cs_wait = 0, cs_Health = None\<rparr>"

definition setFromExitStatus :: "exit_status \<Rightarrow> cstate \<Rightarrow> cstate" where
  "setFromExitStatus e s = s\<lparr>cs_ExitCode := es_ExitCode e, cs_OOMKilled := es_OOMKilled e\<rparr>"

definition SetExitCode :: "int \<Rightarrow> cstate \<Rightarrow> cstate" where
  "SetExitCode ec s = s\<lparr>cs_ExitCode := ec\<rparr>"

definition SetRunning :: "int \<Rightarrow> bool \<Rightarrow> int \<Rightarrow> cstate \<Rightarrow> cstate" where
  "SetRunning pid initial now s =
     (let s1 = s\<lparr>cs_ErrorMsg := '''', cs_Running := True, cs_Restarting := False, cs_ExitCode := 0, cs_Pid := pid\<rparr>
      in if initial then s1\<lparr>cs_StartedAt := now\<rparr> else s1)"

text \<open>Closing the channel wakes the waiters, and a new one takes its place.\<close>

definition fire_waiters :: "cstate \<Rightarrow> cstate" where
  "fire_waiters s = s\<lparr>cs_wait := Suc (cs_wait s)\<rparr>"

definition SetStopped :: "exit_status \<Rightarrow> int \<Rightarrow> cstate \<Rightarrow> cstate" where
  "SetStopped e now s =
     fire_waiters (setFromExitStatus e
       (s\<lparr>cs_Running := False, cs_Paused := False, cs_Restarting := False, cs_Pid := 0, cs_FinishedAt := now\<rparr>))"

definition SetRestarting :: "exit_status \<Rightarrow> int \<Rightarrow> cstate \<Rightarrow> cstate" where
  "SetRestarting e now s =
     fire_waiters (setFromExitStatus e
       (s\<lparr>cs_Running := True, cs_Restarting := True, cs_Pid := 0, cs_FinishedAt := now\<rparr>))"

definition SetError :: "string \<Rightarrow> cstate \<Rightarrow> cstate" where
  "SetError msg s = s\<lparr>cs_ErrorMsg := msg\<rparr>"

definition SetRemovalInProgress :: "cstate \<Rightarrow> cstate \<times> bool" where
  "SetRemovalInProgress s =
     (if cs_RemovalInProgress s then (s, True) else (s\<lparr>cs_RemovalInProgress := True\<rparr>, False))"

definition ResetRemovalInProgress :: "cstate \<Rightarrow> cstate" where
  "ResetRemovalInProgress s = s\<lparr>cs_RemovalInProgress := False\<rparr>"

definition SetDead :: "cstate \<Rightarrow> cstate" where
  "SetDead s = s\<lparr>cs_Dead := True\<rparr>"

section \<open>Descriptions\<close>

definition StateString :: "cstate \<Rightarrow> string" where
  "StateString s =
     (if cs_Running s
      then (if cs_Paused s then ''paused'' else if cs_Restarting s then ''restarting'' else ''running'')
      else if cs_RemovalInProgress s then ''removing''
      else if cs_Dead s then ''dead''
      else if cs_StartedAt s = 0 then ''created''
      else ''exited'')"

definition IsValidStateString :: "string \<Rightarrow> bool" where
  "IsValidStateString s =
     (\<not> (s \<noteq> ''paused'' \<and> s \<noteq> ''restarting'' \<and> s \<noteq> ''removing'' \<and> s \<noteq> ''running'' \<and>
         s \<noteq> ''dead'' \<and> s \<noteq> ''created'' \<and> s \<noteq> ''exited''))"

definition HealthString :: "cstate \<Rightarrow> string" where
  "HealthString s = (case cs_Health s of None \<Rightarrow> ''none'' | Some h \<Rightarrow> Health_String h)"

definition IsValidHealthString :: "string \<Rightarrow> bool" where
  "IsValidHealthString s =
     (s = ''starting'' \<or> s = ''healthy'' \<or> s = ''unhealthy'' \<or> s = ''none'')"

text \<open>\<open>dur\<close> is \<^verbatim>\<open>units.HumanDuration\<close>.\<close>

definition State_String :: "(int \<Rightarrow> string) \<Rightarrow> int \<Rightarrow> cstate \<Rightarrow> string" where
  "State_String dur now s =
     (if cs_Running s then
        (if cs_Paused s then ''Up '' @ dur (now - cs_StartedAt s) @ '' (Paused)''
         else if cs_Restarting s then
           ''Restarting ('' @ itoa (cs_ExitCode s) @ '') '' @ dur (now - cs_FinishedAt s) @ '' ago''
         else (case cs_Health s of
             Some h \<Rightarrow> ''Up '' @ dur (now - cs_StartedAt s) @ '' ('' @ Health_String h @ '')''
           | None \<Rightarrow> ''Up '' @ dur (now - cs_StartedAt s)))
      else if cs_RemovalInProgress s then ''Removal In Progress''
      else if cs_Dead s then ''Dead''
      else if cs_StartedAt s = 0 then ''Created''
      else if cs_FinishedAt s = 0 then ''''
      else ''Exited ('' @ itoa (cs_ExitCode s) @ '') '' @ dur (now - cs_FinishedAt s) @ '' ago'')"

section \<open>Waiting\<close>

text \<open>
  \<^verbatim>\<open>WaitWithContext\<close> in its two parts: the first answers at once when the container does not
  run, and otherwise takes the channel; the second, after the channel was closed, reads the
  exit code of whatever state the container is in then. A status with exit code zero is the
  nil error.
\<close>

datatype wait_start = Stopped_with int string | Waits_on nat

definition wait_begin :: "cstate \<Rightarrow> wait_start" where
  "wait_begin s = (if \<not> cs_Running s then Stopped_with (cs_ExitCode s) (cs_ErrorMsg s) else Waits_on (cs_wait s))"

definition wait_closed :: "nat \<Rightarrow> cstate \<Rightarrow> bool" where
  "wait_closed c s \<longleftrightarrow> c < cs_wait s"

definition wait_end :: "nat \<Rightarrow> cstate \<Rightarrow> (int \<times> string) option" where
  "wait_end c s = (if wait_closed c s then Some (cs_ExitCode s, cs_ErrorMsg s) else None)"

text \<open>\<^verbatim>\<open>WaitStop\<close>: the exit code, or an error (on the left) when the time runs out.\<close>

definition WaitStop_result :: "(int \<times> string) option \<Rightarrow> unit + int" where
  "WaitStop_result r = (case r of None \<Rightarrow> Inl () | Some (ec, msg) \<Rightarrow> Inr ec)"

section \<open>Facts\<close>

lemma StateString_valid: "IsValidStateString (StateString s)"
  by (simp add: StateString_def IsValidStateString_def)

lemma state_flags [simp]:
  "cs_Running (fire_waiters s) = cs_Running s" "cs_Paused (fire_waiters s) = cs_Paused s"
  "cs_Restarting (fire_waiters s) = cs_Restarting s" "cs_Pid (fire_waiters s) = cs_Pid s"
  "cs_ExitCode (fire_waiters s) = cs_ExitCode s" "cs_Health (fire_waiters s) = cs_Health s"
  "cs_wait (fire_waiters s) = Suc (cs_wait s)" "cs_StartedAt (fire_waiters s) = cs_StartedAt s"
  "cs_Running (setFromExitStatus e s) = cs_Running s" "cs_Paused (setFromExitStatus e s) = cs_Paused s"
  "cs_Restarting (setFromExitStatus e s) = cs_Restarting s" "cs_Pid (setFromExitStatus e s) = cs_Pid s"
  "cs_ExitCode (setFromExitStatus e s) = es_ExitCode e" "cs_Health (setFromExitStatus e s) = cs_Health s"
  "cs_wait (setFromExitStatus e s) = cs_wait s" "cs_StartedAt (setFromExitStatus e s) = cs_StartedAt s"
  by (simp_all add: fire_waiters_def setFromExitStatus_def)

lemma SetStopped_flags [simp]:
  "\<not> cs_Running (SetStopped e now s)" "\<not> cs_Paused (SetStopped e now s)" "\<not> cs_Restarting (SetStopped e now s)"
  "cs_Pid (SetStopped e now s) = 0" "cs_ExitCode (SetStopped e now s) = es_ExitCode e"
  "cs_wait (SetStopped e now s) = Suc (cs_wait s)" "cs_Health (SetStopped e now s) = cs_Health s"
  by (simp_all add: SetStopped_def)

lemma SetRestarting_flags [simp]:
  "cs_Running (SetRestarting e now s)" "cs_Paused (SetRestarting e now s) = cs_Paused s"
  "cs_Restarting (SetRestarting e now s)" "cs_Pid (SetRestarting e now s) = 0"
  "cs_ExitCode (SetRestarting e now s) = es_ExitCode e" "cs_wait (SetRestarting e now s) = Suc (cs_wait s)"
  "cs_Health (SetRestarting e now s) = cs_Health s"
  by (simp_all add: SetRestarting_def)

lemma SetRunning_flags [simp]:
  "cs_Running (SetRunning pid i now s)" "cs_Paused (SetRunning pid i now s) = cs_Paused s"
  "\<not> cs_Restarting (SetRunning pid i now s)" "cs_Pid (SetRunning pid i now s) = pid"
  "cs_ExitCode (SetRunning pid i now s) = 0" "cs_wait (SetRunning pid i now s) = cs_wait s"
  "cs_Health (SetRunning pid i now s) = cs_Health s"
  by (simp_all add: SetRunning_def Let_def)

end
