(* ===== verification/HealthCheck.thy ===== *)
theory HealthCheck
  imports ContainerState
begin

text \<open>
  The health checks of daemon/health.go: how the results of the probes become the health
  status, when the monitor runs, and the bounded buffer for a probe's output.
\<close>

section \<open>Configuration\<close>

record health_config =
  hc_Test :: "string list"
  hc_StartPeriod :: int
  hc_Retries :: int

definition maxOutputLen :: nat where "maxOutputLen = 4096"

definition maxLogEntries :: nat where "maxLogEntries = 5"

definition defaultProbeRetries :: int where "defaultProbeRetries = 3"

definition defaultStartPeriod :: int where "defaultStartPeriod = 0"

definition timeoutWithDefault :: "int \<Rightarrow> int \<Rightarrow> int" where
  "timeoutWithDefault configured dflt = (if configured = 0 then dflt else configured)"

datatype probe = CmdProbe bool

definition getProbe :: "health_config option \<Rightarrow> probe option" where
  "getProbe cfg =
     (case cfg of
        None \<Rightarrow> None
      | Some c \<Rightarrow>
          (case hc_Test c of
             [] \<Rightarrow> None
           | t # _ \<Rightarrow> if t = ''CMD'' then Some (CmdProbe False)
                      else if t = ''CMD-SHELL'' then Some (CmdProbe True) else None))"

section \<open>Probe results\<close>

definition log_result :: "probe_result \<Rightarrow> probe_result list \<Rightarrow> probe_result list" where
  "log_result r l = (if length l \<ge> maxLogEntries then drop (length l + 1 - maxLogEntries) l @ [r] else l @ [r])"

definition probe_retries :: "health_config \<Rightarrow> int" where
  "probe_retries c = (if hc_Retries c \<le> 0 then defaultProbeRetries else hc_Retries c)"

text \<open>
  \<open>closed\<close> says whether the monitor was stopped while the probe waited for the lock. The event
  is the one that is logged when the status changes.
\<close>

definition handleProbeResult ::
  "health_config \<Rightarrow> int \<Rightarrow> bool \<Rightarrow> probe_result \<Rightarrow> health \<Rightarrow> health \<times> string option" where
  "handleProbeResult cfg startedAt closed r h =
     (if closed then (h, None)
      else
       (let retries = probe_retries cfg;
            h1 = h\<lparr>h_Log := log_result r (h_Log h)\<rparr>;
            h2 = (if pr_exit r = 0 then h1\<lparr>h_FailingStreak := 0, h_Status := ''healthy''\<rparr>
                  else
                   (let count = (if h_Status h1 = ''starting''
                                 then \<not> (pr_start r - startedAt < timeoutWithDefault (hc_StartPeriod cfg) defaultStartPeriod)
                                 else True)
                    in if count
                       then (let h3 = h1\<lparr>h_FailingStreak := h_FailingStreak h1 + 1\<rparr>
                             in if h_FailingStreak h3 \<ge> retries then h3\<lparr>h_Status := ''unhealthy''\<rparr> else h3)
                       else h1))
        in (h2, if h_Status h \<noteq> h_Status h2 then Some (''health_status: '' @ h_Status h2) else None)))"

section \<open>The monitor\<close>

text \<open>The monitor goroutine runs while its channel is open.\<close>

definition updateHealthMonitor :: "health_config option \<Rightarrow> cstate \<Rightarrow> cstate" where
  "updateHealthMonitor cfg s =
     (case cs_Health s of
        None \<Rightarrow> s
      | Some h \<Rightarrow>
          (if cs_Running s \<and> \<not> cs_Paused s \<and> getProbe cfg \<noteq> None
           then s\<lparr>cs_Health := Some (fst (OpenMonitorChannel h))\<rparr>
           else s\<lparr>cs_Health := Some (CloseMonitorChannel h)\<rparr>))"

definition stopHealthchecks :: "cstate \<Rightarrow> cstate" where
  "stopHealthchecks s = s\<lparr>cs_Health := map_option CloseMonitorChannel (cs_Health s)\<rparr>"

definition initHealthMonitor :: "health_config option \<Rightarrow> cstate \<Rightarrow> cstate" where
  "initHealthMonitor cfg s =
     (if getProbe cfg = None then s
      else
       (let s1 = stopHealthchecks s;
            h = (case cs_Health s1 of
                   Some h \<Rightarrow> h\<lparr>h_Status := ''starting'', h_FailingStreak := 0\<rparr>
                 | None \<Rightarrow> \<lparr>h_Status = ''starting'', h_FailingStreak = 0, h_Log = [], h_open = False\<rparr>)
        in updateHealthMonitor cfg (s1\<lparr>cs_Health := Some h\<rparr>)))"

section \<open>The output buffer\<close>

record limited_buffer =
  lb_buf :: string
  lb_truncated :: bool

definition lb_empty :: limited_buffer where
  "lb_empty = \<lparr>lb_buf = '''', lb_truncated = False\<rparr>"

definition lb_Write :: "string \<Rightarrow> limited_buffer \<Rightarrow> limited_buffer \<times> nat" where
  "lb_Write data b =
     (let keep = min (int maxOutputLen - int (length (lb_buf b))) (int (length data));
          b1 = (if keep > 0 then b\<lparr>lb_buf := lb_buf b @ take (nat keep) data\<rparr> else b);
          b2 = (if keep < int (length data) then b1\<lparr>lb_truncated := True\<rparr> else b1)
      in (b2, length data))"

definition lb_String :: "limited_buffer \<Rightarrow> string" where
  "lb_String b = (if lb_truncated b then lb_buf b @ ''...'' else lb_buf b)"

section \<open>Facts\<close>

lemma monitor_frame [simp]:
  "cs_Running (updateHealthMonitor cfg s) = cs_Running s" "cs_Paused (updateHealthMonitor cfg s) = cs_Paused s"
  "cs_Restarting (updateHealthMonitor cfg s) = cs_Restarting s" "cs_Pid (updateHealthMonitor cfg s) = cs_Pid s"
  "cs_wait (updateHealthMonitor cfg s) = cs_wait s" "cs_ExitCode (updateHealthMonitor cfg s) = cs_ExitCode s"
  "cs_Running (stopHealthchecks s) = cs_Running s" "cs_Paused (stopHealthchecks s) = cs_Paused s"
  "cs_Restarting (stopHealthchecks s) = cs_Restarting s" "cs_Pid (stopHealthchecks s) = cs_Pid s"
  "cs_wait (stopHealthchecks s) = cs_wait s" "cs_ExitCode (stopHealthchecks s) = cs_ExitCode s"
  "cs_Running (initHealthMonitor cfg s) = cs_Running s" "cs_Paused (initHealthMonitor cfg s) = cs_Paused s"
  "cs_Restarting (initHealthMonitor cfg s) = cs_Restarting s" "cs_Pid (initHealthMonitor cfg s) = cs_Pid s"
  "cs_wait (initHealthMonitor cfg s) = cs_wait s" "cs_ExitCode (initHealthMonitor cfg s) = cs_ExitCode s"
  by (simp_all add: updateHealthMonitor_def stopHealthchecks_def initHealthMonitor_def Let_def split: option.split)

text \<open>Whether the monitor runs.\<close>

definition monitored :: "cstate \<Rightarrow> bool" where
  "monitored s \<longleftrightarrow> (\<exists>h. cs_Health s = Some h \<and> h_open h)"

lemma monitored_update: "monitored (updateHealthMonitor cfg s) \<longleftrightarrow>
    cs_Health s \<noteq> None \<and> cs_Running s \<and> \<not> cs_Paused s \<and> getProbe cfg \<noteq> None"
  by (auto simp: monitored_def updateHealthMonitor_def OpenMonitorChannel_def CloseMonitorChannel_def split: option.split)

lemma monitored_stop: "\<not> monitored (stopHealthchecks s)"
  by (auto simp: monitored_def stopHealthchecks_def CloseMonitorChannel_def)

lemma monitored_init: "getProbe cfg \<noteq> None \<Longrightarrow> monitored (initHealthMonitor cfg s) \<longleftrightarrow> cs_Running s \<and> \<not> cs_Paused s"
  by (cases "getProbe cfg") (simp_all add: initHealthMonitor_def Let_def monitored_update stopHealthchecks_def split: option.split)

section \<open>The status after a series of probes\<close>

definition probe_run :: "health_config \<Rightarrow> int \<Rightarrow> probe_result list \<Rightarrow> health \<Rightarrow> health" where
  "probe_run cfg startedAt rs h = foldl (\<lambda>h r. fst (handleProbeResult cfg startedAt False r h)) h rs"

definition fresh_health :: health where
  "fresh_health = \<lparr>h_Status = ''starting'', h_FailingStreak = 0, h_Log = [], h_open = True\<rparr>"

definition failing :: "probe_result \<Rightarrow> bool" where
  "failing r \<longleftrightarrow> pr_exit r \<noteq> 0"

definition counted :: "health_config \<Rightarrow> int \<Rightarrow> probe_result \<Rightarrow> bool" where
  "counted cfg startedAt r \<longleftrightarrow> pr_start r \<ge> startedAt + hc_StartPeriod cfg"

text \<open>
  Failures since the last success; before any success, the failures that began after the
  start period.
\<close>

definition streak :: "health_config \<Rightarrow> int \<Rightarrow> probe_result list \<Rightarrow> int" where
  "streak cfg startedAt rs =
     (if list_all failing rs then int (length (filter (counted cfg startedAt) rs))
      else int (length (takeWhile failing (rev rs))))"

definition status_of :: "health_config \<Rightarrow> int \<Rightarrow> probe_result list \<Rightarrow> string" where
  "status_of cfg startedAt rs =
     (if streak cfg startedAt rs \<ge> probe_retries cfg then ''unhealthy''
      else if list_all failing rs then ''starting'' else ''healthy'')"

lemma probe_retries_pos: "probe_retries cfg > 0"
  by (simp add: probe_retries_def defaultProbeRetries_def)

lemma log_result_last: "log_result r (drop (length rs - maxLogEntries) rs) = drop (length (rs @ [r]) - maxLogEntries) (rs @ [r])"
proof (cases "length rs \<ge> 5")
  case True
  then have "Suc (length rs - 5) = length rs - 4" by simp
  with True show ?thesis by (simp add: log_result_def maxLogEntries_def)
qed (simp add: log_result_def maxLogEntries_def)

lemma handle_fields:
  assumes "handleProbeResult cfg st False r h = (h', ev)"
  shows "h_Log h' = log_result r (h_Log h)"
    and "h_FailingStreak h' = (if \<not> failing r then 0
       else if h_Status h = ''starting'' \<and> \<not> counted cfg st r then h_FailingStreak h else h_FailingStreak h + 1)"
    and "h_Status h' = (if \<not> failing r then ''healthy''
       else if h_Status h = ''starting'' \<and> \<not> counted cfg st r then h_Status h
       else if h_FailingStreak h + 1 \<ge> probe_retries cfg then ''unhealthy'' else h_Status h)"
    and "ev = (if h_Status h' = h_Status h then None else Some (''health_status: '' @ h_Status h'))"
  using assms
  by (auto simp: handleProbeResult_def Let_def failing_def counted_def timeoutWithDefault_def defaultStartPeriod_def
      split: if_splits)

lemma streak_snoc:
  assumes "sorted (map pr_start (rs @ [r]))"
  shows "streak cfg st (rs @ [r]) =
     (if \<not> failing r then 0
      else if list_all failing rs \<and> \<not> counted cfg st r then streak cfg st rs else streak cfg st rs + 1)"
  by (auto simp: streak_def)

text \<open>
  After any series of probes, in the order of their starts, the failing streak is the
  number of failures since the last success, failures within the start period not counted
  while there was no success; the status is unhealthy exactly when the streak has reached the
  configured retries, and otherwise healthy after a success and starting before one. The log
  holds the last five results.
\<close>

theorem health_status_of_probes:
  assumes "sorted (map pr_start rs)"
  shows "h_FailingStreak (probe_run cfg st rs fresh_health) = streak cfg st rs \<and>
     h_Status (probe_run cfg st rs fresh_health) = status_of cfg st rs \<and>
     h_Log (probe_run cfg st rs fresh_health) = drop (length rs - maxLogEntries) rs"
  using assms
proof (induction rs rule: rev_induct)
  case Nil
  then show ?case using probe_retries_pos [of cfg]
    by (simp add: probe_run_def fresh_health_def streak_def status_of_def)
next
  case (snoc r rs)
  let ?h = "probe_run cfg st rs fresh_health"
  have s: "sorted (map pr_start rs)" using snoc.prems by (simp add: sorted_append)
  note IH = snoc.IH [OF s]
  obtain h' ev where h: "handleProbeResult cfg st False r ?h = (h', ev)" by (cases "handleProbeResult cfg st False r ?h")
  note H = handle_fields [OF h]
  have run: "probe_run cfg st (rs @ [r]) fresh_health = h'" using h by (simp add: probe_run_def)
  have start: "h_Status ?h = ''starting'' \<longleftrightarrow> list_all failing rs \<and> streak cfg st rs < probe_retries cfg"
    using IH by (auto simp: status_of_def)
  text \<open>Once unhealthy without a success, the start period is over.\<close>
  have over: "counted cfg st r" if "list_all failing rs" "streak cfg st rs \<ge> probe_retries cfg"
  proof -
    have "filter (counted cfg st) rs \<noteq> []" using that probe_retries_pos [of cfg] by (auto simp: streak_def)
    then obtain q where "q \<in> set rs" "counted cfg st q" by (auto simp: filter_empty_conv)
    then show ?thesis using snoc.prems by (auto simp: sorted_append counted_def)
  qed
  have "h_FailingStreak h' = streak cfg st (rs @ [r])"
    unfolding H(2) streak_snoc [OF snoc.prems] start using IH over by auto
  moreover have "h_Status h' = status_of cfg st (rs @ [r])"
    unfolding H(3) status_of_def [of _ _ "rs @ [r]"] streak_snoc [OF snoc.prems] start
    using IH over probe_retries_pos [of cfg] by (auto simp: status_of_def)
  moreover have "h_Log h' = drop (length (rs @ [r]) - maxLogEntries) (rs @ [r])"
    using H(1) IH log_result_last by simp
  ultimately show ?case by (simp only: run)
qed

definition ex_probe :: "int \<Rightarrow> int \<Rightarrow> probe_result" where
  "ex_probe t e = \<lparr>pr_start = t, pr_end = t, pr_exit = e, pr_output = ''''\<rparr>"

theorem health_status_of_probes_witness:
  "h_Status (probe_run \<lparr>hc_Test = [''CMD''], hc_StartPeriod = 10, hc_Retries = 2\<rparr> 0
     [ex_probe 5 1, ex_probe 15 1, ex_probe 25 1] fresh_health) = ''unhealthy''"
  using health_status_of_probes [of "[ex_probe 5 1, ex_probe 15 1, ex_probe 25 1]"
      "\<lparr>hc_Test = [''CMD''], hc_StartPeriod = 10, hc_Retries = 2\<rparr>" 0]
  by (simp add: ex_probe_def status_of_def streak_def failing_def counted_def probe_retries_def)

section \<open>The buffer is a bounded prefix\<close>

definition lb_run :: "string list \<Rightarrow> limited_buffer" where
  "lb_run ws = foldl (\<lambda>b w. fst (lb_Write w b)) lb_empty ws"

text \<open>
  The output of a probe is kept up to 4096 bytes: the buffer holds the prefix of all that was
  written, it is marked as truncated exactly when bytes were dropped, and every write
  reports that it took everything.
\<close>

theorem limited_buffer_prefix:
  "lb_buf (lb_run ws) = take maxOutputLen (concat ws) \<and>
   (lb_truncated (lb_run ws) \<longleftrightarrow> length (concat ws) > maxOutputLen) \<and>
   snd (lb_Write w (lb_run ws)) = length w"
proof (induction ws arbitrary: w rule: rev_induct)
  case Nil
  then show ?case by (simp add: lb_run_def lb_empty_def lb_Write_def Let_def)
next
  case (snoc v ws)
  have run: "lb_run (ws @ [v]) = fst (lb_Write v (lb_run ws))" by (simp add: lb_run_def)
  show ?case
    using snoc.IH unfolding run
    by (auto simp: lb_Write_def Let_def min_def nat_diff_distrib)
qed

end
