(* ===== verification/RestartManager.thy ===== *)
theory RestartManager
  imports GoPrelude
begin

text \<open>
  The restart manager of restartmanager/restartmanager.go, which decides whether a container
  that exited is started again, and after how long.

  Durations are nanoseconds. The goroutine that waits for the timeout is the operation
  \<open>rm_timer_fires\<close>; which of the timeout and the cancellation it sees is the caller's choice.
\<close>

section \<open>State and operations\<close>

record restart_policy =
  rp_Name :: string
  rp_MaximumRetryCount :: int

definition IsNone :: "restart_policy \<Rightarrow> bool" where
  "IsNone p \<longleftrightarrow> rp_Name p = ''no'' \<or> rp_Name p = ''''"

definition IsAlways :: "restart_policy \<Rightarrow> bool" where
  "IsAlways p \<longleftrightarrow> rp_Name p = ''always''"

definition IsOnFailure :: "restart_policy \<Rightarrow> bool" where
  "IsOnFailure p \<longleftrightarrow> rp_Name p = ''on-failure''"

definition IsUnlessStopped :: "restart_policy \<Rightarrow> bool" where
  "IsUnlessStopped p \<longleftrightarrow> rp_Name p = ''unless-stopped''"

record restart_mgr =
  rm_policy :: restart_policy
  rm_count :: int
  rm_timeout :: int
  rm_active :: bool
  rm_canceled :: bool

datatype rm_error = ErrRestartCanceled | ErrActive

definition backoffMultiplier :: int where "backoffMultiplier = 2"

definition defaultTimeout :: int where "defaultTimeout = 100 * 1000000"

definition maxRestartTimeout :: int where "maxRestartTimeout = 60 * 1000000000"

definition rm_New :: "restart_policy \<Rightarrow> int \<Rightarrow> restart_mgr" where
  "rm_New p n = \<lparr>rm_policy = p, rm_count = n, rm_timeout = 0, rm_active = False, rm_canceled = False\<rparr>"

definition SetPolicy :: "restart_policy \<Rightarrow> restart_mgr \<Rightarrow> restart_mgr" where
  "SetPolicy p rm = rm\<lparr>rm_policy := p\<rparr>"

definition next_timeout :: "int \<Rightarrow> int \<Rightarrow> int" where
  "next_timeout dur t0 =
     (let t = (if dur \<ge> 10 * 1000000000 then 0 else t0);
          t1 = (if t = 0 then defaultTimeout else if t < maxRestartTimeout then t * backoffMultiplier else t)
      in if t1 > maxRestartTimeout then maxRestartTimeout else t1)"

text \<open>When it restarts, the goroutine of the timeout is started and the manager is active.\<close>

definition ShouldRestart :: "int \<Rightarrow> bool \<Rightarrow> int \<Rightarrow> restart_mgr \<Rightarrow> restart_mgr \<times> (rm_error + bool)" where
  "ShouldRestart exitCode manual dur rm =
     (if IsNone (rm_policy rm) then (rm, Inr False)
      else if rm_canceled rm then (rm, Inl ErrRestartCanceled)
      else if rm_active rm then (rm, Inl ErrActive)
      else
       (let rm1 = rm\<lparr>rm_timeout := next_timeout dur (rm_timeout rm)\<rparr>;
            restart =
              (if IsAlways (rm_policy rm) then True
               else if IsUnlessStopped (rm_policy rm) \<and> \<not> manual then True
               else if IsOnFailure (rm_policy rm) then
                 (let m = rp_MaximumRetryCount (rm_policy rm)
                  in if m = 0 \<or> rm_count rm < m then exitCode \<noteq> 0 else False)
               else False)
        in if \<not> restart then (rm1\<lparr>rm_active := False\<rparr>, Inr False)
           else (rm1\<lparr>rm_count := rm_count rm1 + 1, rm_active := True\<rparr>, Inr True)))"

definition rm_timer_fires :: "restart_mgr \<Rightarrow> restart_mgr" where
  "rm_timer_fires rm = rm\<lparr>rm_active := False\<rparr>"

definition rm_Cancel :: "restart_mgr \<Rightarrow> restart_mgr" where
  "rm_Cancel rm = rm\<lparr>rm_canceled := True\<rparr>"

section \<open>The decision\<close>

definition policy_restarts :: "restart_policy \<Rightarrow> int \<Rightarrow> bool \<Rightarrow> int \<Rightarrow> bool" where
  "policy_restarts p exitCode manual count =
     (if rp_Name p = ''always'' then True
      else if rp_Name p = ''unless-stopped'' then \<not> manual
      else if rp_Name p = ''on-failure'' then exitCode \<noteq> 0 \<and> (rp_MaximumRetryCount p = 0 \<or> count < rp_MaximumRetryCount p)
      else False)"

lemmas policy_defs = IsNone_def IsAlways_def IsOnFailure_def IsUnlessStopped_def

lemma ShouldRestart_result:
  "snd (ShouldRestart e m d rm) =
     (if IsNone (rm_policy rm) then Inr False
      else if rm_canceled rm then Inl ErrRestartCanceled
      else if rm_active rm then Inl ErrActive
      else Inr (policy_restarts (rm_policy rm) e m (rm_count rm)))"
  by (auto simp: ShouldRestart_def Let_def policy_restarts_def policy_defs)

lemma ShouldRestart_frame [simp]:
  "rm_policy (fst (ShouldRestart e m d rm)) = rm_policy rm"
  "rm_canceled (fst (ShouldRestart e m d rm)) = rm_canceled rm"
  by (simp_all add: ShouldRestart_def Let_def)

lemma ShouldRestart_true:
  assumes "snd (ShouldRestart e m d rm) = Inr True"
  shows "rm_count (fst (ShouldRestart e m d rm)) = rm_count rm + 1" "rm_active (fst (ShouldRestart e m d rm))"
    "rm_timeout (fst (ShouldRestart e m d rm)) = next_timeout d (rm_timeout rm)"
    "\<not> rm_canceled rm" "\<not> rm_active rm" "policy_restarts (rm_policy rm) e m (rm_count rm)"
  using assms by (auto simp: ShouldRestart_def Let_def policy_restarts_def policy_defs split: if_splits)

lemma ShouldRestart_not_true:
  assumes "snd (ShouldRestart e m d rm) \<noteq> Inr True"
  shows "rm_count (fst (ShouldRestart e m d rm)) = rm_count rm"
    "rm_active (fst (ShouldRestart e m d rm)) \<Longrightarrow> rm_active rm"
  using assms by (auto simp: ShouldRestart_def Let_def split: if_splits)

section \<open>Runs of a container\<close>

text \<open>
  The exits of a container one after the other, each with its exit code, whether a user
  stopped it, and how long it ran; after a positive decision the timer fires. The result is
  the list of decisions.
\<close>

fun rm_exits :: "(int \<times> bool \<times> int) list \<Rightarrow> restart_mgr \<Rightarrow> restart_mgr \<times> bool list" where
  "rm_exits [] rm = (rm, [])"
| "rm_exits ((e, m, d) # xs) rm =
     (case ShouldRestart e m d rm of (rm1, res) \<Rightarrow>
        (case rm_exits xs (rm_timer_fires rm1) of (rm2, rs) \<Rightarrow> (rm2, (res = Inr True) # rs)))"

lemma rm_exits_count:
  "rm_count (fst (rm_exits xs rm)) = rm_count rm + int (length (filter id (snd (rm_exits xs rm)))) \<and>
   rm_policy (fst (rm_exits xs rm)) = rm_policy rm"
proof (induction xs arbitrary: rm)
  case (Cons x xs)
  obtain e m d where x: "x = (e, m, d)" by (cases x)
  let ?r = "ShouldRestart e m d rm"
  show ?case
    using Cons.IH [of "rm_timer_fires (fst ?r)"] ShouldRestart_true(1) [of e m d rm] ShouldRestart_not_true(1) [of e m d rm]
    by (cases "snd ?r = Inr True") (auto simp: x split_beta rm_timer_fires_def)
qed simp

lemma rm_exits_bound:
  assumes "IsOnFailure (rm_policy rm)" "rp_MaximumRetryCount (rm_policy rm) > 0"
    and "rm_count rm \<le> rp_MaximumRetryCount (rm_policy rm)"
  shows "rm_count (fst (rm_exits xs rm)) \<le> rp_MaximumRetryCount (rm_policy rm)"
  using assms
proof (induction xs arbitrary: rm)
  case (Cons x xs)
  obtain e m d where x: "x = (e, m, d)" by (cases x)
  let ?r = "ShouldRestart e m d rm"
  have "rm_count (fst ?r) \<le> rp_MaximumRetryCount (rm_policy rm)"
    using Cons.prems ShouldRestart_true(1,6) [of e m d rm] ShouldRestart_not_true(1) [of e m d rm]
    by (cases "snd ?r = Inr True") (auto simp: policy_restarts_def policy_defs)
  then show ?case
    using Cons.IH [of "rm_timer_fires (fst ?r)"] Cons.prems by (simp add: x split_beta rm_timer_fires_def)
qed simp

text \<open>
  The restart decision. A manager that is neither canceled nor waiting decides by the
  policy: \<open>always\<close>, \<open>unless-stopped\<close> unless a user stopped the container, \<open>on-failure\<close> for a
  nonzero exit code while restarts remain, and never otherwise. A canceled manager never
  restarts, and the policy \<open>on-failure:n\<close> restarts at most \<open>n\<close> times over all the exits of a
  container.
\<close>

theorem restart_decision:
  "(\<not> rm_canceled rm \<longrightarrow> \<not> rm_active rm \<longrightarrow>
      snd (ShouldRestart e m d rm) = Inr (policy_restarts (rm_policy rm) e m (rm_count rm))) \<and>
   (rm_canceled rm \<longrightarrow> snd (ShouldRestart e m d rm) \<noteq> Inr True) \<and>
   (IsOnFailure p \<longrightarrow> rp_MaximumRetryCount p > 0 \<longrightarrow>
      int (length (filter id (snd (rm_exits xs (rm_New p 0))))) \<le> rp_MaximumRetryCount p)"
proof (intro conjI impI)
  show "snd (ShouldRestart e m d rm) = Inr (policy_restarts (rm_policy rm) e m (rm_count rm))"
    if "\<not> rm_canceled rm" "\<not> rm_active rm"
    using that by (auto simp: ShouldRestart_result policy_restarts_def policy_defs)
  show "snd (ShouldRestart e m d rm) \<noteq> Inr True" if "rm_canceled rm"
    using that by (simp add: ShouldRestart_result)
  show "int (length (filter id (snd (rm_exits xs (rm_New p 0))))) \<le> rp_MaximumRetryCount p"
    if "IsOnFailure p" "rp_MaximumRetryCount p > 0"
    using rm_exits_bound [of "rm_New p 0" xs] rm_exits_count [of xs "rm_New p 0"] that by (simp add: rm_New_def)
qed

theorem restart_decision_witness:
  "snd (ShouldRestart 1 False 0 (rm_New \<lparr>rp_Name = ''on-failure'', rp_MaximumRetryCount = 2\<rparr> 0)) = Inr True \<and>
   length (filter id (snd (rm_exits [(1, False, 0), (1, False, 0), (1, False, 0)]
     (rm_New \<lparr>rp_Name = ''on-failure'', rp_MaximumRetryCount = 2\<rparr> 0)))) \<le> 2"
  using restart_decision [of "rm_New \<lparr>rp_Name = ''on-failure'', rp_MaximumRetryCount = 2\<rparr> 0" 1 False 0
      "\<lparr>rp_Name = ''on-failure'', rp_MaximumRetryCount = 2\<rparr>" "[(1, False, 0), (1, False, 0), (1, False, 0)]"]
  by (simp add: IsOnFailure_def rm_New_def policy_restarts_def)

section \<open>The delay\<close>

definition backoff :: "nat \<Rightarrow> int" where
  "backoff n = min maxRestartTimeout (defaultTimeout * 2 ^ n)"

lemma backoff_pos: "0 < backoff n" "backoff n \<le> maxRestartTimeout" "defaultTimeout \<le> backoff n"
  by (simp_all add: backoff_def defaultTimeout_def maxRestartTimeout_def)

lemma next_timeout_backoff: "d < 10 * 1000000000 \<Longrightarrow> next_timeout d (backoff n) = backoff (Suc n)"
  by (simp add: next_timeout_def backoff_def Let_def defaultTimeout_def maxRestartTimeout_def backoffMultiplier_def min_def)

lemma next_timeout_first: "next_timeout d 0 = backoff 0" "10 * 1000000000 \<le> d \<Longrightarrow> next_timeout d t = backoff 0"
  by (simp_all add: next_timeout_def backoff_def Let_def defaultTimeout_def maxRestartTimeout_def)

lemma ShouldRestart_timeout:
  "\<not> IsNone (rm_policy rm) \<Longrightarrow> \<not> rm_canceled rm \<Longrightarrow> \<not> rm_active rm \<Longrightarrow>
   rm_timeout (fst (ShouldRestart e m d rm)) = next_timeout d (rm_timeout rm)"
  by (simp add: ShouldRestart_def Let_def)

text \<open>
  C26. The delay starts at \<open>100ms\<close> with the first exit, and again with each exit after ten
  seconds or more; after \<open>n\<close> further exits in a row of runs shorter than that it is
  \<open>100ms * 2 ^ n\<close>, capped at a minute.
\<close>

theorem restart_backoff:
  assumes "\<not> IsNone (rm_policy rm)" "\<not> rm_canceled rm" "\<not> rm_active rm"
    and "rm_timeout rm = 0 \<or> 10 * 1000000000 \<le> d" "\<forall>x \<in> set xs. snd (snd x) < 10 * 1000000000"
  shows "rm_timeout (fst (rm_exits ((e, m, d) # xs) rm)) = backoff (length xs)"
proof -
  have run: "rm_timeout (fst (rm_exits xs rm)) = backoff (n + length xs)"
    if "rm_timeout rm = backoff n" "\<not> IsNone (rm_policy rm)" "\<not> rm_canceled rm" "\<not> rm_active rm"
      "\<forall>x \<in> set xs. snd (snd x) < 10 * 1000000000" for rm n and xs :: "(int \<times> bool \<times> int) list"
    using that
  proof (induction xs arbitrary: rm n)
    case (Cons x xs)
    obtain e m d where x: "x = (e, m, d)" by (cases x)
    show ?case
      using Cons.prems Cons.IH [of "rm_timer_fires (fst (ShouldRestart e m d rm))" "Suc n"]
      by (simp add: x split_beta rm_timer_fires_def ShouldRestart_timeout next_timeout_backoff)
  qed simp
  let ?rm = "rm_timer_fires (fst (ShouldRestart e m d rm))"
  have "rm_timeout ?rm = backoff 0" using assms(1-4)
    by (auto simp: rm_timer_fires_def ShouldRestart_timeout next_timeout_first)
  then show ?thesis
    using run [of ?rm 0 xs] assms by (simp add: split_beta rm_timer_fires_def)
qed

theorem restart_backoff_witness:
  "rm_timeout (fst (rm_exits [(1, False, 5), (1, False, 5), (1, False, 5)]
     (rm_New \<lparr>rp_Name = ''always'', rp_MaximumRetryCount = 0\<rparr> 0))) = 400 * 1000000"
  using restart_backoff [of "rm_New \<lparr>rp_Name = ''always'', rp_MaximumRetryCount = 0\<rparr> 0" 5
      "[(1, False, 5), (1, False, 5)]" 1 False]
  by (simp add: IsNone_def rm_New_def backoff_def defaultTimeout_def maxRestartTimeout_def del: rm_exits.simps)

end
