(* ===== verification/ContainerLifecycle.thy ===== *)
theory ContainerLifecycle
  imports HealthCheck RestartManager
begin

text \<open>
  The life of a container in the daemon: starting, signalling, pausing and unpausing it
  (daemon/start.go, kill.go, pause.go, unpause.go), what the daemon does when containerd
  reports a change (daemon/monitor.go), and the restart manager it keeps
  (container/container.go).

  The calls of containerd, of the file system and of the network come as their results.
  \<open>disk\<close> is the error of writing the container's configuration. What is not part of the
  life of the container (streams, network, mounts, the log driver) is left out. The goroutine
  that waits for a restart is an entry of \<open>ct_waits\<close>, with the number of the restart manager it
  waits on, whether its timer has fired, and whether the start it made then has failed.
\<close>

section \<open>Data\<close>

record restart_wait =
  rw_status :: exit_status
  rw_gen :: nat
  rw_fired :: bool
  rw_failed :: bool

record ctr =
  ct_state :: cstate
  ct_policy :: restart_policy
  ct_autoRemove :: bool
  ct_health :: "health_config option"
  ct_path :: string
  ct_stopSignal :: string
  ct_rm :: "restart_mgr option"
  ct_gen :: nat
  ct_restartCount :: int
  ct_manual :: bool
  ct_before :: bool
  ct_events :: "string list"
  ct_removals :: nat
  ct_waits :: "restart_wait list"

datatype ctr_error =
    ContainerNotRunning
  | AlreadyPaused
  | ContainerIsRestarting
  | NotPaused
  | CannotStartPaused
  | AlreadyStarted
  | PausedCannotKill
  | InvalidSignal
  | MarkedForRemoval
  | ContainerdError string
  | SetupError string
  | StartError string
  | DiskError string
  | ESRCH
  | NoSuchProcess
  | SyscallError string
  | AlreadyStopped

definition on_state :: "(cstate \<Rightarrow> cstate) \<Rightarrow> ctr \<Rightarrow> ctr" where
  "on_state f c = c\<lparr>ct_state := f (ct_state c)\<rparr>"

definition LogContainerEvent :: "string \<Rightarrow> ctr \<Rightarrow> ctr" where
  "LogContainerEvent e c = c\<lparr>ct_events := ct_events c @ [e]\<rparr>"

text \<open>A container with the flag is removed by force, with its volumes.\<close>

definition autoRemove :: "ctr \<Rightarrow> ctr" where
  "autoRemove c = (if ct_autoRemove c then c\<lparr>ct_removals := Suc (ct_removals c)\<rparr> else c)"

section \<open>The restart manager of a container\<close>

definition get_RestartManager :: "ctr \<Rightarrow> ctr \<times> restart_mgr" where
  "get_RestartManager c =
     (case ct_rm c of
        Some rm \<Rightarrow> (c, rm)
      | None \<Rightarrow>
          (let rm = rm_New (ct_policy c) (ct_restartCount c)
           in (c\<lparr>ct_rm := Some rm, ct_gen := Suc (ct_gen c)\<rparr>, rm)))"

text \<open>The manager that is dropped is canceled; the goroutines that wait on it see that.\<close>

definition ResetRestartManager :: "bool \<Rightarrow> ctr \<Rightarrow> ctr" where
  "ResetRestartManager resetCount c =
     (let c1 = (if resetCount then c\<lparr>ct_restartCount := 0\<rparr> else c)
      in c1\<lparr>ct_rm := None\<rparr>)"

definition ExitOnNext :: "ctr \<Rightarrow> ctr" where
  "ExitOnNext c = (case get_RestartManager c of (c1, rm) \<Rightarrow> c1\<lparr>ct_rm := Some (rm_Cancel rm)\<rparr>)"

definition UpdateMonitor :: "restart_policy \<Rightarrow> ctr \<Rightarrow> ctr" where
  "UpdateMonitor p c = (case get_RestartManager c of (c1, rm) \<Rightarrow> c1\<lparr>ct_rm := Some (SetPolicy p rm)\<rparr>)"

section \<open>Events of containerd\<close>

datatype libcontainerd_event =
    StateOOM
  | StateExit int bool
  | StateStart int
  | StateRestore int
  | StatePause
  | StateResume

definition state_exit :: "int \<Rightarrow> bool \<Rightarrow> int \<Rightarrow> string option \<Rightarrow> ctr \<Rightarrow> ctr \<times> ctr_error option" where
  "state_exit code oom now disk c =
     (let (c1, rm) = get_RestartManager c;
          st = \<lparr>es_ExitCode = code, es_OOMKilled = oom\<rparr>;
          (rm1, res) = ShouldRestart code (ct_manual c1) (now - cs_StartedAt (ct_state c1)) rm;
          c2 = c1\<lparr>ct_rm := Some rm1\<rparr>;
          restart = (res = Inr True);
          c3 = (if restart
                then on_state (SetRestarting st now) (c2\<lparr>ct_restartCount := ct_restartCount c2 + 1\<rparr>)
                else on_state (SetStopped st now) c2);
          c4 = LogContainerEvent ''die'' (on_state stopHealthchecks c3);
          c5 = (if restart then c4\<lparr>ct_waits := ct_waits c4 @ [\<lparr>rw_status = st, rw_gen = ct_gen c4, rw_fired = False, rw_failed = False\<rparr>]\<rparr> else c4)
      in (if restart then c5 else autoRemove c5, map_option DiskError disk))"

definition state_start :: "int \<Rightarrow> bool \<Rightarrow> int \<Rightarrow> string option \<Rightarrow> ctr \<Rightarrow> ctr \<times> ctr_error option" where
  "state_start pid initial now disk c =
     (let c1 = (on_state (SetRunning pid initial now) c)\<lparr>ct_manual := False, ct_before := True\<rparr>
      in (case disk of
            Some msg \<Rightarrow> (c1, Some (DiskError msg))
          | None \<Rightarrow> (LogContainerEvent ''start'' (on_state (initHealthMonitor (ct_health c1)) c1), None)))"

definition state_paused :: "bool \<Rightarrow> string option \<Rightarrow> ctr \<Rightarrow> ctr \<times> ctr_error option" where
  "state_paused p disk c =
     (let c1 = on_state (\<lambda>s. s\<lparr>cs_Paused := p\<rparr>) c
      in (case disk of
            Some msg \<Rightarrow> (c1, Some (DiskError msg))
          | None \<Rightarrow> (LogContainerEvent (if p then ''pause'' else ''unpause'')
                 (on_state (updateHealthMonitor (ct_health c1)) c1), None)))"

definition StateChanged :: "libcontainerd_event \<Rightarrow> int \<Rightarrow> string option \<Rightarrow> ctr \<Rightarrow> ctr \<times> ctr_error option" where
  "StateChanged e now disk c =
     (case e of
        StateOOM \<Rightarrow> (LogContainerEvent ''oom'' (on_state (updateHealthMonitor (ct_health c)) c), None)
      | StateExit code oom \<Rightarrow> state_exit code oom now disk c
      | StateStart pid \<Rightarrow> state_start pid True now disk c
      | StateRestore pid \<Rightarrow> state_start pid False now disk c
      | StatePause \<Rightarrow> state_paused True disk c
      | StateResume \<Rightarrow> state_paused False disk c)"

section \<open>Starting\<close>

fun contains_str :: "string \<Rightarrow> string \<Rightarrow> bool" where
  "contains_str [] sub = (sub = [])"
| "contains_str (x # xs) sub = (take (length sub) (x # xs) = sub \<or> contains_str xs sub)"

text \<open>\<^verbatim>\<open>contains\<close> of \<^verbatim>\<open>containerStart\<close> lowers the first string only.\<close>

definition lower_contains :: "string \<Rightarrow> string \<Rightarrow> bool" where
  "lower_contains s1 s2 = contains_str (to_lower s1) s2"

definition start_exit_code :: "string \<Rightarrow> string \<Rightarrow> cstate \<Rightarrow> cstate" where
  "start_exit_code path errDesc s =
     (let s1 = (if lower_contains errDesc path \<and>
                   (lower_contains errDesc ''executable file not found'' \<or>
                    lower_contains errDesc ''no such file or directory'' \<or>
                    lower_contains errDesc ''system cannot find the file specified'')
                then SetExitCode 127 s else s);
          s2 = (if lower_contains errDesc ''permission denied'' then SetExitCode 126 s1 else s1)
      in (if lower_contains errDesc ''not a directory'' then SetExitCode 127 s2 else s2))"

definition start_message :: "string \<Rightarrow> string" where
  "start_message errDesc =
     (if lower_contains errDesc ''not a directory''
      then errDesc @ '': Are you trying to mount a directory onto a file (or vice-versa)? Check if the specified host path exists and is the expected type''
      else errDesc)"

text \<open>The deferred handler of an error.\<close>

definition start_failed :: "string \<Rightarrow> ctr \<Rightarrow> ctr" where
  "start_failed msg c =
     (let c1 = on_state (SetError msg) c;
          c2 = (if cs_ExitCode (ct_state c1) = 0 then on_state (SetExitCode 128) c1 else c1)
      in autoRemove c2)"

text \<open>
  What libcontainerd's \<^verbatim>\<open>Create\<close> does: it fails before the process exists; it cannot read back
  the specification it wrote, and then returns no error; or the process is started, and the
  daemon is told so before \<^verbatim>\<open>Create\<close> returns, whose result is then the error of that call. The
  specification and the process are the service's; the container's state is touched only by
  the event.
\<close>

datatype create_result =
    Create_failed string
  | Create_no_spec
  | Create_started int int "string option"

fun libcontainerd_create :: "create_result \<Rightarrow> ctr \<Rightarrow> ctr \<times> string option" where
  "libcontainerd_create (Create_failed msg) c = (c, Some msg)"
| "libcontainerd_create Create_no_spec c = (c, None)"
| "libcontainerd_create (Create_started pid now disk) c =
     (case StateChanged (StateStart pid) now disk c of
        (c1, Some (DiskError msg)) \<Rightarrow> (c1, Some msg)
      | (c1, _) \<Rightarrow> (c1, None))"

text \<open>
  \<open>setup\<close> is the error of the mounts, the network, the specification or the create options;
  the error of saving the AppArmor profile is not looked at by the code.
\<close>

definition containerStart :: "bool \<Rightarrow> string option \<Rightarrow> create_result \<Rightarrow> ctr \<Rightarrow> ctr \<times> ctr_error option" where
  "containerStart reset setup create c =
     (if reset \<and> cs_Running (ct_state c) then (c, None)
      else if cs_RemovalInProgress (ct_state c) \<or> cs_Dead (ct_state c) then (c, Some MarkedForRemoval)
      else (case setup of
        Some msg \<Rightarrow> (start_failed msg c, Some (SetupError msg))
      | None \<Rightarrow>
          (let c1 = (if reset then ResetRestartManager True c else c) in
           (case libcontainerd_create create c1 of
              (c2, None) \<Rightarrow> (c2, None)
            | (c2, Some errDesc) \<Rightarrow>
                (start_failed (start_message errDesc) (on_state (start_exit_code (ct_path c2) errDesc) c2),
                 Some (StartError (start_message errDesc)))))))"

definition ContainerStart :: "string option \<Rightarrow> create_result \<Rightarrow> ctr \<Rightarrow> ctr \<times> ctr_error option" where
  "ContainerStart setup create c =
     (if cs_Paused (ct_state c) then (c, Some CannotStartPaused)
      else if cs_Running (ct_state c) then (c, Some AlreadyStarted)
      else containerStart True setup create c)"

section \<open>Signals\<close>

definition to_upper :: "string \<Rightarrow> string" where
  "to_upper s = map (\<lambda>c. let n = (of_char c :: nat) in if 97 \<le> n \<and> n \<le> 122 then char_of (n - 32) else c) s"

definition trim_prefix :: "string \<Rightarrow> string \<Rightarrow> string" where
  "trim_prefix p s = (if take (length p) s = p then drop (length p) s else s)"

text \<open>\<open>sigs\<close> is the platform's \<^verbatim>\<open>SignalMap\<close>.\<close>

definition ParseSignal :: "(string \<Rightarrow> int option) \<Rightarrow> string \<Rightarrow> int option" where
  "ParseSignal sigs raw =
     (case parse_int64 raw of
        Some s \<Rightarrow> if s = 0 then None else Some s
      | None \<Rightarrow> sigs (trim_prefix ''SIG'' (to_upper raw)))"

definition StopSignal :: "(string \<Rightarrow> int option) \<Rightarrow> ctr \<Rightarrow> int" where
  "StopSignal sigs c =
     (let s = (if ct_stopSignal c \<noteq> '''' then (case ParseSignal sigs (ct_stopSignal c) of Some s \<Rightarrow> s | None \<Rightarrow> -1) else 0)
      in if s = 0 then (case ParseSignal sigs ''SIGTERM'' of Some s \<Rightarrow> s | None \<Rightarrow> -1) else s)"

definition killWithSignal ::
  "(string \<Rightarrow> int option) \<Rightarrow> bool \<Rightarrow> int \<Rightarrow> string option \<Rightarrow> ctr \<Rightarrow> ctr \<times> ctr_error option" where
  "killWithSignal sigs shuttingDown sig sent c =
     (if cs_Paused (ct_state c) then (c, Some PausedCannotKill)
      else if \<not> cs_Running (ct_state c) then (c, Some ContainerNotRunning)
      else
       (case (if ct_stopSignal c \<noteq> ''''
              then (case ParseSignal sigs (ct_stopSignal c) of
                      None \<Rightarrow> None
                    | Some stop \<Rightarrow> Some (if stop = sig then ExitOnNext c else c))
              else Some (ExitOnNext c)) of
          None \<Rightarrow> (c, Some InvalidSignal)
        | Some c1 \<Rightarrow>
            (let c2 = (if \<not> shuttingDown then c1\<lparr>ct_manual := True\<rparr> else c1) in
             if cs_Restarting (ct_state c2) then (c2, None)
             else (case sent of
                 None \<Rightarrow> (LogContainerEvent ''kill'' c2, None)
               | Some msg \<Rightarrow>
                   if contains_str msg ''container not found'' \<or> contains_str msg ''no such process''
                   then (LogContainerEvent ''kill'' c2, None)
                   else (c2, Some (ContainerdError msg))))))"

section \<open>Pausing\<close>

definition containerPause :: "string option \<Rightarrow> ctr \<Rightarrow> ctr_error option" where
  "containerPause res c =
     (if \<not> cs_Running (ct_state c) then Some ContainerNotRunning
      else if cs_Paused (ct_state c) then Some AlreadyPaused
      else if cs_Restarting (ct_state c) then Some ContainerIsRestarting
      else (case res of Some msg \<Rightarrow> Some (ContainerdError msg) | None \<Rightarrow> None))"

definition containerUnpause :: "string option \<Rightarrow> ctr \<Rightarrow> ctr_error option" where
  "containerUnpause res c =
     (if \<not> cs_Paused (ct_state c) then Some NotPaused
      else (case res of Some msg \<Rightarrow> Some (ContainerdError msg) | None \<Rightarrow> None))"

section \<open>The goroutine of a restart\<close>

text \<open>
  When the timer fires, the manager that is waited on is no longer active; the container is
  then started. After an error of the start, or a cancellation, the container is marked as stopped, which
  takes no lock: other operations run between the start and the mark. Entry \<open>i\<close> of the waits is the
  goroutine.
\<close>

definition drop_wait :: "nat \<Rightarrow> ctr \<Rightarrow> ctr" where
  "drop_wait i c = c\<lparr>ct_waits := take i (ct_waits c) @ drop (Suc i) (ct_waits c)\<rparr>"

definition wait_canceled :: "nat \<Rightarrow> ctr \<Rightarrow> bool" where
  "wait_canceled i c \<longleftrightarrow>
     (case ct_rm c of
        None \<Rightarrow> True
      | Some rm \<Rightarrow> rw_gen (ct_waits c ! i) \<noteq> ct_gen c \<or> rm_canceled rm)"

definition timer_fired :: "nat \<Rightarrow> ctr \<Rightarrow> ctr" where
  "timer_fired i c =
     (let w = ct_waits c ! i;
          c1 = c\<lparr>ct_waits := (ct_waits c)[i := w\<lparr>rw_fired := True\<rparr>]\<rparr>
      in (case ct_rm c1 of
            None \<Rightarrow> c1
          | Some rm \<Rightarrow> if rw_gen w = ct_gen c1 then c1\<lparr>ct_rm := Some (rm_timer_fires rm)\<rparr> else c1))"

definition restart_stopped :: "exit_status \<Rightarrow> int \<Rightarrow> ctr \<Rightarrow> ctr" where
  "restart_stopped st now c = autoRemove (on_state (SetStopped st now) c)"

definition restart_fires :: "nat \<Rightarrow> string option \<Rightarrow> create_result \<Rightarrow> ctr \<Rightarrow> ctr \<times> ctr_error option" where
  "restart_fires i setup create c =
     (case containerStart False setup create c of
        (c1, None) \<Rightarrow> (drop_wait i c1, None)
      | (c1, Some e) \<Rightarrow> (c1\<lparr>ct_waits := (ct_waits c1)[i := (ct_waits c1 ! i)\<lparr>rw_failed := True\<rparr>]\<rparr>, Some e))"

definition restart_stops :: "nat \<Rightarrow> int \<Rightarrow> ctr \<Rightarrow> ctr" where
  "restart_stops i now c = restart_stopped (rw_status (ct_waits c ! i)) now (drop_wait i c)"

end
