(* ===== verification/ContainerStop.thy ===== *)
theory ContainerStop
  imports ContainerLifecycle
begin

text \<open>
  Stopping, killing, restarting and updating a container (daemon/stop.go, kill.go, restart.go,
  update.go, and \<^verbatim>\<open>UpdateContainer\<close> of container/container_unix.go).

  These operations wait without the lock, so other operations change the container meanwhile:
  the environment says, for every place of the code that waits, what the container is after
  the wait and whether the wait ended before its timeout.
\<close>

section \<open>The environment\<close>

datatype kill_result = Killed | Kill_ESRCH | Kill_error string

record stop_env =
  sv_wait :: "nat \<Rightarrow> int \<Rightarrow> ctr \<Rightarrow> ctr \<times> bool"
  sv_sent :: "int \<Rightarrow> string option"
  sv_kill :: "int \<Rightarrow> kill_result"
  sv_shutdown :: bool
  sv_signals :: "string \<Rightarrow> int option"

section \<open>Killing\<close>

text \<open>
  The error of \<open>killWithSignal\<close> is compared with the error number itself.
\<close>

definition killPossiblyDeadProcess :: "stop_env \<Rightarrow> int \<Rightarrow> ctr \<Rightarrow> ctr \<times> ctr_error option" where
  "killPossiblyDeadProcess env sig c =
     (case killWithSignal (sv_signals env) (sv_shutdown env) sig (sv_sent env sig) c of
        (c1, e) \<Rightarrow> (c1, if e = Some ESRCH then Some NoSuchProcess else e))"

definition killProcessDirectly :: "stop_env \<Rightarrow> nat \<Rightarrow> ctr \<Rightarrow> ctr \<times> ctr_error option" where
  "killProcessDirectly env p c =
     (case sv_wait env p 10 c of (c1, stopped) \<Rightarrow>
        if stopped then (c1, None)
        else if cs_Pid (ct_state c1) \<noteq> 0 then
          (case sv_kill env (cs_Pid (ct_state c1)) of
             Killed \<Rightarrow> (c1, None)
           | Kill_ESRCH \<Rightarrow> (c1, Some NoSuchProcess)
           | Kill_error msg \<Rightarrow> (c1, Some (SyscallError msg)))
        else (c1, None))"

text \<open>The wait at the end has no timeout.\<close>

definition Kill_wait :: "stop_env \<Rightarrow> nat \<Rightarrow> ctr \<Rightarrow> ctr \<times> ctr_error option" where
  "Kill_wait env p c =
     (case killProcessDirectly env (p + 1) c of
        (c1, Some e) \<Rightarrow> (c1, if e = NoSuchProcess then None else Some e)
      | (c1, None) \<Rightarrow> (fst (sv_wait env (p + 2) (-1) c1), None))"

definition Kill :: "stop_env \<Rightarrow> nat \<Rightarrow> ctr \<Rightarrow> ctr \<times> ctr_error option" where
  "Kill env p c =
     (if \<not> cs_Running (ct_state c) then (c, Some ContainerNotRunning)
      else
       (case killPossiblyDeadProcess env 9 c of
          (c1, None) \<Rightarrow> Kill_wait env p c1
        | (c1, Some e) \<Rightarrow>
            if e = NoSuchProcess then (c1, None)
            else (case sv_wait env p 2 c1 of (c2, stopped) \<Rightarrow>
                    if \<not> stopped then (c2, Some e) else Kill_wait env p c2)))"

text \<open>\<open>valid\<close> is \<^verbatim>\<open>ValidSignalForPlatform\<close>.\<close>

definition ContainerKill :: "stop_env \<Rightarrow> (int \<Rightarrow> bool) \<Rightarrow> int \<Rightarrow> ctr \<Rightarrow> ctr \<times> ctr_error option" where
  "ContainerKill env valid sig c =
     (if sig \<noteq> 0 \<and> \<not> valid sig then (c, Some InvalidSignal)
      else if sig = 0 \<or> sig = 9 then Kill env 0 c
      else killWithSignal (sv_signals env) (sv_shutdown env) sig (sv_sent env sig) c)"

section \<open>Stopping\<close>

definition stop_finish :: "stop_env \<Rightarrow> int \<Rightarrow> ctr \<Rightarrow> ctr \<times> ctr_error option" where
  "stop_finish env seconds c =
     (case sv_wait env 1 seconds c of (c1, stopped) \<Rightarrow>
        (let c2 = (if stopped then c1
                   else (case Kill env 2 c1 of
                           (c3, None) \<Rightarrow> c3
                         | (c3, Some e) \<Rightarrow> fst (sv_wait env 5 (-1) c3)))
         in (LogContainerEvent ''stop'' c2, None)))"

definition containerStop :: "stop_env \<Rightarrow> int \<Rightarrow> ctr \<Rightarrow> ctr \<times> ctr_error option" where
  "containerStop env seconds c =
     (if \<not> cs_Running (ct_state c) then (c, None)
      else
       (let c0 = on_state stopHealthchecks c in
        (case killPossiblyDeadProcess env (StopSignal (sv_signals env) c0) c0 of
           (c1, None) \<Rightarrow> stop_finish env seconds c1
         | (c1, Some e) \<Rightarrow>
             (case sv_wait env 0 2 c1 of (c2, stopped) \<Rightarrow>
                if stopped then stop_finish env seconds c2
                else (case killPossiblyDeadProcess env 9 c2 of
                        (c3, Some e') \<Rightarrow> (c3, Some e')
                      | (c3, None) \<Rightarrow> stop_finish env seconds c3)))))"

definition ContainerStop :: "stop_env \<Rightarrow> int option \<Rightarrow> int \<Rightarrow> ctr \<Rightarrow> ctr \<times> ctr_error option" where
  "ContainerStop env seconds dflt c =
     (if \<not> cs_Running (ct_state c) then (c, Some AlreadyStopped)
      else containerStop env (case seconds of None \<Rightarrow> dflt | Some s \<Rightarrow> s) c)"

text \<open>\<open>create\<close> and \<open>setup\<close> are the results of the start.\<close>

definition containerRestart ::
  "stop_env \<Rightarrow> int \<Rightarrow> string option \<Rightarrow> create_result \<Rightarrow> ctr \<Rightarrow> ctr \<times> ctr_error option" where
  "containerRestart env seconds setup create c =
     (let (c1, e) = (if cs_Running (ct_state c)
                     then (case containerStop env seconds (c\<lparr>ct_autoRemove := False\<rparr>) of
                             (c2, e2) \<Rightarrow> (c2\<lparr>ct_autoRemove := ct_autoRemove c\<rparr>, e2))
                     else (c, None))
      in (case e of
            Some err \<Rightarrow> (c1, Some err)
          | None \<Rightarrow>
              (case containerStart True setup create c1 of
                 (c2, Some err) \<Rightarrow> (c2, Some err)
               | (c2, None) \<Rightarrow> (LogContainerEvent ''restart'' c2, None))))"

section \<open>Updating\<close>

record resources =
  rs_NanoCPUs :: int
  rs_CPUPeriod :: int
  rs_CPUQuota :: int
  rs_BlkioWeight :: int
  rs_CPUShares :: int
  rs_CpusetCpus :: string
  rs_CpusetMems :: string
  rs_Memory :: int
  rs_MemorySwap :: int
  rs_MemoryReservation :: int
  rs_KernelMemory :: int

datatype update_error =
    ConflictNanoPeriod
  | ConflictNanoQuota
  | ConflictPeriodNano
  | ConflictQuotaNano
  | MemoryAboveSwap
  | PolicyWithAutoRemove
  | UpdateDisk string
  | UpdateMarkedForRemoval
  | UpdateResourcesError string

definition upd_int :: "int \<Rightarrow> int \<Rightarrow> int" where
  "upd_int new old = (if new \<noteq> 0 then new else old)"

definition upd_str :: "string \<Rightarrow> string \<Rightarrow> string" where
  "upd_str new old = (if new \<noteq> '''' then new else old)"

definition update_conflict :: "resources \<Rightarrow> resources \<Rightarrow> update_error option" where
  "update_conflict r cr =
     (if rs_NanoCPUs r > 0 \<and> rs_CPUPeriod cr > 0 then Some ConflictNanoPeriod
      else if rs_NanoCPUs r > 0 \<and> rs_CPUQuota cr > 0 then Some ConflictNanoQuota
      else if rs_CPUPeriod r > 0 \<and> rs_NanoCPUs cr > 0 then Some ConflictPeriodNano
      else if rs_CPUQuota r > 0 \<and> rs_NanoCPUs cr > 0 then Some ConflictQuotaNano
      else None)"

definition update_cpu :: "resources \<Rightarrow> resources \<Rightarrow> resources" where
  "update_cpu r cr =
     cr\<lparr>rs_BlkioWeight := upd_int (rs_BlkioWeight r) (rs_BlkioWeight cr),
        rs_CPUShares := upd_int (rs_CPUShares r) (rs_CPUShares cr),
        rs_NanoCPUs := upd_int (rs_NanoCPUs r) (rs_NanoCPUs cr),
        rs_CPUPeriod := upd_int (rs_CPUPeriod r) (rs_CPUPeriod cr),
        rs_CPUQuota := upd_int (rs_CPUQuota r) (rs_CPUQuota cr),
        rs_CpusetCpus := upd_str (rs_CpusetCpus r) (rs_CpusetCpus cr),
        rs_CpusetMems := upd_str (rs_CpusetMems r) (rs_CpusetMems cr)\<rparr>"

definition update_memory :: "resources \<Rightarrow> resources \<Rightarrow> resources" where
  "update_memory r cr =
     cr\<lparr>rs_Memory := upd_int (rs_Memory r) (rs_Memory cr),
        rs_MemorySwap := upd_int (rs_MemorySwap r) (rs_MemorySwap cr),
        rs_MemoryReservation := upd_int (rs_MemoryReservation r) (rs_MemoryReservation cr),
        rs_KernelMemory := upd_int (rs_KernelMemory r) (rs_KernelMemory cr)\<rparr>"

text \<open>
  The configuration that is returned with an error is the one the code leaves: the fields are
  set one after the other. \<open>disk\<close> is the error of writing it.
\<close>

definition UpdateContainer ::
  "resources \<Rightarrow> restart_policy \<Rightarrow> string option \<Rightarrow> resources \<Rightarrow> ctr \<Rightarrow> (resources \<times> ctr) \<times> update_error option" where
  "UpdateContainer r p disk cr c =
     (case update_conflict r cr of
        Some e \<Rightarrow> ((cr, c), Some e)
      | None \<Rightarrow>
          (let cr1 = update_cpu r cr in
           if rs_Memory r \<noteq> 0 \<and> rs_Memory r > rs_MemorySwap cr1 \<and> rs_MemorySwap r = 0
           then ((cr1, c), Some MemoryAboveSwap)
           else
            (let cr2 = update_memory r cr1 in
             if rp_Name p \<noteq> '''' \<and> ct_autoRemove c \<and> \<not> IsNone p
             then ((cr2, c), Some PolicyWithAutoRemove)
             else ((cr2, if rp_Name p \<noteq> '''' then c\<lparr>ct_policy := p\<rparr> else c), map_option UpdateDisk disk))))"

text \<open>\<^verbatim>\<open>update\<close> restores the saved configuration after an error. \<open>res\<close> is the error of containerd.\<close>

definition ContainerUpdate ::
  "resources \<Rightarrow> restart_policy \<Rightarrow> string option \<Rightarrow> string option \<Rightarrow> resources \<Rightarrow> ctr
     \<Rightarrow> (resources \<times> ctr) \<times> update_error option" where
  "ContainerUpdate r p disk res cr c =
     (if cs_RemovalInProgress (ct_state c) \<or> cs_Dead (ct_state c) then ((cr, c), Some UpdateMarkedForRemoval)
      else
       (case UpdateContainer r p disk cr c of
          ((cr1, c1), Some e) \<Rightarrow> ((cr, c1\<lparr>ct_policy := ct_policy c\<rparr>), Some e)
        | ((cr1, c1), None) \<Rightarrow>
            (let c2 = (if rp_Name p \<noteq> '''' then UpdateMonitor p c1 else c1);
                 failed = (if cs_Running (ct_state c2) \<and> \<not> cs_Restarting (ct_state c2) then res else None)
             in (case failed of
                   Some msg \<Rightarrow> ((cr, c2\<lparr>ct_policy := ct_policy c\<rparr>), Some (UpdateResourcesError msg))
                 | None \<Rightarrow> ((cr1, LogContainerEvent ''update'' c2), None)))))"

end
