(* ===== verification/ContainerSteps.thy ===== *)
theory ContainerSteps
  imports ContainerStop
begin

text \<open>
  A container, its process and the events that containerd has queued for it, as a machine: the
  user starts, signals, pauses, updates and removes the container, the process runs out of
  memory and exits, the queue delivers events in their order, timers fire, restarts run and
  probes report. The invariant relates the flags of the container's state to the process.
\<close>

section \<open>The machine\<close>

datatype proc = NoProc | Proc bool

text \<open>The flag of a process says whether it is frozen.\<close>

record world =
  w_ctr :: ctr
  w_proc :: proc
  w_queue :: "libcontainerd_event list"

datatype life_label =
    UserStart
  | OutOfMemory
  | ProcExit
  | Deliver
  | Signal
  | UserPause
  | UserUnpause
  | Timer
  | Restart
  | RestartFails
  | RestartStops
  | RestartCanceled
  | Probe
  | Update
  | Removal

fun is_exit :: "libcontainerd_event \<Rightarrow> bool" where
  "is_exit (StateExit code oom) = True"
| "is_exit _ = False"

definition exit_pending :: "libcontainerd_event list \<Rightarrow> bool" where
  "exit_pending q \<longleftrightarrow> list_ex is_exit q"

definition live :: "world \<Rightarrow> bool" where
  "live w \<longleftrightarrow> w_proc w \<noteq> NoProc \<or> exit_pending (w_queue w)"

definition startable :: "ctr \<Rightarrow> bool" where
  "startable c \<longleftrightarrow> \<not> cs_RemovalInProgress (ct_state c) \<and> \<not> cs_Dead (ct_state c)"

definition may_start :: "restart_wait \<Rightarrow> bool" where
  "may_start x \<longleftrightarrow> rw_fired x \<and> \<not> rw_failed x"

inductive life_step :: "(string \<Rightarrow> int option) \<Rightarrow> life_label \<Rightarrow> world \<Rightarrow> world \<Rightarrow> bool" for sigs where
  start_failed: "life_step sigs UserStart w (w\<lparr>w_ctr := fst (containerStart True setup (Create_failed msg) (w_ctr w))\<rparr>)"
| start_no_spec: "life_step sigs UserStart w (w\<lparr>w_ctr := fst (containerStart True setup Create_no_spec (w_ctr w))\<rparr>)"
| start_ok: "w_proc w = NoProc \<Longrightarrow> 0 < pid \<Longrightarrow> startable (w_ctr w) \<Longrightarrow> \<not> cs_Running (ct_state (w_ctr w)) \<Longrightarrow>
    life_step sigs UserStart w
      (w\<lparr>w_ctr := fst (containerStart True None (Create_started pid now disk) (w_ctr w)), w_proc := Proc False\<rparr>)"
| oom: "w_proc w \<noteq> NoProc \<Longrightarrow> life_step sigs OutOfMemory w (w\<lparr>w_queue := w_queue w @ [StateOOM]\<rparr>)"
| exits: "w_proc w \<noteq> NoProc \<Longrightarrow>
    life_step sigs ProcExit w (w\<lparr>w_proc := NoProc, w_queue := w_queue w @ [StateExit code oomk]\<rparr>)"
| deliver: "w_queue w = e # q \<Longrightarrow>
    life_step sigs Deliver w (w\<lparr>w_ctr := fst (StateChanged e now disk (w_ctr w)), w_queue := q\<rparr>)"
| signal: "life_step sigs Signal w (w\<lparr>w_ctr := fst (killWithSignal sigs sd sig sent (w_ctr w))\<rparr>)"
| pause: "containerPause None (w_ctr w) = None \<Longrightarrow> w_proc w = Proc False \<Longrightarrow> w_queue w = [] \<Longrightarrow>
    life_step sigs UserPause w (w\<lparr>w_ctr := fst (StateChanged StatePause now disk (w_ctr w)), w_proc := Proc True\<rparr>)"
| unpause: "containerUnpause None (w_ctr w) = None \<Longrightarrow> w_proc w = Proc True \<Longrightarrow> w_queue w = [] \<Longrightarrow>
    life_step sigs UserUnpause w (w\<lparr>w_ctr := fst (StateChanged StateResume now disk (w_ctr w)), w_proc := Proc False\<rparr>)"
| timer: "i < length (ct_waits (w_ctr w)) \<Longrightarrow> \<not> rw_fired (ct_waits (w_ctr w) ! i) \<Longrightarrow>
    life_step sigs Timer w (w\<lparr>w_ctr := timer_fired i (w_ctr w)\<rparr>)"
| restart_failed: "i < length (ct_waits (w_ctr w)) \<Longrightarrow> may_start (ct_waits (w_ctr w) ! i) \<Longrightarrow>
    life_step sigs RestartFails w (w\<lparr>w_ctr := fst (restart_fires i setup (Create_failed msg) (w_ctr w))\<rparr>)"
| restart_ok: "i < length (ct_waits (w_ctr w)) \<Longrightarrow> may_start (ct_waits (w_ctr w) ! i) \<Longrightarrow> w_proc w = NoProc \<Longrightarrow>
    0 < pid \<Longrightarrow> startable (w_ctr w) \<Longrightarrow>
    life_step sigs Restart w
      (w\<lparr>w_ctr := fst (restart_fires i None (Create_started pid now None) (w_ctr w)), w_proc := Proc False\<rparr>)"
| restart_stops: "i < length (ct_waits (w_ctr w)) \<Longrightarrow> rw_failed (ct_waits (w_ctr w) ! i) \<Longrightarrow>
    life_step sigs RestartStops w (w\<lparr>w_ctr := restart_stops i now (w_ctr w)\<rparr>)"
| restart_canceled: "i < length (ct_waits (w_ctr w)) \<Longrightarrow> \<not> rw_fired (ct_waits (w_ctr w) ! i) \<Longrightarrow> wait_canceled i (w_ctr w) \<Longrightarrow>
    life_step sigs RestartCanceled w (w\<lparr>w_ctr := restart_stops i now (w_ctr w)\<rparr>)"
| probe: "cs_Health (ct_state (w_ctr w)) = Some h \<Longrightarrow>
    life_step sigs Probe w
      (w\<lparr>w_ctr := on_state (\<lambda>s. s\<lparr>cs_Health := Some (fst (handleProbeResult cfg (cs_StartedAt s) (\<not> h_open h) r h))\<rparr>) (w_ctr w)\<rparr>)"
| update: "life_step sigs Update w (w\<lparr>w_ctr := snd (fst (ContainerUpdate r p disk res cr (w_ctr w)))\<rparr>)"
| removing: "life_step sigs Removal w (w\<lparr>w_ctr := on_state (\<lambda>s. fst (SetRemovalInProgress s)) (w_ctr w)\<rparr>)"
| not_removing: "life_step sigs Removal w (w\<lparr>w_ctr := on_state ResetRemovalInProgress (w_ctr w)\<rparr>)"
| dead: "life_step sigs Removal w (w\<lparr>w_ctr := on_state SetDead (w_ctr w)\<rparr>)"

text \<open>
  The two ways in which a restart can end badly, which the machine stops at: the specification cannot be read back, so that
  the start returns no error without a process; and the process is started but the configuration cannot be written,
  so that the start returns an error and the container is marked as stopped next.
\<close>

inductive life_fault :: "world \<Rightarrow> world \<Rightarrow> bool" where
  no_spec: "i < length (ct_waits (w_ctr w)) \<Longrightarrow> may_start (ct_waits (w_ctr w) ! i) \<Longrightarrow> startable (w_ctr w) \<Longrightarrow>
    life_fault w (w\<lparr>w_ctr := fst (restart_fires i None Create_no_spec (w_ctr w))\<rparr>)"
| disk: "i < length (ct_waits (w_ctr w)) \<Longrightarrow> may_start (ct_waits (w_ctr w) ! i) \<Longrightarrow> w_proc w = NoProc \<Longrightarrow>
    0 < pid \<Longrightarrow> startable (w_ctr w) \<Longrightarrow>
    life_fault w (w\<lparr>w_ctr := fst (restart_fires i None (Create_started pid now (Some msg)) (w_ctr w)), w_proc := Proc False\<rparr>)"

text \<open>A container that was created and never started.\<close>

definition new_ctr :: "restart_policy \<Rightarrow> bool \<Rightarrow> health_config option \<Rightarrow> string \<Rightarrow> string \<Rightarrow> ctr" where
  "new_ctr p ar hc path stop =
     \<lparr>ct_state = NewState, ct_policy = p, ct_autoRemove = ar, ct_health = hc, ct_path = path, ct_stopSignal = stop,
      ct_rm = None, ct_gen = 0, ct_restartCount = 0, ct_manual = False, ct_before = False, ct_events = [],
      ct_removals = 0, ct_waits = []\<rparr>"

definition new_world :: "ctr \<Rightarrow> world" where
  "new_world c = \<lparr>w_ctr = c, w_proc = NoProc, w_queue = []\<rparr>"

inductive life_reach :: "(string \<Rightarrow> int option) \<Rightarrow> world \<Rightarrow> bool" for sigs where
  created: "life_reach sigs (new_world (new_ctr p ar hc path stop))"
| step: "life_reach sigs w \<Longrightarrow> life_step sigs l w w' \<Longrightarrow> life_reach sigs w'"

text \<open>Runs without a start by a user.\<close>

inductive unattended :: "(string \<Rightarrow> int option) \<Rightarrow> world \<Rightarrow> world \<Rightarrow> bool" for sigs where
  refl: "unattended sigs w w"
| step: "unattended sigs w w1 \<Longrightarrow> life_step sigs l w1 w2 \<Longrightarrow> l \<noteq> UserStart \<Longrightarrow> unattended sigs w w2"

section \<open>The invariant of a container\<close>

text \<open>\<open>lv\<close>: the container has a process, or the event of its end is on the way.\<close>

definition ctr_inv :: "bool \<Rightarrow> ctr \<Rightarrow> bool" where
  "ctr_inv lv c \<longleftrightarrow>
     (lv \<longleftrightarrow> cs_Running (ct_state c) \<and> \<not> cs_Restarting (ct_state c)) \<and>
     (cs_Restarting (ct_state c) \<longrightarrow> cs_Running (ct_state c)) \<and>
     (cs_Paused (ct_state c) \<longrightarrow> cs_Running (ct_state c)) \<and>
     (if lv then 0 < cs_Pid (ct_state c) else cs_Pid (ct_state c) = 0) \<and>
     (ct_waits c = [] \<longleftrightarrow> \<not> cs_Restarting (ct_state c)) \<and> length (ct_waits c) \<le> 1 \<and>
     (\<forall>x \<in> set (ct_waits c). rw_gen x = ct_gen c \<and> ct_rm c \<noteq> None \<and> (rw_failed x \<longrightarrow> rw_fired x)) \<and>
     (\<forall>rm. ct_rm c = Some rm \<longrightarrow> rm_active rm \<longrightarrow> \<not> rm_canceled rm \<longrightarrow> (\<exists>x \<in> set (ct_waits c). \<not> rw_fired x)) \<and>
     (monitored (ct_state c) \<longrightarrow> lv)"

definition queue_inv :: "world \<Rightarrow> bool" where
  "queue_inv w \<longleftrightarrow>
     (\<forall>e \<in> set (w_queue w). e = StateOOM \<or> is_exit e) \<and>
     (\<forall>i < length (w_queue w). is_exit (w_queue w ! i) \<longrightarrow> w_proc w = NoProc \<and> Suc i = length (w_queue w)) \<and>
     (\<not> live w \<longrightarrow> w_queue w = [])"

definition life_inv :: "world \<Rightarrow> bool" where
  "life_inv w \<longleftrightarrow> ctr_inv (live w) (w_ctr w) \<and> queue_inv w"

section \<open>Each operation keeps it\<close>

lemma monitored_cong: "cs_Health s = cs_Health s' \<Longrightarrow> monitored s = monitored s'"
  by (simp add: monitored_def)

lemma ctr_inv_cong:
  assumes "cs_Running (ct_state c') = cs_Running (ct_state c)" "cs_Restarting (ct_state c') = cs_Restarting (ct_state c)"
    "cs_Paused (ct_state c') = cs_Paused (ct_state c)" "cs_Pid (ct_state c') = cs_Pid (ct_state c)"
    "ct_waits c' = ct_waits c" "ct_gen c' = ct_gen c" "ct_rm c' = ct_rm c"
    "monitored (ct_state c') \<longrightarrow> monitored (ct_state c)"
    and "ctr_inv lv c"
  shows "ctr_inv lv c'"
  using assms unfolding ctr_inv_def by auto

lemma ctr_invD:
  assumes "ctr_inv lv c"
  shows "lv \<longleftrightarrow> cs_Running (ct_state c) \<and> \<not> cs_Restarting (ct_state c)"
    and "cs_Restarting (ct_state c) \<longrightarrow> cs_Running (ct_state c)"
    and "cs_Paused (ct_state c) \<longrightarrow> cs_Running (ct_state c)"
    and "ct_waits c = [] \<longleftrightarrow> \<not> cs_Restarting (ct_state c)" and "length (ct_waits c) \<le> 1"
    and "x \<in> set (ct_waits c) \<Longrightarrow> rw_gen x = ct_gen c" and "x \<in> set (ct_waits c) \<Longrightarrow> ct_rm c \<noteq> None"
    and "ct_rm c = Some rm \<Longrightarrow> rm_active rm \<Longrightarrow> \<not> rm_canceled rm \<Longrightarrow> \<exists>x \<in> set (ct_waits c). \<not> rw_fired x"
    and "monitored (ct_state c) \<Longrightarrow> lv"
    and "if lv then 0 < cs_Pid (ct_state c) else cs_Pid (ct_state c) = 0"
    and "x \<in> set (ct_waits c) \<Longrightarrow> rw_failed x \<Longrightarrow> rw_fired x"
  using assms unfolding ctr_inv_def by blast+

lemma start_failed_inv: "ctr_inv lv c \<Longrightarrow> ctr_inv lv (start_failed msg c)"
  by (erule ctr_inv_cong [rotated -1])
    (simp_all add: start_failed_def Let_def autoRemove_def on_state_def SetError_def SetExitCode_def monitored_def)

lemma exit_code_inv: "ctr_inv lv c \<Longrightarrow> ctr_inv lv (on_state (start_exit_code path d) c)"
  by (erule ctr_inv_cong [rotated -1])
    (simp_all add: start_exit_code_def Let_def on_state_def SetExitCode_def monitored_def)

lemma reset_inv:
  assumes "ctr_inv lv c" "\<not> cs_Running (ct_state c)"
  shows "ctr_inv lv (ResetRestartManager r c)"
  using assms by (auto simp: ctr_inv_def ResetRestartManager_def Let_def)

lemma start_error_inv:
  assumes "ctr_inv lv c" "create = Create_no_spec \<or> create = Create_failed msg"
  shows "ctr_inv lv (fst (containerStart reset setup create c))"
  using assms(2,1) reset_inv
  by (elim disjE) (auto simp: containerStart_def Let_def intro!: start_failed_inv exit_code_inv split: option.split)

lemma state_start_fields:
  "cs_Running (ct_state (fst (state_start pid i now disk c)))"
  "\<not> cs_Restarting (ct_state (fst (state_start pid i now disk c)))"
  "cs_Pid (ct_state (fst (state_start pid i now disk c))) = pid"
  "ct_waits (fst (state_start pid i now disk c)) = ct_waits c"
  "ct_rm (fst (state_start pid i now disk c)) = ct_rm c"
  "snd (state_start pid i now disk c) = map_option DiskError disk"
  by (simp_all add: state_start_def Let_def on_state_def LogContainerEvent_def split: option.split)

text \<open>A start whose process is made: the container after the event, and after the error of writing its configuration.\<close>

lemma containerStart_started:
  assumes "startable c" "reset \<Longrightarrow> \<not> cs_Running (ct_state c)"
  shows "containerStart reset None (Create_started pid now disk) c =
    (let c1 = fst (state_start pid True now disk (if reset then ResetRestartManager True c else c)) in
     case disk of None \<Rightarrow> (c1, None)
     | Some msg \<Rightarrow> (start_failed (start_message msg) (on_state (start_exit_code (ct_path c1) msg) c1), Some (StartError (start_message msg))))"
  using assms state_start_fields(6) [of pid True now disk "if reset then ResetRestartManager True c else c"]
  by (cases "state_start pid True now disk (if reset then ResetRestartManager True c else c)")
    (auto simp: containerStart_def Let_def StateChanged_def startable_def split: option.split ctr_error.split)

lemma start_ok_inv:
  assumes inv: "ctr_inv False c" and w: "ct_waits c = []" and st: "startable c" and pid: "0 < pid"
    and nr: "reset \<Longrightarrow> \<not> cs_Running (ct_state c)"
    and rm: "\<And>rm. ct_rm c = Some rm \<Longrightarrow> rm_active rm \<Longrightarrow> rm_canceled rm"
  shows "ctr_inv True (fst (containerStart reset None (Create_started pid now disk) c))"
proof -
  let ?c = "if reset then ResetRestartManager True c else c"
  have "ctr_inv True (fst (state_start pid True now disk ?c))"
    using assms unfolding ctr_inv_def
    by (auto simp: state_start_fields ResetRestartManager_def Let_def)
  then show ?thesis
    by (auto simp: containerStart_started [OF st nr] Let_def intro!: start_failed_inv exit_code_inv split: option.split)
qed

lemma get_rm_fields:
  assumes "get_RestartManager c = (c1, rm)"
  shows "ct_state c1 = ct_state c" "ct_waits c1 = ct_waits c" "ct_rm c1 = Some rm"
    "ct_policy c1 = ct_policy c" "ct_manual c1 = ct_manual c" "ct_restartCount c1 = ct_restartCount c"
    "ct_stopSignal c1 = ct_stopSignal c" "ct_autoRemove c1 = ct_autoRemove c" "ct_health c1 = ct_health c"
    "ct_rm c \<noteq> None \<Longrightarrow> ct_rm c = Some rm \<and> ct_gen c1 = ct_gen c"
    "ct_rm c = None \<Longrightarrow> rm = rm_New (ct_policy c) (ct_restartCount c) \<and> ct_gen c1 = Suc (ct_gen c)"
  using assms by (auto simp: get_RestartManager_def Let_def split: option.splits)

lemma get_rm_inv:
  assumes "ctr_inv lv c"
  shows "ctr_inv lv (fst (get_RestartManager c))"
proof (cases "ct_rm c")
  case None
  then have "ct_waits c = []" using assms by (auto simp: ctr_inv_def neq_Nil_conv)
  then show ?thesis using assms None by (cases lv) (auto simp: ctr_inv_def get_RestartManager_def Let_def rm_New_def)
next
  case (Some rm)
  then show ?thesis using assms by (simp add: get_RestartManager_def)
qed

lemma set_rm_inv:
  assumes "ctr_inv lv c" "ct_rm c = Some rm" "rm_active rm' \<longrightarrow> \<not> rm_canceled rm' \<longrightarrow> rm_active rm \<and> \<not> rm_canceled rm"
  shows "ctr_inv lv (c\<lparr>ct_rm := Some rm'\<rparr>)"
  using assms unfolding ctr_inv_def by (cases lv) simp_all

lemma exit_on_next_inv: "ctr_inv lv c \<Longrightarrow> ctr_inv lv (ExitOnNext c)"
  unfolding ExitOnNext_def split_beta
  by (rule set_rm_inv [OF get_rm_inv get_rm_fields(3)]) (auto simp: rm_Cancel_def prod_eq_iff)

lemma update_monitor_inv: "ctr_inv lv c \<Longrightarrow> ctr_inv lv (UpdateMonitor p c)"
  unfolding UpdateMonitor_def split_beta
  by (rule set_rm_inv [OF get_rm_inv get_rm_fields(3)]) (auto simp: SetPolicy_def prod_eq_iff)

lemma event_inv: "ctr_inv lv (LogContainerEvent e c) = ctr_inv lv c"
  by (simp add: ctr_inv_def LogContainerEvent_def)

lemma manual_inv: "ctr_inv lv (c\<lparr>ct_manual := b\<rparr>) = ctr_inv lv c"
  "ctr_inv lv (c\<lparr>ct_policy := p\<rparr>) = ctr_inv lv c" "ctr_inv lv (autoRemove c) = ctr_inv lv c"
  by (simp_all add: ctr_inv_def autoRemove_def)

lemma kill_inv:
  assumes "ctr_inv lv c"
  shows "ctr_inv lv (fst (killWithSignal sigs sd sig sent c))"
  using assms
  by (auto simp: killWithSignal_def Let_def event_inv manual_inv intro!: exit_on_next_inv split: option.split if_splits)

lemma oom_inv:
  assumes "ctr_inv True c"
  shows "ctr_inv True (fst (StateChanged StateOOM now disk c))"
  using assms by (auto simp: StateChanged_def event_inv) (auto simp: ctr_inv_def on_state_def)

lemma paused_inv:
  assumes "ctr_inv True c"
  shows "ctr_inv True (fst (state_paused b disk c))"
  using assms
  by (auto simp: state_paused_def Let_def ctr_inv_def on_state_def LogContainerEvent_def monitored_def split: option.split)

lemma update_inv:
  assumes "ctr_inv lv c"
  shows "ctr_inv lv (snd (fst (ContainerUpdate r p disk res cr c)))"
  using assms
  by (auto simp: ContainerUpdate_def UpdateContainer_def Let_def event_inv manual_inv
      intro!: update_monitor_inv split: option.split prod.split)

lemma probe_inv:
  assumes "ctr_inv lv c" "cs_Health (ct_state c) = Some h"
  shows "ctr_inv lv (on_state (\<lambda>s. s\<lparr>cs_Health := Some (fst (handleProbeResult cfg (cs_StartedAt s) (\<not> h_open h) r h))\<rparr>) c)"
proof -
  have "h_open (fst (handleProbeResult cfg st cl r h)) = h_open h" for st cl
    by (simp add: handleProbeResult_def Let_def)
  then show ?thesis using assms by (auto simp: ctr_inv_def on_state_def monitored_def)
qed

lemma flags_inv:
  assumes "ctr_inv lv c"
  shows "ctr_inv lv (on_state (\<lambda>s. fst (SetRemovalInProgress s)) c)"
    "ctr_inv lv (on_state ResetRemovalInProgress c)" "ctr_inv lv (on_state SetDead c)"
  using assms
  by (auto simp: ctr_inv_def on_state_def monitored_def SetRemovalInProgress_def ResetRemovalInProgress_def SetDead_def)

lemma timer_inv:
  assumes "ctr_inv lv c" "i < length (ct_waits c)"
  shows "ctr_inv lv (timer_fired i c)"
proof -
  obtain x where w: "ct_waits c = [x]" and i: "i = 0"
    using assms by (cases "ct_waits c") (auto simp: ctr_inv_def)
  obtain rm where rm: "ct_rm c = Some rm" and g: "rw_gen x = ct_gen c" using assms w by (auto simp: ctr_inv_def)
  show ?thesis using assms w rm g i by (auto simp: ctr_inv_def timer_fired_def Let_def rm_timer_fires_def)
qed

text \<open>The end of a restart without a process.\<close>

lemma stopped_inv:
  assumes "ct_waits c = []" "\<And>rm. ct_rm c = Some rm \<Longrightarrow> rm_active rm \<Longrightarrow> rm_canceled rm"
    and "monitored (ct_state c) \<Longrightarrow> False"
  shows "ctr_inv False (restart_stopped st now c)"
  using assms
  by (auto simp: restart_stopped_def manual_inv) (auto simp: ctr_inv_def on_state_def monitored_def)

section \<open>Exits and restarts\<close>

definition exit_decision :: "int \<Rightarrow> int \<Rightarrow> ctr \<Rightarrow> restart_mgr \<times> (rm_error + bool)" where
  "exit_decision code now c =
     ShouldRestart code (ct_manual c) (now - cs_StartedAt (ct_state c)) (snd (get_RestartManager c))"

lemma idle_manager:
  assumes "ctr_inv True c"
  shows "ct_waits c = []" "rm_active (snd (get_RestartManager c)) \<Longrightarrow> rm_canceled (snd (get_RestartManager c))"
proof -
  show w: "ct_waits c = []" using assms by (auto simp: ctr_inv_def)
  show "rm_active (snd (get_RestartManager c)) \<Longrightarrow> rm_canceled (snd (get_RestartManager c))"
    using assms w
    by (cases "ct_rm c") (auto simp: ctr_inv_def get_RestartManager_def Let_def rm_New_def)
qed

lemma exit_decision_policy:
  assumes "ctr_inv True c"
  shows "snd (exit_decision code now c) = Inr True \<longleftrightarrow>
     \<not> rm_canceled (snd (get_RestartManager c)) \<and>
     policy_restarts (rm_policy (snd (get_RestartManager c))) code (ct_manual c) (rm_count (snd (get_RestartManager c)))"
  using idle_manager(2) [OF assms]
  by (auto simp: exit_decision_def ShouldRestart_result policy_restarts_def policy_defs)

lemma state_exit_fields:
  assumes "state_exit code oom now disk c = (c', e)"
  shows "cs_Running (ct_state c') \<longleftrightarrow> snd (exit_decision code now c) = Inr True"
    and "cs_Restarting (ct_state c') \<longleftrightarrow> snd (exit_decision code now c) = Inr True"
    and "cs_Paused (ct_state c') \<longrightarrow> snd (exit_decision code now c) = Inr True"
    and "cs_Pid (ct_state c') = 0" and "\<not> monitored (ct_state c')"
    and "cs_ExitCode (ct_state c') = code" and "cs_wait (ct_state c') = Suc (cs_wait (ct_state c))"
    and "ct_rm c' = Some (fst (exit_decision code now c))"
    and "ct_gen c' = ct_gen (fst (get_RestartManager c))"
    and "ct_waits c' = ct_waits c @ (if snd (exit_decision code now c) = Inr True
           then [\<lparr>rw_status = \<lparr>es_ExitCode = code, es_OOMKilled = oom\<rparr>, rw_gen = ct_gen c', rw_fired = False, rw_failed = False\<rparr>] else [])"
    and "ct_autoRemove c' = ct_autoRemove c"
    and "ct_removals c' = (if snd (exit_decision code now c) \<noteq> Inr True \<and> ct_autoRemove c then Suc (ct_removals c) else ct_removals c)"
    and "ct_restartCount c' = (if snd (exit_decision code now c) = Inr True then ct_restartCount c + 1 else ct_restartCount c)"
proof -
  obtain c1 rm where g: "get_RestartManager c = (c1, rm)" by (cases "get_RestartManager c")
  note F = get_rm_fields [OF g]
  obtain rm1 res where r: "ShouldRestart code (ct_manual c) (now - cs_StartedAt (ct_state c)) rm = (rm1, res)"
    by (cases "ShouldRestart code (ct_manual c) (now - cs_StartedAt (ct_state c)) rm")
  have d: "exit_decision code now c = (rm1, res)" using g r by (simp add: exit_decision_def)
  have rem: "ct_removals c1 = ct_removals c" using g by (auto simp: get_RestartManager_def Let_def split: option.splits)
  note defs = state_exit_def g r F(1-9) Let_def LogContainerEvent_def on_state_def autoRemove_def
  have mon: "\<not> monitored (stopHealthchecks s)" for s by (rule monitored_stop)
  have c': "c' = fst (state_exit code oom now disk c)" using assms by simp
  show "cs_Running (ct_state c') \<longleftrightarrow> snd (exit_decision code now c) = Inr True"
    "cs_Restarting (ct_state c') \<longleftrightarrow> snd (exit_decision code now c) = Inr True"
    "cs_Paused (ct_state c') \<longrightarrow> snd (exit_decision code now c) = Inr True"
    "cs_Pid (ct_state c') = 0" "\<not> monitored (ct_state c')" "cs_ExitCode (ct_state c') = code"
    "cs_wait (ct_state c') = Suc (cs_wait (ct_state c))" "ct_rm c' = Some (fst (exit_decision code now c))"
    "ct_gen c' = ct_gen (fst (get_RestartManager c))"
    "ct_waits c' = ct_waits c @ (if snd (exit_decision code now c) = Inr True
           then [\<lparr>rw_status = \<lparr>es_ExitCode = code, es_OOMKilled = oom\<rparr>, rw_gen = ct_gen c', rw_fired = False, rw_failed = False\<rparr>] else [])"
    "ct_autoRemove c' = ct_autoRemove c"
    "ct_removals c' = (if snd (exit_decision code now c) \<noteq> Inr True \<and> ct_autoRemove c then Suc (ct_removals c) else ct_removals c)"
    "ct_restartCount c' = (if snd (exit_decision code now c) = Inr True then ct_restartCount c + 1 else ct_restartCount c)"
    unfolding d c' by (simp_all add: defs rem mon)
qed

lemma exit_inv:
  assumes "ctr_inv True c"
  shows "ctr_inv False (fst (state_exit code oom now disk c))"
proof -
  obtain c' e where x: "state_exit code oom now disk c = (c', e)" by (cases "state_exit code oom now disk c")
  note F = state_exit_fields [OF x]
  let ?rm = "snd (get_RestartManager c)"
  have w: "ct_waits c = []" and idle: "rm_active ?rm \<Longrightarrow> rm_canceled ?rm" using idle_manager [OF assms] by auto
  have "ctr_inv False c'"
  proof (cases "snd (exit_decision code now c) = Inr True")
    case True
    then show ?thesis using F w unfolding ctr_inv_def by simp
  next
    case False
    have "rm_active (fst (exit_decision code now c)) \<longrightarrow> rm_canceled (fst (exit_decision code now c))"
      using ShouldRestart_not_true(2) [OF False [unfolded exit_decision_def]] idle by (auto simp: exit_decision_def)
    then show ?thesis using False F w unfolding ctr_inv_def by simp
  qed
  then show ?thesis by (simp add: x)
qed

lemma start_error_frame:
  "ct_waits (fst (containerStart False setup (Create_failed msg) c)) = ct_waits c"
  "ct_rm (fst (containerStart False setup (Create_failed msg) c)) = ct_rm c"
  "cs_Health (ct_state (fst (containerStart False setup (Create_failed msg) c))) = cs_Health (ct_state c)"
  "snd (containerStart False setup (Create_failed msg) c) \<noteq> None"
  by (auto simp: containerStart_def Let_def start_failed_def autoRemove_def on_state_def SetError_def SetExitCode_def
      start_exit_code_def split: option.split)

text \<open>The only wait of a container.\<close>

lemma one_wait:
  assumes "ctr_inv lv c" "i < length (ct_waits c)"
  obtains x rm where "ct_waits c = [x]" "i = 0" "rw_gen x = ct_gen c" "ct_rm c = Some rm" "\<not> lv"
    "cs_Restarting (ct_state c)" "cs_Running (ct_state c)" "\<not> monitored (ct_state c)"
    "rm_active rm \<Longrightarrow> rm_canceled rm \<or> \<not> rw_fired x"
proof -
  note D = ctr_invD [OF assms(1)]
  obtain x where x: "ct_waits c = [x]" "i = 0" using assms(2) D(5) by (cases "ct_waits c") auto
  have r: "cs_Restarting (ct_state c)" "rw_gen x = ct_gen c" "ct_rm c \<noteq> None" using D(4,6,7) x by auto
  then obtain rm where rm: "ct_rm c = Some rm" by blast
  have "cs_Running (ct_state c)" "\<not> lv" using D(1,2) r by blast+
  moreover have "\<not> monitored (ct_state c)" using D(9) \<open>\<not> lv\<close> by blast
  moreover have "rm_canceled rm \<or> \<not> rw_fired x" if "rm_active rm" using D(8) [OF rm that] x by auto
  ultimately show ?thesis using that x r rm by blast
qed

lemma restart_failed_inv:
  assumes "ctr_inv lv c" "i < length (ct_waits c)" "may_start (ct_waits c ! i)"
  shows "ctr_inv lv (fst (restart_fires i setup (Create_failed msg) c))"
    "rw_failed (ct_waits (fst (restart_fires i setup (Create_failed msg) c)) ! i)"
    "i < length (ct_waits (fst (restart_fires i setup (Create_failed msg) c)))"
proof -
  obtain x where c: "ct_waits c = [x]" "i = 0" using one_wait [OF assms(1,2)] by metis
  let ?r = "containerStart False setup (Create_failed msg) c"
  have w: "ct_waits (fst ?r) = [x]" by (simp add: c start_error_frame(1))
  obtain e where "snd ?r = Some e" using start_error_frame(4) by fastforce
  then have r: "restart_fires i setup (Create_failed msg) c = ((fst ?r)\<lparr>ct_waits := [x\<lparr>rw_failed := True\<rparr>]\<rparr>, Some e)"
    using w by (cases ?r) (simp add: restart_fires_def c)
  have inv: "ctr_inv lv (fst ?r)" by (rule start_error_inv [OF assms(1)]) simp
  have "rw_fired x" using assms(3) c by (simp add: may_start_def)
  then have "ctr_inv lv ((fst ?r)\<lparr>ct_waits := [x\<lparr>rw_failed := True\<rparr>]\<rparr>)" using inv w by (cases lv) (auto simp: ctr_inv_def)
  then show "ctr_inv lv (fst (restart_fires i setup (Create_failed msg) c))"
    "rw_failed (ct_waits (fst (restart_fires i setup (Create_failed msg) c)) ! i)"
    "i < length (ct_waits (fst (restart_fires i setup (Create_failed msg) c)))"
    using r c by simp_all
qed

lemma restart_stops_inv:
  assumes "ctr_inv lv c" "i < length (ct_waits c)" "wait_canceled i c \<or> rw_failed (ct_waits c ! i)"
  shows "ctr_inv False (restart_stops i now c)"
proof -
  obtain x rm where c: "ct_waits c = [x]" "i = 0" "ct_rm c = Some rm" "\<not> monitored (ct_state c)" "rw_gen x = ct_gen c"
    "rm_active rm \<Longrightarrow> rm_canceled rm \<or> \<not> rw_fired x"
    using one_wait [OF assms(1,2)] by metis
  have "rw_failed x \<Longrightarrow> rw_fired x" using ctr_invD(11) [OF assms(1)] c(1) by simp
  then show ?thesis unfolding restart_stops_def
    by (intro stopped_inv) (use c assms(3) in \<open>auto simp: drop_wait_def wait_canceled_def\<close>)
qed

lemma restart_ok_inv:
  assumes "ctr_inv lv c" "i < length (ct_waits c)" "may_start (ct_waits c ! i)" "startable c" "0 < pid"
  shows "ctr_inv True (fst (restart_fires i None (Create_started pid now None) c))"
proof -
  obtain x rm where c: "ct_waits c = [x]" "i = 0" "ct_rm c = Some rm" "rm_active rm \<Longrightarrow> rm_canceled rm \<or> \<not> rw_fired x"
    using one_wait [OF assms(1,2)] by metis
  let ?s = "fst (state_start pid True now None c)"
  have eq: "restart_fires i None (Create_started pid now None) c = (drop_wait 0 ?s, None)"
    using assms(4) c by (simp add: restart_fires_def containerStart_started)
  have "ctr_inv True (drop_wait 0 ?s)"
    using c assms(3,5) unfolding ctr_inv_def by (auto simp: state_start_fields drop_wait_def may_start_def)
  then show ?thesis using eq by simp
qed

section \<open>Every step keeps the invariant\<close>

lemma exit_pending_simps [simp]:
  "\<not> exit_pending []" "exit_pending (e # q) \<longleftrightarrow> is_exit e \<or> exit_pending q"
  "exit_pending (q @ q') \<longleftrightarrow> exit_pending q \<or> exit_pending q'"
  by (simp_all add: exit_pending_def)

lemma exit_pending_nth: "exit_pending q \<longleftrightarrow> (\<exists>i < length q. is_exit (q ! i))"
  unfolding exit_pending_def list_ex_iff by (metis in_set_conv_nth)

lemma queue_invD:
  assumes "queue_inv w"
  shows "e \<in> set (w_queue w) \<Longrightarrow> e = StateOOM \<or> is_exit e" "w_proc w \<noteq> NoProc \<Longrightarrow> \<not> exit_pending (w_queue w)"
    "\<not> live w \<Longrightarrow> w_queue w = []" "w_queue w = e # q \<Longrightarrow> is_exit e \<Longrightarrow> q = [] \<and> w_proc w = NoProc"
proof -
  show "e \<in> set (w_queue w) \<Longrightarrow> e = StateOOM \<or> is_exit e" "\<not> live w \<Longrightarrow> w_queue w = []"
    using assms by (auto simp: queue_inv_def)
  show "w_proc w \<noteq> NoProc \<Longrightarrow> \<not> exit_pending (w_queue w)"
    using assms by (auto simp: queue_inv_def exit_pending_nth)
  show "w_queue w = e # q \<Longrightarrow> is_exit e \<Longrightarrow> q = [] \<and> w_proc w = NoProc"
    using assms by (auto simp: queue_inv_def dest!: spec [of _ "0 :: nat"])
qed

text \<open>A step that changes neither the process nor the queue.\<close>

lemma ctr_step_inv:
  assumes "life_inv w" "ctr_inv (live w) c'"
  shows "life_inv (w\<lparr>w_ctr := c'\<rparr>)"
  using assms by (simp add: life_inv_def live_def queue_inv_def)

lemma start_step_inv:
  assumes "queue_inv w" "\<not> live w" "ctr_inv True c'"
  shows "life_inv (w\<lparr>w_ctr := c', w_proc := Proc b\<rparr>)"
  using assms queue_invD(3) [OF assms(1,2)] by (simp add: life_inv_def live_def queue_inv_def)

lemma not_live_running:
  assumes "life_inv w" "\<not> cs_Running (ct_state (w_ctr w)) \<or> cs_Restarting (ct_state (w_ctr w))"
  shows "\<not> live w" "ctr_inv False (w_ctr w)" "queue_inv w"
proof -
  show l: "\<not> live w" "queue_inv w" using assms ctr_invD(1) [of "live w" "w_ctr w"] by (auto simp: life_inv_def)
  then show "ctr_inv False (w_ctr w)" using assms(1) by (simp add: life_inv_def)
qed

lemma live_running:
  assumes "life_inv w" "live w"
  shows "ctr_inv True (w_ctr w)" "queue_inv w" "cs_Running (ct_state (w_ctr w))" "\<not> cs_Restarting (ct_state (w_ctr w))"
    "ct_waits (w_ctr w) = []"
  using assms ctr_invD(1,4) [of True "w_ctr w"] by (auto simp: life_inv_def)

lemma queue_snoc:
  assumes "queue_inv w" "w_proc w \<noteq> NoProc"
  shows "queue_inv (w\<lparr>w_queue := w_queue w @ [StateOOM]\<rparr>)"
    "queue_inv (w\<lparr>w_proc := NoProc, w_queue := w_queue w @ [StateExit code oom]\<rparr>)"
proof -
  have n: "\<And>i. i < length (w_queue w) \<Longrightarrow> \<not> is_exit (w_queue w ! i)"
    using queue_invD(2) [OF assms] by (auto simp: exit_pending_nth)
  show "queue_inv (w\<lparr>w_queue := w_queue w @ [StateOOM]\<rparr>)"
    using assms n by (auto simp: queue_inv_def live_def nth_append)
  show "queue_inv (w\<lparr>w_proc := NoProc, w_queue := w_queue w @ [StateExit code oom]\<rparr>)"
    using assms n by (auto simp: queue_inv_def live_def nth_append)
qed

lemma deliver_inv:
  assumes inv: "life_inv w" and q: "w_queue w = e # q"
  shows "life_inv (w\<lparr>w_ctr := fst (StateChanged e now disk (w_ctr w)), w_queue := q\<rparr>)"
proof -
  have lv: "live w" using inv queue_invD(3) [of w] q by (auto simp: life_inv_def)
  note L = live_running [OF inv lv]
  show ?thesis
  proof (cases "is_exit e")
    case True
    then obtain code oom where e: "e = StateExit code oom" by (cases e) auto
    have "q = []" "w_proc w = NoProc" using queue_invD(4) [OF L(2) q True] by auto
    then show ?thesis using exit_inv [OF L(1)] by (simp add: e life_inv_def live_def queue_inv_def StateChanged_def)
  next
    case False
    then have e: "e = StateOOM" using queue_invD(1) [OF L(2), of e] q by auto
    have lv': "live (w\<lparr>w_ctr := c', w_queue := q\<rparr>)" for c' using lv q e by (simp add: live_def)
    have "queue_inv (w\<lparr>w_ctr := c', w_queue := q\<rparr>)" for c'
      using L(2) lv' [of c'] q by (fastforce simp: queue_inv_def)
    then show ?thesis using oom_inv [OF L(1)] lv' by (simp add: life_inv_def e)
  qed
qed

lemma life_step_inv:
  assumes "life_step sigs l w w'" "life_inv w"
  shows "life_inv w'"
proof -
  have inv: "ctr_inv (live w) (w_ctr w)" and qi: "queue_inv w" using assms(2) by (auto simp: life_inv_def)
  note keep = ctr_step_inv [OF assms(2)]
  show ?thesis using assms(1)
  proof cases
    case (start_failed err msg)
    show ?thesis unfolding start_failed by (rule keep) (rule start_error_inv [OF inv], simp)
  next
    case (start_no_spec err)
    show ?thesis unfolding start_no_spec by (rule keep) (rule start_error_inv [OF inv], simp)
  next
    case (start_ok pid now disk)
    have n: "\<not> live w" "ctr_inv False (w_ctr w)" using not_live_running [OF assms(2)] start_ok by auto
    have e: "ct_waits (w_ctr w) = []" using ctr_invD(2,4) [OF n(2)] start_ok by blast
    have "rm_canceled rm" if "ct_rm (w_ctr w) = Some rm" "rm_active rm" for rm
      using ctr_invD(8) [OF n(2) that] e by auto
    then show ?thesis unfolding start_ok(2)
      by (intro start_step_inv [OF qi n(1)] start_ok_inv [OF n(2) e]) (use start_ok in auto)
  next
    case oom
    then have lv: "live w" by (simp add: live_def)
    show ?thesis using oom queue_snoc(1) [of w] live_running [OF assms(2) lv] by (simp add: life_inv_def live_def)
  next
    case (exits code oomk)
    then have lv: "live w" by (simp add: live_def)
    show ?thesis using exits queue_snoc(2) [of w] live_running [OF assms(2) lv] by (simp add: life_inv_def live_def)
  next
    case (deliver e q now disk)
    then show ?thesis using deliver_inv [OF assms(2)] by simp
  next
    case (signal sd sig sent)
    show ?thesis unfolding signal by (rule keep) (rule kill_inv [OF inv])
  next
    case (pause now disk)
    then have lv: "live w" by (simp add: live_def)
    show ?thesis using pause paused_inv live_running(1) [OF assms(2) lv]
      by (simp add: life_inv_def live_def queue_inv_def StateChanged_def)
  next
    case (unpause now disk)
    then have lv: "live w" by (simp add: live_def)
    show ?thesis using unpause paused_inv live_running(1) [OF assms(2) lv]
      by (simp add: life_inv_def live_def queue_inv_def StateChanged_def)
  next
    case (timer i)
    show ?thesis unfolding timer(2) by (rule keep) (rule timer_inv [OF inv timer(3)])
  next
    case (restart_failed i err msg)
    show ?thesis unfolding restart_failed(2)
      by (rule keep) (rule restart_failed_inv(1) [OF inv restart_failed(3,4)])
  next
    case (restart_ok i pid now)
    have n: "\<not> live w" using one_wait [OF inv restart_ok(3)] by blast
    show ?thesis unfolding restart_ok(2)
      by (rule start_step_inv [OF qi n]) (rule restart_ok_inv [OF inv]; use restart_ok in simp)
  next
    case (restart_stops i now)
    have n: "\<not> live w" using one_wait [OF inv restart_stops(3)] by blast
    show ?thesis unfolding restart_stops(2)
      by (rule keep) (use n restart_stops_inv [OF inv restart_stops(3)] restart_stops(4) in simp)
  next
    case (restart_canceled i now)
    have n: "\<not> live w" using one_wait [OF inv restart_canceled(3)] by blast
    show ?thesis unfolding restart_canceled(2)
      by (rule keep) (use n restart_stops_inv [OF inv restart_canceled(3)] restart_canceled(5) in simp)
  next
    case (probe h cfg r)
    show ?thesis unfolding probe(2) by (rule keep) (rule probe_inv [OF inv probe(3)])
  next
    case (update r p disk res cr)
    show ?thesis unfolding update by (rule keep) (rule update_inv [OF inv])
  next
    case removing
    show ?thesis unfolding removing by (rule keep) (rule flags_inv(1) [OF inv])
  next
    case not_removing
    show ?thesis unfolding not_removing by (rule keep) (rule flags_inv(2) [OF inv])
  next
    case dead
    show ?thesis unfolding dead by (rule keep) (rule flags_inv(3) [OF inv])
  qed
qed

lemma life_reach_inv: "life_reach sigs w \<Longrightarrow> life_inv w"
proof (induction rule: life_reach.induct)
  case (created p ar hc path stop)
  then show ?case
    by (simp add: life_inv_def ctr_inv_def queue_inv_def live_def new_world_def new_ctr_def NewState_def monitored_def)
next
  case (step w l w')
  then show ?case using life_step_inv by blast
qed

end
