(* ===== verification/ContainerProps.thy ===== *)
theory ContainerProps
  imports ContainerSteps
begin

text \<open>What holds of a container along every run of the machine of ContainerSteps.\<close>

section \<open>An example run\<close>

definition ex_sigs :: "string \<Rightarrow> int option" where
  "ex_sigs s = (if s = ''TERM'' then Some 15 else if s = ''KILL'' then Some 9 else None)"

definition ex_ctr :: ctr where
  "ex_ctr = new_ctr \<lparr>rp_Name = ''always'', rp_MaximumRetryCount = 0\<rparr> False None ''/bin/true'' ''''"

definition ex_started :: world where
  "ex_started = \<lparr>w_ctr = fst (containerStart True None (Create_started 7 1 None) ex_ctr), w_proc = Proc False, w_queue = []\<rparr>"

definition ex_ended :: "world \<Rightarrow> world" where
  "ex_ended w = w\<lparr>w_proc := NoProc, w_queue := w_queue w @ [StateExit 3 False]\<rparr>"

definition ex_delivered :: "world \<Rightarrow> world" where
  "ex_delivered w = w\<lparr>w_ctr := fst (StateChanged (StateExit 3 False) 2 None (w_ctr w)), w_queue := []\<rparr>"

lemma ex_started_reach: "life_reach ex_sigs ex_started"
proof -
  have "life_step ex_sigs UserStart (new_world ex_ctr) ex_started"
    using life_step.start_ok [of "new_world ex_ctr" 7 ex_sigs 1 None]
    by (simp add: new_world_def ex_started_def startable_def ex_ctr_def new_ctr_def NewState_def)
  then show ?thesis using life_reach.created unfolding ex_ctr_def by (rule life_reach.step [rotated])
qed

lemma ex_ended_step: "w_proc w \<noteq> NoProc \<Longrightarrow> life_step ex_sigs ProcExit w (ex_ended w)"
  unfolding ex_ended_def by (rule life_step.exits)

lemma ex_delivered_step: "w_queue w = [StateExit 3 False] \<Longrightarrow> life_step ex_sigs Deliver w (ex_delivered w)"
  unfolding ex_delivered_def by (rule life_step.deliver)

lemma ex_ended_reach: "life_reach ex_sigs (ex_ended ex_started)"
  by (rule life_reach.step [OF ex_started_reach ex_ended_step]) (simp add: ex_started_def)

lemma ex_restarting_reach: "life_reach ex_sigs (ex_delivered (ex_ended ex_started))"
  by (rule life_reach.step [OF ex_ended_reach ex_delivered_step]) (simp add: ex_started_def ex_ended_def)

section \<open>The flags tell what the process does\<close>



section \<open>Restarts\<close>

text \<open>
  When the end of the container's process is reported, in any reachable state, the
  container goes into restart exactly when its restart manager was not canceled and the policy
  asks for it, given the exit code, whether a user stopped it, and the restarts so far;
  otherwise it is stopped, and removed if it was to be removed. In both cases the exit code is
  the process's and the waiters are woken.
\<close>

theorem restart_at_exit:
  assumes "life_reach sigs w" "w_queue w = StateExit code oom # q"
    and "StateChanged (StateExit code oom) now disk (w_ctr w) = (c', e)"
    and "rm = snd (get_RestartManager (w_ctr w))"
  shows "(cs_Restarting (ct_state c') \<longleftrightarrow>
            \<not> rm_canceled rm \<and> policy_restarts (rm_policy rm) code (ct_manual (w_ctr w)) (rm_count rm)) \<and>
         cs_Running (ct_state c') = cs_Restarting (ct_state c') \<and>
         cs_ExitCode (ct_state c') = code \<and> wait_closed (cs_wait (ct_state (w_ctr w))) (ct_state c') \<and>
         ct_removals c' = (if \<not> cs_Restarting (ct_state c') \<and> ct_autoRemove (w_ctr w)
                           then Suc (ct_removals (w_ctr w)) else ct_removals (w_ctr w))"
proof -
  have lv: "live w" using assms(2) by (simp add: live_def)
  have inv: "ctr_inv True (w_ctr w)" by (rule live_running(1) [OF life_reach_inv [OF assms(1)] lv])
  have x: "state_exit code oom now disk (w_ctr w) = (c', e)" using assms(3) by (simp add: StateChanged_def)
  show ?thesis using state_exit_fields(1,2,6,7,12) [OF x] exit_decision_policy [OF inv, of code now] assms(4)
    by (simp add: wait_closed_def)
qed

theorem restart_at_exit_witness:
  "cs_Restarting (ct_state (w_ctr (ex_delivered (ex_ended ex_started))))"
proof -
  let ?w = "ex_ended ex_started"
  obtain c' e where x: "StateChanged (StateExit 3 False) 2 None (w_ctr ?w) = (c', e)"
    by (cases "StateChanged (StateExit 3 False) 2 None (w_ctr ?w)")
  have q: "w_queue ?w = [StateExit 3 False]" by (simp add: ex_ended_def ex_started_def)
  have rm: "snd (get_RestartManager (w_ctr ?w)) = rm_New \<lparr>rp_Name = ''always'', rp_MaximumRetryCount = 0\<rparr> 0"
    by (simp add: ex_ended_def ex_started_def ex_ctr_def new_ctr_def NewState_def containerStart_def Let_def
        StateChanged_def state_start_def on_state_def LogContainerEvent_def ResetRestartManager_def get_RestartManager_def)
  have "cs_Restarting (ct_state c')"
    using restart_at_exit [OF ex_ended_reach q x rm [symmetric]] by (simp add: rm_New_def policy_restarts_def)
  then show ?thesis using x by (simp add: ex_delivered_def)
qed

section \<open>A stopped container stays stopped\<close>

definition no_restart :: "ctr \<Rightarrow> bool" where
  "no_restart c \<longleftrightarrow> \<not> cs_Restarting (ct_state c) \<and> (\<exists>rm. ct_rm c = Some rm \<and> rm_canceled rm)"

lemma no_restart_event [simp]: "no_restart (LogContainerEvent e c) = no_restart c" "no_restart (c\<lparr>ct_manual := b\<rparr>) = no_restart c"
  "no_restart (c\<lparr>ct_policy := p\<rparr>) = no_restart c" "no_restart (autoRemove c) = no_restart c"
  by (simp_all add: no_restart_def LogContainerEvent_def autoRemove_def)













section \<open>A restart comes to an end\<close>

lemma restart_step_ends:
  assumes "life_inv w" "life_step sigs l w w'" "l = Restart \<or> l = RestartStops \<or> l = RestartCanceled"
  shows "\<not> cs_Restarting (ct_state (w_ctr w'))"
proof -
  have inv: "ctr_inv (live w) (w_ctr w)" using assms(1) by (simp add: life_inv_def)
  show ?thesis using assms(2)
  proof cases
    case (restart_ok i pid now)
    have "ctr_inv True (w_ctr w')" using restart_ok restart_ok_inv [OF inv] by simp
    then show ?thesis using ctr_invD(1) by blast
  qed (use assms(3) in \<open>simp_all add: restart_stops_def restart_stopped_def autoRemove_def on_state_def\<close>)
qed

lemma restart_fails_then_stops:
  assumes "life_inv w" "life_step sigs RestartFails w w1"
  shows "\<exists>w2. life_step sigs RestartStops w1 w2 \<and> \<not> cs_Restarting (ct_state (w_ctr w2))"
  using assms(2)
proof cases
  case (restart_failed i err msg)
  have inv: "ctr_inv (live w) (w_ctr w)" using assms(1) by (simp add: life_inv_def)
  note F = restart_failed_inv [OF inv restart_failed(2,3), of err msg]
  let ?w2 = "w1\<lparr>w_ctr := restart_stops i 0 (w_ctr w1)\<rparr>"
  have s: "life_step sigs RestartStops w1 ?w2" by (rule life_step.restart_stops) (use F restart_failed(1) in simp_all)
  then show ?thesis using restart_step_ends [OF life_step_inv [OF assms(2,1)] s] by blast
qed

text \<open>What a restart leaves that ends in one of the two bad ways.\<close>

lemma life_fault_leaves:
  assumes inv: "life_inv w" and fault: "life_fault w w'"
  shows "w_proc w' = NoProc \<and> cs_Restarting (ct_state (w_ctr w')) \<and> ct_waits (w_ctr w') = [] \<or>
    w_proc w' \<noteq> NoProc \<and> (\<forall>now. \<not> cs_Running (ct_state (restart_stops 0 now (w_ctr w'))))"
proof -
  have ci: "ctr_inv (live w) (w_ctr w)" using inv by (simp add: life_inv_def)
  show ?thesis using fault
  proof cases
    case (no_spec i)
    obtain x where c: "ct_waits (w_ctr w) = [x]" "i = 0" "cs_Restarting (ct_state (w_ctr w))" "\<not> live w"
      using one_wait [OF ci no_spec(2)] by metis
    have "restart_fires i None Create_no_spec (w_ctr w) = (drop_wait 0 (w_ctr w), None)"
      using no_spec(4) c(2) by (simp add: restart_fires_def containerStart_def startable_def)
    then show ?thesis using no_spec(1) c by (simp add: drop_wait_def live_def)
  next
    case (disk i pid now msg)
    then show ?thesis by (simp add: restart_stops_def restart_stopped_def autoRemove_def on_state_def SetStopped_def)
  qed
qed

text \<open>
  C23. A restart comes to an end, whatever it comes to. In every state that is reachable without the two bad ends, a container
  that is restarting can be brought to its start, after its timer if that has not fired yet: the start can succeed, and the
  container runs, if it is not being removed; it can fail, and the goroutine then marks the container as stopped; after a
  failed start the mark is all that is left to do. A successful start, the mark, and the end of a canceled wait leave the
  container not restarting. The two bad ends leave it restarting for ever, with no process and no goroutine, when the
  specification could not be read back, and with a process but next marked as stopped when the disk failed.
\<close>

theorem restart_progress:
  assumes "life_reach sigs w" "cs_Restarting (ct_state (w_ctr w))"
  shows "(if rw_failed (hd (ct_waits (w_ctr w))) then \<exists>w'. life_step sigs RestartStops w w'
     else \<exists>w1. (w1 = w \<or> life_step sigs Timer w w1) \<and>
       (startable (w_ctr w) \<longrightarrow> (\<exists>w2. life_step sigs Restart w1 w2 \<and> w_proc w2 \<noteq> NoProc \<and> cs_Running (ct_state (w_ctr w2)))) \<and>
       (\<exists>w2. life_step sigs RestartFails w1 w2)) \<and>
     (\<forall>w'. life_step sigs RestartFails w w' \<longrightarrow> (\<exists>w''. life_step sigs RestartStops w' w'')) \<and>
     (\<forall>l w'. life_step sigs l w w' \<longrightarrow> l \<in> {Restart, RestartStops, RestartCanceled} \<longrightarrow> \<not> cs_Restarting (ct_state (w_ctr w'))) \<and>
     (\<forall>w'. life_fault w w' \<longrightarrow>
        w_proc w' = NoProc \<and> cs_Restarting (ct_state (w_ctr w')) \<and> ct_waits (w_ctr w') = [] \<or>
        w_proc w' \<noteq> NoProc \<and> (\<forall>now. \<not> cs_Running (ct_state (restart_stops 0 now (w_ctr w')))))"
proof (intro conjI allI impI)
  have li: "life_inv w" using life_reach_inv [OF assms(1)] .
  then have inv: "ctr_inv (live w) (w_ctr w)" and nl: "\<not> live w"
    using not_live_running(1) [of w] assms(2) by (auto simp: life_inv_def)
  show "\<not> cs_Restarting (ct_state (w_ctr w'))" if "life_step sigs l w w'" "l \<in> {Restart, RestartStops, RestartCanceled}" for l w'
    by (rule restart_step_ends [OF li that(1)]) (use that(2) in blast)
  show "\<exists>w''. life_step sigs RestartStops w' w''" if "life_step sigs RestartFails w w'" for w'
    using restart_fails_then_stops [OF li that] by blast
  show "w_proc w' = NoProc \<and> cs_Restarting (ct_state (w_ctr w')) \<and> ct_waits (w_ctr w') = [] \<or>
      w_proc w' \<noteq> NoProc \<and> (\<forall>now. \<not> cs_Running (ct_state (restart_stops 0 now (w_ctr w'))))" if "life_fault w w'" for w'
    by (rule life_fault_leaves [OF li that])
  have len: "0 < length (ct_waits (w_ctr w))" using ctr_invD(4) [OF inv] assms(2) by simp
  then have hd: "hd (ct_waits (w_ctr w)) = ct_waits (w_ctr w) ! 0" by (cases "ct_waits (w_ctr w)") simp_all
  show "if rw_failed (hd (ct_waits (w_ctr w))) then \<exists>w'. life_step sigs RestartStops w w'
     else \<exists>w1. (w1 = w \<or> life_step sigs Timer w w1) \<and>
       (startable (w_ctr w) \<longrightarrow> (\<exists>w2. life_step sigs Restart w1 w2 \<and> w_proc w2 \<noteq> NoProc \<and> cs_Running (ct_state (w_ctr w2)))) \<and>
       (\<exists>w2. life_step sigs RestartFails w1 w2)"
  proof (cases "rw_failed (hd (ct_waits (w_ctr w)))")
    case True
    then show ?thesis using life_step.restart_stops [OF len] by (auto simp: hd)
  next
    case False
    define c1 where "c1 = (if rw_fired (ct_waits (w_ctr w) ! 0) then w_ctr w else timer_fired 0 (w_ctr w))"
    let ?w1 = "w\<lparr>w_ctr := c1\<rparr>"
    have w1: "?w1 = w \<or> life_step sigs Timer w ?w1" using life_step.timer [OF len, of sigs] by (simp add: c1_def)
    have f: "ct_state c1 = ct_state (w_ctr w)" "0 < length (ct_waits c1)" "may_start (ct_waits c1 ! 0)"
      using len False by (auto simp: c1_def timer_fired_def Let_def may_start_def hd split: option.split)
    have li1: "life_inv ?w1" using w1 life_step_inv [OF _ li] li by metis
    have fails: "\<exists>w2. life_step sigs RestartFails ?w1 w2"
      using life_step.restart_failed [of 0 ?w1 sigs None "''''"] f by auto
    have "\<exists>w2. life_step sigs Restart ?w1 w2 \<and> w_proc w2 \<noteq> NoProc \<and> cs_Running (ct_state (w_ctr w2))" if "startable (w_ctr w)"
    proof -
      have st: "startable c1" using that by (simp add: startable_def f)
      let ?w2 = "?w1\<lparr>w_ctr := fst (restart_fires 0 None (Create_started 1 0 None) c1), w_proc := Proc False\<rparr>"
      have s: "life_step sigs Restart ?w1 ?w2"
        using life_step.restart_ok [of 0 ?w1 1 sigs 0] f st nl by (simp add: live_def)
      have "ctr_inv True (w_ctr ?w2)"
        using restart_ok_inv [of "live ?w1" c1 0 1 0] li1 f st by (simp add: life_inv_def)
      then have "cs_Running (ct_state (w_ctr ?w2))" using ctr_invD(1) by blast
      then show ?thesis using s by (intro exI [of _ ?w2]) simp
    qed
    then show ?thesis using w1 False fails by metis
  qed
qed

theorem restart_progress_witness:
  "\<exists>w1 w2. life_step ex_sigs Restart w1 w2 \<and> w_proc w2 \<noteq> NoProc"
proof -
  have "cs_Restarting (ct_state (w_ctr (ex_delivered (ex_ended ex_started))))"
    "startable (w_ctr (ex_delivered (ex_ended ex_started)))"
    "\<not> rw_failed (hd (ct_waits (w_ctr (ex_delivered (ex_ended ex_started)))))" by code_simp+
  then show ?thesis using restart_progress [OF ex_restarting_reach] by auto
qed

text \<open>Both bad ends can come from a reachable state: the example's, after its timer.\<close>

definition ex_fired :: world where
  "ex_fired = (let w = ex_delivered (ex_ended ex_started) in w\<lparr>w_ctr := timer_fired 0 (w_ctr w)\<rparr>)"

lemma ex_faults:
  "life_reach ex_sigs ex_fired"
  "\<exists>w'. life_fault ex_fired w' \<and> w_proc w' = NoProc \<and> cs_Restarting (ct_state (w_ctr w')) \<and> ct_waits (w_ctr w') = []"
  "\<exists>w'. life_fault ex_fired w' \<and> w_proc w' = Proc False \<and> \<not> cs_Running (ct_state (restart_stops 0 4 (w_ctr w')))"
proof -
  have "life_step ex_sigs Timer (ex_delivered (ex_ended ex_started)) ex_fired"
    unfolding ex_fired_def Let_def by (rule life_step.timer) code_simp+
  then show "life_reach ex_sigs ex_fired" by (rule life_reach.step [OF ex_restarting_reach])
  have e: "0 < length (ct_waits (w_ctr ex_fired))" "may_start (ct_waits (w_ctr ex_fired) ! 0)" "startable (w_ctr ex_fired)"
    "w_proc ex_fired = NoProc" "cs_Restarting (ct_state (fst (restart_fires 0 None Create_no_spec (w_ctr ex_fired))))"
    "ct_waits (fst (restart_fires 0 None Create_no_spec (w_ctr ex_fired))) = []"
    "\<not> cs_Running (ct_state (restart_stops 0 4 (fst (restart_fires 0 None (Create_started 8 3 (Some ''no space'')) (w_ctr ex_fired)))))"
    by code_simp+
  show "\<exists>w'. life_fault ex_fired w' \<and> w_proc w' = NoProc \<and> cs_Restarting (ct_state (w_ctr w')) \<and> ct_waits (w_ctr w') = []"
    using life_fault.no_spec [OF e(1-3)] e by fastforce
  show "\<exists>w'. life_fault ex_fired w' \<and> w_proc w' = Proc False \<and> \<not> cs_Running (ct_state (restart_stops 0 4 (w_ctr w')))"
    using life_fault.disk [OF e(1,2,4) _ e(3), of 8 3 "''no space''"] e(7) by fastforce
qed

section \<open>Pausing and restarts\<close>

text \<open>
  A container that was paused when its process ended, and is then restarted, counts as
  paused although its process runs: there is a reachable state in which the container is
  described as paused, its process is not frozen, and no event is outstanding; then it can be
  neither signalled nor paused.
\<close>

theorem restart_keeps_paused:
  "\<exists>w. life_reach ex_sigs w \<and> StateString (ct_state (w_ctr w)) = ''paused'' \<and> w_proc w = Proc False \<and> w_queue w = [] \<and>
      (\<forall>sd sig sent. killWithSignal ex_sigs sd sig sent (w_ctr w) = (w_ctr w, Some PausedCannotKill)) \<and>
      (\<forall>res. containerPause res (w_ctr w) = Some AlreadyPaused)"
proof -
  let ?w1 = "ex_started\<lparr>w_ctr := fst (StateChanged StatePause 2 None (w_ctr ex_started)), w_proc := Proc True\<rparr>"
  let ?w2 = "ex_delivered (ex_ended ?w1)"
  let ?w3 = "?w2\<lparr>w_ctr := timer_fired 0 (w_ctr ?w2)\<rparr>"
  let ?c4 = "fst (restart_fires 0 None (Create_started 8 3 None) (w_ctr ?w3))"
  have "life_step ex_sigs UserPause ex_started ?w1"
    by (rule life_step.pause) (simp_all add: ex_started_def, code_simp)
  then have r1: "life_reach ex_sigs ?w1" by (rule life_reach.step [OF ex_started_reach])
  have "life_reach ex_sigs (ex_ended ?w1)" by (rule life_reach.step [OF r1 ex_ended_step]) simp
  then have r2: "life_reach ex_sigs ?w2"
    by (rule life_reach.step [OF _ ex_delivered_step]) (simp add: ex_ended_def ex_started_def)
  have "life_step ex_sigs Timer ?w2 ?w3" by (rule life_step.timer) code_simp+
  then have r3: "life_reach ex_sigs ?w3" by (rule life_reach.step [OF r2])
  have "life_step ex_sigs Restart ?w3 (?w3\<lparr>w_ctr := ?c4, w_proc := Proc False\<rparr>)"
    by (rule life_step.restart_ok) code_simp+
  then have r4: "life_reach ex_sigs (?w3\<lparr>w_ctr := ?c4, w_proc := Proc False\<rparr>)" by (rule life_reach.step [OF r3])
  have p: "cs_Paused (ct_state ?c4)" "cs_Running (ct_state ?c4)" "StateString (ct_state ?c4) = ''paused''"
    "w_queue ?w3 = []" by code_simp+
  have "\<forall>sd sig sent. killWithSignal ex_sigs sd sig sent ?c4 = (?c4, Some PausedCannotKill)"
    "\<forall>res. containerPause res ?c4 = Some AlreadyPaused"
    using p(1,2) by (simp_all add: killWithSignal_def containerPause_def)
  then show ?thesis using r4 p by (intro exI [of _ "?w3\<lparr>w_ctr := ?c4, w_proc := Proc False\<rparr>"]) simp
qed

end
