(* ===== verification/ContainerOps.thy ===== *)
theory ContainerOps
  imports ContainerSteps
begin

text \<open>
  What the operations of a user return and leave behind: the outcomes of a start, what a stop
  waits for, and what an update changes.
\<close>

section \<open>Starting\<close>

definition start_code :: "string \<Rightarrow> string \<Rightarrow> int \<Rightarrow> int" where
  "start_code path d old =
     (if lower_contains d ''not a directory'' then 127
      else if lower_contains d ''permission denied'' then 126
      else if lower_contains d path \<and>
        (lower_contains d ''executable file not found'' \<or> lower_contains d ''no such file or directory'' \<or>
         lower_contains d ''system cannot find the file specified'') then 127
      else if old = 0 then 128 else old)"

lemma start_exit_code_code:
  "(let s1 = start_exit_code path d s in if cs_ExitCode s1 = 0 then 128 else cs_ExitCode s1) = start_code path d (cs_ExitCode s)"
  by (auto simp: start_exit_code_def start_code_def Let_def SetExitCode_def)

lemma start_failed_fields:
  "cs_ErrorMsg (ct_state (start_failed m c)) = m"
  "cs_ExitCode (ct_state (start_failed m c)) = (if cs_ExitCode (ct_state c) = 0 then 128 else cs_ExitCode (ct_state c))"
  "cs_Running (ct_state (start_failed m c)) = cs_Running (ct_state c)"
  "cs_Pid (ct_state (start_failed m c)) = cs_Pid (ct_state c)"
  by (simp_all add: start_failed_def Let_def autoRemove_def on_state_def SetError_def SetExitCode_def)

lemma exit_code_fields [simp]:
  "cs_Running (start_exit_code path d s) = cs_Running s" "cs_Pid (start_exit_code path d s) = cs_Pid s"
  by (simp_all add: start_exit_code_def Let_def SetExitCode_def)

lemma on_state_simps [simp]: "ct_state (on_state f c) = f (ct_state c)" "ct_path (on_state f c) = ct_path c"
  by (simp_all add: on_state_def)

lemma reset_simps [simp]: "ct_state (ResetRestartManager r c) = ct_state c" "ct_path (ResetRestartManager r c) = ct_path c"
  by (simp_all add: ResetRestartManager_def Let_def)

lemma start_code_nonzero: "start_code path d old \<noteq> 0"
  by (simp add: start_code_def)

lemma start_failed_code:
  "cs_ExitCode (ct_state (start_failed m (on_state (start_exit_code (ct_path c) d) c))) = start_code (ct_path c) d (cs_ExitCode (ct_state c))"
  using start_exit_code_code [of "ct_path c" d "ct_state c"] by (auto simp: start_failed_fields Let_def split: if_splits)

lemma state_start_failing:
  "state_start pid i now (Some d) c =
     ((on_state (SetRunning pid i now) c)\<lparr>ct_manual := False, ct_before := True\<rparr>, Some (DiskError d))"
  by (simp add: state_start_def Let_def)

text \<open>
  C24. The outcomes of starting a container that neither runs nor is being removed. When
  containerd fails, the error is reported and recorded, the exit code says why: 127 for a
  missing command or a mount onto the wrong kind of file, 126 for one that may not be
  executed, the code before or else 128 otherwise, never zero; and the container does not run.
  When it succeeds the container runs with the new process, without error. But when the
  container's configuration cannot be written after the process was started, the start fails
  while the container counts as running; and when the specification that was just written
  cannot be read back, the start reports success without any process.
\<close>

theorem start_outcomes:
  assumes "\<not> cs_Running (ct_state c)" "startable c"
    and "containerStart True None r c = (c', e)"
  shows "(r = Create_failed d \<longrightarrow> e = Some (StartError (start_message d)) \<and> cs_ErrorMsg (ct_state c') = start_message d \<and>
            cs_ExitCode (ct_state c') = start_code (ct_path c) d (cs_ExitCode (ct_state c)) \<and>
            cs_ExitCode (ct_state c') \<noteq> 0 \<and> \<not> cs_Running (ct_state c')) \<and>
         (r = Create_started pid now None \<longrightarrow> e = None \<and> cs_Running (ct_state c') \<and> cs_Pid (ct_state c') = pid \<and>
            cs_ExitCode (ct_state c') = 0 \<and> cs_StartedAt (ct_state c') = now) \<and>
         (r = Create_started pid now (Some d) \<longrightarrow> e = Some (StartError (start_message d)) \<and>
            cs_Running (ct_state c') \<and> cs_Pid (ct_state c') = pid \<and> cs_ExitCode (ct_state c') \<noteq> 0) \<and>
         (r = Create_no_spec \<longrightarrow> e = None \<and> \<not> cs_Running (ct_state c') \<and> cs_Pid (ct_state c') = cs_Pid (ct_state c))"
proof (intro conjI impI)
  let ?c = "ResetRestartManager True c"
  have start: "containerStart True None r c =
      (case libcontainerd_create r ?c of
         (c2, None) \<Rightarrow> (c2, None)
       | (c2, Some errDesc) \<Rightarrow>
           (start_failed (start_message errDesc) (on_state (start_exit_code (ct_path c2) errDesc) c2),
            Some (StartError (start_message errDesc))))"
    using assms(1,2) by (simp add: containerStart_def startable_def)
  have code: "cs_ExitCode (ct_state (start_failed m (on_state (start_exit_code path d) c2))) = start_code path d (cs_ExitCode (ct_state c2))"
    for m path d c2
    using start_exit_code_code [of path d "ct_state c2"] by (auto simp: start_failed_fields Let_def split: if_splits)
  {
    assume r: "r = Create_failed d"
    then have "c' = start_failed (start_message d) (on_state (start_exit_code (ct_path c) d) ?c)"
        "e = Some (StartError (start_message d))" using start assms(3) by simp_all
    then show "e = Some (StartError (start_message d))" "cs_ErrorMsg (ct_state c') = start_message d"
      "cs_ExitCode (ct_state c') = start_code (ct_path c) d (cs_ExitCode (ct_state c))"
      "cs_ExitCode (ct_state c') \<noteq> 0" "\<not> cs_Running (ct_state c')"
      using assms(1) by (simp_all only: code) (simp_all add: start_failed_fields start_code_nonzero)
  next
    assume r: "r = Create_started pid now None"
    obtain s where s: "state_start pid True now None ?c = (s, None)"
      using state_start_fields(6) [of pid True now None ?c] by (cases "state_start pid True now None ?c") simp
    then have "e = None" "c' = fst (state_start pid True now None ?c)"
      using start assms(3) r by (auto simp: StateChanged_def)
    then show "e = None" "cs_Running (ct_state c')" "cs_Pid (ct_state c') = pid" "cs_ExitCode (ct_state c') = 0"
      "cs_StartedAt (ct_state c') = now"
      by (simp_all add: state_start_def Let_def LogContainerEvent_def SetRunning_def initHealthMonitor_def
          updateHealthMonitor_def stopHealthchecks_def split: option.split)
  next
    assume r: "r = Create_started pid now (Some d)"
    define c2 where "c2 = (on_state (SetRunning pid True now) ?c)\<lparr>ct_manual := False, ct_before := True\<rparr>"
    have "c' = start_failed (start_message d) (on_state (start_exit_code (ct_path c2) d) c2)"
        "e = Some (StartError (start_message d))"
      using start assms(3) r by (simp_all add: StateChanged_def state_start_failing c2_def)
    moreover have "cs_Running (ct_state c2)" "cs_Pid (ct_state c2) = pid" by (simp_all add: c2_def)
    ultimately show "e = Some (StartError (start_message d))" "cs_Running (ct_state c')" "cs_Pid (ct_state c') = pid"
      "cs_ExitCode (ct_state c') \<noteq> 0"
      by (simp_all only: code) (simp_all add: start_failed_fields start_code_nonzero)
  next
    assume "r = Create_no_spec"
    then show "e = None" "\<not> cs_Running (ct_state c')" "cs_Pid (ct_state c') = cs_Pid (ct_state c)"
      using start assms(1,3) by auto
  }
qed

definition ex_stopped_ctr :: ctr where
  "ex_stopped_ctr = new_ctr \<lparr>rp_Name = ''no'', rp_MaximumRetryCount = 0\<rparr> False None ''/bin/x'' ''''"

theorem start_outcomes_witness:
  "cs_ExitCode (ct_state (fst (containerStart True None (Create_failed ''exec: /bin/x: permission denied'') ex_stopped_ctr))) = 126 \<and>
   snd (containerStart True None Create_no_spec ex_stopped_ctr) = None"
proof -
  have c: "\<not> cs_Running (ct_state ex_stopped_ctr)" "startable ex_stopped_ctr" by code_simp+
  have "start_code (ct_path ex_stopped_ctr) ''exec: /bin/x: permission denied'' (cs_ExitCode (ct_state ex_stopped_ctr)) = 126"
    by code_simp
  then have A: "cs_ExitCode (ct_state c') = 126"
    if "containerStart True None (Create_failed ''exec: /bin/x: permission denied'') ex_stopped_ctr = (c', e)" for c' e
    using start_outcomes [OF c that, of "''exec: /bin/x: permission denied''" 0 0] by simp
  have B: "e = None" if "containerStart True None Create_no_spec ex_stopped_ctr = (c', e)" for c' e
    using start_outcomes [OF c that, of "''''" 0 0] by simp
  show ?thesis using A [OF surjective_pairing] B [OF surjective_pairing] by blast
qed

section \<open>Stopping\<close>

lemma killWithSignal_wait: "cs_wait (ct_state (fst (killWithSignal sigs sd sig sent c))) = cs_wait (ct_state c)"
  by (auto simp: killWithSignal_def Let_def ExitOnNext_def get_RestartManager_def LogContainerEvent_def split: option.split)

lemma killWithSignal_not_ESRCH: "snd (killWithSignal sigs sd sig sent c) \<noteq> Some ESRCH" "snd (killWithSignal sigs sd sig sent c) \<noteq> Some NoSuchProcess"
  by (auto simp: killWithSignal_def Let_def split: option.split)

lemma killPossiblyDead_is_kill:
  "killPossiblyDeadProcess env sig c = killWithSignal (sv_signals env) (sv_shutdown env) sig (sv_sent env sig) c"
  using killWithSignal_not_ESRCH [of "sv_signals env" "sv_shutdown env" sig "sv_sent env sig" c]
  by (cases "killWithSignal (sv_signals env) (sv_shutdown env) sig (sv_sent env sig) c") (auto simp: killPossiblyDeadProcess_def)

text \<open>
  A truthful environment: a wait that ended, or has no timeout, saw the container stopped, and
  the channels of past runs stay closed.
\<close>

definition ended_since :: "nat \<Rightarrow> ctr \<Rightarrow> bool" where
  "ended_since ch c \<longleftrightarrow> \<not> cs_Running (ct_state c) \<or> wait_closed ch (ct_state c)"

definition truthful :: "stop_env \<Rightarrow> bool" where
  "truthful env \<longleftrightarrow>
     (\<forall>p t c. cs_wait (ct_state c) \<le> cs_wait (ct_state (fst (sv_wait env p t c))) \<and>
        (snd (sv_wait env p t c) \<or> t < 0 \<longrightarrow>
           \<not> cs_Running (ct_state c) \<and> fst (sv_wait env p t c) = c \<or>
           cs_wait (ct_state c) < cs_wait (ct_state (fst (sv_wait env p t c)))))"

lemma truthful_mono: "truthful env \<Longrightarrow> sv_wait env p t c = (c', b) \<Longrightarrow> cs_wait (ct_state c) \<le> cs_wait (ct_state c')"
  by (metis fst_conv truthful_def)

lemma truthful_ended:
  "truthful env \<Longrightarrow> sv_wait env p t c = (c', b) \<Longrightarrow> b \<or> t < 0 \<Longrightarrow> ch \<le> cs_wait (ct_state c) \<Longrightarrow> ended_since ch c'"
  unfolding ended_since_def wait_closed_def by (metis fst_conv snd_conv truthful_def le_less_trans order_le_less)

lemma kill_mono: "killPossiblyDeadProcess env sig c = (c', e) \<Longrightarrow> cs_wait (ct_state c') = cs_wait (ct_state c)"
  using killWithSignal_wait by (metis fst_conv killPossiblyDead_is_kill)

lemma killDirectly_mono:
  assumes "truthful env" "killProcessDirectly env p c = (c', e)"
  shows "cs_wait (ct_state c) \<le> cs_wait (ct_state c')"
    and "e = Some NoSuchProcess \<Longrightarrow> \<exists>pid. sv_kill env pid = Kill_ESRCH"
  using assms(2) truthful_mono [OF assms(1)]
  by (auto simp: killProcessDirectly_def split: prod.splits if_splits kill_result.splits)

lemma Kill_wait_ended:
  assumes "truthful env" "\<forall>pid. sv_kill env pid \<noteq> Kill_ESRCH" "ch \<le> cs_wait (ct_state c)" "Kill_wait env p c = (c', None)"
  shows "ended_since ch c'"
proof -
  obtain c1 e where k: "killProcessDirectly env (p + 1) c = (c1, e)" by (cases "killProcessDirectly env (p + 1) c")
  have m: "ch \<le> cs_wait (ct_state c1)" using killDirectly_mono(1) [OF assms(1) k] assms(3) by simp
  have "e = None" using assms(2,4) k killDirectly_mono(2) [OF assms(1) k]
    by (cases e) (auto simp: Kill_wait_def split: if_splits)
  then have "c' = fst (sv_wait env (p + 2) (-1) c1)" using assms(4) k by (simp add: Kill_wait_def)
  then show ?thesis using truthful_ended [OF assms(1), of "p + 2" "-1" c1] m by (metis prod.collapse neg_less_0_iff_less zero_less_one)
qed

lemma Kill_ended:
  assumes "truthful env" "\<forall>pid. sv_kill env pid \<noteq> Kill_ESRCH" "ch \<le> cs_wait (ct_state c)" "Kill env p c = (c', None)"
  shows "ended_since ch c'"
proof -
  obtain c1 e where k: "killPossiblyDeadProcess env 9 c = (c1, e)" by (cases "killPossiblyDeadProcess env 9 c")
  have m: "ch \<le> cs_wait (ct_state c1)" using kill_mono [OF k] assms(3) by simp
  show ?thesis
  proof (cases e)
    case None
    then show ?thesis using Kill_wait_ended [OF assms(1,2) m] assms(4) k by (simp add: Kill_def split: if_splits)
  next
    case (Some er)
    obtain c2 b where w: "sv_wait env p 2 c1 = (c2, b)" by (cases "sv_wait env p 2 c1")
    have "er \<noteq> NoSuchProcess" using k Some killWithSignal_not_ESRCH(2) by (metis killPossiblyDead_is_kill snd_conv)
    then have "Kill_wait env p c2 = (c', None)" using assms(4) k Some w by (simp add: Kill_def split: if_splits)
    moreover have "ch \<le> cs_wait (ct_state c2)" using truthful_mono [OF assms(1) w] m by simp
    ultimately show ?thesis using Kill_wait_ended [OF assms(1,2)] by blast
  qed
qed

lemma Kill_mono:
  assumes "truthful env" "Kill env p c = (c', e)"
  shows "cs_wait (ct_state c) \<le> cs_wait (ct_state c')"
proof -
  have W: "cs_wait (ct_state c1) \<le> cs_wait (ct_state c2)" if "Kill_wait env p c1 = (c2, e2)" for c1 c2 e2
    using that killDirectly_mono(1) [OF assms(1)] truthful_mono [OF assms(1)]
    by (auto simp: Kill_wait_def split: prod.splits option.splits) (metis fst_conv le_trans prod.collapse)
  show ?thesis using assms(2) kill_mono [of env 9 c] truthful_mono [OF assms(1)] W
    by (fastforce simp: Kill_def split: prod.splits option.splits if_splits dest: le_trans)
qed

lemma stop_finish_ended:
  assumes "truthful env" "\<forall>pid. sv_kill env pid \<noteq> Kill_ESRCH" "ch \<le> cs_wait (ct_state c)"
  shows "snd (stop_finish env seconds c) = None" "ended_since ch (fst (stop_finish env seconds c))"
proof -
  obtain c1 b where w: "sv_wait env 1 seconds c = (c1, b)" by (cases "sv_wait env 1 seconds c")
  have m: "ch \<le> cs_wait (ct_state c1)" using truthful_mono [OF assms(1) w] assms(3) by simp
  obtain c3 e where k: "Kill env 2 c1 = (c3, e)" by (cases "Kill env 2 c1")
  have "ended_since ch c1" if b using truthful_ended [OF assms(1) w] that assms(3) by blast
  moreover have "ended_since ch c3" if "e = None" using Kill_ended [OF assms(1,2) m] k that by blast
  moreover have "ended_since ch (fst (sv_wait env 5 (-1) c3))"
    using truthful_ended [OF assms(1), of 5 "-1" c3 "fst (sv_wait env 5 (-1) c3)" "snd (sv_wait env 5 (-1) c3)" ch]
      Kill_mono [OF assms(1) k] m by simp
  ultimately show "ended_since ch (fst (stop_finish env seconds c))"
    using w k by (cases e) (simp_all add: stop_finish_def Let_def ended_since_def LogContainerEvent_def)
  show "snd (stop_finish env seconds c) = None" by (simp add: stop_finish_def Let_def split: prod.split)
qed

text \<open>
  C25. A stop that returns without error returns only after the container's run has ended: the
  container does not run, or it ended since the call and was started anew. This holds for
  every answer to the signals and every timeout, even when the kill at the end fails, if the
  waits are truthful; the exception is a process that the direct kill finds gone.
\<close>

theorem stop_waits_for_end:
  assumes "truthful env" "\<forall>pid. sv_kill env pid \<noteq> Kill_ESRCH" "containerStop env seconds c = (c', None)"
  shows "\<not> cs_Running (ct_state c') \<or> wait_closed (cs_wait (ct_state c)) (ct_state c')"
proof (cases "cs_Running (ct_state c)")
  case False
  then show ?thesis using assms(3) by (simp add: containerStop_def)
next
  case True
  let ?ch = "cs_wait (ct_state c)" and ?c0 = "on_state stopHealthchecks c"
  have fin: "ended_since ?ch c'" if "stop_finish env seconds c1 = (c', None)" "?ch \<le> cs_wait (ct_state c1)" for c1
    using stop_finish_ended(2) [OF assms(1,2) that(2), of seconds] that(1) by simp
  obtain c1 e where k: "killPossiblyDeadProcess env (StopSignal (sv_signals env) ?c0) ?c0 = (c1, e)" by fastforce
  have m: "?ch \<le> cs_wait (ct_state c1)" using kill_mono [OF k] by simp
  obtain c2 b where w: "sv_wait env 0 2 c1 = (c2, b)" by (cases "sv_wait env 0 2 c1")
  have m2: "?ch \<le> cs_wait (ct_state c2)" using truthful_mono [OF assms(1) w] m by simp
  obtain c3 e3 where k3: "killPossiblyDeadProcess env 9 c2 = (c3, e3)" by fastforce
  have m3: "?ch \<le> cs_wait (ct_state c3)" using kill_mono [OF k3] m2 by simp
  have "ended_since ?ch c'"
    using assms(3) True k w k3 fin m m2 m3
    by (cases e; cases e3; auto simp: containerStop_def Let_def split: if_splits)
  then show ?thesis by (simp add: ended_since_def)
qed

definition ex_env :: stop_env where
  "ex_env = \<lparr>sv_wait = (\<lambda>p t c. if cs_Running (ct_state c) \<and> \<not> (t < 0 \<or> 5 \<le> t) then (c, False)
        else if cs_Running (ct_state c) then (on_state (SetStopped \<lparr>es_ExitCode = 0, es_OOMKilled = False\<rparr> 9) c, True) else (c, True)),
     sv_sent = (\<lambda>sig. None), sv_kill = (\<lambda>pid. Killed), sv_shutdown = False, sv_signals = (\<lambda>s. Some 15)\<rparr>"

theorem stop_waits_for_end_witness:
  "\<exists>c'. containerStop ex_env 10 (on_state (SetRunning 7 True 1) ex_stopped_ctr) = (c', None) \<and>
     (\<not> cs_Running (ct_state c') \<or> wait_closed 0 (ct_state c'))"
proof -
  let ?c = "on_state (SetRunning 7 True 1) ex_stopped_ctr"
  have t: "truthful ex_env" "\<forall>pid. sv_kill ex_env pid \<noteq> Kill_ESRCH" by (auto simp: truthful_def ex_env_def)
  have w: "cs_wait (ct_state ?c) = 0" by code_simp
  have "snd (containerStop ex_env 10 ?c) = None" by code_simp
  then have r: "containerStop ex_env 10 ?c = (fst (containerStop ex_env 10 ?c), None)" by (metis prod.collapse)
  show ?thesis using stop_waits_for_end [OF t r, unfolded w] r by blast
qed

section \<open>Updating\<close>

text \<open>CPU time is given either as a number of CPUs or as a period and quota.\<close>

definition cpu_ok :: "resources \<Rightarrow> bool" where
  "cpu_ok r \<longleftrightarrow> \<not> (rs_NanoCPUs r > 0 \<and> (rs_CPUPeriod r > 0 \<or> rs_CPUQuota r > 0))"

lemma update_cpu_ok:
  assumes "cpu_ok r" "cpu_ok cr" "update_conflict r cr = None"
  shows "cpu_ok (update_memory r (update_cpu r cr))"
  using assms by (auto simp: cpu_ok_def update_memory_def update_cpu_def upd_int_def update_conflict_def split: if_splits)

lemma get_rm_manager:
  "ct_rm (fst (get_RestartManager c)) = Some (snd (get_RestartManager c))"
  by (simp add: get_RestartManager_def Let_def split: option.split)

lemma UpdateMonitor_fields [simp]:
  "ct_policy (UpdateMonitor p c) = ct_policy c" "ct_state (UpdateMonitor p c) = ct_state c"
  "ct_autoRemove (UpdateMonitor p c) = ct_autoRemove c"
  by (auto simp: UpdateMonitor_def get_RestartManager_def Let_def split: option.split)

lemma UpdateMonitor_policy: "\<exists>rm. ct_rm (UpdateMonitor p c) = Some rm \<and> rm_policy rm = p"
  by (auto simp: UpdateMonitor_def SetPolicy_def split: prod.split)

text \<open>
  An update either takes effect or leaves the configuration alone. After success every given
  setting has its new value and every other its old one, CPU time is still given in one way
  only, a memory limit set without a swap limit is within the swap limit, a container that is
  removed at its end has no restart policy of its own, and the restart manager follows the new
  policy. After an error resources and policy are the old ones.
\<close>

theorem update_result:
  assumes "ContainerUpdate r p disk res cr c = ((cr', c'), e)" "cpu_ok r" "cpu_ok cr"
    and "ct_autoRemove c \<longrightarrow> IsNone (ct_policy c)"
  shows "(e = None \<longrightarrow>
            cr' = update_memory r (update_cpu r cr) \<and> cpu_ok cr' \<and>
            (rs_Memory r \<noteq> 0 \<longrightarrow> rs_MemorySwap r = 0 \<longrightarrow> rs_Memory cr' \<le> rs_MemorySwap cr') \<and>
            ct_policy c' = (if rp_Name p = '''' then ct_policy c else p) \<and>
            (rp_Name p \<noteq> '''' \<longrightarrow> (\<exists>rm. ct_rm c' = Some rm \<and> rm_policy rm = p)) \<and>
            (ct_autoRemove c' \<longrightarrow> IsNone (ct_policy c'))) \<and>
         (e \<noteq> None \<longrightarrow> cr' = cr \<and> ct_policy c' = ct_policy c)"
proof (cases "cs_RemovalInProgress (ct_state c) \<or> cs_Dead (ct_state c)")
  case True
  then show ?thesis using assms(1) by (auto simp: ContainerUpdate_def)
next
  case False
  obtain cr1 c1 e1 where u: "UpdateContainer r p disk cr c = ((cr1, c1), e1)"
    by (metis prod.collapse)
  show ?thesis
  proof (cases e1)
    case (Some er)
    then show ?thesis using assms(1) False u by (auto simp: ContainerUpdate_def)
  next
    case None
    have nc: "update_conflict r cr = None" using u None by (cases "update_conflict r cr") (auto simp: UpdateContainer_def)
    have mem: "\<not> (rs_Memory r \<noteq> 0 \<and> rs_Memory r > rs_MemorySwap (update_cpu r cr) \<and> rs_MemorySwap r = 0)"
      using u None nc by (auto simp: UpdateContainer_def Let_def split: if_splits)
    have cr1: "cr1 = update_memory r (update_cpu r cr)" and c1: "c1 = (if rp_Name p \<noteq> '''' then c\<lparr>ct_policy := p\<rparr> else c)"
      and ar: "rp_Name p \<noteq> '''' \<longrightarrow> ct_autoRemove c \<longrightarrow> IsNone p"
      using u None nc mem by (auto simp: UpdateContainer_def Let_def split: if_splits)
    let ?c2 = "if rp_Name p \<noteq> '''' then UpdateMonitor p c1 else c1"
    define failed where "failed = (if cs_Running (ct_state ?c2) \<and> \<not> cs_Restarting (ct_state ?c2) then res else None)"
    have r: "((cr', c'), e) = (case failed of
         Some msg \<Rightarrow> ((cr, ?c2\<lparr>ct_policy := ct_policy c\<rparr>), Some (UpdateResourcesError msg))
       | None \<Rightarrow> ((cr1, LogContainerEvent ''update'' ?c2), None))"
      using assms(1) False u None by (simp add: ContainerUpdate_def failed_def Let_def)
    show ?thesis
    proof (cases failed)
      case (Some msg)
      then show ?thesis using r by simp
    next
      case None
      have "rs_Memory cr1 \<le> rs_MemorySwap cr1" if "rs_Memory r \<noteq> 0" "rs_MemorySwap r = 0"
        using mem that by (simp add: cr1 update_memory_def upd_int_def)
      then show ?thesis
        using r None cr1 c1 ar assms(4) update_cpu_ok [OF assms(2,3) nc] UpdateMonitor_policy [of p c1]
        by (auto simp: LogContainerEvent_def)
    qed
  qed
qed

definition ex_resources :: resources where
  "ex_resources = \<lparr>rs_NanoCPUs = 0, rs_CPUPeriod = 0, rs_CPUQuota = 0, rs_BlkioWeight = 0, rs_CPUShares = 0,
     rs_CpusetCpus = '''', rs_CpusetMems = '''', rs_Memory = 0, rs_MemorySwap = 0, rs_MemoryReservation = 0, rs_KernelMemory = 0\<rparr>"

theorem update_result_witness:
  "rs_CPUShares (fst (fst (ContainerUpdate (ex_resources\<lparr>rs_CPUShares := 512\<rparr>) (ct_policy ex_stopped_ctr) None None
     ex_resources ex_stopped_ctr))) = 512"
proof -
  let ?u = "ContainerUpdate (ex_resources\<lparr>rs_CPUShares := 512\<rparr>) (ct_policy ex_stopped_ctr) None None ex_resources ex_stopped_ctr"
  have u: "?u = ((fst (fst ?u), snd (fst ?u)), snd ?u)" by simp
  have h: "cpu_ok (ex_resources\<lparr>rs_CPUShares := 512\<rparr>)" "cpu_ok ex_resources"
    "ct_autoRemove ex_stopped_ctr \<longrightarrow> IsNone (ct_policy ex_stopped_ctr)" "snd ?u = None" by code_simp+
  have "fst (fst ?u) = update_memory (ex_resources\<lparr>rs_CPUShares := 512\<rparr>) (update_cpu (ex_resources\<lparr>rs_CPUShares := 512\<rparr>) ex_resources)"
    using update_result [OF u h(1,2,3)] h(4) by blast
  then show ?thesis by (simp add: update_memory_def update_cpu_def upd_int_def)
qed

text \<open>
  When containerd refuses the new resources of a running container, the update fails and the
  stored restart policy is the old one again, but the container's restart manager keeps the
  policy of the failed update, and the next exit is decided by it.
\<close>

theorem failed_update_keeps_policy:
  assumes "ContainerUpdate r p disk (Some msg) cr c = ((cr', c'), Some (UpdateResourcesError msg))" "rp_Name p \<noteq> ''''"
  shows "ct_policy c' = ct_policy c \<and> rm_policy (snd (get_RestartManager c')) = p \<and>
     (snd (exit_decision code now c') = Inr True \<longrightarrow>
        policy_restarts p code (ct_manual c') (rm_count (snd (get_RestartManager c'))))"
proof -
  have nr: "\<not> (cs_RemovalInProgress (ct_state c) \<or> cs_Dead (ct_state c))" using assms(1) by (auto simp: ContainerUpdate_def)
  obtain cr1 c1 e1 where u: "UpdateContainer r p disk cr c = ((cr1, c1), e1)" by (metis prod.collapse)
  have "e1 = None"
  proof (rule ccontr)
    assume "e1 \<noteq> None"
    then have "e1 = Some (UpdateResourcesError msg)" using assms(1) nr u by (auto simp: ContainerUpdate_def)
    then show False using u by (auto simp: UpdateContainer_def update_conflict_def Let_def split: if_splits option.splits)
  qed
  then have c': "c' = (UpdateMonitor p c1)\<lparr>ct_policy := ct_policy c\<rparr>"
    using assms nr u by (auto simp: ContainerUpdate_def Let_def split: if_splits option.splits)
  obtain rm where rm: "ct_rm (UpdateMonitor p c1) = Some rm" "rm_policy rm = p" using UpdateMonitor_policy by blast
  have g: "snd (get_RestartManager c') = rm" using rm by (simp add: c' get_RestartManager_def)
  have "policy_restarts p code (ct_manual c') (rm_count rm)" if "snd (exit_decision code now c') = Inr True"
    using ShouldRestart_true(6) [OF that [unfolded exit_decision_def]] g rm(2) by simp
  then show ?thesis using g rm(2) by (auto simp: c')
qed

theorem failed_update_keeps_policy_witness:
  "rm_policy (snd (get_RestartManager (snd (fst (ContainerUpdate ex_resources \<lparr>rp_Name = ''always'', rp_MaximumRetryCount = 0\<rparr> None
     (Some ''refused'') ex_resources (on_state (SetRunning 7 True 1) ex_stopped_ctr)))))) = \<lparr>rp_Name = ''always'', rp_MaximumRetryCount = 0\<rparr>"
proof -
  let ?p = "\<lparr>rp_Name = ''always'', rp_MaximumRetryCount = 0\<rparr>"
  let ?u = "ContainerUpdate ex_resources ?p None (Some ''refused'') ex_resources (on_state (SetRunning 7 True 1) ex_stopped_ctr)"
  have "?u = ((fst (fst ?u), snd (fst ?u)), Some (UpdateResourcesError ''refused''))" by code_simp
  from failed_update_keeps_policy [OF this] show ?thesis by simp
qed

end
