(* ===== verification/DigestSet.thy ===== *)
theory DigestSet
  imports FileStore
begin

text \<open>
  The set of digests with lookup by a prefix of the hexadecimal part, from
  digestset/set.go of the distribution package, and the binary search it uses. An entry is
  the digest; its algorithm and its hexadecimal part are read off it.
\<close>

section \<open>Binary search\<close>

text \<open>Go's \<^verbatim>\<open>sort.Search\<close>.\<close>

function search_between :: "(nat \<Rightarrow> bool) \<Rightarrow> nat \<Rightarrow> nat \<Rightarrow> nat" where
  "search_between f i j =
     (if i < j then (let h = (i + j) div 2 in if \<not> f h then search_between f (h + 1) j else search_between f i h)
      else i)"
  by pat_completeness auto

termination by (relation "measure (\<lambda>(f, i, j). j - i)") auto

declare search_between.simps [simp del]

definition sort_search :: "nat \<Rightarrow> (nat \<Rightarrow> bool) \<Rightarrow> nat" where
  "sort_search n f = search_between f 0 n"

lemma search_between_first:
  assumes mono: "\<And>p q. p \<le> q \<Longrightarrow> q < n \<Longrightarrow> f p \<Longrightarrow> f q"
    and "i \<le> j" "j \<le> n" "\<forall>p < i. \<not> f p" "\<forall>p. j \<le> p \<and> p < n \<longrightarrow> f p"
  shows "search_between f i j \<le> n \<and> (\<forall>p < search_between f i j. \<not> f p) \<and>
     (\<forall>p. search_between f i j \<le> p \<and> p < n \<longrightarrow> f p)"
  using assms(2-)
proof (induction "j - i" arbitrary: i j rule: less_induct)
  case less
  show ?case
  proof (cases "i < j")
    case False
    then have "search_between f i j = i" by (subst search_between.simps) simp
    then show ?thesis using less.prems False by simp
  next
    case True
    define h where "h = (i + j) div 2"
    have h: "i \<le> h" "h < j" using True by (auto simp: h_def)
    show ?thesis
    proof (cases "f h")
      case f: True
      have "\<forall>p. h \<le> p \<and> p < n \<longrightarrow> f p" using f mono by blast
      then have "search_between f i h \<le> n \<and> (\<forall>p < search_between f i h. \<not> f p) \<and>
          (\<forall>p. search_between f i h \<le> p \<and> p < n \<longrightarrow> f p)"
        using less.prems h by (intro less.hyps) auto
      moreover have "search_between f i j = search_between f i h"
        using True f by (subst search_between.simps) (simp add: Let_def h_def)
      ultimately show ?thesis by simp
    next
      case f: False
      have "\<forall>p < h + 1. \<not> f p" using f mono [of _ h] h less.prems by (metis Suc_eq_plus1 less_Suc_eq_le less_le_trans)
      then have "search_between f (h + 1) j \<le> n \<and> (\<forall>p < search_between f (h + 1) j. \<not> f p) \<and>
          (\<forall>p. search_between f (h + 1) j \<le> p \<and> p < n \<longrightarrow> f p)"
        using less.prems h by (intro less.hyps) auto
      moreover have "search_between f i j = search_between f (h + 1) j"
        using True f by (subst search_between.simps) (simp add: Let_def h_def)
      ultimately show ?thesis by simp
    qed
  qed
qed

lemma search_between_le: "i \<le> j \<Longrightarrow> search_between f i j \<le> j"
proof (induction "j - i" arbitrary: i j rule: less_induct)
  case less
  let ?h = "(i + j) div 2"
  have "search_between f i j =
      (if i < j then (if \<not> f ?h then search_between f (?h + 1) j else search_between f i ?h) else i)"
    by (subst search_between.simps) (simp add: Let_def)
  moreover have "i < j \<Longrightarrow> search_between f (?h + 1) j \<le> j" "i < j \<Longrightarrow> search_between f i ?h \<le> ?h"
    by (rule less.hyps; simp)+
  ultimately show ?case using less.prems by (auto intro: order_trans)
qed

lemma sort_search_le: "sort_search n f \<le> n"
  by (simp add: sort_search_def search_between_le)

lemma sort_search_first:
  assumes "\<forall>p q. p \<le> q \<longrightarrow> q < n \<longrightarrow> f p \<longrightarrow> f q"
  shows "sort_search n f \<le> n" "p < sort_search n f \<Longrightarrow> \<not> f p" "sort_search n f \<le> p \<Longrightarrow> p < n \<Longrightarrow> f p"
proof -
  have "search_between f 0 n \<le> n \<and> (\<forall>p < search_between f 0 n. \<not> f p) \<and>
     (\<forall>p. search_between f 0 n \<le> p \<and> p < n \<longrightarrow> f p)"
    by (rule search_between_first) (use assms in auto)
  then show "sort_search n f \<le> n" "p < sort_search n f \<Longrightarrow> \<not> f p" "sort_search n f \<le> p \<Longrightarrow> p < n \<Longrightarrow> f p"
    by (simp_all add: sort_search_def)
qed

section \<open>The set\<close>

type_synonym digestset = "string list"

datatype digest_error = ErrDigestNotFound | ErrDigestAmbiguous | ErrDigestInvalid

definition dg_alg :: "string \<Rightarrow> string" where
  "dg_alg d = fst (split_first (CHR '':'') d)"

definition dg_hex :: "string \<Rightarrow> string" where
  "dg_hex d = (case snd (split_first (CHR '':'') d) of None \<Rightarrow> '''' | Some h \<Rightarrow> h)"

definition alg_char :: "char \<Rightarrow> bool" where
  "alg_char c = (rune_letter c \<and> (of_char c :: nat) < 128 \<or> rune_digit c \<or> c \<in> set ''-_+.'')"

text \<open>The format that \<^verbatim>\<open>Parse\<close> checks first; its other errors do not matter to a lookup.\<close>

definition digest_format :: "string \<Rightarrow> bool" where
  "digest_format s =
     (case split_first (CHR '':'') s of
        (alg, None) \<Rightarrow> False
      | (alg, Some hex) \<Rightarrow> alg \<noteq> '''' \<and> list_all alg_char alg \<and> hex \<noteq> '''' \<and> list_all hex_char_any hex)"

definition checkShortMatch :: "string \<Rightarrow> string \<Rightarrow> string \<Rightarrow> string \<Rightarrow> bool" where
  "checkShortMatch alg hex shortAlg shortHex =
     (if length hex = length shortHex then
        (if hex \<noteq> shortHex then False else if length shortAlg > 0 \<and> alg \<noteq> shortAlg then False else True)
      else if \<not> prefix shortHex hex then False
      else if length shortAlg > 0 \<and> alg \<noteq> shortAlg then False
      else True)"

definition ds_Lookup :: "string \<Rightarrow> digestset \<Rightarrow> digest_error + string" where
  "ds_Lookup d es =
     (if es = [] then Inl ErrDigestNotFound
      else
       (let alg = (if digest_format d then dg_alg d else '''');
            hex = (if digest_format d then dg_hex d else d);
            f = (if digest_format d
                 then (\<lambda>i. if dg_hex (es ! i) = hex then dg_alg (es ! i) \<ge> alg else dg_hex (es ! i) \<ge> hex)
                 else (\<lambda>i. dg_hex (es ! i) \<ge> d));
            idx = sort_search (length es) f
        in if idx = length es \<or> \<not> checkShortMatch (dg_alg (es ! idx)) (dg_hex (es ! idx)) alg hex
           then Inl ErrDigestNotFound
           else if dg_alg (es ! idx) = alg \<and> dg_hex (es ! idx) = hex then Inr (es ! idx)
           else if idx + 1 < length es \<and> checkShortMatch (dg_alg (es ! (idx + 1))) (dg_hex (es ! (idx + 1))) alg hex
           then Inl ErrDigestAmbiguous
           else Inr (es ! idx)))"

definition entry_index :: "string \<Rightarrow> digestset \<Rightarrow> nat" where
  "entry_index d es =
     sort_search (length es) (\<lambda>i. if dg_hex (es ! i) = dg_hex d then dg_alg (es ! i) \<ge> dg_alg d else dg_hex (es ! i) \<ge> dg_hex d)"

definition ds_Add :: "string \<Rightarrow> digestset \<Rightarrow> digestset \<times> digest_error option" where
  "ds_Add d es =
     (if \<not> digest_valid d then (es, Some ErrDigestInvalid)
      else
       (let idx = entry_index d es
        in if idx = length es then (es @ [d], None)
           else if es ! idx = d then (es, None)
           else (take idx es @ d # drop idx es, None)))"

definition ds_Remove :: "string \<Rightarrow> digestset \<Rightarrow> digestset \<times> digest_error option" where
  "ds_Remove d es =
     (if \<not> digest_valid d then (es, Some ErrDigestInvalid)
      else
       (let idx = entry_index d es
        in if idx = length es \<or> es ! idx \<noteq> d then (es, None)
           else (take idx es @ drop (Suc idx) es, None)))"

section \<open>Sets of one algorithm\<close>

text \<open>The entries are in the order of their hexadecimal parts, without duplicates.\<close>

definition ds_wf :: "string \<Rightarrow> digestset \<Rightarrow> bool" where
  "ds_wf A es \<longleftrightarrow> sorted_wrt (<) (map dg_hex es) \<and> (\<forall>d \<in> set es. digest_valid d \<and> dg_alg d = A)"

lemma ds_wfD:
  assumes "ds_wf A es"
  shows "i < j \<Longrightarrow> j < length es \<Longrightarrow> dg_hex (es ! i) < dg_hex (es ! j)"
    and "i \<le> j \<Longrightarrow> j < length es \<Longrightarrow> dg_hex (es ! i) \<le> dg_hex (es ! j)"
    and "i < length es \<Longrightarrow> dg_alg (es ! i) = A" "d \<in> set es \<Longrightarrow> digest_valid d"
  using assms by (auto simp: ds_wf_def sorted_wrt_map sorted_wrt_iff_nth_less le_less)

lemma digest_parts: "digest_valid d \<Longrightarrow> d = dg_alg d @ CHR '':'' # dg_hex d"
  by (auto simp: digest_valid_def dg_alg_def dg_hex_def split: prod.splits option.splits dest: split_first_Some)

lemma digest_length: "digest_valid d \<Longrightarrow> digest_hex_len (dg_alg d) = Some (length (dg_hex d))"
  by (auto simp: digest_valid_def dg_alg_def dg_hex_def split: prod.splits option.splits)

lemma digest_eq: "digest_valid d \<Longrightarrow> digest_valid e \<Longrightarrow> dg_alg d = dg_alg e \<Longrightarrow> dg_hex d = dg_hex e \<Longrightarrow> d = e"
  using digest_parts by metis

lemma hex_mono:
  assumes "ds_wf A es" "p \<le> q" "q < length es"
  shows "(h :: string) \<le> dg_hex (es ! p) \<Longrightarrow> h \<le> dg_hex (es ! q)"
  using ds_wfD(2) [OF assms] by simp

lemma entry_index_wf:
  assumes "ds_wf A es" "dg_alg d = A"
  shows "entry_index d es \<le> length es"
    and "p < entry_index d es \<Longrightarrow> dg_hex (es ! p) < dg_hex d"
    and "entry_index d es \<le> p \<Longrightarrow> p < length es \<Longrightarrow> dg_hex d \<le> dg_hex (es ! p)"
proof -
  let ?f = "\<lambda>i. if dg_hex (es ! i) = dg_hex d then dg_alg (es ! i) \<ge> dg_alg d else dg_hex (es ! i) \<ge> dg_hex d"
  have f: "?f i \<longleftrightarrow> dg_hex d \<le> dg_hex (es ! i)" if "i < length es" for i
    using ds_wfD(3) [OF assms(1) that] assms(2) by auto
  have mono: "\<forall>p q. p \<le> q \<longrightarrow> q < length es \<longrightarrow> ?f p \<longrightarrow> ?f q"
    using f hex_mono [OF assms(1), of _ _ "dg_hex d"] by (meson le_less_trans)
  have idx: "entry_index d es = sort_search (length es) ?f" by (simp add: entry_index_def)
  show le: "entry_index d es \<le> length es" unfolding idx by (rule sort_search_first(1) [OF mono])
  show "entry_index d es \<le> p \<Longrightarrow> p < length es \<Longrightarrow> dg_hex d \<le> dg_hex (es ! p)"
    using sort_search_first(3) [of "length es" ?f, OF mono] f [of p] unfolding idx by blast
  show "dg_hex (es ! p) < dg_hex d" if "p < entry_index d es"
  proof -
    have "p < length es" using that le by simp
    moreover have "\<not> ?f p" using sort_search_first(2) [OF mono] that unfolding idx .
    ultimately show ?thesis using f [of p] by (simp add: not_le)
  qed
qed

lemma digest_index:
  assumes "ds_wf A es" "digest_valid d" "dg_alg d = A" "d \<in> set es"
  shows "entry_index d es < length es" "es ! entry_index d es = d"
proof -
  obtain p where p: "p < length es" "es ! p = d" using assms(4) by (auto simp: in_set_conv_nth)
  note E = entry_index_wf [OF assms(1,3)]
  have "\<not> p < entry_index d es" using E(2) [of p] p by auto
  then show lt: "entry_index d es < length es" using p by simp
  have "dg_hex d \<le> dg_hex (es ! entry_index d es)" using E(3) [of "entry_index d es"] lt by simp
  moreover have "dg_hex (es ! entry_index d es) \<le> dg_hex d"
    using ds_wfD(2) [OF assms(1), of "entry_index d es" p] p \<open>\<not> p < entry_index d es\<close> by simp
  ultimately have "dg_hex (es ! entry_index d es) = dg_hex d" by simp
  then show "es ! entry_index d es = d"
    using digest_eq ds_wfD(3) [OF assms(1) lt] ds_wfD(4) [OF assms(1) nth_mem [OF lt]] assms(2,3) by metis
qed

lemma ds_Add_ok:
  assumes wf: "ds_wf A es" and d: "digest_valid d" "dg_alg d = A"
  shows "ds_wf A (fst (ds_Add d es))" "set (fst (ds_Add d es)) = insert d (set es)" "snd (ds_Add d es) = None"
proof -
  let ?i = "entry_index d es"
  note E = entry_index_wf [OF wf d(2)]
  show "snd (ds_Add d es) = None" using d by (simp add: ds_Add_def Let_def)
  have "ds_wf A (fst (ds_Add d es)) \<and> set (fst (ds_Add d es)) = insert d (set es)"
  proof (cases "d \<in> set es")
    case True
    then show ?thesis using digest_index [OF wf d True] d wf by (auto simp: ds_Add_def Let_def)
  next
    case False
    have ne: "?i < length es \<Longrightarrow> es ! ?i \<noteq> d" using False nth_mem by metis
    have r: "fst (ds_Add d es) = take ?i es @ d # drop ?i es" using d ne E(1) by (simp add: ds_Add_def Let_def)
    have lo: "dg_hex x < dg_hex d" if x: "x \<in> set (take ?i es)" for x
    proof -
      obtain p where "p < length (take ?i es)" "take ?i es ! p = x" using x unfolding in_set_conv_nth by blast
      then show ?thesis using E(2) [of p] by simp
    qed
    have hi: "dg_hex d < dg_hex x" if x: "x \<in> set (drop ?i es)" for x
    proof -
      obtain p where p: "p < length (drop ?i es)" "drop ?i es ! p = x" using x unfolding in_set_conv_nth by blast
      then have le: "dg_hex d \<le> dg_hex x" using E(3) [of "?i + p"] by simp
      have xin: "x \<in> set es" using x by (rule in_set_dropD)
      have "dg_alg x = A" using xin wf by (simp add: ds_wf_def)
      then have "dg_hex x = dg_hex d \<Longrightarrow> x = d" using digest_eq [OF ds_wfD(4) [OF wf xin] d(1)] d(2) by simp
      then have "dg_hex x \<noteq> dg_hex d" using False xin by blast
      then show ?thesis using le by simp
    qed
    have "sorted_wrt (<) (map dg_hex (take ?i es))" "sorted_wrt (<) (map dg_hex (drop ?i es))"
      using wf by (simp_all add: ds_wf_def take_map [symmetric] drop_map [symmetric] sorted_wrt_take sorted_wrt_drop)
    then have "sorted_wrt (<) (map dg_hex (take ?i es @ d # drop ?i es))"
      using lo hi less_trans by (fastforce simp: sorted_wrt_append)
    moreover have "set (take ?i es @ d # drop ?i es) = insert d (set es)"
    proof -
      have "set es = set (take ?i es) \<union> set (drop ?i es)" by (metis append_take_drop_id set_append)
      then show ?thesis by simp
    qed
    ultimately show ?thesis using wf d r by (auto simp: ds_wf_def)
  qed
  then show "ds_wf A (fst (ds_Add d es))" "set (fst (ds_Add d es)) = insert d (set es)" by auto
qed

lemma ds_Remove_ok:
  assumes wf: "ds_wf A es" and d: "digest_valid d" "dg_alg d = A"
  shows "ds_wf A (fst (ds_Remove d es))" "set (fst (ds_Remove d es)) = set es - {d}" "snd (ds_Remove d es) = None"
proof -
  let ?i = "entry_index d es"
  show "snd (ds_Remove d es) = None" using d by (simp add: ds_Remove_def Let_def)
  have "ds_wf A (fst (ds_Remove d es)) \<and> set (fst (ds_Remove d es)) = set es - {d}"
  proof (cases "d \<in> set es")
    case False
    then have "?i = length es \<or> es ! ?i \<noteq> d" using entry_index_wf(1) [OF wf d(2)] by (metis le_neq_implies_less nth_mem)
    then show ?thesis using False d wf by (simp add: ds_Remove_def Let_def)
  next
    case True
    note I = digest_index [OF wf d True]
    have split: "es = take ?i es @ d # drop (Suc ?i) es" using I by (metis id_take_nth_drop)
    have r: "fst (ds_Remove d es) = take ?i es @ drop (Suc ?i) es" using I d by (simp add: ds_Remove_def Let_def)
    have "sorted_wrt (<) (map dg_hex (take ?i es @ d # drop (Suc ?i) es))"
      using wf split by (simp add: ds_wf_def)
    then have "sorted_wrt (<) (map dg_hex (take ?i es @ drop (Suc ?i) es))" "d \<notin> set (take ?i es @ drop (Suc ?i) es)"
      by (auto simp: sorted_wrt_append)
    moreover have "set es = insert d (set (take ?i es @ drop (Suc ?i) es))"
      by (subst split) auto
    ultimately show ?thesis using wf r by (auto simp: ds_wf_def)
  qed
  then show "ds_wf A (fst (ds_Remove d es))" "set (fst (ds_Remove d es)) = set es - {d}" by auto
qed

section \<open>Lookup\<close>

lemma prefix_between:
  fixes h :: string
  assumes "h \<le> u" "u \<le> v" "prefix h v"
  shows "prefix h u"
  using assms
proof (induction h arbitrary: u v)
  case (Cons c h)
  then obtain v' where v: "v = c # v'" "prefix h v'" by (cases v) auto
  from Cons.prems(1) obtain b u' where u: "u = b # u'" by (cases u) auto
  have "b = c" "h \<le> u'" "u' \<le> v'" using Cons.prems(1,2) unfolding u v by (auto simp: Cons_le_Cons)
  then show ?case using Cons.IH v u by auto
qed simp

lemma prefix_le: "prefix h v \<Longrightarrow> (h :: string) \<le> v"
proof (induction h arbitrary: v)
  case (Cons c h)
  then show ?case by (cases v) (auto simp: Cons_le_Cons)
qed simp

text \<open>The digests that a term stands for.\<close>

definition term_alg :: "string \<Rightarrow> string" where
  "term_alg d = (if digest_format d then dg_alg d else '''')"

definition term_hex :: "string \<Rightarrow> string" where
  "term_hex d = (if digest_format d then dg_hex d else d)"

definition matches :: "string \<Rightarrow> string \<Rightarrow> bool" where
  "matches d e \<longleftrightarrow> (term_alg d = '''' \<or> term_alg d = dg_alg e) \<and> prefix (term_hex d) (dg_hex e)"

lemma checkShortMatch_matches: "checkShortMatch (dg_alg e) (dg_hex e) (term_alg d) (term_hex d) = matches d e"
proof -
  have "length (dg_hex e) = length (term_hex d) \<Longrightarrow> prefix (term_hex d) (dg_hex e) \<longleftrightarrow> dg_hex e = term_hex d"
    by (auto simp: prefix_def)
  then show ?thesis by (auto simp: checkShortMatch_def matches_def)
qed

lemma lookup_index:
  assumes wf: "ds_wf A es"
    and f: "f = (if digest_format d
                 then (\<lambda>i. if dg_hex (es ! i) = dg_hex d then dg_alg (es ! i) \<ge> dg_alg d else dg_hex (es ! i) \<ge> dg_hex d)
                 else (\<lambda>i. dg_hex (es ! i) \<ge> d))"
    and A: "term_alg d = '''' \<or> term_alg d = A"
  shows "sort_search (length es) f \<le> length es"
    and "p < sort_search (length es) f \<Longrightarrow> dg_hex (es ! p) < term_hex d"
    and "sort_search (length es) f \<le> p \<Longrightarrow> p < length es \<Longrightarrow> term_hex d \<le> dg_hex (es ! p)"
proof -
  have dA: "digest_format d \<Longrightarrow> dg_alg d = A" using A by (auto simp: term_alg_def digest_format_def dg_alg_def split: prod.splits option.splits)
  have ff: "f i \<longleftrightarrow> term_hex d \<le> dg_hex (es ! i)" if "i < length es" for i
    using dA ds_wfD(3) [OF wf that] by (auto simp: f term_hex_def)
  have mono: "\<forall>p q. p \<le> q \<longrightarrow> q < length es \<longrightarrow> f p \<longrightarrow> f q"
    using ff hex_mono [OF wf, of _ _ "term_hex d"] by (meson le_less_trans)
  show le: "sort_search (length es) f \<le> length es" by (rule sort_search_first(1) [OF mono])
  show "sort_search (length es) f \<le> p \<Longrightarrow> p < length es \<Longrightarrow> term_hex d \<le> dg_hex (es ! p)"
    using sort_search_first(3) [OF mono] ff [of p] by blast
  show "dg_hex (es ! p) < term_hex d" if "p < sort_search (length es) f"
  proof -
    have "p < length es" using that le by simp
    moreover have "\<not> f p" using sort_search_first(2) [OF mono that] .
    ultimately show ?thesis using ff [of p] by (simp add: not_le)
  qed
qed

lemma ds_Lookup_unfold:
  assumes "es \<noteq> []"
  shows "\<exists>idx. idx = sort_search (length es) (if digest_format d
           then (\<lambda>i. if dg_hex (es ! i) = dg_hex d then dg_alg (es ! i) \<ge> dg_alg d else dg_hex (es ! i) \<ge> dg_hex d)
           else (\<lambda>i. dg_hex (es ! i) \<ge> d)) \<and>
     ds_Lookup d es =
       (if idx = length es \<or> \<not> matches d (es ! idx) then Inl ErrDigestNotFound
        else if dg_alg (es ! idx) = term_alg d \<and> dg_hex (es ! idx) = term_hex d then Inr (es ! idx)
        else if idx + 1 < length es \<and> matches d (es ! (idx + 1)) then Inl ErrDigestAmbiguous
        else Inr (es ! idx))"
proof (cases "digest_format d")
  case True
  show ?thesis
    unfolding checkShortMatch_matches [symmetric] term_alg_def term_hex_def
    by (intro exI conjI, rule refl) (simp only: ds_Lookup_def Let_def assms True if_True if_False)
next
  case False
  show ?thesis
    unfolding checkShortMatch_matches [symmetric] term_alg_def term_hex_def
    by (intro exI conjI, rule refl) (simp only: ds_Lookup_def Let_def assms False if_True if_False)
qed

lemma filter_nth_pair:
  assumes "i < j" "j < length es" "P (es ! i)" "P (es ! j)"
  shows "\<exists>x y zs. filter P es = x # y # zs"
proof -
  have "es = take i es @ es ! i # drop (Suc i) es" using assms(1,2) by (intro id_take_nth_drop) simp
  then have f: "filter P es = filter P (take i es) @ es ! i # filter P (drop (Suc i) es)"
    using assms(3) by (metis (no_types) filter.simps(2) filter_append)
  have "es ! j = drop (Suc i) es ! (j - Suc i)" using assms(1,2) by simp
  then have "es ! j \<in> set (drop (Suc i) es)" using assms(1,2) by (metis Suc_leI diff_less_mono length_drop nth_mem)
  then have "filter P (drop (Suc i) es) \<noteq> []" using assms(4) by (auto simp: filter_empty_conv)
  then have "length (filter P es) \<ge> 2" unfolding f by (cases "filter P (drop (Suc i) es)") auto
  then show ?thesis by (cases "filter P es"; cases "tl (filter P es)") auto
qed

text \<open>A lookup resolves exactly the terms that one entry matches.\<close>

lemma ds_Lookup_spec:
  assumes wf: "ds_wf A es"
  shows "ds_Lookup d es = (case filter (matches d) es of
       [] \<Rightarrow> Inl ErrDigestNotFound | [e] \<Rightarrow> Inr e | _ \<Rightarrow> Inl ErrDigestAmbiguous)"
proof (cases "es = []")
  case True
  then show ?thesis by (simp add: ds_Lookup_def)
next
  case ne: False
  obtain idx where idx: "idx = sort_search (length es) (if digest_format d
           then (\<lambda>i. if dg_hex (es ! i) = dg_hex d then dg_alg (es ! i) \<ge> dg_alg d else dg_hex (es ! i) \<ge> dg_hex d)
           else (\<lambda>i. dg_hex (es ! i) \<ge> d))"
    and L: "ds_Lookup d es =
       (if idx = length es \<or> \<not> matches d (es ! idx) then Inl ErrDigestNotFound
        else if dg_alg (es ! idx) = term_alg d \<and> dg_hex (es ! idx) = term_hex d then Inr (es ! idx)
        else if idx + 1 < length es \<and> matches d (es ! (idx + 1)) then Inl ErrDigestAmbiguous
        else Inr (es ! idx))"
    using ds_Lookup_unfold [OF ne, of d] by blast
  have algA: "dg_alg e = A" if "e \<in> set es" for e using wf that by (simp add: ds_wf_def)
  show ?thesis
  proof (cases "term_alg d = '''' \<or> term_alg d = A")
    case False
    then have none: "\<not> matches d e" if "e \<in> set es" for e using algA [OF that] by (auto simp: matches_def)
    then have "filter (matches d) es = []" by (auto simp: filter_empty_conv)
    moreover have "idx \<le> length es" unfolding idx by (rule sort_search_le)
    then have "idx = length es \<or> \<not> matches d (es ! idx)" using none by (metis le_neq_implies_less nth_mem)
    then have "ds_Lookup d es = Inl ErrDigestNotFound" using L by simp
    ultimately show ?thesis by simp
  next
    case A: True
    note I = lookup_index [OF wf _ A, OF refl, folded idx]
    have hit: "matches d (es ! p) \<longleftrightarrow> prefix (term_hex d) (dg_hex (es ! p))" if "p < length es" for p
      using A algA [OF nth_mem [OF that]] by (auto simp: matches_def)
    have only: "idx \<le> p" if "p < length es" "matches d (es ! p)" for p
      using I(2) [of p] prefix_le [of "term_hex d" "dg_hex (es ! p)"] hit [OF that(1)] that(2) by (meson not_le not_less_iff_gr_or_eq)
    have cont: "matches d (es ! q)" if "idx \<le> q" "q \<le> p" "p < length es" "matches d (es ! p)" for p q
    proof -
      have q: "q < length es" using that by simp
      have "term_hex d \<le> dg_hex (es ! q)" "dg_hex (es ! q) \<le> dg_hex (es ! p)"
        using I(3) [OF that(1) q] ds_wfD(2) [OF wf that(2,3)] by auto
      then show ?thesis using prefix_between hit that q by blast
    qed
    show ?thesis
    proof (cases "idx = length es \<or> \<not> matches d (es ! idx)")
      case True
      have "\<not> matches d e" if e: "e \<in> set es" for e
      proof
        assume m: "matches d e"
        obtain p where p: "p < length es" "es ! p = e" using e by (auto simp: in_set_conv_nth)
        then show False using only [of p] cont [of idx p] m True by auto
      qed
      then have "filter (matches d) es = []" by (auto simp: filter_empty_conv)
      then show ?thesis using L True by simp
    next
      case m: False
      have lt: "idx < length es" using m I(1) by simp
      show ?thesis
      proof (cases "idx + 1 < length es \<and> matches d (es ! (idx + 1))")
        case True
        obtain x y zs where f: "filter (matches d) es = x # y # zs"
          using filter_nth_pair [of idx "idx + 1" es "matches d"] True m by auto
        have "dg_hex (es ! idx) \<noteq> term_hex d"
        proof
          assume "dg_hex (es ! idx) = term_hex d"
          then have "prefix (dg_hex (es ! idx)) (dg_hex (es ! (idx + 1)))" using True hit by auto
          moreover have "length (dg_hex (es ! idx)) = length (dg_hex (es ! (idx + 1)))"
            using digest_length [OF ds_wfD(4) [OF wf nth_mem [OF lt]]] algA [OF nth_mem [OF lt]]
              digest_length [OF ds_wfD(4) [OF wf nth_mem [OF conjunct1 [OF True]]]] algA [OF nth_mem [OF conjunct1 [OF True]]]
            by simp
          ultimately have "dg_hex (es ! idx) = dg_hex (es ! (idx + 1))" by (auto simp: prefix_def)
          then show False using ds_wfD(1) [OF wf, of idx "idx + 1"] True by simp
        qed
        then show ?thesis using L m True f by simp
      next
        case False
        have uniq: "p = idx" if "p < length es" "matches d (es ! p)" for p
        proof (rule ccontr)
          assume "p \<noteq> idx"
          then have "idx + 1 \<le> p" using only [OF that] by simp
          then show False using cont [of "idx + 1" p] that False by simp
        qed
        have d: "distinct es" using wf by (auto simp: ds_wf_def strict_sorted_iff distinct_map)
        have "filter (matches d) es = [es ! idx]"
        proof -
          have "e = es ! idx" if e: "e \<in> set es" "matches d e" for e
          proof -
            obtain p where "p < length es" "es ! p = e" using e(1) unfolding in_set_conv_nth by blast
            then show ?thesis using uniq [of p] e(2) by simp
          qed
          then have "set (filter (matches d) es) = {es ! idx}" using m nth_mem [OF lt] unfolding set_filter by blast
          moreover have "distinct (filter (matches d) es)" using d by simp
          ultimately have "length (filter (matches d) es) = 1" using distinct_card [of "filter (matches d) es"] by simp
          then show ?thesis using \<open>set (filter (matches d) es) = {es ! idx}\<close>
            by (cases "filter (matches d) es") auto
        qed
        then show ?thesis using L m False by auto
      qed
    qed
  qed
qed


end
