(* ===== verification/ImageStore.thy ===== *)
theory ImageStore
  imports DigestSet
begin

text \<open>
  The image store of image/store.go with its files (image/fs.go) and the root file system of
  an image (image/rootfs.go). Images keep a reference of their topmost layer.

  The layer store is reached through its two operations, which are parameters here. \<open>parse\<close> is
  \<^verbatim>\<open>json.Unmarshal\<close> of a configuration, of which the root file system and the history matter,
  \<open>H\<close> the canonical digest. \<open>disk\<close> says which system calls succeed; a call that fails changes
  nothing. Directories of different digests are apart.
\<close>

section \<open>Files\<close>

record imagedb =
  db_content :: "(string, string) gomap"
  db_meta :: "(string \<times> string, string) gomap"

datatype fs_call =
    ReadContent string
  | WriteContent string
  | RemoveContent string
  | MakeMeta string
  | ReadMeta string string
  | WriteMeta string string
  | RemoveMeta string string
  | RemoveAllMeta string
  | ReadDir

datatype fs_error = FsFailed fs_call | FsVerify string | FsEmpty

definition fs_get :: "(string \<Rightarrow> string) \<Rightarrow> (fs_call \<Rightarrow> bool) \<Rightarrow> string \<Rightarrow> imagedb \<Rightarrow> fs_error + string" where
  "fs_get H disk dgst db =
     (case (if disk (ReadContent dgst) then gm_get (db_content db) dgst else None) of
        None \<Rightarrow> Inl (FsFailed (ReadContent dgst))
      | Some content \<Rightarrow> if H content \<noteq> dgst then Inl (FsVerify dgst) else Inr content)"

definition fs_Set :: "(string \<Rightarrow> string) \<Rightarrow> (fs_call \<Rightarrow> bool) \<Rightarrow> string \<Rightarrow> imagedb \<Rightarrow> imagedb \<times> (fs_error + string)" where
  "fs_Set H disk data db =
     (if length data = 0 then (db, Inl FsEmpty)
      else
       (let dgst = H data
        in if disk (WriteContent dgst) then (db\<lparr>db_content := gm_set dgst data (db_content db)\<rparr>, Inr dgst)
           else (db, Inl (FsFailed (WriteContent dgst)))))"

definition meta_del_all :: "string \<Rightarrow> (string \<times> string, string) gomap \<Rightarrow> (string \<times> string, string) gomap" where
  "meta_del_all dgst m = filter (\<lambda>(k, v). fst k \<noteq> dgst) m"

definition fs_Delete :: "(fs_call \<Rightarrow> bool) \<Rightarrow> string \<Rightarrow> imagedb \<Rightarrow> imagedb \<times> fs_error option" where
  "fs_Delete disk dgst db =
     (if \<not> disk (RemoveAllMeta dgst) then (db, Some (FsFailed (RemoveAllMeta dgst)))
      else
       (let db1 = db\<lparr>db_meta := meta_del_all dgst (db_meta db)\<rparr>
        in if gm_get (db_content db1) dgst = None \<or> \<not> disk (RemoveContent dgst)
           then (db1, Some (FsFailed (RemoveContent dgst)))
           else (db1\<lparr>db_content := gm_del dgst (db_content db1)\<rparr>, None)))"

definition fs_SetMetadata ::
  "(string \<Rightarrow> string) \<Rightarrow> (fs_call \<Rightarrow> bool) \<Rightarrow> string \<Rightarrow> string \<Rightarrow> string \<Rightarrow> imagedb \<Rightarrow> imagedb \<times> fs_error option" where
  "fs_SetMetadata H disk dgst key data db =
     (case fs_get H disk dgst db of
        Inl e \<Rightarrow> (db, Some e)
      | Inr _ \<Rightarrow>
          (if \<not> disk (MakeMeta dgst) then (db, Some (FsFailed (MakeMeta dgst)))
           else if \<not> disk (WriteMeta dgst key) then (db, Some (FsFailed (WriteMeta dgst key)))
           else (db\<lparr>db_meta := gm_set (dgst, key) data (db_meta db)\<rparr>, None)))"

definition fs_GetMetadata ::
  "(string \<Rightarrow> string) \<Rightarrow> (fs_call \<Rightarrow> bool) \<Rightarrow> string \<Rightarrow> string \<Rightarrow> imagedb \<Rightarrow> fs_error + string" where
  "fs_GetMetadata H disk dgst key db =
     (case fs_get H disk dgst db of
        Inl e \<Rightarrow> Inl e
      | Inr _ \<Rightarrow>
          (case (if disk (ReadMeta dgst key) then gm_get (db_meta db) (dgst, key) else None) of
             None \<Rightarrow> Inl (FsFailed (ReadMeta dgst key))
           | Some v \<Rightarrow> Inr v))"

definition fs_DeleteMetadata :: "(fs_call \<Rightarrow> bool) \<Rightarrow> string \<Rightarrow> string \<Rightarrow> imagedb \<Rightarrow> imagedb \<times> fs_error option" where
  "fs_DeleteMetadata disk dgst key db =
     (if disk (RemoveMeta dgst key) then (db\<lparr>db_meta := gm_del (dgst, key) (db_meta db)\<rparr>, None)
      else (db, Some (FsFailed (RemoveMeta dgst key))))"

text \<open>The digests that \<^verbatim>\<open>Walk\<close> visits, of the canonical algorithm only; \<^verbatim>\<open>ReadDir\<close> sorts by name.\<close>

definition fs_Walk :: "(fs_call \<Rightarrow> bool) \<Rightarrow> imagedb \<Rightarrow> fs_error + string list" where
  "fs_Walk disk db =
     (if \<not> disk ReadDir then Inl (FsFailed ReadDir)
      else Inr (filter digest_valid (sort (filter (\<lambda>d. dg_alg d = ''sha256'') (map fst (db_content db))))))"

section \<open>Images\<close>

record image_config =
  ic_rootfs :: "string list option"
  ic_history :: "bool list"

text \<open>\<open>ic_history\<close> has the \<^verbatim>\<open>EmptyLayer\<close> flag of every entry.\<close>

record image =
  img_config :: image_config
  img_Parent :: string
  img_computedID :: string

record 'r image_meta =
  im_layer :: "'r option"
  im_children :: "string goset"

record ('r, 's) image_store =
  is_ls :: 's
  is_images :: "(string, 'r image_meta) gomap"
  is_fs :: imagedb
  is_digestSet :: digestset

datatype 'e image_error =
    BadConfig
  | TooManyLayers
  | NoRootFS
  | FsError fs_error
  | LayerError 'e
  | DigestError digest_error
  | UnrecognizedImage string
  | UnknownParent string
  | NoSuchImage string
  | NilDereference

text \<open>On Linux; Windows refuses an older type of root file system.\<close>

definition ChainID :: "(string \<Rightarrow> string) \<Rightarrow> string list \<Rightarrow> string" where
  "ChainID H diffs = CreateChainID H diffs"

definition NewFromJSON :: "(string \<Rightarrow> image_config option) \<Rightarrow> string \<Rightarrow> 'e image_error + image_config" where
  "NewFromJSON parse src =
     (case parse src of
        None \<Rightarrow> Inl BadConfig
      | Some img \<Rightarrow> if ic_rootfs img = None then Inl NoRootFS else Inr img)"

definition is_GetParent ::
  "(string \<Rightarrow> string) \<Rightarrow> (fs_call \<Rightarrow> bool) \<Rightarrow> string \<Rightarrow> ('r, 's) image_store \<Rightarrow> 'e image_error + string" where
  "is_GetParent H disk i st =
     (case fs_GetMetadata H disk i ''parent'' (is_fs st) of
        Inl e \<Rightarrow> Inl (FsError e)
      | Inr d \<Rightarrow> Inr d)"

definition is_Get ::
  "(string \<Rightarrow> string) \<Rightarrow> (string \<Rightarrow> image_config option) \<Rightarrow> (fs_call \<Rightarrow> bool) \<Rightarrow> string \<Rightarrow> ('r, 's) image_store
     \<Rightarrow> 'e image_error + image" where
  "is_Get H parse disk i st =
     (case fs_get H disk i (is_fs st) of
        Inl e \<Rightarrow> Inl (FsError e)
      | Inr config \<Rightarrow>
          (case NewFromJSON parse config of
             Inl e \<Rightarrow> Inl e
           | Inr img \<Rightarrow>
               Inr \<lparr>img_config = img,
                    img_Parent = (case is_GetParent H disk i st :: 'e image_error + string of Inl e \<Rightarrow> '''' | Inr p \<Rightarrow> p),
                    img_computedID = i\<rparr>))"

section \<open>Creating\<close>

text \<open>
  \<^verbatim>\<open>Create\<close> in its two parts: the configuration is checked and written before the lock is
  taken. A configuration without a root file system is dereferenced all the same.
\<close>

definition create_check :: "(string \<Rightarrow> image_config option) \<Rightarrow> string \<Rightarrow> 'e image_error + string list" where
  "create_check parse config =
     (case parse config of
        None \<Rightarrow> Inl BadConfig
      | Some img \<Rightarrow>
          (case ic_rootfs img of
             None \<Rightarrow> Inl NilDereference
           | Some diffs \<Rightarrow>
               if length (filter (\<lambda>empty. \<not> empty) (ic_history img)) > length diffs then Inl TooManyLayers
               else Inr diffs))"

definition create_set ::
  "(string \<Rightarrow> string) \<Rightarrow> (string \<Rightarrow> image_config option) \<Rightarrow> (fs_call \<Rightarrow> bool) \<Rightarrow> string \<Rightarrow> ('r, 's) image_store
     \<Rightarrow> ('r, 's) image_store \<times> ('e image_error + string \<times> string list)" where
  "create_set H parse disk config st =
     (case create_check parse config of
        Inl e \<Rightarrow> (st, Inl e)
      | Inr diffs \<Rightarrow>
          (case fs_Set H disk config (is_fs st) of
             (db, Inl e) \<Rightarrow> (st\<lparr>is_fs := db\<rparr>, Inl (FsError e))
           | (db, Inr dgst) \<Rightarrow> (st\<lparr>is_fs := db\<rparr>, Inr (dgst, diffs))))"

definition create_commit ::
  "(string \<Rightarrow> string) \<Rightarrow> (string \<Rightarrow> 's \<Rightarrow> 's \<times> ('e + 'r)) \<Rightarrow> string \<Rightarrow> string list \<Rightarrow> ('r, 's) image_store
     \<Rightarrow> ('r, 's) image_store \<times> ('e image_error + string)" where
  "create_commit H lget imageID diffs st =
     (case gm_get (is_images st) imageID of
        Some _ \<Rightarrow> (st, Inr imageID)
      | None \<Rightarrow>
          (let layerID = ChainID H diffs;
               (st1, l) = (if layerID \<noteq> ''''
                 then (case lget layerID (is_ls st) of
                         (s, Inl e) \<Rightarrow> (st\<lparr>is_ls := s\<rparr>, Inl e)
                       | (s, Inr r) \<Rightarrow> (st\<lparr>is_ls := s\<rparr>, Inr (Some r)))
                 else (st, Inr None))
           in (case l of
                 Inl e \<Rightarrow> (st1, Inl (LayerError e))
               | Inr l \<Rightarrow>
                   (let st2 = st1\<lparr>is_images := gm_set imageID \<lparr>im_layer = l, im_children = []\<rparr> (is_images st1)\<rparr>
                    in (case ds_Add imageID (is_digestSet st2) of
                          (ds, Some e) \<Rightarrow> (st2\<lparr>is_images := gm_del imageID (is_images st2), is_digestSet := ds\<rparr>, Inl (DigestError e))
                        | (ds, None) \<Rightarrow> (st2\<lparr>is_digestSet := ds\<rparr>, Inr imageID))))))"

definition is_Create ::
  "(string \<Rightarrow> string) \<Rightarrow> (string \<Rightarrow> image_config option) \<Rightarrow> (string \<Rightarrow> 's \<Rightarrow> 's \<times> ('e + 'r)) \<Rightarrow> (fs_call \<Rightarrow> bool)
     \<Rightarrow> string \<Rightarrow> ('r, 's) image_store \<Rightarrow> ('r, 's) image_store \<times> ('e image_error + string)" where
  "is_Create H parse lget disk config st =
     (case create_set H parse disk config st of
        (st1, Inl e) \<Rightarrow> (st1, Inl e)
      | (st1, Inr (dgst, diffs)) \<Rightarrow> create_commit H lget dgst diffs st1)"

section \<open>Deleting, searching, parents\<close>

definition drop_child :: "string \<Rightarrow> string \<Rightarrow> (string, 'r image_meta) gomap \<Rightarrow> (string, 'r image_meta) gomap" where
  "drop_child p i images =
     (case gm_get images p of
        None \<Rightarrow> images
      | Some m \<Rightarrow> gm_set p (m\<lparr>im_children := gs_del i (im_children m)\<rparr>) images)"

definition delete_parents :: "(fs_call \<Rightarrow> bool) \<Rightarrow> string list \<Rightarrow> imagedb \<Rightarrow> imagedb" where
  "delete_parents disk cs db = fold (\<lambda>c db. fst (fs_DeleteMetadata disk c ''parent'' db)) cs db"

definition unlink_parent ::
  "(string \<Rightarrow> string) \<Rightarrow> (fs_call \<Rightarrow> bool) \<Rightarrow> string \<Rightarrow> ('r, 's) image_store \<Rightarrow> ('r, 's) image_store" where
  "unlink_parent H disk i st =
     (case is_GetParent H disk i st :: unit image_error + string of
        Inl e \<Rightarrow> st
      | Inr p \<Rightarrow> st\<lparr>is_images := drop_child p i (is_images st)\<rparr>)"

definition is_Delete ::
  "(string \<Rightarrow> string) \<Rightarrow> ('r \<Rightarrow> 's \<Rightarrow> ('s \<times> ('e + 'm list)) option) \<Rightarrow> (fs_call \<Rightarrow> bool) \<Rightarrow> string \<Rightarrow> ('r, 's) image_store
     \<Rightarrow> (('r, 's) image_store \<times> ('e image_error + 'm list)) option" where
  "is_Delete H lrelease disk i st =
     (case gm_get (is_images st) i of
        None \<Rightarrow> Some (st, Inl (UnrecognizedImage i))
      | Some m \<Rightarrow>
          (let st1 = unlink_parent H disk i (st\<lparr>is_fs := delete_parents disk (im_children m) (is_fs st)\<rparr>);
               st2 = st1\<lparr>is_digestSet := fst (ds_Remove i (is_digestSet st1)),
                         is_images := gm_del i (is_images st1),
                         is_fs := fst (fs_Delete disk i (is_fs st1))\<rparr>
           in (case im_layer m of
                 None \<Rightarrow> Some (st2, Inr [])
               | Some r \<Rightarrow>
                   Option.bind (lrelease r (is_ls st2)) (\<lambda>(s, res).
                     Some (st2\<lparr>is_ls := s\<rparr>, case res of Inl e \<Rightarrow> Inl (LayerError e) | Inr ms \<Rightarrow> Inr ms)))))"

definition is_SetParent ::
  "(string \<Rightarrow> string) \<Rightarrow> (fs_call \<Rightarrow> bool) \<Rightarrow> string \<Rightarrow> string \<Rightarrow> ('r, 's) image_store
     \<Rightarrow> ('r, 's) image_store \<times> 'e image_error option" where
  "is_SetParent H disk i parent st =
     (case gm_get (is_images st) parent of
        None \<Rightarrow> (st, Some (UnknownParent parent))
      | Some _ \<Rightarrow>
          (let st1 = unlink_parent H disk i st;
               st2 = (case gm_get (is_images st1) parent of
                  None \<Rightarrow> st1
                | Some m \<Rightarrow> st1\<lparr>is_images := gm_set parent (m\<lparr>im_children := gs_add i (im_children m)\<rparr>) (is_images st1)\<rparr>)
           in (case fs_SetMetadata H disk i ''parent'' parent (is_fs st2) of
                 (db, e) \<Rightarrow> (st2\<lparr>is_fs := db\<rparr>, map_option FsError e))))"

definition is_Search :: "string \<Rightarrow> ('r, 's) image_store \<Rightarrow> 'e image_error + string" where
  "is_Search t st =
     (case ds_Lookup t (is_digestSet st) of
        Inl e \<Rightarrow> Inl (if e = ErrDigestNotFound then NoSuchImage t else DigestError e)
      | Inr d \<Rightarrow> Inr d)"

definition is_Children :: "string \<Rightarrow> ('r, 's) image_store \<Rightarrow> string list" where
  "is_Children i st = (case gm_get (is_images st) i of None \<Rightarrow> [] | Some m \<Rightarrow> im_children m)"

definition imagesMap ::
  "(string \<Rightarrow> string) \<Rightarrow> (string \<Rightarrow> image_config option) \<Rightarrow> (fs_call \<Rightarrow> bool) \<Rightarrow> bool \<Rightarrow> ('r, 's) image_store
     \<Rightarrow> (string, image) gomap" where
  "imagesMap H parse disk all st =
     fold (\<lambda>(i, m) images.
        if \<not> all \<and> length (is_Children i st) > 0 then images
        else (case is_Get H parse disk i st :: unit image_error + image of
                Inl e \<Rightarrow> images
              | Inr img \<Rightarrow> gm_set i img images)) (is_images st) []"

definition is_Heads where
  "is_Heads H parse disk st = imagesMap H parse disk False st"

definition is_Map where
  "is_Map H parse disk st = imagesMap H parse disk True st"

section \<open>Loading\<close>

fun restore_walk ::
  "(string \<Rightarrow> string) \<Rightarrow> (string \<Rightarrow> image_config option) \<Rightarrow> (string \<Rightarrow> 's \<Rightarrow> 's \<times> ('e + 'r)) \<Rightarrow> (fs_call \<Rightarrow> bool)
     \<Rightarrow> string list \<Rightarrow> ('r, 's) image_store \<Rightarrow> ('r, 's) image_store \<times> 'e image_error option" where
  "restore_walk H parse lget disk [] st = (st, None)"
| "restore_walk H parse lget disk (d # ds) st =
     (case is_Get H parse disk d st :: 'e image_error + image of
        Inl e \<Rightarrow> restore_walk H parse lget disk ds st
      | Inr img \<Rightarrow>
          (let chainID = (case ic_rootfs (img_config img) of None \<Rightarrow> '''' | Some diffs \<Rightarrow> ChainID H diffs);
               (st1, l) = (if chainID \<noteq> ''''
                 then (case lget chainID (is_ls st) of
                         (s, Inl e) \<Rightarrow> (st\<lparr>is_ls := s\<rparr>, Inl e)
                       | (s, Inr r) \<Rightarrow> (st\<lparr>is_ls := s\<rparr>, Inr (Some r)))
                 else (st, Inr None))
           in (case l of
                 Inl e \<Rightarrow> (st1, Some (LayerError e))
               | Inr l \<Rightarrow>
                   (case ds_Add d (is_digestSet st1) of
                      (ds', Some e) \<Rightarrow> (st1\<lparr>is_digestSet := ds'\<rparr>, Some (DigestError e))
                    | (ds', None) \<Rightarrow>
                        restore_walk H parse lget disk ds
                          (st1\<lparr>is_digestSet := ds',
                               is_images := gm_set d \<lparr>im_layer = l, im_children = []\<rparr> (is_images st1)\<rparr>)))))"

definition restore_child ::
  "(string \<Rightarrow> string) \<Rightarrow> (fs_call \<Rightarrow> bool) \<Rightarrow> string \<Rightarrow> ('r, 's) image_store \<Rightarrow> ('r, 's) image_store" where
  "restore_child H disk i st =
     (case is_GetParent H disk i st :: unit image_error + string of
        Inl e \<Rightarrow> st
      | Inr p \<Rightarrow>
          (case gm_get (is_images st) p of
             None \<Rightarrow> st
           | Some m \<Rightarrow> st\<lparr>is_images := gm_set p (m\<lparr>im_children := gs_add i (im_children m)\<rparr>) (is_images st)\<rparr>))"

definition NewImageStore ::
  "(string \<Rightarrow> string) \<Rightarrow> (string \<Rightarrow> image_config option) \<Rightarrow> (string \<Rightarrow> 's \<Rightarrow> 's \<times> ('e + 'r)) \<Rightarrow> (fs_call \<Rightarrow> bool)
     \<Rightarrow> imagedb \<Rightarrow> 's \<Rightarrow> ('r, 's) image_store \<times> 'e image_error option" where
  "NewImageStore H parse lget disk db s =
     (let st = \<lparr>is_ls = s, is_images = [], is_fs = db, is_digestSet = []\<rparr>
      in (case fs_Walk disk db of
            Inl e \<Rightarrow> (st, Some (FsError e))
          | Inr dgsts \<Rightarrow>
              (case restore_walk H parse lget disk dgsts st of
                 (st1, Some e) \<Rightarrow> (st1, Some e)
               | (st1, None) \<Rightarrow> (fold (restore_child H disk) (map fst (is_images st1)) st1, None))))"

end
