(* ===== verification/LayerHolds.thy ===== *)
theory LayerHolds
  imports LayerProps
begin

text \<open>
  What a client of the layer store that keeps references may rely on: a reference it holds
  keeps its layer, whatever other clients do, until it is released itself. The interface is a
  locale, which the image store uses; the layer store provides it.
\<close>

section \<open>The interface\<close>

text \<open>\<open>holds s r c\<close>: in state \<open>s\<close> reference \<open>r\<close> keeps the layer with chain identifier \<open>c\<close>.\<close>

locale layer_provider =
  fixes lget :: "string \<Rightarrow> 's \<Rightarrow> 's \<times> ('e + 'r)"
    and lrelease :: "'r \<Rightarrow> 's \<Rightarrow> ('s \<times> ('e + 'm list)) option"
    and inv :: "'s \<Rightarrow> bool"
    and holds :: "'s \<Rightarrow> 'r \<Rightarrow> string \<Rightarrow> bool"
  assumes get_inv: "inv s \<Longrightarrow> inv (fst (lget c s))"
    and get_holds: "inv s \<Longrightarrow> lget c s = (s', Inr r) \<Longrightarrow> holds s' r c"
    and get_fresh: "inv s \<Longrightarrow> lget c s = (s', Inr r) \<Longrightarrow> \<not> holds s r d"
    and get_keeps: "inv s \<Longrightarrow> holds s q d \<Longrightarrow> holds (fst (lget c s)) q d"
    and release_returns: "inv s \<Longrightarrow> \<exists>s' res. lrelease r s = Some (s', res) \<and> inv s'"
    and release_keeps: "inv s \<Longrightarrow> holds s r c \<Longrightarrow> holds s q d \<Longrightarrow> q \<noteq> r \<Longrightarrow>
      lrelease r s = Some (s', res) \<Longrightarrow> holds s' q d"

section \<open>References of the layer store\<close>

definition ls_holds :: "('m, 'd) layerstore \<Rightarrow> layer_ref \<Rightarrow> string \<Rightarrow> bool" where
  "ls_holds ls r c \<longleftrightarrow>
     (case r of
        CacheRef k a \<Rightarrow> live ls a \<and> k \<in> set (rl_refs (obj ls a)) \<and> rl_chainID (obj ls a) = c
      | RawLayer a \<Rightarrow> False)"

lemma keeps_refs_holds: "keeps_refs ls ls' \<Longrightarrow> ls_holds ls r c \<Longrightarrow> ls_holds ls' r c"
  by (fastforce simp: keeps_refs_def ls_holds_def split: layer_ref.splits)

lemma agrees_holds: "agrees ls ls' \<Longrightarrow> ls_holds ls r c \<Longrightarrow> ls_holds ls' r c"
  by (rule keeps_refs_holds) (simp_all add: agrees_def)

lemma narrows_holds: "narrows ls ls' \<Longrightarrow> ls_holds ls r c \<Longrightarrow> ls_holds ls' r c"
  by (rule keeps_refs_holds [OF keeps_refs_narrows])

lemma same_holds: "obj ls' = obj ls \<Longrightarrow> ls_layerMap ls' = ls_layerMap ls \<Longrightarrow> ls_holds ls r c \<Longrightarrow> ls_holds ls' r c"
  by (auto simp: ls_holds_def live_def split: layer_ref.splits)

lemma ls_Get_result:
  assumes inv: "layer_inv ls h" and run: "ls_Get k ls = (ls', res)"
  shows "agrees ls ls'"
    and "res = Inr r \<Longrightarrow> \<exists>a. r = CacheRef (ls_fresh ls) a \<and> live ls' a \<and> ls_fresh ls \<in> set (rl_refs (obj ls' a)) \<and>
       rl_chainID (obj ls' a) = k"
proof -
  obtain ls1 x where R: "getWithoutLock k ls = (ls1, x)" by (cases "getWithoutLock k ls")
  note G = getWithoutLock_inv [OF inv R]
  have "agrees ls ls' \<and> (\<forall>r. res = Inr r \<longrightarrow> (\<exists>a. r = CacheRef (ls_fresh ls) a \<and> live ls' a \<and>
      ls_fresh ls \<in> set (rl_refs (obj ls' a)) \<and> rl_chainID (obj ls' a) = k))"
  proof (cases x)
    case None
    then show ?thesis using run R G(2) by (auto simp: ls_Get_def)
  next
    case (Some a)
    note a = G(3) [OF Some]
    have inv1: "layer_inv ls1 (h(a := Suc (h a)))" using G(1) Some by simp
    note RF = getReference_inv [OF inv1]
    have r: "ls' = fst (getReference a ls1)" "res = Inr (snd (getReference a ls1))"
      using run R Some by (auto simp: ls_Get_def split: prod.splits)
    have "agrees ls ls1" using a by (intro agrees_narrows) simp
    then have ag: "agrees ls ls'" unfolding r using getReference_agrees(1) by (rule agrees_trans) (simp add: a)
    have fr: "ls_fresh ls1 = ls_fresh ls" using a by simp
    have "live ls' a" unfolding r by (simp add: getReference_agrees(2) a)
    moreover have "rl_chainID (obj ls' a) = k" unfolding r RF(5) using a by simp
    moreover have "ls_fresh ls \<in> set (rl_refs (obj ls' a))"
      using RF(3) unfolding RF(2) r fr by (simp add: hasReference_def)
    ultimately show ?thesis using ag r RF(2) fr by auto
  qed
  then show "agrees ls ls'" "res = Inr r \<Longrightarrow> \<exists>a. r = CacheRef (ls_fresh ls) a \<and> live ls' a \<and>
      ls_fresh ls \<in> set (rl_refs (obj ls' a)) \<and> rl_chainID (obj ls' a) = k" by blast+
qed

lemma ls_Release_holds:
  assumes inv: "layer_inv ls h" and run: "ls_Release K r ls = Some (ls', res)"
    and q: "ls_holds ls q d" and other: "ref_ids q \<inter> ref_ids r = {} \<or> ls_holds ls r c \<and> q \<noteq> r"
  shows "ls_holds ls' q d"
  using inv
proof (cases rule: ls_Release_inv [where K = K and l = r])
  case (released a ls1 lsx resx ms)
  have e: "lsx = ls'" using run released(4) by simp
  have n: "narrows ls1 ls'" using released(6,7) unfolding e narrows_def by blast
  obtain k b where qb: "q = CacheRef k b" "live ls b" "k \<in> set (rl_refs (obj ls b))" "rl_chainID (obj ls b) = d"
    using q by (auto simp: ls_holds_def split: layer_ref.splits)
  have "k \<in> set (rl_refs (obj ls1 b))"
  proof (cases "b = a")
    case False
    then show ?thesis using qb(3) by (simp add: released(3) deleteReference_obj)
  next
    case True
    have "k \<notin> ref_ids r"
      using other
    proof
      assume "ref_ids q \<inter> ref_ids r = {}"
      then show ?thesis by (simp add: qb(1) ref_ids_def)
    next
      assume o': "ls_holds ls r c \<and> q \<noteq> r"
      then obtain k' a' where r: "r = CacheRef k' a'" "live ls a'" by (auto simp: ls_holds_def split: layer_ref.splits)
      have "a' = a" using released(1) r(2) by (simp add: r(1) live_def)
      then show ?thesis using o' True qb(1) r(1) by (auto simp: ref_ids_def)
    qed
    then show ?thesis using deleteReference_obj(3) [of ls b r a] qb(3) unfolding released(3) by blast
  qed
  then have "ls_holds ls1 q d"
    using qb by (simp add: ls_holds_def released(3) deleteReference_same deleteReference_obj)
  then show ?thesis by (rule narrows_holds [OF n])
qed (use run q in auto)

interpretation ls: layer_provider ls_Get "ls_Release K" "\<lambda>ls. layer_reach K ls P" ls_holds for K P
proof
  fix s :: "('a, 'b) layerstore" and c s' r d q res
  assume ok: "layer_reach K s P"
  note inv = store_okD(1) [OF layer_reach_ok [OF ok]]
  show "layer_reach K (fst (ls_Get c s)) P" by (rule layer_reach.step [OF ok layer_step.get])
  show "\<exists>s' res. ls_Release K r s = Some (s', res) \<and> layer_reach K s' P"
    using ls_Release_ok [OF inv, of K r] layer_reach.step [OF ok layer_step.release] by blast
  show "ls_holds s' r c" if "ls_Get c s = (s', Inr r)"
    using ls_Get_result(2) [OF inv that refl] by (auto simp: ls_holds_def)
  show "\<not> ls_holds s r d" if "ls_Get c s = (s', Inr r)"
    using ls_Get_result(2) [OF inv that refl] layer_wfD(7) [OF layer_invD(1) [OF inv], of _ "ls_fresh s"]
    by (auto simp: ls_holds_def)
  show "ls_holds (fst (ls_Get c s)) q d" if "ls_holds s q d"
    by (rule agrees_holds [OF ls_Get_result(1) [OF inv surjective_pairing] that])
  show "ls_holds s' q d" if "ls_holds s r c" "ls_holds s q d" "q \<noteq> r" "ls_Release K r s = Some (s', res)"
    by (rule ls_Release_holds [OF inv that(4,2)]) (use that in blast)
qed

section \<open>Other clients\<close>

text \<open>Whatever step another client takes, a reference that the step does not release is kept.\<close>

lemma layer_step_holds:
  assumes "layer_step K (ls, P) (ls', P')" and ok: "store_ok K ls P" and q: "ls_holds ls q d"
    and other: "\<And>l res. ls_Release K l ls = Some (ls', res) \<Longrightarrow> ref_ids q \<inter> ref_ids l = {}"
  shows "ls_holds ls' q d"
  using assms(1)
proof cases
  note I = store_okD [OF ok]
  {
    case (get k)
    show ?thesis unfolding get by (rule agrees_holds [OF ls_Get_result(1) [OF I(1) surjective_pairing] q])
  next
    case (release l res)
    then show ?thesis using ls_Release_holds [OF I(1) _ q] other by blast
  next
    case (reg_begin parent p)
    from I(1) show ?thesis
      by (cases rule: register_parent_ok [where K = K and parent = parent])
        (use reg_begin narrows_holds q in auto)
  next
    case (reg_refused parent e)
    from I(1) show ?thesis
      by (cases rule: register_parent_ok [where K = K and parent = parent])
        (use reg_refused narrows_holds q in auto)
  next
    case (reg_build ts c p desc l tx Pa Q)
    have "layer_inv ls (hold p (held (Pa @ Q)))" using I(1) reg_build by simp
    then show ?thesis
      by (cases rule: register_build_ok [where K = K and ts = ts and c = c and desc = desc])
        (use reg_build narrows_holds q in auto)
  next
    case (reg_fails ts c p desc e Pa Q)
    have "layer_inv ls (hold p (held (Pa @ Q)))" using I(1) reg_fails by simp
    then show ?thesis
      by (cases rule: register_build_ok [where K = K and ts = ts and c = c and desc = desc])
        (use reg_fails narrows_holds q in auto)
  next
    case (reg_commit l tx res Pa Q)
    have inv: "layer_inv ls (hold (rl_parent l) (held (Pa @ Q)))" using I(1) reg_commit by simp
    have l: "rl_refs l = []" "rl_count l = 1" using I(3) [of "Built l tx"] reg_commit(1) by (simp_all add: pend_ok_def)
    have "agrees ls ls'" using register_commit_ok [OF inv l, of K tx] reg_commit(3) by auto
    then show ?thesis using q by (rule agrees_holds)
  next
    case (rw_begin n parent p)
    obtain lsx r where R: "getWithoutLock parent ls = (lsx, r)" by (cases "getWithoutLock parent ls")
    have "ls' = ls \<or> ls' = lsx" using rw_begin(3) R by (auto simp: create_rw_parent_def split: option.splits if_splits)
    moreover have "narrows ls lsx" using getWithoutLock_inv(2,3) [OF I(1) R] by (cases r) auto
    ultimately show ?thesis using narrows_holds q by blast
  next
    case (rw_build n mid p opts res Pa Q)
    have inv: "layer_inv ls (hold p (held (Pa @ Q)))" using I(1) rw_build by simp
    have new: "gm_get (ls_mounts ls) n = None" using I(3) [of "Mounting n p"] rw_build(1) by (simp add: pend_ok_def)
    from create_rw_build_ok [OF inv new, of K mid opts] rw_build(3)
    show ?thesis using narrows_holds same_holds q by (fastforce split: sum.splits)
  next
    case (rw_get n)
    show ?thesis unfolding rw_get by (rule same_holds [OF GetRWLayer_inv(2,3) [OF I(1)] q])
  next
    case (rw_release ref res)
    obtain r n where ref: "ref = RWRef r n" by (cases ref)
    from ReleaseRWLayer_ok [OF I(1), of K r n] obtain lsx resx ls1 where
      R: "ReleaseRWLayer K (RWRef r n) ls = Some (lsx, resx)"
        "obj ls1 = obj ls" "ls_layerMap ls1 = ls_layerMap ls" "narrows ls1 lsx" by blast
    have "lsx = ls'" using R(1) rw_release(3) ref by simp
    then show ?thesis using narrows_holds [OF R(4) same_holds [OF R(2,3) q]] by simp
  }
qed

end
