(* ===== verification/ImageInv.thy ===== *)
theory ImageInv
  imports ImageStore LayerHolds
begin

text \<open>
  What the image store keeps true: every image has its configuration on disk and holds its
  layer, the search index has exactly the images, and the children of an image are those
  whose parent file names it. The part about layers is proved against the interface of the
  layer store.
\<close>

section \<open>Statements\<close>

definition layer_of :: "('r, 's) image_store \<Rightarrow> string \<Rightarrow> 'r option option" where
  "layer_of st i = map_option im_layer (gm_get (is_images st) i)"

definition has_config ::
  "(string \<Rightarrow> string) \<Rightarrow> (string \<Rightarrow> image_config option) \<Rightarrow> imagedb \<Rightarrow> string \<Rightarrow> string \<Rightarrow> bool" where
  "has_config H parse db i c \<longleftrightarrow>
     (\<exists>config img diffs. gm_get (db_content db) i = Some config \<and> H config = i \<and> parse config = Some img \<and>
        ic_rootfs img = Some diffs \<and> c = ChainID H diffs)"

definition images_held ::
  "('s \<Rightarrow> 'r \<Rightarrow> string \<Rightarrow> bool) \<Rightarrow> (string \<Rightarrow> string) \<Rightarrow> (string \<Rightarrow> image_config option) \<Rightarrow> ('r, 's) image_store \<Rightarrow> bool" where
  "images_held holds H parse st \<longleftrightarrow>
     (\<forall>i l. layer_of st i = Some l \<longrightarrow>
        (\<exists>c. has_config H parse (is_fs st) i c \<and>
           (case l of None \<Rightarrow> c = '''' | Some r \<Rightarrow> holds (is_ls st) r c))) \<and>
     (\<forall>i j r. layer_of st i = Some (Some r) \<longrightarrow> layer_of st j = Some (Some r) \<longrightarrow> i = j)"

definition search_ok :: "string \<Rightarrow> ('r, 's) image_store \<Rightarrow> bool" where
  "search_ok A st \<longleftrightarrow> ds_wf A (is_digestSet st) \<and> (\<forall>i. i \<in> set (is_digestSet st) \<longleftrightarrow> layer_of st i \<noteq> None)"

definition parent_of :: "('r, 's) image_store \<Rightarrow> string \<Rightarrow> string option" where
  "parent_of st i = gm_get (db_meta (is_fs st)) (i, ''parent'')"

definition children_exact :: "('r, 's) image_store \<Rightarrow> bool" where
  "children_exact st \<longleftrightarrow>
     (\<forall>i p. parent_of st i = Some p \<longrightarrow> layer_of st i \<noteq> None \<and> layer_of st p \<noteq> None) \<and>
     (\<forall>p m. gm_get (is_images st) p = Some m \<longrightarrow> distinct (im_children m) \<and> set (im_children m) = {i. parent_of st i = Some p})"

text \<open>The digest function makes valid digests of one algorithm.\<close>

definition digests_ok :: "(string \<Rightarrow> string) \<Rightarrow> string \<Rightarrow> bool" where
  "digests_ok H A \<longleftrightarrow> (\<forall>x. digest_valid (H x) \<and> dg_alg (H x) = A)"

section \<open>What operations leave alone\<close>

lemma drop_child_layers [simp]:
  "map_option im_layer (gm_get (drop_child p i images) j) = map_option im_layer (gm_get images j)"
  by (auto simp: drop_child_def split: option.split)

lemma unlink_parent_frame [simp]:
  "layer_of (unlink_parent H disk i st) = layer_of st" "is_ls (unlink_parent H disk i st) = is_ls st"
  "is_fs (unlink_parent H disk i st) = is_fs st" "is_digestSet (unlink_parent H disk i st) = is_digestSet st"
  by (auto simp: unlink_parent_def layer_of_def fun_eq_iff split: sum.split)

lemma delete_parents_content [simp]: "db_content (delete_parents disk cs db) = db_content db"
proof -
  have "db_content (fold (\<lambda>c db. fst (fs_DeleteMetadata disk c ''parent'' db)) cs db) = db_content db"
    by (induction cs arbitrary: db) (simp_all add: fs_DeleteMetadata_def)
  then show ?thesis by (simp add: delete_parents_def)
qed

lemma delete_parents_meta:
  "gm_get (db_meta (delete_parents (\<lambda>_. True) cs db)) (i, ''parent'') =
     (if i \<in> set cs then None else gm_get (db_meta db) (i, ''parent''))"
proof -
  have "gm_get (db_meta (fold (\<lambda>c db. fst (fs_DeleteMetadata (\<lambda>_. True) c ''parent'' db)) cs db)) (i, ''parent'') =
     (if i \<in> set cs then None else gm_get (db_meta db) (i, ''parent''))"
    by (induction cs arbitrary: db) (auto simp: fs_DeleteMetadata_def)
  then show ?thesis by (simp add: delete_parents_def)
qed

lemma fs_Delete_content:
  "gm_get (db_content (fst (fs_Delete disk i db))) j = (if j = i \<and> disk (RemoveAllMeta i) \<and> disk (RemoveContent i) then None
     else gm_get (db_content db) j)"
  by (auto simp: fs_Delete_def Let_def)

lemma meta_del_all_get: "gm_get (meta_del_all d m) (i, k) = (if i = d then None else gm_get m (i, k))"
  by (induction m) (auto simp: meta_del_all_def)

lemma fs_Delete_meta: "gm_get (db_meta (fst (fs_Delete (\<lambda>_. True) i db))) (j, k) = (if j = i then None else gm_get (db_meta db) (j, k))"
  by (auto simp: fs_Delete_def Let_def meta_del_all_get)

lemma fs_SetMetadata_content [simp]: "db_content (fst (fs_SetMetadata H disk i k v db)) = db_content db"
  by (auto simp: fs_SetMetadata_def split: sum.split)

lemma fs_get_config: "has_config H parse db i c \<Longrightarrow> \<exists>x. fs_get H (\<lambda>_. True) i db = Inr x"
  by (auto simp: has_config_def fs_get_def)

lemma GetParent_config:
  assumes "has_config H parse (is_fs st) i c"
  shows "is_GetParent H (\<lambda>_. True) i st = (case parent_of st i of None \<Rightarrow> Inl (FsError (FsFailed (ReadMeta i ''parent''))) | Some p \<Rightarrow> Inr p)"
  using fs_get_config [OF assms] by (auto simp: is_GetParent_def fs_GetMetadata_def parent_of_def split: option.split)

lemma has_config_cong: "gm_get (db_content db') i = gm_get (db_content db) i \<Longrightarrow> has_config H parse db' i c = has_config H parse db i c"
  by (simp add: has_config_def)

lemma has_config_unique: "has_config H parse db i c \<Longrightarrow> has_config H parse db i d \<Longrightarrow> c = d"
  by (auto simp: has_config_def)

text \<open>A state with the same layers, configurations and layer store.\<close>

lemma images_held_cong:
  assumes "layer_of st' = layer_of st" "is_ls st' = is_ls st"
    and "\<And>i. layer_of st i \<noteq> None \<Longrightarrow> gm_get (db_content (is_fs st')) i = gm_get (db_content (is_fs st)) i"
  shows "images_held holds H parse st' = images_held holds H parse st"
proof -
  have "has_config H parse (is_fs st') i c = has_config H parse (is_fs st) i c" if "layer_of st i = Some l" for i l c
    using has_config_cong [OF assms(3)] that by simp
  then show ?thesis unfolding images_held_def assms(1,2) by blast
qed

lemma images_heldD:
  assumes "images_held holds H parse st" "layer_of st i = Some l"
  obtains c where "has_config H parse (is_fs st) i c" "case l of None \<Rightarrow> c = '''' | Some r \<Rightarrow> holds (is_ls st) r c"
  using assms unfolding images_held_def by blast

lemma images_held_unique:
  "images_held holds H parse st \<Longrightarrow> layer_of st i = Some (Some r) \<Longrightarrow> layer_of st j = Some (Some r) \<Longrightarrow> i = j"
  unfolding images_held_def by blast

lemma images_heldI:
  assumes "\<And>i l. layer_of st i = Some l \<Longrightarrow>
      \<exists>c. has_config H parse (is_fs st) i c \<and> (case l of None \<Rightarrow> c = '''' | Some r \<Rightarrow> holds (is_ls st) r c)"
    and "\<And>i j r. layer_of st i = Some (Some r) \<Longrightarrow> layer_of st j = Some (Some r) \<Longrightarrow> i = j"
  shows "images_held holds H parse st"
  using assms unfolding images_held_def by blast

text \<open>Fewer images, whose configurations and references are kept.\<close>

lemma images_held_sub:
  assumes held: "images_held holds H parse st"
    and sub: "\<And>i l. layer_of st' i = Some l \<Longrightarrow> layer_of st i = Some l"
    and db: "\<And>i. layer_of st' i \<noteq> None \<Longrightarrow> gm_get (db_content (is_fs st')) i = gm_get (db_content (is_fs st)) i"
    and keep: "\<And>i r c. layer_of st' i = Some (Some r) \<Longrightarrow> holds (is_ls st) r c \<Longrightarrow> holds (is_ls st') r c"
  shows "images_held holds H parse st'"
proof (rule images_heldI)
  fix i l
  assume i: "layer_of st' i = Some l"
  from held sub [OF i] obtain c where c: "has_config H parse (is_fs st) i c"
    "case l of None \<Rightarrow> c = '''' | Some r \<Rightarrow> holds (is_ls st) r c" by (rule images_heldD)
  have "has_config H parse (is_fs st') i c" using has_config_cong [OF db] i c(1) by simp
  moreover have "case l of None \<Rightarrow> c = '''' | Some r \<Rightarrow> holds (is_ls st') r c"
    using c(2) keep i by (cases l) auto
  ultimately show "\<exists>c. has_config H parse (is_fs st') i c \<and>
      (case l of None \<Rightarrow> c = '''' | Some r \<Rightarrow> holds (is_ls st') r c)" by blast
next
  show "i = j" if "layer_of st' i = Some (Some r)" "layer_of st' j = Some (Some r)" for i j r
    by (rule images_held_unique [OF held sub [OF that(1)] sub [OF that(2)]])
qed

section \<open>What operations do to the images\<close>

text \<open>Content is never overwritten by other content with the same digest.\<close>

definition no_collision :: "(string \<Rightarrow> string) \<Rightarrow> imagedb \<Rightarrow> string \<Rightarrow> bool" where
  "no_collision H db config \<longleftrightarrow>
     (case gm_get (db_content db) (H config) of
        None \<Rightarrow> True
      | Some old \<Rightarrow> H old = H config \<longrightarrow> old = config)"

lemma layer_of_is_ls [simp]: "layer_of (st\<lparr>is_ls := s\<rparr>) = layer_of st"
  by (simp add: layer_of_def fun_eq_iff)

lemma unlink_parent_layer [simp]: "map_option im_layer (gm_get (is_images (unlink_parent H disk i st)) j) = layer_of st j"
  using fun_cong [OF unlink_parent_frame(1) [where H = H and disk = disk and i = i], where x = j] unfolding layer_of_def .

lemma create_check_config:
  assumes "create_check parse config = Inr diffs"
  obtains img where "parse config = Some img" "ic_rootfs img = Some diffs"
  using assms by (auto simp: create_check_def split: option.splits if_splits)

lemma create_set_cases:
  fixes x :: "'e image_error + string \<times> string list"
  assumes run: "create_set H parse disk config st = (st1, x)"
  obtains (refused) e where "x = Inl e" "st1 = st"
  | (written) diffs where "x = Inr (H config, diffs)" "(create_check parse config :: 'e image_error + _) = Inr diffs"
      "st1 = st\<lparr>is_fs := (is_fs st)\<lparr>db_content := gm_set (H config) config (db_content (is_fs st))\<rparr>\<rparr>"
proof (cases "create_check parse config :: 'e image_error + _")
  case (Inl e)
  then show ?thesis using run refused by (auto simp: create_set_def)
next
  case (Inr diffs)
  then show ?thesis using run refused written [OF _ Inr]
    by (auto simp: create_set_def fs_Set_def Let_def split: if_splits)
qed

lemma written_config:
  assumes "create_check parse config = Inr diffs"
  shows "has_config H parse (db\<lparr>db_content := gm_set (H config) config m\<rparr>) (H config) (ChainID H diffs)"
  using assms by (rule create_check_config) (simp add: has_config_def)

lemma written_keeps:
  assumes free: "no_collision H db config" and c: "has_config H parse db i c"
  shows "has_config H parse (db\<lparr>db_content := gm_set (H config) config (db_content db)\<rparr>) i c"
  using c free by (auto simp: has_config_def no_collision_def)

lemma create_set_held:
  assumes held: "images_held holds H parse st" and free: "no_collision H (is_fs st) config"
    and run: "create_set H parse disk config st = (st1, x)"
  shows "images_held holds H parse st1" "is_ls st1 = is_ls st" "layer_of st1 = layer_of st" "is_images st1 = is_images st"
    "is_digestSet st1 = is_digestSet st" "db_meta (is_fs st1) = db_meta (is_fs st)"
    "x = Inr (i, diffs) \<Longrightarrow> i = H config \<and> has_config H parse (is_fs st1) i (ChainID H diffs)"
proof -
  from run have "images_held holds H parse st1 \<and> is_ls st1 = is_ls st \<and> is_images st1 = is_images st \<and>
    is_digestSet st1 = is_digestSet st \<and> db_meta (is_fs st1) = db_meta (is_fs st) \<and>
    (x = Inr (i, diffs) \<longrightarrow> i = H config \<and> has_config H parse (is_fs st1) i (ChainID H diffs))"
  proof (cases rule: create_set_cases)
    case refused
    then show ?thesis using held by simp
  next
    case (written ds)
    have lay: "layer_of st1 = layer_of st" by (simp add: written(3) layer_of_def fun_eq_iff)
    have "images_held holds H parse st1"
    proof (rule images_heldI)
      fix j l
      assume "layer_of st1 j = Some l"
      then have "layer_of st j = Some l" by (simp add: lay)
      with held obtain c where c: "has_config H parse (is_fs st) j c" "case l of None \<Rightarrow> c = '''' | Some r \<Rightarrow> holds (is_ls st) r c"
        by (rule images_heldD)
      have "has_config H parse (is_fs st1) j c" using written_keeps [OF free c(1)] by (simp add: written(3))
      moreover have "is_ls st1 = is_ls st" by (simp add: written(3))
      ultimately show "\<exists>c. has_config H parse (is_fs st1) j c \<and> (case l of None \<Rightarrow> c = '''' | Some r \<Rightarrow> holds (is_ls st1) r c)"
        using c(2) by (auto split: option.splits)
    qed (use images_held_unique [OF held] lay in simp)
    then show ?thesis using written written_config [OF written(2)] by auto
  qed
  then show "images_held holds H parse st1" "is_ls st1 = is_ls st" "is_images st1 = is_images st"
    "is_digestSet st1 = is_digestSet st" "db_meta (is_fs st1) = db_meta (is_fs st)"
    "x = Inr (i, diffs) \<Longrightarrow> i = H config \<and> has_config H parse (is_fs st1) i (ChainID H diffs)" "layer_of st1 = layer_of st"
    by (auto simp: layer_of_def fun_eq_iff)
qed

text \<open>The state before the layer of a deleted image is released.\<close>

definition deleted :: "(string \<Rightarrow> string) \<Rightarrow> (fs_call \<Rightarrow> bool) \<Rightarrow> string \<Rightarrow> string list \<Rightarrow> ('r, 's) image_store \<Rightarrow> ('r, 's) image_store" where
  "deleted H disk i cs st =
     (let st1 = unlink_parent H disk i (st\<lparr>is_fs := delete_parents disk cs (is_fs st)\<rparr>)
      in st1\<lparr>is_digestSet := fst (ds_Remove i (is_digestSet st1)),
             is_images := gm_del i (is_images st1),
             is_fs := fst (fs_Delete disk i (is_fs st1))\<rparr>)"

lemma deleted_frame:
  "is_ls (deleted H disk i cs st) = is_ls st" "layer_of (deleted H disk i cs st) = (layer_of st)(i := None)"
  "is_digestSet (deleted H disk i cs st) = fst (ds_Remove i (is_digestSet st))"
  "is_fs (deleted H disk i cs st) = fst (fs_Delete disk i (delete_parents disk cs (is_fs st)))"
  "j \<noteq> i \<Longrightarrow> gm_get (db_content (is_fs (deleted H disk i cs st))) j = gm_get (db_content (is_fs st)) j"
proof -
  have "layer_of (deleted H disk i cs st) j = (if j = i then None else layer_of st j)" for j
  proof -
    let ?s = "st\<lparr>is_fs := delete_parents disk cs (is_fs st)\<rparr>"
    have "layer_of (deleted H disk i cs st) j = (if j = i then None else layer_of ?s j)"
      unfolding unlink_parent_layer [of H disk i ?s, symmetric] by (simp add: deleted_def Let_def layer_of_def)
    then show ?thesis by (simp add: layer_of_def)
  qed
  then show "layer_of (deleted H disk i cs st) = (layer_of st)(i := None)" by (auto simp: fun_eq_iff)
qed (simp_all add: deleted_def Let_def fs_Delete_content)

lemma is_Delete_deleted:
  assumes "gm_get (is_images st) i = Some m"
  shows "is_Delete H lrelease disk i st =
     (case im_layer m of
        None \<Rightarrow> Some (deleted H disk i (im_children m) st, Inr [])
      | Some r \<Rightarrow>
          Option.bind (lrelease r (is_ls st)) (\<lambda>(s, res).
            Some (deleted H disk i (im_children m) st\<lparr>is_ls := s\<rparr>,
                  case res of Inl e \<Rightarrow> Inl (LayerError e) | Inr ms \<Rightarrow> Inr ms)))"
  unfolding deleted_frame(1) [of H disk i "im_children m" st, symmetric] is_Delete_def deleted_def Let_def assms option.case
  by (rule refl)

lemma is_Delete_cases:
  assumes run: "is_Delete H lrelease disk i st = Some (st', res)"
  obtains (unknown) "gm_get (is_images st) i = None" "st' = st" "res = Inl (UnrecognizedImage i)"
  | (bare) m where "gm_get (is_images st) i = Some m" "im_layer m = None" "st' = deleted H disk i (im_children m) st" "res = Inr []"
  | (layer) m r s x where "gm_get (is_images st) i = Some m" "im_layer m = Some r"
      "lrelease r (is_ls st) = Some (s, x)" "st' = deleted H disk i (im_children m) st\<lparr>is_ls := s\<rparr>"
      "res = (case x of Inl e \<Rightarrow> Inl (LayerError e) | Inr ms \<Rightarrow> Inr ms)"
proof (cases "gm_get (is_images st) i")
  case None
  then have "st' = st" "res = Inl (UnrecognizedImage i)" using run by (simp_all add: is_Delete_def)
  with None show ?thesis by (rule unknown)
next
  case (Some m)
  show ?thesis
  proof (cases "im_layer m")
    case None
    then show ?thesis using run bare [OF Some None] by (simp add: is_Delete_deleted [OF Some])
  next
    case l: (Some r)
    then show ?thesis using run layer [OF Some l] by (auto simp: is_Delete_deleted [OF Some] bind_eq_Some_conv)
  qed
qed

lemma is_Delete_frame:
  assumes run: "is_Delete H lrelease disk i st = Some (st', res)"
  shows "layer_of st' = (layer_of st)(i := None)"
proof (cases "gm_get (is_images st) i")
  case None
  then show ?thesis using run by (auto simp: is_Delete_def layer_of_def fun_eq_iff)
next
  case (Some m)
  with run show ?thesis by (cases rule: is_Delete_cases) (simp_all add: deleted_frame)
qed

lemma is_SetParent_frame:
  assumes run: "is_SetParent H disk i p st = (st', res)"
  shows "layer_of st' = layer_of st" "is_ls st' = is_ls st" "is_digestSet st' = is_digestSet st"
    "db_content (is_fs st') = db_content (is_fs st)"
proof -
  note u = unlink_parent_layer [of H disk i st]
  have "layer_of st' j = layer_of st j" for j
  proof (cases "gm_get (is_images st) p")
    case None
    then show ?thesis using run by (simp add: is_SetParent_def)
  next
    case (Some m)
    show ?thesis
    proof (cases "gm_get (is_images (unlink_parent H disk i st)) p")
      case None
      then show ?thesis using run Some u [of j] by (auto simp: is_SetParent_def Let_def layer_of_def split: prod.splits)
    next
      case s: (Some x)
      then show ?thesis using run Some u [of j] u [of p]
        by (auto simp: is_SetParent_def Let_def layer_of_def split: prod.splits if_splits)
    qed
  qed
  then show "layer_of st' = layer_of st" by blast
  obtain db e where d: "fs_SetMetadata H disk i ''parent'' p (is_fs st) = (db, e)"
    by (cases "fs_SetMetadata H disk i ''parent'' p (is_fs st)")
  have "db_content db = db_content (is_fs st)" using fs_SetMetadata_content [of H disk i "''parent''" p "is_fs st"] by (simp add: d)
  then show "is_ls st' = is_ls st" "is_digestSet st' = is_digestSet st"
    "db_content (is_fs st') = db_content (is_fs st)"
    using run d by (auto simp: is_SetParent_def Let_def split: option.splits)
qed

section \<open>Layers are held\<close>

context layer_provider
begin

lemma images_held_add:
  assumes held: "images_held holds H parse st" and new: "layer_of st i = None"
    and lay: "layer_of st' = (layer_of st)(i := Some l)" and db: "is_fs st' = is_fs st"
    and cfg: "has_config H parse (is_fs st) i c" and l: "case l of None \<Rightarrow> c = '''' | Some r \<Rightarrow> holds (is_ls st') r c"
    and keep: "\<And>r d. holds (is_ls st) r d \<Longrightarrow> holds (is_ls st') r d"
    and fresh: "\<And>r d. l = Some r \<Longrightarrow> \<not> holds (is_ls st) r d"
  shows "images_held holds H parse st'"
proof -
  have A: "\<exists>c. has_config H parse (is_fs st') j c \<and> (case x of None \<Rightarrow> c = '''' | Some r \<Rightarrow> holds (is_ls st') r c)"
    if j: "layer_of st' j = Some x" for j x
  proof (cases "j = i")
    case True
    then show ?thesis using j cfg l by (auto simp: lay db)
  next
    case False
    then have "layer_of st j = Some x" using j lay by simp
    with held obtain d where "has_config H parse (is_fs st) j d" "case x of None \<Rightarrow> d = '''' | Some r \<Rightarrow> holds (is_ls st) r d"
      by (rule images_heldD)
    then show ?thesis using keep by (auto simp: db split: option.splits)
  qed
  have old: "holds (is_ls st) r d" if "layer_of st j = Some (Some r)" "has_config H parse (is_fs st) j d" for j r d
    using held that(1) by (rule images_heldD) (use has_config_unique [OF that(2)] in auto)
  have has: "\<exists>d. has_config H parse (is_fs st) j d" if "layer_of st j = Some x" for j x
    using held that by (rule images_heldD) blast
  have B: "j = k" if jk: "layer_of st' j = Some (Some r)" "layer_of st' k = Some (Some r)" for j k r
  proof (cases "j = i \<or> k = i")
    case False
    then show ?thesis using jk images_held_unique [OF held] by (simp add: lay)
  next
    case True
    show ?thesis
    proof (rule ccontr)
      assume ne: "j \<noteq> k"
      then obtain m where m: "layer_of st m = Some (Some r)" "l = Some r" using True jk by (auto simp: lay)
      then obtain d where "has_config H parse (is_fs st) m d" using has by blast
      then show False using old [OF m(1)] fresh [OF m(2)] by blast
    qed
  qed
  show ?thesis unfolding images_held_def using A B by blast
qed

lemma create_commit_held:
  assumes inv: "inv (is_ls st)" and held: "images_held holds H parse st"
    and cfg: "has_config H parse (is_fs st) i (ChainID H diffs)"
    and run: "create_commit H lget i diffs st = (st', res)"
  shows "inv (is_ls st') \<and> images_held holds H parse st'"
proof (cases "gm_get (is_images st) i")
  case (Some m)
  then show ?thesis using run inv held by (simp add: create_commit_def)
next
  case None
  let ?c = "ChainID H diffs"
  have new: "layer_of st i = None" using None by (simp add: layer_of_def)
  obtain s x where g: "lget ?c (is_ls st) = (s, x)" by (cases "lget ?c (is_ls st)")
  have s: "inv s" "\<And>q d. holds (is_ls st) q d \<Longrightarrow> holds s q d"
    using get_inv [OF inv, of ?c] get_keeps [OF inv, of _ _ ?c] g by auto
  have done': "inv (is_ls st') \<and> images_held holds H parse st'"
    if st1: "st1 = st\<lparr>is_ls := s1\<rparr>" and s1: "inv s1" "\<And>q d. holds (is_ls st) q d \<Longrightarrow> holds s1 q d"
      and l: "case l of None \<Rightarrow> ?c = '''' | Some r \<Rightarrow> holds s1 r ?c" "\<And>r d. l = Some r \<Longrightarrow> \<not> holds (is_ls st) r d"
      and r: "(st', res) = (let st2 = st1\<lparr>is_images := gm_set i \<lparr>im_layer = l, im_children = []\<rparr> (is_images st1)\<rparr>
                    in (case ds_Add i (is_digestSet st2) of
                          (ds, Some e) \<Rightarrow> (st2\<lparr>is_images := gm_del i (is_images st2), is_digestSet := ds\<rparr>, Inl (DigestError e))
                        | (ds, None) \<Rightarrow> (st2\<lparr>is_digestSet := ds\<rparr>, Inr i)))"
    for st1 s1 l
  proof (cases "snd (ds_Add i (is_digestSet st))")
    case (Some e)
    then have st': "st' = st1\<lparr>is_images := gm_del i (gm_set i \<lparr>im_layer = l, im_children = []\<rparr> (is_images st)),
        is_digestSet := fst (ds_Add i (is_digestSet st))\<rparr>"
      using r st1 by (cases "ds_Add i (is_digestSet st)") (simp add: Let_def)
    have lay: "layer_of st' = layer_of st" using new by (auto simp: st' st1 layer_of_def fun_eq_iff)
    have "images_held holds H parse st'"
      by (rule images_held_sub [OF held], simp_all only: lay) (use s1(2) in \<open>simp_all add: st' st1\<close>)
    then show ?thesis using s1(1) by (simp add: st' st1)
  next
    case none: None
    then have st': "st' = st1\<lparr>is_images := gm_set i \<lparr>im_layer = l, im_children = []\<rparr> (is_images st),
        is_digestSet := fst (ds_Add i (is_digestSet st))\<rparr>"
      using r st1 by (cases "ds_Add i (is_digestSet st)") (simp add: Let_def)
    have "layer_of st' = (layer_of st)(i := Some l)" by (auto simp: st' st1 layer_of_def fun_eq_iff)
    then have "images_held holds H parse st'"
      by (rule images_held_add [OF held new _ _ cfg]) (use l s1 in \<open>auto simp: st' st1 split: option.splits\<close>)
    then show ?thesis using s1(1) by (simp add: st' st1)
  qed
  show ?thesis
  proof (cases "?c = ''''")
    case True
    show ?thesis
      by (rule done' [of st "is_ls st" None]) (use run None True inv in \<open>simp_all add: create_commit_def Let_def\<close>)
  next
    case ne: False
    show ?thesis
    proof (cases x)
      case (Inl e)
      then have st': "st' = st\<lparr>is_ls := s\<rparr>" using run None ne g by (simp add: create_commit_def Let_def)
      have lay: "layer_of st' = layer_of st" by (simp add: st' layer_of_def fun_eq_iff)
      have "images_held holds H parse st'"
        by (rule images_held_sub [OF held], simp_all only: lay) (use s(2) in \<open>simp_all add: st'\<close>)
      then show ?thesis using s(1) by (simp add: st')
    next
      case (Inr r)
      show ?thesis
        by (rule done' [of "st\<lparr>is_ls := s\<rparr>" s "Some r"])
          (use run None ne g Inr s get_holds [OF inv] get_fresh [OF inv] in \<open>simp_all add: create_commit_def Let_def\<close>)
    qed
  qed
qed

theorem is_Create_held:
  assumes inv: "inv (is_ls st)" and held: "images_held holds H parse st" and free: "no_collision H (is_fs st) config"
    and run: "is_Create H parse lget disk config st = (st', res)"
  shows "inv (is_ls st') \<and> images_held holds H parse st'"
proof -
  obtain st1 x where S: "create_set H parse disk config st = (st1, x :: 'e image_error + _)"
    by (cases "create_set H parse disk config st :: _ \<times> ('e image_error + _)")
  note C = create_set_held [OF held free S]
  show ?thesis
  proof (cases x)
    case (Inl e)
    then show ?thesis using run S C(1,2) inv by (simp add: is_Create_def)
  next
    case (Inr y)
    obtain i diffs where y: "y = (i, diffs)" by (cases y)
    have cfg: "has_config H parse (is_fs st1) i (ChainID H diffs)" using C(7) [of i diffs] unfolding Inr y by blast
    have "create_commit H lget i diffs st1 = (st', res)" using run S Inr y by (simp add: is_Create_def)
    from create_commit_held [OF _ C(1) cfg this] show ?thesis using inv C(2) by simp
  qed
qed

theorem is_Delete_held:
  assumes inv: "inv (is_ls st)" and held: "images_held holds H parse st"
    and run: "is_Delete H lrelease disk i st = Some (st', res)"
  shows "inv (is_ls st') \<and> images_held holds H parse st'"
  using run
proof (cases rule: is_Delete_cases)
  case unknown
  then show ?thesis using inv held by simp
next
  case (bare m)
  have "images_held holds H parse st'"
    by (rule images_held_sub [OF held], simp_all only: is_Delete_frame [OF run]) (simp_all add: bare deleted_frame fs_Delete_content split: if_splits)
  then show ?thesis using inv by (simp add: bare deleted_frame)
next
  case (layer m r s x)
  have i: "layer_of st i = Some (Some r)" using layer by (simp add: layer_of_def)
  from held i obtain c where c: "holds (is_ls st) r c" by (rule images_heldD) simp
  have keep: "holds s q d" if "layer_of st j = Some (Some q)" "j \<noteq> i" "holds (is_ls st) q d" for j q d
    by (rule release_keeps [OF inv c that(3) _ layer(3)]) (use images_held_unique [OF held] that i in blast)
  have "images_held holds H parse st'"
    by (rule images_held_sub [OF held], simp_all only: is_Delete_frame [OF run])
      (use keep in \<open>simp_all add: layer(4) deleted_frame fs_Delete_content split: if_splits\<close>)
  then show ?thesis using release_returns [OF inv, of r] layer by auto
qed

lemma is_Delete_returns:
  assumes "inv (is_ls st)"
  shows "\<exists>st' res. is_Delete H lrelease disk i st = Some (st', res)"
proof (cases "gm_get (is_images st) i")
  case None
  then show ?thesis by (simp add: is_Delete_def)
next
  case m: (Some m)
  then show ?thesis
  proof (cases "im_layer m")
    case (Some r)
    obtain s res where "lrelease r (is_ls st) = Some (s, res)" using release_returns [OF assms, of r] by blast
    then show ?thesis using Some by (simp add: is_Delete_deleted [OF m])
  qed (simp add: is_Delete_deleted)
qed

theorem is_SetParent_held:
  assumes "inv (is_ls st)" "images_held holds H parse st" "is_SetParent H disk i p st = (st', res)"
  shows "inv (is_ls st') \<and> images_held holds H parse st'"
proof -
  note F = is_SetParent_frame [OF assms(3)]
  have "images_held holds H parse st' = images_held holds H parse st" by (rule images_held_cong) (simp_all add: F)
  then show ?thesis using assms F by simp
qed

end

section \<open>The search index\<close>

lemma create_commit_cases:
  assumes i: "digest_valid i" "dg_alg i = A" and wf: "ds_wf A (is_digestSet st)"
    and run: "create_commit H lget i diffs st = (st', res)"
  obtains (known) m where "gm_get (is_images st) i = Some m" "st' = st" "res = Inr i"
  | (missing) s e where "gm_get (is_images st) i = None" "lget (ChainID H diffs) (is_ls st) = (s, Inl e)"
      "st' = st\<lparr>is_ls := s\<rparr>" "res = Inl (LayerError e)"
  | (added) s l where "gm_get (is_images st) i = None"
      "st' = st\<lparr>is_ls := s, is_images := gm_set i \<lparr>im_layer = l, im_children = []\<rparr> (is_images st),
                is_digestSet := fst (ds_Add i (is_digestSet st))\<rparr>" "res = Inr i"
proof (cases "gm_get (is_images st) i")
  case (Some m)
  then have "st' = st" "res = Inr i" using run by (simp_all add: create_commit_def)
  with Some show ?thesis by (rule known)
next
  case None
  obtain ds where ds: "ds_Add i (is_digestSet st) = (ds, None)"
    using ds_Add_ok(3) [OF wf i] by (cases "ds_Add i (is_digestSet st)") simp
  obtain s x where g: "lget (ChainID H diffs) (is_ls st) = (s, x)" by (cases "lget (ChainID H diffs) (is_ls st)")
  show ?thesis
  proof (cases "ChainID H diffs = ''''")
    case True
    show ?thesis
      by (rule added [OF None, where s = "is_ls st" and l = None]) (use True run None ds in \<open>simp_all add: create_commit_def Let_def\<close>)
  next
    case ne: False
    show ?thesis
    proof (cases x)
      case (Inl e)
      show ?thesis
        by (rule missing [OF None g [unfolded Inl]]) (use ne run None g Inl in \<open>simp_all add: create_commit_def Let_def\<close>)
    next
      case (Inr r)
      show ?thesis
        by (rule added [OF None, where s = s and l = "Some r"]) (use ne run None g Inr ds in \<open>simp_all add: create_commit_def Let_def\<close>)
    qed
  qed
qed

end
