(* ===== verification/ImageProps.thy ===== *)
theory ImageProps
  imports ImageInv
begin

text \<open>
  The image store over the layer store as one machine: the operations of the image store, and
  the steps of the other users of its layers, in any order. What holds in every state the
  machine reaches, and what loading a store from its files brings back.
\<close>

section \<open>The search index\<close>

lemma search_okD:
  assumes "search_ok A st"
  shows "ds_wf A (is_digestSet st)" "i \<in> set (is_digestSet st) \<longleftrightarrow> layer_of st i \<noteq> None"
    "layer_of st i \<noteq> None \<Longrightarrow> digest_valid i \<and> dg_alg i = A"
  using assms by (auto simp: search_ok_def ds_wf_def)

lemma create_commit_search:
  assumes ok: "search_ok A st" and i: "digest_valid i" "dg_alg i = A"
    and run: "create_commit H lget i diffs st = (st', res)"
  shows "search_ok A st'"
proof -
  note wf = search_okD(1) [OF ok]
  from i wf run show ?thesis
    by (cases rule: create_commit_cases)
      (use ok ds_Add_ok [OF wf i] in \<open>auto simp: search_ok_def layer_of_def split: if_splits\<close>)
qed

lemma create_set_error: "create_set H parse disk config st = (st1, Inl e) \<Longrightarrow> e \<noteq> LayerError x"
  by (auto simp: create_set_def create_check_def split: option.splits if_splits sum.splits prod.splits)

lemma is_Create_parts:
  fixes res :: "'e image_error + string"
  assumes run: "is_Create H parse lget disk config st = (st', res)"
  obtains (refused) e where "res = Inl e" "st' = st" "\<forall>x. e \<noteq> LayerError x"
  | (written) diffs st1 where "st1 = st\<lparr>is_fs := (is_fs st)\<lparr>db_content := gm_set (H config) config (db_content (is_fs st))\<rparr>\<rparr>"
      "(create_check parse config :: 'e image_error + _) = Inr diffs" "create_commit H lget (H config) diffs st1 = (st', res)"
proof -
  obtain st1 x where S: "create_set H parse disk config st = (st1, x :: 'e image_error + _)"
    by (cases "create_set H parse disk config st :: _ \<times> ('e image_error + _)")
  from S show ?thesis
  proof (cases rule: create_set_cases)
    case (refused e)
    then have "st' = st" "res = Inl e" using run S by (simp_all add: is_Create_def)
    moreover have "\<forall>x. e \<noteq> LayerError x" using create_set_error [OF S [unfolded refused(1)]] by blast
    ultimately
    show ?thesis using that(1) by blast
  next
    case (written diffs)
    have "create_commit H lget (H config) diffs st1 = (st', res)" using run S written(1) by (simp add: is_Create_def)
    then show ?thesis using that(2) written by blast
  qed
qed

lemma create_set_frame:
  assumes "create_set H parse disk config st = (st1, x)"
  shows "is_ls st1 = is_ls st" "is_images st1 = is_images st" "is_digestSet st1 = is_digestSet st"
    "layer_of st1 = layer_of st" "parent_of st1 = parent_of st"
  using assms by (cases rule: create_set_cases; simp add: layer_of_def parent_of_def fun_eq_iff)+

lemma create_set_search:
  "search_ok A st \<Longrightarrow> create_set H parse disk config st = (st1, x) \<Longrightarrow> search_ok A st1"
  by (simp add: search_ok_def create_set_frame)

lemma is_Delete_search:
  assumes ok: "search_ok A st" and run: "is_Delete H lrelease disk i st = Some (st', res)"
  shows "search_ok A st'"
proof (cases "layer_of st i")
  case None
  then show ?thesis using run ok by (simp add: is_Delete_def layer_of_def)
next
  case (Some l)
  have i: "digest_valid i" "dg_alg i = A" using search_okD(3) [OF ok, of i] Some by simp_all
  have "is_digestSet st' = fst (ds_Remove i (is_digestSet st))"
    using run by (cases rule: is_Delete_cases) (use Some in \<open>simp_all add: deleted_frame layer_of_def\<close>)
  then show ?thesis
    using ds_Remove_ok(1,2) [OF search_okD(1) [OF ok] i] search_okD(2) [OF ok] by (auto simp: search_ok_def is_Delete_frame [OF run])
qed

lemma is_SetParent_search:
  "search_ok A st \<Longrightarrow> is_SetParent H disk i p st = (st', res) \<Longrightarrow> search_ok A st'"
  using is_SetParent_frame(1,3) [of H disk i p st st' res] by (simp add: search_ok_def)


section \<open>Children\<close>

text \<open>Every image can be read back.\<close>

definition configured :: "(string \<Rightarrow> string) \<Rightarrow> ('r, 's) image_store \<Rightarrow> bool" where
  "configured H st \<longleftrightarrow> (\<forall>i. layer_of st i \<noteq> None \<longrightarrow> (\<exists>x. fs_get H (\<lambda>_. True) i (is_fs st) = Inr x))"

lemma images_held_configured: "images_held holds H parse st \<Longrightarrow> configured H st"
  unfolding configured_def by (blast elim: images_heldD intro: fs_get_config)

lemma children_exactD:
  assumes "children_exact st"
  shows "parent_of st i = Some p \<Longrightarrow> layer_of st i \<noteq> None \<and> layer_of st p \<noteq> None"
    "gm_get (is_images st) p = Some m \<Longrightarrow> distinct (im_children m)"
    "gm_get (is_images st) p = Some m \<Longrightarrow> set (im_children m) = {i. parent_of st i = Some p}"
  using assms by (auto simp: children_exact_def)

lemma children_exactI:
  assumes "\<And>i p. parent_of st i = Some p \<Longrightarrow> layer_of st i \<noteq> None \<and> layer_of st p \<noteq> None"
    "\<And>p m. gm_get (is_images st) p = Some m \<Longrightarrow> distinct (im_children m) \<and> set (im_children m) = {i. parent_of st i = Some p}"
  shows "children_exact st"
  using assms by (simp add: children_exact_def)

lemma GetParent_readable:
  assumes "\<exists>x. fs_get H (\<lambda>_. True) i (is_fs st) = Inr x"
  shows "is_GetParent H (\<lambda>_. True) i st = (case parent_of st i of None \<Rightarrow> Inl (FsError (FsFailed (ReadMeta i ''parent''))) | Some p \<Rightarrow> Inr p)"
  using assms by (auto simp: is_GetParent_def fs_GetMetadata_def parent_of_def split: option.split)

lemma drop_child_get:
  "gm_get (drop_child p i images) j = (if j = p then map_option (\<lambda>m. m\<lparr>im_children := gs_del i (im_children m)\<rparr>) (gm_get images j)
     else gm_get images j)"
  by (auto simp: drop_child_def split: option.split)

lemma unlink_images:
  assumes "\<exists>x. fs_get H (\<lambda>_. True) i (is_fs st) = Inr x"
  shows "gm_get (is_images (unlink_parent H (\<lambda>_. True) i st)) j =
     (if parent_of st i = Some j then map_option (\<lambda>m. m\<lparr>im_children := gs_del i (im_children m)\<rparr>) (gm_get (is_images st) j)
      else gm_get (is_images st) j)"
  by (auto simp: unlink_parent_def GetParent_readable [OF assms] drop_child_get split: option.split)

lemma create_set_children:
  "children_exact st \<Longrightarrow> create_set H parse disk config st = (st1, x) \<Longrightarrow> children_exact st1"
  by (simp add: children_exact_def create_set_frame)

lemma create_commit_children:
  assumes c1: "children_exact st" and S: "search_ok A st" and h: "digest_valid i" "dg_alg i = A"
    and run: "create_commit H lget i diffs st = (st', res)"
  shows "children_exact st'"
proof -
  note wf = search_okD(1) [OF S]
  from h wf run show ?thesis
  proof (cases rule: create_commit_cases)
    case known
    then show ?thesis using c1 by simp
  next
    case missing
    then show ?thesis using c1 by (simp add: children_exact_def parent_of_def)
  next
    case (added s l)
    have p: "parent_of st' = parent_of st" by (simp add: added parent_of_def fun_eq_iff)
    have lay: "layer_of st' j = (if j = i then Some l else layer_of st j)" for j by (simp add: added layer_of_def)
    have im: "gm_get (is_images st') = (gm_get (is_images st))(i \<mapsto> \<lparr>im_layer = l, im_children = []\<rparr>)" by (simp add: added)
    have n: "layer_of st i = None" using added(1) by (simp add: layer_of_def)
    show ?thesis
    proof (rule children_exactI)
      show "layer_of st' j \<noteq> None \<and> layer_of st' q \<noteq> None" if "parent_of st' j = Some q" for j q
        using children_exactD(1) [OF c1, of j q] that by (simp add: p lay)
      show "distinct (im_children m) \<and> set (im_children m) = {j. parent_of st' j = Some q}"
        if m: "gm_get (is_images st') q = Some m" for q m
      proof (cases "q = i")
        case True
        then have "parent_of st j \<noteq> Some q" for j using n children_exactD(1) [OF c1, of j q] by auto
        then show ?thesis using m True by (auto simp: p im)
      next
        case False
        then show ?thesis using m children_exactD(2,3) [OF c1] by (simp add: p im)
      qed
    qed
  qed
qed

lemma dropped_entry:
  "(if d then None else if b then map_option (\<lambda>m. m\<lparr>im_children := f (im_children m)\<rparr>) y else y) = Some x \<Longrightarrow>
     \<exists>z. y = Some z \<and> \<not> d \<and> im_children x = (if b then f (im_children z) else im_children z)"
  by (cases y) (auto split: if_splits)

lemma deleted_children:
  assumes ok: "children_exact st" and cfg: "configured H st" and m: "gm_get (is_images st) i = Some m"
  shows "children_exact (deleted H (\<lambda>_. True) i (im_children m) st)"
proof -
  let ?s = "st\<lparr>is_fs := delete_parents (\<lambda>_. True) (im_children m) (is_fs st)\<rparr>" and ?t = "deleted H (\<lambda>_. True) i (im_children m) st"
  have cs: "j \<in> set (im_children m) \<longleftrightarrow> parent_of st j = Some i" for j using children_exactD(3) [OF ok m] by blast
  have par: "parent_of ?s j = (if parent_of st j = Some i then None else parent_of st j)" for j
    by (simp add: parent_of_def [of ?s] delete_parents_meta cs) (simp add: parent_of_def)
  have part: "parent_of ?t j = (if j = i \<or> parent_of st j = Some i then None else parent_of st j)" for j
    by (simp add: parent_of_def [of ?t] deleted_frame fs_Delete_meta delete_parents_meta cs) (simp add: parent_of_def)
  have "layer_of st i \<noteq> None" using m by (simp add: layer_of_def)
  then have get: "\<exists>x. fs_get H (\<lambda>_. True) i (is_fs ?s) = Inr x" using cfg by (simp add: configured_def fs_get_def)
  have img: "gm_get (is_images ?t) j = (if j = i then None else if parent_of ?s i = Some j
      then map_option (\<lambda>m. m\<lparr>im_children := gs_del i (im_children m)\<rparr>) (gm_get (is_images st) j) else gm_get (is_images st) j)" for j
    using unlink_images [OF get, of j] by (simp add: deleted_def Let_def)
  show ?thesis
  proof (rule children_exactI)
    show "layer_of ?t j \<noteq> None \<and> layer_of ?t p \<noteq> None" if "parent_of ?t j = Some p" for j p
      using that children_exactD(1) [OF ok, of j p] by (auto simp: part deleted_frame split: if_splits)
    fix p x
    assume x: "gm_get (is_images ?t) p = Some x"
    from dropped_entry [OF x [unfolded img]]
    obtain y where y: "gm_get (is_images st) p = Some y" "p \<noteq> i"
      and xy: "im_children x = (if parent_of ?s i = Some p then gs_del i (im_children y) else im_children y)" by blast
    have "set (im_children x) = {j. parent_of ?t j = Some p}"
    proof (rule set_eqI)
      fix j
      have "k \<in> set (im_children y) \<longleftrightarrow> parent_of st k = Some p" for k using children_exactD(3) [OF ok y(1)] by blast
      from this [of i] this [of j] show "j \<in> set (im_children x) \<longleftrightarrow> j \<in> {j. parent_of ?t j = Some p}"
        unfolding xy mem_Collect_eq part par using y(2) by (auto split: if_splits)
    qed
    then show "distinct (im_children x) \<and> set (im_children x) = {j. parent_of ?t j = Some p}"
      using children_exactD(2) [OF ok y(1)] by (simp add: xy)
  qed
qed

lemma is_Delete_children:
  assumes ok: "children_exact st" and cfg: "configured H st" and run: "is_Delete H lrelease (\<lambda>_. True) i st = Some (st', res)"
  shows "children_exact st'"
  using run
proof (cases rule: is_Delete_cases)
  case unknown
  then show ?thesis using ok by simp
next
  case (bare m)
  then show ?thesis using deleted_children [OF ok cfg] by simp
next
  case (layer m r s x)
  then show ?thesis using deleted_children [OF ok cfg layer(1)] by (simp add: children_exact_def parent_of_def)
qed

lemma is_SetParent_children:
  assumes ok: "children_exact st" and cfg: "configured H st" and i: "layer_of st i \<noteq> None"
    and run: "is_SetParent H (\<lambda>_. True) i p st = (st', res)"
  shows "children_exact st'"
proof (cases "gm_get (is_images st) p")
  case None
  then show ?thesis using run ok by (simp add: is_SetParent_def)
next
  case (Some m)
  note F = is_SetParent_frame [OF run]
  have lp: "layer_of st p \<noteq> None" using Some by (simp add: layer_of_def)
  have get: "\<exists>x. fs_get H (\<lambda>_. True) i (is_fs st) = Inr x" using cfg i by (simp add: configured_def)
  let ?u = "unlink_parent H (\<lambda>_. True) i st"
  obtain y where y: "gm_get (is_images ?u) p = Some y"
    using Some unfolding unlink_images [OF get] by (cases "parent_of st i = Some p") auto
  have st': "st' = ?u\<lparr>is_images := gm_set p (y\<lparr>im_children := gs_add i (im_children y)\<rparr>) (is_images ?u),
      is_fs := (is_fs st)\<lparr>db_meta := gm_set (i, ''parent'') p (db_meta (is_fs st))\<rparr>\<rparr>"
    using run Some y get by (auto simp: is_SetParent_def Let_def fs_SetMetadata_def)
  have par: "parent_of st' j = (if j = i then Some p else parent_of st j)" for j by (simp add: st' parent_of_def)
  show ?thesis
  proof (rule children_exactI)
    show "layer_of st' j \<noteq> None \<and> layer_of st' q \<noteq> None" if "parent_of st' j = Some q" for j q
      using that children_exactD(1) [OF ok, of j q] i lp by (simp add: par F split: if_splits)
    fix q x
    assume x: "gm_get (is_images st') q = Some x"
    obtain z where z: "gm_get (is_images st) q = Some z"
      "im_children x = (if q = p then gs_add i else id) ((if parent_of st i = Some q then gs_del i else id) (im_children z))"
      using x y by (auto simp: st' unlink_images [OF get] split: if_splits)
    note E = children_exactD(2,3) [OF ok z(1)]
    have "set (im_children x) = {j. parent_of st' j = Some q}" using E(2) by (auto simp: z(2) par split: if_splits)
    then show "distinct (im_children x) \<and> set (im_children x) = {j. parent_of st' j = Some q}" using E(1) by (simp add: z(2))
  qed
qed


section \<open>The machine\<close>

text \<open>
  \<open>D\<close> are the behaviours of the disk that are possible. A creation takes two steps, since the
  configuration is written before the lock is taken; \<open>Q\<close> has the creations between the two, and any
  other step can come in between, but for one: an image is not deleted while a creation of the
  same image is between its steps. (\<open>create_delete_race\<close> of ImageRestart shows what happens then.)
  A parent is set for an image that is still there, as its callers do right after they created it. Other
  users of the layer store take any step that does not release a reference an image holds.
\<close>

definition foreign :: "('m, 'x, 'd) layer_ops \<Rightarrow> (layer_ref, ('m, 'd) layerstore) image_store \<Rightarrow> ('m, 'd) layerstore \<Rightarrow> bool" where
  "foreign K st ls' \<longleftrightarrow>
     (\<forall>l res i r. ls_Release K l (is_ls st) = Some (ls', res) \<longrightarrow> layer_of st i = Some (Some r) \<longrightarrow> ref_ids r \<inter> ref_ids l = {})"

inductive image_step ::
  "('m, 'x, 'd) layer_ops \<Rightarrow> (string \<Rightarrow> string) \<Rightarrow> (string \<Rightarrow> image_config option) \<Rightarrow> (fs_call \<Rightarrow> bool) set
     \<Rightarrow> (layer_ref, ('m, 'd) layerstore) image_store \<times> 'x pending list \<times> (string \<times> string list) list
     \<Rightarrow> (layer_ref, ('m, 'd) layerstore) image_store \<times> 'x pending list \<times> (string \<times> string list) list \<Rightarrow> bool"
  for K :: "('m, 'x, 'd) layer_ops" and H :: "string \<Rightarrow> string" and parse :: "string \<Rightarrow> image_config option"
    and D :: "(fs_call \<Rightarrow> bool) set" where
  create_refused: "disk \<in> D \<Longrightarrow> create_set H parse disk config st = (st', Inl (e :: layer_error image_error)) \<Longrightarrow>
    image_step K H parse D (st, P, Q) (st', P, Q)"
| create_write: "disk \<in> D \<Longrightarrow> no_collision H (is_fs st) config \<Longrightarrow>
    create_set H parse disk config st = (st', (Inr (i, diffs) :: layer_error image_error + _)) \<Longrightarrow>
    image_step K H parse D (st, P, Q) (st', P, (i, diffs) # Q)"
| create_commit: "(i, diffs) \<in> set Q \<Longrightarrow> create_commit H ls_Get i diffs st = (st', res) \<Longrightarrow>
    image_step K H parse D (st, P, Q) (st', P, remove1 (i, diffs) Q)"
| delete: "disk \<in> D \<Longrightarrow> i \<notin> fst ` set Q \<Longrightarrow> is_Delete H (ls_Release K) disk i st = Some (st', res) \<Longrightarrow>
    image_step K H parse D (st, P, Q) (st', P, Q)"
| set_parent: "disk \<in> D \<Longrightarrow> gm_get (is_images st) i \<noteq> None \<Longrightarrow>
    is_SetParent H disk i p st = (st', (res :: layer_error image_error option)) \<Longrightarrow> image_step K H parse D (st, P, Q) (st', P, Q)"
| other: "layer_step K (is_ls st, P) (ls', P') \<Longrightarrow> foreign K st ls' \<Longrightarrow>
    image_step K H parse D (st, P, Q) (st\<lparr>is_ls := ls'\<rparr>, P', Q)"

definition no_images :: "'s \<Rightarrow> ('r, 's) image_store" where
  "no_images s = \<lparr>is_ls = s, is_images = [], is_fs = \<lparr>db_content = [], db_meta = []\<rparr>, is_digestSet = []\<rparr>"

inductive image_run ::
  "('m, 'x, 'd) layer_ops \<Rightarrow> (string \<Rightarrow> string) \<Rightarrow> (string \<Rightarrow> image_config option) \<Rightarrow> (fs_call \<Rightarrow> bool) set
     \<Rightarrow> (layer_ref, ('m, 'd) layerstore) image_store \<Rightarrow> 'x pending list \<Rightarrow> (string \<times> string list) list \<Rightarrow> bool"
  for K :: "('m, 'x, 'd) layer_ops" and H :: "string \<Rightarrow> string" and parse :: "string \<Rightarrow> image_config option"
    and D :: "(fs_call \<Rightarrow> bool) set" where
  start: "layer_reach K ls P \<Longrightarrow> image_run K H parse D (no_images ls) P []"
| step: "image_run K H parse D st P Q \<Longrightarrow> image_step K H parse D (st, P, Q) (st', P', Q') \<Longrightarrow> image_run K H parse D st' P' Q'"

text \<open>The states in which no creation is between its two steps.\<close>

definition image_reach ::
  "('m, 'x, 'd) layer_ops \<Rightarrow> (string \<Rightarrow> string) \<Rightarrow> (string \<Rightarrow> image_config option) \<Rightarrow> (fs_call \<Rightarrow> bool) set
     \<Rightarrow> (layer_ref, ('m, 'd) layerstore) image_store \<Rightarrow> 'x pending list \<Rightarrow> bool" where
  "image_reach K H parse D st P \<longleftrightarrow> image_run K H parse D st P []"

lemma image_reach_start: "layer_reach K ls P \<Longrightarrow> image_reach K H parse D (no_images ls) P"
  by (simp add: image_reach_def image_run.start)

lemma image_reach_create:
  assumes "image_reach K H parse D st P" "disk \<in> D" "no_collision H (is_fs st) config"
    and run: "is_Create H parse ls_Get disk config st = (st', res)"
  shows "image_reach K H parse D st' P"
proof -
  note R = assms(1) [unfolded image_reach_def]
  obtain st1 x where S: "create_set H parse disk config st = (st1, x :: layer_error image_error + _)"
    by (cases "create_set H parse disk config st :: _ \<times> (layer_error image_error + _)")
  show ?thesis
  proof (cases x)
    case (Inl e)
    then have "st' = st1" using run S by (simp add: is_Create_def)
    then show ?thesis
      using image_run.step [OF R image_step.create_refused [OF assms(2) S [unfolded Inl]]] by (simp add: image_reach_def)
  next
    case (Inr y)
    obtain i diffs where y: "y = (i, diffs)" by (cases y)
    have "create_commit H ls_Get i diffs st1 = (st', res)" using run S Inr y by (simp add: is_Create_def)
    then have "image_step K H parse D (st1, P, [(i, diffs)]) (st', P, remove1 (i, diffs) [(i, diffs)])"
      by (rule image_step.create_commit [rotated]) simp
    from image_run.step [OF image_run.step [OF R image_step.create_write [OF assms(2,3) S [unfolded Inr y]]] this]
    show ?thesis by (simp add: image_reach_def)
  qed
qed

lemma image_reach_delete:
  assumes "image_reach K H parse D st P" "disk \<in> D" "is_Delete H (ls_Release K) disk i st = Some (st', res)"
  shows "image_reach K H parse D st' P"
  using image_run.step [OF assms(1) [unfolded image_reach_def] image_step.delete [OF assms(2) _ assms(3)]] by (simp add: image_reach_def)

lemma image_reach_set_parent:
  assumes "image_reach K H parse D st P" "disk \<in> D" "gm_get (is_images st) i \<noteq> None"
    and "is_SetParent H disk i p st = (st', (res :: layer_error image_error option))"
  shows "image_reach K H parse D st' P"
  using image_run.step [OF assms(1) [unfolded image_reach_def] image_step.set_parent [OF assms(2-4)]] by (simp add: image_reach_def)

lemma no_images_layers [simp]: "layer_of (no_images s) i = None" "parent_of (no_images s) i = None"
  by (simp_all add: layer_of_def parent_of_def no_images_def)

lemma other_held:
  assumes "layer_step K (is_ls st, P) (ls', P')" "foreign K st ls'" "layer_reach K (is_ls st) P"
    and held: "images_held ls_holds H parse st"
  shows "images_held ls_holds H parse (st\<lparr>is_ls := ls'\<rparr>)"
proof (rule images_held_sub [OF held], simp_all)
  fix i r c
  assume "layer_of st i = Some (Some r)" "ls_holds (is_ls st) r c"
  then show "ls_holds ls' r c"
    using layer_step_holds [OF assms(1) layer_reach_ok [OF assms(3)], of r c] assms(2) unfolding foreign_def by blast
qed

definition pending_ok :: "(string \<Rightarrow> string) \<Rightarrow> (string \<Rightarrow> image_config option) \<Rightarrow> imagedb \<Rightarrow> (string \<times> string list) list \<Rightarrow> bool" where
  "pending_ok H parse db Q \<longleftrightarrow> (\<forall>(i, diffs) \<in> set Q. has_config H parse db i (ChainID H diffs))"

lemma pending_ok_cong:
  assumes "pending_ok H parse db Q" "\<And>i. i \<in> fst ` set Q \<Longrightarrow> gm_get (db_content db') i = gm_get (db_content db) i"
  shows "pending_ok H parse db' Q"
  unfolding pending_ok_def
proof safe
  fix i diffs
  assume q: "(i, diffs) \<in> set Q"
  then have "gm_get (db_content db') i = gm_get (db_content db) i" by (intro assms(2)) force
  then show "has_config H parse db' i (ChainID H diffs)" using assms(1) q has_config_cong unfolding pending_ok_def by fast
qed

lemma bspec_subset: "\<forall>x \<in> B. P x \<Longrightarrow> A \<subseteq> B \<Longrightarrow> \<forall>x \<in> A. P x"
  by blast

lemma create_set_content:
  assumes "create_set H parse disk config st = (st1, x)" "no_collision H (is_fs st) config" "has_config H parse (is_fs st) i c"
  shows "has_config H parse (is_fs st1) i c"
  using assms(1)
proof (cases rule: create_set_cases)
  case refused
  then show ?thesis using assms(3) by simp
next
  case written
  then show ?thesis using written_keeps [OF assms(2,3)] by simp
qed

lemma create_commit_disk:
  "create_commit H lget i diffs st = (st', res) \<Longrightarrow> is_fs st' = is_fs st"
  by (auto simp: create_commit_def Let_def split: option.splits if_splits sum.splits prod.splits)

lemma is_Delete_content:
  assumes run: "is_Delete H lrelease disk i st = Some (st', res)" and "j \<noteq> i"
  shows "gm_get (db_content (is_fs st')) j = gm_get (db_content (is_fs st)) j"
  using run by (cases rule: is_Delete_cases) (simp_all add: deleted_frame(5) assms(2))

lemma image_run_held:
  assumes "image_run K H parse D st P Q"
  shows "layer_reach K (is_ls st) P \<and> images_held ls_holds H parse st \<and> pending_ok H parse (is_fs st) Q"
  using assms
proof (induction rule: image_run.induct)
  case (start ls P)
  then show ?case by (simp add: images_held_def pending_ok_def) (simp add: no_images_def)
next
  case (step st P Q st' P' Q')
  then have I: "layer_reach K (is_ls st) P" "images_held ls_holds H parse st" "pending_ok H parse (is_fs st) Q" by auto
  from step(2) show ?case
  proof cases
    case (create_refused disk config e)
    from create_refused(4) have "st' = st" by (cases rule: create_set_cases) simp_all
    then show ?thesis using I create_refused by simp
  next
    case (create_write disk config i diffs)
    note C = create_set_held [OF I(2) create_write(4,5)]
    have "pending_ok H parse (is_fs st') Q"
      using I(3) create_set_content [OF create_write(5,4)] unfolding pending_ok_def by blast
    moreover have "has_config H parse (is_fs st') i (ChainID H diffs)" using C(7) [OF refl] by blast
    ultimately show ?thesis using I(1) C(1,2) create_write(1,2) by (simp add: pending_ok_def)
  next
    case (create_commit i diffs res)
    then have "has_config H parse (is_fs st) i (ChainID H diffs)" using I(3) by (auto simp: pending_ok_def)
    from ls.create_commit_held [OF I(1,2) this create_commit(4)] show ?thesis
      using I(3) create_commit(1,2) create_commit_disk [OF create_commit(4)]
        bspec_subset [OF I(3) [unfolded pending_ok_def] set_remove1_subset] by (simp add: pending_ok_def)
  next
    case (delete disk i res)
    have "pending_ok H parse (is_fs st') Q"
      by (rule pending_ok_cong [OF I(3)]) (use is_Delete_content [OF delete(5)] delete(4) in metis)
    then show ?thesis using ls.is_Delete_held [OF I(1,2) delete(5)] delete by simp
  next
    case (set_parent disk i p res)
    have "pending_ok H parse (is_fs st') Q"
      by (rule pending_ok_cong [OF I(3)]) (simp add: is_SetParent_frame(4) [OF set_parent(5)])
    then show ?thesis using ls.is_SetParent_held [OF I(1,2) set_parent(5)] set_parent by simp
  next
    case (other ls')
    then show ?thesis using other_held [OF other(3,4) I(1,2)] layer_reach.step [OF I(1)] I(3) by auto
  qed
qed

lemma image_reach_held:
  "image_reach K H parse D st P \<Longrightarrow> layer_reach K (is_ls st) P \<and> images_held ls_holds H parse st"
  using image_run_held unfolding image_reach_def by blast

lemma pending_digest:
  assumes "image_run K H parse D st P Q" "digests_ok H A" "(i, diffs) \<in> set Q"
  shows "digest_valid i" "dg_alg i = A"
proof -
  have "has_config H parse (is_fs st) i (ChainID H diffs)" using image_run_held [OF assms(1)] assms(3) by (auto simp: pending_ok_def)
  then show "digest_valid i" "dg_alg i = A" using assms(2) by (auto simp: has_config_def digests_ok_def)
qed

lemma image_run_search:
  assumes "image_run K H parse D st P Q" and A: "digests_ok H A"
  shows "search_ok A st"
  using assms(1)
proof (induction rule: image_run.induct)
  case (start ls P)
  then show ?case by (simp add: search_ok_def ds_wf_def) (simp add: no_images_def)
next
  case (step st P Q st' P' Q')
  note I = step(3)
  from step(2) show ?case
  proof cases
    case create_refused
    then show ?thesis using create_set_search [OF I] by blast
  next
    case create_write
    then show ?thesis using create_set_search [OF I] by blast
  next
    case create_commit
    then show ?thesis using create_commit_search [OF I] pending_digest [OF step(1) A] by blast
  next
    case delete
    then show ?thesis using is_Delete_search [OF I] by blast
  next
    case set_parent
    then show ?thesis using is_SetParent_search [OF I] by blast
  next
    case other
    then show ?thesis using I by (simp add: search_ok_def)
  qed
qed

lemma image_reach_search: "image_reach K H parse D st P \<Longrightarrow> digests_ok H A \<Longrightarrow> search_ok A st"
  unfolding image_reach_def by (rule image_run_search)

lemma image_run_children:
  assumes "image_run K H parse {\<lambda>_. True} st P Q" and A: "digests_ok H A"
  shows "children_exact st"
  using assms(1)
proof (induction rule: image_run.induct)
  case (start ls P)
  then show ?case by (simp add: children_exact_def) (simp add: no_images_def)
next
  case (step st P Q st' P' Q')
  note I = step(3) and S = image_run_search [OF step(1) A]
  have C: "configured H st" using image_run_held [OF step(1)] images_held_configured by blast
  from step(2) show ?case
  proof cases
    case create_refused
    then show ?thesis using create_set_children [OF I] by blast
  next
    case create_write
    then show ?thesis using create_set_children [OF I] by blast
  next
    case create_commit
    then show ?thesis using create_commit_children [OF I S] pending_digest [OF step(1) A] by blast
  next
    case (delete disk i res)
    then show ?thesis using is_Delete_children [OF I C] by simp
  next
    case (set_parent disk i p res)
    then show ?thesis using is_SetParent_children [OF I C, of i p st' res] by (simp add: layer_of_def)
  next
    case (other ls')
    then show ?thesis using I by (simp add: children_exact_def parent_of_def)
  qed
qed

lemma image_reach_children: "image_reach K H parse {\<lambda>_. True} st P \<Longrightarrow> digests_ok H A \<Longrightarrow> children_exact st"
  unfolding image_reach_def by (rule image_run_children)


section \<open>An example\<close>

definition ex_H :: "string \<Rightarrow> string" where
  "ex_H s = ''sha256:'' @ replicate 63 (CHR ''0'') @ [if length s = 3 then CHR ''a'' else if length s = 4 then CHR ''b'' else CHR ''c'']"

definition ex_parse :: "string \<Rightarrow> image_config option" where
  "ex_parse s =
     (if s = ''cfg'' \<or> s = ''next'' then Some \<lparr>ic_rootfs = Some [''sha:os''], ic_history = [False]\<rparr>
      else if s = ''stray'' then Some \<lparr>ic_rootfs = Some [''sha:gone''], ic_history = [False]\<rparr>
      else None)"

definition ex_im1 :: "(layer_ref, (unit, string list) layerstore) image_store" where
  "ex_im1 = fst (is_Create ex_H ex_parse ls_Get (\<lambda>_. True) ''cfg'' (no_images ex_store2))"
definition ex_im2 :: "(layer_ref, (unit, string list) layerstore) image_store" where
  "ex_im2 = fst (is_Create ex_H ex_parse ls_Get (\<lambda>_. True) ''next'' ex_im1)"
definition ex_im3 :: "(layer_ref, (unit, string list) layerstore) image_store" where
  "ex_im3 = fst (is_SetParent ex_H (\<lambda>_. True) (ex_H ''next'') (ex_H ''cfg'') ex_im2 :: _ \<times> layer_error image_error option)"

lemma ex_H_ok: "digests_ok ex_H ''sha256''"
proof -
  have "ex_H x \<in> {ex_H ''cfg'', ex_H ''next'', ex_H ''''}" for x by (auto simp: ex_H_def)
  moreover have "\<forall>d \<in> set [ex_H ''cfg'', ex_H ''next'', ex_H '''']. digest_valid d \<and> dg_alg d = ''sha256''" by code_simp
  ultimately have "digest_valid (ex_H x) \<and> dg_alg (ex_H x) = ''sha256''" for x by (metis (no_types) list.set_intros insert_iff empty_iff list.set(1,2))
  then show ?thesis unfolding digests_ok_def by blast
qed

lemma ex_im3_reach: "image_reach ex_ops ex_H ex_parse {\<lambda>_. True} ex_im3 []"
proof -
  let ?R = "\<lambda>st. image_reach ex_ops ex_H ex_parse {\<lambda>_. True} st []"
  have "?R ex_im1" unfolding ex_im1_def
    by (rule image_reach_create [OF image_reach_start [OF ex_store2_reach] _ _ surjective_pairing]) (simp, code_simp)
  then have "?R ex_im2" unfolding ex_im2_def
    by (rule image_reach_create [OF _ _ _ surjective_pairing]) (simp, code_simp)
  then show "?R ex_im3" unfolding ex_im3_def
    by (rule image_reach_set_parent [OF _ _ _ surjective_pairing]) (simp, code_simp)
qed

lemmas ex_im3_run = ex_im3_reach [unfolded image_reach_def]

lemma ex_images: "map fst (is_images ex_im3) = [ex_H ''cfg'', ex_H ''next'']"
  by code_simp

section \<open>Layers\<close>

text \<open>
  C28. In every state the image store and the other users of the layer store can reach, also
  between the two steps of creations and when the disk fails, each image of the store has its configuration
  on disk under its digest, and the layer of the last of the configuration's layers is in the layer store and in
  use by the image's own reference. This assumes that no image is deleted between the two steps of a creation of the
  same image, which the store does not prevent: see \<open>create_delete_race\<close>. It also assumes that contents with the same
  digest are equal, and that others do not release the references that images hold.
\<close>

theorem image_layers_held:
  assumes "image_run K H parse D st P Q" "gm_get (is_images st) i = Some m"
  shows "\<exists>config img diffs. gm_get (db_content (is_fs st)) i = Some config \<and> H config = i \<and>
     parse config = Some img \<and> ic_rootfs img = Some diffs \<and>
     (case im_layer m of
        None \<Rightarrow> ChainID H diffs = ''''
      | Some r \<Rightarrow> gm_get (ls_layerMap (is_ls st)) (ChainID H diffs) = Some (ref_layer r) \<and>
          hasReference (ref_layer r) r (is_ls st) \<and> rl_count (obj (is_ls st) (ref_layer r)) > 0)"
proof -
  have I: "layer_reach K (is_ls st) P" "images_held ls_holds H parse st" using image_run_held [OF assms(1)] by auto
  have "layer_of st i = Some (im_layer m)" using assms(2) by (simp add: layer_of_def)
  with I(2) obtain c where c: "has_config H parse (is_fs st) i c"
    "case im_layer m of None \<Rightarrow> c = '''' | Some r \<Rightarrow> ls_holds (is_ls st) r c" by (rule images_heldD)
  have "gm_get (ls_layerMap (is_ls st)) c = Some (ref_layer r) \<and> hasReference (ref_layer r) r (is_ls st) \<and>
      rl_count (obj (is_ls st) (ref_layer r)) > 0" if r: "ls_holds (is_ls st) r c" for r
  proof -
    obtain k a where a: "r = CacheRef k a" "live (is_ls st) a" "k \<in> set (rl_refs (obj (is_ls st) a))" "rl_chainID (obj (is_ls st) a) = c"
      using r by (auto simp: ls_holds_def split: layer_ref.splits)
    have "length (rl_refs (obj (is_ls st) a)) > 0" using a(3) by (cases "rl_refs (obj (is_ls st) a)") auto
    then show ?thesis using a layer_invD(3) [OF store_okD(1) [OF layer_reach_ok [OF I(1)]] a(2)]
      by (simp add: hasReference_def live_def del: length_greater_0_conv)
  qed
  then show ?thesis using c by (cases "im_layer m") (auto simp: has_config_def)
qed


theorem image_layers_held_witness:
  "gm_get (ls_layerMap (is_ls ex_im3)) ''sha:os'' = Some 0 \<and> im_layer (the (gm_get (is_images ex_im3) (ex_H ''next''))) = Some (CacheRef 3 0)"
proof -
  obtain m where m: "gm_get (is_images ex_im3) (ex_H ''next'') = Some m" "im_layer m = Some (CacheRef 3 0)"
    by (rule that [of "the (gm_get (is_images ex_im3) (ex_H ''next''))"]) code_simp+
  have c: "gm_get (db_content (is_fs ex_im3)) (ex_H ''next'') = Some ''next''" by code_simp
  from image_layers_held [OF ex_im3_run m(1)] show ?thesis
    using m by (auto simp: c) (auto simp: ex_parse_def ChainID_def CreateChainID_def)
qed

section \<open>Searching\<close>

text \<open>
  In every such state a search by a digest, or by a prefix of its hexadecimal part with or
  without the algorithm, returns the one image that matches, the error for no such image
  exactly when none does, and the error for an ambiguous prefix when several do.
\<close>

theorem image_search:
  assumes "image_reach K H parse D st P" "digests_ok H A"
  shows "let found = {i. gm_get (is_images st) i \<noteq> None \<and> matches t i}
     in (is_Search t st = Inr i \<longleftrightarrow> found = {i}) \<and>
        (is_Search t st = Inl (NoSuchImage t) \<longleftrightarrow> found = {}) \<and>
        (is_Search t st = Inl (DigestError ErrDigestAmbiguous) \<longleftrightarrow> (\<exists>j k. j \<in> found \<and> k \<in> found \<and> j \<noteq> k))"
proof -
  define found where "found = {i. gm_get (is_images st) i \<noteq> None \<and> matches t i}"
  note S = search_okD [OF image_reach_search [OF assms(1,2)]]
  let ?l = "filter (matches t) (is_digestSet st)"
  have l: "set ?l = found" using S(2) by (auto simp: found_def layer_of_def)
  have "distinct (map dg_hex (is_digestSet st))"
    using S(1) by (auto simp: ds_wf_def strict_sorted_iff)
  then have d: "distinct ?l" by (auto simp: distinct_map)
  consider "?l = []" | e where "?l = [e]" | x y zs where "?l = x # y # zs" by (cases ?l rule: remdups_adj.cases) auto
  then show ?thesis
  proof cases
    case 1
    then show ?thesis using l unfolding Let_def found_def [symmetric] by (auto simp: is_Search_def ds_Lookup_spec [OF S(1)])
  next
    case (2 e)
    then show ?thesis using l unfolding Let_def found_def [symmetric] by (auto simp: is_Search_def ds_Lookup_spec [OF S(1)])
  next
    case (3 x y zs)
    then have "x \<in> found" "y \<in> found" "x \<noteq> y" using l d by auto
    then show ?thesis using 3 unfolding Let_def found_def [symmetric] by (auto simp: is_Search_def ds_Lookup_spec [OF S(1)])
  qed
qed

theorem image_search_witness:
  "is_Search (replicate 63 (CHR ''0'')) ex_im3 = (Inl (DigestError ErrDigestAmbiguous) :: unit image_error + string) \<and>
   is_Search (replicate 63 (CHR ''0'') @ ''b'') ex_im3 = (Inr (ex_H ''next'') :: unit image_error + string)"
proof -
  have im: "gm_get (is_images ex_im3) i \<noteq> None \<longleftrightarrow> i = ex_H ''cfg'' \<or> i = ex_H ''next''" for i
    using ex_images by (metis (no_types) domIff dom_map_of_conv_image_fst empty_iff insert_iff list.set(1,2) set_map)
  have m: "matches (replicate 63 (CHR ''0'')) (ex_H ''cfg'')" "matches (replicate 63 (CHR ''0'')) (ex_H ''next'')"
    "\<not> matches (replicate 63 (CHR ''0'') @ ''b'') (ex_H ''cfg'')" "matches (replicate 63 (CHR ''0'') @ ''b'') (ex_H ''next'')"
    "ex_H ''cfg'' \<noteq> ex_H ''next''"
    by code_simp+
  note S = image_search [OF ex_im3_reach ex_H_ok, unfolded im Let_def]
  have "is_Search (replicate 63 (CHR ''0'')) ex_im3 = (Inl (DigestError ErrDigestAmbiguous) :: unit image_error + string)"
    using m by (simp only: S) blast
  moreover have "is_Search (replicate 63 (CHR ''0'') @ ''b'') ex_im3 = (Inr (ex_H ''next'') :: unit image_error + string)"
    using m by (simp only: S) blast
  ultimately show ?thesis ..
qed

section \<open>Parents and children\<close>

text \<open>
  C29. As long as the disk works, the children the store lists for an image are exactly the
  images whose parent on disk is that image, each once, and a recorded parent is an image; also between the two
  steps of creations. As for the layers, no image is deleted between the two steps of a creation of the
  same image, and a parent is set only for an image that is in the store: otherwise \<^verbatim>\<open>SetParent\<close> lists a child
  and then fails to write its parent.
\<close>

theorem image_children_exact:
  assumes "image_run K H parse {\<lambda>_. True} st P Q" "digests_ok H A"
  shows "(gm_get (is_images st) p \<noteq> None \<longrightarrow> distinct (is_Children p st) \<and>
       (\<forall>i. i \<in> set (is_Children p st) \<longleftrightarrow>
          gm_get (is_images st) i \<noteq> None \<and> is_GetParent H (\<lambda>_. True) i st = (Inr p :: unit image_error + string))) \<and>
     (gm_get (is_images st) i \<noteq> None \<longrightarrow> is_GetParent H (\<lambda>_. True) i st = (Inr p :: unit image_error + string) \<longrightarrow>
       gm_get (is_images st) p \<noteq> None)"
proof -
  note E = children_exactD [OF image_run_children [OF assms]]
  have cfg: "configured H st" using image_run_held [OF assms(1)] images_held_configured by blast
  have par: "is_GetParent H (\<lambda>_. True) j st = (Inr p :: unit image_error + string) \<longleftrightarrow> parent_of st j = Some p"
    if "gm_get (is_images st) j \<noteq> None" for j
    using GetParent_readable [of H j st] cfg that by (auto simp: configured_def layer_of_def split: option.splits)
  have lay: "gm_get (is_images st) j \<noteq> None \<longleftrightarrow> layer_of st j \<noteq> None" for j by (simp add: layer_of_def)
  have "distinct (is_Children p st) \<and> set (is_Children p st) = {i. parent_of st i = Some p}"
    if "gm_get (is_images st) p \<noteq> None"
    using that E(2,3) by (auto simp: is_Children_def)
  then show ?thesis using par E(1) lay by blast
qed

theorem image_children_exact_witness:
  "is_GetParent ex_H (\<lambda>_. True) (ex_H ''next'') ex_im3 = (Inr (ex_H ''cfg'') :: unit image_error + string) \<and>
   is_Children (ex_H ''cfg'') ex_im3 = [ex_H ''next'']"
proof -
  have c: "is_Children (ex_H ''cfg'') ex_im3 = [ex_H ''next'']" by code_simp
  have "gm_get (is_images ex_im3) (ex_H ''cfg'') \<noteq> None" by code_simp
  then have "\<forall>i. i \<in> set (is_Children (ex_H ''cfg'') ex_im3) \<longrightarrow>
      is_GetParent ex_H (\<lambda>_. True) i ex_im3 = (Inr (ex_H ''cfg'') :: unit image_error + string)"
    using image_children_exact [OF ex_im3_run ex_H_ok, of "ex_H ''cfg''"] by blast
  then show ?thesis using c by simp
qed

end
