(* ===== verification/ImageRestart.thy ===== *)
theory ImageRestart
  imports ImageProps
begin

text \<open>
  Loading an image store from the files another one wrote: it comes back with the same images,
  children and search index as long as each configuration on disk belonged to an image. A
  creation that failed, or that raced a deletion, breaks this.
\<close>

section \<open>Loading\<close>

lemma ls_Get_map: "ls_layerMap (fst (ls_Get k ls)) = ls_layerMap ls"
  by (auto simp: ls_Get_def getWithoutLock_def getReference_def add_count_def upd_def Let_def split: option.split)

lemma ls_Get_known: "(\<exists>r. snd (ls_Get k ls) = Inr r) \<longleftrightarrow> gm_get (ls_layerMap ls) k \<noteq> None"
  by (auto simp: ls_Get_def getWithoutLock_def getReference_def Let_def split: option.split)

lemma ls_Get_cases:
  obtains (known) s r where "ls_Get k ls = (s, Inr r)" "gm_get (ls_layerMap ls) k \<noteq> None" "ls_layerMap s = ls_layerMap ls"
  | (unknown) s e where "ls_Get k ls = (s, Inl e)" "gm_get (ls_layerMap ls) k = None" "ls_layerMap s = ls_layerMap ls"
proof -
  obtain s x where g: "ls_Get k ls = (s, x)" by (cases "ls_Get k ls")
  then have m: "ls_layerMap s = ls_layerMap ls" using ls_Get_map [of k ls] by simp
  show ?thesis
  proof (cases x)
    case (Inl e)
    then show ?thesis using g m ls_Get_known [of k ls] unknown by simp
  next
    case (Inr r)
    then show ?thesis using g m ls_Get_known [of k ls] known by force
  qed
qed

lemma has_config_Get:
  assumes "has_config H parse (is_fs st) i c"
  obtains img diffs where "is_Get H parse (\<lambda>_. True) i st = Inr img" "ic_rootfs (img_config img) = Some diffs" "c = ChainID H diffs"
proof -
  obtain config x diffs where "gm_get (db_content (is_fs st)) i = Some config" "H config = i" "parse config = Some x"
    "ic_rootfs x = Some diffs" "c = ChainID H diffs" using assms by (auto simp: has_config_def)
  then show ?thesis by (intro that) (auto simp: is_Get_def fs_get_def NewFromJSON_def)
qed

text \<open>One step of the walk, for an image whose configuration is on disk.\<close>

lemma restore_walk_step:
  assumes cfg: "has_config H parse (is_fs st) d c" and d: "digest_valid d" "dg_alg d = A" "ds_wf A (is_digestSet st)"
    and c: "c = '''' \<or> gm_get (ls_layerMap (is_ls st)) c \<noteq> None"
  shows "\<exists>s l. ls_layerMap s = ls_layerMap (is_ls st) \<and>
     restore_walk H parse ls_Get (\<lambda>_. True) (d # ds) st =
     restore_walk H parse ls_Get (\<lambda>_. True) ds
       (st\<lparr>is_ls := s, is_digestSet := fst (ds_Add d (is_digestSet st)),
           is_images := gm_set d \<lparr>im_layer = l, im_children = []\<rparr> (is_images st)\<rparr>)"
proof -
  obtain img diffs where I: "is_Get H parse (\<lambda>_. True) d st = (Inr img :: layer_error image_error + _)"
    "ic_rootfs (img_config img) = Some diffs" "c = ChainID H diffs"
    using cfg by (rule has_config_Get)
  obtain es where es: "ds_Add d (is_digestSet st) = (es, None)" using ds_Add_ok(3) [OF d(3,1,2)] by (cases "ds_Add d (is_digestSet st)") simp
  show ?thesis
  proof (cases "c = ''''")
    case True
    then show ?thesis using I es by (intro exI [of _ "is_ls st"] exI [of _ None]) (simp add: Let_def)
  next
    case False
    then have k: "gm_get (ls_layerMap (is_ls st)) c \<noteq> None" using c by simp
    show ?thesis
    proof (cases rule: ls_Get_cases [of c "is_ls st"])
      case (known s r)
      then show ?thesis using I es False by (intro exI [of _ s] exI [of _ "Some r"]) (simp add: Let_def)
    qed (use k in simp)
  qed
qed

lemma restore_walk_ok:
  assumes "\<forall>d \<in> set ds. digest_valid d \<and> dg_alg d = A \<and>
      (\<exists>c. has_config H parse (is_fs st) d c \<and> (c = '''' \<or> gm_get (ls_layerMap (is_ls st)) c \<noteq> None))"
    and "ds_wf A (is_digestSet st)" "set (is_digestSet st) = set (map fst (is_images st))"
    "\<forall>k m. gm_get (is_images st) k = Some m \<longrightarrow> im_children m = []"
    and "gm_wf (is_images st)"
  shows "\<exists>st'. restore_walk H parse ls_Get (\<lambda>_. True) ds st = (st', None) \<and> is_fs st' = is_fs st \<and>
     ds_wf A (is_digestSet st') \<and> set (is_digestSet st') = set (is_digestSet st) \<union> set ds \<and>
     set (map fst (is_images st')) = set (map fst (is_images st)) \<union> set ds \<and>
     (\<forall>k m. gm_get (is_images st') k = Some m \<longrightarrow> im_children m = []) \<and> gm_wf (is_images st')"
  using assms
proof (induction ds arbitrary: st)
  case Nil
  then show ?case by simp
next
  case (Cons d ds)
  obtain c where c: "has_config H parse (is_fs st) d c" "c = '''' \<or> gm_get (ls_layerMap (is_ls st)) c \<noteq> None"
    and d: "digest_valid d" "dg_alg d = A" using Cons.prems(1) by auto
  from restore_walk_step [OF c(1) d Cons.prems(2) c(2)] obtain s l where
    s: "ls_layerMap s = ls_layerMap (is_ls st)" and
    R: "restore_walk H parse ls_Get (\<lambda>_. True) (d # ds) st = restore_walk H parse ls_Get (\<lambda>_. True) ds
       (st\<lparr>is_ls := s, is_digestSet := fst (ds_Add d (is_digestSet st)),
           is_images := gm_set d \<lparr>im_layer = l, im_children = []\<rparr> (is_images st)\<rparr>)" (is "_ = restore_walk _ _ _ _ _ ?st") by blast
  note D = ds_Add_ok [OF Cons.prems(2) d]
  have im: "set (map fst (is_images ?st)) = insert d (set (map fst (is_images st)))" by (simp add: dom_update)
  have wf: "gm_wf (is_images ?st)" using Cons.prems(5) by simp
  have ch: "\<forall>k m. gm_get (is_images ?st) k = Some m \<longrightarrow> im_children m = []" using Cons.prems(4) by simp
  have "\<exists>st'. restore_walk H parse ls_Get (\<lambda>_. True) ds ?st = (st', None) \<and> is_fs st' = is_fs ?st \<and>
     ds_wf A (is_digestSet st') \<and> set (is_digestSet st') = set (is_digestSet ?st) \<union> set ds \<and>
     set (map fst (is_images st')) = set (map fst (is_images ?st)) \<union> set ds \<and>
     (\<forall>k m. gm_get (is_images st') k = Some m \<longrightarrow> im_children m = []) \<and> gm_wf (is_images st')"
    by (rule Cons.IH) (use Cons.prems D s im wf ch in simp_all)
  then show ?case unfolding R im using D(2) by auto
qed

text \<open>The second pass fills in the children.\<close>

lemma restore_child_frame [simp]:
  "is_fs (restore_child H disk i st) = is_fs st" "is_digestSet (restore_child H disk i st) = is_digestSet st"
  "(gm_get (is_images (restore_child H disk i st)) j = None) = (gm_get (is_images st) j = None)"
  "parent_of (restore_child H disk i st) = parent_of st"
  by (auto simp: restore_child_def parent_of_def fun_eq_iff split: sum.split option.split)

lemma restore_child_children:
  assumes "\<exists>x. fs_get H (\<lambda>_. True) i (is_fs st) = Inr x"
  shows "set (is_Children p (restore_child H (\<lambda>_. True) i st)) =
     set (is_Children p st) \<union> (if gm_get (is_images st) p \<noteq> None \<and> parent_of st i = Some p then {i} else {})"
  by (auto simp: restore_child_def GetParent_readable [OF assms] is_Children_def split: option.split)

lemma restore_children:
  assumes "\<forall>i \<in> set xs. \<exists>x. fs_get H (\<lambda>_. True) i (is_fs st) = Inr x"
  shows "set (is_Children p (fold (restore_child H (\<lambda>_. True)) xs st)) =
       set (is_Children p st) \<union> {i \<in> set xs. gm_get (is_images st) p \<noteq> None \<and> parent_of st i = Some p} \<and>
     is_fs (fold (restore_child H (\<lambda>_. True)) xs st) = is_fs st \<and>
     is_digestSet (fold (restore_child H (\<lambda>_. True)) xs st) = is_digestSet st \<and>
     (\<forall>j. (gm_get (is_images (fold (restore_child H (\<lambda>_. True)) xs st)) j = None) = (gm_get (is_images st) j = None))"
  using assms
proof (induction xs arbitrary: st)
  case Nil
  then show ?case by simp
next
  case (Cons x xs)
  have "\<exists>y. fs_get H (\<lambda>_. True) x (is_fs st) = Inr y" using Cons.prems by simp
  note C = restore_child_children [OF this, of p]
  let ?s = "restore_child H (\<lambda>_. True) x st"
  have "\<forall>i \<in> set xs. \<exists>x. fs_get H (\<lambda>_. True) i (is_fs ?s) = Inr x" using Cons.prems by simp
  note I = Cons.IH [OF this]
  have "set (is_Children p ?s) \<union> {i \<in> set xs. gm_get (is_images ?s) p \<noteq> None \<and> parent_of ?s i = Some p} =
      set (is_Children p st) \<union> {i \<in> set (x # xs). gm_get (is_images st) p \<noteq> None \<and> parent_of st i = Some p}"
    unfolding C restore_child_frame by auto
  then show ?case using I unfolding fold_simps comp_apply restore_child_frame by simp
qed

lemma ds_wf_unique:
  assumes "ds_wf A es" "ds_wf A es'" "set es = set es'"
  shows "es = es'"
proof -
  have "map dg_hex es = map dg_hex es'"
    by (rule strict_sorted_equal) (use assms in \<open>simp_all add: ds_wf_def\<close>)
  moreover have "inj_on dg_hex (set es \<union> set es')"
  proof (rule inj_onI)
    fix x y
    assume xy: "x \<in> set es \<union> set es'" "y \<in> set es \<union> set es'" "dg_hex x = dg_hex y"
    then have "digest_valid x" "digest_valid y" "dg_alg x = A" "dg_alg y = A" using assms(1,2) by (auto simp: ds_wf_def)
    then show "x = y" using digest_parts [of x] digest_parts [of y] xy(3) by simp
  qed
  ultimately show ?thesis by (rule map_inj_on)
qed

section \<open>Restarting\<close>

text \<open>
  C30. Loading a store from the files of a reachable one, over a layer store that has its
  layers, succeeds and yields the same images, each with the same children, and the same search
  index, provided that the disk worked and no configuration on disk is without an image.
\<close>

theorem image_restart:
  assumes "image_reach K H parse {\<lambda>_. True} st P" "digests_ok H ''sha256''"
    and "\<forall>i. gm_get (db_content (is_fs st)) i \<noteq> None \<longrightarrow> gm_get (is_images st) i \<noteq> None"
    and "\<forall>c. gm_get (ls_layerMap (is_ls st)) c \<noteq> None \<longrightarrow> gm_get (ls_layerMap ls0) c \<noteq> None"
  shows "\<exists>st'. NewImageStore H parse ls_Get (\<lambda>_. True) (is_fs st) ls0 = (st', None) \<and>
     (\<forall>i. gm_get (is_images st') i = None \<longleftrightarrow> gm_get (is_images st) i = None) \<and>
     (\<forall>p. set (is_Children p st') = set (is_Children p st)) \<and>
     is_digestSet st' = is_digestSet st \<and> is_fs st' = is_fs st"
proof -
  note S = search_okD [OF image_reach_search [OF assms(1,2)]]
  note E = children_exactD [OF image_reach_children [OF assms(1,2)]]
  have held: "images_held ls_holds H parse st" using image_reach_held [OF assms(1)] by blast
  let ?s0 = "\<lparr>is_ls = ls0, is_images = [], is_fs = is_fs st, is_digestSet = []\<rparr> :: (layer_ref, _) image_store"
  define ds where "ds = filter digest_valid (sort (filter (\<lambda>d. dg_alg d = ''sha256'') (map fst (db_content (is_fs st)))))"
  have lay: "gm_get (is_images st) i \<noteq> None \<longleftrightarrow> layer_of st i \<noteq> None" for i by (simp add: layer_of_def)
  have cfg: "\<exists>c. has_config H parse (is_fs st) i c \<and> (c = '''' \<or> gm_get (ls_layerMap ls0) c \<noteq> None)"
    if i: "layer_of st i = Some l" for i l
    using held i by (rule images_heldD) (use assms(4) in \<open>auto simp: ls_holds_def live_def split: option.splits layer_ref.splits\<close>)
  have keys: "d \<in> set (map fst (db_content (is_fs st))) \<longleftrightarrow> gm_get (db_content (is_fs st)) d \<noteq> None" for d
    using dom_map_of_conv_image_fst [of "db_content (is_fs st)"] by (metis domIff set_map)
  have ids: "set ds = {i. gm_get (is_images st) i \<noteq> None}"
  proof (rule set_eqI)
    fix i
    have "gm_get (is_images st) i \<noteq> None \<Longrightarrow> gm_get (db_content (is_fs st)) i \<noteq> None"
      using cfg lay by (auto simp: has_config_def)
    then show "i \<in> set ds \<longleftrightarrow> i \<in> {i. gm_get (is_images st) i \<noteq> None}"
      using S(3) [of i] assms(3) keys [of i] lay [of i] by (auto simp: ds_def)
  qed
  have "\<exists>st1. restore_walk H parse ls_Get (\<lambda>_. True) ds ?s0 = (st1, None) \<and> is_fs st1 = is_fs ?s0 \<and>
     ds_wf ''sha256'' (is_digestSet st1) \<and> set (is_digestSet st1) = set (is_digestSet ?s0) \<union> set ds \<and>
     set (map fst (is_images st1)) = set (map fst (is_images ?s0)) \<union> set ds \<and>
     (\<forall>k m. gm_get (is_images st1) k = Some m \<longrightarrow> im_children m = []) \<and> gm_wf (is_images st1)"
    by (rule restore_walk_ok) (use ids S(3) cfg lay in \<open>auto simp: ds_wf_def\<close>)
  then obtain st1 where R: "restore_walk H parse ls_Get (\<lambda>_. True) ds ?s0 = (st1, None)" "is_fs st1 = is_fs st"
    "ds_wf ''sha256'' (is_digestSet st1)" "set (is_digestSet st1) = set ds" "set (map fst (is_images st1)) = set ds"
    "\<And>k m. gm_get (is_images st1) k = Some m \<Longrightarrow> im_children m = []" by auto
  define st2 where "st2 = fold (restore_child H (\<lambda>_. True)) (map fst (is_images st1)) st1"
  have new: "NewImageStore H parse ls_Get (\<lambda>_. True) (is_fs st) ls0 = (st2, None)"
    by (simp add: NewImageStore_def fs_Walk_def ds_def [symmetric] R(1) st2_def Let_def)
  have dom: "gm_get (is_images st1) i = None \<longleftrightarrow> gm_get (is_images st) i = None" for i
    using R(5) ids by (metis (mono_tags) dom_map_of_conv_image_fst domIff mem_Collect_eq set_map)
  have "\<forall>i \<in> set (map fst (is_images st1)). \<exists>x. fs_get H (\<lambda>_. True) i (is_fs st1) = Inr x"
  proof
    fix i
    assume "i \<in> set (map fst (is_images st1))"
    then obtain l where "layer_of st i = Some l" using R(5) ids lay [of i] by auto
    from cfg [OF this] show "\<exists>x. fs_get H (\<lambda>_. True) i (is_fs st1) = Inr x" unfolding R(2) using fs_get_config by blast
  qed
  note C = restore_children [OF this, folded st2_def]
  have par: "parent_of st1 = parent_of st" by (simp add: parent_of_def R(2) fun_eq_iff)
  have ch: "set (is_Children p st2) = set (is_Children p st)" for p
  proof -
    have "is_Children p st1 = []" using R(6) by (auto simp: is_Children_def split: option.split)
    then have "set (is_Children p st2) = {i \<in> set ds. gm_get (is_images st) p \<noteq> None \<and> parent_of st i = Some p}"
      using C [of p] R(5) dom by (simp add: par)
    also have "\<dots> = set (is_Children p st)"
    proof (cases "gm_get (is_images st) p")
      case (Some m)
      have "parent_of st i = Some p \<Longrightarrow> i \<in> set ds" for i unfolding ids using E(1) [of i p] lay [of i] by simp
      then show ?thesis using Some E(3) [OF Some] by (auto simp: is_Children_def)
    qed (simp add: is_Children_def)
    finally show ?thesis .
  qed
  have "is_digestSet st2 = is_digestSet st"
  proof (rule ds_wf_unique [OF _ S(1)])
    show "set (is_digestSet st2) = set (is_digestSet st)"
      unfolding C [THEN conjunct2, THEN conjunct2, THEN conjunct1] R(4) ids using S(2) lay by blast
  qed (use C R(3) in simp)
  then show ?thesis using new ch C dom R(2) by simp
qed

definition ex_loaded :: "(layer_ref, (unit, string list) layerstore) image_store" where
  "ex_loaded = fst (NewImageStore ex_H ex_parse ls_Get (\<lambda>_. True) (is_fs ex_im3) ex_store2)"

theorem image_restart_witness:
  "is_Children (ex_H ''cfg'') ex_loaded = [ex_H ''next''] \<and> is_digestSet ex_loaded = is_digestSet ex_im3"
proof -
  have 1: "\<forall>i. gm_get (db_content (is_fs ex_im3)) i \<noteq> None \<longrightarrow> gm_get (is_images ex_im3) i \<noteq> None"
  proof -
    have "map fst (db_content (is_fs ex_im3)) = map fst (is_images ex_im3)" by code_simp
    then show ?thesis using dom_map_of_conv_image_fst [of "db_content (is_fs ex_im3)"]
        dom_map_of_conv_image_fst [of "is_images ex_im3"] by (metis domIff set_map)
  qed
  have "ls_layerMap (is_ls ex_im3) = ls_layerMap ex_store2" by code_simp
  then have 2: "\<forall>c. gm_get (ls_layerMap (is_ls ex_im3)) c \<noteq> None \<longrightarrow> gm_get (ls_layerMap ex_store2) c \<noteq> None" by simp
  have c: "is_Children (ex_H ''cfg'') ex_loaded = [ex_H ''next'']" by code_simp
  from image_restart [OF ex_im3_reach ex_H_ok 1 2] show ?thesis using c by (auto simp: ex_loaded_def)
qed


section \<open>What creations leave behind\<close>

lemma restore_walk_fails:
  fixes st :: "(layer_ref, ('m, 'd) layerstore) image_store"
  assumes "d \<in> set ds" "has_config H parse (is_fs st) d c" "c \<noteq> ''''" "gm_get (ls_layerMap (is_ls st)) c = None"
  shows "\<exists>st' e. restore_walk H parse ls_Get (\<lambda>_. True) ds st = (st', Some e)"
  using assms
proof (induction ds arbitrary: st)
  case Nil
  then show ?case by simp
next
  case (Cons x ds)
  have walk: "\<exists>st' e. restore_walk H parse ls_Get (\<lambda>_. True) ds st1 = (st', Some e)"
    if "x \<noteq> d" "is_fs st1 = is_fs st" "ls_layerMap (is_ls st1) = ls_layerMap (is_ls st)"
    for st1 :: "(layer_ref, ('m, 'd) layerstore) image_store"
    by (rule Cons.IH) (use Cons.prems that in auto)
  have end_of: "\<exists>st' e. restore_walk H parse ls_Get (\<lambda>_. True) (x # ds) st = (st', Some e)"
    if x: "x = d"
  proof -
    obtain img diffs where I: "is_Get H parse (\<lambda>_. True) d st = (Inr img :: layer_error image_error + _)"
      "ic_rootfs (img_config img) = Some diffs" "c = ChainID H diffs"
      using Cons.prems(2) by (rule has_config_Get)
    show ?thesis
      by (cases rule: ls_Get_cases [of c "is_ls st"]) (use I x Cons.prems(3,4) in \<open>simp_all add: Let_def\<close>)
  qed
  show ?case
  proof (cases "x = d")
    case ne: False
    show ?thesis
    proof (cases "is_Get H parse (\<lambda>_. True) x st :: layer_error image_error + image")
      case (Inl e)
      then show ?thesis using walk [OF ne refl refl] by simp
    next
      case (Inr img)
      define k where "k = (case ic_rootfs (img_config img) of None \<Rightarrow> '''' | Some diffs \<Rightarrow> ChainID H diffs)"
      obtain es e where es: "ds_Add x (is_digestSet st) = (es, e)" by (cases "ds_Add x (is_digestSet st)")
      have go: "\<exists>st' e. restore_walk H parse ls_Get (\<lambda>_. True) (x # ds) st = (st', Some e)"
        if "restore_walk H parse ls_Get (\<lambda>_. True) (x # ds) st =
          (case e of Some e \<Rightarrow> (st\<lparr>is_ls := s, is_digestSet := es\<rparr>, Some (DigestError e))
           | None \<Rightarrow> restore_walk H parse ls_Get (\<lambda>_. True) ds (st\<lparr>is_ls := s, is_digestSet := es,
               is_images := gm_set x \<lparr>im_layer = l, im_children = []\<rparr> (is_images st)\<rparr>))"
          "ls_layerMap s = ls_layerMap (is_ls st)" for s l
        using that walk [OF ne, of "st\<lparr>is_ls := s, is_digestSet := es, is_images := gm_set x \<lparr>im_layer = l, im_children = []\<rparr> (is_images st)\<rparr>"]
        by (cases e) simp_all
      show ?thesis
      proof (cases "k = ''''")
        case True
        show ?thesis
          by (rule go [where s = "is_ls st" and l = None]) (use Inr es True in \<open>simp_all add: k_def [symmetric] Let_def split: option.split\<close>)
      next
        case False
        show ?thesis
        proof (cases rule: ls_Get_cases [of k "is_ls st"])
          case (known s r)
          show ?thesis
            by (rule go [where s = s and l = "Some r"]) (use Inr es known False in \<open>simp_all add: k_def [symmetric] Let_def split: option.split\<close>)
        next
          case (unknown s e)
          then show ?thesis using Inr False by (simp add: k_def [symmetric] Let_def)
        qed
      qed
    qed
  qed (rule end_of)
qed

lemma create_commit_missing:
  assumes "create_commit H lget i diffs st = (st', Inl (LayerError e))"
  shows "is_fs st' = is_fs st" "gm_get (is_images st') i = None" "ChainID H diffs \<noteq> ''''"
proof -
  have None: "gm_get (is_images st) i = None" using assms by (cases "gm_get (is_images st) i") (simp_all add: create_commit_def)
  obtain s x where g: "lget (ChainID H diffs) (is_ls st) = (s, x)" by (cases "lget (ChainID H diffs) (is_ls st)")
  have "ChainID H diffs \<noteq> '''' \<and> st' = st\<lparr>is_ls := s\<rparr>"
    using assms None g by (cases x) (auto simp: create_commit_def Let_def split: if_splits prod.splits option.splits)
  then show "is_fs st' = is_fs st" "gm_get (is_images st') i = None" "ChainID H diffs \<noteq> ''''" using None by simp_all
qed

text \<open>
  A creation whose layer is missing fails without an image but leaves its configuration on
  disk. Unless the layer turns up, every later attempt to load the image store fails with
  an error, which keeps the daemon from starting.
\<close>

theorem failed_create_breaks_restart:
  assumes "is_Create H parse ls_Get (\<lambda>_. True) config st = (st', Inl (LayerError e))" "digests_ok H ''sha256''"
    and "parse config = Some img" "ic_rootfs img = Some diffs" "gm_get (ls_layerMap ls0) (ChainID H diffs) = None"
  shows "gm_get (is_images st') (H config) = None \<and> gm_get (db_content (is_fs st')) (H config) = Some config \<and>
     (\<exists>st0 e. NewImageStore H parse ls_Get (\<lambda>_. True) (is_fs st') ls0 = (st0, Some e))"
  using assms(1)
proof (cases rule: is_Create_parts)
  case (refused x)
  then show ?thesis by auto
next
  case (written ds st1)
  have ds: "ds = diffs" using written(2) assms(3,4) by (auto simp: create_check_def split: if_splits)
  note M = create_commit_missing [OF written(3)]
  have c: "gm_get (db_content (is_fs st')) (H config) = Some config" by (simp add: M(1) written(1))
  let ?s0 = "\<lparr>is_ls = ls0, is_images = [], is_fs = is_fs st', is_digestSet = []\<rparr> :: (layer_ref, _) image_store"
  let ?ds = "filter digest_valid (sort (filter (\<lambda>d. dg_alg d = ''sha256'') (map fst (db_content (is_fs st')))))"
  have "H config \<in> set ?ds" using c assms(2) by (force simp: digests_ok_def)
  moreover have "has_config H parse (is_fs ?s0) (H config) (ChainID H diffs)" using c assms(3,4) by (simp add: has_config_def)
  ultimately have "\<exists>st0 e. restore_walk H parse ls_Get (\<lambda>_. True) ?ds ?s0 = (st0, Some e)"
    by (rule restore_walk_fails) (use M(3) ds assms(5) in simp_all)
  then have "\<exists>st0 e. NewImageStore H parse ls_Get (\<lambda>_. True) (is_fs st') ls0 = (st0, Some e)"
    by (auto simp: NewImageStore_def fs_Walk_def Let_def)
  then show ?thesis using M(2) c by blast
qed

theorem failed_create_breaks_restart_witness:
  "\<exists>st0 e. NewImageStore ex_H ex_parse ls_Get (\<lambda>_. True)
     (is_fs (fst (is_Create ex_H ex_parse ls_Get (\<lambda>_. True) ''stray'' (no_images ex_store2)))) ex_store2 = (st0, Some e)"
proof -
  have "snd (is_Create ex_H ex_parse ls_Get (\<lambda>_. True) ''stray'' (no_images ex_store2)) = Inl (LayerError ErrLayerDoesNotExist)"
    by code_simp
  then have 1: "is_Create ex_H ex_parse ls_Get (\<lambda>_. True) ''stray'' (no_images ex_store2) =
      (fst (is_Create ex_H ex_parse ls_Get (\<lambda>_. True) ''stray'' (no_images ex_store2)), Inl (LayerError ErrLayerDoesNotExist))"
    by (metis prod.collapse)
  have 2: "ex_parse ''stray'' = Some \<lparr>ic_rootfs = Some [''sha:gone''], ic_history = [False]\<rparr>" by (simp add: ex_parse_def)
  have 3: "gm_get (ls_layerMap ex_store2) (ChainID ex_H [''sha:gone'']) = None" by code_simp
  from failed_create_breaks_restart [OF 1 ex_H_ok 2 _ 3] show ?thesis by simp
qed

text \<open>
  A creation writes the configuration before it takes the lock. When the same image is
  deleted in between, the creation still succeeds, and the store then lists an image without a
  configuration, which cannot be read.
\<close>

theorem create_delete_race:
  assumes "gm_get (is_images st) i = Some m" "create_set H parse (\<lambda>_. True) config st = (st1, Inr (i, diffs))"
    and "is_Delete H lrelease (\<lambda>_. True) i st1 = Some (st2, res)" "create_commit H lget i diffs st2 = (st3, Inr j)"
  shows "gm_get (is_images st3) i \<noteq> None \<and> is_Get H parse (\<lambda>_. True) i st3 = Inl (FsError (FsFailed (ReadContent i)))"
proof -
  have "is_images st1 = is_images st"
    using assms(2) by (cases rule: create_set_cases) simp_all
  then have m: "gm_get (is_images st1) i = Some m" using assms(1) by simp
  have "gm_get (db_content (is_fs st2)) i = None"
    using assms(3) by (cases rule: is_Delete_cases) (use m in \<open>simp_all add: deleted_frame fs_Delete_content\<close>)
  moreover have "is_fs st3 = is_fs st2 \<and> gm_get (is_images st3) i \<noteq> None"
    using assms(4) by (auto simp: create_commit_def Let_def split: option.splits if_splits prod.splits sum.splits)
  ultimately show ?thesis by (simp add: is_Get_def fs_get_def)
qed

definition ex_raced :: "(layer_ref, (unit, string list) layerstore) image_store" where
  "ex_raced =
     (let st2 = fst (the (is_Delete ex_H (ls_Release ex_ops) (\<lambda>_. True) (ex_H ''cfg'') ex_im1))
      in fst (create_commit ex_H ls_Get (ex_H ''cfg'') [''sha:os''] st2))"

theorem create_delete_race_witness:
  "gm_get (is_images ex_raced) (ex_H ''cfg'') \<noteq> None \<and>
   is_Get ex_H ex_parse (\<lambda>_. True) (ex_H ''cfg'') ex_raced =
     (Inl (FsError (FsFailed (ReadContent (ex_H ''cfg'')))) :: unit image_error + image)"
proof -
  let ?i = "ex_H ''cfg''" and ?del = "is_Delete ex_H (ls_Release ex_ops) (\<lambda>_. True) (ex_H ''cfg'') ex_im1"
  have 1: "gm_get (is_images ex_im1) ?i = Some (the (gm_get (is_images ex_im1) ?i))" by code_simp
  have 2: "create_set ex_H ex_parse (\<lambda>_. True) ''cfg'' ex_im1 = (ex_im1, Inr (?i, [''sha:os'']) :: unit image_error + _)" by code_simp
  have 3: "?del = Some (fst (the ?del), snd (the ?del))" by code_simp
  have 4: "create_commit ex_H ls_Get ?i [''sha:os''] (fst (the ?del)) = (ex_raced, Inr ?i)" by code_simp
  from create_delete_race [OF 1 2 3 4] show ?thesis .
qed

end
