(* ===== verification/Transfers.thy ===== *)
theory Transfers
  imports GoPrelude
begin

text \<open>
  The transfers of layers from and to a registry and their manager
  (distribution/xfer/transfer.go), and the phases of the function that moves the data
  (distribution/xfer/download.go, upload.go).

  A transfer is an index into the list of all transfers ever created; a channel that is only
  ever closed is a flag. What a watcher prints is left out here.
\<close>

section \<open>A transfer\<close>

text \<open>
  The phases of a transfer function: it waits for its slot, moves data, may give up the slot while it
  waits for the transfer of its parent layer, and returns, with or without an error. Its
  return closes the progress channel.
\<close>

datatype phase = Waits | Moves | Quiet | Returned bool

record xfer =
  x_key :: string
  x_parent :: "nat option"
  x_phase :: phase
  x_watchers :: "nat goset"
  x_start :: bool
  x_inactive :: bool
  x_broadcastDone :: bool
  x_running :: bool
  x_cancelled :: bool
  x_closed :: bool
  x_released :: bool
  x_listens :: bool
  x_tracked :: bool

text \<open>
  \<open>x_inactive\<close>: the function closed the channel by that name. \<open>x_listens\<close>: the goroutine of the manager still
  listens to it. \<open>x_tracked\<close>: that goroutine has not removed the transfer from the map.
\<close>

definition NewTransfer :: "string \<Rightarrow> nat option \<Rightarrow> bool \<Rightarrow> xfer" where
  "NewTransfer key parent start =
     \<lparr>x_key = key, x_parent = parent, x_phase = Waits, x_watchers = [], x_start = start, x_inactive = False,
      x_broadcastDone = False, x_running = True, x_cancelled = False, x_closed = False, x_released = False,
      x_listens = True, x_tracked = True\<rparr>"

definition x_Watch :: "nat \<Rightarrow> xfer \<Rightarrow> xfer" where
  "x_Watch w x = x\<lparr>x_watchers := gs_add w (x_watchers x)\<rparr>"

definition x_Release :: "nat \<Rightarrow> xfer \<Rightarrow> xfer" where
  "x_Release w x =
     (let x1 = x\<lparr>x_watchers := gs_del w (x_watchers x)\<rparr>
      in if length (x_watchers x1) = 0
         then (if x_closed x1 then x1\<lparr>x_released := True\<rparr> else x1\<lparr>x_cancelled := True\<rparr>)
         else x1)"

text \<open>Closing the channel a second time would panic.\<close>

definition x_Close :: "xfer \<Rightarrow> xfer option" where
  "x_Close x =
     (let x1 = x\<lparr>x_closed := True\<rparr>
      in if length (x_watchers x1) = 0
         then (if x_released x1 then None else Some (x1\<lparr>x_released := True\<rparr>))
         else Some x1)"

section \<open>The manager\<close>

record tman =
  tm_concurrencyLimit :: int
  tm_activeTransfers :: int
  tm_transfers :: "(string, nat) gomap"
  tm_waitingTransfers :: "nat list"
  tm_xfers :: "xfer list"

definition NewTransferManager :: "int \<Rightarrow> tman" where
  "NewTransferManager n =
     \<lparr>tm_concurrencyLimit = n, tm_activeTransfers = 0, tm_transfers = [], tm_waitingTransfers = [], tm_xfers = []\<rparr>"

definition SetConcurrency :: "int \<Rightarrow> tman \<Rightarrow> tman" where
  "SetConcurrency n tm = tm\<lparr>tm_concurrencyLimit := n\<rparr>"

definition xf :: "tman \<Rightarrow> nat \<Rightarrow> xfer" where
  "xf tm i = tm_xfers tm ! i"

definition on_xfer :: "nat \<Rightarrow> (xfer \<Rightarrow> xfer) \<Rightarrow> tman \<Rightarrow> tman" where
  "on_xfer i f tm = tm\<lparr>tm_xfers := (tm_xfers tm)[i := f (xf tm i)]\<rparr>"

text \<open>
  A call of \<^verbatim>\<open>Transfer\<close> joins a transfer with the same key, starts a new one, or finds a cancelled one:
  then it stops watching, waits for the end of that transfer and tries again.
\<close>

datatype transfer_result = Joined nat | Started nat | Retry nat

definition Transfer :: "string \<Rightarrow> nat option \<Rightarrow> nat \<Rightarrow> tman \<Rightarrow> tman \<times> transfer_result" where
  "Transfer key parent w tm =
     (case gm_get (tm_transfers tm) key of
        Some i \<Rightarrow>
          (let tm1 = on_xfer i (x_Watch w) tm
           in if x_cancelled (xf tm1 i) then (on_xfer i (x_Release w) tm1, Retry i)
              else (tm1, Joined i))
      | None \<Rightarrow>
          (let i = length (tm_xfers tm);
               start = (tm_concurrencyLimit tm = 0 \<or> tm_activeTransfers tm < tm_concurrencyLimit tm);
               tm1 = (if start then tm\<lparr>tm_activeTransfers := tm_activeTransfers tm + 1\<rparr>
                      else tm\<lparr>tm_waitingTransfers := tm_waitingTransfers tm @ [i]\<rparr>);
               tm2 = tm1\<lparr>tm_xfers := tm_xfers tm1 @ [x_Watch w (NewTransfer key parent start)]\<rparr>
           in (tm2\<lparr>tm_transfers := gm_set key i (tm_transfers tm2)\<rparr>, Started i)))"

definition inactivate :: "nat \<Rightarrow> tman \<Rightarrow> tman" where
  "inactivate i tm =
     (if x_start (xf tm i)
      then (case tm_waitingTransfers tm of
              j # js \<Rightarrow> on_xfer j (\<lambda>x. x\<lparr>x_start := True\<rparr>) tm\<lparr>tm_waitingTransfers := js\<rparr>
            | [] \<Rightarrow> tm\<lparr>tm_activeTransfers := tm_activeTransfers tm - 1\<rparr>)
      else tm)"

text \<open>The two cases of the goroutine that waits for a transfer.\<close>

definition manage_inactive :: "nat \<Rightarrow> tman \<Rightarrow> tman" where
  "manage_inactive i tm = on_xfer i (\<lambda>x. x\<lparr>x_listens := False\<rparr>) (inactivate i tm)"

definition manage_done :: "nat \<Rightarrow> tman \<Rightarrow> tman" where
  "manage_done i tm =
     (let tm1 = (if x_listens (xf tm i) then inactivate i tm else tm);
          tm2 = tm1\<lparr>tm_transfers := gm_del (x_key (xf tm i)) (tm_transfers tm1)\<rparr>
      in on_xfer i (\<lambda>x. x\<lparr>x_listens := False, x_tracked := False\<rparr>) tm2)"

definition manage_close :: "nat \<Rightarrow> tman \<Rightarrow> tman option" where
  "manage_close i tm = map_option (\<lambda>x. on_xfer i (\<lambda>_. x) tm) (x_Close (xf tm i))"

section \<open>The function of a transfer\<close>

text \<open>
  What may happen next in a transfer function. A function that moves data may fail, finish, or
  close \<^verbatim>\<open>inactive\<close>, after which it waits for its parent's transfer unless it is cancelled; it
  fails when its parent has failed. A download always closes \<^verbatim>\<open>inactive\<close> before it
  succeeds, an upload never.
\<close>

definition parent_running :: "tman \<Rightarrow> xfer \<Rightarrow> bool" where
  "parent_running tm x = (case x_parent x of None \<Rightarrow> False | Some p \<Rightarrow> x_running (xf tm p))"

definition parent_failed :: "tman \<Rightarrow> xfer \<Rightarrow> bool" where
  "parent_failed tm x = (case x_parent x of None \<Rightarrow> False | Some p \<Rightarrow> x_phase (xf tm p) = Returned False)"

definition function_next :: "tman \<Rightarrow> xfer \<Rightarrow> phase set" where
  "function_next tm x =
     (case x_phase x of
        Waits \<Rightarrow> if x_start x then {Moves} else {}
      | Moves \<Rightarrow> {Quiet, Returned False} \<union> (if x_parent x = None then {Returned True} else {})
      | Quiet \<Rightarrow> (if x_cancelled x \<or> \<not> parent_running tm x then {Returned False} else {}) \<union>
           (if \<not> parent_running tm x \<and> \<not> parent_failed tm x then {Returned True} else {})
      | Returned _ \<Rightarrow> {})"

definition enter_phase :: "phase \<Rightarrow> xfer \<Rightarrow> xfer" where
  "enter_phase p x = x\<lparr>x_phase := p, x_inactive := (x_inactive x \<or> p = Quiet)\<rparr>"

text \<open>The end of \<^verbatim>\<open>Broadcast\<close>, once the progress channel is closed.\<close>

definition broadcast_done :: "xfer \<Rightarrow> xfer" where
  "broadcast_done x = x\<lparr>x_broadcastDone := True\<rparr>"

definition broadcast_return :: "xfer \<Rightarrow> xfer" where
  "broadcast_return x = x\<lparr>x_running := False\<rparr>"

end
