(* ===== verification/TransferSteps.thy ===== *)
theory TransferSteps
  imports Transfers
begin

text \<open>
  Clients, transfer functions, broadcasters and the manager's goroutines as one machine, and its
  invariant.
\<close>

section \<open>The machine\<close>

text \<open>
  Clients ask for transfers, on top of one they have asked for before if there is a parent, stop watching,
  and set the limit to a number of \<open>N\<close>. A watcher has an identity of its own.
\<close>

inductive tm_client :: "int set \<Rightarrow> tman \<Rightarrow> tman \<Rightarrow> bool" for N :: "int set" where
  transfer: "\<forall>p. parent = Some p \<longrightarrow> p < length (tm_xfers tm) \<Longrightarrow>
    \<forall>i < length (tm_xfers tm). w \<notin> set (x_watchers (xf tm i)) \<Longrightarrow>
    Transfer key parent w tm = (tm', r) \<Longrightarrow> tm_client N tm tm'"
| release: "i < length (tm_xfers tm) \<Longrightarrow> w \<in> set (x_watchers (xf tm i)) \<Longrightarrow>
    tm_client N tm (on_xfer i (x_Release w) tm)"
| limit: "n \<in> N \<Longrightarrow> tm_client N tm (SetConcurrency n tm)"

inductive tm_internal :: "tman \<Rightarrow> tman \<Rightarrow> bool" where
  phase: "i < length (tm_xfers tm) \<Longrightarrow> p \<in> function_next tm (xf tm i) \<Longrightarrow> tm_internal tm (on_xfer i (enter_phase p) tm)"
| depleted: "i < length (tm_xfers tm) \<Longrightarrow> x_phase (xf tm i) = Returned ok \<Longrightarrow> \<not> x_broadcastDone (xf tm i) \<Longrightarrow>
    tm_internal tm (on_xfer i broadcast_done tm)"
| broadcast_ends: "i < length (tm_xfers tm) \<Longrightarrow> x_broadcastDone (xf tm i) \<Longrightarrow> x_running (xf tm i) \<Longrightarrow>
    tm_internal tm (on_xfer i broadcast_return tm)"
| inactive: "i < length (tm_xfers tm) \<Longrightarrow> x_inactive (xf tm i) \<Longrightarrow> x_listens (xf tm i) \<Longrightarrow>
    tm_internal tm (manage_inactive i tm)"
| finished: "i < length (tm_xfers tm) \<Longrightarrow> \<not> x_running (xf tm i) \<Longrightarrow> x_tracked (xf tm i) \<Longrightarrow>
    tm_internal tm (manage_done i tm)"
| closing: "i < length (tm_xfers tm) \<Longrightarrow> \<not> x_tracked (xf tm i) \<Longrightarrow> \<not> x_closed (xf tm i) \<Longrightarrow>
    manage_close i tm = Some tm' \<Longrightarrow> tm_internal tm tm'"

inductive tm_reach :: "int set \<Rightarrow> tman \<Rightarrow> bool" for N :: "int set" where
  start: "n \<in> N \<Longrightarrow> tm_reach N (NewTransferManager n)"
| client: "tm_reach N tm \<Longrightarrow> tm_client N tm tm' \<Longrightarrow> tm_reach N tm'"
| internal: "tm_reach N tm \<Longrightarrow> tm_internal tm tm' \<Longrightarrow> tm_reach N tm'"

section \<open>Updates\<close>

lemma on_xfer_simps [simp]:
  "length (tm_xfers (on_xfer i f tm)) = length (tm_xfers tm)"
  "tm_concurrencyLimit (on_xfer i f tm) = tm_concurrencyLimit tm"
  "tm_activeTransfers (on_xfer i f tm) = tm_activeTransfers tm"
  "tm_transfers (on_xfer i f tm) = tm_transfers tm"
  "tm_waitingTransfers (on_xfer i f tm) = tm_waitingTransfers tm"
  "i < length (tm_xfers tm) \<Longrightarrow> xf (on_xfer i f tm) j = (if j = i then f (xf tm i) else xf tm j)"
  by (auto simp: on_xfer_def xf_def)

lemma xf_frame [simp]:
  "xf (tm\<lparr>tm_waitingTransfers := ws\<rparr>) = xf tm" "xf (tm\<lparr>tm_activeTransfers := a\<rparr>) = xf tm"
  "xf (tm\<lparr>tm_transfers := m\<rparr>) = xf tm" "xf (SetConcurrency n tm) = xf tm"
  by (simp_all add: xf_def SetConcurrency_def fun_eq_iff)

section \<open>One transfer\<close>

definition xfer_ok :: "xfer \<Rightarrow> bool" where
  "xfer_ok x \<longleftrightarrow>
     (\<not> x_start x \<longrightarrow> x_phase x = Waits \<and> x_listens x) \<and>
     (x_inactive x \<longrightarrow> x_phase x \<noteq> Waits \<and> x_phase x \<noteq> Moves) \<and>
     (x_phase x = Quiet \<longrightarrow> x_inactive x) \<and>
     (x_broadcastDone x \<longrightarrow> (\<exists>ok. x_phase x = Returned ok)) \<and>
     (\<not> x_running x \<longrightarrow> x_broadcastDone x) \<and>
     (\<not> x_tracked x \<longrightarrow> \<not> x_running x \<and> \<not> x_listens x) \<and>
     (x_closed x \<longrightarrow> \<not> x_tracked x) \<and>
     (x_released x \<longleftrightarrow> x_closed x \<and> length (x_watchers x) = 0) \<and>
     (\<not> x_closed x \<longrightarrow> length (x_watchers x) = 0 \<longrightarrow> x_cancelled x)"

lemma xfer_ok_new: "xfer_ok (x_Watch w (NewTransfer key parent start))"
  by (simp add: xfer_ok_def NewTransfer_def x_Watch_def gs_add_def)

lemma gs_add_nonempty [simp]: "gs_add w ws \<noteq> []"
  by (auto simp: gs_add_def)

lemma xfer_ok_Watch: "xfer_ok x \<Longrightarrow> x_tracked x \<Longrightarrow> xfer_ok (x_Watch w x)"
  by (auto simp: xfer_ok_def x_Watch_def)

lemma xfer_ok_Release: "xfer_ok x \<Longrightarrow> xfer_ok (x_Release w x)"
  by (auto simp: xfer_ok_def x_Release_def Let_def gs_del_def)

lemma xfer_ok_phase: "xfer_ok x \<Longrightarrow> p \<in> function_next tm x \<Longrightarrow> xfer_ok (enter_phase p x)"
  by (cases "x_phase x") (auto simp: xfer_ok_def enter_phase_def function_next_def split: if_splits)

lemma xfer_ok_broadcast: "xfer_ok x \<Longrightarrow> x_phase x = Returned ok \<Longrightarrow> xfer_ok (broadcast_done x)"
  "xfer_ok x \<Longrightarrow> x_broadcastDone x \<Longrightarrow> xfer_ok (broadcast_return x)"
  by (auto simp: xfer_ok_def broadcast_done_def broadcast_return_def)

lemma xfer_ok_start: "xfer_ok x \<Longrightarrow> xfer_ok (x\<lparr>x_start := True\<rparr>)"
  by (auto simp: xfer_ok_def)

lemma xfer_ok_deaf: "xfer_ok x \<Longrightarrow> x_start x \<Longrightarrow> xfer_ok (x\<lparr>x_listens := False\<rparr>)"
  by (auto simp: xfer_ok_def)

lemma xfer_ok_untracked: "xfer_ok x \<Longrightarrow> \<not> x_running x \<Longrightarrow> xfer_ok (x\<lparr>x_listens := False, x_tracked := False\<rparr>)"
  by (auto simp: xfer_ok_def)

lemma xfer_ok_Close:
  assumes "xfer_ok x" "\<not> x_tracked x" "\<not> x_closed x"
  shows "x_Close x = Some (x\<lparr>x_closed := True, x_released := (x_watchers x = [])\<rparr>)"
    "xfer_ok (x\<lparr>x_closed := True, x_released := (x_watchers x = [])\<rparr>)"
  using assms by (auto simp: x_Close_def Let_def xfer_ok_def)

section \<open>The invariant\<close>

definition slots :: "tman \<Rightarrow> nat set" where
  "slots tm = {i. i < length (tm_xfers tm) \<and> x_start (xf tm i) \<and> x_listens (xf tm i)}"

definition tm_ok :: "tman \<Rightarrow> bool" where
  "tm_ok tm \<longleftrightarrow>
     (\<forall>i < length (tm_xfers tm). xfer_ok (xf tm i) \<and> (\<forall>p. x_parent (xf tm i) = Some p \<longrightarrow> p < i)) \<and>
     tm_activeTransfers tm = int (card (slots tm)) \<and>
     sorted_wrt (<) (tm_waitingTransfers tm) \<and>
     (\<forall>i. i \<in> set (tm_waitingTransfers tm) \<longleftrightarrow> i < length (tm_xfers tm) \<and> \<not> x_start (xf tm i)) \<and>
     (\<forall>k i. gm_get (tm_transfers tm) k = Some i \<longleftrightarrow>
        i < length (tm_xfers tm) \<and> x_tracked (xf tm i) \<and> x_key (xf tm i) = k)"

lemma tm_okD:
  assumes "tm_ok tm"
  shows "i < length (tm_xfers tm) \<Longrightarrow> xfer_ok (xf tm i)"
    "i < length (tm_xfers tm) \<Longrightarrow> x_parent (xf tm i) = Some p \<Longrightarrow> p < i"
    "tm_activeTransfers tm = int (card (slots tm))" "sorted_wrt (<) (tm_waitingTransfers tm)"
    "i \<in> set (tm_waitingTransfers tm) \<longleftrightarrow> i < length (tm_xfers tm) \<and> \<not> x_start (xf tm i)"
    "gm_get (tm_transfers tm) k = Some i \<longleftrightarrow> i < length (tm_xfers tm) \<and> x_tracked (xf tm i) \<and> x_key (xf tm i) = k"
  using assms by (simp_all add: tm_ok_def)

lemma finite_slots [simp, intro]: "finite (slots tm)"
  by (simp add: slots_def)

text \<open>A change of one transfer that does not touch its place with the manager.\<close>

definition places :: "xfer \<Rightarrow> bool \<times> bool \<times> bool \<times> string \<times> nat option" where
  "places x = (x_start x, x_listens x, x_tracked x, x_key x, x_parent x)"

lemma on_xfer_ok:
  assumes ok: "tm_ok tm" and i: "i < length (tm_xfers tm)" and f: "xfer_ok (f (xf tm i))" "places (f (xf tm i)) = places (xf tm i)"
  shows "tm_ok (on_xfer i f tm)"
proof -
  have s: "slots (on_xfer i f tm) = slots tm" using f i by (auto simp: slots_def places_def)
  show ?thesis unfolding tm_ok_def s
    using ok f i by (simp add: tm_ok_def places_def)
qed

section \<open>Handing on a slot\<close>

lemma inactivate_ok:
  assumes ok: "tm_ok tm" and i: "i \<in> slots tm"
    and f: "xfer_ok (f (xf tm i))" "x_start (f (xf tm i))" "\<not> x_listens (f (xf tm i))" "x_key (f (xf tm i)) = x_key (xf tm i)"
      "x_parent (f (xf tm i)) = x_parent (xf tm i)" "x_tracked (f (xf tm i)) = x_tracked (xf tm i)"
  shows "tm_ok (on_xfer i f (inactivate i tm))" "length (tm_xfers (on_xfer i f (inactivate i tm))) = length (tm_xfers tm)"
proof -
  note I = tm_okD [OF ok]
  have il: "i < length (tm_xfers tm)" and st: "x_start (xf tm i)" using i by (auto simp: slots_def)
  have "tm_ok (on_xfer i f (inactivate i tm)) \<and> length (tm_xfers (on_xfer i f (inactivate i tm))) = length (tm_xfers tm)"
  proof (cases "tm_waitingTransfers tm")
    case Nil
    let ?t = "on_xfer i f (tm\<lparr>tm_activeTransfers := tm_activeTransfers tm - 1\<rparr>)"
    have e: "on_xfer i f (inactivate i tm) = ?t" using st Nil by (simp add: inactivate_def)
    have x: "xf ?t j = (if j = i then f (xf tm i) else xf tm j)" for j using il by simp
    have "slots ?t = slots tm - {i}" using f il by (auto simp: slots_def x)
    then have "int (card (slots ?t)) = tm_activeTransfers tm - 1"
      using card.remove [OF finite_slots i] I(3) by simp
    then show ?thesis unfolding e tm_ok_def using ok f il st Nil by (simp add: tm_ok_def x)
  next
    case (Cons j js)
    have j: "j < length (tm_xfers tm)" "\<not> x_start (xf tm j)" using I(5) [of j] Cons by auto
    then have ij: "i \<noteq> j" using st by auto
    let ?t = "on_xfer i f (on_xfer j (\<lambda>x. x\<lparr>x_start := True\<rparr>) tm\<lparr>tm_waitingTransfers := js\<rparr>)"
    have e: "on_xfer i f (inactivate i tm) = ?t" using st Cons by (simp add: inactivate_def)
    have x: "xf ?t k = (if k = i then f (xf tm i) else if k = j then (xf tm j)\<lparr>x_start := True\<rparr> else xf tm k)" for k
      using il j ij by auto
    have jl: "x_listens (xf tm j)" using I(1) [OF j(1)] j(2) by (simp add: xfer_ok_def)
    have "slots ?t = insert j (slots tm - {i})" using f il j ij jl by (auto simp: slots_def x)
    moreover have "j \<notin> slots tm - {i}" using j(2) by (simp add: slots_def)
    then have "card (insert j (slots tm - {i})) = card (slots tm)"
      using card.remove [OF finite_slots i] by simp
    ultimately have c: "int (card (slots ?t)) = tm_activeTransfers tm" using I(3) by simp
    have sj: "sorted_wrt (<) js" "j \<notin> set js" using I(4) by (auto simp: Cons)
    have w: "k \<in> set js \<longleftrightarrow> k < length (tm_xfers tm) \<and> \<not> x_start (xf ?t k)" for k
      using I(5) [of k] sj(2) f(2) st by (auto simp: Cons x)
    have k: "xfer_ok (xf ?t k) \<and> (\<forall>p. x_parent (xf ?t k) = Some p \<longrightarrow> p < k)" if "k < length (tm_xfers tm)" for k
      using I(1,2) that f xfer_ok_start [OF I(1) [OF j(1)]] by (auto simp: x)
    have m: "gm_get (tm_transfers tm) n = Some k \<longleftrightarrow> k < length (tm_xfers tm) \<and> x_tracked (xf ?t k) \<and> x_key (xf ?t k) = n" for n k
      using I(6) [of n k] f by (simp add: x)
    show ?thesis unfolding e tm_ok_def using c sj(1) w k m by simp
  qed
  then show "tm_ok (on_xfer i f (inactivate i tm))" "length (tm_xfers (on_xfer i f (inactivate i tm))) = length (tm_xfers tm)" by auto
qed


section \<open>Every step keeps the invariant\<close>

lemma places_simps [simp]:
  "places (x_Watch w x) = places x" "places (x_Release w x) = places x" "places (enter_phase p x) = places x"
  "places (broadcast_done x) = places x" "places (broadcast_return x) = places x"
  by (simp_all add: places_def x_Watch_def x_Release_def enter_phase_def broadcast_done_def broadcast_return_def Let_def)

lemma Transfer_cases:
  assumes run: "Transfer key parent w tm = (tm', r)"
  obtains (joined) i where "gm_get (tm_transfers tm) key = Some i" "r = Joined i" "tm' = on_xfer i (x_Watch w) tm"
      "\<not> x_cancelled (xf (on_xfer i (x_Watch w) tm) i)"
  | (retry) i where "gm_get (tm_transfers tm) key = Some i" "r = Retry i" "tm' = on_xfer i (x_Release w) (on_xfer i (x_Watch w) tm)"
  | (new) start where "gm_get (tm_transfers tm) key = None" "r = Started (length (tm_xfers tm))"
      "start = (tm_concurrencyLimit tm = 0 \<or> tm_activeTransfers tm < tm_concurrencyLimit tm)"
      "tm' = tm\<lparr>tm_activeTransfers := tm_activeTransfers tm + (if start then 1 else 0),
        tm_waitingTransfers := tm_waitingTransfers tm @ (if start then [] else [length (tm_xfers tm)]),
        tm_xfers := tm_xfers tm @ [x_Watch w (NewTransfer key parent start)],
        tm_transfers := gm_set key (length (tm_xfers tm)) (tm_transfers tm)\<rparr>"
proof (cases "gm_get (tm_transfers tm) key")
  case None
  then show ?thesis using run by (intro new [OF None]) (auto simp: Transfer_def Let_def)
next
  case (Some i)
  then show ?thesis using run joined [OF Some] retry [OF Some] by (auto simp: Transfer_def Let_def split: if_splits)
qed

lemma Transfer_ok:
  assumes ok: "tm_ok tm" and run: "Transfer key parent w tm = (tm', r)" and p: "\<forall>p. parent = Some p \<longrightarrow> p < length (tm_xfers tm)"
  shows "tm_ok tm'"
  using run
proof (cases rule: Transfer_cases)
  case (joined i)
  have i: "i < length (tm_xfers tm)" "x_tracked (xf tm i)" using tm_okD(6) [OF ok] joined(1) by blast+
  show ?thesis unfolding joined(3) by (rule on_xfer_ok [OF ok i(1)]) (simp_all add: xfer_ok_Watch tm_okD(1) [OF ok i(1)] i(2))
next
  case (retry i)
  have i: "i < length (tm_xfers tm)" "x_tracked (xf tm i)" using tm_okD(6) [OF ok] retry(1) by blast+
  have ok1: "tm_ok (on_xfer i (x_Watch w) tm)"
    by (rule on_xfer_ok [OF ok i(1)]) (simp_all add: xfer_ok_Watch tm_okD(1) [OF ok i(1)] i(2))
  show ?thesis unfolding retry(3)
    by (rule on_xfer_ok [OF ok1]) (use i in \<open>simp_all add: xfer_ok_Release xfer_ok_Watch tm_okD(1) [OF ok i(1)]\<close>)
next
  case (new st)
  note I = tm_okD [OF ok]
  let ?n = "length (tm_xfers tm)" and ?X = "x_Watch w (NewTransfer key parent st)"
  have x: "xf tm' j = (if j = ?n then ?X else xf tm j)" if "j \<le> ?n" for j
    using that by (auto simp: new(4) xf_def nth_append)
  have len: "length (tm_xfers tm') = Suc ?n" by (simp add: new(4))
  have X: "xfer_ok ?X" "x_start ?X = st" "x_listens ?X" "x_tracked ?X" "x_key ?X = key" "x_parent ?X = parent"
    using xfer_ok_new by (simp_all add: x_Watch_def NewTransfer_def)
  have s: "slots tm' = slots tm \<union> (if st then {?n} else {})" using X by (auto simp: slots_def len x less_Suc_eq)
  have "?n \<notin> slots tm" by (simp add: slots_def)
  moreover have "tm_activeTransfers tm' = tm_activeTransfers tm + (if st then 1 else 0)" by (simp add: new(4))
  ultimately have c: "tm_activeTransfers tm' = int (card (slots tm'))" unfolding s using I(3) by auto
  have w: "sorted_wrt (<) (tm_waitingTransfers tm')" using I(4,5) by (auto simp: new(4) sorted_wrt_append)
  have m: "i \<in> set (tm_waitingTransfers tm') \<longleftrightarrow> i < length (tm_xfers tm') \<and> \<not> x_start (xf tm' i)" for i
  proof -
    have "tm_waitingTransfers tm' = tm_waitingTransfers tm @ (if st then [] else [?n])" by (simp add: new(4))
    then show ?thesis using I(5) [of i] X(2) by (cases "i = ?n") (auto simp: len x less_Suc_eq)
  qed
  have k: "xfer_ok (xf tm' i) \<and> (\<forall>q. x_parent (xf tm' i) = Some q \<longrightarrow> q < i)" if "i < Suc ?n" for i
    using that I(1,2) X p by (cases "i = ?n") (auto simp: x)
  have none: "\<not> (i < ?n \<and> x_tracked (xf tm i) \<and> x_key (xf tm i) = key)" for i using I(6) [of key i] new(1) by simp
  have "gm_get (tm_transfers tm') k = Some i \<longleftrightarrow> i < Suc ?n \<and> x_tracked (xf tm' i) \<and> x_key (xf tm' i) = k" for k i
  proof -
    have eq: "gm_get (tm_transfers tm') k = Some i \<longleftrightarrow> (if k = key then i = ?n else gm_get (tm_transfers tm) k = Some i)"
      unfolding new(4) by auto
    show ?thesis
    proof (cases "i = ?n")
      case True
      have "gm_get (tm_transfers tm) k \<noteq> Some ?n" using I(6) [of k ?n] by blast
      then show ?thesis unfolding eq using True X x [of ?n] by auto
    next
      case False
      then have "i < Suc ?n \<Longrightarrow> xf tm' i = xf tm i" "i < Suc ?n \<longleftrightarrow> i < ?n" using x [of i] by auto
      then show ?thesis unfolding eq I(6) using none [of i] False by (cases "i < ?n"; cases "k = key") simp_all
    qed
  qed
  then show ?thesis unfolding tm_ok_def len using c w m k len by simp
qed

lemma deafen_ok:
  assumes ok: "tm_ok tm" and i: "i \<in> slots tm"
  shows "tm_ok (manage_inactive i tm)" "length (tm_xfers (manage_inactive i tm)) = length (tm_xfers tm)"
  unfolding manage_inactive_def
  by (rule inactivate_ok [OF ok i]; use tm_okD(1) [OF ok, of i] i in \<open>simp add: slots_def xfer_ok_deaf\<close>)+

lemma inactive_slot: "xfer_ok (xf tm i) \<Longrightarrow> i < length (tm_xfers tm) \<Longrightarrow> x_inactive (xf tm i) \<or> \<not> x_running (xf tm i) \<Longrightarrow>
    x_listens (xf tm i) \<Longrightarrow> i \<in> slots tm"
  by (auto simp: slots_def xfer_ok_def)

text \<open>Taking a transfer that no longer listens out of the map.\<close>

lemma untrack_ok:
  assumes ok: "tm_ok tm" and i: "i < length (tm_xfers tm)" "\<not> x_listens (xf tm i)" "\<not> x_running (xf tm i)" "x_tracked (xf tm i)"
  shows "tm_ok (on_xfer i (\<lambda>x. x\<lparr>x_tracked := False\<rparr>) (tm\<lparr>tm_transfers := gm_del (x_key (xf tm i)) (tm_transfers tm)\<rparr>))" (is "tm_ok ?t")
proof -
  note I = tm_okD [OF ok]
  have x: "xf ?t j = (if j = i then (xf tm i)\<lparr>x_tracked := False\<rparr> else xf tm j)" for j
    using i(1) by (subst on_xfer_simps(6)) simp_all
  have s: "slots ?t = slots tm" by (auto simp: slots_def x)
  have k: "xfer_ok ((xf tm i)\<lparr>x_tracked := False\<rparr>)" using I(1) [OF i(1)] i by (auto simp: xfer_ok_def)
  have uniq: "j = i" if "j < length (tm_xfers tm)" "x_tracked (xf tm j)" "x_key (xf tm j) = x_key (xf tm i)" for j
    using I(6) [of "x_key (xf tm i)" j] I(6) [of "x_key (xf tm i)" i] that i by simp
  have "gm_get (tm_transfers ?t) n = Some j \<longleftrightarrow> j < length (tm_xfers ?t) \<and> x_tracked (xf ?t j) \<and> x_key (xf ?t j) = n" for n j
    using I(6) [of n j] uniq [of j] by (auto simp: x)
  then show ?thesis unfolding tm_ok_def s using I k by (auto simp: x)
qed


lemma inactivate_frame:
  assumes "tm_ok tm" "i \<in> slots tm"
  shows "tm_transfers (inactivate i tm) = tm_transfers tm" "xf (inactivate i tm) i = xf tm i"
    "length (tm_xfers (inactivate i tm)) = length (tm_xfers tm)"
proof -
  have i: "x_start (xf tm i)" using assms(2) by (simp add: slots_def)
  have "tm_transfers (inactivate i tm) = tm_transfers tm \<and> xf (inactivate i tm) i = xf tm i \<and>
      length (tm_xfers (inactivate i tm)) = length (tm_xfers tm)"
  proof (cases "tm_waitingTransfers tm")
    case (Cons j js)
    then have "j < length (tm_xfers tm)" "i \<noteq> j" using tm_okD(5) [OF assms(1), of j] i by auto
    then show ?thesis using Cons by (simp add: inactivate_def)
  qed (simp add: inactivate_def)
  then show "tm_transfers (inactivate i tm) = tm_transfers tm" "xf (inactivate i tm) i = xf tm i"
    "length (tm_xfers (inactivate i tm)) = length (tm_xfers tm)" by auto
qed

lemma deaf_eq: "\<not> x_listens x \<Longrightarrow> x\<lparr>x_listens := False, x_tracked := b\<rparr> = x\<lparr>x_tracked := b\<rparr>"
  by (cases x) simp

lemma manage_done_split:
  assumes ok: "tm_ok tm" and i: "i < length (tm_xfers tm)" "x_listens (xf tm i) \<longrightarrow> i \<in> slots tm"
  defines "t \<equiv> (if x_listens (xf tm i) then manage_inactive i tm else tm)"
  shows "manage_done i tm = on_xfer i (\<lambda>x. x\<lparr>x_tracked := False\<rparr>) (t\<lparr>tm_transfers := gm_del (x_key (xf t i)) (tm_transfers t)\<rparr>)"
    "x_key (xf t i) = x_key (xf tm i)" "\<not> x_listens (xf t i)" "x_running (xf t i) = x_running (xf tm i)"
    "x_tracked (xf t i) = x_tracked (xf tm i)"
proof -
  have "manage_done i tm = on_xfer i (\<lambda>x. x\<lparr>x_tracked := False\<rparr>) (t\<lparr>tm_transfers := gm_del (x_key (xf t i)) (tm_transfers t)\<rparr>) \<and>
     x_key (xf t i) = x_key (xf tm i) \<and> \<not> x_listens (xf t i) \<and> x_running (xf t i) = x_running (xf tm i) \<and>
     x_tracked (xf t i) = x_tracked (xf tm i)"
  proof (cases "x_listens (xf tm i)")
    case False
    then show ?thesis by (simp add: manage_done_def on_xfer_def t_def Let_def deaf_eq)
  next
    case True
    then have s: "i \<in> slots tm" using i by simp
    note F = inactivate_frame [OF ok s]
    have x: "xf t i = (xf tm i)\<lparr>x_listens := False\<rparr>" using True F i(1) by (simp add: t_def manage_inactive_def)
    have "tm_transfers t = tm_transfers tm" using True F by (simp add: t_def manage_inactive_def)
    then show ?thesis using True F i(1) x
      by (simp add: manage_done_def t_def manage_inactive_def Let_def) (simp add: on_xfer_def xf_def)
  qed
  then show "manage_done i tm = on_xfer i (\<lambda>x. x\<lparr>x_tracked := False\<rparr>) (t\<lparr>tm_transfers := gm_del (x_key (xf t i)) (tm_transfers t)\<rparr>)"
    "x_key (xf t i) = x_key (xf tm i)" "\<not> x_listens (xf t i)" "x_running (xf t i) = x_running (xf tm i)"
    "x_tracked (xf t i) = x_tracked (xf tm i)" by auto
qed

lemma manage_done_ok:
  assumes ok: "tm_ok tm" and i: "i < length (tm_xfers tm)" "\<not> x_running (xf tm i)" "x_tracked (xf tm i)"
  shows "tm_ok (manage_done i tm)"
proof -
  let ?t = "if x_listens (xf tm i) then manage_inactive i tm else tm"
  have s: "x_listens (xf tm i) \<longrightarrow> i \<in> slots tm" using inactive_slot [OF tm_okD(1) [OF ok i(1)] i(1)] i(2) by simp
  note M = manage_done_split [OF ok i(1) s]
  have t: "tm_ok ?t" "length (tm_xfers ?t) = length (tm_xfers tm)" using deafen_ok [OF ok] ok s by auto
  show ?thesis unfolding M(1)
    by (rule untrack_ok [OF t(1)]) (use M t(2) i in simp_all)
qed

lemma manage_close_ok:
  assumes ok: "tm_ok tm" and i: "i < length (tm_xfers tm)" "\<not> x_tracked (xf tm i)" "\<not> x_closed (xf tm i)"
  shows "\<exists>tm'. manage_close i tm = Some tm' \<and> tm_ok tm' \<and>
     tm' = on_xfer i (\<lambda>x. x\<lparr>x_closed := True, x_released := (x_watchers x = [])\<rparr>) tm"
proof -
  note C = xfer_ok_Close [OF tm_okD(1) [OF ok i(1)] i(2,3)]
  have "manage_close i tm = Some (on_xfer i (\<lambda>x. x\<lparr>x_closed := True, x_released := (x_watchers x = [])\<rparr>) tm)"
    by (simp add: manage_close_def C(1) on_xfer_def)
  moreover have "tm_ok (on_xfer i (\<lambda>x. x\<lparr>x_closed := True, x_released := (x_watchers x = [])\<rparr>) tm)"
    by (rule on_xfer_ok [OF ok i(1)]) (use C in \<open>simp_all add: places_def\<close>)
  ultimately show ?thesis by blast
qed

lemma client_ok: "tm_client N tm tm' \<Longrightarrow> tm_ok tm \<Longrightarrow> tm_ok tm'"
proof (induction rule: tm_client.induct)
  case transfer
  then show ?case using Transfer_ok by blast
next
  case (release i tm w)
  then show ?case by (intro on_xfer_ok) (simp_all add: xfer_ok_Release tm_okD(1))
next
  case (limit n tm)
  then show ?case by (simp add: tm_ok_def slots_def) (simp add: SetConcurrency_def)
qed

lemma internal_ok: "tm_internal tm tm' \<Longrightarrow> tm_ok tm \<Longrightarrow> tm_ok tm'"
proof (induction rule: tm_internal.induct)
  case (phase i tm p)
  then show ?case by (intro on_xfer_ok) (simp_all add: xfer_ok_phase tm_okD(1))
next
  case (depleted i tm ok)
  then show ?case using xfer_ok_broadcast(1) tm_okD(1) by (intro on_xfer_ok) simp_all
next
  case (broadcast_ends i tm)
  then show ?case using xfer_ok_broadcast(2) tm_okD(1) by (intro on_xfer_ok) simp_all
next
  case (inactive i tm)
  then show ?case using deafen_ok(1) inactive_slot tm_okD(1) by blast
next
  case (finished i tm)
  then show ?case by (intro manage_done_ok)
next
  case (closing i tm tm')
  then show ?case using manage_close_ok by fastforce
qed

lemma new_manager_ok: "tm_ok (NewTransferManager n)"
  by (simp add: tm_ok_def NewTransferManager_def slots_def)

lemma tm_reach_ok: "tm_reach N tm \<Longrightarrow> tm_ok tm"
  by (induction rule: tm_reach.induct) (auto intro: new_manager_ok client_ok internal_ok)

end
