(* ===== verification/TransferProps.thy ===== *)
theory TransferProps
  imports TransferSteps
begin

text \<open>
  What the manager of transfers guarantees: slots are never oversubscribed nor lost, everything
  that is asked for comes to an end, and requests for the same key share one transfer.
\<close>

section \<open>Slots\<close>

lemma inactivate_effect:
  assumes "tm_ok tm" "i \<in> slots tm"
  shows "tm_concurrencyLimit (inactivate i tm) = tm_concurrencyLimit tm"
    "tm_waitingTransfers tm = [] \<Longrightarrow> inactivate i tm = tm\<lparr>tm_activeTransfers := tm_activeTransfers tm - 1\<rparr>"
    "tm_waitingTransfers tm = j # js \<Longrightarrow> tm_activeTransfers (inactivate i tm) = tm_activeTransfers tm \<and>
       tm_waitingTransfers (inactivate i tm) = js"
  using assms by (auto simp: inactivate_def slots_def split: list.split)

lemma manage_inactive_effect:
  assumes "tm_ok tm" "i \<in> slots tm"
  shows "tm_concurrencyLimit (manage_inactive i tm) = tm_concurrencyLimit tm"
    "tm_waitingTransfers tm = [] \<Longrightarrow> tm_waitingTransfers (manage_inactive i tm) = [] \<and>
       tm_activeTransfers (manage_inactive i tm) = tm_activeTransfers tm - 1"
    "tm_waitingTransfers tm \<noteq> [] \<Longrightarrow> tm_activeTransfers (manage_inactive i tm) = tm_activeTransfers tm \<and>
       tm_waitingTransfers (manage_inactive i tm) = tl (tm_waitingTransfers tm)"
  using inactivate_effect [OF assms] by (auto simp: manage_inactive_def neq_Nil_conv)

text \<open>An internal step leaves the slots alone or passes one on.\<close>

lemma internal_effect:
  assumes "tm_internal tm tm'" "tm_ok tm"
  shows "tm_concurrencyLimit tm' = tm_concurrencyLimit tm \<and>
    (tm_waitingTransfers tm' = tm_waitingTransfers tm \<and> tm_activeTransfers tm' = tm_activeTransfers tm \<or>
     tm_waitingTransfers tm = [] \<and> tm_waitingTransfers tm' = [] \<and> tm_activeTransfers tm' = tm_activeTransfers tm - 1 \<or>
     tm_waitingTransfers tm \<noteq> [] \<and> tm_waitingTransfers tm' = tl (tm_waitingTransfers tm) \<and> tm_activeTransfers tm' = tm_activeTransfers tm)"
  using assms
proof (induction rule: tm_internal.induct)
  case (inactive i tm)
  then have "i \<in> slots tm" using inactive_slot tm_okD(1) by blast
  from manage_inactive_effect [OF inactive.prems this] show ?case by blast
next
  case (finished i tm)
  have s: "x_listens (xf tm i) \<longrightarrow> i \<in> slots tm" using inactive_slot tm_okD(1) finished by blast
  show ?case
  proof (cases "x_listens (xf tm i)")
    case True
    then have "i \<in> slots tm" using s by simp
    from manage_inactive_effect [OF finished.prems this] show ?thesis
      using manage_done_split(1) [OF finished.prems finished.hyps(1) s] True by (cases "tm_waitingTransfers tm = []") auto
  next
    case False
    then show ?thesis using manage_done_split(1) [OF finished.prems finished.hyps(1) s] by simp
  qed
next
  case (closing i tm tm')
  then show ?case using manage_close_ok [of tm i] by auto
qed simp_all

lemma tm_reach_slots:
  assumes "tm_reach N tm" "\<forall>n \<in> N. n = 0 \<or> A \<le> n" "0 < A"
  shows "tm_concurrencyLimit tm \<in> N \<and> ((\<forall>n \<in> N. 0 < n \<and> n \<le> B) \<longrightarrow> tm_activeTransfers tm \<le> B) \<and>
     (tm_waitingTransfers tm \<noteq> [] \<longrightarrow> A \<le> tm_activeTransfers tm)"
  using assms(1)
proof (induction rule: tm_reach.induct)
  case (start n)
  then show ?case using assms(2,3) by (fastforce simp: NewTransferManager_def)
next
  case (client tm tm')
  from client.hyps(2) show ?case
  proof cases
    case (transfer parent w key r)
    from transfer(3) show ?thesis
    proof (cases rule: Transfer_cases)
      case (new start)
      have "tm_concurrencyLimit tm = 0 \<or> A \<le> tm_concurrencyLimit tm"
        "(\<forall>n \<in> N. 0 < n \<and> n \<le> B) \<longrightarrow> 0 < tm_concurrencyLimit tm \<and> tm_concurrencyLimit tm \<le> B"
        using client.IH assms(2,3) by auto
      then show ?thesis using client.IH new by (cases start) (auto simp: new(4))
    qed (use client.IH in simp_all)
  next
    case (release i w)
    then show ?thesis using client.IH by simp
  next
    case (limit n)
    then show ?thesis using client.IH by (simp add: SetConcurrency_def)
  qed
next
  case (internal tm tm')
  have "tm_activeTransfers tm' \<le> tm_activeTransfers tm" "tm_waitingTransfers tm' \<noteq> [] \<Longrightarrow> tm_waitingTransfers tm \<noteq> [] \<and>
      tm_activeTransfers tm' = tm_activeTransfers tm" "tm_concurrencyLimit tm' = tm_concurrencyLimit tm"
    using internal_effect [OF internal.hyps(2) tm_reach_ok [OF internal.hyps(1)]] by auto
  then show ?case using internal.IH by auto
qed


text \<open>With one limit transfers start in the order in which they were asked for.\<close>

definition in_order :: "tman \<Rightarrow> bool" where
  "in_order tm \<longleftrightarrow> (\<forall>i j. i < j \<longrightarrow> j < length (tm_xfers tm) \<longrightarrow> x_start (xf tm j) \<longrightarrow> x_start (xf tm i))"

lemma in_order_on_xfer:
  assumes "in_order tm" "i < length (tm_xfers tm)" "x_start (f (xf tm i)) = x_start (xf tm i)"
  shows "in_order (on_xfer i f tm)"
  using assms by (auto simp: in_order_def)

lemma in_order_inactivate:
  assumes ord: "in_order tm" and ok: "tm_ok tm" and i: "i \<in> slots tm"
  shows "in_order (inactivate i tm)"
proof (cases "tm_waitingTransfers tm")
  case Nil
  then show ?thesis using ord inactivate_effect(2) [OF ok i] by (simp add: in_order_def)
next
  case (Cons j js)
  have j: "j < length (tm_xfers tm)" using tm_okD(5) [OF ok, of j] Cons by simp
  have "x_start (xf tm k)" if "k < j" for k
  proof (rule ccontr)
    assume "\<not> x_start (xf tm k)"
    then have "k \<in> set (tm_waitingTransfers tm)" using tm_okD(5) [OF ok, of k] that j by simp
    then show False using tm_okD(4) [OF ok] that by (auto simp: Cons)
  qed
  moreover have "inactivate i tm = on_xfer j (\<lambda>x. x\<lparr>x_start := True\<rparr>) tm\<lparr>tm_waitingTransfers := js\<rparr>"
    using i Cons by (simp add: inactivate_def slots_def)
  ultimately show ?thesis using ord j by (auto simp: in_order_def)
qed

lemma in_order_manage_inactive:
  assumes "in_order tm" "tm_ok tm" "i \<in> slots tm"
  shows "in_order (manage_inactive i tm)"
  unfolding manage_inactive_def
  by (rule in_order_on_xfer [OF in_order_inactivate [OF assms]])
    (use inactivate_frame(3) [OF assms(2,3)] assms(3) in \<open>simp_all add: slots_def\<close>)

lemma in_order_internal:
  assumes "tm_internal tm tm'" "in_order tm" "tm_ok tm"
  shows "in_order tm'"
  using assms
proof (induction rule: tm_internal.induct)
  case (inactive i tm)
  then have "i \<in> slots tm" using inactive_slot tm_okD(1) by blast
  then show ?case using in_order_manage_inactive inactive.prems by blast
next
  case (finished i tm)
  have s: "x_listens (xf tm i) \<longrightarrow> i \<in> slots tm" using inactive_slot tm_okD(1) finished by blast
  let ?t = "if x_listens (xf tm i) then manage_inactive i tm else tm"
  have "in_order ?t" "length (tm_xfers ?t) = length (tm_xfers tm)"
    using in_order_manage_inactive [OF finished.prems] finished.prems deafen_ok(2) [OF finished.prems(2)] s by auto
  then show ?case unfolding manage_done_split(1) [OF finished.prems(2) finished.hyps(1) s]
    by (intro in_order_on_xfer) (use finished in \<open>simp_all add: in_order_def\<close>)
next
  case (closing i tm tm')
  then obtain f where "tm' = on_xfer i f tm" "x_start (f (xf tm i)) = x_start (xf tm i)" using manage_close_ok [of tm i] by auto
  then show ?case using closing in_order_on_xfer by simp
qed (auto intro!: in_order_on_xfer simp: enter_phase_def broadcast_done_def broadcast_return_def)

lemma tm_reach_in_order:
  assumes "tm_reach {L} tm" "0 < L"
  shows "in_order tm"
  using assms(1)
proof (induction rule: tm_reach.induct)
  case (start n)
  then show ?case by (simp add: in_order_def NewTransferManager_def)
next
  case (client tm tm')
  note ok = tm_reach_ok [OF client.hyps(1)]
  from client.hyps(2) show ?case
  proof cases
    case (transfer parent w key r)
    from transfer(3) show ?thesis
    proof (cases rule: Transfer_cases)
      case (joined i)
      then have "i < length (tm_xfers tm)" using tm_okD(6) [OF ok] by blast
      then show ?thesis unfolding joined(3) by (rule in_order_on_xfer [OF client.IH]) (simp add: x_Watch_def)
    next
      case (retry i)
      then have "i < length (tm_xfers tm)" using tm_okD(6) [OF ok] by blast
      then show ?thesis unfolding retry(3)
        by (intro in_order_on_xfer client.IH) (simp_all add: x_Watch_def x_Release_def Let_def)
    next
      case (new st)
      let ?n = "length (tm_xfers tm)"
      have S: "tm_concurrencyLimit tm = L" "tm_waitingTransfers tm \<noteq> [] \<longrightarrow> L \<le> tm_activeTransfers tm"
        using tm_reach_slots [OF client.hyps(1), of L] assms(2) by auto
      have all: "x_start (xf tm i)" if "st" "i < ?n" for i
        using tm_okD(5) [OF ok, of i] that S assms(2) by (cases "tm_waitingTransfers tm") (auto simp: new(3))
      have x: "xf tm' j = (if j = ?n then x_Watch w (NewTransfer key parent st) else xf tm j)" if "j \<le> ?n" for j
        using that by (auto simp: new(4) xf_def nth_append)
      have len: "length (tm_xfers tm') = Suc ?n" by (simp add: new(4))
      show ?thesis unfolding in_order_def len
      proof (intro allI impI)
        fix i j
        assume ij: "i < j" "j < Suc ?n" "x_start (xf tm' j)"
        show "x_start (xf tm' i)"
        proof (cases "j = ?n")
          case True
          then have st using ij(3) x [of ?n] by (simp add: x_Watch_def NewTransfer_def)
          then show ?thesis using all ij True x [of i] by simp
        next
          case False
          then show ?thesis using client.IH ij x [of i] x [of j] unfolding in_order_def by auto
        qed
      qed
    qed
  next
    case (release i w)
    show ?thesis unfolding release(1) by (rule in_order_on_xfer [OF client.IH release(2)]) (simp add: x_Release_def Let_def)
  next
    case (limit n)
    then show ?thesis using client.IH by (simp add: in_order_def) (simp add: SetConcurrency_def)
  qed
next
  case (internal tm tm')
  then show ?case using in_order_internal tm_reach_ok by blast
qed


section \<open>Progress\<close>

definition phase_rank :: "phase \<Rightarrow> nat" where
  "phase_rank p = (case p of Waits \<Rightarrow> 3 | Moves \<Rightarrow> 2 | Quiet \<Rightarrow> 1 | Returned _ \<Rightarrow> 0)"

definition xfer_rank :: "xfer \<Rightarrow> nat" where
  "xfer_rank x = phase_rank (x_phase x) + of_bool (\<not> x_broadcastDone x) + of_bool (x_running x) + of_bool (x_listens x) +
     of_bool (x_tracked x) + of_bool (\<not> x_closed x)"

text \<open>The number of steps that are still to come, at most.\<close>

definition tm_rank :: "tman \<Rightarrow> nat" where
  "tm_rank tm = sum_list (map xfer_rank (tm_xfers tm))"

lemma tm_rank_on_xfer:
  assumes "i < length (tm_xfers tm)"
  shows "tm_rank (on_xfer i f tm) + xfer_rank (xf tm i) = tm_rank tm + xfer_rank (f (xf tm i))"
proof -
  have "sum_list (map g (xs[i := y])) + g (xs ! i) = sum_list (map g xs) + g y" if "i < length xs" for g :: "xfer \<Rightarrow> nat" and xs y
    using that by (induction xs arbitrary: i) (auto split: nat.split)
  from this [OF assms] show ?thesis by (simp add: tm_rank_def on_xfer_def xf_def)
qed

lemma tm_rank_less: "i < length (tm_xfers tm) \<Longrightarrow> xfer_rank (f (xf tm i)) < xfer_rank (xf tm i) \<Longrightarrow> tm_rank (on_xfer i f tm) < tm_rank tm"
  using tm_rank_on_xfer [of i tm f] by simp

lemma tm_rank_frame [simp]: "tm_rank (tm\<lparr>tm_transfers := m\<rparr>) = tm_rank tm" "tm_rank (tm\<lparr>tm_waitingTransfers := ws\<rparr>) = tm_rank tm"
  "tm_rank (tm\<lparr>tm_activeTransfers := a\<rparr>) = tm_rank tm"
  by (simp_all add: tm_rank_def)

lemma tm_rank_inactivate:
  assumes "tm_ok tm" "i \<in> slots tm"
  shows "tm_rank (inactivate i tm) = tm_rank tm"
proof (cases "tm_waitingTransfers tm")
  case Nil
  then show ?thesis using inactivate_effect(2) [OF assms] by simp
next
  case (Cons j js)
  then have "j < length (tm_xfers tm)" using tm_okD(5) [OF assms(1), of j] by simp
  then have "tm_rank (on_xfer j (\<lambda>x. x\<lparr>x_start := True\<rparr>) tm) = tm_rank tm"
    using tm_rank_on_xfer [of j tm "\<lambda>x. x\<lparr>x_start := True\<rparr>"] by (simp add: xfer_rank_def)
  then show ?thesis using Cons assms(2) by (simp add: inactivate_def slots_def)
qed

lemma tm_rank_manage_inactive:
  assumes "tm_ok tm" "i \<in> slots tm"
  shows "tm_rank (manage_inactive i tm) < tm_rank tm"
proof -
  have i: "i < length (tm_xfers (inactivate i tm))" "xf (inactivate i tm) i = xf tm i" "x_listens (xf tm i)"
    using inactivate_frame [OF assms] assms(2) by (simp_all add: slots_def)
  have "tm_rank (manage_inactive i tm) < tm_rank (inactivate i tm)" unfolding manage_inactive_def
    by (rule tm_rank_less [OF i(1)]) (use i in \<open>simp add: xfer_rank_def\<close>)
  then show ?thesis using tm_rank_inactivate [OF assms] by simp
qed

lemma internal_rank:
  assumes "tm_internal tm tm'" "tm_ok tm"
  shows "tm_rank tm' < tm_rank tm"
  using assms
proof (induction rule: tm_internal.induct)
  case (phase i tm p)
  have "phase_rank p < phase_rank (x_phase (xf tm i))"
    using phase by (auto simp: function_next_def phase_rank_def split: phase.splits if_splits)
  then show ?case using phase by (intro tm_rank_less) (simp_all add: xfer_rank_def enter_phase_def)
next
  case (inactive i tm)
  then have "i \<in> slots tm" using inactive_slot tm_okD(1) by blast
  then show ?case using tm_rank_manage_inactive inactive.prems by blast
next
  case (finished i tm)
  have s: "x_listens (xf tm i) \<longrightarrow> i \<in> slots tm" using inactive_slot tm_okD(1) finished by blast
  let ?t = "if x_listens (xf tm i) then manage_inactive i tm else tm"
  note M = manage_done_split [OF finished.prems finished.hyps(1) s]
  have t: "tm_rank ?t \<le> tm_rank tm" "length (tm_xfers ?t) = length (tm_xfers tm)"
    using tm_rank_manage_inactive [OF finished.prems, of i] deafen_ok(2) [OF finished.prems, of i] s by auto
  have "tm_rank (manage_done i tm) < tm_rank (?t\<lparr>tm_transfers := gm_del (x_key (xf ?t i)) (tm_transfers ?t)\<rparr>)"
    unfolding M(1) by (rule tm_rank_less) (use M(5) t(2) finished in \<open>simp_all add: xfer_rank_def\<close>)
  then show ?case using t(1) unfolding tm_rank_frame by (rule less_le_trans)
next
  case (closing i tm tm')
  then have "tm' = on_xfer i (\<lambda>x. x\<lparr>x_closed := True, x_released := (x_watchers x = [])\<rparr>) tm" using manage_close_ok [of tm i] by auto
  then show ?case using closing by (simp add: tm_rank_less xfer_rank_def)
qed (auto intro!: tm_rank_less simp: xfer_rank_def broadcast_done_def broadcast_return_def)

text \<open>The manager is at rest when every transfer is over.\<close>

definition at_rest :: "tman \<Rightarrow> bool" where
  "at_rest tm \<longleftrightarrow>
     (\<forall>i < length (tm_xfers tm). x_closed (xf tm i) \<and> \<not> x_running (xf tm i) \<and> (x_released (xf tm i) \<longleftrightarrow> x_watchers (xf tm i) = [])) \<and>
     tm_transfers tm = [] \<and> tm_waitingTransfers tm = [] \<and> tm_activeTransfers tm = 0"

lemma stuck_returned:
  assumes ok: "tm_ok tm" and stuck: "\<nexists>tm'. tm_internal tm tm'" and i: "i < length (tm_xfers tm)" "x_phase (xf tm i) = Returned b"
  shows "\<not> x_running (xf tm i) \<and> x_closed (xf tm i) \<and> \<not> x_listens (xf tm i) \<and> \<not> x_tracked (xf tm i)"
proof -
  have b: "x_broadcastDone (xf tm i)" using stuck tm_internal.depleted [OF i] by blast
  have r: "\<not> x_running (xf tm i)" using stuck tm_internal.broadcast_ends [OF i(1) b] by blast
  have t: "\<not> x_tracked (xf tm i)" using stuck tm_internal.finished [OF i(1) r] by blast
  have c: "x_closed (xf tm i)"
  proof (rule ccontr)
    assume n: "\<not> x_closed (xf tm i)"
    obtain tm' where "manage_close i tm = Some tm'" using manage_close_ok [OF ok i(1) t n] by blast
    then show False using stuck tm_internal.closing [OF i(1) t n] by blast
  qed
  have "\<not> x_listens (xf tm i)" using tm_okD(1) [OF ok i(1)] t by (auto simp: xfer_ok_def)
  then show ?thesis using r t c by blast
qed

lemma stuck_at_rest:
  assumes ok: "tm_ok tm" and stuck: "\<nexists>tm'. tm_internal tm tm'" and slot: "tm_waitingTransfers tm \<noteq> [] \<Longrightarrow> 0 < tm_activeTransfers tm"
  shows "at_rest tm"
proof -
  note I = tm_okD [OF ok]
  have none: "function_next tm (xf tm i) = {}" if "i < length (tm_xfers tm)" for i
    using stuck tm_internal.phase [OF that] by blast
  have slots: "slots tm = {}"
  proof (rule ccontr)
    assume "slots tm \<noteq> {}"
    then obtain i where i: "i < length (tm_xfers tm)" "x_start (xf tm i)" "x_listens (xf tm i)" by (auto simp: slots_def)
    have "x_phase (xf tm i) \<noteq> Waits" "x_phase (xf tm i) \<noteq> Moves" using none [OF i(1)] i(2) by (auto simp: function_next_def)
    moreover have "\<not> x_inactive (xf tm i)" using stuck tm_internal.inactive [OF i(1) _ i(3)] by blast
    then have "x_phase (xf tm i) \<noteq> Quiet" using I(1) [OF i(1)] by (simp add: xfer_ok_def)
    ultimately obtain b where "x_phase (xf tm i) = Returned b" by (cases "x_phase (xf tm i)") auto
    then show False using stuck_returned [OF ok stuck i(1)] i(3) by blast
  qed
  then have a: "tm_activeTransfers tm = 0" using I(3) by simp
  then have w: "tm_waitingTransfers tm = []" using slot by fastforce
  have ret: "\<exists>b. x_phase (xf tm i) = Returned b" if "i < length (tm_xfers tm)" for i
    using that
  proof (induction i rule: less_induct)
    case (less i)
    have "x_start (xf tm i)" using I(5) [of i] w less.prems by simp
    then have "x_phase (xf tm i) \<noteq> Waits" "x_phase (xf tm i) \<noteq> Moves" using none [OF less.prems] by (auto simp: function_next_def)
    moreover have "\<not> parent_running tm (xf tm i)"
    proof (cases "x_parent (xf tm i)")
      case (Some p)
      then have "p < i" using I(2) less.prems by blast
      then have "\<not> x_running (xf tm p)" using less stuck_returned [OF ok stuck, of p] by force
      then show ?thesis using Some by (simp add: parent_running_def)
    qed (simp add: parent_running_def)
    then have "x_phase (xf tm i) \<noteq> Quiet" using none [OF less.prems] by (auto simp: function_next_def)
    ultimately show ?case by (cases "x_phase (xf tm i)") auto
  qed
  have all: "\<not> x_running (xf tm i) \<and> x_closed (xf tm i) \<and> \<not> x_tracked (xf tm i)" if "i < length (tm_xfers tm)" for i
    using ret [OF that] stuck_returned [OF ok stuck that] by blast
  have "gm_get (tm_transfers tm) k \<noteq> Some i" for k i using I(6) [of k i] all by blast
  then have "tm_transfers tm = []" unfolding gm_empty_iff by (meson not_Some_eq)
  moreover have "x_released (xf tm i) \<longleftrightarrow> x_watchers (xf tm i) = []" if "i < length (tm_xfers tm)" for i
    using I(1) [OF that] all [OF that] by (simp add: xfer_ok_def)
  ultimately show ?thesis using all a w by (simp add: at_rest_def)
qed


section \<open>An example\<close>

text \<open>A layer, a second one on top of it that waits for a slot, and a second request for the first.\<close>

definition ex_tm1 :: tman where "ex_tm1 = fst (Transfer ''a'' None 0 (NewTransferManager 1))"
definition ex_tm2 :: tman where "ex_tm2 = fst (Transfer ''ab'' (Some 0) 1 ex_tm1)"
definition ex_tm3 :: tman where "ex_tm3 = fst (Transfer ''a'' None 2 ex_tm2)"

lemma ex_tm3_reach:
  assumes "1 \<in> N"
  shows "tm_reach N ex_tm3" "tm_reach N ex_tm2"
proof -
  have 1: "tm_reach N ex_tm1" unfolding ex_tm1_def
    by (rule tm_reach.client [OF tm_reach.start [OF assms] tm_client.transfer [OF _ _ surjective_pairing]])
      (simp_all add: NewTransferManager_def)
  have "\<forall>i < length (tm_xfers ex_tm1). (1::nat) \<notin> set (x_watchers (xf ex_tm1 i))" "(0::nat) < length (tm_xfers ex_tm1)" by code_simp+
  then show 2: "tm_reach N ex_tm2" unfolding ex_tm2_def
    by (intro tm_reach.client [OF 1 tm_client.transfer [OF _ _ surjective_pairing]]) simp_all
  have "\<forall>i < length (tm_xfers ex_tm2). (2::nat) \<notin> set (x_watchers (xf ex_tm2 i))" by code_simp
  then show "tm_reach N ex_tm3" unfolding ex_tm3_def
    by (intro tm_reach.client [OF 2 tm_client.transfer [OF _ _ surjective_pairing]]) simp_all
qed

lemma ex_tm_values: "tm_waitingTransfers ex_tm3 = [1]" "tm_activeTransfers ex_tm3 = 1" "length (tm_xfers ex_tm3) = 2"
  "tm_waitingTransfers ex_tm2 = [1]" "tm_activeTransfers ex_tm2 = 1"
  "snd (Transfer ''a'' None 2 ex_tm2) = Joined 0" "x_start (xf ex_tm3 0)" "\<not> x_start (xf ex_tm3 1)"
  by code_simp+

section \<open>Guarantees\<close>

text \<open>
  In every reachable state of the manager the number of active transfers is the number of those
  that were given a slot and have not handed it back. It is never above the largest limit
  that was set. A transfer waits only while another has a slot; and if the limit was never
  changed, only while all slots are taken, and transfers start in the order of the requests.
\<close>

theorem transfer_slots:
  assumes "tm_reach N tm" "\<forall>n \<in> N. 0 < n \<and> n \<le> B"
  shows "tm_activeTransfers tm = int (card {i. i < length (tm_xfers tm) \<and> x_start (xf tm i) \<and> x_listens (xf tm i)}) \<and>
     tm_activeTransfers tm \<le> B \<and>
     (tm_waitingTransfers tm \<noteq> [] \<longrightarrow> 0 < tm_activeTransfers tm) \<and>
     (\<forall>L. N = {L} \<longrightarrow> (tm_waitingTransfers tm \<noteq> [] \<longrightarrow> tm_activeTransfers tm = L) \<and>
        (\<forall>i j. i < j \<longrightarrow> j < length (tm_xfers tm) \<longrightarrow> x_start (xf tm j) \<longrightarrow> x_start (xf tm i)))"
proof -
  have "tm_activeTransfers tm \<le> B \<and> (tm_waitingTransfers tm \<noteq> [] \<longrightarrow> 1 \<le> tm_activeTransfers tm)"
    using tm_reach_slots [OF assms(1), of 1 B] assms(2) by fastforce
  moreover have "(tm_waitingTransfers tm \<noteq> [] \<longrightarrow> tm_activeTransfers tm = L) \<and> in_order tm" if "N = {L}" for L
    using tm_reach_slots [OF assms(1), of L L] tm_reach_in_order [of L tm] assms that by force
  ultimately show ?thesis using tm_okD(3) [OF tm_reach_ok [OF assms(1)]] by (auto simp: slots_def in_order_def)
qed

theorem transfer_slots_witness: "tm_activeTransfers ex_tm3 \<le> 1 \<and> x_start (xf ex_tm3 0) \<and> \<not> x_start (xf ex_tm3 1)"
  using transfer_slots [OF ex_tm3_reach(1) [of "{1}"], of 1] ex_tm_values by simp

text \<open>
  C37. Every step of the transfers and of the manager lowers a rank, so they stop when clients ask for
  nothing more, whatever limits the clients have set, zero (no limit) among them; negative ones are
  refused by the configuration. They stop in no state but one in which all transfers are over and closed,
  their layers released unless somebody still watches, with no slot taken and nothing waiting. In particular a
  transfer that waits for its parent's never keeps the parent from starting.
\<close>

theorem transfers_complete:
  assumes "tm_reach N tm" "\<forall>n \<in> N. 0 \<le> n"
  shows "(\<forall>tm'. tm_internal tm tm' \<longrightarrow> tm_rank tm' < tm_rank tm) \<and>
     (\<not> at_rest tm \<longrightarrow> (\<exists>tm'. tm_internal tm tm')) \<and>
     (\<exists>tm'. tm_internal\<^sup>*\<^sup>* tm tm' \<and> at_rest tm')"
proof (intro conjI)
  show "\<forall>tm'. tm_internal tm tm' \<longrightarrow> tm_rank tm' < tm_rank tm"
    using internal_rank tm_reach_ok [OF assms(1)] by blast
  have progress: "at_rest t \<or> (\<exists>t'. tm_internal t t')" if "tm_reach N t" for t
    using stuck_at_rest [OF tm_reach_ok [OF that]] tm_reach_slots [OF that, of 1] assms(2) by fastforce
  then show "\<not> at_rest tm \<longrightarrow> (\<exists>tm'. tm_internal tm tm')" using assms(1) by blast
  show "\<exists>tm'. tm_internal\<^sup>*\<^sup>* tm tm' \<and> at_rest tm'"
    using assms(1)
  proof (induction "tm_rank tm" arbitrary: tm rule: less_induct)
    case less
    show ?case
    proof (cases "at_rest tm")
      case False
      then obtain t where t: "tm_internal tm t" using progress [OF less.prems] by blast
      from less.hyps [OF internal_rank [OF t tm_reach_ok [OF less.prems]] tm_reach.internal [OF less.prems t]] t
      show ?thesis by (meson converse_rtranclp_into_rtranclp)
    qed blast
  qed
qed

theorem transfers_complete_witness: "\<not> at_rest ex_tm3 \<and> (\<exists>tm'. tm_internal\<^sup>*\<^sup>* ex_tm3 tm' \<and> at_rest tm')"
  using transfers_complete [OF ex_tm3_reach(1) [of "{1}"]] ex_tm_values by (simp add: at_rest_def)

text \<open>
  A request either joins the one transfer in progress with its key, which has not been
  cancelled, or starts a new one when there is none, or finds one that was cancelled and leaves everything as
  it was to try again. A transfer that is not closed is cancelled only when nobody watches it any more.
\<close>

theorem transfer_sharing:
  assumes "tm_reach N tm" "\<forall>i < length (tm_xfers tm). w \<notin> set (x_watchers (xf tm i))" "Transfer key parent w tm = (tm', r)"
  shows "(case r of
       Joined i \<Rightarrow> gm_get (tm_transfers tm) key = Some i \<and> i < length (tm_xfers tm) \<and> x_key (xf tm i) = key \<and>
         xf tm' i = x_Watch w (xf tm i) \<and> \<not> x_cancelled (xf tm' i) \<and> (\<forall>j. j \<noteq> i \<longrightarrow> xf tm' j = xf tm j)
     | Started i \<Rightarrow> i = length (tm_xfers tm) \<and> (\<forall>j < i. x_key (xf tm j) = key \<longrightarrow> \<not> x_tracked (xf tm j)) \<and>
         gm_get (tm_transfers tm') key = Some i \<and> x_watchers (xf tm' i) = [w] \<and> \<not> x_cancelled (xf tm' i) \<and>
         (x_start (xf tm' i) \<longleftrightarrow> tm_concurrencyLimit tm = 0 \<or> tm_activeTransfers tm < tm_concurrencyLimit tm)
     | Retry i \<Rightarrow> i < length (tm_xfers tm) \<and> x_key (xf tm i) = key \<and> x_cancelled (xf tm i) \<and> (\<forall>j. xf tm' j = xf tm j)) \<and>
     (\<forall>i < length (tm_xfers tm). \<not> x_closed (xf tm i) \<longrightarrow> \<not> x_cancelled (xf tm i) \<longrightarrow> x_watchers (xf tm i) \<noteq> [])"
proof
  note I = tm_okD [OF tm_reach_ok [OF assms(1)]]
  show "\<forall>i < length (tm_xfers tm). \<not> x_closed (xf tm i) \<longrightarrow> \<not> x_cancelled (xf tm i) \<longrightarrow> x_watchers (xf tm i) \<noteq> []"
    using I(1) by (auto simp: xfer_ok_def)
  show "case r of
       Joined i \<Rightarrow> gm_get (tm_transfers tm) key = Some i \<and> i < length (tm_xfers tm) \<and> x_key (xf tm i) = key \<and>
         xf tm' i = x_Watch w (xf tm i) \<and> \<not> x_cancelled (xf tm' i) \<and> (\<forall>j. j \<noteq> i \<longrightarrow> xf tm' j = xf tm j)
     | Started i \<Rightarrow> i = length (tm_xfers tm) \<and> (\<forall>j < i. x_key (xf tm j) = key \<longrightarrow> \<not> x_tracked (xf tm j)) \<and>
         gm_get (tm_transfers tm') key = Some i \<and> x_watchers (xf tm' i) = [w] \<and> \<not> x_cancelled (xf tm' i) \<and>
         (x_start (xf tm' i) \<longleftrightarrow> tm_concurrencyLimit tm = 0 \<or> tm_activeTransfers tm < tm_concurrencyLimit tm)
     | Retry i \<Rightarrow> i < length (tm_xfers tm) \<and> x_key (xf tm i) = key \<and> x_cancelled (xf tm i) \<and> (\<forall>j. xf tm' j = xf tm j)"
    using assms(3)
  proof (cases rule: Transfer_cases)
    case (joined i)
    then show ?thesis using I(6) [of key i] by simp
  next
    case (retry i)
    have i: "i < length (tm_xfers tm)" "x_key (xf tm i) = key" "x_tracked (xf tm i)" using I(6) [of key i] retry(1) by auto
    have c: "x_cancelled (xf tm i)"
      using assms(3) retry(1,2) i(1) by (auto simp: Transfer_def Let_def x_Watch_def split: if_splits)
    have "\<not> x_closed (xf tm i)" using I(1) [OF i(1)] i(3) by (auto simp: xfer_ok_def)
    moreover have "gs_del w (gs_add w ws) = ws" if "w \<notin> set ws" for ws
      using that by (auto simp: gs_add_def gs_del_def filter_id_conv)
    then have "gs_del w (gs_add w (x_watchers (xf tm i))) = x_watchers (xf tm i)" using assms(2) i(1) by simp
    ultimately have "x_Release w (x_Watch w (xf tm i)) = xf tm i"
      using c by (cases "xf tm i") (simp add: x_Release_def x_Watch_def Let_def)
    then show ?thesis using retry i c by simp
  next
    case (new st)
    have "xf tm' (length (tm_xfers tm)) = x_Watch w (NewTransfer key parent st)" by (simp add: new(4) xf_def)
    then show ?thesis using new I(6) [of key] by (auto simp: x_Watch_def NewTransfer_def gs_add_def)
  qed
qed

theorem transfer_sharing_witness:
  "gm_get (tm_transfers ex_tm2) ''a'' = Some 0 \<and> xf ex_tm3 0 = x_Watch 2 (xf ex_tm2 0) \<and> \<not> x_cancelled (xf ex_tm3 0)"
proof -
  have f: "\<forall>i < length (tm_xfers ex_tm2). (2::nat) \<notin> set (x_watchers (xf ex_tm2 i))" by code_simp
  have t: "Transfer ''a'' None 2 ex_tm2 = (ex_tm3, Joined 0)" using ex_tm_values(6) by (simp add: ex_tm3_def prod_eq_iff)
  have "(1::int) \<in> {1}" by simp
  from transfer_sharing [OF ex_tm3_reach(2) [OF this] f t] show ?thesis unfolding transfer_result.case by blast
qed

text \<open>
  A change of the limit does not reach the transfers that wait: after it was raised a later request
  starts at once while they go on waiting, and after it was lowered the number of active
  transfers stays as it was as long as one waits.
\<close>

theorem limit_change_skips_waiting:
  assumes "tm_reach N tm" "i \<in> set (tm_waitingTransfers tm)"
  shows "(tm_activeTransfers tm < n \<longrightarrow> Transfer key parent w (SetConcurrency n tm) = (tm1, Started j) \<longrightarrow>
       x_start (xf tm1 j) \<and> i < j \<and> \<not> x_start (xf tm1 i) \<and> i \<in> set (tm_waitingTransfers tm1)) \<and>
     (tm_internal (SetConcurrency n tm) tm2 \<longrightarrow> tm_activeTransfers tm2 = tm_activeTransfers tm)"
proof (intro conjI impI)
  note ok = tm_reach_ok [OF assms(1)]
  have i: "i < length (tm_xfers tm)" "\<not> x_start (xf tm i)" using tm_okD(5) [OF ok, of i] assms(2) by auto
  {
    assume n: "tm_activeTransfers tm < n" and run: "Transfer key parent w (SetConcurrency n tm) = (tm1, Started j)"
    from run show "x_start (xf tm1 j)" "i < j" "\<not> x_start (xf tm1 i)" "i \<in> set (tm_waitingTransfers tm1)"
      by (cases rule: Transfer_cases; use n i assms(2) in \<open>simp add: SetConcurrency_def xf_def nth_append x_Watch_def NewTransfer_def\<close>)+
  next
    have "tm_ok (SetConcurrency n tm)" by (rule client_ok [OF tm_client.limit [of n UNIV] ok]) simp
    moreover assume "tm_internal (SetConcurrency n tm) tm2"
    ultimately show "tm_activeTransfers tm2 = tm_activeTransfers tm"
      using internal_effect [of "SetConcurrency n tm" tm2] assms(2) by (auto simp: SetConcurrency_def)
  }
qed

theorem limit_change_skips_waiting_witness:
  "x_start (xf (fst (Transfer ''b'' None 3 (SetConcurrency 2 ex_tm3))) 2) \<and>
   \<not> x_start (xf (fst (Transfer ''b'' None 3 (SetConcurrency 2 ex_tm3))) 1)"
proof -
  have 1: "1 \<in> set (tm_waitingTransfers ex_tm3)" "tm_activeTransfers ex_tm3 < 2" using ex_tm_values by simp_all
  have "snd (Transfer ''b'' None 3 (SetConcurrency 2 ex_tm3)) = Started 2" by code_simp
  then have 2: "Transfer ''b'' None 3 (SetConcurrency 2 ex_tm3) = (fst (Transfer ''b'' None 3 (SetConcurrency 2 ex_tm3)), Started 2)"
    by (simp add: prod_eq_iff)
  from limit_change_skips_waiting [OF ex_tm3_reach(1) [of "{1}"] 1(1), THEN conjunct1, rule_format, OF _ 1(2) 2] show ?thesis by simp
qed

end
