(* ===== verification/TransferRetry.thy ===== *)
theory TransferRetry
  imports GoPrelude
begin

text \<open>
  The loop that tries a download or an upload again (distribution/xfer/download.go, upload.go).
  \<open>attempt n\<close> is the result of the attempt after \<open>n\<close> failed ones; \<open>ticks n\<close> is the number of seconds after
  which the transfer is cancelled while it waits before that attempt, if it is.
\<close>

definition maxDownloadAttempts :: nat where "maxDownloadAttempts = 5"
definition maxUploadAttempts :: nat where "maxUploadAttempts = 5"

text \<open>An error says whether the context was cancelled, and whether it is wrapped in \<^verbatim>\<open>DoNotRetry\<close>.\<close>

datatype 'a attempt_result = Succeeds 'a | Fails bool bool

datatype 'a transfer_end = Transferred 'a | GivenUp | CancelledInAttempt | CancelledInDelay

text \<open>
  The countdown before the next attempt: the seconds it announces, and whether it came to its end. The delay is
  positive; a countdown from zero would never end in the code.
\<close>

fun countdown :: "nat \<Rightarrow> nat option \<Rightarrow> nat list \<times> bool" where
  "countdown 0 t = ([], True)"
| "countdown (Suc d) t =
     (case t of
        Some 0 \<Rightarrow> ([Suc d], False)
      | _ \<Rightarrow> (let (ds, r) = countdown d (map_option (\<lambda>k. k - 1) t) in (Suc d # ds, r)))"

text \<open>The result comes with the announced seconds of every delay.\<close>

function retry_loop ::
  "nat \<Rightarrow> (nat \<Rightarrow> 'a attempt_result) \<Rightarrow> (nat \<Rightarrow> nat option) \<Rightarrow> nat \<Rightarrow> nat list list \<times> 'a transfer_end" where
  "retry_loop limit attempt ticks retries =
     (case attempt retries of
        Succeeds r \<Rightarrow> ([], Transferred r)
      | Fails cancelled dnr \<Rightarrow>
          if cancelled then ([], CancelledInAttempt)
          else if dnr \<or> limit \<le> retries + 1 then ([], GivenUp)
          else (case countdown ((retries + 1) * 5) (ticks (retries + 1)) of
                  (ds, False) \<Rightarrow> ([ds], CancelledInDelay)
                | (ds, True) \<Rightarrow> (let (dss, r) = retry_loop limit attempt ticks (retries + 1) in (ds # dss, r))))"
  by pat_completeness auto

termination by (relation "measure (\<lambda>(limit, attempt, ticks, retries). limit - retries)") auto

declare retry_loop.simps [simp del]

definition download_attempts where
  "download_attempts attempt ticks = retry_loop maxDownloadAttempts attempt ticks 0"

definition upload_attempts where
  "upload_attempts attempt ticks = retry_loop maxUploadAttempts attempt ticks 0"

section \<open>What the loop does\<close>

lemma countdown_spec:
  "countdown d t = (case t of
     Some k \<Rightarrow> if k < d then (rev [d - k ..< Suc d], False) else (rev [1 ..< Suc d], True)
   | None \<Rightarrow> (rev [1 ..< Suc d], True))"
proof (induction d t rule: countdown.induct)
  case (2 d t)
  show ?case
  proof (cases t)
    case None
    then show ?thesis using 2 by simp
  next
    case (Some k)
    then show ?thesis using 2 by (cases k) auto
  qed
qed (simp split: option.split)

text \<open>A retry happens after an attempt that may be repeated, when the wait is not interrupted.\<close>

definition retried :: "(nat \<Rightarrow> 'a attempt_result) \<Rightarrow> (nat \<Rightarrow> nat option) \<Rightarrow> nat \<Rightarrow> bool" where
  "retried attempt ticks k \<longleftrightarrow>
     attempt k = Fails False False \<and> (case ticks (Suc k) of None \<Rightarrow> True | Some s \<Rightarrow> Suc k * 5 \<le> s)"

lemma retry_loop_spec:
  assumes "n < limit" "\<forall>k < n. m \<le> k \<longrightarrow> retried attempt ticks k" "m \<le> n" "\<not> (Suc n < limit \<and> retried attempt ticks n)"
  shows "retry_loop limit attempt ticks m =
     (map (\<lambda>k. rev [1 ..< Suc (Suc k * 5)]) [m ..< n] @
       (case attempt n of
          Fails False False \<Rightarrow> if Suc n < limit then [rev [Suc n * 5 - the (ticks (Suc n)) ..< Suc (Suc n * 5)]] else []
        | _ \<Rightarrow> []),
      case attempt n of
        Succeeds r \<Rightarrow> Transferred r
      | Fails True _ \<Rightarrow> CancelledInAttempt
      | Fails False True \<Rightarrow> GivenUp
      | Fails False False \<Rightarrow> if Suc n < limit then CancelledInDelay else GivenUp)"
  using assms(2-)
proof (induction "n - m" arbitrary: m)
  case 0
  then have m: "m = n" by simp
  show ?case unfolding m
    by (subst retry_loop.simps)
      (use 0 assms(1) in \<open>auto simp: countdown_spec m retried_def split: attempt_result.splits bool.splits option.splits\<close>)
next
  case (Suc d)
  then have mn: "m < n" by simp
  have r: "retried attempt ticks m" using Suc.prems(1) mn by blast
  have c: "countdown ((m + 1) * 5) (ticks (m + 1)) = (rev [1 ..< Suc (Suc m * 5)], True)"
    using r by (auto simp: retried_def countdown_spec split: option.splits)
  have "retry_loop limit attempt ticks m = (let (dss, x) = retry_loop limit attempt ticks (Suc m) in (rev [1 ..< Suc (Suc m * 5)] # dss, x))"
    by (subst retry_loop.simps) (use r mn assms(1) c in \<open>simp add: retried_def\<close>)
  moreover have "[m ..< n] = m # [Suc m ..< n]" using mn by (simp add: upt_conv_Cons)
  ultimately show ?case using Suc.hyps(1) [of "Suc m"] Suc.hyps(2) Suc.prems mn by simp
qed


section \<open>Attempts\<close>

lemma first_not_retried: "\<exists>n < limit. (\<forall>k < n. retried attempt ticks k) \<and> \<not> (Suc n < limit \<and> retried attempt ticks n)" if "0 < limit"
proof -
  have "\<not> (Suc (limit - 1) < limit \<and> retried attempt ticks (limit - 1))" by auto
  then obtain n where n: "\<not> (Suc n < limit \<and> retried attempt ticks n)" "\<forall>k < n. Suc k < limit \<and> retried attempt ticks k"
    using ex_least_nat_le [of "\<lambda>n. \<not> (Suc n < limit \<and> retried attempt ticks n)" "limit - 1"] by blast
  have "n < limit" using n(2) that by (cases n) auto
  then show ?thesis using n by blast
qed

text \<open>
  A download and an upload make at most five attempts. There is a first attempt \<open>n\<close> that is not
  repeated: every one before it failed with an error that allows a repetition, and was followed by a
  wait of five seconds for each failure so far, announced second by second. The attempt \<open>n\<close> decides: it
  succeeded, or it was cancelled, or it must not be repeated, or it was the fifth, or the
  transfer was cancelled during the wait after it.
\<close>

theorem transfer_attempts:
  "\<exists>n < 5. (\<forall>k < n. attempt k = Fails False False \<and> (\<forall>s. ticks (Suc k) = Some s \<longrightarrow> Suc k * 5 \<le> s)) \<and>
     (\<forall>r. attempt n = Succeeds r \<longrightarrow>
        download_attempts attempt ticks = (map (\<lambda>k. rev [1 ..< Suc (Suc k * 5)]) [0 ..< n], Transferred r)) \<and>
     (\<forall>dnr. attempt n = Fails True dnr \<longrightarrow>
        download_attempts attempt ticks = (map (\<lambda>k. rev [1 ..< Suc (Suc k * 5)]) [0 ..< n], CancelledInAttempt)) \<and>
     (attempt n = Fails False True \<or> attempt n = Fails False False \<and> n = 4 \<longrightarrow>
        download_attempts attempt ticks = (map (\<lambda>k. rev [1 ..< Suc (Suc k * 5)]) [0 ..< n], GivenUp)) \<and>
     (attempt n = Fails False False \<and> n < 4 \<longrightarrow> (\<exists>s < Suc n * 5. ticks (Suc n) = Some s \<and>
        download_attempts attempt ticks =
          (map (\<lambda>k. rev [1 ..< Suc (Suc k * 5)]) [0 ..< n] @ [rev [Suc n * 5 - s ..< Suc (Suc n * 5)]], CancelledInDelay))) \<and>
     upload_attempts attempt ticks = download_attempts attempt ticks"
proof -
  have "\<exists>n < 5. (\<forall>k < n. retried attempt ticks k) \<and> \<not> (Suc n < 5 \<and> retried attempt ticks n)"
    by (rule first_not_retried) simp
  then obtain n where n: "n < 5" "\<forall>k < n. retried attempt ticks k" "\<not> (Suc n < 5 \<and> retried attempt ticks n)" by blast
  have r: "\<forall>k < n. attempt k = Fails False False \<and> (\<forall>s. ticks (Suc k) = Some s \<longrightarrow> Suc k * 5 \<le> s)"
    using n(2) by (auto simp: retried_def)
  have n2: "\<forall>k < n. 0 \<le> k \<longrightarrow> retried attempt ticks k" using n(2) by simp
  note S = retry_loop_spec [OF n(1) n2 le0 n(3)]
  have u: "upload_attempts attempt ticks = download_attempts attempt ticks"
    by (simp add: upload_attempts_def download_attempts_def maxUploadAttempts_def maxDownloadAttempts_def)
  have c: "attempt n = Fails False False \<and> n < 4 \<longrightarrow> (\<exists>s < Suc n * 5. ticks (Suc n) = Some s)"
    using n(3) by (auto simp: retried_def split: option.splits)
  have e: "download_attempts attempt ticks = retry_loop 5 attempt ticks 0"
    by (simp add: download_attempts_def maxDownloadAttempts_def)
  have 1: "download_attempts attempt ticks = (map (\<lambda>k. rev [1 ..< Suc (Suc k * 5)]) [0 ..< n], Transferred x)" if "attempt n = Succeeds x" for x
    unfolding e S using that by simp
  have 2: "download_attempts attempt ticks = (map (\<lambda>k. rev [1 ..< Suc (Suc k * 5)]) [0 ..< n], CancelledInAttempt)"
    if "attempt n = Fails True dnr" for dnr
    unfolding e S using that by simp
  have 3: "download_attempts attempt ticks = (map (\<lambda>k. rev [1 ..< Suc (Suc k * 5)]) [0 ..< n], GivenUp)"
    if "attempt n = Fails False True \<or> attempt n = Fails False False \<and> n = 4"
    unfolding e S using that by (elim disjE conjE) (simp only: attempt_result.case bool.case, simp)+
  have 4: "\<exists>s < Suc n * 5. ticks (Suc n) = Some s \<and> download_attempts attempt ticks =
      (map (\<lambda>k. rev [1 ..< Suc (Suc k * 5)]) [0 ..< n] @ [rev [Suc n * 5 - s ..< Suc (Suc n * 5)]], CancelledInDelay)"
    if f: "attempt n = Fails False False \<and> n < 4"
  proof -
    obtain s where s: "s < Suc n * 5" "ticks (Suc n) = Some s" using c f by blast
    have "Suc n < 5" using f by simp
    then show ?thesis using s f by (intro exI [of _ s]) (simp only: e S attempt_result.case bool.case, simp)
  qed
  show ?thesis using n(1) r u 1 2 3 4 by blast
qed


theorem transfer_attempts_witness:
  "download_attempts (\<lambda>n. if n = 0 then Fails False False else Succeeds ''layer'') (\<lambda>_. None) = ([[5, 4, 3, 2, 1]], Transferred ''layer'')"
proof -
  let ?a = "\<lambda>n::nat. if n = 0 then Fails False False else Succeeds ''layer''"
  from transfer_attempts [of ?a "\<lambda>_. None"] obtain n where n: "\<forall>k < n. ?a k = Fails False False"
      "\<forall>r. ?a n = Succeeds r \<longrightarrow> download_attempts ?a (\<lambda>_. None) = (map (\<lambda>k. rev [1 ..< Suc (Suc k * 5)]) [0 ..< n], Transferred r)"
      "?a n = Fails False False \<and> n < 4 \<longrightarrow> False"
    by blast
  have "n \<noteq> 0" using n(3) by (cases n) simp_all
  moreover have "\<not> 1 < n" using n(1) by force
  ultimately have "n = 1" by simp
  then show ?thesis using n(2) by (simp add: upt_conv_Cons)
qed

end
