(* ===== verification/ImageDelete.thy ===== *)
theory ImageDelete
  imports ReferenceStore ImageProps ContainerStore DaemonNames
begin

unbundle bit_operations_syntax

text \<open>
  Naming and deleting images in the daemon (daemon/image.go, image_tag.go, image_delete.go): the
  operations that use the reference store, the image store and the container store together. Each
  is modelled as one call on the three stores; the code holds no lock over it.
\<close>

section \<open>State and environment\<close>

text \<open>What a deletion reads of a container.\<close>

record image_container =
  uc_ID :: string
  uc_ImageID :: string
  uc_Running :: bool

record ('r, 's) image_daemon =
  id_refs :: ref_store
  id_images :: "('r, 's) image_store"
  id_containers :: "image_container memory_store"
  id_events :: "(string \<times> string \<times> string) list"

text \<open>
  \<^verbatim>\<open>ParseNormalizedNamed\<close> (\<open>ie_named\<close>) is a parameter, as are the
  digest function, the disk, the writes of the file of references that succeed (by the reference
  that is changed) and the release of a layer; \<open>ie_chain\<close> reads the chain identifier of a removed layer.
\<close>

datatype any_ref = AnyNamed named | AnyDigest string

record ('r, 's, 'e, 'm) image_env =
  ie_H :: "string \<Rightarrow> string"
  ie_parse :: "string \<Rightarrow> image_config option"
  ie_disk :: "fs_call \<Rightarrow> bool"
  ie_release :: "'r \<Rightarrow> 's \<Rightarrow> ('s \<times> ('e + 'm list)) option"
  ie_chain :: "'m \<Rightarrow> string"

  ie_named :: "string \<Rightarrow> named option"
  ie_digest_ok :: "string \<Rightarrow> bool"
  ie_write :: "named \<Rightarrow> bool"

datatype delete_record = Untagged string | Deleted string

record delete_conflict =
  dc_hard :: bool
  dc_used :: bool
  dc_imgID :: string
  dc_message :: string

datatype 'e delete_error =
    BadReference string
  | ImageDoesNotExist string
  | ReferenceInUse string
  | RefFailed ref_error
  | ImageFailed "'e image_error"
  | Conflicts delete_conflict

definition LogImageEvent :: "string \<Rightarrow> string \<Rightarrow> string \<Rightarrow> ('r, 's) image_daemon \<Rightarrow> ('r, 's) image_daemon" where
  "LogImageEvent i refName action d = d\<lparr>id_events := id_events d @ [(i, refName, action)]\<rparr>"

section \<open>Finding and tagging an image\<close>

definition IsShortID :: "string \<Rightarrow> bool" where
  "IsShortID s \<longleftrightarrow> length s = 12 \<and> list_all (\<lambda>c. c \<in> set ''abcdef0123456789'') s"

fun ref_tag :: "named \<Rightarrow> string option" where
  "ref_tag (TaggedRef r t) = Some t"
| "ref_tag (FullRef r t d) = Some t"
| "ref_tag _ = None"

definition ref_Name :: "named \<Rightarrow> string" where
  "ref_Name ref = repo_name (ref_repo ref)"

text \<open>The deprecated form \<^verbatim>\<open>repo:shortid\<close>.\<close>

definition short_form :: "named \<Rightarrow> ('r, 's) image_daemon \<Rightarrow> string option" where
  "short_form ref d =
     (case ref_tag ref of
        None \<Rightarrow> None
      | Some tag \<Rightarrow>
          if IsShortID (TruncateID tag)
          then (case is_Search tag (id_images d) :: unit image_error + string of
                  Inl e \<Rightarrow> None
                | Inr i \<Rightarrow> if list_ex (\<lambda>r. ref_Name r = ref_Name ref) (References i (id_refs d)) then Some i else None)
          else None)"

text \<open>A full identifier, a digest, or a name.\<close>

definition ParseAnyReference :: "(string \<Rightarrow> named option) \<Rightarrow> string \<Rightarrow> any_ref option" where
  "ParseAnyReference parse s =
     (if length s = 64 \<and> list_all (\<lambda>c. c \<in> set ''abcdef0123456789'') s then Some (AnyDigest (''sha256:'' @ s))
      else (case digest_parse s of
              Some dg \<Rightarrow> Some (AnyDigest dg)
            | None \<Rightarrow> map_option AnyNamed (parse s)))"

definition GetImageID ::
  "('r, 's, 'e, 'm) image_env \<Rightarrow> string \<Rightarrow> ('r, 's) image_daemon \<Rightarrow> 'e delete_error + string" where
  "GetImageID E refOrID d =
     (case ParseAnyReference (ie_named E) refOrID of
        None \<Rightarrow> Inl (BadReference refOrID)
      | Some (AnyDigest dg) \<Rightarrow>
          (case is_Get (ie_H E) (ie_parse E) (ie_disk E) dg (id_images d) :: 'e image_error + image of
             Inl e \<Rightarrow> Inl (ImageDoesNotExist refOrID)
           | Inr img \<Rightarrow> Inr dg)
      | Some (AnyNamed ref) \<Rightarrow>
          (case ref_get (ie_digest_ok E) ref (id_refs d) of
             Inr i \<Rightarrow> Inr i
           | Inl e \<Rightarrow>
              (case short_form ref d of
                 Some i \<Rightarrow> Inr i
               | None \<Rightarrow>
                  (case is_Search refOrID (id_images d) :: unit image_error + string of
                     Inr i \<Rightarrow> Inr i
                   | Inl e \<Rightarrow> Inl (ImageDoesNotExist refOrID)))))"

definition di_GetImage ::
  "('r, 's, 'e, 'm) image_env \<Rightarrow> string \<Rightarrow> ('r, 's) image_daemon \<Rightarrow> 'e delete_error + image" where
  "di_GetImage E refOrID d =
     (case GetImageID E refOrID d of
        Inl e \<Rightarrow> Inl e
      | Inr i \<Rightarrow>
         (case is_Get (ie_H E) (ie_parse E) (ie_disk E) i (id_images d) of
            Inl e \<Rightarrow> Inl (ImageFailed e)
          | Inr img \<Rightarrow> Inr img))"

definition TagImageWithReference ::
  "('r, 's, 'e, 'm) image_env \<Rightarrow> string \<Rightarrow> named \<Rightarrow> ('r, 's) image_daemon \<Rightarrow> ('r, 's) image_daemon \<times> 'e delete_error option" where
  "TagImageWithReference E i newTag d =
     (case AddTag (ie_digest_ok E) newTag i True (ie_write E newTag) (id_refs d) of
        (refs, Some e) \<Rightarrow> (d\<lparr>id_refs := refs\<rparr>, Some (RefFailed e))
      | (refs, None) \<Rightarrow> (LogImageEvent i (FamiliarString newTag) ''tag'' (d\<lparr>id_refs := refs\<rparr>), None))"

text \<open>\<^verbatim>\<open>WithTag\<close> checks the form of the tag; that is the parameter \<open>tag_ok\<close>.\<close>

definition TagImage ::
  "('r, 's, 'e, 'm) image_env \<Rightarrow> (string \<Rightarrow> bool) \<Rightarrow> string \<Rightarrow> string \<Rightarrow> string \<Rightarrow> ('r, 's) image_daemon
     \<Rightarrow> ('r, 's) image_daemon \<times> 'e delete_error option" where
  "TagImage E tag_ok imageName repository tag d =
     (case GetImageID E imageName d of
        Inl e \<Rightarrow> (d, Some e)
      | Inr i \<Rightarrow>
         (case ie_named E repository of
            None \<Rightarrow> (d, Some (BadReference repository))
          | Some newTag \<Rightarrow>
              if tag \<noteq> ''''
              then (if tag_ok tag then TagImageWithReference E i (TaggedRef (ref_repo newTag) tag) d
                    else (d, Some (BadReference tag)))
              else TagImageWithReference E i newTag d))"

section \<open>Conflicts\<close>

definition conflictDependentChild :: int where "conflictDependentChild = 1"
definition conflictRunningContainer :: int where "conflictRunningContainer = 2"
definition conflictActiveReference :: int where "conflictActiveReference = 4"
definition conflictStoppedContainer :: int where "conflictStoppedContainer = 8"
definition conflictHard :: int where "conflictHard = conflictDependentChild OR conflictRunningContainer"
definition conflictSoft :: int where "conflictSoft = conflictActiveReference OR conflictStoppedContainer"

definition helper_kinds :: "bool \<Rightarrow> int" where
  "helper_kinds force = (if force then conflictHard else conflictHard OR conflictSoft)"

definition id_kinds :: "bool \<Rightarrow> int" where
  "id_kinds force = (if force then conflictHard else conflictHard OR (conflictSoft AND NOT conflictActiveReference))"

definition conflict_error :: "delete_conflict \<Rightarrow> string" where
  "conflict_error c =
     ''conflict: unable to delete '' @ TruncateID (dc_imgID c) @ '' ('' @
     (if dc_hard c then ''cannot be forced'' else ''must be forced'') @ '') - '' @ dc_message c"

definition getContainerUsingImage :: "string \<Rightarrow> ('r, 's) image_daemon \<Rightarrow> image_container option" where
  "getContainerUsingImage i d = store_first (\<lambda>c. uc_ImageID c = i) (id_containers d)"

definition checkImageDeleteConflict :: "string \<Rightarrow> int \<Rightarrow> ('r, 's) image_daemon \<Rightarrow> delete_conflict option" where
  "checkImageDeleteConflict i kinds d =
     (if kinds AND conflictDependentChild \<noteq> 0 \<and> length (is_Children i (id_images d)) > 0
      then Some \<lparr>dc_hard = True, dc_used = False, dc_imgID = i, dc_message = ''image has dependent child images''\<rparr>
      else
       (case (if kinds AND conflictRunningContainer \<noteq> 0
              then store_first (\<lambda>c. uc_Running c \<and> uc_ImageID c = i) (id_containers d) else None) of
          Some c \<Rightarrow> Some \<lparr>dc_hard = True, dc_used = True, dc_imgID = i,
             dc_message = ''image is being used by running container '' @ TruncateID (uc_ID c)\<rparr>
        | None \<Rightarrow>
           if kinds AND conflictActiveReference \<noteq> 0 \<and> length (References i (id_refs d)) > 0
           then Some \<lparr>dc_hard = False, dc_used = False, dc_imgID = i, dc_message = ''image is referenced in multiple repositories''\<rparr>
           else
            (case (if kinds AND conflictStoppedContainer \<noteq> 0
                   then store_first (\<lambda>c. \<not> uc_Running c \<and> uc_ImageID c = i) (id_containers d) else None) of
               Some c \<Rightarrow> Some \<lparr>dc_hard = False, dc_used = True, dc_imgID = i,
                  dc_message = ''image is being used by stopped container '' @ TruncateID (uc_ID c)\<rparr>
             | None \<Rightarrow> None)))"

definition imageIsDangling :: "string \<Rightarrow> ('r, 's) image_daemon \<Rightarrow> bool" where
  "imageIsDangling i d \<longleftrightarrow> \<not> (length (References i (id_refs d)) > 0 \<or> length (is_Children i (id_images d)) > 0)"

text \<open>The loop over the references: the names of the repositories with a digest, and the first tag.\<close>

fun single_loop :: "named list \<Rightarrow> string goset \<Rightarrow> named option \<Rightarrow> (string goset \<times> named option) option" where
  "single_loop [] canon single = Some (canon, single)"
| "single_loop (r # rs) canon single =
     (if canonical_digest r \<noteq> None then single_loop rs (gs_add (ref_Name r) canon) single
      else if single = None then single_loop rs canon (Some r)
      else None)"

definition isSingleReference :: "named list \<Rightarrow> bool" where
  "isSingleReference repoRefs =
     (if length repoRefs \<le> 1 then length repoRefs = 1
      else
       (case single_loop repoRefs [] None of
          None \<Rightarrow> False
        | Some (canon, single) \<Rightarrow>
            (let r = (case single of None \<Rightarrow> hd repoRefs | Some r \<Rightarrow> r)
             in length canon = 1 \<and> ref_Name r \<in> set canon)))"

definition isImageIDPrefix :: "string \<Rightarrow> string \<Rightarrow> bool" where
  "isImageIDPrefix imageID p \<longleftrightarrow>
     prefix p imageID \<or> (case split_first (CHR '':'') imageID of (_, Some rest) \<Rightarrow> prefix p rest | (_, None) \<Rightarrow> False)"

section \<open>Removing references\<close>

definition removeImageRef ::
  "('r, 's, 'e, 'm) image_env \<Rightarrow> named \<Rightarrow> ('r, 's) image_daemon \<Rightarrow> ('r, 's) image_daemon \<times> named \<times> ref_error option" where
  "removeImageRef E ref d =
     (case ref_delete (ie_digest_ok E) (TagNameOnly ref) (ie_write E (TagNameOnly ref)) (id_refs d) of
        (refs, _, e) \<Rightarrow> (d\<lparr>id_refs := refs\<rparr>, TagNameOnly ref, e))"

text \<open>Removing the references of a list, up to the first error.\<close>

fun untag_all ::
  "('r, 's, 'e, 'm) image_env \<Rightarrow> string \<Rightarrow> named list \<Rightarrow> delete_record list \<Rightarrow> ('r, 's) image_daemon
     \<Rightarrow> ('r, 's) image_daemon \<times> delete_record list \<times> ref_error option" where
  "untag_all E i [] records d = (d, records, None)"
| "untag_all E i (ref # refs) records d =
     (case removeImageRef E ref d of
        (d1, parsedRef, Some e) \<Rightarrow> (d1, records, Some e)
      | (d1, parsedRef, None) \<Rightarrow>
          untag_all E i refs (records @ [Untagged (FamiliarString parsedRef)]) (LogImageEvent i i ''untag'' d1))"

definition removeAllReferencesToImageID ::
  "('r, 's, 'e, 'm) image_env \<Rightarrow> string \<Rightarrow> delete_record list \<Rightarrow> ('r, 's) image_daemon
     \<Rightarrow> ('r, 's) image_daemon \<times> delete_record list \<times> ref_error option" where
  "removeAllReferencesToImageID E i records d = untag_all E i (References i (id_refs d)) records d"

text \<open>The digests of a repository that are left when its last tag is gone; the last component are the other references.\<close>

fun untag_digests ::
  "('r, 's, 'e, 'm) image_env \<Rightarrow> string \<Rightarrow> named list \<Rightarrow> delete_record list \<Rightarrow> named list \<Rightarrow> ('r, 's) image_daemon
     \<Rightarrow> ('r, 's) image_daemon \<times> delete_record list \<times> ref_error option \<times> named list" where
  "untag_digests E name [] records remaining d = (d, records, None, remaining)"
| "untag_digests E name (ref # refs) records remaining d =
     (if canonical_digest ref \<noteq> None \<and> name = ref_Name ref
      then (case removeImageRef E ref d of
              (d1, _, Some e) \<Rightarrow> (d1, records, Some e, remaining)
            | (d1, _, None) \<Rightarrow> untag_digests E name refs (records @ [Untagged (FamiliarString ref)]) remaining d1)
      else untag_digests E name refs records (remaining @ [ref]) d)"

section \<open>Deleting\<close>

partial_function (option) imageDeleteHelper ::
  "('r, 's, 'e, 'm) image_env \<Rightarrow> string \<Rightarrow> delete_record list \<Rightarrow> bool \<Rightarrow> bool \<Rightarrow> bool \<Rightarrow> ('r, 's) image_daemon
     \<Rightarrow> (('r, 's) image_daemon \<times> delete_record list \<times> 'e delete_error option) option" where
  "imageDeleteHelper E i records force prune quiet d =
     (case checkImageDeleteConflict i (helper_kinds force) d of
        Some c \<Rightarrow>
          if quiet \<and> (\<not> imageIsDangling i d \<or> dc_used c) then Some (d, records, None)
          else Some (d, records, Some (Conflicts c))
      | None \<Rightarrow>
         (let parent = (case is_GetParent (ie_H E) (ie_disk E) i (id_images d) :: 'e image_error + string of Inl e \<Rightarrow> '''' | Inr p \<Rightarrow> p);
              (d1, records1, e) = removeAllReferencesToImageID E i records d
          in (case e of
                Some e \<Rightarrow> Some (d1, records1, Some (RefFailed e))
              | None \<Rightarrow>
                  Option.bind (is_Delete (ie_H E) (ie_release E) (ie_disk E) i (id_images d1)) (\<lambda>r.
                   (case snd r of
                      Inl e \<Rightarrow> Some (d1\<lparr>id_images := fst r\<rparr>, records1, Some (ImageFailed e))
                    | Inr removed \<Rightarrow>
                       (let d2 = LogImageEvent i i ''delete'' (d1\<lparr>id_images := fst r\<rparr>);
                            records2 = records1 @ Deleted i # map (\<lambda>m. Deleted (ie_chain E m)) removed
                        in if \<not> prune \<or> parent = '''' then Some (d2, records2, None)
                           else imageDeleteHelper E parent records2 False True True d2))))))"


definition delete_finish ::
  "('r, 's, 'e, 'm) image_env \<Rightarrow> string \<Rightarrow> delete_record list \<Rightarrow> bool \<Rightarrow> bool \<Rightarrow> bool \<Rightarrow> ('r, 's) image_daemon
     \<Rightarrow> (('r, 's) image_daemon \<times> delete_record list \<times> 'e delete_error option) option" where
  "delete_finish E imgID records force prune removedRepositoryRef d =
     map_option (\<lambda>(d, records, e). (d, if e = None then records else [], e))
       (imageDeleteHelper E imgID records force prune removedRepositoryRef d)"

text \<open>The part for a name: the records so far, an error, or the references that are left.\<close>

definition untag_name ::
  "('r, 's, 'e, 'm) image_env \<Rightarrow> string \<Rightarrow> named \<Rightarrow> ('r, 's) image_daemon
     \<Rightarrow> ('r, 's) image_daemon \<times> delete_record list \<times> ref_error option \<times> named list" where
  "untag_name E imgID ref d =
     (case removeImageRef E ref d of
        (d1, parsedRef, Some e) \<Rightarrow> (d1, [], Some e, [])
      | (d1, parsedRef, None) \<Rightarrow>
         (let d2 = LogImageEvent imgID imgID ''untag'' d1;
              records = [Untagged (FamiliarString parsedRef)];
              repoRefs = References imgID (id_refs d2)
          in if canonical_digest parsedRef = None \<and>
                \<not> list_ex (\<lambda>r. canonical_digest r = None \<and> ref_Name parsedRef = ref_Name r) repoRefs
             then untag_digests E (ref_Name parsedRef) repoRefs records [] d2
             else (d2, records, None, repoRefs)))"

definition ImageDelete ::
  "('r, 's, 'e, 'm) image_env \<Rightarrow> string \<Rightarrow> bool \<Rightarrow> bool \<Rightarrow> ('r, 's) image_daemon
     \<Rightarrow> (('r, 's) image_daemon \<times> delete_record list \<times> 'e delete_error option) option" where
  "ImageDelete E imageRef force prune d =
     (case GetImageID E imageRef d of
        Inl e \<Rightarrow> Some (d, [], Some e)
      | Inr imgID \<Rightarrow>
         (let repoRefs = References imgID (id_refs d)
          in if \<not> isImageIDPrefix imgID imageRef
             then (if \<not> force \<and> isSingleReference repoRefs \<and> getContainerUsingImage imgID d \<noteq> None
                   then Some (d, [], Some (ReferenceInUse imageRef))
                   else
                    (case ie_named E imageRef of
                       None \<Rightarrow> Some (d, [], Some (BadReference imageRef))
                     | Some ref \<Rightarrow>
                        (case untag_name E imgID ref d of
                           (d1, records, Some e, _) \<Rightarrow> Some (d1, records, Some (RefFailed e))
                         | (d1, records, None, remaining) \<Rightarrow>
                             if length remaining > 0 then Some (d1, records, None)
                             else delete_finish E imgID records force prune True d1)))
             else if isSingleReference repoRefs
             then (case checkImageDeleteConflict imgID
                          (id_kinds force) d of
                     Some c \<Rightarrow> Some (d, [], Some (Conflicts c))
                   | None \<Rightarrow>
                      (case untag_all E imgID repoRefs [] d of
                         (d1, records, Some e) \<Rightarrow> Some (d1, [], Some (RefFailed e))
                       | (d1, records, None) \<Rightarrow> delete_finish E imgID records force prune False d1))
             else delete_finish E imgID [] force prune False d))"


section \<open>Conflicts as facts\<close>

definition uses :: "string \<Rightarrow> ('r, 's) image_daemon \<Rightarrow> bool" where
  "uses i d \<longleftrightarrow> (\<exists>c \<in> set (store_all (id_containers d)). uc_ImageID c = i)"

definition runs :: "string \<Rightarrow> ('r, 's) image_daemon \<Rightarrow> bool" where
  "runs i d \<longleftrightarrow> (\<exists>c \<in> set (store_all (id_containers d)). uc_ImageID c = i \<and> uc_Running c)"

lemmas conflict_kinds = conflictHard_def conflictSoft_def conflictDependentChild_def conflictRunningContainer_def
  conflictActiveReference_def conflictStoppedContainer_def

lemma if_option_None: "(if b then x else None) = None \<longleftrightarrow> (b \<longrightarrow> x = None)"
  by simp

lemma check_none:
  "checkImageDeleteConflict i kinds d = None \<longleftrightarrow>
     \<not> (kinds AND 1 \<noteq> 0 \<and> length (is_Children i (id_images d)) > 0) \<and>
     \<not> (kinds AND 2 \<noteq> 0 \<and> runs i d) \<and>
     \<not> (kinds AND 4 \<noteq> 0 \<and> length (References i (id_refs d)) > 0) \<and>
     \<not> (kinds AND 8 \<noteq> 0 \<and> (\<exists>c \<in> set (store_all (id_containers d)). uc_ImageID c = i \<and> \<not> uc_Running c))"
proof -
  have F: "store_first P s = None \<longleftrightarrow> (\<forall>c \<in> set (store_all s). \<not> P c)" for P :: "image_container \<Rightarrow> bool" and s
    by (auto simp: store_first_def find_None_iff)
  have G: "(if a then Some x else case p of Some c \<Rightarrow> Some (f c)
      | None \<Rightarrow> if b then Some y else case q of Some c \<Rightarrow> Some (g c) | None \<Rightarrow> None) = None \<longleftrightarrow>
      \<not> a \<and> p = None \<and> \<not> b \<and> q = None" for a b p q f g and x y :: delete_conflict
    by (simp split: option.split)
  show ?thesis
    unfolding checkImageDeleteConflict_def conflict_kinds runs_def G if_option_None F by blast
qed

lemma check_hard:
  "checkImageDeleteConflict i conflictHard d = None \<longleftrightarrow> length (is_Children i (id_images d)) = 0 \<and> \<not> runs i d"
  by (simp add: check_none) (simp add: conflict_kinds)

lemma check_all:
  "checkImageDeleteConflict i (conflictHard OR conflictSoft) d = None \<longleftrightarrow>
     length (is_Children i (id_images d)) = 0 \<and> \<not> uses i d \<and> length (References i (id_refs d)) = 0"
  by (simp only: check_none) (auto simp add: conflict_kinds uses_def runs_def)

lemma check_id:
  "checkImageDeleteConflict i (conflictHard OR (conflictSoft AND NOT conflictActiveReference)) d = None \<longleftrightarrow>
     length (is_Children i (id_images d)) = 0 \<and> \<not> uses i d"
  by (simp only: check_none) (auto simp add: conflict_kinds uses_def runs_def)

lemma check_helper:
  "checkImageDeleteConflict i (helper_kinds force) d = None \<longleftrightarrow>
     length (is_Children i (id_images d)) = 0 \<and> \<not> runs i d \<and> (\<not> force \<longrightarrow> \<not> uses i d \<and> length (References i (id_refs d)) = 0)"
  by (cases force) (auto simp: helper_kinds_def check_hard check_all uses_def runs_def)

lemma check_by_id:
  "checkImageDeleteConflict i (id_kinds force) d = None \<longleftrightarrow>
     length (is_Children i (id_images d)) = 0 \<and> \<not> runs i d \<and> (\<not> force \<longrightarrow> \<not> uses i d)"
  by (cases force) (auto simp: id_kinds_def check_hard check_id uses_def runs_def)

text \<open>The condition on a conflict that a quiet deletion reports never holds.\<close>

lemma quiet_conflict:
  assumes "checkImageDeleteConflict i kinds d = Some c"
  shows "\<not> imageIsDangling i d \<or> dc_used c"
  using assms by (auto simp: checkImageDeleteConflict_def imageIsDangling_def split: if_splits option.splits)

lemma uses_cong: "id_containers d' = id_containers d \<Longrightarrow> uses i d' = uses i d \<and> runs i d' = runs i d"
  by (simp add: uses_def runs_def)

section \<open>What removing references does\<close>

definition untags :: "(named \<Rightarrow> bool) \<Rightarrow> named set \<Rightarrow> ('r, 's) image_daemon \<Rightarrow> ('r, 's) image_daemon \<Rightarrow> bool" where
  "untags valid T d d' \<longleftrightarrow> ref_inv valid (id_refs d') \<and> id_images d' = id_images d \<and> id_containers d' = id_containers d \<and>
     (\<forall>r. rs_abs valid (id_refs d') r = (if r \<in> T then None else rs_abs valid (id_refs d) r))"

lemma untags_refl: "ref_inv valid (id_refs d) \<Longrightarrow> untags valid {} d d"
  by (simp add: untags_def)

lemma untags_trans: "untags valid T d d1 \<Longrightarrow> untags valid U d1 d2 \<Longrightarrow> untags valid (T \<union> U) d d2"
  by (auto simp: untags_def)

lemma untags_log [simp]: "untags valid T d (LogImageEvent i n a d') = untags valid T d d'"
  by (simp add: untags_def LogImageEvent_def)

lemma normal_tag [simp]: "normal_ref (TagNameOnly r) = normal_ref r"
  by (cases r) (simp_all add: normal_ref_def)

lemma stored_normal: "stored_form r \<Longrightarrow> normal_ref r = r"
  by (cases r) (simp_all add: stored_form_def normal_ref_def)

lemma removeImageRef_untags:
  assumes laws: "ref_laws parse (ie_digest_ok E) valid" and inv: "ref_inv valid (id_refs d)" and v: "valid ref"
    and run: "removeImageRef E ref d = (d', p, e)"
  shows "p = TagNameOnly ref" "\<exists>T \<subseteq> {normal_ref ref}. untags valid T d d'"
    "e = None \<Longrightarrow> untags valid {normal_ref ref} d d' \<and> rs_abs valid (id_refs d) (normal_ref ref) \<noteq> None"
    "rs_abs valid (id_refs d) (normal_ref ref) = None \<Longrightarrow> d' = d \<and> e = Some RefDoesNotExist"
proof -
  obtain refs was where D: "ref_delete (ie_digest_ok E) (TagNameOnly ref) (ie_write E (TagNameOnly ref)) (id_refs d) = (refs, was, e)"
      "d' = d\<lparr>id_refs := refs\<rparr>" and p: "p = TagNameOnly ref"
    using run by (auto simp: removeImageRef_def split: prod.splits)
  have vt: "valid (TagNameOnly ref)" using laws v by (simp add: ref_laws_def)
  note O = ref_delete_outcome [OF laws inv vt D(1), unfolded normal_tag]
  show "p = TagNameOnly ref" by (rule p)
  show "rs_abs valid (id_refs d) (normal_ref ref) = None \<Longrightarrow> d' = d \<and> e = Some RefDoesNotExist" using O D(2) by simp
  have *: "rs_abs valid (id_refs d) (normal_ref ref) \<noteq> None \<Longrightarrow> untags valid {normal_ref ref} d d'"
    using O D(2) by (simp add: untags_def split: if_splits)
  have "rs_abs valid (id_refs d) (normal_ref ref) = None \<Longrightarrow> untags valid {} d d'"
    using O D(2) inv by (simp add: untags_def)
  with * show "\<exists>T \<subseteq> {normal_ref ref}. untags valid T d d'" by blast
  show "untags valid {normal_ref ref} d d' \<and> rs_abs valid (id_refs d) (normal_ref ref) \<noteq> None" if "e = None"
    using * O that by (cases "rs_abs valid (id_refs d) (normal_ref ref) = None") simp_all
qed

lemma rs_abs_form: "rs_abs valid st r \<noteq> None \<Longrightarrow> valid r \<and> stored_form r"
  by (simp add: rs_abs_def split: if_splits)

lemma untag_all_untags:
  assumes laws: "ref_laws parse (ie_digest_ok E) valid"
  shows "ref_inv valid (id_refs d) \<Longrightarrow> \<forall>r \<in> set refs. valid r \<and> stored_form r \<Longrightarrow> untag_all E i refs records d = (d', records', e) \<Longrightarrow>
    (\<exists>T \<subseteq> set refs. untags valid T d d') \<and> (e = None \<longrightarrow> untags valid (set refs) d d' \<and>
      records' = records @ map (\<lambda>r. Untagged (FamiliarString r)) refs)"
proof (induction refs arbitrary: d records)
  case Nil
  then show ?case by (auto intro: untags_refl)
next
  case (Cons ref refs)
  have ref: "valid ref" "normal_ref ref = ref" using Cons.prems(2) stored_normal by auto
  have t: "TagNameOnly ref = ref" using Cons.prems(2) by (cases ref) (auto simp: stored_form_def)
  obtain d1 p e1 where R: "removeImageRef E ref d = (d1, p, e1)" by (cases "removeImageRef E ref d") auto
  note U = removeImageRef_untags [OF laws Cons.prems(1) ref(1) R, unfolded ref(2)]
  show ?case
  proof (cases e1)
    case (Some x)
    then show ?thesis using Cons.prems(3) R U(2) by auto
  next
    case None
    let ?d = "LogImageEvent i i ''untag'' d1"
    have u: "untags valid {ref} d ?d" using U(3) None by simp
    then have inv: "ref_inv valid (id_refs ?d)" by (simp add: untags_def)
    have run: "untag_all E i refs (records @ [Untagged (FamiliarString ref)]) ?d = (d', records', e)"
      using Cons.prems(3) R None U(1) t by simp
    from Cons.IH [OF inv _ run] Cons.prems(2) obtain T where T: "T \<subseteq> set refs" "untags valid T ?d d'"
      and ok: "e = None \<Longrightarrow> untags valid (set refs) ?d d' \<and>
        records' = (records @ [Untagged (FamiliarString ref)]) @ map (\<lambda>r. Untagged (FamiliarString r)) refs" by auto
    have "untags valid ({ref} \<union> T) d d'" "e = None \<Longrightarrow> untags valid ({ref} \<union> set refs) d d'"
      using untags_trans [OF u] T ok by blast+
    then show ?thesis using T ok by (intro conjI exI [of _ "insert ref T"]) auto
  qed
qed


lemma untag_digests_untags:
  assumes laws: "ref_laws parse (ie_digest_ok E) valid"
  shows "ref_inv valid (id_refs d) \<Longrightarrow> \<forall>r \<in> set refs. valid r \<and> stored_form r \<Longrightarrow>
    untag_digests E name refs records remaining d = (d', records', e, remaining') \<Longrightarrow>
    (\<exists>T \<subseteq> set refs. untags valid T d d') \<and> (e = None \<longrightarrow>
      untags valid {r \<in> set refs. canonical_digest r \<noteq> None \<and> name = ref_Name r} d d' \<and>
      remaining' = remaining @ filter (\<lambda>r. \<not> (canonical_digest r \<noteq> None \<and> name = ref_Name r)) refs)"
proof (induction refs arbitrary: d records remaining)
  case Nil
  then show ?case by (auto intro: untags_refl)
next
  case (Cons ref refs)
  let ?S = "\<lambda>refs. {r \<in> set refs. canonical_digest r \<noteq> None \<and> name = ref_Name r}"
  have ref: "valid ref" "normal_ref ref = ref" using Cons.prems(2) stored_normal by auto
  show ?case
  proof (cases "canonical_digest ref \<noteq> None \<and> name = ref_Name ref")
    case False
    then have S: "?S (ref # refs) = ?S refs" by auto
    have "untag_digests E name refs records (remaining @ [ref]) d = (d', records', e, remaining')"
      using Cons.prems(3) False by auto
    from Cons.IH [OF Cons.prems(1) _ this] Cons.prems(2) show ?thesis
      unfolding S using False by auto
  next
    case True
    obtain d1 p e1 where R: "removeImageRef E ref d = (d1, p, e1)" by (cases "removeImageRef E ref d") auto
    note U = removeImageRef_untags [OF laws Cons.prems(1) ref(1) R, unfolded ref(2)]
    show ?thesis
    proof (cases e1)
      case (Some x)
      then show ?thesis using Cons.prems(3) R U(2) True by auto
    next
      case None
      have u: "untags valid {ref} d d1" using U(3) None by simp
      then have inv: "ref_inv valid (id_refs d1)" by (simp add: untags_def)
      have run: "untag_digests E name refs (records @ [Untagged (FamiliarString ref)]) remaining d1 = (d', records', e, remaining')"
        using Cons.prems(3) R None True by simp
      from Cons.IH [OF inv _ run] Cons.prems(2) obtain T where T: "T \<subseteq> set refs" "untags valid T d1 d'"
        and ok: "e = None \<Longrightarrow> untags valid (?S refs) d1 d' \<and>
          remaining' = remaining @ filter (\<lambda>r. \<not> (canonical_digest r \<noteq> None \<and> name = ref_Name r)) refs" by auto
      have "untags valid ({ref} \<union> T) d d'" "e = None \<Longrightarrow> untags valid ({ref} \<union> ?S refs) d d'"
        using untags_trans [OF u] T ok by blast+
      moreover have "{ref} \<union> ?S refs = ?S (ref # refs)" using True by auto
      ultimately show ?thesis using T ok True by (intro conjI exI [of _ "insert ref T"]) auto
    qed
  qed
qed

text \<open>When every write succeeds, all references that are there are removed.\<close>

lemma removeImageRef_writes:
  assumes laws: "ref_laws parse (ie_digest_ok E) valid" and inv: "ref_inv valid (id_refs d)" and v: "valid ref"
    and there: "rs_abs valid (id_refs d) (normal_ref ref) \<noteq> None" and w: "\<forall>r. ie_write E r"
    and run: "removeImageRef E ref d = (d', p, e)"
  shows "e = None"
proof -
  obtain refs was where D: "ref_delete (ie_digest_ok E) (TagNameOnly ref) (ie_write E (TagNameOnly ref)) (id_refs d) = (refs, was, e)"
    using run by (auto simp: removeImageRef_def split: prod.splits)
  have vt: "valid (TagNameOnly ref)" using laws v by (simp add: ref_laws_def)
  from ref_delete_outcome [OF laws inv vt D] show ?thesis using there w by simp
qed

lemma untag_all_writes:
  assumes laws: "ref_laws parse (ie_digest_ok E) valid"
  shows "ref_inv valid (id_refs d) \<Longrightarrow> \<forall>r \<in> set refs. valid r \<and> stored_form r \<Longrightarrow> distinct refs \<Longrightarrow>
    \<forall>r \<in> set refs. rs_abs valid (id_refs d) r \<noteq> None \<Longrightarrow> \<forall>r. ie_write E r \<Longrightarrow>
    untag_all E i refs records d = (d', records', e) \<Longrightarrow> e = None"
proof (induction refs arbitrary: d records)
  case (Cons ref refs)
  have ref: "valid ref" "normal_ref ref = ref" using Cons.prems(2) stored_normal by auto
  obtain d1 p e1 where R: "removeImageRef E ref d = (d1, p, e1)" by (cases "removeImageRef E ref d") auto
  have n: "e1 = None"
    by (rule removeImageRef_writes [OF laws Cons.prems(1) ref(1) _ Cons.prems(5) R]) (use Cons.prems(4) ref(2) in simp)
  have u: "untags valid {ref} d d1" using removeImageRef_untags(3) [OF laws Cons.prems(1) ref(1) R n] ref(2) by simp
  let ?d = "LogImageEvent i i ''untag'' d1"
  have "untag_all E i refs (records @ [Untagged (FamiliarString p)]) ?d = (d', records', e)"
    using Cons.prems(6) R n by simp
  then show ?case
    by (rule Cons.IH [rotated 5]) (use Cons.prems(2-5) u in \<open>auto simp: untags_def LogImageEvent_def\<close>)
qed simp

lemma untag_digests_writes:
  assumes laws: "ref_laws parse (ie_digest_ok E) valid"
  shows "ref_inv valid (id_refs d) \<Longrightarrow> \<forall>r \<in> set refs. valid r \<and> stored_form r \<Longrightarrow> distinct refs \<Longrightarrow>
    \<forall>r \<in> set refs. rs_abs valid (id_refs d) r \<noteq> None \<Longrightarrow> \<forall>r. ie_write E r \<Longrightarrow>
    untag_digests E name refs records remaining d = (d', records', e, remaining') \<Longrightarrow> e = None"
proof (induction refs arbitrary: d records remaining)
  case (Cons ref refs)
  have ref: "valid ref" "normal_ref ref = ref" using Cons.prems(2) stored_normal by auto
  show ?case
  proof (cases "canonical_digest ref \<noteq> None \<and> name = ref_Name ref")
    case False
    then have "untag_digests E name refs records (remaining @ [ref]) d = (d', records', e, remaining')"
      using Cons.prems(6) by auto
    then show ?thesis by (rule Cons.IH [rotated 5]) (use Cons.prems(1-5) in auto)
  next
    case True
    obtain d1 p e1 where R: "removeImageRef E ref d = (d1, p, e1)" by (cases "removeImageRef E ref d") auto
    have n: "e1 = None"
      by (rule removeImageRef_writes [OF laws Cons.prems(1) ref(1) _ Cons.prems(5) R]) (use Cons.prems(4) ref(2) in simp)
    have u: "untags valid {ref} d d1" using removeImageRef_untags(3) [OF laws Cons.prems(1) ref(1) R n] ref(2) by simp
    have "untag_digests E name refs (records @ [Untagged (FamiliarString ref)]) remaining d1 = (d', records', e, remaining')"
      using Cons.prems(6) R n True by simp
    then show ?thesis
      by (rule Cons.IH [rotated 5]) (use Cons.prems(2-5) u in \<open>auto simp: untags_def\<close>)
  qed
qed simp

text \<open>The references that removing a name takes away.\<close>

definition untagged_by :: "named \<Rightarrow> string \<Rightarrow> (named \<Rightarrow> string option) \<Rightarrow> named set" where
  "untagged_by ref i f =
     insert (normal_ref ref)
       (if canonical_digest (TagNameOnly ref) = None \<and>
           \<not> (\<exists>r. r \<noteq> normal_ref ref \<and> f r = Some i \<and> canonical_digest r = None \<and> ref_Name r = ref_Name ref)
        then {r. f r = Some i \<and> canonical_digest r \<noteq> None \<and> ref_Name r = ref_Name ref} else {})"

lemma ref_Name_tag [simp]: "ref_Name (TagNameOnly r) = ref_Name r" "ref_Name (normal_ref r) = ref_Name r"
  by (cases r; simp add: ref_Name_def normal_ref_def)+

lemma untag_name_ok:
  assumes laws: "ref_laws parse (ie_digest_ok E) valid" and inv: "ref_inv valid (id_refs d)" and v: "valid ref"
    and run: "untag_name E i ref d = (d', records, e, remaining)"
  shows "\<exists>T \<subseteq> insert (normal_ref ref) {r. rs_abs valid (id_refs d) r = Some i}. untags valid T d d'"
    "e = None \<Longrightarrow> untags valid (untagged_by ref i (rs_abs valid (id_refs d))) d d' \<and>
       set remaining = {r. rs_abs valid (id_refs d') r = Some i} \<and> rs_abs valid (id_refs d) (normal_ref ref) \<noteq> None"
proof -
  let ?f = "rs_abs valid (id_refs d)" and ?n = "normal_ref ref"
  obtain d1 p e1 where R: "removeImageRef E ref d = (d1, p, e1)" by (cases "removeImageRef E ref d") auto
  note U = removeImageRef_untags [OF laws inv v R]
  have "(\<exists>T \<subseteq> insert ?n {r. ?f r = Some i}. untags valid T d d') \<and> (e = None \<longrightarrow> untags valid (untagged_by ref i ?f) d d' \<and>
       set remaining = {r. rs_abs valid (id_refs d') r = Some i} \<and> ?f ?n \<noteq> None)"
  proof (cases e1)
    case (Some x)
    then show ?thesis using run R U(2) by (auto simp: untag_name_def)
  next
    case None
    let ?d = "LogImageEvent i i ''untag'' d1"
    have u: "untags valid {?n} d ?d" "?f ?n \<noteq> None" using U(3) None by auto
    then have inv1: "ref_inv valid (id_refs ?d)" and f1: "rs_abs valid (id_refs ?d) = ?f(?n := None)"
      by (auto simp: untags_def fun_eq_iff)
    let ?refs = "References i (id_refs ?d)"
    have refs: "set ?refs = {r. r \<noteq> ?n \<and> ?f r = Some i}" using References_abs(1) [OF laws inv1] by (auto simp: f1)
    then have form: "\<forall>r \<in> set ?refs. valid r \<and> stored_form r" using rs_abs_form by blast
    define lone where "lone \<longleftrightarrow> canonical_digest (TagNameOnly ref) = None \<and>
       \<not> list_ex (\<lambda>r. canonical_digest r = None \<and> ref_Name ref = ref_Name r) ?refs"
    have lone: "lone \<longleftrightarrow> canonical_digest (TagNameOnly ref) = None \<and>
           \<not> (\<exists>r. r \<noteq> ?n \<and> ?f r = Some i \<and> canonical_digest r = None \<and> ref_Name r = ref_Name ref)"
      unfolding lone_def list_ex_iff refs by auto
    show ?thesis
    proof (cases lone)
      case False
      then have "d' = ?d" "e = None" "remaining = ?refs" using run R None U(1) by (auto simp: untag_name_def lone_def Let_def)
      moreover have "untagged_by ref i ?f = {?n}" using False lone by (auto simp: untagged_by_def)
      ultimately show ?thesis using u refs f1 by auto
    next
      case True
      then have "untag_digests E (ref_Name ref) ?refs [Untagged (FamiliarString p)] [] ?d = (d', records, e, remaining)"
        using run R None U(1) by (simp add: untag_name_def lone_def Let_def)
      note D = untag_digests_untags [OF laws inv1 form this]
      obtain T where T: "T \<subseteq> set ?refs" "untags valid T ?d d'" using D by blast
      have "untags valid ({?n} \<union> T) d d'" by (rule untags_trans [OF u(1) T(2)])
      moreover have "{?n} \<union> T \<subseteq> insert ?n {r. ?f r = Some i}" using T(1) unfolding refs by auto
      ultimately have 1: "\<exists>T \<subseteq> insert ?n {r. ?f r = Some i}. untags valid T d d'" by (intro exI conjI)
      have "untags valid (untagged_by ref i ?f) d d' \<and> set remaining = {r. rs_abs valid (id_refs d') r = Some i}" if "e = None"
      proof -
        let ?S = "{r \<in> set ?refs. canonical_digest r \<noteq> None \<and> ref_Name ref = ref_Name r}"
        have S: "untags valid ?S ?d d'" "set remaining = set ?refs - ?S" using D that by auto
        have "{?n} \<union> ?S = untagged_by ref i ?f" using True lone refs by (auto simp: untagged_by_def)
        moreover have "set remaining = {r. rs_abs valid (id_refs d') r = Some i}"
          using S(1) by (auto simp: S(2) untags_def f1 refs)
        ultimately show ?thesis using untags_trans [OF u(1) S(1)] by simp
      qed
      then show ?thesis using 1 u(2) by blast
    qed
  qed
  then show "\<exists>T \<subseteq> insert ?n {r. ?f r = Some i}. untags valid T d d'"
    "e = None \<Longrightarrow> untags valid (untagged_by ref i ?f) d d' \<and>
       set remaining = {r. rs_abs valid (id_refs d') r = Some i} \<and> ?f ?n \<noteq> None" by blast+
qed


section \<open>What a deletion takes away\<close>

text \<open>
  Only references of the image \<open>i\<close>, and only when forced; of the images those that no running container
  uses; an image other than \<open>i\<close>, or any without force, only when no container uses it and nothing refers to it.
\<close>

definition removed :: "(named \<Rightarrow> bool) \<Rightarrow> bool \<Rightarrow> string \<Rightarrow> ('r, 's) image_daemon \<Rightarrow> ('r, 's) image_daemon \<Rightarrow> bool" where
  "removed valid force i d d' \<longleftrightarrow>
     ref_inv valid (id_refs d') \<and> id_containers d' = id_containers d \<and>
     (\<forall>r. rs_abs valid (id_refs d') r = rs_abs valid (id_refs d) r \<or>
        force \<and> rs_abs valid (id_refs d') r = None \<and> rs_abs valid (id_refs d) r = Some i) \<and>
     (\<forall>j. layer_of (id_images d') j = layer_of (id_images d) j \<or>
        layer_of (id_images d') j = None \<and> \<not> runs j d \<and> (\<forall>r. rs_abs valid (id_refs d') r \<noteq> Some j) \<and>
        (\<not> force \<or> j \<noteq> i \<longrightarrow> \<not> uses j d \<and> (\<forall>r. rs_abs valid (id_refs d) r \<noteq> Some j))) \<and>
     (\<forall>j. layer_of (id_images d') j \<noteq> None \<longrightarrow> parent_of (id_images d') j = parent_of (id_images d) j)"

lemma removed_refl: "ref_inv valid (id_refs d) \<Longrightarrow> removed valid force i d d"
  by (simp add: removed_def)

lemma removed_trans:
  assumes 1: "removed valid force i d d1" and 2: "removed valid False p d1 d2"
  shows "removed valid force i d d2"
proof -
  have c: "id_containers d2 = id_containers d" "ref_inv valid (id_refs d2)" using 1 2 by (simp_all add: removed_def)
  have r: "rs_abs valid (id_refs d2) r = rs_abs valid (id_refs d1) r" for r using 2 by (simp add: removed_def)
  have u: "uses j d1 = uses j d" "runs j d1 = runs j d" for j using uses_cong [of d1 d] 1 by (simp_all add: removed_def)
  have r1: "rs_abs valid (id_refs d1) r = rs_abs valid (id_refs d) r \<or>
      force \<and> rs_abs valid (id_refs d1) r = None \<and> rs_abs valid (id_refs d) r = Some i" for r
    using 1 by (simp add: removed_def)
  have "layer_of (id_images d2) j = layer_of (id_images d) j \<or>
        layer_of (id_images d2) j = None \<and> \<not> runs j d \<and> (\<forall>r. rs_abs valid (id_refs d2) r \<noteq> Some j) \<and>
        (\<not> force \<or> j \<noteq> i \<longrightarrow> \<not> uses j d \<and> (\<forall>r. rs_abs valid (id_refs d) r \<noteq> Some j))" for j
  proof (cases "layer_of (id_images d2) j = layer_of (id_images d1) j")
    case True
    then show ?thesis using 1 by (simp add: removed_def r)
  next
    case False
    then have n: "layer_of (id_images d2) j = None" "layer_of (id_images d1) j \<noteq> None"
      and j: "\<not> uses j d" "\<not> runs j d" "\<And>r. rs_abs valid (id_refs d1) r \<noteq> Some j"
      using 2 u unfolding removed_def by metis+
    have "rs_abs valid (id_refs d) r \<noteq> Some j" if "\<not> force \<or> j \<noteq> i" for r using j(3) [of r] r1 [of r] that by auto
    then show ?thesis using n j r by auto
  qed
  moreover have "parent_of (id_images d2) j = parent_of (id_images d) j" if "layer_of (id_images d2) j \<noteq> None" for j
  proof -
    have "layer_of (id_images d1) j \<noteq> None" using 2 that unfolding removed_def by metis
    then show ?thesis using 1 2 that by (simp add: removed_def)
  qed
  ultimately show ?thesis using c r1 r by (simp add: removed_def)
qed

lemma is_Delete_parent:
  assumes run: "is_Delete H lrelease disk i st = Some (st', res)" and n: "length (is_Children i st) = 0" and j: "j \<noteq> i"
  shows "parent_of st' j = parent_of st j"
proof -
  have D: "parent_of (deleted H disk i [] st) j = parent_of st j"
    using j by (auto simp: parent_of_def deleted_frame(4) delete_parents_def fs_Delete_def Let_def meta_del_all_get)
  show ?thesis using run
    by (cases rule: is_Delete_cases) (use n D in \<open>auto simp: is_Children_def parent_of_def\<close>)
qed

declare imageDeleteHelper.simps [simp del, code]

lemma is_Delete_result:
  assumes "image_reach K H parse D st P" "disk \<in> D"
  shows "\<exists>st' res. is_Delete H (ls_Release K) disk i st = Some (st', res) \<and> image_reach K H parse D st' P \<and>
    layer_of st' = (layer_of st)(i := None)"
proof -
  have "layer_reach K (is_ls st) P" using image_reach_held [OF assms(1)] by blast
  from ls.is_Delete_returns [OF this] obtain st' res where R: "is_Delete H (ls_Release K) disk i st = Some (st', res)" by blast
  then have "image_reach K H parse D st' P" using image_reach_delete [OF assms(1,2) R] by blast
  then show ?thesis using R is_Delete_frame [OF R] by blast
qed

lemma removed_image:
  assumes u: "untags valid {r. rs_abs valid (id_refs d) r = Some i} d d1" and c: "\<not> runs i d"
    "\<not> force \<Longrightarrow> \<not> uses i d \<and> (\<forall>r. rs_abs valid (id_refs d) r \<noteq> Some i)"
    and st: "layer_of st = (layer_of (id_images d))(i := None)" "\<And>j. j \<noteq> i \<Longrightarrow> parent_of st j = parent_of (id_images d) j"
  shows "removed valid force i d (d1\<lparr>id_images := st\<rparr>)"
proof -
  have "rs_abs valid (id_refs d1) r = rs_abs valid (id_refs d) r \<or>
        force \<and> rs_abs valid (id_refs d1) r = None \<and> rs_abs valid (id_refs d) r = Some i" for r
    using u c(2) by (cases force) (simp_all add: untags_def)
  moreover have "rs_abs valid (id_refs d1) r \<noteq> Some i" for r using u by (simp add: untags_def)
  ultimately show ?thesis using u c st by (auto simp: removed_def untags_def)
qed

lemma imageDeleteHelper_ok:
  fixes K :: "('m, 'x, 'd) layer_ops" and E :: "(layer_ref, ('m, 'd) layerstore, layer_error, _) image_env"
  assumes laws: "ref_laws parse (ie_digest_ok E) valid" and E: "ie_release E = ls_Release K" "ie_disk E \<in> D"
  shows "ref_inv valid (id_refs d) \<Longrightarrow> image_reach K (ie_H E) (ie_parse E) D (id_images d) P \<Longrightarrow>
    finite (dom (layer_of (id_images d))) \<Longrightarrow>
    \<exists>d' records' e. imageDeleteHelper E i records force prune quiet d = Some (d', records', e) \<and> removed valid force i d d' \<and>
      image_reach K (ie_H E) (ie_parse E) D (id_images d') P \<and>
      (case checkImageDeleteConflict i (helper_kinds force) d of
         Some c \<Rightarrow> d' = d \<and> records' = records \<and> e = (if quiet then None else Some (Conflicts c))
       | None \<Rightarrow> (\<forall>c. e \<noteq> Some (Conflicts c)) \<and> ((\<forall>r. ie_write E r) \<longrightarrow> layer_of (id_images d') i = None))"
proof (induction "card (dom (layer_of (id_images d)))" arbitrary: d i records force prune quiet rule: less_induct)
  case less
  let ?kinds = "helper_kinds force"
  show ?case
  proof (cases "checkImageDeleteConflict i ?kinds d")
    case (Some c)
    then show ?thesis using quiet_conflict [OF Some] less.prems removed_refl
      by (subst imageDeleteHelper.simps) (auto simp: Some)
  next
    case None
    obtain d1 records1 e1 where R: "removeAllReferencesToImageID E i records d = (d1, records1, e1)"
      by (cases "removeAllReferencesToImageID E i records d") auto
    have refs: "set (References i (id_refs d)) = {r. rs_abs valid (id_refs d) r = Some i}"
      by (rule References_abs(1) [OF laws less.prems(1)])
    then have form: "\<forall>r \<in> set (References i (id_refs d)). valid r \<and> stored_form r" using rs_abs_form by blast
    note U = untag_all_untags [OF laws less.prems(1) form R [unfolded removeAllReferencesToImageID_def]]
    have safe: "\<not> runs i d" "\<not> force \<Longrightarrow> \<not> uses i d \<and> (\<forall>r. rs_abs valid (id_refs d) r \<noteq> Some i)"
      using None refs by (auto simp: check_helper)
    show ?thesis
    proof (cases e1)
      case (Some x)
      obtain T where T: "T \<subseteq> {r. rs_abs valid (id_refs d) r = Some i}" "untags valid T d d1" using U refs by blast
      have "\<not> (\<forall>r. ie_write E r)"
        using untag_all_writes [OF laws less.prems(1) form _ _ _ R [unfolded removeAllReferencesToImageID_def]]
          References_abs(2) [OF laws less.prems(1)] refs Some by auto
      moreover have "removed valid force i d d1" using T safe(2) by (auto simp: removed_def untags_def)
      ultimately show ?thesis using T(2) less.prems(2)
        by (subst imageDeleteHelper.simps) (auto simp: None R Some untags_def)
    next
      case e1: None
      have u: "untags valid {r. rs_abs valid (id_refs d) r = Some i} d d1" using U e1 refs by simp
      have im: "id_images d1 = id_images d" using u by (simp add: untags_def)
      obtain st res where del: "is_Delete (ie_H E) (ls_Release K) (ie_disk E) i (id_images d1) = Some (st, res)"
        "image_reach K (ie_H E) (ie_parse E) D st P" "layer_of st = (layer_of (id_images d))(i := None)"
        using is_Delete_result [OF less.prems(2) E(2)] im by metis
      have "length (is_Children i (id_images d)) = 0" using None by (simp add: check_helper)
      then have "parent_of st j = parent_of (id_images d) j" if "j \<noteq> i" for j
        using is_Delete_parent [OF del(1)] that im by simp
      note rem = removed_image [OF u safe del(3) this]
      show ?thesis
      proof (cases res)
        case (Inl x)
        then show ?thesis using rem del(2,3) by (subst imageDeleteHelper.simps) (simp add: None R e1 E del(1))
      next
        case (Inr ms)
        let ?p = "case is_GetParent (ie_H E) (ie_disk E) i (id_images d) :: layer_error image_error + string of Inl e \<Rightarrow> '''' | Inr p \<Rightarrow> p"
        let ?d = "LogImageEvent i i ''delete'' (d1\<lparr>id_images := st\<rparr>)"
        let ?r = "records1 @ Deleted i # map (\<lambda>m. Deleted (ie_chain E m)) ms"
        have rd: "removed valid force i d ?d" using rem by (simp add: LogImageEvent_def removed_def)
        have EQ: "imageDeleteHelper E i records force prune quiet d =
            (if \<not> prune \<or> ?p = '''' then Some (?d, ?r, None) else imageDeleteHelper E ?p ?r False True True ?d)"
          by (subst imageDeleteHelper.simps) (simp add: None R e1 E del(1) Inr)
        show ?thesis
        proof (cases "\<not> prune \<or> ?p = ''''")
          case True
          then show ?thesis unfolding EQ using rd del(2,3) None by (simp add: LogImageEvent_def)
        next
          case False
          have "gm_get (is_images (id_images d1)) i \<noteq> None"
          proof
            assume "gm_get (is_images (id_images d1)) i = None"
            then show False using del(1) Inr by (simp add: is_Delete_def)
          qed
          then have dom: "i \<in> dom (layer_of (id_images d))" by (simp add: layer_of_def im dom_def)
          have st: "id_images ?d = st" "id_refs ?d = id_refs d1" by (simp_all add: LogImageEvent_def)
          have "dom (layer_of st) = dom (layer_of (id_images d)) - {i}" by (simp add: del(3))
          then have m: "card (dom (layer_of (id_images ?d))) < card (dom (layer_of (id_images d)))"
            "finite (dom (layer_of (id_images ?d)))"
            unfolding st using dom less.prems(3) by (simp_all only: card_Diff1_less finite_Diff)
          have "ref_inv valid (id_refs ?d)" using u by (simp add: st untags_def)
          from less.hyps [OF m(1) this _ m(2), of ?p ?r False True True] del(2) obtain d' records' e where
            I: "imageDeleteHelper E ?p ?r False True True ?d = Some (d', records', e)" "removed valid False ?p ?d d'"
              "image_reach K (ie_H E) (ie_parse E) D (id_images d') P" "\<forall>c. e \<noteq> Some (Conflicts c)"
            unfolding st by (fastforce split: option.splits)
          have "layer_of (id_images d') i = None" using I(2) del(3) unfolding removed_def st by (metis fun_upd_same)
          then show ?thesis unfolding EQ using I removed_trans [OF rd I(2)] False None by auto
        qed
      qed
    qed
  qed
qed


section \<open>Deleting by name and by identifier\<close>

lemma split_first_prefix: "length s = 64 \<Longrightarrow> isImageIDPrefix (''sha256:'' @ s) s"
  by (simp add: isImageIDPrefix_def split_first_def)

lemma GetImageID_name:
  assumes laws: "ref_laws parse (ie_digest_ok E) valid" "\<forall>s r. ie_named E s = Some r \<longrightarrow> valid r"
    and run: "GetImageID E s d = Inr i" and no: "\<not> isImageIDPrefix i s" and ref: "ie_named E s = Some ref"
  shows "rs_abs valid (id_refs d) (normal_ref ref) = None \<or> rs_abs valid (id_refs d) (normal_ref ref) = Some i"
proof -
  have v: "valid ref" using laws(2) ref by blast
  have "ParseAnyReference (ie_named E) s = Some (AnyNamed ref)"
  proof (rule ccontr)
    assume "ParseAnyReference (ie_named E) s \<noteq> Some (AnyNamed ref)"
    then have "ParseAnyReference (ie_named E) s \<in> {Some (AnyDigest (''sha256:'' @ s)), Some (AnyDigest s)} \<and>
        (ParseAnyReference (ie_named E) s = Some (AnyDigest (''sha256:'' @ s)) \<longrightarrow> length s = 64 \<or> s = ''sha256:'' @ s)"
      using ref by (auto simp: ParseAnyReference_def digest_parse_def split: if_splits)
    then have "i = s \<or> i = ''sha256:'' @ s \<and> length s = 64"
      using run by (auto simp: GetImageID_def split: sum.splits)
    then show False
    proof
      assume "i = s"
      then show False using no by (simp add: isImageIDPrefix_def)
    next
      assume "i = ''sha256:'' @ s \<and> length s = 64"
      then show False using no split_first_prefix [of s] by simp
    qed
  qed
  then show ?thesis using run ref_get_abs [OF laws(1) v, of "id_refs d"]
    by (auto simp: GetImageID_def split: option.splits)
qed

lemma removed_untagged:
  assumes 1: "untags valid T d d1" and T: "\<And>r. r \<in> T \<Longrightarrow> rs_abs valid (id_refs d) r = None \<or> rs_abs valid (id_refs d) r = Some i"
    and 2: "removed valid force i d1 d2"
  shows "ref_inv valid (id_refs d2)" "id_containers d2 = id_containers d"
    "rs_abs valid (id_refs d2) r = rs_abs valid (id_refs d) r \<or> rs_abs valid (id_refs d2) r = None \<and> rs_abs valid (id_refs d) r = Some i"
    "layer_of (id_images d2) j = layer_of (id_images d) j \<or>
      layer_of (id_images d2) j = None \<and> \<not> runs j d \<and> (\<forall>r. rs_abs valid (id_refs d2) r \<noteq> Some j) \<and>
        (\<not> force \<or> j \<noteq> i \<longrightarrow> \<not> uses j d) \<and> (j \<noteq> i \<longrightarrow> (\<forall>r. rs_abs valid (id_refs d) r \<noteq> Some j))"
    "layer_of (id_images d2) j \<noteq> None \<Longrightarrow> parent_of (id_images d2) j = parent_of (id_images d) j"
proof -
  show "layer_of (id_images d2) j \<noteq> None \<Longrightarrow> parent_of (id_images d2) j = parent_of (id_images d) j"
    using 1 2 by (simp add: removed_def untags_def)
  have c: "id_containers d1 = id_containers d" "id_images d1 = id_images d"
    and r1: "\<And>r. rs_abs valid (id_refs d1) r = (if r \<in> T then None else rs_abs valid (id_refs d) r)"
    using 1 by (auto simp: untags_def)
  have u: "uses j d1 = uses j d" "runs j d1 = runs j d" using uses_cong [OF c(1)] by blast+
  show "ref_inv valid (id_refs d2)" "id_containers d2 = id_containers d" using 2 c by (simp_all add: removed_def)
  show "rs_abs valid (id_refs d2) r = rs_abs valid (id_refs d) r \<or> rs_abs valid (id_refs d2) r = None \<and> rs_abs valid (id_refs d) r = Some i"
  proof -
    have "rs_abs valid (id_refs d2) r = rs_abs valid (id_refs d1) r \<or>
        rs_abs valid (id_refs d2) r = None \<and> rs_abs valid (id_refs d1) r = Some i" using 2 by (auto simp: removed_def)
    then show ?thesis using r1 [of r] T [of r] by (cases "r \<in> T") auto
  qed
  show "layer_of (id_images d2) j = layer_of (id_images d) j \<or>
      layer_of (id_images d2) j = None \<and> \<not> runs j d \<and> (\<forall>r. rs_abs valid (id_refs d2) r \<noteq> Some j) \<and>
        (\<not> force \<or> j \<noteq> i \<longrightarrow> \<not> uses j d) \<and> (j \<noteq> i \<longrightarrow> (\<forall>r. rs_abs valid (id_refs d) r \<noteq> Some j))"
  proof (cases "layer_of (id_images d2) j = layer_of (id_images d) j")
    case False
    have "layer_of (id_images d2) j = None \<and> \<not> runs j d \<and> (\<forall>r. rs_abs valid (id_refs d2) r \<noteq> Some j) \<and>
        (\<not> force \<or> j \<noteq> i \<longrightarrow> \<not> uses j d \<and> (\<forall>r. rs_abs valid (id_refs d1) r \<noteq> Some j))"
      using 2 False unfolding removed_def c(2) u [symmetric] by blast
    moreover have "rs_abs valid (id_refs d) r \<noteq> Some j" if "j \<noteq> i" "\<forall>r. rs_abs valid (id_refs d1) r \<noteq> Some j" for r
      using r1 [of r] T [of r] that by (auto split: if_splits)
    ultimately show ?thesis by blast
  qed simp
qed


lemma finite_images: "finite (dom (layer_of st))"
proof -
  have "dom (layer_of st) \<subseteq> fst ` set (is_images st)"
    by (auto simp: layer_of_def dom_def intro!: image_eqI [rotated] dest!: map_of_SomeD)
  then show ?thesis by (rule finite_subset) simp
qed

definition outcome :: "(named \<Rightarrow> bool) \<Rightarrow> bool \<Rightarrow> string \<Rightarrow> ('r, 's) image_daemon \<Rightarrow> ('r, 's) image_daemon \<Rightarrow> bool" where
  "outcome valid force i d d' \<longleftrightarrow>
     (\<exists>T d1. untags valid T d d1 \<and> (\<forall>r \<in> T. rs_abs valid (id_refs d) r = None \<or> rs_abs valid (id_refs d) r = Some i) \<and>
        removed valid force i d1 d')"

lemma outcome_untags:
  assumes "untags valid T d d1" "\<And>r. r \<in> T \<Longrightarrow> rs_abs valid (id_refs d) r = None \<or> rs_abs valid (id_refs d) r = Some i"
  shows "outcome valid force i d d1"
proof -
  have "removed valid force i d1 d1" by (rule removed_refl) (use assms(1) in \<open>simp add: untags_def\<close>)
  then show ?thesis using assms unfolding outcome_def by blast
qed

lemma outcome_refl: "ref_inv valid (id_refs d) \<Longrightarrow> outcome valid force i d d"
  by (rule outcome_untags [OF untags_refl]) simp_all

lemma delete_finish_ok:
  fixes K :: "('m, 'x, 'd) layer_ops" and E :: "(layer_ref, ('m, 'd) layerstore, layer_error, _) image_env"
  assumes laws: "ref_laws parse (ie_digest_ok E) valid" and E: "ie_release E = ls_Release K" "ie_disk E \<in> D"
    and u: "untags valid T d d1" "\<And>r. r \<in> T \<Longrightarrow> rs_abs valid (id_refs d) r = None \<or> rs_abs valid (id_refs d) r = Some i"
    and im: "image_reach K (ie_H E) (ie_parse E) D (id_images d) P"
  shows "\<exists>d' records' e. delete_finish E i records force prune quiet d1 = Some (d', records', e) \<and> outcome valid force i d d' \<and>
      removed valid force i d1 d' \<and> image_reach K (ie_H E) (ie_parse E) D (id_images d') P \<and>
      (case checkImageDeleteConflict i (helper_kinds force) d1 of
         Some c \<Rightarrow> d' = d1 \<and> records' = (if quiet then records else []) \<and> e = (if quiet then None else Some (Conflicts c))
       | None \<Rightarrow> (\<forall>c. e \<noteq> Some (Conflicts c)) \<and> ((\<forall>r. ie_write E r) \<longrightarrow> layer_of (id_images d') i = None))"
proof -
  have "ref_inv valid (id_refs d1)" "image_reach K (ie_H E) (ie_parse E) D (id_images d1) P" using u(1) im by (simp_all add: untags_def)
  from imageDeleteHelper_ok [OF laws E this finite_images, of i records force prune quiet] obtain d' records' e where
    H: "imageDeleteHelper E i records force prune quiet d1 = Some (d', records', e)" "removed valid force i d1 d'"
      "image_reach K (ie_H E) (ie_parse E) D (id_images d') P"
      "case checkImageDeleteConflict i (helper_kinds force) d1 of
         Some c \<Rightarrow> d' = d1 \<and> records' = records \<and> e = (if quiet then None else Some (Conflicts c))
       | None \<Rightarrow> (\<forall>c. e \<noteq> Some (Conflicts c)) \<and> ((\<forall>r. ie_write E r) \<longrightarrow> layer_of (id_images d') i = None)" by blast
  have "outcome valid force i d d'" using u H(2) unfolding outcome_def by blast
  moreover have "delete_finish E i records force prune quiet d1 = Some (d', if e = None then records' else [], e)"
    by (simp add: delete_finish_def H(1))
  ultimately show ?thesis using H(2-4) by (auto split: option.splits)
qed

lemma References_empty:
  assumes "ref_laws parse dok valid" "ref_inv valid st"
  shows "length (References i st) = 0 \<longleftrightarrow> (\<forall>r. rs_abs valid st r \<noteq> Some i)"
  using References_abs(1) [OF assms, of i] by auto

lemma ImageDelete_outcome:
  fixes K :: "('m, 'x, 'd) layer_ops" and E :: "(layer_ref, ('m, 'd) layerstore, layer_error, _) image_env"
  assumes laws: "ref_laws parse (ie_digest_ok E) valid" "\<forall>s r. ie_named E s = Some r \<longrightarrow> valid r"
    and E: "ie_release E = ls_Release K" "ie_disk E \<in> D"
    and inv: "ref_inv valid (id_refs d)" "image_reach K (ie_H E) (ie_parse E) D (id_images d) P"
    and i: "GetImageID E s d = Inr i"
  shows "\<exists>d' records e. ImageDelete E s force prune d = Some (d', records, e) \<and> outcome valid force i d d' \<and>
      image_reach K (ie_H E) (ie_parse E) D (id_images d') P \<and> (\<forall>c. e = Some (Conflicts c) \<longrightarrow> d' = d)"
proof -
  let ?refs = "References i (id_refs d)" and ?f = "rs_abs valid (id_refs d)"
  note refl = outcome_refl [OF inv(1)]
  have refs: "set ?refs = {r. ?f r = Some i}" by (rule References_abs(1) [OF laws(1) inv(1)])
  then have form: "\<forall>r \<in> set ?refs. valid r \<and> stored_form r" using rs_abs_form by blast
  show ?thesis
  proof (cases "isImageIDPrefix i s")
    case named: False
    show ?thesis
    proof (cases "\<not> force \<and> isSingleReference ?refs \<and> getContainerUsingImage i d \<noteq> None")
      case True
      then show ?thesis using i named refl inv(2) by (simp add: ImageDelete_def)
    next
      case free: False
      show ?thesis
      proof (cases "ie_named E s")
        case None
        then show ?thesis using i named free refl inv(2) by (auto simp: ImageDelete_def)
      next
        case (Some ref)
        have v: "valid ref" using laws(2) Some by blast
        have n: "?f (normal_ref ref) = None \<or> ?f (normal_ref ref) = Some i" by (rule GetImageID_name [OF laws i named Some])
        obtain d1 records e remaining where N: "untag_name E i ref d = (d1, records, e, remaining)"
          by (cases "untag_name E i ref d") auto
        note U = untag_name_ok [OF laws(1) inv(1) v N]
        obtain T where T: "T \<subseteq> insert (normal_ref ref) {r. ?f r = Some i}" "untags valid T d d1" using U(1) by blast
        have Ti: "?f r = None \<or> ?f r = Some i" if "r \<in> T" for r using T(1) n that by auto
        have o1: "outcome valid force i d d1" by (rule outcome_untags [OF T(2) Ti])
        have im: "id_images d1 = id_images d" using T(2) by (simp add: untags_def)
        have EQ: "ImageDelete E s force prune d =
           (case e of Some e \<Rightarrow> Some (d1, records, Some (RefFailed e))
            | None \<Rightarrow> if length remaining > 0 then Some (d1, records, None) else delete_finish E i records force prune True d1)"
          using i named free Some N by (auto simp: ImageDelete_def)
        show ?thesis
        proof (cases "e = None \<and> length remaining = 0")
          case False
          then show ?thesis unfolding EQ using o1 inv(2) im by (auto split: option.split)
        next
          case True
          from delete_finish_ok [OF laws(1) E T(2) Ti inv(2), of records force prune True] True show ?thesis
            unfolding EQ by (auto split: option.splits)
        qed
      qed
    qed
  next
    case byid: True
    show ?thesis
    proof (cases "isSingleReference ?refs")
      case False
      have 0: "untags valid {} d d" by (rule untags_refl [OF inv(1)])
      have EQ: "ImageDelete E s force prune d = delete_finish E i [] force prune False d"
        using i byid False by (simp add: ImageDelete_def)
      from delete_finish_ok [OF laws(1) E 0 _ inv(2), of i "[]" force prune False] show ?thesis
        unfolding EQ by (auto split: option.splits)
    next
      case single: True
      show ?thesis
      proof (cases "checkImageDeleteConflict i (id_kinds force) d")
        case (Some c)
        then show ?thesis using i byid single refl inv(2) by (simp add: ImageDelete_def)
      next
        case None
        obtain d1 records e where N: "untag_all E i ?refs [] d = (d1, records, e)" by (cases "untag_all E i ?refs [] d") auto
        note U = untag_all_untags [OF laws(1) inv(1) form N]
        obtain T where T: "T \<subseteq> {r. ?f r = Some i}" "untags valid T d d1" using U refs by blast
        have o1: "outcome valid force i d d1" by (rule outcome_untags [OF T(2)]) (use T(1) in auto)
        have im: "id_images d1 = id_images d" using T(2) by (simp add: untags_def)
        show ?thesis
        proof (cases e)
          case (Some x)
          then show ?thesis using i byid single None N o1 inv(2) im by (simp add: ImageDelete_def)
        next
          case n: None
          have u: "untags valid {r. ?f r = Some i} d d1" using U n refs by simp
          have c: "checkImageDeleteConflict i (helper_kinds force) d1 = None"
          proof -
            have "ref_inv valid (id_refs d1)" "\<forall>r. rs_abs valid (id_refs d1) r \<noteq> Some i" "id_containers d1 = id_containers d"
              using u by (auto simp: untags_def)
            then show ?thesis using None References_empty [OF laws(1), of "id_refs d1" i] uses_cong [of d1 d i] im
              by (simp add: check_helper check_by_id)
          qed
          have EQ: "ImageDelete E s force prune d = delete_finish E i records force prune False d1"
            using i byid single None N n by (simp add: ImageDelete_def)
          from delete_finish_ok [OF laws(1) E u _ inv(2), of i records force prune False] c show ?thesis
            unfolding EQ by auto
        qed
      qed
    qed
  qed
qed


text \<open>
  C3. A deletion always returns, even when the disk, the layer store or the file of references fails, and keeps the invariants of
  both stores. Every image it takes away is used by no running container, and, unless it is the one that was asked for and the
  deletion is forced, by no container; no reference to it is left, and an ancestor that is pruned had none before. An image that
  stays keeps its recorded parent. References change only by
  removal, and only those of the image that was asked for. A call that reports a conflict has changed nothing.
\<close>

theorem image_delete_safe:
  fixes K :: "('m, 'x, 'd) layer_ops" and E :: "(layer_ref, ('m, 'd) layerstore, layer_error, _) image_env"
  assumes laws: "ref_laws parse (ie_digest_ok E) valid" and names: "\<forall>s r. ie_named E s = Some r \<longrightarrow> valid r"
    and env: "ie_release E = ls_Release K" "ie_disk E \<in> D"
    and refs: "ref_inv valid (id_refs d)" and images: "image_reach K (ie_H E) (ie_parse E) D (id_images d) P"
  shows "\<exists>d' records e. ImageDelete E imageRef force prune d = Some (d', records, e) \<and>
    ref_inv valid (id_refs d') \<and> image_reach K (ie_H E) (ie_parse E) D (id_images d') P \<and> id_containers d' = id_containers d \<and>
    (\<forall>i. gm_get (is_images (id_images d)) i \<noteq> None \<and> gm_get (is_images (id_images d')) i = None \<longrightarrow>
       \<not> runs i d \<and> (\<not> force \<or> GetImageID E imageRef d \<noteq> Inr i \<longrightarrow> \<not> uses i d) \<and>
       (\<forall>r. rs_abs valid (id_refs d') r \<noteq> Some i) \<and>
       (GetImageID E imageRef d \<noteq> Inr i \<longrightarrow> (\<forall>r. rs_abs valid (id_refs d) r \<noteq> Some i))) \<and>
    (\<forall>i. gm_get (is_images (id_images d')) i \<noteq> None \<longrightarrow>
       gm_get (is_images (id_images d)) i \<noteq> None \<and> parent_of (id_images d') i = parent_of (id_images d) i) \<and>
    (\<forall>r. rs_abs valid (id_refs d') r \<noteq> rs_abs valid (id_refs d) r \<longrightarrow>
       rs_abs valid (id_refs d') r = None \<and> (\<exists>i. GetImageID E imageRef d = Inr i \<and> rs_abs valid (id_refs d) r = Some i)) \<and>
    (\<forall>c. e = Some (Conflicts c) \<longrightarrow> d' = d)"
proof (cases "GetImageID E imageRef d")
  case (Inl e)
  then show ?thesis using refs images by (auto simp: ImageDelete_def GetImageID_def split: option.splits any_ref.splits sum.splits)
next
  case (Inr i)
  from ImageDelete_outcome [OF laws names env refs images Inr, of force prune] obtain d' records e where
    R: "ImageDelete E imageRef force prune d = Some (d', records, e)" "outcome valid force i d d'"
      "image_reach K (ie_H E) (ie_parse E) D (id_images d') P" "\<forall>c. e = Some (Conflicts c) \<longrightarrow> d' = d" by blast
  obtain T d1 where O: "untags valid T d d1" "\<And>r. r \<in> T \<Longrightarrow> rs_abs valid (id_refs d) r = None \<or> rs_abs valid (id_refs d) r = Some i"
    "removed valid force i d1 d'" using R(2) unfolding outcome_def by blast
  note S = removed_untagged [OF O]
  have lay: "gm_get (is_images st) j = None \<longleftrightarrow> layer_of st j = None" for st :: "(layer_ref, ('m, 'd) layerstore) image_store" and j
    by (simp add: layer_of_def)
  have 1: "\<not> runs j d \<and> (\<not> force \<or> GetImageID E imageRef d \<noteq> Inr j \<longrightarrow> \<not> uses j d) \<and> (\<forall>r. rs_abs valid (id_refs d') r \<noteq> Some j) \<and>
      (GetImageID E imageRef d \<noteq> Inr j \<longrightarrow> (\<forall>r. rs_abs valid (id_refs d) r \<noteq> Some j))"
    if "gm_get (is_images (id_images d)) j \<noteq> None \<and> gm_get (is_images (id_images d')) j = None" for j
    using S(4) [of j] that unfolding lay Inr by auto
  have 2: "gm_get (is_images (id_images d)) j \<noteq> None \<and> parent_of (id_images d') j = parent_of (id_images d) j"
    if "gm_get (is_images (id_images d')) j \<noteq> None" for j
    using S(4,5) [of j] that unfolding lay by auto
  have 3: "rs_abs valid (id_refs d') r = None \<and> (\<exists>i. GetImageID E imageRef d = Inr i \<and> rs_abs valid (id_refs d) r = Some i)"
    if "rs_abs valid (id_refs d') r \<noteq> rs_abs valid (id_refs d) r" for r
    using S(3) [of r] that unfolding Inr by auto
  show ?thesis using R S(1,2) 1 2 3 by blast
qed


lemma getContainer_uses: "getContainerUsingImage i d = None \<longleftrightarrow> \<not> uses i d"
  by (auto simp: getContainerUsingImage_def uses_def store_first_def find_None_iff)

lemma GetImageID_parsed:
  assumes run: "GetImageID E s d = Inr i" and no: "\<not> isImageIDPrefix i s"
  obtains ref where "ie_named E s = Some ref"
proof (cases "ie_named E s")
  case None
  then have "i = s \<or> i = ''sha256:'' @ s \<and> length s = 64"
    using run by (auto simp: GetImageID_def ParseAnyReference_def digest_parse_def split: sum.splits if_splits)
  then show ?thesis
  proof
    assume "i = s"
    then show ?thesis using no by (simp add: isImageIDPrefix_def)
  next
    assume "i = ''sha256:'' @ s \<and> length s = 64"
    then show ?thesis using no split_first_prefix [of s] by simp
  qed
qed

lemma untag_name_writes:
  assumes laws: "ref_laws parse (ie_digest_ok E) valid" and inv: "ref_inv valid (id_refs d)" and v: "valid ref"
    and w: "\<forall>r. ie_write E r" and run: "untag_name E i ref d = (d', records, e, remaining)"
  shows "if rs_abs valid (id_refs d) (normal_ref ref) = None then d' = d \<and> records = [] \<and> e = Some RefDoesNotExist else e = None"
proof -
  obtain d1 p e1 where R: "removeImageRef E ref d = (d1, p, e1)" by (cases "removeImageRef E ref d") auto
  note U = removeImageRef_untags [OF laws inv v R]
  show ?thesis
  proof (cases "rs_abs valid (id_refs d) (normal_ref ref)")
    case None
    then show ?thesis using U(4) run R by (auto simp: untag_name_def)
  next
    case (Some j)
    then have n: "e1 = None" using removeImageRef_writes [OF laws inv v _ w R] by simp
    let ?d = "LogImageEvent i i ''untag'' d1"
    have inv1: "ref_inv valid (id_refs ?d)" using U(3) [OF n] by (simp add: untags_def LogImageEvent_def)
    have refs: "set (References i (id_refs ?d)) = {r. rs_abs valid (id_refs ?d) r = Some i}"
      by (rule References_abs(1) [OF laws inv1])
    then have form: "\<forall>r \<in> set (References i (id_refs ?d)). valid r \<and> stored_form r" using rs_abs_form by blast
    have "e = None"
      using run R n untag_digests_writes [OF laws inv1 form References_abs(2) [OF laws inv1] _ w] refs
      by (auto simp: untag_name_def Let_def split: if_splits)
    then show ?thesis using Some by simp
  qed
qed


text \<open>What stands in the way of a deletion by identifier.\<close>

definition id_blocked :: "bool \<Rightarrow> string \<Rightarrow> ('r, 's) image_daemon \<Rightarrow> bool" where
  "id_blocked force i d \<longleftrightarrow> length (is_Children i (id_images d)) > 0 \<or> runs i d \<or>
     \<not> force \<and> (uses i d \<or> \<not> isSingleReference (References i (id_refs d)) \<and> length (References i (id_refs d)) > 0)"

lemma ImageDelete_by_id:
  fixes K :: "('m, 'x, 'd) layer_ops" and E :: "(layer_ref, ('m, 'd) layerstore, layer_error, _) image_env"
  assumes laws: "ref_laws parse (ie_digest_ok E) valid"
    and env: "ie_release E = ls_Release K" "ie_disk E \<in> D" and writes: "\<forall>r. ie_write E r"
    and refs: "ref_inv valid (id_refs d)" and images: "image_reach K (ie_H E) (ie_parse E) D (id_images d) P"
    and i: "GetImageID E imageRef d = Inr i" and byid: "isImageIDPrefix i imageRef"
  shows "\<exists>d' records e. ImageDelete E imageRef force prune d = Some (d', records, e) \<and>
    (if id_blocked force i d then d' = d \<and> (\<exists>c. e = Some (Conflicts c)) else layer_of (id_images d') i = None)"
proof -
  let ?refs = "References i (id_refs d)" and ?f = "rs_abs valid (id_refs d)"
  have 0: "untags valid {} d d" by (rule untags_refl [OF refs])
  show ?thesis
  proof (cases "isSingleReference ?refs")
    case False
    have EQ: "ImageDelete E imageRef force prune d = delete_finish E i [] force prune False d"
      using i byid False by (simp add: ImageDelete_def)
    have k: "checkImageDeleteConflict i (helper_kinds force) d = None \<longleftrightarrow> \<not> id_blocked force i d"
      using False by (auto simp: check_helper id_blocked_def)
    from delete_finish_ok [OF laws env 0 _ images, of i "[]" force prune False] obtain d' records e where
      F: "delete_finish E i [] force prune False d = Some (d', records, e)"
        "case checkImageDeleteConflict i (helper_kinds force) d of Some c \<Rightarrow> d' = d \<and> e = Some (Conflicts c)
         | None \<Rightarrow> layer_of (id_images d') i = None" using writes by (auto split: option.splits)
    show ?thesis
    proof (cases "checkImageDeleteConflict i (helper_kinds force) d")
      case None
      then show ?thesis unfolding EQ using F k by simp
    next
      case (Some c)
      then have "id_blocked force i d" using k by simp
      then show ?thesis unfolding EQ using F Some by simp
    qed
  next
    case single: True
    have k: "checkImageDeleteConflict i (id_kinds force) d = None \<longleftrightarrow> \<not> id_blocked force i d"
      using single by (auto simp: check_by_id id_blocked_def)
    show ?thesis
    proof (cases "checkImageDeleteConflict i (id_kinds force) d")
      case (Some c)
      then have "id_blocked force i d" using k by simp
      then show ?thesis using i byid single Some by (simp add: ImageDelete_def)
    next
      case None
      have R: "set ?refs = {r. ?f r = Some i}" by (rule References_abs(1) [OF laws refs])
      then have form: "\<forall>r \<in> set ?refs. valid r \<and> stored_form r" using rs_abs_form by blast
      obtain d1 records e where N: "untag_all E i ?refs [] d = (d1, records, e)" by (cases "untag_all E i ?refs [] d") auto
      have n: "e = None"
        by (rule untag_all_writes [OF laws refs form References_abs(2) [OF laws refs] _ writes N]) (use R in auto)
      have u: "untags valid {r. ?f r = Some i} d d1" using untag_all_untags [OF laws refs form N] n R by simp
      have c: "checkImageDeleteConflict i (helper_kinds force) d1 = None"
      proof -
        have "ref_inv valid (id_refs d1)" "\<forall>r. rs_abs valid (id_refs d1) r \<noteq> Some i" "id_containers d1 = id_containers d"
          "id_images d1 = id_images d" using u by (auto simp: untags_def)
        then show ?thesis using None References_empty [OF laws, of "id_refs d1" i] uses_cong [of d1 d i]
          by (simp add: check_helper check_by_id)
      qed
      have EQ: "ImageDelete E imageRef force prune d = delete_finish E i records force prune False d1"
        using i byid single None N n by (simp add: ImageDelete_def)
      from delete_finish_ok [OF laws env u _ images, of i records force prune False] c writes None k show ?thesis
        unfolding EQ by auto
    qed
  qed
qed

lemma ImageDelete_by_name:
  fixes K :: "('m, 'x, 'd) layer_ops" and E :: "(layer_ref, ('m, 'd) layerstore, layer_error, _) image_env"
  assumes laws: "ref_laws parse (ie_digest_ok E) valid" and names: "\<forall>s r. ie_named E s = Some r \<longrightarrow> valid r"
    and env: "ie_release E = ls_Release K" "ie_disk E \<in> D" and writes: "\<forall>r. ie_write E r"
    and refs: "ref_inv valid (id_refs d)" and images: "image_reach K (ie_H E) (ie_parse E) D (id_images d) P"
    and i: "GetImageID E imageRef d = Inr i" and there: "layer_of (id_images d) i \<noteq> None"
    and named: "\<not> isImageIDPrefix i imageRef" and ref: "ie_named E imageRef = Some ref"
    and free: "\<not> (\<not> force \<and> isSingleReference (References i (id_refs d)) \<and> uses i d)"
    and known: "rs_abs valid (id_refs d) (normal_ref ref) \<noteq> None"
  shows "\<exists>d' records e. ImageDelete E imageRef force prune d = Some (d', records, e) \<and>
    (\<forall>r. rs_abs valid (id_refs d') r =
       (if r \<in> untagged_by ref i (rs_abs valid (id_refs d)) then None else rs_abs valid (id_refs d) r)) \<and>
    (layer_of (id_images d') i = None \<longleftrightarrow>
       (\<forall>r. rs_abs valid (id_refs d') r \<noteq> Some i) \<and> length (is_Children i (id_images d)) = 0 \<and> \<not> runs i d \<and> (force \<or> \<not> uses i d))"
proof -
  let ?f = "rs_abs valid (id_refs d)"
  let ?T = "untagged_by ref i ?f"
  have v: "valid ref" using names ref by blast
  obtain d1 records e remaining where N: "untag_name E i ref d = (d1, records, e, remaining)" by (cases "untag_name E i ref d") auto
  have n: "e = None" using untag_name_writes [OF laws refs v writes N] known by simp
  have EQ: "ImageDelete E imageRef force prune d =
     (if length remaining > 0 then Some (d1, records, None) else delete_finish E i records force prune True d1)"
    using i named free ref N n by (auto simp: ImageDelete_def getContainer_uses)
  have u: "untags valid ?T d d1" and rem: "set remaining = {r. rs_abs valid (id_refs d1) r = Some i}"
    using untag_name_ok(2) [OF laws refs v N n] by auto
  have f1: "rs_abs valid (id_refs d1) r = (if r \<in> ?T then None else ?f r)" for r using u by (simp add: untags_def)
  have im: "id_images d1 = id_images d" using u by (simp add: untags_def)
  have T: "?f r = None \<or> ?f r = Some i" if "r \<in> ?T" for r
    using that GetImageID_name [OF laws names i named ref] by (auto simp: untagged_by_def split: if_splits)
  show ?thesis
  proof (cases "length remaining > 0")
    case True
    then have "\<exists>r. rs_abs valid (id_refs d1) r = Some i" using rem by (cases remaining) auto
    moreover have "layer_of (id_images d1) i \<noteq> None" using there im by simp
    ultimately show ?thesis unfolding EQ f1 [symmetric] if_P [OF True] by (intro exI conjI) (rule refl, simp, blast)
  next
    case False
    then have none: "rs_abs valid (id_refs d1) r \<noteq> Some i" for r using rem by auto
    from delete_finish_ok [OF laws env u T images, of records force prune True] obtain d' records' e' where
      F: "delete_finish E i records force prune True d1 = Some (d', records', e')" "removed valid force i d1 d'"
        "case checkImageDeleteConflict i (helper_kinds force) d1 of Some c \<Rightarrow> d' = d1
         | None \<Rightarrow> layer_of (id_images d') i = None" using writes by (auto split: option.splits)
    have f': "rs_abs valid (id_refs d') r = rs_abs valid (id_refs d1) r" for r using F(2) none [of r] by (auto simp: removed_def)
    have k: "checkImageDeleteConflict i (helper_kinds force) d1 = None \<longleftrightarrow>
        length (is_Children i (id_images d)) = 0 \<and> \<not> runs i d \<and> (force \<or> \<not> uses i d)"
    proof -
      have "ref_inv valid (id_refs d1)" "id_containers d1 = id_containers d" using u by (simp_all add: untags_def)
      then show ?thesis using References_empty [OF laws, of "id_refs d1" i] none uses_cong [of d1 d i] im
        by (auto simp: check_helper)
    qed
    have "layer_of (id_images d') i = None \<longleftrightarrow> checkImageDeleteConflict i (helper_kinds force) d1 = None"
      using F(3) there im by (auto split: option.splits)
    then show ?thesis unfolding EQ f1 [symmetric] if_not_P [OF False] f' [symmetric]
      using F(1) k f' none by (intro exI conjI) (assumption, simp, simp)
  qed
qed

text \<open>
  C4. What a deletion of an image does when the writes of the file of references succeed. By an identifier: it reports a conflict, and changes
  nothing, when the image has children, when a running container uses it, or without force when any container does or it is referenced
  in several repositories; otherwise the image is deleted. By a name: it is refused without force when it would leave an image
  that a container uses without a name; a name that was resolved in the deprecated form by a short identifier is an error; otherwise
  exactly that reference is removed, with the digests of its repository if it was its last tag there, and the image is deleted when
  no reference is left and no conflict stands in the way.
\<close>

theorem image_delete_result:
  fixes K :: "('m, 'x, 'd) layer_ops" and E :: "(layer_ref, ('m, 'd) layerstore, layer_error, _) image_env"
  assumes laws: "ref_laws parse (ie_digest_ok E) valid" and names: "\<forall>s r. ie_named E s = Some r \<longrightarrow> valid r"
    and env: "ie_release E = ls_Release K" "ie_disk E \<in> D" and writes: "\<forall>r. ie_write E r"
    and refs: "ref_inv valid (id_refs d)" and images: "image_reach K (ie_H E) (ie_parse E) D (id_images d) P"
    and i: "GetImageID E imageRef d = Inr i" and there: "gm_get (is_images (id_images d)) i \<noteq> None"
  shows "\<exists>d' records e. ImageDelete E imageRef force prune d = Some (d', records, e) \<and>
    (if isImageIDPrefix i imageRef
     then (if id_blocked force i d then d' = d \<and> (\<exists>c. e = Some (Conflicts c))
           else gm_get (is_images (id_images d')) i = None)
     else \<exists>ref. ie_named E imageRef = Some ref \<and>
      (if \<not> force \<and> isSingleReference (References i (id_refs d)) \<and> uses i d
       then d' = d \<and> e = Some (ReferenceInUse imageRef)
       else if rs_abs valid (id_refs d) (normal_ref ref) = None
       then d' = d \<and> e = Some (RefFailed RefDoesNotExist)
       else (\<forall>r. rs_abs valid (id_refs d') r =
               (if r \<in> untagged_by ref i (rs_abs valid (id_refs d)) then None else rs_abs valid (id_refs d) r)) \<and>
            (gm_get (is_images (id_images d')) i = None \<longleftrightarrow>
               (\<forall>r. rs_abs valid (id_refs d') r \<noteq> Some i) \<and> length (is_Children i (id_images d)) = 0 \<and> \<not> runs i d \<and> (force \<or> \<not> uses i d))))"
proof -
  have lay: "gm_get (is_images st) j = None \<longleftrightarrow> layer_of st j = None" for st :: "(layer_ref, ('m, 'd) layerstore) image_store" and j
    by (simp add: layer_of_def)
  have there: "layer_of (id_images d) i \<noteq> None" using there by (simp add: lay)
  show ?thesis
  proof (cases "isImageIDPrefix i imageRef")
    case True
    from ImageDelete_by_id [OF laws env writes refs images i True, of force prune] True show ?thesis unfolding lay by auto
  next
    case named: False
    from GetImageID_parsed [OF i named] obtain ref where ref: "ie_named E imageRef = Some ref" by blast
    have v: "valid ref" using names ref by blast
    consider (held) "\<not> force \<and> isSingleReference (References i (id_refs d)) \<and> uses i d"
      | (gone) "\<not> (\<not> force \<and> isSingleReference (References i (id_refs d)) \<and> uses i d)" "rs_abs valid (id_refs d) (normal_ref ref) = None"
      | (known) "\<not> (\<not> force \<and> isSingleReference (References i (id_refs d)) \<and> uses i d)" "rs_abs valid (id_refs d) (normal_ref ref) \<noteq> None"
      by blast
    then show ?thesis
    proof cases
      case held
      then show ?thesis using i named ref by (simp add: ImageDelete_def getContainer_uses)
    next
      case gone
      obtain d1 records e remaining where N: "untag_name E i ref d = (d1, records, e, remaining)" by (cases "untag_name E i ref d") auto
      have "d1 = d" "e = Some RefDoesNotExist" using untag_name_writes [OF laws refs v writes N] gone by simp_all
      moreover have "ImageDelete E imageRef force prune d = Some (d1, records, Some (RefFailed (the e)))"
        using i named ref gone N \<open>e = _\<close> by (auto simp: ImageDelete_def getContainer_uses)
      ultimately show ?thesis using named ref gone by simp
    next
      case known
      show ?thesis unfolding lay if_not_P [OF named]
        using ImageDelete_by_name [OF laws names env writes refs images i there named ref known, of prune] ref
        unfolding if_not_P [OF known(1)] if_not_P [OF known(2)] by (elim exE conjE) (intro exI conjI, assumption+, simp only: known(2) if_False simp_thms)
    qed
  qed
qed


section \<open>Tagging\<close>

lemma TagImage_lookup:
  assumes laws: "ref_laws parse (ie_digest_ok E) valid" and inv: "ref_inv valid (id_refs d)" and v: "valid newTag"
    and run: "TagImageWithReference E i newTag d = (d', None)"
    and s: "ParseAnyReference (ie_named E) s = Some (AnyNamed newTag)"
  shows "ref_inv valid (id_refs d')" "GetImageID E s d' = Inr i"
proof -
  obtain refs where A: "AddTag (ie_digest_ok E) newTag i True (ie_write E newTag) (id_refs d) = (refs, None)"
    and d': "id_refs d' = refs"
    using run by (auto simp: TagImageWithReference_def LogImageEvent_def split: prod.splits option.splits)
  have c: "canonical_digest newTag = None" using A by (simp add: AddTag_def split: if_splits)
  then have n: "normal_ref newTag = TagNameOnly newTag" by (cases newTag) (simp_all add: normal_ref_def)
  have fav: "favorDigest (ie_digest_ok E) (TagNameOnly newTag) = Inr (TagNameOnly newTag)"
    using c by (cases newTag) (simp_all add: favorDigest_def)
  note nv = normal_ref_valid [OF laws v, unfolded n]
  have R: "addReference (ie_digest_ok E) (TagNameOnly newTag) i True (ie_write E newTag) (id_refs d) = (refs, None)"
    using A c by (simp add: AddTag_def)
  note O = addReference_outcome [OF laws inv fav nv R]
  then have ok: "ref_inv valid refs"
    "rs_look refs (FamiliarName (TagNameOnly newTag)) (FamiliarString (TagNameOnly newTag)) = Some i"
    by (simp_all split: if_splits)
  show "ref_inv valid (id_refs d')" using ok d' by simp
  have "rs_abs valid refs (TagNameOnly newTag) = Some i" using ok(2) nv by (simp add: rs_abs_def)
  then show "GetImageID E s d' = Inr i"
    using s ref_get_abs [OF laws v, of refs] by (simp add: GetImageID_def d' n)
qed

text \<open>
  Only the name \<^verbatim>\<open>sha256\<close> is reserved, so a tag of another algorithm's length can be set and is then read as a digest.
\<close>

lemma digest_like_tag:
  "ParseAnyReference parse (''sha384:'' @ replicate 96 (CHR ''a'')) = Some (AnyDigest (''sha384:'' @ replicate 96 (CHR ''a'')))"
proof -
  have "digest_parse (''sha384:'' @ replicate 96 (CHR ''a'')) = Some (''sha384:'' @ replicate 96 (CHR ''a''))" by code_simp
  then show ?thesis by (simp add: ParseAnyReference_def)
qed

section \<open>Examples\<close>

definition ex_env :: "(layer_ref, (unit, string list) layerstore, layer_error, layer_metadata) image_env" where
  "ex_env = \<lparr>ie_H = ImageProps.ex_H, ie_parse = ImageProps.ex_parse, ie_disk = (\<lambda>_. True), ie_release = ls_Release ex_ops,
     ie_chain = (\<lambda>m. ''''), ie_named = (\<lambda>s. if s = ''redis:latest'' then Some (TaggedRef ex_repo ''latest'') else None),
     ie_digest_ok = (\<lambda>_. True), ie_write = (\<lambda>_. True)\<rparr>"

definition ex_empty_refs :: ref_store where
  "ex_empty_refs = \<lparr>rs_repos = [], rs_cache = [], rs_file = Saved []\<rparr>"

definition ex_daemon :: "(layer_ref, (unit, string list) layerstore) image_daemon" where
  "ex_daemon = \<lparr>id_refs = fst (AddTag (\<lambda>_. True) (TaggedRef ex_repo ''latest'') (ImageProps.ex_H ''next'') False True ex_empty_refs),
     id_images = ex_im3, id_containers = [], id_events = []\<rparr>"


lemma ex_daemon_ok:
  "ref_laws ReferenceStore.ex_parse (ie_digest_ok ex_env) ex_valid" "\<forall>s r. ie_named ex_env s = Some r \<longrightarrow> ex_valid r"
  "ie_release ex_env = ls_Release ex_ops" "ie_disk ex_env \<in> {\<lambda>_. True}" "\<forall>r. ie_write ex_env r"
  "ref_inv ex_valid (id_refs ex_daemon)" "image_reach ex_ops (ie_H ex_env) (ie_parse ex_env) {\<lambda>_. True} (id_images ex_daemon) []"
proof -
  show L: "ref_laws ReferenceStore.ex_parse (ie_digest_ok ex_env) ex_valid" using ex_ref_laws by (simp add: ex_env_def)
  have op: "op_ok ex_valid (OpAddTag (TaggedRef ex_repo ''latest'') x False True)" for x by (simp add: op_ok_def ex_valid_def)
  show "ref_inv ex_valid (id_refs ex_daemon)"
    using ref_step_abs [OF ex_ref_laws ref_inv_empty op] by (simp add: ex_daemon_def ex_empty_refs_def)
  show "image_reach ex_ops (ie_H ex_env) (ie_parse ex_env) {\<lambda>_. True} (id_images ex_daemon) []"
    using ex_im3_reach by (simp add: ex_env_def ex_daemon_def)
qed (simp_all add: ex_env_def ex_valid_def)

theorem image_delete_safe_witness:
  "\<exists>d records c. ImageDelete ex_env (ImageProps.ex_H ''cfg'') True True ex_daemon = Some (d, records, Some (Conflicts c)) \<and> d = ex_daemon"
proof -
  have "(case ImageDelete ex_env (ImageProps.ex_H ''cfg'') True True ex_daemon of
      Some (d, records, Some e) \<Rightarrow> (case e of Conflicts c \<Rightarrow> True | _ \<Rightarrow> False) | _ \<Rightarrow> False)" by code_simp
  then obtain d records e where R: "ImageDelete ex_env (ImageProps.ex_H ''cfg'') True True ex_daemon = Some (d, records, Some e)"
    "case e of Conflicts c \<Rightarrow> True | _ \<Rightarrow> False" by (auto split: option.splits)
  then obtain c where "ImageDelete ex_env (ImageProps.ex_H ''cfg'') True True ex_daemon = Some (d, records, Some (Conflicts c))"
    by (cases e) simp_all
  then show ?thesis
    using image_delete_safe [OF ex_daemon_ok(1-4,6,7), of "ImageProps.ex_H ''cfg''" True True] by fastforce
qed

theorem image_delete_result_witness:
  "\<exists>d records e. ImageDelete ex_env ''redis:latest'' False True ex_daemon = Some (d, records, e) \<and>
     gm_get (is_images (id_images d)) (ImageProps.ex_H ''next'') = None"
proof -
  let ?i = "ImageProps.ex_H ''next''" and ?s = "''redis:latest''"
  have i: "GetImageID ex_env ?s ex_daemon = Inr ?i" by code_simp
  have m: "gm_get (is_images (id_images ex_daemon)) ?i \<noteq> None" by code_simp
  have p: "\<not> isImageIDPrefix ?i ?s" by code_simp
  have c: "\<not> uses ?i ex_daemon" "\<not> runs ?i ex_daemon" "length (is_Children ?i (id_images ex_daemon)) = 0"
    by (simp_all add: uses_def runs_def store_all_def) (simp_all add: ex_daemon_def, code_simp)
  have "rs_abs ex_valid (id_refs ex_daemon) = (\<lambda>_. None)(TaggedRef ex_repo ''latest'' := Some ?i)"
  proof -
    have op: "op_ok ex_valid (OpAddTag (TaggedRef ex_repo ''latest'') x False True)" for x by (simp add: op_ok_def ex_valid_def)
    show ?thesis using ref_step_abs [OF ex_ref_laws ref_inv_empty op]
      by (simp add: ex_daemon_def ex_empty_refs_def rs_abs_empty spec_add_def normal_ref_def)
  qed
  then show ?thesis
    using image_delete_result [OF ex_daemon_ok i m, of False True] p c
    by (fastforce simp: ex_env_def normal_ref_def untagged_by_def split: if_splits)
qed

end
