(* ===== verification/BytesPipe.thy ===== *)
theory BytesPipe
  imports GoPrelude
begin

text \<open>
  The pipe of bytes between a container's streams and their readers
  (pkg/ioutils/bytespipe.go, buffer.go). It keeps the bytes in slices of fixed capacity.

  A call holds the pipe's lock except while it waits on the condition. The model has one
  function for every stretch between two waits; a call that waits is resumed by any broadcast, whatever
  happened in between. The pools of slices only save allocations: a slice from a pool is empty.
\<close>

section \<open>Slices\<close>

text \<open>\<open>fb_data\<close> are the bytes up to the position of the next write, of which \<open>fb_lastRead\<close> are read.\<close>

record fixedBuffer =
  fb_data :: string
  fb_cap :: nat
  fb_lastRead :: nat

definition getBuffer :: "nat \<Rightarrow> fixedBuffer" where
  "getBuffer n = \<lparr>fb_data = '''', fb_cap = n, fb_lastRead = 0\<rparr>"

definition fb_Write :: "string \<Rightarrow> fixedBuffer \<Rightarrow> fixedBuffer \<times> nat" where
  "fb_Write p b =
     (let n = min (fb_cap b - length (fb_data b)) (length p)
      in (b\<lparr>fb_data := fb_data b @ take n p\<rparr>, n))"

definition fb_Read :: "nat \<Rightarrow> fixedBuffer \<Rightarrow> fixedBuffer \<times> string" where
  "fb_Read k b =
     (let r = take k (drop (fb_lastRead b) (fb_data b))
      in (b\<lparr>fb_lastRead := fb_lastRead b + length r\<rparr>, r))"

definition fb_Len :: "fixedBuffer \<Rightarrow> nat" where
  "fb_Len b = length (fb_data b) - fb_lastRead b"

section \<open>The pipe\<close>

definition maxCap :: nat where "maxCap = 1000000"
definition minCap :: nat where "minCap = 64"
definition blockThreshold :: int where "blockThreshold = 1000000"

record 'e bytes_pipe =
  bp_buf :: "fixedBuffer list"
  bp_bufLen :: int
  bp_closeErr :: "'e option"

definition NewBytesPipe :: "'e bytes_pipe" where
  "NewBytesPipe = \<lparr>bp_buf = [getBuffer minCap], bp_bufLen = 0, bp_closeErr = None\<rparr>"

text \<open>
  A write ends, finds the pipe closed, or waits: with the bytes that are left, the count so far and the
  capacity of the slice it filled.
\<close>

datatype write_state = Wrote nat | WriteClosed nat | WriteWaits string nat nat

definition next_cap :: "nat \<Rightarrow> nat" where
  "next_cap c = (if c * 2 > maxCap then maxCap else c * 2)"

partial_function (option) write_loop :: "string \<Rightarrow> nat \<Rightarrow> 'e bytes_pipe \<Rightarrow> ('e bytes_pipe \<times> write_state) option" where
  "write_loop p written bp =
     (if bp_closeErr bp \<noteq> None then Some (bp, WriteClosed written)
      else
       (let bufs = (if length (bp_buf bp) = 0 then [getBuffer 64] else bp_buf bp);
            (b, n) = fb_Write p (last bufs);
            bp1 = bp\<lparr>bp_buf := butlast bufs @ [b], bp_bufLen := bp_bufLen bp + int n\<rparr>
        in if length p = n then Some (bp1, Wrote (written + n))
           else if bp_bufLen bp1 \<ge> blockThreshold then Some (bp1, WriteWaits (drop n p) (written + n) (fb_cap b))
           else write_loop (drop n p) (written + n) (bp1\<lparr>bp_buf := bp_buf bp1 @ [getBuffer (next_cap (fb_cap b))]\<rparr>)))"

definition bp_Write :: "string \<Rightarrow> 'e bytes_pipe \<Rightarrow> ('e bytes_pipe \<times> write_state) option" where
  "bp_Write p bp = write_loop p 0 bp"

text \<open>After a broadcast.\<close>

definition write_resume :: "string \<Rightarrow> nat \<Rightarrow> nat \<Rightarrow> 'e bytes_pipe \<Rightarrow> ('e bytes_pipe \<times> write_state) option" where
  "write_resume p written cp bp =
     (if bp_closeErr bp \<noteq> None then write_loop p written bp
      else if bp_bufLen bp \<ge> blockThreshold then Some (bp, WriteWaits p written cp)
      else write_loop p written (bp\<lparr>bp_buf := bp_buf bp @ [getBuffer (next_cap cp)]\<rparr>))"

definition CloseWithError :: "'e \<Rightarrow> 'e option \<Rightarrow> 'e bytes_pipe \<Rightarrow> 'e bytes_pipe" where
  "CloseWithError eof err bp = bp\<lparr>bp_closeErr := Some (case err of Some e \<Rightarrow> e | None \<Rightarrow> eof)\<rparr>"

definition bp_Close :: "'e \<Rightarrow> 'e bytes_pipe \<Rightarrow> 'e bytes_pipe" where
  "bp_Close eof bp = CloseWithError eof None bp"

datatype 'e read_state = ReadBytes string | ReadError 'e | ReadWaits | ReadPanics

text \<open>The loop that takes up to \<open>k\<close> bytes; \<^verbatim>\<open>bp.buf[0]\<close> of no slices would panic.\<close>

fun read_loop :: "nat \<Rightarrow> fixedBuffer list \<Rightarrow> int \<Rightarrow> fixedBuffer list \<times> int \<times> string option" where
  "read_loop k bufs len =
     (if len \<le> 0 then (bufs, len, Some '''')
      else (case bufs of
              [] \<Rightarrow> (bufs, len, None)
            | b # bs \<Rightarrow>
                (let (b1, r) = fb_Read k b;
                     len1 = len - int (length r);
                     bufs1 = (if fb_Len b1 = 0 then bs else b1 # bs)
                 in if k = length r then (bufs1, len1, Some r)
                    else if fb_Len b1 = 0
                    then (let (bufs2, len2, rs) = read_loop (k - length r) bs len1
                          in (bufs2, len2, map_option (\<lambda>s. r @ s) rs))
                    else (bufs1, len1, None))))"

text \<open>
  In the last case the slice is not empty although fewer bytes than asked for were read, which
  cannot be (\<open>fb_Read_short\<close>); the code would go on with the same slice.
\<close>

definition read_now :: "nat \<Rightarrow> 'e bytes_pipe \<Rightarrow> 'e bytes_pipe \<times> 'e read_state" where
  "read_now k bp =
     (case read_loop k (bp_buf bp) (bp_bufLen bp) of
        (bufs, len, r) \<Rightarrow> (bp\<lparr>bp_buf := bufs, bp_bufLen := len\<rparr>,
          case r of None \<Rightarrow> ReadPanics | Some s \<Rightarrow> ReadBytes s))"

definition bp_Read :: "nat \<Rightarrow> 'e bytes_pipe \<Rightarrow> 'e bytes_pipe \<times> 'e read_state" where
  "bp_Read k bp =
     (if bp_bufLen bp = 0
      then (case bp_closeErr bp of Some e \<Rightarrow> (bp, ReadError e) | None \<Rightarrow> (bp, ReadWaits))
      else read_now k bp)"

text \<open>After a broadcast: the read goes on even if another reader took all bytes.\<close>

definition read_resume :: "nat \<Rightarrow> 'e bytes_pipe \<Rightarrow> 'e bytes_pipe \<times> 'e read_state" where
  "read_resume k bp =
     (case (if bp_bufLen bp = 0 then bp_closeErr bp else None) of
        Some e \<Rightarrow> (bp, ReadError e)
      | None \<Rightarrow> read_now k bp)"

lemma fb_Read_short: "fb_Read k b = (b1, r) \<Longrightarrow> k \<noteq> length r \<Longrightarrow> fb_Len b1 = 0"
  by (auto simp: fb_Read_def fb_Len_def Let_def split: if_splits)


section \<open>Contents\<close>

definition unread :: "fixedBuffer \<Rightarrow> string" where
  "unread b = drop (fb_lastRead b) (fb_data b)"

definition contents :: "fixedBuffer list \<Rightarrow> string" where
  "contents bufs = concat (map unread bufs)"

definition slice_ok :: "fixedBuffer \<Rightarrow> bool" where
  "slice_ok b \<longleftrightarrow> fb_lastRead b \<le> length (fb_data b) \<and> length (fb_data b) \<le> fb_cap b \<and> minCap \<le> fb_cap b \<and> fb_cap b \<le> maxCap"

text \<open>All slices but the last hold less than the threshold.\<close>

definition pipe_ok :: "'e bytes_pipe \<Rightarrow> bool" where
  "pipe_ok bp \<longleftrightarrow>
     list_all slice_ok (bp_buf bp) \<and> bp_bufLen bp = int (length (contents (bp_buf bp))) \<and>
     int (length (contents (butlast (bp_buf bp)))) < blockThreshold"

lemma contents_simps [simp]:
  "contents [] = ''''" "contents (b # bs) = unread b @ contents bs" "contents (bs @ cs) = contents bs @ contents cs"
  by (simp_all add: contents_def)

lemma unread_new [simp]: "unread (getBuffer n) = ''''"
  by (simp add: unread_def getBuffer_def)

lemma slice_ok_new: "minCap \<le> n \<Longrightarrow> n \<le> maxCap \<Longrightarrow> slice_ok (getBuffer n)"
  by (simp add: slice_ok_def getBuffer_def)

lemma fb_Write_spec:
  assumes "slice_ok b"
  shows "slice_ok (fst (fb_Write p b))" "unread (fst (fb_Write p b)) = unread b @ take (snd (fb_Write p b)) p"
    "fb_cap (fst (fb_Write p b)) = fb_cap b" "snd (fb_Write p b) \<le> length p"
    "snd (fb_Write p b) = min (fb_cap b - length (fb_data b)) (length p)"
  using assms by (auto simp: fb_Write_def Let_def slice_ok_def unread_def)

lemma fb_Read_spec:
  assumes "slice_ok b" "fb_Read k b = (b1, r)"
  shows "slice_ok b1" "r = take k (unread b)" "unread b1 = drop k (unread b)" "fb_Len b1 = length (unread b1)"
  using assms by (auto simp: fb_Read_def Let_def slice_ok_def unread_def fb_Len_def min_def add.commute)

lemma next_cap_ok: "minCap \<le> c \<Longrightarrow> c \<le> maxCap \<Longrightarrow> minCap \<le> next_cap c \<and> next_cap c \<le> maxCap"
  by (auto simp: next_cap_def minCap_def maxCap_def)

section \<open>Reading\<close>

declare read_loop.simps [simp del]

lemma read_loop_spec:
  assumes "list_all slice_ok bufs" "len = int (length (contents bufs))"
  shows "\<exists>bufs'. read_loop k bufs len = (bufs', len - int (length (take k (contents bufs))), Some (take k (contents bufs))) \<and>
     list_all slice_ok bufs' \<and> contents bufs' = drop k (contents bufs) \<and>
     length (contents (butlast bufs')) \<le> length (contents (butlast bufs))"
  using assms
proof (induction bufs arbitrary: k len)
  case Nil
  then show ?case by (simp add: read_loop.simps)
next
  case (Cons b bs)
  obtain b1 r where R: "fb_Read k b = (b1, r)" by (cases "fb_Read k b")
  have ok: "slice_ok b" "list_all slice_ok bs" using Cons.prems(1) by auto
  note F = fb_Read_spec [OF ok(1) R]
  show ?case
  proof (cases "len \<le> 0")
    case True
    then have "length (contents (b # bs)) = 0" using Cons.prems(2) by linarith
    then have "contents (b # bs) = ''''" by (simp only: length_0_conv)
    then show ?thesis using True Cons.prems by (subst read_loop.simps) simp
  next
    case pos: False
    have bl: "contents (butlast (b # bs)) = (if bs = [] then '''' else unread b @ contents (butlast bs))" by simp
    show ?thesis
    proof (cases "k = length r")
      case True
      then have k: "k \<le> length (unread b)" "r = take k (unread b)" using F(2) by auto
      let ?bufs = "if fb_Len b1 = 0 then bs else b1 # bs"
      have "read_loop k (b # bs) len = (?bufs, len - int (length r), Some r)"
        by (subst read_loop.simps) (use pos R True in \<open>simp add: Let_def\<close>)
      moreover have "contents ?bufs = drop k (contents (b # bs))" using F(3,4) k(1) by auto
      moreover have "length (contents (butlast ?bufs)) \<le> length (contents (butlast (b # bs)))"
        unfolding bl using F(3) by (cases "bs = []") auto
      ultimately show ?thesis using k ok F(1) by (intro exI [of _ ?bufs]) simp
    next
      case False
      then have z: "fb_Len b1 = 0" using fb_Read_short [OF R] by simp
      have r: "r = unread b" "length (unread b) < k" using F(2) False by (cases "k \<le> length (unread b)"; simp)+
      have "len - int (length r) = int (length (contents bs))" using Cons.prems(2) r by simp
      from Cons.IH [OF ok(2) this, of "k - length r"] obtain bufs' where I:
        "read_loop (k - length r) bs (len - int (length r)) =
          (bufs', len - int (length r) - int (length (take (k - length r) (contents bs))), Some (take (k - length r) (contents bs)))"
        "list_all slice_ok bufs'" "contents bufs' = drop (k - length r) (contents bs)"
        "length (contents (butlast bufs')) \<le> length (contents (butlast bs))" by blast
      have "read_loop k (b # bs) len = (bufs', len - int (length r) - int (length (take (k - length r) (contents bs))),
          Some (r @ take (k - length r) (contents bs)))"
        by (subst read_loop.simps) (use pos R False z I(1) in \<open>simp add: Let_def\<close>)
      moreover have "length (contents (butlast bufs')) \<le> length (contents (butlast (b # bs)))"
        unfolding bl using I(4) by (cases "bs = []") auto
      ultimately show ?thesis using I r by (intro exI [of _ bufs']) simp
    qed
  qed
qed

lemma read_now_spec:
  assumes ok: "pipe_ok bp"
  shows "\<exists>bp'. read_now k bp = (bp', ReadBytes (take k (contents (bp_buf bp)))) \<and> pipe_ok bp' \<and>
     contents (bp_buf bp') = drop k (contents (bp_buf bp)) \<and> bp_closeErr bp' = bp_closeErr bp"
proof -
  have "list_all slice_ok (bp_buf bp)" "bp_bufLen bp = int (length (contents (bp_buf bp)))" using ok by (auto simp: pipe_ok_def)
  from read_loop_spec [OF this, of k] obtain bufs' where
    R: "read_loop k (bp_buf bp) (bp_bufLen bp) = (bufs', bp_bufLen bp - int (length (take k (contents (bp_buf bp)))),
        Some (take k (contents (bp_buf bp))))" "list_all slice_ok bufs'" "contents bufs' = drop k (contents (bp_buf bp))"
      "length (contents (butlast bufs')) \<le> length (contents (butlast (bp_buf bp)))" by blast
  then show ?thesis using ok by (intro exI [of _ "bp\<lparr>bp_buf := bufs', bp_bufLen := bp_bufLen bp - int (length (take k (contents (bp_buf bp))))\<rparr>"])
      (auto simp: read_now_def pipe_ok_def)
qed

section \<open>Writing\<close>

definition last_full :: "fixedBuffer list \<Rightarrow> bool" where
  "last_full bufs \<longleftrightarrow> bufs \<noteq> [] \<and> fb_cap (last bufs) \<le> length (fb_data (last bufs))"

definition write_result :: "string \<Rightarrow> nat \<Rightarrow> 'e bytes_pipe \<Rightarrow> 'e bytes_pipe \<Rightarrow> write_state \<Rightarrow> bool" where
  "write_result p w bp bp' res \<longleftrightarrow> bp_closeErr bp' = bp_closeErr bp \<and>
     (case res of
        Wrote n \<Rightarrow> n = w + length p \<and> contents (bp_buf bp') = contents (bp_buf bp) @ p \<and> bp_closeErr bp = None
      | WriteClosed n \<Rightarrow> n = w \<and> bp' = bp \<and> bp_closeErr bp \<noteq> None
      | WriteWaits rest n c \<Rightarrow> bp_closeErr bp = None \<and> (\<exists>q. p = q @ rest \<and> n = w + length q \<and> contents (bp_buf bp') = contents (bp_buf bp) @ q) \<and>
          rest \<noteq> '''' \<and> minCap \<le> c \<and> c \<le> maxCap \<and> blockThreshold \<le> bp_bufLen bp')"

lemma write_loop_ok:
  assumes "pipe_ok bp"
  shows "\<exists>bp' res. write_loop p w bp = Some (bp', res) \<and> pipe_ok bp' \<and> write_result p w bp bp' res"
  using assms
proof (induction "2 * length p + (if last_full (bp_buf bp) then 1 else 0)" arbitrary: p w bp rule: less_induct)
  case less
  show ?case
  proof (cases "bp_closeErr bp")
    case (Some e)
    then show ?thesis using less.prems by (subst write_loop.simps) (simp add: write_result_def)
  next
    case None
    define bufs where "bufs = (if length (bp_buf bp) = 0 then [getBuffer 64] else bp_buf bp)"
    obtain b n where W: "fb_Write p (last bufs) = (b, n)" by (cases "fb_Write p (last bufs)")
    have ne: "bufs \<noteq> []" by (simp add: bufs_def)
    have ok: "list_all slice_ok bufs" "contents bufs = contents (bp_buf bp)" "int (length (contents (butlast bufs))) < blockThreshold"
      using less.prems by (auto simp: bufs_def pipe_ok_def blockThreshold_def minCap_def maxCap_def intro!: slice_ok_new)
    have sl: "slice_ok (last bufs)" "list_all slice_ok (butlast bufs)"
      using ok(1) ne by (auto simp: list_all_iff dest: in_set_butlastD)
    note F = fb_Write_spec [OF sl(1), of p, unfolded W fst_conv snd_conv]
    define bp1 where "bp1 = bp\<lparr>bp_buf := butlast bufs @ [b], bp_bufLen := bp_bufLen bp + int n\<rparr>"
    have "contents bufs = contents (butlast bufs) @ unread (last bufs)"
      using ne by (metis append_Nil2 append_butlast_last_id contents_simps)
    then have c1: "contents (bp_buf bp1) = contents (bp_buf bp) @ take n p" using F(2) ok(2) by (simp add: bp1_def)
    have n: "length (take n p) = n" using F(4) by simp
    have ok1: "pipe_ok bp1"
      using less.prems sl(2) F(1) ok(3) c1 n by (simp add: pipe_ok_def bp1_def)
    have E: "write_loop p w bp = (if length p = n then Some (bp1, Wrote (w + n))
         else if bp_bufLen bp1 \<ge> blockThreshold then Some (bp1, WriteWaits (drop n p) (w + n) (fb_cap b))
         else write_loop (drop n p) (w + n) (bp1\<lparr>bp_buf := bp_buf bp1 @ [getBuffer (next_cap (fb_cap b))]\<rparr>))"
      unfolding write_loop.simps [of p w bp] Let_def bufs_def [symmetric] W prod.case bp1_def [symmetric] using None by simp
    have cl: "bp_closeErr bp1 = None" using None by (simp add: bp1_def)
    have cap: "minCap \<le> fb_cap b" "fb_cap b \<le> maxCap" using F(1) by (simp_all add: slice_ok_def)
    show ?thesis
    proof (cases "length p = n")
      case True
      then show ?thesis using E ok1 c1 cl None by (simp add: write_result_def)
    next
      case short: False
      then have np: "n < length p" using F(4) by simp
      show ?thesis
      proof (cases "bp_bufLen bp1 \<ge> blockThreshold")
        case True
        have "write_result p w bp bp1 (WriteWaits (drop n p) (w + n) (fb_cap b))"
          using cl None np n c1 cap True by (auto simp: write_result_def intro!: exI [of _ "take n p"])
        then show ?thesis using E short True ok1 by simp
      next
        case False
        let ?bp = "bp1\<lparr>bp_buf := bp_buf bp1 @ [getBuffer (next_cap (fb_cap b))]\<rparr>"
        have nc: "minCap \<le> next_cap (fb_cap b)" "next_cap (fb_cap b) \<le> maxCap" using next_cap_ok cap by blast+
        have "pipe_ok ?bp" using ok1 False slice_ok_new [OF nc] by (simp add: pipe_ok_def)
        moreover have "\<not> last_full (bp_buf ?bp)" using nc by (simp add: last_full_def getBuffer_def minCap_def)
        moreover have "n = 0 \<Longrightarrow> last_full (bp_buf bp)"
          using F(5) np sl(1) by (auto simp: last_full_def bufs_def slice_ok_def minCap_def getBuffer_def min_def split: if_splits)
        ultimately have m: "2 * length (drop n p) + (if last_full (bp_buf ?bp) then 1 else 0) < 2 * length p + (if last_full (bp_buf bp) then 1 else 0)"
          and okb: "pipe_ok ?bp" using np by (cases "n = 0"; simp)+
        from less.hyps [OF m okb, of "w + n"] obtain bp' res where
          R: "write_loop (drop n p) (w + n) ?bp = Some (bp', res)" "pipe_ok bp'" "write_result (drop n p) (w + n) ?bp bp' res" by blast
        have "write_result p w bp bp' res"
        proof (cases res)
          case (Wrote m)
          have "contents (bp_buf ?bp) @ drop n p = contents (bp_buf bp) @ p" using c1 by simp
          then show ?thesis using R(3) n None cl Wrote np by (simp add: write_result_def)
        next
          case (WriteClosed m)
          then show ?thesis using R(3) cl by (simp add: write_result_def)
        next
          case (WriteWaits rest m c)
          then obtain q where q: "drop n p = q @ rest" "m = w + n + length q" "contents (bp_buf bp') = contents (bp_buf ?bp) @ q"
            using R(3) by (auto simp: write_result_def)
          have "p = (take n p @ q) @ rest" using q(1) by (metis append.assoc append_take_drop_id)
          moreover have "contents (bp_buf bp') = contents (bp_buf bp) @ take n p @ q" using q(3) c1 by simp
          ultimately show ?thesis using R(3) WriteWaits n None q(2)
            by (auto simp: write_result_def bp1_def intro!: exI [of _ "take n p @ q"])
        qed
        then show ?thesis using E short False R by simp
      qed
    qed
  qed
qed


section \<open>Readers and writers\<close>

text \<open>
  Any number of goroutines read, write and close. A call that waits may be resumed at any time: every
  operation broadcasts. The logs have all bytes that writers have put in and readers taken out.
\<close>

record 'e pipe_world =
  pw_pipe :: "'e bytes_pipe"
  pw_writers :: "(string \<times> nat \<times> nat) list"
  pw_readers :: "nat list"
  pw_in :: string
  pw_out :: string

definition after_write :: "string \<Rightarrow> 'e bytes_pipe \<Rightarrow> write_state \<Rightarrow> 'e pipe_world \<Rightarrow> 'e pipe_world" where
  "after_write p bp res s =
     (case res of
        Wrote n \<Rightarrow> s\<lparr>pw_pipe := bp, pw_in := pw_in s @ p\<rparr>
      | WriteClosed n \<Rightarrow> s\<lparr>pw_pipe := bp\<rparr>
      | WriteWaits rest n c \<Rightarrow>
          s\<lparr>pw_pipe := bp, pw_in := pw_in s @ take (length p - length rest) p, pw_writers := pw_writers s @ [(rest, n, c)]\<rparr>)"

definition after_read :: "nat \<Rightarrow> 'e bytes_pipe \<Rightarrow> 'e read_state \<Rightarrow> 'e pipe_world \<Rightarrow> 'e pipe_world" where
  "after_read k bp res s =
     (case res of
        ReadBytes r \<Rightarrow> s\<lparr>pw_pipe := bp, pw_out := pw_out s @ r\<rparr>
      | ReadWaits \<Rightarrow> s\<lparr>pw_pipe := bp, pw_readers := pw_readers s @ [k]\<rparr>
      | _ \<Rightarrow> s\<lparr>pw_pipe := bp\<rparr>)"

inductive pipe_step :: "'e \<Rightarrow> 'e pipe_world \<Rightarrow> 'e pipe_world \<Rightarrow> bool" for eof :: 'e where
  writes: "bp_Write p (pw_pipe s) = Some (bp, res) \<Longrightarrow> pipe_step eof s (after_write p bp res s)"
| write_resumed: "pw_writers s = ws @ (p, n, c) # vs \<Longrightarrow> write_resume p n c (pw_pipe s) = Some (bp, res) \<Longrightarrow>
    pipe_step eof s (after_write p bp res (s\<lparr>pw_writers := ws @ vs\<rparr>))"
| reads: "bp_Read k (pw_pipe s) = (bp, res) \<Longrightarrow> pipe_step eof s (after_read k bp res s)"
| read_resumed: "pw_readers s = rs @ k # qs \<Longrightarrow> read_resume k (pw_pipe s) = (bp, res) \<Longrightarrow>
    pipe_step eof s (after_read k bp res (s\<lparr>pw_readers := rs @ qs\<rparr>))"
| closes: "pipe_step eof s (s\<lparr>pw_pipe := CloseWithError eof err (pw_pipe s)\<rparr>)"

inductive pipe_reach :: "'e \<Rightarrow> 'e pipe_world \<Rightarrow> bool" for eof :: 'e where
  start: "pipe_reach eof \<lparr>pw_pipe = NewBytesPipe, pw_writers = [], pw_readers = [], pw_in = '''', pw_out = ''''\<rparr>"
| step: "pipe_reach eof s \<Longrightarrow> pipe_step eof s s' \<Longrightarrow> pipe_reach eof s'"

definition world_ok :: "'e pipe_world \<Rightarrow> bool" where
  "world_ok s \<longleftrightarrow> pipe_ok (pw_pipe s) \<and> pw_in s = pw_out s @ contents (bp_buf (pw_pipe s)) \<and>
     (\<forall>(p, n, c) \<in> set (pw_writers s). minCap \<le> c \<and> c \<le> maxCap)"

lemma after_write_ok:
  assumes s: "world_ok s" and bp: "pipe_ok bp" and res: "write_result p w (pw_pipe s) bp res"
  shows "world_ok (after_write p bp res s)"
  using assms by (auto simp: world_ok_def after_write_def write_result_def split: write_state.splits)

lemma write_resume_ok:
  assumes ok: "pipe_ok bp" and c: "minCap \<le> c" "c \<le> maxCap"
  shows "\<exists>bp' res. write_resume p n c bp = Some (bp', res) \<and> pipe_ok bp' \<and>
     (write_result p n bp bp' res \<or> bp' = bp \<and> res = WriteWaits p n c)"
proof -
  consider "bp_closeErr bp \<noteq> None" | "bp_closeErr bp = None" "blockThreshold \<le> bp_bufLen bp"
    | "bp_closeErr bp = None" "bp_bufLen bp < blockThreshold" by fastforce
  then show ?thesis
  proof cases
    case 1
    then show ?thesis using write_loop_ok [OF ok, of p n] by (auto simp: write_resume_def)
  next
    case 2
    then show ?thesis using ok by (simp add: write_resume_def)
  next
    case 3
    let ?bp = "bp\<lparr>bp_buf := bp_buf bp @ [getBuffer (next_cap c)]\<rparr>"
    have nc: "minCap \<le> next_cap c" "next_cap c \<le> maxCap" using next_cap_ok c by blast+
    have "pipe_ok ?bp" using ok 3 slice_ok_new [OF nc] by (simp add: pipe_ok_def)
    from write_loop_ok [OF this, of p n] obtain bp' res where
      R: "write_loop p n ?bp = Some (bp', res)" "pipe_ok bp'" "write_result p n ?bp bp' res" by blast
    have "write_result p n bp bp' res" using R(3) 3 by (cases res) (auto simp: write_result_def)
    then show ?thesis using R 3 by (simp add: write_resume_def)
  qed
qed

lemma bp_Read_spec:
  assumes ok: "pipe_ok bp"
  shows "bp_Read k bp =
     (if contents (bp_buf bp) = '''' then (bp, case bp_closeErr bp of Some e \<Rightarrow> ReadError e | None \<Rightarrow> ReadWaits) else read_now k bp)"
  using ok by (auto simp: bp_Read_def pipe_ok_def split: option.split)

lemma read_now_world:
  assumes "world_ok s" "read_now k (pw_pipe s) = (bp, res)"
  shows "world_ok (after_read k bp res s)"
proof -
  have "pipe_ok (pw_pipe s)" using assms(1) by (simp add: world_ok_def)
  from read_now_spec [OF this, of k] assms(2) have R: "res = ReadBytes (take k (contents (bp_buf (pw_pipe s))))" "pipe_ok bp"
    "contents (bp_buf bp) = drop k (contents (bp_buf (pw_pipe s)))" by auto
  have "pw_in s = pw_out s @ contents (bp_buf (pw_pipe s))" "\<forall>(p, n, c) \<in> set (pw_writers s). minCap \<le> c \<and> c \<le> maxCap"
    using assms(1) by (simp_all add: world_ok_def)
  then show ?thesis by (simp add: world_ok_def after_read_def R)
qed

lemma pipe_step_ok: "pipe_step eof s s' \<Longrightarrow> world_ok s \<Longrightarrow> world_ok s'"
proof (induction rule: pipe_step.induct)
  case (writes p s bp res)
  then have ok: "pipe_ok (pw_pipe s)" by (simp add: world_ok_def)
  from write_loop_ok [OF ok, of p 0] writes show ?case by (auto simp: bp_Write_def intro: after_write_ok)
next
  case (write_resumed s ws p n c vs bp res)
  then have ok: "pipe_ok (pw_pipe s)" "minCap \<le> c" "c \<le> maxCap" and w: "world_ok (s\<lparr>pw_writers := ws @ vs\<rparr>)"
    by (auto simp: world_ok_def)
  from write_resume_ok [OF ok, of p n] write_resumed.hyps(2) have "pipe_ok bp"
    "write_result p n (pw_pipe s) bp res \<or> bp = pw_pipe s \<and> res = WriteWaits p n c" by auto
  then show ?case
  proof (elim disjE conjE)
    assume "write_result p n (pw_pipe s) bp res"
    then show ?thesis using after_write_ok [OF w \<open>pipe_ok bp\<close>] by simp
  next
    assume "bp = pw_pipe s" "res = WriteWaits p n c"
    then show ?thesis using w ok by (auto simp: world_ok_def after_write_def)
  qed
next
  case (reads k s bp res)
  then have ok: "pipe_ok (pw_pipe s)" by (simp add: world_ok_def)
  show ?case
  proof (cases "contents (bp_buf (pw_pipe s)) = ''''")
    case True
    then show ?thesis using reads bp_Read_spec [OF ok, of k] by (auto simp: world_ok_def after_read_def split: option.splits)
  next
    case False
    then show ?thesis using reads bp_Read_spec [OF ok, of k] read_now_world by simp
  qed
next
  case (read_resumed s rs k qs bp res)
  have w: "world_ok (s\<lparr>pw_readers := rs @ qs\<rparr>)" using read_resumed.prems by (simp add: world_ok_def)
  show ?case
  proof (cases "if bp_bufLen (pw_pipe s) = 0 then bp_closeErr (pw_pipe s) else None")
    case None
    then have "read_now k (pw_pipe s) = (bp, res)" using read_resumed.hyps(2) by (simp add: read_resume_def)
    then show ?thesis using read_now_world [OF w] by simp
  next
    case (Some e)
    then show ?thesis using read_resumed.hyps(2) w by (auto simp: read_resume_def world_ok_def after_read_def)
  qed
next
  case (closes s err)
  then show ?case by (simp add: world_ok_def CloseWithError_def pipe_ok_def)
qed

lemma new_pipe_ok: "pipe_ok NewBytesPipe"
  by (simp add: pipe_ok_def NewBytesPipe_def slice_ok_new minCap_def maxCap_def blockThreshold_def)

lemma pipe_reach_ok: "pipe_reach eof s \<Longrightarrow> world_ok s"
proof (induction rule: pipe_reach.induct)
  case start
  show ?case using new_pipe_ok by (simp add: world_ok_def) (simp add: NewBytesPipe_def)
next
  case (step s s')
  show ?case by (rule pipe_step_ok [OF step.hyps(2) step.IH])
qed

lemma contents_bound:
  assumes "pipe_ok bp"
  shows "length (contents (bp_buf bp)) < 2000000"
proof (cases "bp_buf bp" rule: rev_cases)
  case (snoc bs b)
  have "slice_ok b" using assms by (simp add: pipe_ok_def snoc)
  then have "length (unread b) \<le> maxCap" by (auto simp: slice_ok_def unread_def)
  then show ?thesis using assms by (simp add: pipe_ok_def snoc blockThreshold_def maxCap_def)
qed simp


section \<open>The pipe is a queue of bytes\<close>

lemma read_steps:
  assumes ok: "pipe_ok bp"
  shows "bp_Read k bp = (bp', r) \<Longrightarrow>
      contents (bp_buf bp') = drop k (contents (bp_buf bp)) \<and>
      r = (if contents (bp_buf bp) \<noteq> '''' then ReadBytes (take k (contents (bp_buf bp)))
           else case bp_closeErr bp of Some e \<Rightarrow> ReadError e | None \<Rightarrow> ReadWaits)"
    and "read_resume k bp = (bp', r) \<Longrightarrow>
      contents (bp_buf bp') = drop k (contents (bp_buf bp)) \<and>
      r = (if contents (bp_buf bp) \<noteq> '''' \<or> bp_closeErr bp = None then ReadBytes (take k (contents (bp_buf bp)))
           else ReadError (the (bp_closeErr bp)))"
proof -
  obtain bn where N: "read_now k bp = (bn, ReadBytes (take k (contents (bp_buf bp))))"
    "contents (bp_buf bn) = drop k (contents (bp_buf bp))" using read_now_spec [OF ok, of k] by blast
  have len: "bp_bufLen bp = int (length (contents (bp_buf bp)))" using ok by (simp add: pipe_ok_def)
  have z: "bp_bufLen bp = 0 \<longleftrightarrow> contents (bp_buf bp) = ''''" unfolding len by simp
  show "bp_Read k bp = (bp', r) \<Longrightarrow>
      contents (bp_buf bp') = drop k (contents (bp_buf bp)) \<and>
      r = (if contents (bp_buf bp) \<noteq> '''' then ReadBytes (take k (contents (bp_buf bp)))
           else case bp_closeErr bp of Some e \<Rightarrow> ReadError e | None \<Rightarrow> ReadWaits)"
    using N by (cases "contents (bp_buf bp) = ''''"; cases "bp_closeErr bp"; auto simp: bp_Read_def z)
  show "read_resume k bp = (bp', r) \<Longrightarrow>
      contents (bp_buf bp') = drop k (contents (bp_buf bp)) \<and>
      r = (if contents (bp_buf bp) \<noteq> '''' \<or> bp_closeErr bp = None then ReadBytes (take k (contents (bp_buf bp)))
           else ReadError (the (bp_closeErr bp)))"
    using N by (cases "contents (bp_buf bp) = ''''"; cases "bp_closeErr bp"; auto simp: read_resume_def z)
qed

lemma pipe_facts:
  assumes "pipe_reach eof s"
  shows "pw_in s = pw_out s @ contents (bp_buf (pw_pipe s))"
    and "bp_bufLen (pw_pipe s) = int (length (contents (bp_buf (pw_pipe s))))"
    and "bp_bufLen (pw_pipe s) < 2000000"
    and "\<forall>k bp r. bp_Read k (pw_pipe s) = (bp, r) \<longrightarrow>
      contents (bp_buf bp) = drop k (contents (bp_buf (pw_pipe s))) \<and>
      r = (if contents (bp_buf (pw_pipe s)) \<noteq> '''' then ReadBytes (take k (contents (bp_buf (pw_pipe s))))
           else case bp_closeErr (pw_pipe s) of Some e \<Rightarrow> ReadError e | None \<Rightarrow> ReadWaits)"
    and "\<forall>k bp r. read_resume k (pw_pipe s) = (bp, r) \<longrightarrow>
      contents (bp_buf bp) = drop k (contents (bp_buf (pw_pipe s))) \<and>
      r = (if contents (bp_buf (pw_pipe s)) \<noteq> '''' \<or> bp_closeErr (pw_pipe s) = None
           then ReadBytes (take k (contents (bp_buf (pw_pipe s)))) else ReadError (the (bp_closeErr (pw_pipe s))))"
    and "\<forall>p. \<exists>bp r. bp_Write p (pw_pipe s) = Some (bp, r) \<and> write_result p 0 (pw_pipe s) bp r"
proof -
  have w: "world_ok s" by (rule pipe_reach_ok [OF assms])
  then have ok: "pipe_ok (pw_pipe s)" by (simp add: world_ok_def)
  show "pw_in s = pw_out s @ contents (bp_buf (pw_pipe s))" using w by (simp add: world_ok_def)
  show len: "bp_bufLen (pw_pipe s) = int (length (contents (bp_buf (pw_pipe s))))" using ok by (simp add: pipe_ok_def)
  show "bp_bufLen (pw_pipe s) < 2000000" unfolding len using contents_bound [OF ok] by simp
  show "\<forall>k bp r. bp_Read k (pw_pipe s) = (bp, r) \<longrightarrow>
      contents (bp_buf bp) = drop k (contents (bp_buf (pw_pipe s))) \<and>
      r = (if contents (bp_buf (pw_pipe s)) \<noteq> '''' then ReadBytes (take k (contents (bp_buf (pw_pipe s))))
           else case bp_closeErr (pw_pipe s) of Some e \<Rightarrow> ReadError e | None \<Rightarrow> ReadWaits)"
    using read_steps(1) [OF ok] by blast
  show "\<forall>k bp r. read_resume k (pw_pipe s) = (bp, r) \<longrightarrow>
      contents (bp_buf bp) = drop k (contents (bp_buf (pw_pipe s))) \<and>
      r = (if contents (bp_buf (pw_pipe s)) \<noteq> '''' \<or> bp_closeErr (pw_pipe s) = None
           then ReadBytes (take k (contents (bp_buf (pw_pipe s)))) else ReadError (the (bp_closeErr (pw_pipe s))))"
    using read_steps(2) [OF ok] by blast
  show "\<forall>p. \<exists>bp r. bp_Write p (pw_pipe s) = Some (bp, r) \<and> write_result p 0 (pw_pipe s) bp r"
    unfolding bp_Write_def using write_loop_ok [OF ok] by blast
qed

text \<open>C38. In every state that any number of readers, writers and closers of a pipe can bring about, the bytes written so far are
  the bytes read so far followed by the bytes the pipe holds, whatever slices hold them; it holds less than 2,000,000 bytes.
  A read takes the next bytes, as many as it asks for or as there are, and reports the error of the close only when
  no byte is left; it never runs off the end of the slices. A write returns or waits: it returns only
  with all bytes written, or on a closed pipe. A read that was woken may return no byte and no error.\<close>

theorem bytes_pipe_fifo:
  assumes "pipe_reach eof s"
  shows "pw_in s = pw_out s @ contents (bp_buf (pw_pipe s)) \<and>
    bp_bufLen (pw_pipe s) = int (length (contents (bp_buf (pw_pipe s)))) \<and>
    bp_bufLen (pw_pipe s) < 2000000 \<and>
    (\<forall>k bp r. bp_Read k (pw_pipe s) = (bp, r) \<longrightarrow>
      contents (bp_buf bp) = drop k (contents (bp_buf (pw_pipe s))) \<and>
      r = (if contents (bp_buf (pw_pipe s)) \<noteq> '''' then ReadBytes (take k (contents (bp_buf (pw_pipe s))))
           else case bp_closeErr (pw_pipe s) of Some e \<Rightarrow> ReadError e | None \<Rightarrow> ReadWaits)) \<and>
    (\<forall>k bp r. read_resume k (pw_pipe s) = (bp, r) \<longrightarrow>
      contents (bp_buf bp) = drop k (contents (bp_buf (pw_pipe s))) \<and>
      r = (if contents (bp_buf (pw_pipe s)) \<noteq> '''' \<or> bp_closeErr (pw_pipe s) = None
           then ReadBytes (take k (contents (bp_buf (pw_pipe s)))) else ReadError (the (bp_closeErr (pw_pipe s))))) \<and>
    (\<forall>p. \<exists>bp r. bp_Write p (pw_pipe s) = Some (bp, r) \<and> write_result p 0 (pw_pipe s) bp r)"
  using pipe_facts [OF assms] by (intro conjI)

definition pipe_started :: "string pipe_world" where
  "pipe_started = \<lparr>pw_pipe = NewBytesPipe, pw_writers = [], pw_readers = [], pw_in = '''', pw_out = ''''\<rparr>"

definition pipe_wrote :: "string \<Rightarrow> string pipe_world" where
  "pipe_wrote p = (case the (bp_Write p NewBytesPipe) of (bp, r) \<Rightarrow> after_write p bp r pipe_started)"

definition pipe_after :: "string \<Rightarrow> nat \<Rightarrow> string pipe_world" where
  "pipe_after p k = (case bp_Read k (pw_pipe (pipe_wrote p)) of (bp, r) \<Rightarrow> after_read k bp r (pipe_wrote p))"

lemma bytes_pipe_fifo_witness:
  "pw_out (pipe_after ''hello'' 2) = ''he'' \<and> pw_in (pipe_after ''hello'' 2) = ''hello'' \<and>
   pw_in (pipe_after ''hello'' 2) = pw_out (pipe_after ''hello'' 2) @ contents (bp_buf (pw_pipe (pipe_after ''hello'' 2)))"
proof -
  have W: "bp_Write ''hello'' NewBytesPipe = Some (\<lparr>bp_buf = [\<lparr>fb_data = ''hello'', fb_cap = 64, fb_lastRead = 0\<rparr>], bp_bufLen = 5, bp_closeErr = None\<rparr>, Wrote 5)"
    by (simp add: bp_Write_def write_loop.simps NewBytesPipe_def fb_Write_def getBuffer_def minCap_def)
  have "pipe_reach ''EOF'' pipe_started" unfolding pipe_started_def by (rule pipe_reach.start)
  moreover have "pipe_step ''EOF'' pipe_started (pipe_wrote ''hello'')"
    unfolding pipe_wrote_def W option.sel prod.case by (rule pipe_step.writes) (simp add: pipe_started_def W)
  moreover have "pipe_step ''EOF'' (pipe_wrote ''hello'') (pipe_after ''hello'' 2)"
    unfolding pipe_after_def by (cases "bp_Read 2 (pw_pipe (pipe_wrote ''hello''))") (simp add: pipe_step.reads)
  ultimately have "pipe_reach ''EOF'' (pipe_after ''hello'' 2)" by (blast intro: pipe_reach.step)
  from bytes_pipe_fifo [OF this, THEN conjunct1] show ?thesis
    by (simp add: pipe_after_def pipe_wrote_def pipe_started_def W after_write_def after_read_def bp_Read_def read_now_def read_loop.simps fb_Read_def fb_Len_def Let_def contents_def unread_def)
qed

end
