(* ===== verification/StdCopy.thy ===== *)
theory StdCopy
  imports GoPrelude
begin

text \<open>
  The multiplexed stream of a container's output (pkg/stdcopy/stdcopy.go): the writer that puts each
  write into a frame, and the copy that takes the frames apart.

  Readers and writers are parameters, of which only the contract of \<^verbatim>\<open>io.Reader\<close> and \<^verbatim>\<open>io.Writer\<close> is
  used. Lengths are those of a 64-bit platform.
\<close>

section \<open>Frames\<close>

definition stdWriterPrefixLen :: nat where "stdWriterPrefixLen = 8"
definition startingBufLen :: nat where "startingBufLen = 32 * 1024 + stdWriterPrefixLen + 1"

text \<open>\<^verbatim>\<open>binary.BigEndian\<close>: the four bytes of the length modulo two to the 32.\<close>

definition put_uint32 :: "nat \<Rightarrow> string" where
  "put_uint32 n = [char_of (n div 16777216), char_of (n div 65536), char_of (n div 256), char_of n]"

definition uint32 :: "string \<Rightarrow> nat" where
  "uint32 s = of_char (s ! 0) * 16777216 + of_char (s ! 1) * 65536 + of_char (s ! 2) * 256 + of_char (s ! 3)"

definition frame_header :: "char \<Rightarrow> nat \<Rightarrow> string" where
  "frame_header t n = [t, CHR 0x00, CHR 0x00, CHR 0x00] @ put_uint32 n"

text \<open>
  \<open>wr\<close> writes to the stream underneath: the new state, the count and the error. A writer without a stream
  is \<open>None\<close>, and so is a write of \<^verbatim>\<open>nil\<close>.
\<close>

datatype 'e std_error = NotInstantiated | WriterFailed 'e

definition stdWriter_Write ::
  "(string \<Rightarrow> 'w \<Rightarrow> 'w \<times> nat \<times> 'e option) option \<Rightarrow> char \<Rightarrow> string option \<Rightarrow> 'w \<Rightarrow> 'w \<times> nat \<times> 'e std_error option" where
  "stdWriter_Write writer t p w =
     (case writer of
        None \<Rightarrow> (w, 0, Some NotInstantiated)
      | Some wr \<Rightarrow>
         (case p of
            None \<Rightarrow> (w, 0, None)
          | Some p \<Rightarrow>
             (case wr (frame_header t (length p) @ p) w of
                (w1, n, e) \<Rightarrow> (w1, n - stdWriterPrefixLen, map_option WriterFailed e))))"

section \<open>Taking the stream apart\<close>

text \<open>
  The two loops that read until a number of bytes is there: enough, the end of the stream, or another
  error. The buffer's bytes that were read are \<open>buf\<close>; there is room for \<open>bufLen\<close>.
\<close>

datatype 'e fill = Filled | FillEOF | FillError 'e

partial_function (option) fill_loop ::
  "'e \<Rightarrow> (nat \<Rightarrow> 's \<Rightarrow> string \<times> 'e option \<times> 's) \<Rightarrow> nat \<Rightarrow> nat \<Rightarrow> string \<Rightarrow> 's \<Rightarrow> (string \<times> 's \<times> 'e fill) option" where
  "fill_loop eof rd need bufLen buf src =
     (if length buf \<ge> need then Some (buf, src, Filled)
      else
       (let (d, er, src1) = rd (bufLen - length buf) src;
            buf1 = buf @ d
        in if er = Some eof then Some (buf1, src1, if length buf1 < need then FillEOF else Filled)
           else (case er of
                   Some e \<Rightarrow> Some (buf1, src1, FillError e)
                 | None \<Rightarrow> fill_loop eof rd need bufLen buf1 src1)))"

datatype std_out = ToStdout | ToStderr

definition stream_out :: "char \<Rightarrow> std_out option option" where
  "stream_out c =
     (if c = CHR 0x00 \<or> c = CHR 0x01 then Some (Some ToStdout)
      else if c = CHR 0x02 then Some (Some ToStderr)
      else if c = CHR 0x03 then Some None
      else None)"

datatype 'e copy_error =
    SourceFailed 'e
  | SinkFailed 'e
  | ShortWrite
  | UnrecognizedHeader char
  | DaemonError string

definition grow :: "nat \<Rightarrow> nat \<Rightarrow> nat" where
  "grow frameSize bufLen =
     (if frameSize + stdWriterPrefixLen > bufLen then bufLen + (frameSize + stdWriterPrefixLen - bufLen + 1) else bufLen)"

partial_function (option) copy_loop ::
  "'e \<Rightarrow> (nat \<Rightarrow> 's \<Rightarrow> string \<times> 'e option \<times> 's) \<Rightarrow> (std_out \<Rightarrow> string \<Rightarrow> 'w \<Rightarrow> 'w \<times> nat \<times> 'e option)
     \<Rightarrow> nat \<Rightarrow> string \<Rightarrow> 's \<Rightarrow> nat \<Rightarrow> 'w \<Rightarrow> ('w \<times> nat \<times> 'e copy_error option) option" where
  "copy_loop eof rd wr bufLen buf src written w =
     Option.bind (fill_loop eof rd stdWriterPrefixLen bufLen buf src) (\<lambda>(buf1, src1, f).
      (case f of
         FillEOF \<Rightarrow> Some (w, written, None)
       | FillError e \<Rightarrow> Some (w, 0, Some (SourceFailed e))
       | Filled \<Rightarrow>
        (case stream_out (buf1 ! 0) of
           None \<Rightarrow> Some (w, 0, Some (UnrecognizedHeader (buf1 ! 0)))
         | Some out \<Rightarrow>
           (let frameSize = uint32 (take 4 (drop 4 buf1));
                bufLen1 = grow frameSize bufLen
            in Option.bind (fill_loop eof rd (frameSize + stdWriterPrefixLen) bufLen1 buf1 src1) (\<lambda>(buf2, src2, f2).
             (case f2 of
                FillEOF \<Rightarrow> Some (w, written, None)
              | FillError e \<Rightarrow> Some (w, 0, Some (SourceFailed e))
              | Filled \<Rightarrow>
               (let payload = take frameSize (drop stdWriterPrefixLen buf2)
                in (case out of
                      None \<Rightarrow> Some (w, written, Some (DaemonError payload))
                    | Some out \<Rightarrow>
                       (case wr out payload w of
                          (w1, nw, Some e) \<Rightarrow> Some (w1, 0, Some (SinkFailed e))
                        | (w1, nw, None) \<Rightarrow>
                            if nw \<noteq> frameSize then Some (w1, 0, Some ShortWrite)
                            else copy_loop eof rd wr bufLen1 (drop (frameSize + stdWriterPrefixLen) buf2) src2
                                   (written + nw) w1)))))))))"

definition StdCopy ::
  "'e \<Rightarrow> (nat \<Rightarrow> 's \<Rightarrow> string \<times> 'e option \<times> 's) \<Rightarrow> (std_out \<Rightarrow> string \<Rightarrow> 'w \<Rightarrow> 'w \<times> nat \<times> 'e option)
     \<Rightarrow> 's \<Rightarrow> 'w \<Rightarrow> ('w \<times> nat \<times> 'e copy_error option) option" where
  "StdCopy eof rd wr src w = copy_loop eof rd wr startingBufLen '''' src 0 w"


section \<open>Readers\<close>

text \<open>
  What a reader delivers before the error \<open>e\<close>: it may return any part of what is left, also nothing, at
  each call, and the end of the stream together with the last bytes or after them. The bytes that come with another
  error do not count. After the end it reports the end again.
\<close>

coinductive ended :: "'e \<Rightarrow> (nat \<Rightarrow> 's \<Rightarrow> string \<times> 'e option \<times> 's) \<Rightarrow> 's \<Rightarrow> bool" for eof rd where
  "(\<And>m. m > 0 \<Longrightarrow> \<exists>s'. rd m s = ('''', Some eof, s') \<and> ended eof rd s') \<Longrightarrow> ended eof rd s"

inductive delivers :: "'e \<Rightarrow> (nat \<Rightarrow> 's \<Rightarrow> string \<times> 'e option \<times> 's) \<Rightarrow> 's \<Rightarrow> string \<Rightarrow> 'e \<Rightarrow> bool" for eof rd where
  "(\<And>m. m > 0 \<Longrightarrow> \<exists>d er s'. rd m s = (d, er, s') \<and> length d \<le> m \<and>
      (er = None \<and> (\<exists>bs'. bs = d @ bs' \<and> delivers eof rd s' bs' e) \<or>
       er = Some e \<and> e = eof \<and> bs = d \<and> ended eof rd s' \<or>
       er = Some e \<and> e \<noteq> eof \<and> bs = '''')) \<Longrightarrow> delivers eof rd s bs e"

lemma ended_delivers: "ended eof rd s \<Longrightarrow> delivers eof rd s '''' eof"
proof (rule delivers.intros)
  fix m :: nat
  assume "ended eof rd s" "m > 0"
  then obtain s' where "rd m s = ('''', Some eof, s')" "ended eof rd s'" by (cases rule: ended.cases) blast
  then show "\<exists>d er s'. rd m s = (d, er, s') \<and> length d \<le> m \<and>
      (er = None \<and> (\<exists>bs'. '''' = d @ bs' \<and> delivers eof rd s' bs' eof) \<or>
       er = Some eof \<and> eof = eof \<and> '''' = d \<and> ended eof rd s' \<or> er = Some eof \<and> eof \<noteq> eof \<and> '''' = '''')"
    by (intro exI [of _ "''''"] exI [of _ "Some eof"] exI [of _ s']) simp
qed

section \<open>The specification\<close>

text \<open>Taking apart the whole stream at once.\<close>

function demux ::
  "'e \<Rightarrow> (std_out \<Rightarrow> string \<Rightarrow> 'w \<Rightarrow> 'w \<times> nat \<times> 'e option) \<Rightarrow> 'e \<Rightarrow> string \<Rightarrow> nat \<Rightarrow> 'w \<Rightarrow> 'w \<times> nat \<times> 'e copy_error option" where
  "demux eof wr e bs written w =
     (let stop = (if e = eof then (w, written, None) else (w, 0, Some (SourceFailed e)))
      in if length bs < 8 then stop
         else (case stream_out (bs ! 0) of
                 None \<Rightarrow> (w, 0, Some (UnrecognizedHeader (bs ! 0)))
               | Some out \<Rightarrow>
                  (let n = uint32 (take 4 (drop 4 bs))
                   in if length bs < n + 8 then stop
                      else (case out of
                              None \<Rightarrow> (w, written, Some (DaemonError (take n (drop 8 bs))))
                            | Some out \<Rightarrow>
                               (case wr out (take n (drop 8 bs)) w of
                                  (w1, nw, Some x) \<Rightarrow> (w1, 0, Some (SinkFailed x))
                                | (w1, nw, None) \<Rightarrow>
                                    if nw \<noteq> n then (w1, 0, Some ShortWrite)
                                    else demux eof wr e (drop (n + 8) bs) (written + nw) w1)))))"
  by pat_completeness (simp only: prod.inject, (elim conjE, hypsubst, rule refl)?)
termination by (relation "measure (\<lambda>(_, _, _, bs, _). length bs)") simp_all

declare demux.simps [simp del] fill_loop.simps [simp del, code] copy_loop.simps [simp del, code]


text \<open>What filling the buffer from a reader that delivers \<open>rest\<close> results in.\<close>

definition filled ::
  "'e \<Rightarrow> (nat \<Rightarrow> 's \<Rightarrow> string \<times> 'e option \<times> 's) \<Rightarrow> nat \<Rightarrow> nat \<Rightarrow> 'e \<Rightarrow> string \<Rightarrow> string \<Rightarrow> (string \<times> 's \<times> 'e fill) option \<Rightarrow> bool" where
  "filled eof rd need bufLen e buf rest r \<longleftrightarrow>
     (\<exists>buf' src' f. r = Some (buf', src', f) \<and>
        (if length (buf @ rest) < need then f = (if e = eof then FillEOF else FillError e)
         else f = Filled \<and> need \<le> length buf' \<and> length buf' \<le> bufLen \<and>
           (\<exists>rest'. buf' @ rest' = buf @ rest \<and> delivers eof rd src' rest' e)))"

lemma filledI:
  assumes "\<not> length (buf @ rest) < need" "need \<le> length buf'" "length buf' \<le> bufLen" "buf' @ rest' = buf @ rest" "delivers eof rd src' rest' e"
  shows "filled eof rd need bufLen e buf rest (Some (buf', src', Filled))"
  using assms unfolding filled_def by auto

lemma filled_short:
  "length (buf @ rest) < need \<Longrightarrow> f = (if e = eof then FillEOF else FillError e) \<Longrightarrow>
     filled eof rd need bufLen e buf rest (Some (buf', src', f))"
  unfolding filled_def by simp

lemma filled_append: "filled eof rd need bufLen e (buf @ d) rest r = filled eof rd need bufLen e buf (d @ rest) r"
  by (simp only: filled_def append_assoc)

lemma fill_loop_spec:
  assumes "delivers eof rd src rest e"
  shows "length buf \<le> bufLen \<Longrightarrow> need \<le> bufLen \<Longrightarrow> filled eof rd need bufLen e buf rest (fill_loop eof rd need bufLen buf src)"
  using assms
proof (induction arbitrary: buf rule: delivers.induct)
  case (1 s bs e)
  show ?case
  proof (cases "length buf \<ge> need")
    case True
    have "delivers eof rd s bs e" by (rule delivers.intros, drule 1(1)) (elim exE conjE, intro exI conjI, assumption+, elim disjE; blast)
    then have "filled eof rd need bufLen e buf bs (Some (buf, s, Filled))" using True 1(2) by (intro filledI) simp_all
    then show ?thesis using True by (subst fill_loop.simps) simp
  next
    case short: False
    then have m: "bufLen - length buf > 0" using 1(3) by simp
    from 1(1) [OF this] obtain d er s' where R: "rd (bufLen - length buf) s = (d, er, s')" "length d \<le> bufLen - length buf"
      and C: "er = None \<and> (\<exists>bs'. bs = d @ bs' \<and> delivers eof rd s' bs' e \<and>
          (\<forall>buf. length buf \<le> bufLen \<longrightarrow> need \<le> bufLen \<longrightarrow> filled eof rd need bufLen e buf bs' (fill_loop eof rd need bufLen buf s'))) \<or>
        er = Some e \<and> e = eof \<and> bs = d \<and> ended eof rd s' \<or> er = Some e \<and> e \<noteq> eof \<and> bs = ''''"
      by (elim exE conjE) (rule that)
    have len: "length (buf @ d) \<le> bufLen" using R(2) m by simp
    from C show ?thesis
    proof (elim disjE conjE exE)
      fix bs'
      assume n: "er = None" "bs = d @ bs'"
        and IH: "\<forall>buf. length buf \<le> bufLen \<longrightarrow> need \<le> bufLen \<longrightarrow> filled eof rd need bufLen e buf bs' (fill_loop eof rd need bufLen buf s')"
      have "fill_loop eof rd need bufLen buf s = fill_loop eof rd need bufLen (buf @ d) s'"
        by (subst fill_loop.simps) (use short R n in simp)
      then show ?thesis using IH [rule_format, OF len 1(3)] n by (simp add: filled_append)
    next
      assume n: "er = Some e" "e = eof" "bs = d" "ended eof rd s'"
      have F: "fill_loop eof rd need bufLen buf s = Some (buf @ d, s', if length (buf @ d) < need then FillEOF else Filled)"
        by (subst fill_loop.simps) (use short R n in simp)
      show ?thesis
      proof (cases "length (buf @ d) < need")
        case True
        then show ?thesis unfolding F using n by (simp add: filled_short)
      next
        case False
        have "filled eof rd need bufLen e buf bs (Some (buf @ d, s', Filled))"
          by (rule filledI [where rest' = "''''"]) (use False len n ended_delivers [OF n(4)] in simp_all)
        then show ?thesis unfolding F using False by simp
      qed
    next
      assume n: "er = Some e" "e \<noteq> eof" "bs = ''''"
      have F: "fill_loop eof rd need bufLen buf s = Some (buf @ d, s', FillError e)"
        by (subst fill_loop.simps) (use short R n in simp)
      show ?thesis unfolding F using n short by (simp add: filled_short)
    qed
  qed
qed


section \<open>The copy takes apart what the reader delivers\<close>

lemma copy_loop_demux:
  assumes "delivers eof rd src rest e" "length buf \<le> bufLen" "8 \<le> bufLen"
  shows "copy_loop eof rd wr bufLen buf src written w = Some (demux eof wr e (buf @ rest) written w)"
  using assms
proof (induction "length (buf @ rest)" arbitrary: buf rest src bufLen written w rule: less_induct)
  case less
  let ?bs = "buf @ rest"
  have "filled eof rd stdWriterPrefixLen bufLen e buf rest (fill_loop eof rd stdWriterPrefixLen bufLen buf src)"
    using fill_loop_spec [OF less.prems(1,2), of stdWriterPrefixLen] less.prems(3) by (simp add: stdWriterPrefixLen_def)
  then obtain buf1 src1 f where F: "fill_loop eof rd stdWriterPrefixLen bufLen buf src = Some (buf1, src1, f)"
    and F': "if length ?bs < 8 then f = (if e = eof then FillEOF else FillError e)
       else f = Filled \<and> 8 \<le> length buf1 \<and> length buf1 \<le> bufLen \<and> (\<exists>rest'. buf1 @ rest' = ?bs \<and> delivers eof rd src1 rest' e)"
    unfolding filled_def stdWriterPrefixLen_def by blast
  show ?case
  proof (cases "length ?bs < 8")
    case True
    then show ?thesis using F F' by (subst copy_loop.simps, subst demux.simps) (simp add: Let_def split del: if_split, auto)
  next
    case long: False
    then obtain rest1 where f: "f = Filled" "8 \<le> length buf1" "length buf1 \<le> bufLen"
      and r1: "buf1 @ rest1 = ?bs" "delivers eof rd src1 rest1 e" using F' by auto
    define n where "n = uint32 (take 4 (drop 4 buf1))"
    have head: "buf1 ! 0 = ?bs ! 0" "take 4 (drop 4 buf1) = take 4 (drop 4 ?bs)"
      unfolding r1(1) [symmetric] using f(2) by (cases buf1; simp add: nth_append)+
    have g: "n + 8 \<le> grow n bufLen" "length buf1 \<le> grow n bufLen" "8 \<le> grow n bufLen"
      using f(3) less.prems(3) by (auto simp: grow_def stdWriterPrefixLen_def)
    have "filled eof rd (n + stdWriterPrefixLen) (grow n bufLen) e buf1 rest1
        (fill_loop eof rd (n + stdWriterPrefixLen) (grow n bufLen) buf1 src1)"
      using fill_loop_spec [OF r1(2) g(2)] g(1) by (simp add: stdWriterPrefixLen_def)
    then obtain buf2 src2 f2 where G: "fill_loop eof rd (n + stdWriterPrefixLen) (grow n bufLen) buf1 src1 = Some (buf2, src2, f2)"
      and G': "if length ?bs < n + 8 then f2 = (if e = eof then FillEOF else FillError e)
         else f2 = Filled \<and> n + 8 \<le> length buf2 \<and> length buf2 \<le> grow n bufLen \<and> (\<exists>rest'. buf2 @ rest' = ?bs \<and> delivers eof rd src2 rest' e)"
      unfolding filled_def r1(1) unfolding stdWriterPrefixLen_def by blast
    define st where "st = stream_out (?bs ! 0)"
    have D: "demux eof wr e ?bs written w = (case st of
        None \<Rightarrow> (w, 0, Some (UnrecognizedHeader (?bs ! 0)))
      | Some out \<Rightarrow> if length ?bs < n + 8 then (if e = eof then (w, written, None) else (w, 0, Some (SourceFailed e)))
          else (case out of
             None \<Rightarrow> (w, written, Some (DaemonError (take n (drop 8 ?bs))))
           | Some out \<Rightarrow> (case wr out (take n (drop 8 ?bs)) w of
                (w1, nw, Some x) \<Rightarrow> (w1, 0, Some (SinkFailed x))
              | (w1, nw, None) \<Rightarrow> if nw \<noteq> n then (w1, 0, Some ShortWrite)
                  else demux eof wr e (drop (n + 8) ?bs) (written + nw) w1)))"
      unfolding demux.simps [of eof wr e ?bs written w] Let_def st_def n_def head(2) if_not_P [OF long] by (rule refl)
    have C: "copy_loop eof rd wr bufLen buf src written w = (case st of
        None \<Rightarrow> Some (w, 0, Some (UnrecognizedHeader (?bs ! 0)))
      | Some out \<Rightarrow> (case f2 of
          FillEOF \<Rightarrow> Some (w, written, None)
        | FillError e \<Rightarrow> Some (w, 0, Some (SourceFailed e))
        | Filled \<Rightarrow> (case out of
             None \<Rightarrow> Some (w, written, Some (DaemonError (take n (drop 8 buf2))))
           | Some out \<Rightarrow> (case wr out (take n (drop 8 buf2)) w of
                (w1, nw, Some x) \<Rightarrow> Some (w1, 0, Some (SinkFailed x))
              | (w1, nw, None) \<Rightarrow> if nw \<noteq> n then Some (w1, 0, Some ShortWrite)
                  else copy_loop eof rd wr (grow n bufLen) (drop (n + 8) buf2) src2 (written + nw) w1))))"
      unfolding copy_loop.simps [of eof rd wr bufLen buf src written w] F Option.bind.simps prod.case f(1) fill.case Let_def
        n_def [symmetric] G head(1) st_def
      unfolding stdWriterPrefixLen_def by (rule refl)
    show ?thesis
    proof (cases "length ?bs < n + 8")
      case True
      then show ?thesis unfolding C D using G' by (simp split: option.split)
    next
      case False
      then obtain rest2 where f2: "f2 = Filled" "n + 8 \<le> length buf2" "length buf2 \<le> grow n bufLen"
        and r2: "buf2 @ rest2 = ?bs" "delivers eof rd src2 rest2 e" using G' by auto
      have t: "take n (drop 8 buf2) = take n (drop 8 ?bs)" "drop (n + 8) buf2 @ rest2 = drop (n + 8) ?bs"
        unfolding r2(1) [symmetric] using f2(2) by simp_all
      have "length (drop (n + 8) buf2 @ rest2) < length ?bs" unfolding t(2) using False by simp
      note IH = less.hyps [OF this r2(2) _ g(3)]
      have "copy_loop eof rd wr (grow n bufLen) (drop (n + 8) buf2) src2 (written + nw) w1 =
          Some (demux eof wr e (drop (n + 8) ?bs) (written + nw) w1)" for nw w1
        unfolding t(2) [symmetric] by (rule IH) (use f2(3) in simp)
      then show ?thesis unfolding C D f2(1) t(1) using False by (simp split: option.split prod.split)
    qed
  qed
qed


lemma StdCopy_demux:
  assumes "delivers eof rd src bs e"
  shows "StdCopy eof rd wr src w = Some (demux eof wr e bs 0 w)"
  using copy_loop_demux [OF assms, of "''''" startingBufLen wr 0 w]
  by (simp add: StdCopy_def startingBufLen_def stdWriterPrefixLen_def)

text \<open>
  C39. However the reader splits the stream, \<^verbatim>\<open>StdCopy\<close> returns, and does what taking apart all delivered bytes at once
  does: the same writes, the same count and the same error. Growing and moving the buffer loses and repeats nothing.
\<close>

theorem std_copy_equiv:
  assumes "delivers eof rd src bs e"
  shows "StdCopy eof rd wr src w = Some (demux eof wr e bs 0 w)"
  by (rule StdCopy_demux [OF assms])

text \<open>A reader of a string that returns as much as there is room for.\<close>

definition string_reader :: "'e \<Rightarrow> nat \<Rightarrow> string \<Rightarrow> string \<times> 'e option \<times> string" where
  "string_reader eof m s = (if length s = 0 then ('''', Some eof, s) else (take m s, None, drop m s))"

lemma string_reader_ended: "ended eof (string_reader eof) ''''"
  by (coinduction rule: ended.coinduct) (simp add: string_reader_def)

lemma string_reader_delivers: "delivers eof (string_reader eof) s s eof"
proof (induction s rule: length_induct)
  case (1 s)
  show ?case
  proof (rule delivers.intros)
    fix m :: nat
    assume m: "m > 0"
    show "\<exists>d er s'. string_reader eof m s = (d, er, s') \<and> length d \<le> m \<and>
      (er = None \<and> (\<exists>bs'. s = d @ bs' \<and> delivers eof (string_reader eof) s' bs' eof) \<or>
       er = Some eof \<and> eof = eof \<and> s = d \<and> ended eof (string_reader eof) s' \<or>
       er = Some eof \<and> eof \<noteq> eof \<and> s = '''')"
    proof (cases "length s = 0")
      case True
      then show ?thesis using string_reader_ended by (auto simp: string_reader_def)
    next
      case False
      then have "length (drop m s) < length s" using m by simp
      then have "delivers eof (string_reader eof) (drop m s) (drop m s) eof" using 1 by blast
      then show ?thesis using False
        by (simp add: string_reader_def) (rule exI [of _ "drop m s"], simp)
    qed
  qed
qed

section \<open>Writing and taking apart\<close>

definition append_stream :: "string \<Rightarrow> string \<Rightarrow> string \<times> nat \<times> unit option" where
  "append_stream b s = (s @ b, length b, None)"

definition muxed :: "(char \<times> string) list \<Rightarrow> string \<Rightarrow> string" where
  "muxed ws s = fold (\<lambda>(t, p) s. fst (stdWriter_Write (Some append_stream) t (Some p) s)) ws s"

definition std_frame :: "char \<Rightarrow> string \<Rightarrow> string" where
  "std_frame t p = frame_header t (length p) @ p"

definition sent_to :: "std_out \<Rightarrow> string \<Rightarrow> string \<times> string \<Rightarrow> string \<times> string" where
  "sent_to out p w = (case out of ToStdout \<Rightarrow> (fst w @ p, snd w) | ToStderr \<Rightarrow> (fst w, snd w @ p))"

definition write_outs :: "std_out \<Rightarrow> string \<Rightarrow> string \<times> string \<Rightarrow> (string \<times> string) \<times> nat \<times> 'e option" where
  "write_outs out p w = (sent_to out p w, length p, None)"

lemma stdWriter_Write_append: "stdWriter_Write (Some append_stream) t (Some p) s = (s @ std_frame t p, length p, None)"
  by (simp add: stdWriter_Write_def append_stream_def std_frame_def frame_header_def put_uint32_def stdWriterPrefixLen_def)

lemma muxed_frames: "muxed ws s = s @ concat (map (case_prod std_frame) ws)"
  by (induction ws arbitrary: s) (auto simp: muxed_def stdWriter_Write_append)

text \<open>The length of a write is kept modulo two to the 32 only.\<close>

lemma uint32_put: "uint32 (put_uint32 n) = n mod 2 ^ 32"
proof -
  have "n mod 4294967296 = (n div 16777216 mod 256) * 16777216 + n mod 16777216" "n mod 16777216 = (n div 65536 mod 256) * 65536 + n mod 65536"
    "n mod 65536 = (n div 256 mod 256) * 256 + n mod 256"
    using mod_mult2_eq [of n 16777216 256] mod_mult2_eq [of n 65536 256] mod_mult2_eq [of n 256 256] by simp_all
  then show ?thesis by (simp add: uint32_def put_uint32_def)
qed

lemma std_frame_parts:
  assumes "length p < 2 ^ 32"
  shows "(std_frame t p @ rest) ! 0 = t" "uint32 (take 4 (drop 4 (std_frame t p @ rest))) = length p"
    "drop 8 (std_frame t p @ rest) = p @ rest" "length (std_frame t p) = 8 + length p"
  using assms uint32_put [of "length p"] by (simp_all add: std_frame_def frame_header_def put_uint32_def)

lemma demux_frame:
  assumes "length p < 2 ^ 32" "stream_out t = Some (Some out)"
  shows "demux eof write_outs eof (std_frame t p @ rest) written w =
    demux eof write_outs eof rest (written + length p) (sent_to out p w)"
  using std_frame_parts(1-3) [OF assms(1), of t rest] std_frame_parts(4) [OF assms(1), of t] assms(2)
  by (subst demux.simps) (simp add: write_outs_def Let_def)

lemma demux_short:
  assumes "length p < 2 ^ 32" "stream_out t \<noteq> None" "k < 8 + length p"
  shows "demux eof wr eof (take k (std_frame t p)) written w = (w, written, None)"
proof (cases "k < 8")
  case True
  then have "length (take k (std_frame t p)) < 8" by simp
  then show ?thesis by (subst demux.simps) (simp only: Let_def if_True refl)
next
  case False
  note P = std_frame_parts(1-3) [OF assms(1), of t "''''", unfolded append_Nil2] std_frame_parts(4) [OF assms(1), of t]
  have "take 4 (drop 4 (take k (std_frame t p))) = take 4 (drop 4 (std_frame t p))" using False by (simp add: drop_take min_def)
  then have "uint32 (take 4 (drop 4 (take k (std_frame t p)))) = length p" "take k (std_frame t p) ! 0 = t"
    "length (take k (std_frame t p)) = k" using P False assms(3) by (simp_all add: min_def)
  note T = this
  show ?thesis unfolding demux.simps [of eof wr eof "take k (std_frame t p)" written w] T Let_def
    using assms(2,3) False by (auto split: option.split)
qed

lemma demux_frames:
  assumes "\<forall>(t, p) \<in> set ws. length p < 2 ^ 32 \<and> t \<in> {CHR 0x00, CHR 0x01, CHR 0x02}"
  shows "demux eof write_outs eof (concat (map (case_prod std_frame) ws) @ rest) written w =
    demux eof write_outs eof rest (written + length (concat (map snd ws)))
      (fst w @ concat (map snd (filter (\<lambda>(t, p). t \<noteq> CHR 0x02) ws)), snd w @ concat (map snd (filter (\<lambda>(t, p). t = CHR 0x02) ws)))"
  using assms
proof (induction ws arbitrary: written w)
  case (Cons x ws)
  obtain t p where x: "x = (t, p)" by fastforce
  have p: "length p < 2 ^ 32" "t \<in> {CHR 0x00, CHR 0x01, CHR 0x02}" using Cons.prems x by auto
  have out: "stream_out t = Some (Some (if t = CHR 0x02 then ToStderr else ToStdout))" using p(2) by (auto simp: stream_out_def)
  have "demux eof write_outs eof (concat (map (case_prod std_frame) (x # ws)) @ rest) written w =
      demux eof write_outs eof (concat (map (case_prod std_frame) ws) @ rest) (written + length p)
        (sent_to (if t = CHR 0x02 then ToStderr else ToStdout) p w)"
    unfolding x list.map concat.simps prod.case append_assoc by (rule demux_frame [OF p(1) out])
  also have "\<dots> = demux eof write_outs eof rest (written + length p + length (concat (map snd ws)))
      (fst (sent_to (if t = CHR 0x02 then ToStderr else ToStdout) p w) @ concat (map snd (filter (\<lambda>(t, p). t \<noteq> CHR 0x02) ws)),
       snd (sent_to (if t = CHR 0x02 then ToStderr else ToStdout) p w) @ concat (map snd (filter (\<lambda>(t, p). t = CHR 0x02) ws)))"
    by (rule Cons.IH) (use Cons.prems in simp)
  finally show ?case by (simp add: x sent_to_def add.assoc)
qed simp

text \<open>
  C40. What is written through writers of the two output streams to one connection is separated again: each stream gets the bytes
  written to it, in order, however the reader splits the connection. When the connection ends within a
  frame that frame is dropped, without an error. The writes must be shorter than 4 GiB, since a longer one is announced with
  a wrong length.
\<close>

theorem std_roundtrip:
  assumes "\<forall>(t, p) \<in> set ws. length p < 2 ^ 32 \<and> t \<in> {CHR 0x00, CHR 0x01, CHR 0x02}"
    and "length p < 2 ^ 32" "stream_out t \<noteq> None" "k < 8 + length p"
    and "delivers eof rd src (muxed ws '''' @ take k (std_frame t p)) eof"
  shows "StdCopy eof rd write_outs src ('''', '''') =
    Some ((concat (map snd (filter (\<lambda>(t, p). t \<noteq> CHR 0x02) ws)), concat (map snd (filter (\<lambda>(t, p). t = CHR 0x02) ws))),
          length (concat (map snd ws)), None)"
  unfolding StdCopy_demux [OF assms(5)] muxed_frames append_Nil demux_frames [OF assms(1)] demux_short [OF assms(2-4)] by simp

theorem std_copy_equiv_witness:
  "StdCopy () (string_reader ()) write_outs (std_frame (CHR 0x07) ''x'') ('''', '''') = Some (('''', ''''), 0, Some (UnrecognizedHeader (CHR 0x07)))"
  unfolding std_copy_equiv [OF string_reader_delivers]
  by (subst demux.simps) (simp add: std_frame_def frame_header_def put_uint32_def stream_out_def)

theorem std_roundtrip_witness:
  "StdCopy () (string_reader ()) write_outs (muxed [(CHR 0x01, ''out''), (CHR 0x02, ''err''), (CHR 0x01, ''!'')] '''' @ take 3 (std_frame (CHR 0x01) ''lost''))
     ('''', '''') = Some ((''out!'', ''err''), 7, None)"
  using std_roundtrip [where ws = "[(CHR 0x01, ''out''), (CHR 0x02, ''err''), (CHR 0x01, ''!'')]" and p = "''lost''" and t = "CHR 0x01" and k = 3 and eof = "()",
      OF _ _ _ _ string_reader_delivers]
  by (simp add: stream_out_def)

end
