(* ===== verification/VolumeStore.thy ===== *)
theory VolumeStore
  imports GoPrelude
begin

text \<open>
  The store of volumes (volume/store/store.go, db.go, restore.go, errors.go): which volumes are known, which
  containers refer to them, and the database that keeps their metadata.

  Drivers, plugins among them, and the database are outside the program; what their calls return, and what they
  change, is a parameter. An operation holds the lock of its volume's name from its start to its end
  and touches the entries of no other name, so it is one step. On Unix a name is its own normal form and
  every name is valid.
\<close>

section \<open>Volumes and drivers\<close>

type_synonym str_map = "(string, string) gomap"

text \<open>\<open>vol_wrap\<close>: labels, scope and options of a wrapped volume.\<close>

record volume =
  vol_Name :: string
  vol_DriverName :: string
  vol_wrap :: "(str_map \<times> string \<times> str_map) option"

record driver =
  dv_Name :: string
  dv_Scope :: string

text \<open>\<open>NetError\<close>: the driver could not be reached.\<close>

datatype driver_error = NetError | DriverFailed

text \<open>
  The three ways in which a name is taken: its driver could not be asked, its driver has the volume, and
  the volume is gone but containers refer to it.
\<close>

datatype name_conflict = Unchecked | OtherDriver string | StillReferenced

datatype volume_error =
    VolumeInUse
  | NoSuchVolume
  | NameConflict name_conflict
  | DriverError driver_error
  | DatabaseError
  | OpErr string string "string list" volume_error

text \<open>
  A driver is found by name (\<open>dr_lookup\<close>), counted (\<open>dr_acquire\<close>, \<open>dr_release\<close>) and asked; \<open>dr_write\<close> says whether the
  next change of the database succeeds. \<open>'w\<close> is the world they change.
\<close>

record 'w drivers =
  dr_lookup :: "string \<Rightarrow> 'w \<Rightarrow> driver_error + driver"
  dr_acquire :: "string \<Rightarrow> 'w \<Rightarrow> 'w \<times> (driver_error + driver)"
  dr_release :: "string \<Rightarrow> 'w \<Rightarrow> 'w \<times> (driver_error + driver)"
  dr_all :: "'w \<Rightarrow> driver_error + driver list"
  dr_get :: "string \<Rightarrow> string \<Rightarrow> 'w \<Rightarrow> 'w \<times> volume option \<times> driver_error option"
  dr_create :: "string \<Rightarrow> string \<Rightarrow> str_map \<Rightarrow> 'w \<Rightarrow> 'w \<times> (driver_error + volume)"
  dr_remove :: "string \<Rightarrow> volume \<Rightarrow> 'w \<Rightarrow> 'w \<times> driver_error option"
  dr_list :: "string \<Rightarrow> 'w \<Rightarrow> driver_error + volume list"
  dr_write :: "'w \<Rightarrow> 'w \<times> bool"

record volume_meta =
  vm_Name :: string
  vm_Driver :: string
  vm_Labels :: str_map
  vm_Options :: str_map

text \<open>An entry of the database that cannot be decoded is \<open>None\<close>.\<close>

record 'w volume_store =
  vs_names :: "(string, volume) gomap"
  vs_refs :: "(string, string goset) gomap"
  vs_labels :: "(string, str_map) gomap"
  vs_options :: "(string, str_map) gomap"
  vs_db :: "(string, volume_meta option) gomap"
  vs_world :: 'w

definition unwrapVolume :: "volume \<Rightarrow> volume" where
  "unwrapVolume v = v\<lparr>vol_wrap := None\<rparr>"

definition wrap_volume :: "volume \<Rightarrow> str_map \<Rightarrow> string \<Rightarrow> str_map \<Rightarrow> volume" where
  "wrap_volume v labels scope options = v\<lparr>vol_wrap := Some (labels, scope, options)\<rparr>"

section \<open>The maps\<close>

definition getNamed :: "string \<Rightarrow> 'w volume_store \<Rightarrow> volume option" where
  "getNamed name s = gm_get (vs_names s) name"

definition setNamed :: "volume \<Rightarrow> string \<Rightarrow> 'w volume_store \<Rightarrow> 'w volume_store" where
  "setNamed v ref s =
     (let s1 = s\<lparr>vs_names := gm_set (vol_Name v) v (vs_names s)\<rparr>
      in if length ref > 0 then s1\<lparr>vs_refs := gm_set (vol_Name v) (gs_add ref (gm_list (vs_refs s1) (vol_Name v))) (vs_refs s1)\<rparr> else s1)"

definition getRefs :: "string \<Rightarrow> 'w volume_store \<Rightarrow> string list" where
  "getRefs name s = gm_list (vs_refs s) name"

definition hasRef :: "string \<Rightarrow> 'w volume_store \<Rightarrow> bool" where
  "hasRef name s \<longleftrightarrow> length (gm_list (vs_refs s) name) > 0"

definition setMeta :: "'w drivers \<Rightarrow> string \<Rightarrow> volume_meta \<Rightarrow> 'w volume_store \<Rightarrow> 'w volume_store \<times> volume_error option" where
  "setMeta D name meta s =
     (case dr_write D (vs_world s) of
        (w, True) \<Rightarrow> (s\<lparr>vs_world := w, vs_db := gm_set name (Some meta) (vs_db s)\<rparr>, None)
      | (w, False) \<Rightarrow> (s\<lparr>vs_world := w\<rparr>, Some DatabaseError))"

definition getMeta :: "string \<Rightarrow> 'w volume_store \<Rightarrow> volume_error + volume_meta" where
  "getMeta name s =
     (case gm_get (vs_db s) name of
        None \<Rightarrow> Inr \<lparr>vm_Name = '''', vm_Driver = '''', vm_Labels = [], vm_Options = []\<rparr>
      | Some None \<Rightarrow> Inl DatabaseError
      | Some (Some meta) \<Rightarrow> Inr meta)"

definition removeMeta :: "'w drivers \<Rightarrow> string \<Rightarrow> 'w volume_store \<Rightarrow> 'w volume_store" where
  "removeMeta D name s =
     (case dr_write D (vs_world s) of
        (w, True) \<Rightarrow> s\<lparr>vs_world := w, vs_db := gm_del name (vs_db s)\<rparr>
      | (w, False) \<Rightarrow> s\<lparr>vs_world := w\<rparr>)"

definition Purge :: "'w drivers \<Rightarrow> string \<Rightarrow> 'w volume_store \<Rightarrow> 'w volume_store" where
  "Purge D name s =
     (let s1 = (case gm_get (vs_names s) name of
                  None \<Rightarrow> s
                | Some v \<Rightarrow> s\<lparr>vs_world := fst (dr_release D (vol_DriverName v) (vs_world s))\<rparr>);
          s2 = removeMeta D name s1
      in s2\<lparr>vs_names := gm_del name (vs_names s2), vs_refs := gm_del name (vs_refs s2),
            vs_labels := gm_del name (vs_labels s2), vs_options := gm_del name (vs_options s2)\<rparr>)"

section \<open>Looking up\<close>

definition lookupVolume ::
  "'w drivers \<Rightarrow> string \<Rightarrow> string \<Rightarrow> 'w volume_store \<Rightarrow> 'w volume_store \<times> (volume_error + volume option)" where
  "lookupVolume D driverName volumeName s =
     (case dr_lookup D driverName (vs_world s) of
        Inl e \<Rightarrow> (s, Inl (DriverError e))
      | Inr vd \<Rightarrow>
         (case dr_get D (dv_Name vd) volumeName (vs_world s) of
            (w, v, Some NetError) \<Rightarrow> (s\<lparr>vs_world := w\<rparr>, Inl (DriverError NetError))
          | (w, v, _) \<Rightarrow> (s\<lparr>vs_world := w\<rparr>, Inr v)))"

definition volumeExists :: "'w drivers \<Rightarrow> volume \<Rightarrow> 'w volume_store \<Rightarrow> 'w volume_store \<times> (volume_error + bool)" where
  "volumeExists D v s =
     (case lookupVolume D (vol_DriverName v) (vol_Name v) s of
        (s1, Inl e) \<Rightarrow> (s1, Inl e)
      | (s1, Inr v) \<Rightarrow> (s1, Inr (v \<noteq> None)))"

text \<open>The drivers are asked one after the other for a volume no driver is known of.\<close>

fun probe_drivers ::
  "'w drivers \<Rightarrow> driver list \<Rightarrow> string \<Rightarrow> 'w volume_store \<Rightarrow> 'w volume_store \<times> (driver \<times> volume) option" where
  "probe_drivers D [] name s = (s, None)"
| "probe_drivers D (d # ds) name s =
     (case dr_get D (dv_Name d) name (vs_world s) of
        (w, Some v, None) \<Rightarrow> (s\<lparr>vs_world := w\<rparr>, Some (d, v))
      | (w, _, _) \<Rightarrow> probe_drivers D ds name (s\<lparr>vs_world := w\<rparr>))"

definition getVolume :: "'w drivers \<Rightarrow> string \<Rightarrow> 'w volume_store \<Rightarrow> 'w volume_store \<times> (volume_error + volume)" where
  "getVolume D name s =
     (case getMeta name s of
        Inl e \<Rightarrow> (s, Inl e)
      | Inr meta0 \<Rightarrow>
         (let meta = (if vm_Driver meta0 = ''''
                      then (case gm_get (vs_names s) name of None \<Rightarrow> meta0 | Some v \<Rightarrow> meta0\<lparr>vm_Driver := vol_DriverName v\<rparr>)
                      else meta0);
              (s1, e) = (if vm_Driver meta0 = '''' \<and> gm_get (vs_names s) name \<noteq> None then setMeta D name meta s else (s, None))
          in (case e of
                Some e \<Rightarrow> (s1, Inl e)
              | None \<Rightarrow>
                  if vm_Driver meta \<noteq> ''''
                  then (case lookupVolume D (vm_Driver meta) name s1 of
                          (s2, Inl e) \<Rightarrow> (s2, Inl e)
                        | (s2, Inr None) \<Rightarrow> (Purge D name s2, Inl NoSuchVolume)
                        | (s2, Inr (Some v)) \<Rightarrow>
                            (let scope = (case dr_lookup D (vm_Driver meta) (vs_world s2) of Inl e \<Rightarrow> '''' | Inr vd \<Rightarrow> dv_Scope vd)
                             in (s2, Inr (wrap_volume v (vm_Labels meta) scope (vm_Options meta)))))
                  else (case dr_all D (vs_world s1) of
                          Inl e \<Rightarrow> (s1, Inl (DriverError e))
                        | Inr ds \<Rightarrow>
                            (case probe_drivers D ds name s1 of
                               (s2, None) \<Rightarrow> (s2, Inl NoSuchVolume)
                             | (s2, Some (d, v)) \<Rightarrow>
                                 (case setMeta D name (meta\<lparr>vm_Driver := vol_DriverName v\<rparr>) s2 of
                                    (s3, Some e) \<Rightarrow> (s3, Inl e)
                                  | (s3, None) \<Rightarrow> (s3, Inr (wrap_volume v (vm_Labels meta) (dv_Scope d) (vm_Options meta)))))))))"

definition vs_Get :: "'w drivers \<Rightarrow> string \<Rightarrow> 'w volume_store \<Rightarrow> 'w volume_store \<times> (volume_error + volume)" where
  "vs_Get D name s =
     (case getVolume D name s of
        (s1, Inl e) \<Rightarrow> (s1, Inl (OpErr ''get'' name [] e))
      | (s1, Inr v) \<Rightarrow> (setNamed v '''' s1, Inr v))"

definition GetWithRef :: "'w drivers \<Rightarrow> string \<Rightarrow> string \<Rightarrow> string \<Rightarrow> 'w volume_store \<Rightarrow> 'w volume_store \<times> (volume_error + volume)" where
  "GetWithRef D name driverName ref s =
     (case dr_lookup D driverName (vs_world s) of
        Inl e \<Rightarrow> (s, Inl (OpErr ''get'' name [] (DriverError e)))
      | Inr vd \<Rightarrow>
         (case dr_get D (dv_Name vd) name (vs_world s) of
            (w, v, Some e) \<Rightarrow> (s\<lparr>vs_world := w\<rparr>, Inl (OpErr ''get'' name [] (DriverError e)))
          | (w, None, None) \<Rightarrow> (s\<lparr>vs_world := w\<rparr>, Inl (OpErr ''get'' name [] (DriverError DriverFailed)))
          | (w, Some v, None) \<Rightarrow>
              (let s1 = setNamed v ref (s\<lparr>vs_world := w\<rparr>)
               in (s1, Inr (wrap_volume v (gm_list (vs_labels s1) name) (dv_Scope vd) (gm_list (vs_options s1) name))))))"

text \<open>A driver that returns neither a volume nor an error would make the code dereference nil; here it counts as failed.\<close>

section \<open>Creating\<close>

definition checkConflict ::
  "'w drivers \<Rightarrow> string \<Rightarrow> string \<Rightarrow> 'w volume_store \<Rightarrow> 'w volume_store \<times> (volume_error + volume option)" where
  "checkConflict D name driverName s =
     (case getNamed name s of
        None \<Rightarrow> (s, Inr None)
      | Some v \<Rightarrow>
         (case (if driverName = '''' then Inr False
                else (case dr_lookup D driverName (vs_world s) of
                        Inl e \<Rightarrow> Inl e
                      | Inr vd \<Rightarrow> Inr (vol_DriverName v \<noteq> dv_Name vd))) of
            Inl e \<Rightarrow> (s, Inl (DriverError e))
          | Inr conflict \<Rightarrow>
             (case volumeExists D v s of
                (s1, Inl e) \<Rightarrow> (s1, Inl (NameConflict Unchecked))
              | (s1, Inr True) \<Rightarrow> (s1, if conflict then Inl (NameConflict (OtherDriver (vol_DriverName v))) else Inr (Some v))
              | (s1, Inr False) \<Rightarrow>
                  if hasRef (vol_Name v) s1 then (s1, Inl (NameConflict StillReferenced))
                  else (Purge D name s1, Inr None))))"

definition create_new ::
  "'w drivers \<Rightarrow> string \<Rightarrow> string \<Rightarrow> str_map \<Rightarrow> str_map \<Rightarrow> 'w volume_store \<Rightarrow> 'w volume_store \<times> (volume_error + volume)" where
  "create_new D name driverName opts labels s =
     (case dr_acquire D driverName (vs_world s) of
        (w, Inl e) \<Rightarrow> (s\<lparr>vs_world := w\<rparr>, Inl (OpErr ''create'' name [] (DriverError e)))
      | (w, Inr vd) \<Rightarrow>
         (case dr_get D (dv_Name vd) name w of
            (w1, Some v, _) \<Rightarrow> (s\<lparr>vs_world := w1\<rparr>, Inr v)
          | (w1, None, _) \<Rightarrow>
             (case dr_create D (dv_Name vd) name opts w1 of
                (w2, Inl e) \<Rightarrow> (s\<lparr>vs_world := w2\<rparr>, Inl (DriverError e))
              | (w2, Inr v) \<Rightarrow>
                 (case setMeta D name \<lparr>vm_Name = name, vm_Driver = dv_Name vd, vm_Labels = labels, vm_Options = opts\<rparr>
                         (s\<lparr>vs_world := w2, vs_labels := gm_set name labels (vs_labels s),
                            vs_options := gm_set name opts (vs_options s), vs_refs := gm_set name [] (vs_refs s)\<rparr>) of
                    (s1, Some e) \<Rightarrow> (s1, Inl e)
                  | (s1, None) \<Rightarrow> (s1, Inr (wrap_volume v labels (dv_Scope vd) opts))))))"

definition vs_create ::
  "'w drivers \<Rightarrow> string \<Rightarrow> string \<Rightarrow> str_map \<Rightarrow> str_map \<Rightarrow> 'w volume_store \<Rightarrow> 'w volume_store \<times> (volume_error + volume)" where
  "vs_create D name driverName opts labels s =
     (case checkConflict D name driverName s of
        (s1, Inl e) \<Rightarrow> (s1, Inl e)
      | (s1, Inr (Some v)) \<Rightarrow> (s1, Inr v)
      | (s1, Inr None) \<Rightarrow>
          if driverName = ''''
          then (case getVolume D name s1 of
                  (s2, Inr v) \<Rightarrow> (s2, Inr v)
                | (s2, Inl e) \<Rightarrow> create_new D name driverName opts labels s2)
          else create_new D name driverName opts labels s1)"

definition is_OpErr :: "volume_error \<Rightarrow> bool" where
  "is_OpErr e = (case e of OpErr _ _ _ _ \<Rightarrow> True | _ \<Rightarrow> False)"

definition CreateWithRef ::
  "'w drivers \<Rightarrow> string \<Rightarrow> string \<Rightarrow> string \<Rightarrow> str_map \<Rightarrow> str_map \<Rightarrow> 'w volume_store \<Rightarrow> 'w volume_store \<times> (volume_error + volume)" where
  "CreateWithRef D name driverName ref opts labels s =
     (case vs_create D name driverName opts labels s of
        (s1, Inl e) \<Rightarrow> (s1, Inl (if is_OpErr e then e else OpErr ''create'' name [] e))
      | (s1, Inr v) \<Rightarrow> (setNamed v ref s1, Inr v))"

definition vs_Create where
  "vs_Create D name driverName opts labels s = CreateWithRef D name driverName '''' opts labels s"

section \<open>Removing and listing\<close>

definition vs_Remove :: "'w drivers \<Rightarrow> volume \<Rightarrow> 'w volume_store \<Rightarrow> 'w volume_store \<times> volume_error option" where
  "vs_Remove D v s =
     (let name = vol_Name v
      in if hasRef name s then (s, Some (OpErr ''remove'' (vol_Name v) (getRefs name s) VolumeInUse))
         else
          (case dr_lookup D (vol_DriverName v) (vs_world s) of
             Inl e \<Rightarrow> (s, Some (OpErr ''remove'' (vol_DriverName v) [] (DriverError e)))
           | Inr vd \<Rightarrow>
              (case dr_remove D (dv_Name vd) (unwrapVolume v) (vs_world s) of
                 (w, Some e) \<Rightarrow> (s\<lparr>vs_world := w\<rparr>, Some (OpErr ''remove'' name [] (DriverError e)))
               | (w, None) \<Rightarrow> (Purge D name (s\<lparr>vs_world := w\<rparr>), None))))"

definition Dereference :: "volume \<Rightarrow> string \<Rightarrow> 'w volume_store \<Rightarrow> 'w volume_store" where
  "Dereference v ref s =
     (case gm_get (vs_refs s) (vol_Name v) of
        None \<Rightarrow> s
      | Some refs \<Rightarrow> s\<lparr>vs_refs := gm_set (vol_Name v) (gs_del ref refs) (vs_refs s)\<rparr>)"

definition vs_Refs :: "volume \<Rightarrow> 'w volume_store \<Rightarrow> string list" where
  "vs_Refs v s = getRefs (vol_Name v) s"

text \<open>The volumes of each driver in turn, and the cached ones of the drivers that failed.\<close>

definition list_driver :: "'w drivers \<Rightarrow> 'w volume_store \<Rightarrow> driver \<Rightarrow> driver_error + volume list" where
  "list_driver D s d =
     (case dr_list D (dv_Name d) (vs_world s) of
        Inl e \<Rightarrow> Inl e
      | Inr vs \<Rightarrow> Inr (map (\<lambda>v. wrap_volume v (gm_list (vs_labels s) (vol_Name v)) (dv_Scope d) (gm_list (vs_options s) (vol_Name v))) vs))"

definition vs_list :: "'w drivers \<Rightarrow> 'w volume_store \<Rightarrow> volume_error + volume list \<times> string list" where
  "vs_list D s =
     (case dr_all D (vs_world s) of
        Inl e \<Rightarrow> Inl (DriverError e)
      | Inr ds \<Rightarrow>
         (let bad = map dv_Name (filter (\<lambda>d. \<not> is_ok (list_driver D s d)) ds);
              ls = concat (map (\<lambda>d. case list_driver D s d of Inl e \<Rightarrow> [] | Inr vs \<Rightarrow> vs) ds);
              cached = (if length bad > 0 then filter (\<lambda>v. vol_DriverName v \<in> set bad) (map snd (vs_names s)) else [])
          in Inr (ls @ cached, bad)))"

definition vs_List :: "'w drivers \<Rightarrow> 'w volume_store \<Rightarrow> volume_error + volume list \<times> string list" where
  "vs_List D s =
     (case vs_list D s of
        Inl e \<Rightarrow> Inl (OpErr ''list'' '''' [] e)
      | Inr (vols, warnings) \<Rightarrow>
          Inr (filter (\<lambda>v. case getNamed (vol_Name v) s of None \<Rightarrow> True | Some st \<Rightarrow> vol_DriverName st = vol_DriverName v) vols, warnings))"

definition FilterByDriver :: "'w drivers \<Rightarrow> string \<Rightarrow> 'w volume_store \<Rightarrow> volume_error + volume list" where
  "FilterByDriver D name s =
     (case dr_lookup D name (vs_world s) of
        Inl e \<Rightarrow> Inl (OpErr ''list'' name [] (DriverError e))
      | Inr vd \<Rightarrow>
         (case list_driver D s vd of
            Inl e \<Rightarrow> Inl (OpErr ''list'' name [] (DriverError e))
          | Inr vs \<Rightarrow> Inr vs))"

definition FilterByUsed :: "volume list \<Rightarrow> bool \<Rightarrow> 'w volume_store \<Rightarrow> volume list" where
  "FilterByUsed vols used s = filter (\<lambda>v. used = hasRef (vol_Name v) s) vols"

text \<open>The text of an error of the store; \<open>txt\<close> gives the text of the errors it wraps.\<close>

fun vs_error_string :: "(volume_error \<Rightarrow> string) \<Rightarrow> volume_error \<Rightarrow> string" where
  "vs_error_string txt (OpErr op name refs e) =
     op @ (if name \<noteq> '''' then '' '' @ name else '''') @ '': '' @ vs_error_string txt e @
     (if length refs > 0 then '' - ['' @ join_with '', '' refs @ '']'' else '''')"
| "vs_error_string txt e = txt e"

definition error_cause :: "volume_error \<Rightarrow> volume_error" where
  "error_cause e = (case e of OpErr _ _ _ e' \<Rightarrow> e' | _ \<Rightarrow> e)"

definition IsInUse :: "volume_error \<Rightarrow> bool" where "IsInUse e \<longleftrightarrow> error_cause e = VolumeInUse"
definition IsNotExist :: "volume_error \<Rightarrow> bool" where "IsNotExist e \<longleftrightarrow> error_cause e = NoSuchVolume"
definition IsNameConflict :: "volume_error \<Rightarrow> bool" where
  "IsNameConflict e = (case error_cause e of NameConflict _ \<Rightarrow> True | _ \<Rightarrow> False)"

section \<open>Loading\<close>

text \<open>The goroutines that restore the entries run one after the other here; they touch different names.\<close>

definition listMeta :: "'w volume_store \<Rightarrow> volume_meta list" where
  "listMeta s = concat (map (\<lambda>(k, m). case m of None \<Rightarrow> [] | Some m \<Rightarrow> [m]) (vs_db s))"

definition restore_cached :: "'w drivers \<Rightarrow> volume_meta \<Rightarrow> volume \<Rightarrow> 'w volume_store \<Rightarrow> 'w volume_store" where
  "restore_cached D meta v s =
     s\<lparr>vs_world := fst (dr_acquire D (vm_Driver meta) (vs_world s)),
       vs_options := gm_set (vol_Name v) (vm_Options meta) (vs_options s),
       vs_labels := gm_set (vol_Name v) (vm_Labels meta) (vs_labels s),
       vs_names := gm_set (vol_Name v) v (vs_names s)\<rparr>"

text \<open>The second component: the entry is to be removed.\<close>

definition restore_one :: "'w drivers \<Rightarrow> volume_meta \<Rightarrow> 'w volume_store \<Rightarrow> 'w volume_store \<times> bool" where
  "restore_one D meta s =
     (if vm_Driver meta \<noteq> ''''
      then (case lookupVolume D (vm_Driver meta) (vm_Name meta) s of
              (s1, Inl e) \<Rightarrow> (s1, False)
            | (s1, Inr None) \<Rightarrow> (s1, True)
            | (s1, Inr (Some v)) \<Rightarrow> (restore_cached D meta v s1, False))
      else (case getVolume D (vm_Name meta) s of
              (s1, Inl e) \<Rightarrow> (s1, e = NoSuchVolume)
            | (s1, Inr v) \<Rightarrow>
                (let meta1 = meta\<lparr>vm_Driver := vol_DriverName v\<rparr>;
                     s2 = fst (setMeta D (vol_Name v) meta1 s1)
                 in (restore_cached D meta1 v s2, False))))"

fun restore_all :: "'w drivers \<Rightarrow> volume_meta list \<Rightarrow> 'w volume_store \<Rightarrow> 'w volume_store \<times> string list" where
  "restore_all D [] s = (s, [])"
| "restore_all D (m # ms) s =
     (let (s1, remove) = restore_one D m s;
          (s2, rest) = restore_all D ms s1
      in (s2, if remove then vm_Name m # rest else rest))"

definition vs_restore :: "'w drivers \<Rightarrow> 'w volume_store \<Rightarrow> 'w volume_store" where
  "vs_restore D s =
     (case restore_all D (listMeta s) s of
        (s1, []) \<Rightarrow> s1
      | (s1, names) \<Rightarrow>
         (case dr_write D (vs_world s1) of
            (w, True) \<Rightarrow> s1\<lparr>vs_world := w, vs_db := fold gm_del names (vs_db s1)\<rparr>
          | (w, False) \<Rightarrow> s1\<lparr>vs_world := w\<rparr>))"

definition NewVolumeStore :: "'w drivers \<Rightarrow> (string, volume_meta option) gomap \<Rightarrow> 'w \<Rightarrow> 'w volume_store" where
  "NewVolumeStore D db w = vs_restore D \<lparr>vs_names = [], vs_refs = [], vs_labels = [], vs_options = [], vs_db = db, vs_world = w\<rparr>"


section \<open>Removing for a client\<close>

text \<open>
  The daemon looks the volume up, removes it and then purges its name once more, in three steps with the lock of the name
  free between them; here they follow each other. The second component of the error: it is reported as a conflict.
\<close>

definition volumeRm :: "'w drivers \<Rightarrow> string \<Rightarrow> 'w volume_store \<Rightarrow> 'w volume_store \<times> volume_error option" where
  "volumeRm D name s =
     (case vs_Get D name s of
        (s1, Inl e) \<Rightarrow> (s1, Some e)
      | (s1, Inr v) \<Rightarrow> vs_Remove D v s1)"

definition VolumeRm :: "'w drivers \<Rightarrow> string \<Rightarrow> bool \<Rightarrow> 'w volume_store \<Rightarrow> 'w volume_store \<times> (volume_error \<times> bool) option" where
  "VolumeRm D name force s =
     (case volumeRm D name s of
        (s1, None) \<Rightarrow> (Purge D name s1, None)
      | (s1, Some e) \<Rightarrow>
          if IsInUse e then (s1, Some (e, True))
          else if force then (Purge D name s1, None)
          else (s1, Some (e, False)))"

end
