(* ===== verification/VolumeProps.thy ===== *)
theory VolumeProps
  imports VolumeStore
begin

text \<open>
  What the store of volumes promises: references are kept until somebody gives them up, a volume in use is not
  removed, creating gives the volume of the name or says why not, and loading finds the volumes again.
\<close>

section \<open>What an operation touches\<close>

text \<open>A driver returns a volume under the name that was asked for, and names itself.\<close>

definition good_volume :: "string \<Rightarrow> volume \<Rightarrow> bool" where
  "good_volume name v \<longleftrightarrow> vol_Name v = name \<and> vol_DriverName v \<noteq> []"

lemma good_wrap [simp]: "good_volume n (wrap_volume v a b c) = good_volume n v"
  by (simp add: good_volume_def wrap_volume_def)

definition drivers_named :: "'w drivers \<Rightarrow> bool" where
  "drivers_named D \<longleftrightarrow>
     (\<forall>d n w w' v e. dr_get D d n w = (w', Some v, e) \<longrightarrow> good_volume n v) \<and>
     (\<forall>d n opts w w' v. dr_create D d n opts w = (w', Inr v) \<longrightarrow> good_volume n v) \<and>
     (\<forall>d w w' vd. dr_acquire D d w = (w', Inr vd) \<longrightarrow> dv_Name vd \<noteq> '''')"

lemma drivers_namedD:
  assumes "drivers_named D"
  shows "dr_get D d n w = (w', Some v, e) \<Longrightarrow> good_volume n v" "dr_create D d n opts w = (w', Inr v) \<Longrightarrow> good_volume n v"
    "dr_acquire D d w = (w', Inr vd) \<Longrightarrow> dv_Name vd \<noteq> ''''"
  using assms unfolding drivers_named_def by blast+

definition same_maps :: "'w volume_store \<Rightarrow> 'w volume_store \<Rightarrow> bool" where
  "same_maps s s' \<longleftrightarrow> vs_names s' = vs_names s \<and> vs_refs s' = vs_refs s \<and> vs_labels s' = vs_labels s \<and> vs_options s' = vs_options s"

definition forgot :: "string \<Rightarrow> 'w volume_store \<Rightarrow> 'w volume_store \<Rightarrow> bool" where
  "forgot name s s' \<longleftrightarrow>
     vs_names s' = gm_del name (vs_names s) \<and> vs_refs s' = gm_del name (vs_refs s) \<and>
     vs_labels s' = gm_del name (vs_labels s) \<and> vs_options s' = gm_del name (vs_options s)"

text \<open>Every known volume is known under its name, and a volume with references is known.\<close>

definition vs_inv :: "'w volume_store \<Rightarrow> bool" where
  "vs_inv s \<longleftrightarrow>
     (\<forall>name v. getNamed name s = Some v \<longrightarrow> good_volume name v) \<and>
     (\<forall>name. hasRef name s \<longrightarrow> getNamed name s \<noteq> None)"

lemma same_maps_refl [simp]: "same_maps s s"
  by (simp add: same_maps_def)

lemma same_maps_trans: "same_maps s t \<Longrightarrow> same_maps t u \<Longrightarrow> same_maps s u"
  by (simp add: same_maps_def)

lemma same_maps_views:
  assumes "same_maps s s'"
  shows "getNamed n s' = getNamed n s" "getRefs n s' = getRefs n s" "hasRef n s' = hasRef n s" "vs_inv s' = vs_inv s"
  using assms by (simp_all add: same_maps_def getNamed_def getRefs_def hasRef_def vs_inv_def)

lemma forgot_views:
  assumes "forgot name s s'"
  shows "getNamed n s' = (if n = name then None else getNamed n s)"
    "getRefs n s' = (if n = name then [] else getRefs n s)"
    "hasRef n s' = (n \<noteq> name \<and> hasRef n s)"
  using assms by (simp_all add: forgot_def getNamed_def getRefs_def hasRef_def)

lemma forgot_inv: "forgot name s s' \<Longrightarrow> vs_inv s \<Longrightarrow> vs_inv s'"
  by (simp add: vs_inv_def forgot_views)

lemma forgot_same: "same_maps s t \<Longrightarrow> forgot name t u \<Longrightarrow> forgot name s u"
  by (simp add: same_maps_def forgot_def)

lemma hasRef_getRefs: "hasRef n s \<longleftrightarrow> getRefs n s \<noteq> []"
  by (simp add: hasRef_def getRefs_def)

lemma vs_invD:
  assumes "vs_inv s"
  shows "getNamed n s = Some v \<Longrightarrow> good_volume n v" "getNamed n s = None \<Longrightarrow> getRefs n s = []"
  using assms by (auto simp: vs_inv_def hasRef_getRefs)

lemma setMeta_same: "setMeta D name m s = (s', e) \<Longrightarrow> same_maps s s'"
  by (auto simp: setMeta_def same_maps_def split: prod.splits bool.splits)

lemma removeMeta_same: "same_maps s (removeMeta D name s)"
  by (auto simp: removeMeta_def same_maps_def split: prod.splits bool.splits)

lemma Purge_forgot: "forgot name s (Purge D name s)"
  by (auto simp: Purge_def removeMeta_def forgot_def Let_def split: prod.splits bool.splits option.splits)

lemma lookupVolume_same: "lookupVolume D d n s = (s', r) \<Longrightarrow> same_maps s s'"
  by (auto simp: lookupVolume_def same_maps_def split: sum.splits prod.splits option.splits driver_error.splits)

lemma lookupVolume_named: "drivers_named D \<Longrightarrow> lookupVolume D d n s = (s', Inr (Some v)) \<Longrightarrow> good_volume n v"
  unfolding lookupVolume_def
  by (auto split: sum.splits prod.splits option.splits driver_error.splits dest: drivers_namedD(1))

lemma probe_same: "probe_drivers D ds n s = (s', r) \<Longrightarrow> same_maps s s'"
proof (induction ds arbitrary: s)
  case (Cons d ds)
  obtain w v e where g: "dr_get D (dv_Name d) n (vs_world s) = (w, v, e)" by (cases "dr_get D (dv_Name d) n (vs_world s)") auto
  have w: "same_maps s (s\<lparr>vs_world := w\<rparr>)" by (simp add: same_maps_def)
  show ?case
  proof (cases "v \<noteq> None \<and> e = None")
    case True
    then show ?thesis using Cons.prems g w by auto
  next
    case False
    then have "probe_drivers D ds n (s\<lparr>vs_world := w\<rparr>) = (s', r)" using Cons.prems g by (auto split: option.splits)
    then show ?thesis by (rule same_maps_trans [OF w Cons.IH])
  qed
qed simp

lemma probe_named: "drivers_named D \<Longrightarrow> probe_drivers D ds n s = (s', Some (d, v)) \<Longrightarrow> good_volume n v"
proof (induction ds arbitrary: s)
  case (Cons d' ds)
  obtain w v' e where g: "dr_get D (dv_Name d') n (vs_world s) = (w, v', e)" by (cases "dr_get D (dv_Name d') n (vs_world s)") auto
  show ?case
  proof (cases "v' \<noteq> None \<and> e = None")
    case True
    then have "dr_get D (dv_Name d') n (vs_world s) = (w, Some v, None)" using Cons.prems(2) g by auto
    then show ?thesis by (rule drivers_namedD(1) [OF Cons.prems(1)])
  next
    case False
    then have "probe_drivers D ds n (s\<lparr>vs_world := w\<rparr>) = (s', Some (d, v))" using Cons.prems g by (auto split: option.splits)
    then show ?thesis by (rule Cons.IH [OF Cons.prems(1)])
  qed
qed simp


text \<open>Looking a volume up finds it under its name, or forgets it because its driver has no such volume, or fails.\<close>

lemma getVolume_outcome:
  assumes D: "drivers_named D" and inv: "vs_inv s" and run: "getVolume D n s = (s', r)"
  obtains (found) v where "r = Inr v" "good_volume n v" "same_maps s s'"
    | (failed) e where "r = Inl e" "same_maps s s'" "e = NoSuchVolume \<Longrightarrow> getNamed n s = None"
    | (gone) "r = Inl NoSuchVolume" "forgot n s s'"
proof (cases "getMeta n s")
  case (Inl e)
  then have "r = Inl e" "s' = s" using run by (simp_all add: getVolume_def)
  moreover have "e = DatabaseError" using Inl by (auto simp: getMeta_def split: option.splits)
  ultimately show ?thesis using that(2) by simp
next
  case (Inr meta0)
  define meta where "meta = (if vm_Driver meta0 = ''''
    then (case gm_get (vs_names s) n of None \<Rightarrow> meta0 | Some v \<Rightarrow> meta0\<lparr>vm_Driver := vol_DriverName v\<rparr>) else meta0)"
  obtain s1 e where se: "(if vm_Driver meta0 = '''' \<and> gm_get (vs_names s) n \<noteq> None then setMeta D n meta s else (s, None)) = (s1, e)"
    by fastforce
  have s1: "same_maps s s1" using se setMeta_same by (auto split: if_splits)
  note step = run [unfolded getVolume_def Inr sum.case Let_def, folded meta_def, unfolded se prod.case]
  show ?thesis
  proof (cases e)
    case (Some x)
    then have "r = Inl x" "s' = s1" using step by simp_all
    moreover have "x = DatabaseError" using se Some by (auto simp: setMeta_def split: if_splits prod.splits bool.splits)
    ultimately show ?thesis using s1 that(2) by simp
  next
    case None
    show ?thesis
    proof (cases "vm_Driver meta = ''''")
      case False
      obtain s2 l where l: "lookupVolume D (vm_Driver meta) n s1 = (s2, l)" by fastforce
      have s2: "same_maps s s2" by (rule same_maps_trans [OF s1 lookupVolume_same [OF l]])
      show ?thesis
      proof (cases l)
        case (Inl x)
        then have "r = Inl x" "s' = s2" using step None False l by simp_all
        moreover have "x \<noteq> NoSuchVolume"
          using l Inl by (auto simp: lookupVolume_def split: sum.splits prod.splits option.splits driver_error.splits)
        ultimately show ?thesis using s2 that(2) by simp
      next
        case (Inr o1)
        show ?thesis
        proof (cases o1)
          case None
          then have "r = Inl NoSuchVolume" "s' = Purge D n s2" using step \<open>e = None\<close> False l Inr by auto
          then show ?thesis using that(3) forgot_same [OF s2 Purge_forgot] by simp
        next
          case (Some v)
          have "good_volume n v" using lookupVolume_named [OF D] l Inr Some by blast
          moreover obtain a b c where "r = Inr (wrap_volume v a b c)" "s' = s2" using step \<open>e = None\<close> False l Inr Some by auto
          ultimately show ?thesis using s2 that(1) by simp
        qed
      qed
    next
      case True
      show ?thesis
      proof (cases "dr_all D (vs_world s1)")
        case (Inl x)
        then have "r = Inl (DriverError x)" "s' = s1" using step None True by simp_all
        then show ?thesis using s1 that(2) by simp
      next
        case (Inr ds)
        obtain s2 p where p: "probe_drivers D ds n s1 = (s2, p)" by fastforce
        have s2: "same_maps s s2" by (rule same_maps_trans [OF s1 probe_same [OF p]])
        show ?thesis
        proof (cases p)
          case None
          then have "r = Inl NoSuchVolume" "s' = s2" using step \<open>e = None\<close> True Inr p by simp_all
          moreover have "getNamed n s = None"
            using True vs_invD(1) [OF inv, of n] unfolding meta_def
            by (auto simp: getNamed_def good_volume_def split: if_splits option.splits)
          ultimately show ?thesis using s2 that(2) by simp
        next
          case (Some dv)
          obtain d v where dv: "dv = (d, v)" by fastforce
          have name: "good_volume n v" using probe_named [OF D] p Some dv by blast
          obtain s3 e3 where m: "setMeta D n (meta\<lparr>vm_Driver := vol_DriverName v\<rparr>) s2 = (s3, e3)" by fastforce
          have s3: "same_maps s s3" by (rule same_maps_trans [OF s2 setMeta_same [OF m]])
          show ?thesis
          proof (cases e3)
            case None
            then have "r = Inr (wrap_volume v (vm_Labels meta) (dv_Scope d) (vm_Options meta))" "s' = s3"
              using step \<open>e = None\<close> True Inr p Some dv m by simp_all
            then show ?thesis using s3 name that(1) by simp
          next
            case e3: (Some x)
            then have "r = Inl x" "s' = s3" using step \<open>e = None\<close> True Inr p Some dv m by simp_all
            moreover have "x = DatabaseError" using m e3 by (auto simp: setMeta_def split: prod.splits bool.splits)
            ultimately show ?thesis using s3 that(2) by simp
          qed
        qed
      qed
    qed
  qed
qed

lemma volumeExists_same: "volumeExists D v s = (s', r) \<Longrightarrow> same_maps s s'"
  unfolding volumeExists_def
  by (cases "lookupVolume D (vol_DriverName v) (vol_Name v) s") (auto split: sum.splits dest: lookupVolume_same)

lemma checkConflict_outcome:
  assumes inv: "vs_inv s" and run: "checkConflict D n d s = (s', r)"
  obtains (known) v where "r = Inr (Some v)" "getNamed n s = Some v" "same_maps s s'"
    | (failed) e where "r = Inl e" "getNamed n s \<noteq> None" "same_maps s s'"
    | (unknown) "r = Inr None" "getNamed n s = None" "s' = s"
    | (stale) v where "r = Inr None" "getNamed n s = Some v" "\<not> hasRef n s" "forgot n s s'"
proof (cases "getNamed n s")
  case None
  then have "r = Inr None" "s' = s" using run by (simp_all add: checkConflict_def)
  then show ?thesis using None that(3) by simp
next
  case (Some v)
  have name: "vol_Name v = n" using vs_invD(1) [OF inv Some] by (simp add: good_volume_def)
  obtain s1 x where x: "volumeExists D v s = (s1, x)" by fastforce
  have s1: "same_maps s s1" by (rule volumeExists_same [OF x])
  define c where "c = (if d = '''' then Inr False
     else (case dr_lookup D d (vs_world s) of Inl e \<Rightarrow> Inl e | Inr vd \<Rightarrow> Inr (vol_DriverName v \<noteq> dv_Name vd)))"
  note step = run [unfolded checkConflict_def Some option.case, folded c_def, unfolded x prod.case]
  show ?thesis
  proof (cases c)
    case (Inl e)
    then have "r = Inl (DriverError e)" "s' = s" using step by simp_all
    then show ?thesis using Some that(2) by simp
  next
    case (Inr b)
    consider (e) e where "x = Inl e" | (t) "x = Inr True" | (f) "x = Inr False" by (metis (full_types) sum.exhaust)
    then show ?thesis
    proof cases
      case e
      then have "r = Inl (NameConflict Unchecked)" "s' = s1" using step Inr by simp_all
      then show ?thesis using Some s1 that(2) by simp
    next
      case t
      then have "r = (if b then Inl (NameConflict (OtherDriver (vol_DriverName v))) else Inr (Some v))" "s' = s1"
        using step Inr by simp_all
      then show ?thesis using Some s1 that(1,2) by (cases b) simp_all
    next
      case f
      show ?thesis
      proof (cases "hasRef n s")
        case True
        then have "hasRef (vol_Name v) s1" by (simp add: name same_maps_views(3) [OF s1])
        then have "r = Inl (NameConflict StillReferenced)" "s' = s1" using step Inr f by simp_all
        then show ?thesis using Some s1 that(2) by simp
      next
        case False
        then have h: "\<not> hasRef (vol_Name v) s1" by (simp add: name same_maps_views(3) [OF s1])
        then have "r = Inr None" "s' = Purge D n s1" using step Inr f by auto
        then show ?thesis using that(4) Some False forgot_same [OF s1 Purge_forgot] by simp
      qed
    qed
  qed
qed


section \<open>Creating\<close>

lemma create_new_outcome:
  assumes D: "drivers_named D" and run: "create_new D n d opts labels s = (s', r)"
  obtains (failed) e where "r = Inl e" "same_maps s s'"
    | (found) v where "r = Inr v" "good_volume n v" "same_maps s s'"
    | (unsaved) e where "r = Inl e" "same_maps (s\<lparr>vs_labels := gm_set n labels (vs_labels s), vs_options := gm_set n opts (vs_options s), vs_refs := gm_set n [] (vs_refs s)\<rparr>) s'"
    | (created) v scope where "r = Inr (wrap_volume v labels scope opts)" "good_volume n v"
        "same_maps (s\<lparr>vs_labels := gm_set n labels (vs_labels s), vs_options := gm_set n opts (vs_options s), vs_refs := gm_set n [] (vs_refs s)\<rparr>) s'"
proof -
  obtain w a where a: "dr_acquire D d (vs_world s) = (w, a)" by fastforce
  show ?thesis
  proof (cases a)
    case (Inl e)
    then have "r = Inl (OpErr ''create'' n [] (DriverError e))" "s' = s\<lparr>vs_world := w\<rparr>"
      using run a by (simp_all add: create_new_def)
    then show ?thesis using that(1) by (simp add: same_maps_def)
  next
    case (Inr vd)
    obtain w1 g e1 where g: "dr_get D (dv_Name vd) n w = (w1, g, e1)" by (cases "dr_get D (dv_Name vd) n w") auto
    show ?thesis
    proof (cases g)
      case (Some v)
      then have "r = Inr v" "s' = s\<lparr>vs_world := w1\<rparr>" using run a Inr g by (simp_all add: create_new_def)
      moreover have "good_volume n v" using drivers_namedD(1) [OF D] g Some by blast
      ultimately show ?thesis using that(2) by (simp add: same_maps_def)
    next
      case None
      obtain w2 c where c: "dr_create D (dv_Name vd) n opts w1 = (w2, c)" by fastforce
      note step = run [unfolded create_new_def a prod.case Inr sum.case g None option.case c]
      show ?thesis
      proof (cases c)
        case (Inl e)
        then have "r = Inl (DriverError e)" "s' = s\<lparr>vs_world := w2\<rparr>" using step by simp_all
        then show ?thesis using that(1) by (simp add: same_maps_def)
      next
        case c': (Inr v)
        have name: "good_volume n v" using drivers_namedD(2) [OF D] c c' by blast
        obtain s1 e where m: "setMeta D n \<lparr>vm_Name = n, vm_Driver = dv_Name vd, vm_Labels = labels, vm_Options = opts\<rparr>
            (s\<lparr>vs_world := w2, vs_labels := gm_set n labels (vs_labels s),
               vs_options := gm_set n opts (vs_options s), vs_refs := gm_set n [] (vs_refs s)\<rparr>) = (s1, e)" by fastforce
        note step' = step [unfolded c' sum.case m prod.case]
        have s1: "same_maps (s\<lparr>vs_labels := gm_set n labels (vs_labels s), vs_options := gm_set n opts (vs_options s),
            vs_refs := gm_set n [] (vs_refs s)\<rparr>) s1"
          using setMeta_same [OF m] by (simp add: same_maps_def)
        show ?thesis
        proof (cases e)
          case None
          then have "r = Inr (wrap_volume v labels (dv_Scope vd) opts)" "s' = s1" using step' by simp_all
          then show ?thesis using name s1 that(4) by simp
        next
          case (Some x)
          then have "r = Inl x" "s' = s1" using step' by simp_all
          then show ?thesis using s1 that(3) by simp
        qed
      qed
    qed
  qed
qed

text \<open>
  Creating keeps every reference and the other names, and the entry of a name with references; it answers with a volume
  of the name.
\<close>

definition keeps_refs_of :: "string \<Rightarrow> 'w volume_store \<Rightarrow> 'w volume_store \<Rightarrow> bool" where
  "keeps_refs_of n s s' \<longleftrightarrow>
     (\<forall>m. getRefs m s' = getRefs m s) \<and> (\<forall>m. m \<noteq> n \<or> hasRef n s \<longrightarrow> getNamed m s' = getNamed m s) \<and>
     (getNamed n s' = None \<or> getNamed n s' = getNamed n s)"

lemma keeps_same: "same_maps s s' \<Longrightarrow> keeps_refs_of n s s'"
  by (simp add: keeps_refs_of_def same_maps_views)

lemma keeps_forgot: "forgot n s s' \<Longrightarrow> getRefs n s = [] \<Longrightarrow> keeps_refs_of n s s'"
  by (simp add: keeps_refs_of_def forgot_views hasRef_getRefs)

lemma keeps_trans: "keeps_refs_of n s t \<Longrightarrow> keeps_refs_of n t u \<Longrightarrow> keeps_refs_of n s u"
  by (auto simp: keeps_refs_of_def hasRef_getRefs)

lemma create_new_keeps:
  assumes D: "drivers_named D" and run: "create_new D n d opts labels s = (s', r)" and free: "getRefs n s = []"
  shows "keeps_refs_of n s s' \<and> (\<forall>v. r = Inr v \<longrightarrow> good_volume n v)"
  using D run
proof (cases rule: create_new_outcome)
  case (failed e)
  then show ?thesis by (simp add: keeps_same)
next
  case (found v)
  then show ?thesis by (simp add: keeps_same)
next
  case (unsaved e)
  then show ?thesis using free by (simp add: keeps_refs_of_def same_maps_def getRefs_def getNamed_def hasRef_def)
next
  case (created v scope)
  then show ?thesis using free by (simp add: keeps_refs_of_def same_maps_def getRefs_def getNamed_def hasRef_def)
qed

lemma create_rest_keeps:
  assumes D: "drivers_named D" and inv: "vs_inv s" and free: "getRefs n s = []"
    and run: "(if d = '''' then (case getVolume D n s of (s2, Inr v) \<Rightarrow> (s2, Inr v)
        | (s2, Inl e) \<Rightarrow> create_new D n d opts labels s2) else create_new D n d opts labels s) = (s', r)"
  shows "keeps_refs_of n s s' \<and> (\<forall>v. r = Inr v \<longrightarrow> good_volume n v)"
proof (cases "d = ''''")
  case False
  then show ?thesis using create_new_keeps [OF D _ free] run by simp
next
  case True
  obtain s2 g where g: "getVolume D n s = (s2, g)" by fastforce
  note step = run [unfolded if_P [OF True] g prod.case]
  have after: "keeps_refs_of n s s' \<and> (\<forall>v. r = Inr v \<longrightarrow> good_volume n v)"
    if k: "keeps_refs_of n s s2" and e: "g = Inl e" for e
  proof -
    have "getRefs n s2 = []" using k free by (simp add: keeps_refs_of_def)
    moreover have "create_new D n d opts labels s2 = (s', r)" using step e by simp
    ultimately show ?thesis using create_new_keeps [OF D] keeps_trans [OF k] by blast
  qed
  show ?thesis
    using D inv g
  proof (cases rule: getVolume_outcome)
    case (found v)
    then have "r = Inr v" "s' = s2" using step by simp_all
    then show ?thesis using found keeps_same by simp
  next
    case (failed e)
    then show ?thesis using after keeps_same by blast
  next
    case gone
    then show ?thesis using after keeps_forgot [OF _ free] by blast
  qed
qed

lemma vs_create_keeps:
  assumes D: "drivers_named D" and inv: "vs_inv s" and run: "vs_create D n d opts labels s = (s', r)"
  shows "keeps_refs_of n s s' \<and> (\<forall>v. r = Inr v \<longrightarrow> good_volume n v)"
proof -
  obtain s1 c where c: "checkConflict D n d s = (s1, c)" by fastforce
  note step = run [unfolded vs_create_def c prod.case]
  have rest: ?thesis if c0: "c = Inr None" and k: "keeps_refs_of n s s1" and free: "getRefs n s = []" and inv1: "vs_inv s1"
  proof -
    have "getRefs n s1 = []" using k free by (simp add: keeps_refs_of_def)
    from create_rest_keeps [OF D inv1 this] have "keeps_refs_of n s1 s' \<and> (\<forall>v. r = Inr v \<longrightarrow> good_volume n v)"
      using step c0 by simp
    then show ?thesis using keeps_trans [OF k] by blast
  qed
  show ?thesis
    using inv c
  proof (cases rule: checkConflict_outcome)
    case (known v)
    then have "r = Inr v" "s' = s1" using step by simp_all
    then show ?thesis using known keeps_same vs_invD(1) [OF inv] by blast
  next
    case (failed e)
    then have "r = Inl e" "s' = s1" using step by simp_all
    then show ?thesis using failed keeps_same by simp
  next
    case unknown
    then show ?thesis using rest keeps_same [OF same_maps_refl] vs_invD(2) [OF inv] inv by blast
  next
    case (stale v)
    then have "getRefs n s = []" by (simp add: hasRef_getRefs)
    then show ?thesis using rest stale keeps_forgot forgot_inv [OF _ inv] by blast
  qed
qed

lemma keeps_inv: "keeps_refs_of n s s' \<Longrightarrow> vs_inv s \<Longrightarrow> vs_inv s'"
  unfolding vs_inv_def keeps_refs_of_def hasRef_getRefs by (intro conjI allI impI) (metis option.distinct(1), metis)

lemma setNamed_views:
  shows "getNamed m (setNamed v ref s) = (if m = vol_Name v then Some v else getNamed m s)"
    "set (getRefs m (setNamed v ref s)) = set (getRefs m s) \<union> (if m = vol_Name v \<and> ref \<noteq> '''' then {ref} else {})"
  by (auto simp: setNamed_def getNamed_def getRefs_def Let_def)


section \<open>References\<close>

text \<open>
  The operations clients call, in the order of their steps. Purge is one of them: the daemon calls it on its own after a removal,
  and when the user forces one.
\<close>

datatype vs_op =
    OpGet string
  | OpGetWithRef string string string
  | OpCreate string string string str_map str_map
  | OpRemove volume
  | OpDereference volume string
  | OpPurge string

definition result_error :: "volume_error + 'a \<Rightarrow> volume_error option" where
  "result_error r = (case r of Inl e \<Rightarrow> Some e | Inr _ \<Rightarrow> None)"

fun vs_do :: "'w drivers \<Rightarrow> vs_op \<Rightarrow> 'w volume_store \<Rightarrow> 'w volume_store \<times> volume_error option" where
  "vs_do D (OpGet n) s = map_prod id result_error (vs_Get D n s)"
| "vs_do D (OpGetWithRef n d ref) s = map_prod id result_error (GetWithRef D n d ref s)"
| "vs_do D (OpCreate n d ref opts labels) s = map_prod id result_error (CreateWithRef D n d ref opts labels s)"
| "vs_do D (OpRemove v) s = vs_Remove D v s"
| "vs_do D (OpDereference v ref) s = (Dereference v ref s, None)"
| "vs_do D (OpPurge n) s = (Purge D n s, None)"

fun vs_run :: "'w drivers \<Rightarrow> vs_op list \<Rightarrow> 'w volume_store \<Rightarrow> 'w volume_store \<times> volume_error option list" where
  "vs_run D [] s = (s, [])"
| "vs_run D (op # ops) s = (let (s1, e) = vs_do D op s; (s2, es) = vs_run D ops s1 in (s2, e # es))"

text \<open>
  The abstract store: for each name the set of its references. A reference is taken by a call that succeeds and
  given up by \<open>Dereference\<close>, by \<open>Purge\<close>, and when looking the volume up shows that its driver no longer has it.
\<close>

fun refs_spec :: "vs_op \<Rightarrow> volume_error option \<Rightarrow> (string \<Rightarrow> string set) \<Rightarrow> string \<Rightarrow> string set" where
  "refs_spec (OpGet n) e R = (if e = Some (OpErr ''get'' n [] NoSuchVolume) then R(n := {}) else R)"
| "refs_spec (OpGetWithRef n d ref) e R = (if e = None \<and> ref \<noteq> '''' then R(n := insert ref (R n)) else R)"
| "refs_spec (OpCreate n d ref opts labels) e R = (if e = None \<and> ref \<noteq> '''' then R(n := insert ref (R n)) else R)"
| "refs_spec (OpRemove v) e R = R"
| "refs_spec (OpDereference v ref) e R = R(vol_Name v := R (vol_Name v) - {ref})"
| "refs_spec (OpPurge n) e R = R(n := {})"

fun refs_run :: "vs_op list \<Rightarrow> volume_error option list \<Rightarrow> (string \<Rightarrow> string set) \<Rightarrow> string \<Rightarrow> string set" where
  "refs_run (op # ops) (e # es) R = refs_run ops es (refs_spec op e R)"
| "refs_run _ _ R = R"

definition refs_abs :: "'w volume_store \<Rightarrow> string \<Rightarrow> string set" where
  "refs_abs s n = set (getRefs n s)"

lemma refs_abs_same: "same_maps s s' \<Longrightarrow> refs_abs s' = refs_abs s"
  by (simp add: refs_abs_def same_maps_views fun_eq_iff)

lemma refs_abs_forgot: "forgot n s s' \<Longrightarrow> refs_abs s' = (refs_abs s)(n := {})"
  by (simp add: refs_abs_def forgot_views fun_eq_iff)

lemma refs_abs_setNamed:
  "refs_abs (setNamed v ref s) = (if ref \<noteq> '''' then (refs_abs s)(vol_Name v := insert ref (refs_abs s (vol_Name v))) else refs_abs s)"
  by (auto simp: refs_abs_def setNamed_views fun_eq_iff)

lemma setNamed_inv: "good_volume (vol_Name v) v \<Longrightarrow> vs_inv s \<Longrightarrow> vs_inv (setNamed v ref s)"
proof -
  assume v: "good_volume (vol_Name v) v" and inv: "vs_inv s"
  have "hasRef n (setNamed v ref s) \<longrightarrow> getNamed n (setNamed v ref s) \<noteq> None" for n
  proof (cases "n = vol_Name v")
    case False
    then have "set (getRefs n (setNamed v ref s)) = set (getRefs n s)" by (simp add: setNamed_views(2))
    then have "hasRef n (setNamed v ref s) = hasRef n s" by (metis hasRef_getRefs set_empty)
    then show ?thesis using inv False by (simp add: vs_inv_def setNamed_views(1))
  qed (simp add: setNamed_views(1))
  then show ?thesis using v inv by (auto simp: vs_inv_def setNamed_views(1))
qed

lemma vs_Get_refs:
  assumes D: "drivers_named D" and inv: "vs_inv s" and run: "vs_Get D n s = (s', r)"
  shows "refs_abs s' = refs_spec (OpGet n) (result_error r) (refs_abs s) \<and> vs_inv s'"
proof -
  obtain s1 g where g: "getVolume D n s = (s1, g)" by fastforce
  note step = run [unfolded vs_Get_def g prod.case]
  show ?thesis
    using D inv g
  proof (cases rule: getVolume_outcome)
    case (found v)
    then have "r = Inr v" "s' = setNamed v '''' s1" using step by simp_all
    then show ?thesis
      using found inv setNamed_inv [of v s1 "[]"]
      by (simp add: refs_abs_setNamed refs_abs_same result_error_def same_maps_views(4) good_volume_def)
  next
    case (failed e)
    then have r: "r = Inl (OpErr ''get'' n [] e)" "s' = s1" using step by simp_all
    have "e = NoSuchVolume \<Longrightarrow> (refs_abs s)(n := {}) = refs_abs s"
      using failed(3) vs_invD(2) [OF inv] by (auto simp: refs_abs_def fun_eq_iff)
    then show ?thesis using failed r inv by (simp add: refs_abs_same result_error_def same_maps_views(4))
  next
    case gone
    then have "r = Inl (OpErr ''get'' n [] NoSuchVolume)" "s' = s1" using step by simp_all
    then show ?thesis using gone inv by (simp add: refs_abs_forgot result_error_def forgot_inv)
  qed
qed

lemma GetWithRef_refs:
  assumes D: "drivers_named D" and inv: "vs_inv s" and run: "GetWithRef D n d ref s = (s', r)"
  shows "refs_abs s' = refs_spec (OpGetWithRef n d ref) (result_error r) (refs_abs s) \<and> vs_inv s'"
proof (cases "dr_lookup D d (vs_world s)")
  case (Inl e)
  then show ?thesis using run inv by (auto simp: GetWithRef_def result_error_def)
next
  case (Inr vd)
  obtain w g e where g: "dr_get D (dv_Name vd) n (vs_world s) = (w, g, e)" by (cases "dr_get D (dv_Name vd) n (vs_world s)") auto
  have w: "same_maps s (s\<lparr>vs_world := w\<rparr>)" by (simp add: same_maps_def)
  note step = run [unfolded GetWithRef_def Inr sum.case g prod.case]
  show ?thesis
  proof (cases "e = None \<and> g \<noteq> None")
    case False
    then have "s' = s\<lparr>vs_world := w\<rparr>" "result_error r \<noteq> None"
      using step by (auto simp: result_error_def split: option.splits)
    then show ?thesis using inv by (auto simp: refs_abs_same [OF w] same_maps_views(4) [OF w])
  next
    case True
    then obtain v where v: "g = Some v" "e = None" by auto
    have good: "good_volume n v" using drivers_namedD(1) [OF D] g v by blast
    have "s' = setNamed v ref (s\<lparr>vs_world := w\<rparr>)" "result_error r = None" using step v by (auto simp: result_error_def Let_def)
    then show ?thesis
      using inv good setNamed_inv [of v "s\<lparr>vs_world := w\<rparr>" ref]
      by (simp add: refs_abs_setNamed refs_abs_same [OF w] same_maps_views(4) [OF w] good_volume_def)
  qed
qed

lemma CreateWithRef_cases:
  assumes D: "drivers_named D" and inv: "vs_inv s" and run: "CreateWithRef D n d ref opts labels s = (s', r)"

  obtains (failed) e where "r = Inl e" "keeps_refs_of n s s'"
    | (created) v s1 where "r = Inr v" "s' = setNamed v ref s1" "good_volume n v" "keeps_refs_of n s s1"
proof -
  obtain s1 c where c: "vs_create D n d opts labels s = (s1, c)" by fastforce
  note step = run [unfolded CreateWithRef_def c prod.case]
  note k = vs_create_keeps [OF D inv c]
  show ?thesis
  proof (cases c)
    case (Inl e)
    then have "r = Inl (if is_OpErr e then e else OpErr ''create'' n [] e)" "s' = s1" using step by simp_all
    then show ?thesis using k that(1) by blast
  next
    case (Inr v)
    then have "r = Inr v" "s' = setNamed v ref s1" using step by simp_all
    then show ?thesis using k Inr that(2) by blast
  qed
qed

lemma refs_abs_keeps: "keeps_refs_of n s s' \<Longrightarrow> refs_abs s' = refs_abs s"
  by (simp add: keeps_refs_of_def refs_abs_def fun_eq_iff)

lemma CreateWithRef_refs:
  assumes D: "drivers_named D" and inv: "vs_inv s" and run: "CreateWithRef D n d ref opts labels s = (s', r)"
  shows "refs_abs s' = refs_spec (OpCreate n d ref opts labels) (result_error r) (refs_abs s) \<and> vs_inv s'"
  using D inv run
proof (cases rule: CreateWithRef_cases)
  case (failed e)
  then show ?thesis using inv by (simp add: refs_abs_keeps keeps_inv result_error_def)
next
  case (created v s1)
  then show ?thesis
    using inv setNamed_inv [of v s1 ref] by (simp add: refs_abs_setNamed refs_abs_keeps keeps_inv result_error_def good_volume_def)
qed

lemma vs_Remove_cases:
  assumes run: "vs_Remove D v s = (s', e)"
  obtains (kept) x where "e = Some x" "same_maps s s'"
    | (removed) "e = None" "\<not> hasRef (vol_Name v) s" "forgot (vol_Name v) s s'"
proof (cases "hasRef (vol_Name v) s")
  case True
  then have "e = Some (OpErr ''remove'' (vol_Name v) (getRefs (vol_Name v) s) VolumeInUse)" "s' = s"
    using run by (auto simp: vs_Remove_def Let_def)
  then show ?thesis using that(1) by simp
next
  case False
  note step = run [unfolded vs_Remove_def Let_def if_not_P [OF False]]
  show ?thesis
  proof (cases "dr_lookup D (vol_DriverName v) (vs_world s)")
    case (Inl x)
    then have "e = Some (OpErr ''remove'' (vol_DriverName v) [] (DriverError x))" "s' = s" using step by simp_all
    then show ?thesis using that(1) by simp
  next
    case (Inr vd)
    obtain w x where x: "dr_remove D (dv_Name vd) (unwrapVolume v) (vs_world s) = (w, x)" by fastforce
    show ?thesis
    proof (cases x)
      case None
      then have "e = None" "s' = Purge D (vol_Name v) (s\<lparr>vs_world := w\<rparr>)" using step Inr x by simp_all
      then show ?thesis using that(2) False Purge_forgot [of "vol_Name v" "s\<lparr>vs_world := w\<rparr>" D] by (simp add: forgot_def)
    next
      case (Some y)
      then have "e = Some (OpErr ''remove'' (vol_Name v) [] (DriverError y))" "s' = s\<lparr>vs_world := w\<rparr>" using step Inr x by simp_all
      then show ?thesis using that(1) by (simp add: same_maps_def)
    qed
  qed
qed

lemma Dereference_views:
  "getNamed m (Dereference v ref s) = getNamed m s"
  "set (getRefs m (Dereference v ref s)) = (if m = vol_Name v then set (getRefs m s) - {ref} else set (getRefs m s))"
  by (auto simp: Dereference_def getNamed_def getRefs_def gm_list_def split: option.splits)

lemma Dereference_inv: "vs_inv s \<Longrightarrow> vs_inv (Dereference v ref s)"
proof -
  assume inv: "vs_inv s"
  have "set (getRefs m (Dereference v ref s)) \<subseteq> set (getRefs m s)" for m by (auto simp: Dereference_views(2))
  then have "hasRef m (Dereference v ref s) \<Longrightarrow> hasRef m s" for m by (metis hasRef_getRefs set_empty subset_empty)
  then show ?thesis using inv by (auto simp: vs_inv_def Dereference_views(1))
qed

lemma vs_do_refs:
  assumes D: "drivers_named D" and inv: "vs_inv s" and run: "vs_do D op s = (s', e)"
  shows "refs_abs s' = refs_spec op e (refs_abs s) \<and> vs_inv s'"
proof (cases op)
  case (OpGet n)
  obtain a b where "vs_Get D n s = (a, b)" by fastforce
  then show ?thesis using run OpGet vs_Get_refs [OF D inv] by fastforce
next
  case (OpGetWithRef n d ref)
  obtain a b where "GetWithRef D n d ref s = (a, b)" by fastforce
  then show ?thesis using run OpGetWithRef GetWithRef_refs [OF D inv] by fastforce
next
  case (OpCreate n d ref opts labels)
  obtain a b where "CreateWithRef D n d ref opts labels s = (a, b)" by fastforce
  then show ?thesis using run OpCreate CreateWithRef_refs [OF D inv] by fastforce
next
  case (OpRemove v)
  then have "vs_Remove D v s = (s', e)" using run by simp
  then show ?thesis
  proof (cases rule: vs_Remove_cases)
    case (kept x)
    then show ?thesis using OpRemove inv by (simp add: refs_abs_same same_maps_views(4))
  next
    case removed
    then have "(refs_abs s)(vol_Name v := {}) = refs_abs s" by (auto simp: refs_abs_def hasRef_getRefs fun_eq_iff)
    then show ?thesis using OpRemove removed inv by (simp add: refs_abs_forgot forgot_inv)
  qed
next
  case (OpDereference v ref)
  then show ?thesis using run inv Dereference_inv by (auto simp: refs_abs_def Dereference_views(2) fun_eq_iff)
next
  case (OpPurge n)
  then show ?thesis using run inv by (auto simp: refs_abs_forgot [OF Purge_forgot] forgot_inv [OF Purge_forgot])
qed

lemma vs_run_refs:
  "drivers_named D \<Longrightarrow> vs_inv s \<Longrightarrow> vs_run D ops s = (s', es) \<Longrightarrow>
     refs_abs s' = refs_run ops es (refs_abs s) \<and> vs_inv s'"
proof (induction ops arbitrary: s es)
  case (Cons op ops)
  obtain s1 e where 1: "vs_do D op s = (s1, e)" by fastforce
  obtain s2 es' where 2: "vs_run D ops s1 = (s2, es')" by fastforce
  have 3: "es = e # es'" "s2 = s'" using Cons.prems(3) 1 2 by auto
  have s1: "refs_abs s1 = refs_spec op e (refs_abs s) \<and> vs_inv s1" by (rule vs_do_refs [OF Cons.prems(1,2) 1])
  show ?case using Cons.IH [OF Cons.prems(1) conjunct2 [OF s1] 2 [unfolded 3(2)]] s1 3 by simp
qed simp


section \<open>Loading\<close>

lemma restore_cached_views:
  "getNamed m (restore_cached D meta v s) = (if m = vol_Name v then Some v else getNamed m s)"
  "getRefs m (restore_cached D meta v s) = getRefs m s"
  by (simp_all add: restore_cached_def getNamed_def getRefs_def)

lemma restore_cached_inv: "vs_inv s \<Longrightarrow> good_volume n v \<Longrightarrow> vs_inv (restore_cached D meta v s)"
  by (auto simp: vs_inv_def hasRef_getRefs restore_cached_views good_volume_def)

lemma refs_abs_empty: "refs_abs s = (\<lambda>_. {}) \<longleftrightarrow> (\<forall>m. getRefs m s = [])"
  by (simp add: refs_abs_def fun_eq_iff)

lemma restore_one_inv:
  assumes D: "drivers_named D" and inv: "vs_inv s" "refs_abs s = (\<lambda>_. {})" and run: "restore_one D meta s = (s', b)"
  shows "vs_inv s' \<and> refs_abs s' = (\<lambda>_. {})"
proof (cases "vm_Driver meta = ''''")
  case False
  obtain s1 l where l: "lookupVolume D (vm_Driver meta) (vm_Name meta) s = (s1, l)" by fastforce
  note s1 = lookupVolume_same [OF l]
  note step = run [unfolded restore_one_def if_P [OF False] l prod.case]
  have keep: ?thesis if "s' = s1" using that inv by (simp add: same_maps_views(4) [OF s1] refs_abs_same [OF s1])
  show ?thesis
  proof (cases l)
    case (Inl e)
    then show ?thesis using step by (intro keep) simp
  next
    case (Inr o1)
    show ?thesis
    proof (cases o1)
      case None
      then show ?thesis using step Inr by (intro keep) simp
    next
      case (Some v)
      have "good_volume (vm_Name meta) v" using lookupVolume_named [OF D] l Inr Some by blast
      moreover have "s' = restore_cached D meta v s1" using step Inr Some by simp
      ultimately show ?thesis
        using inv by (auto simp: restore_cached_inv same_maps_views [OF s1] refs_abs_empty restore_cached_views)
    qed
  qed
next
  case True
  obtain s1 g where g: "getVolume D (vm_Name meta) s = (s1, g)" by fastforce
  have s1: "vs_inv s1 \<and> refs_abs s1 = (\<lambda>_. {})" and good: "\<And>v. g = Inr v \<Longrightarrow> good_volume (vm_Name meta) v"
    using D inv(1) g
    by (cases rule: getVolume_outcome; use inv in \<open>auto simp: same_maps_views refs_abs_empty forgot_inv forgot_views\<close>)+
  have False: "\<not> vm_Driver meta \<noteq> ''''" using True by simp
  note step = run [unfolded restore_one_def if_not_P [OF False] g prod.case]
  show ?thesis
  proof (cases g)
    case (Inl e)
    then show ?thesis using step s1 by simp
  next
    case (Inr v)
    obtain s2 x where m: "setMeta D (vol_Name v) (meta\<lparr>vm_Driver := vol_DriverName v\<rparr>) s1 = (s2, x)" by fastforce
    note s2 = setMeta_same [OF m]
    have "s' = restore_cached D (meta\<lparr>vm_Driver := vol_DriverName v\<rparr>) v s2" using step Inr m by (simp add: Let_def)
    then show ?thesis
      using s1 good [OF Inr] by (auto simp: restore_cached_inv same_maps_views [OF s2] refs_abs_empty restore_cached_views)
  qed
qed

lemma restore_all_inv:
  "drivers_named D \<Longrightarrow> vs_inv s \<Longrightarrow> refs_abs s = (\<lambda>_. {}) \<Longrightarrow> restore_all D ms s = (s', names) \<Longrightarrow>
     vs_inv s' \<and> refs_abs s' = (\<lambda>_. {})"
proof (induction ms arbitrary: s names)
  case (Cons m ms)
  obtain s1 b where 1: "restore_one D m s = (s1, b)" by fastforce
  obtain s2 rest where 2: "restore_all D ms s1 = (s2, rest)" by fastforce
  have s1: "vs_inv s1 \<and> refs_abs s1 = (\<lambda>_. {})" by (rule restore_one_inv [OF Cons.prems(1-3) 1])
  have "s2 = s'" using Cons.prems(4) 1 2 by auto
  then show ?case using Cons.IH [OF Cons.prems(1)] s1 2 by blast
qed simp

lemma vs_restore_inv:
  assumes D: "drivers_named D" and inv: "vs_inv s" "refs_abs s = (\<lambda>_. {})"
  shows "vs_inv (vs_restore D s) \<and> refs_abs (vs_restore D s) = (\<lambda>_. {})"
proof -
  obtain s1 names where r: "restore_all D (listMeta s) s = (s1, names)" by fastforce
  have "same_maps s1 (vs_restore D s)"
    unfolding vs_restore_def r prod.case by (cases names) (auto simp: same_maps_def split: prod.splits bool.splits)
  then show ?thesis using restore_all_inv [OF D inv r] by (simp add: same_maps_views(4) refs_abs_same)
qed

lemma NewVolumeStore_inv:
  "drivers_named D \<Longrightarrow> vs_inv (NewVolumeStore D db w) \<and> refs_abs (NewVolumeStore D db w) = (\<lambda>_. {})"
  unfolding NewVolumeStore_def
  by (rule vs_restore_inv) (simp_all add: vs_inv_def getNamed_def hasRef_def gm_list_def refs_abs_def getRefs_def fun_eq_iff)


section \<open>The database\<close>

text \<open>
  An entry has the name of its volume, or none: the entry of a volume that was only looked up is written
  without a name. Every entry names a driver.
\<close>

definition db_ok :: "(string, volume_meta option) gomap \<Rightarrow> bool" where
  "db_ok db \<longleftrightarrow> gm_wf db \<and>
     (\<forall>k m. gm_get db k = Some (Some m) \<longrightarrow> (vm_Name m = k \<or> vm_Name m = '''') \<and> vm_Driver m \<noteq> '''')"

lemma db_okD:
  assumes "db_ok db" "gm_get db k = Some (Some m)"
  shows "vm_Name m = k \<or> vm_Name m = ''''" "vm_Driver m \<noteq> ''''"
  using assms unfolding db_ok_def by blast+

lemma db_ok_set: "db_ok db \<Longrightarrow> vm_Name m = k \<or> vm_Name m = '''' \<Longrightarrow> vm_Driver m \<noteq> '''' \<Longrightarrow> db_ok (gm_set k (Some m) db)"
  by (auto simp: db_ok_def)

lemma db_ok_del: "db_ok db \<Longrightarrow> db_ok (gm_del k db)"
  by (auto simp: db_ok_def)

lemma db_ok_delete: "db_ok db \<Longrightarrow> db_ok (fold gm_del ks db)"
  by (induction ks arbitrary: db) (auto intro: db_ok_del)

lemma setMeta_db:
  assumes "db_ok (vs_db s)" "vm_Name m = n \<or> vm_Name m = ''''" "vm_Driver m \<noteq> ''''"
  shows "db_ok (vs_db (fst (setMeta D n m s)))"
  using assms db_ok_set unfolding setMeta_def by (cases "dr_write D (vs_world s)") (auto split: bool.splits)

lemma Purge_db: "db_ok (vs_db s) \<Longrightarrow> db_ok (vs_db (Purge D n s))"
  unfolding Purge_def removeMeta_def Let_def by (auto split: option.splits prod.splits bool.splits intro: db_ok_del)

lemma lookupVolume_db: "vs_db (fst (lookupVolume D d n s)) = vs_db s"
  by (auto simp: lookupVolume_def split: sum.splits prod.splits option.splits driver_error.splits)

lemma volumeExists_db: "vs_db (fst (volumeExists D v s)) = vs_db s"
  unfolding volumeExists_def using lookupVolume_db [of D "vol_DriverName v" "vol_Name v" s]
  by (cases "lookupVolume D (vol_DriverName v) (vol_Name v) s") (auto split: sum.splits)

lemma probe_db: "vs_db (fst (probe_drivers D ds n s)) = vs_db s"
  by (induction ds arbitrary: s) (auto split: prod.splits option.splits)

lemma checkConflict_db: "db_ok (vs_db s) \<Longrightarrow> db_ok (vs_db (fst (checkConflict D n d s)))"
proof (cases "getNamed n s")
  case (Some v)
  assume "db_ok (vs_db s)"
  moreover obtain s1 x where "volumeExists D v s = (s1, x)" by fastforce
  moreover from this have "vs_db s1 = vs_db s" using volumeExists_db [of D v s] by simp
  ultimately show ?thesis using Some by (auto simp: checkConflict_def Purge_db split: sum.splits bool.splits)
qed (simp add: checkConflict_def)

lemma getMeta_ok:
  assumes "db_ok (vs_db s)" "getMeta n s = Inr m"
  shows "vm_Name m = n \<or> vm_Name m = ''''"
  using assms db_okD(1) [OF assms(1)] by (auto simp: getMeta_def split: option.splits)

lemma getVolume_db:
  assumes D: "drivers_named D" and inv: "vs_inv s" and db: "db_ok (vs_db s)"
  shows "db_ok (vs_db (fst (getVolume D n s)))"
proof (cases "getMeta n s")
  case (Inl e)
  then show ?thesis using db by (simp add: getVolume_def)
next
  case (Inr meta0)
  define meta where "meta = (if vm_Driver meta0 = ''''
    then (case gm_get (vs_names s) n of None \<Rightarrow> meta0 | Some v \<Rightarrow> meta0\<lparr>vm_Driver := vol_DriverName v\<rparr>) else meta0)"
  obtain s1 e where se: "(if vm_Driver meta0 = '''' \<and> gm_get (vs_names s) n \<noteq> None then setMeta D n meta s else (s, None)) = (s1, e)"
    by fastforce
  have name: "vm_Name meta = n \<or> vm_Name meta = ''''"
    using getMeta_ok [OF db Inr] by (auto simp: meta_def split: option.splits)
  have driver: "gm_get (vs_names s) n \<noteq> None \<Longrightarrow> vm_Driver meta \<noteq> ''''"
    using vs_invD(1) [OF inv, of n] by (auto simp: meta_def getNamed_def good_volume_def)
  have s1: "db_ok (vs_db s1)"
  proof (cases "vm_Driver meta0 = '''' \<and> gm_get (vs_names s) n \<noteq> None")
    case True
    then show ?thesis using se setMeta_db [OF db name driver, of D] by auto
  qed (use se db in auto)
  have run: "getVolume D n s = (case e of Some e \<Rightarrow> (s1, Inl e) | None \<Rightarrow>
      if vm_Driver meta \<noteq> ''''
      then (case lookupVolume D (vm_Driver meta) n s1 of
              (s2, Inl e) \<Rightarrow> (s2, Inl e)
            | (s2, Inr None) \<Rightarrow> (Purge D n s2, Inl NoSuchVolume)
            | (s2, Inr (Some v)) \<Rightarrow>
                (let scope = (case dr_lookup D (vm_Driver meta) (vs_world s2) of Inl e \<Rightarrow> '''' | Inr vd \<Rightarrow> dv_Scope vd)
                 in (s2, Inr (wrap_volume v (vm_Labels meta) scope (vm_Options meta)))))
      else (case dr_all D (vs_world s1) of
              Inl e \<Rightarrow> (s1, Inl (DriverError e))
            | Inr ds \<Rightarrow>
                (case probe_drivers D ds n s1 of
                   (s2, None) \<Rightarrow> (s2, Inl NoSuchVolume)
                 | (s2, Some (d, v)) \<Rightarrow>
                     (case setMeta D n (meta\<lparr>vm_Driver := vol_DriverName v\<rparr>) s2 of
                        (s3, Some e) \<Rightarrow> (s3, Inl e)
                      | (s3, None) \<Rightarrow> (s3, Inr (wrap_volume v (vm_Labels meta) (dv_Scope d) (vm_Options meta)))))))"
    unfolding getVolume_def Inr sum.case Let_def meta_def [symmetric] se prod.case by (rule refl)
  obtain s2 l where l: "lookupVolume D (vm_Driver meta) n s1 = (s2, l)" by fastforce
  then have s2: "db_ok (vs_db s2)" using lookupVolume_db [of D "vm_Driver meta" n s1] s1 by simp
  have probed: "db_ok (vs_db (fst (case probe_drivers D ds n s1 of
                   (s2, None) \<Rightarrow> (s2, Inl NoSuchVolume)
                 | (s2, Some (d, v)) \<Rightarrow>
                     (case setMeta D n (meta\<lparr>vm_Driver := vol_DriverName v\<rparr>) s2 of
                        (s3, Some e) \<Rightarrow> (s3, Inl e)
                      | (s3, None) \<Rightarrow> (s3, Inr (wrap_volume v (vm_Labels meta) (dv_Scope d) (vm_Options meta)))))))" for ds
  proof -
    obtain s2 p where p: "probe_drivers D ds n s1 = (s2, p)" by fastforce
    then have s2: "db_ok (vs_db s2)" using probe_db [of D ds n s1] s1 by simp
    show ?thesis
    proof (cases p)
      case (Some dv)
      obtain d v where dv: "dv = (d, v)" by fastforce
      have "good_volume n v" using probe_named [OF D] p Some dv by blast
      then have "db_ok (vs_db (fst (setMeta D n (meta\<lparr>vm_Driver := vol_DriverName v\<rparr>) s2)))"
        using name by (intro setMeta_db [OF s2]) (simp_all add: good_volume_def)
      then show ?thesis using p Some dv by (auto split: prod.splits option.splits)
    qed (use p s2 in simp)
  qed
  show ?thesis
    unfolding run
    by (cases e; cases l)
      (use l s1 s2 probed in \<open>auto simp: Purge_db Let_def split: option.splits sum.splits\<close>)
qed


lemma create_new_db:
  assumes D: "drivers_named D" and db: "db_ok (vs_db s)"
  shows "db_ok (vs_db (fst (create_new D n d opts labels s)))"
proof -
  obtain w a where a: "dr_acquire D d (vs_world s) = (w, a)" by fastforce
  show ?thesis
  proof (cases a)
    case (Inl e)
    then show ?thesis using a db by (simp add: create_new_def)
  next
    case (Inr vd)
    have vd: "dv_Name vd \<noteq> ''''" using drivers_namedD(3) [OF D] a Inr by blast
    obtain w1 g e1 where g: "dr_get D (dv_Name vd) n w = (w1, g, e1)" by (cases "dr_get D (dv_Name vd) n w") auto
    obtain w2 c where c: "dr_create D (dv_Name vd) n opts w1 = (w2, c)" by fastforce
    let ?s = "s\<lparr>vs_world := w2, vs_labels := gm_set n labels (vs_labels s),
      vs_options := gm_set n opts (vs_options s), vs_refs := gm_set n [] (vs_refs s)\<rparr>"
    have "db_ok (vs_db (fst (setMeta D n \<lparr>vm_Name = n, vm_Driver = dv_Name vd, vm_Labels = labels, vm_Options = opts\<rparr> ?s)))"
      using db vd by (intro setMeta_db) simp_all
    then show ?thesis
      unfolding create_new_def a prod.case Inr sum.case g
      by (cases g; cases c) (use c db in \<open>auto split: prod.splits option.splits\<close>)
  qed
qed

lemma vs_create_db:
  assumes D: "drivers_named D" and inv: "vs_inv s" and db: "db_ok (vs_db s)"
  shows "db_ok (vs_db (fst (vs_create D n d opts labels s)))"
proof -
  obtain s1 c where c: "checkConflict D n d s = (s1, c)" by fastforce
  have db1: "db_ok (vs_db s1)" using checkConflict_db [OF db, of D n d] c by simp
  have inv1: "vs_inv s1"
    using inv c by (cases rule: checkConflict_outcome) (auto simp: same_maps_views(4) inv forgot_inv)
  obtain s2 g where g: "getVolume D n s1 = (s2, g)" by fastforce
  have db2: "db_ok (vs_db s2)" using getVolume_db [OF D inv1 db1, of n] g by simp
  show ?thesis
    unfolding vs_create_def c prod.case g
    by (cases g) (use db1 create_new_db [OF D db1] create_new_db [OF D db2] db2 in \<open>auto split: sum.splits option.splits\<close>)
qed

lemma vs_do_db:
  assumes D: "drivers_named D" and inv: "vs_inv s" and db: "db_ok (vs_db s)"
  shows "db_ok (vs_db (fst (vs_do D op s)))"
proof -
  have set: "vs_db (setNamed v r t) = vs_db t" for v r and t :: "'a volume_store" by (simp add: setNamed_def Let_def)
  show ?thesis
  proof (cases op)
    case (OpGet n)
    obtain s1 g where g: "getVolume D n s = (s1, g)" by fastforce
    then have "db_ok (vs_db s1)" using getVolume_db [OF D inv db, of n] by simp
    then show ?thesis using OpGet g by (auto simp: vs_Get_def set split: sum.splits)
  next
    case (OpGetWithRef n d ref)
    then show ?thesis using db by (auto simp: GetWithRef_def set Let_def split: sum.splits prod.splits option.splits)
  next
    case (OpCreate n d ref opts labels)
    obtain s1 g where g: "vs_create D n d opts labels s = (s1, g)" by fastforce
    then have "db_ok (vs_db s1)" using vs_create_db [OF D inv db, of n d opts labels] by simp
    then show ?thesis using OpCreate g by (auto simp: CreateWithRef_def set split: sum.splits)
  next
    case (OpRemove v)
    then show ?thesis using db by (auto simp: vs_Remove_def Let_def Purge_db split: sum.splits prod.splits option.splits)
  next
    case (OpDereference v ref)
    then show ?thesis using db by (auto simp: Dereference_def split: option.splits)
  next
    case (OpPurge n)
    then show ?thesis using db by (simp add: Purge_db)
  qed
qed

lemma vs_run_db:
  "drivers_named D \<Longrightarrow> vs_inv s \<Longrightarrow> db_ok (vs_db s) \<Longrightarrow> vs_run D ops s = (s', es) \<Longrightarrow> db_ok (vs_db s')"
proof (induction ops arbitrary: s es)
  case (Cons op ops)
  obtain s1 e where 1: "vs_do D op s = (s1, e)" by fastforce
  obtain s2 es' where 2: "vs_run D ops s1 = (s2, es')" by fastforce
  have "s2 = s'" using Cons.prems(4) 1 2 by auto
  moreover have "vs_inv s1" using vs_do_refs [OF Cons.prems(1,2) 1] by simp
  moreover have "db_ok (vs_db s1)" using vs_do_db [OF Cons.prems(1-3), of op] 1 by simp
  ultimately show ?case using Cons.IH [OF Cons.prems(1)] 2 by blast
qed simp

section \<open>What loading restores\<close>

text \<open>
  Drivers that answer: which driver a name stands for and what it has does not change while the store is loaded,
  every driver can be reached, and the database can be written.
\<close>

definition drivers_answer ::
  "'w drivers \<Rightarrow> (string \<Rightarrow> driver option) \<Rightarrow> (string \<Rightarrow> string \<Rightarrow> volume option) \<Rightarrow> bool" where
  "drivers_answer D known has \<longleftrightarrow>
     (\<forall>d w. dr_lookup D d w = (case known d of None \<Rightarrow> Inl DriverFailed | Some vd \<Rightarrow> Inr vd)) \<and>
     (\<forall>d n w. \<exists>w' e. dr_get D d n w = (w', has d n, e) \<and> e \<noteq> Some NetError) \<and>
     (\<forall>w. snd (dr_write D w))"

definition found_volume :: "(string \<Rightarrow> driver option) \<Rightarrow> (string \<Rightarrow> string \<Rightarrow> volume option) \<Rightarrow> volume_meta \<Rightarrow> volume option" where
  "found_volume known has m = (case known (vm_Driver m) of None \<Rightarrow> None | Some vd \<Rightarrow> has (dv_Name vd) (vm_Name m))"

definition gone_volume :: "(string \<Rightarrow> driver option) \<Rightarrow> (string \<Rightarrow> string \<Rightarrow> volume option) \<Rightarrow> volume_meta \<Rightarrow> bool" where
  "gone_volume known has m \<longleftrightarrow> known (vm_Driver m) \<noteq> None \<and> found_volume known has m = None"

lemma lookupVolume_answer:
  assumes A: "drivers_answer D known has" and l: "lookupVolume D d n s = (s', r)"
  shows "r = (case known d of None \<Rightarrow> Inl (DriverError DriverFailed) | Some vd \<Rightarrow> Inr (has (dv_Name vd) n))"
proof (cases "known d")
  case None
  then show ?thesis using A l by (auto simp: drivers_answer_def lookupVolume_def)
next
  case (Some vd)
  obtain w' e where "dr_get D (dv_Name vd) n (vs_world s) = (w', has (dv_Name vd) n, e)" "e \<noteq> Some NetError"
    using A unfolding drivers_answer_def by blast
  moreover have "dr_lookup D d (vs_world s) = Inr vd" using A Some unfolding drivers_answer_def by simp
  ultimately show ?thesis
    using l Some by (auto simp: lookupVolume_def split: option.splits driver_error.splits)
qed

lemma restore_one_answer:
  assumes A: "drivers_answer D known has" and d: "vm_Driver m \<noteq> ''''" and run: "restore_one D m s = (s', b)"
  shows "b = gone_volume known has m \<and>
    same_maps (case found_volume known has m of None \<Rightarrow> s | Some v \<Rightarrow> restore_cached D m v s) s' \<and> vs_db s' = vs_db s"
proof -
  obtain s1 l where l: "lookupVolume D (vm_Driver m) (vm_Name m) s = (s1, l)" by fastforce
  note s1 = lookupVolume_same [OF l]
  have db: "vs_db s1 = vs_db s" using lookupVolume_db [of D "vm_Driver m" "vm_Name m" s] l by simp
  have "(case l of Inl e \<Rightarrow> (s1, False) | Inr None \<Rightarrow> (s1, True)
      | Inr (Some v) \<Rightarrow> (restore_cached D m v s1, False)) = (s', b)"
    using run d by (simp add: restore_one_def l)
  then show ?thesis
    using lookupVolume_answer [OF A l] s1 db
    by (auto simp: gone_volume_def found_volume_def same_maps_def restore_cached_def split: option.splits sum.splits)
qed


text \<open>What the store caches of a name: its volume, labels and options.\<close>

definition cached_as :: "string \<Rightarrow> 'w volume_store \<Rightarrow> volume option \<times> str_map \<times> str_map" where
  "cached_as n s = (getNamed n s, gm_list (vs_labels s) n, gm_list (vs_options s) n)"

lemma cached_as_same: "same_maps s s' \<Longrightarrow> cached_as n s' = cached_as n s"
  by (simp add: same_maps_def cached_as_def getNamed_def)

lemma cached_as_restored:
  "cached_as n (restore_cached D m v s) = (if n = vol_Name v then (Some v, vm_Labels m, vm_Options m) else cached_as n s)"
  by (simp add: cached_as_def restore_cached_def getNamed_def)

lemma found_good:
  assumes "drivers_named D" "drivers_answer D known has" "found_volume known has m = Some v"
  shows "vol_Name v = vm_Name m"
proof -
  have "\<exists>vd::driver. has (dv_Name vd) (vm_Name m) = Some v"
  proof (cases "known (vm_Driver m)")
    case (Some vd)
    then have "has (dv_Name vd) (vm_Name m) = Some v" using assms(3) by (simp add: found_volume_def)
    then show ?thesis by (rule exI)
  qed (use assms(3) in \<open>simp add: found_volume_def\<close>)
  then obtain vd :: driver where vd: "has (dv_Name vd) (vm_Name m) = Some v" ..
  fix w
  obtain w' e where "dr_get D (dv_Name vd) (vm_Name m) w = (w', Some v, e)"
    using assms(2) vd unfolding drivers_answer_def by metis
  then show ?thesis using drivers_namedD(1) [OF assms(1)] by (auto simp: good_volume_def)
qed

lemma restore_all_answer:
  assumes D: "drivers_named D" and A: "drivers_answer D known has"
  shows "restore_all D ms s = (s', names) \<Longrightarrow> \<forall>m\<in>set ms. vm_Driver m \<noteq> '''' \<Longrightarrow>
    vs_db s' = vs_db s \<and> names = map vm_Name (filter (gone_volume known has) ms) \<and>
    cached_as n s' = fold (\<lambda>m c. case found_volume known has m of
        Some v \<Rightarrow> if n = vm_Name m then (Some v, vm_Labels m, vm_Options m) else c | None \<Rightarrow> c) ms (cached_as n s)"
proof (induction ms arbitrary: s names)
  case (Cons m ms)
  obtain s1 b where 1: "restore_one D m s = (s1, b)" by fastforce
  obtain s2 rest where 2: "restore_all D ms s1 = (s2, rest)" by fastforce
  have 3: "s2 = s'" "names = (if b then vm_Name m # rest else rest)" using Cons.prems(1) 1 2 by auto
  have d: "vm_Driver m \<noteq> ''''" using Cons.prems(2) by simp
  note one = restore_one_answer [OF A d 1]
  have view: "cached_as n s1 = (case found_volume known has m of
        Some v \<Rightarrow> if n = vm_Name m then (Some v, vm_Labels m, vm_Options m) else cached_as n s | None \<Rightarrow> cached_as n s)"
    using one found_good [OF D A, of m]
    by (cases "found_volume known has m") (auto dest: cached_as_same [of _ _ n] simp: cached_as_restored)
  have "vs_db s' = vs_db s1 \<and> rest = map vm_Name (filter (gone_volume known has) ms) \<and>
    cached_as n s' = fold (\<lambda>m c. case found_volume known has m of
        Some v \<Rightarrow> if n = vm_Name m then (Some v, vm_Labels m, vm_Options m) else c | None \<Rightarrow> c) ms (cached_as n s1)"
    using Cons.IH [of s1 rest] 2 3(1) Cons.prems(2) by simp
  then show ?case using one view 3 by simp
qed simp

lemma fold_found_none:
  "(\<And>m. m \<in> set ms \<Longrightarrow> vm_Name m = n \<Longrightarrow> found_volume known has m = None) \<Longrightarrow>
   fold (\<lambda>m c. case found_volume known has m of
        Some v \<Rightarrow> if n = vm_Name m then (Some v, vm_Labels m, vm_Options m) else c | None \<Rightarrow> c) ms c = c"
  by (induction ms arbitrary: c) (auto split: option.splits)

lemma fold_found_some:
  assumes "meta \<in> set ms" "\<And>m. m \<in> set ms \<Longrightarrow> vm_Name m = n \<Longrightarrow> m = meta" "vm_Name meta = n" "found_volume known has meta = Some v"
  shows "fold (\<lambda>m c. case found_volume known has m of
        Some v \<Rightarrow> if n = vm_Name m then (Some v, vm_Labels m, vm_Options m) else c | None \<Rightarrow> c) ms c
      = (Some v, vm_Labels meta, vm_Options meta)"
  using assms(1,2)
proof (induction ms arbitrary: c)
  case (Cons m ms)
  show ?case
  proof (cases "meta \<in> set ms")
    case True
    then show ?thesis using Cons by simp
  next
    case False
    then have m: "m = meta" using Cons.prems(1) by simp
    have "fold (\<lambda>m c. case found_volume known has m of
        Some v \<Rightarrow> if n = vm_Name m then (Some v, vm_Labels m, vm_Options m) else c | None \<Rightarrow> c) ms
        (Some v, vm_Labels meta, vm_Options meta) = (Some v, vm_Labels meta, vm_Options meta)"
      by (rule fold_found_none) (use False Cons.prems(2) in auto)
    then show ?thesis using m assms(3,4) by simp
  qed
qed simp

lemma listMeta_in: "gm_wf (vs_db s) \<Longrightarrow> m \<in> set (listMeta s) \<longleftrightarrow> (\<exists>k. gm_get (vs_db s) k = Some (Some m))"
  by (fastforce simp: listMeta_def gm_wf_get split: option.splits)

lemma gm_get_deleted: "gm_get (fold gm_del ks db) k = (if k \<in> set ks then None else gm_get db k)"
  by (induction ks arbitrary: db) auto

lemma vs_restore_answer:
  assumes D: "drivers_named D" and A: "drivers_answer D known has" and db: "db_ok (vs_db s)"
    and run: "t = vs_restore D s"
  shows "gm_get (vs_db t) k = (if \<exists>m\<in>set (listMeta s). gone_volume known has m \<and> vm_Name m = k then None else gm_get (vs_db s) k) \<and>
    cached_as n t = fold (\<lambda>m c. case found_volume known has m of
        Some v \<Rightarrow> if n = vm_Name m then (Some v, vm_Labels m, vm_Options m) else c | None \<Rightarrow> c) (listMeta s) (cached_as n s)"
proof -
  obtain s1 names where r: "restore_all D (listMeta s) s = (s1, names)" by fastforce
  have wf: "gm_wf (vs_db s)" using db by (simp add: db_ok_def)
  have drivers: "\<forall>m\<in>set (listMeta s). vm_Driver m \<noteq> ''''"
    using db_okD(2) [OF db] by (auto simp: listMeta_in [OF wf])
  note all = restore_all_answer [OF D A r drivers, of n]
  obtain w where w: "dr_write D (vs_world s1) = (w, True)"
    using A unfolding drivers_answer_def by (cases "dr_write D (vs_world s1)") (metis snd_conv)
  have "same_maps s1 t \<and> vs_db t = fold gm_del names (vs_db s1)"
    unfolding run vs_restore_def r prod.case w by (cases names) (simp_all add: same_maps_def)
  then show ?thesis using all by (auto simp: cached_as_same gm_get_deleted)
qed


lemma NewVolumeStore_empty: "vs_db (NewVolumeStore D [] w) = []"
  by (simp add: NewVolumeStore_def vs_restore_def listMeta_def)

section \<open>Concrete drivers\<close>

text \<open>One driver, ''local''; the world is the list of its volumes.\<close>

definition ex_volume :: "string \<Rightarrow> volume" where
  "ex_volume n = \<lparr>vol_Name = n, vol_DriverName = ''local'', vol_wrap = None\<rparr>"

definition ex_local :: driver where
  "ex_local = \<lparr>dv_Name = ''local'', dv_Scope = ''local''\<rparr>"

definition ex_drivers :: "string list drivers" where
  "ex_drivers = \<lparr>
     dr_lookup = (\<lambda>d w. if d = ''local'' \<or> d = '''' then Inr ex_local else Inl DriverFailed),
     dr_acquire = (\<lambda>d w. (w, if d = ''local'' \<or> d = '''' then Inr ex_local else Inl DriverFailed)),
     dr_release = (\<lambda>d w. (w, if d = ''local'' \<or> d = '''' then Inr ex_local else Inl DriverFailed)),
     dr_all = (\<lambda>w. Inr [ex_local]),
     dr_get = (\<lambda>d n w. if n \<in> set w then (w, Some (ex_volume n), None) else (w, None, Some DriverFailed)),
     dr_create = (\<lambda>d n opts w. (n # w, Inr (ex_volume n))),
     dr_remove = (\<lambda>d v w. (filter (\<lambda>n. n \<noteq> vol_Name v) w, None)),
     dr_list = (\<lambda>d w. Inr (map ex_volume w)),
     dr_write = (\<lambda>w. (w, True))\<rparr>"

definition ex_answer :: "string list \<Rightarrow> unit drivers" where
  "ex_answer vols = \<lparr>
     dr_lookup = (\<lambda>d w. if d = ''local'' \<or> d = '''' then Inr ex_local else Inl DriverFailed),
     dr_acquire = (\<lambda>d w. (w, if d = ''local'' \<or> d = '''' then Inr ex_local else Inl DriverFailed)),
     dr_release = (\<lambda>d w. (w, if d = ''local'' \<or> d = '''' then Inr ex_local else Inl DriverFailed)),
     dr_all = (\<lambda>w. Inr [ex_local]),
     dr_get = (\<lambda>d n w. if n \<in> set vols then (w, Some (ex_volume n), None) else (w, None, Some DriverFailed)),
     dr_create = (\<lambda>d n opts w. (w, Inl DriverFailed)),
     dr_remove = (\<lambda>d v w. (w, Some DriverFailed)),
     dr_list = (\<lambda>d w. Inr (map ex_volume vols)),
     dr_write = (\<lambda>w. (w, True))\<rparr>"

lemma ex_drivers_named: "drivers_named ex_drivers"
  by (auto simp: drivers_named_def ex_drivers_def ex_volume_def ex_local_def good_volume_def split: if_splits)

lemma ex_answer_named: "drivers_named (ex_answer vols)"
  by (auto simp: drivers_named_def ex_answer_def ex_volume_def ex_local_def good_volume_def split: if_splits)

lemma ex_answer_answers:
  "drivers_answer (ex_answer vols) (\<lambda>d. if d = ''local'' \<or> d = '''' then Some ex_local else None)
     (\<lambda>d n. if n \<in> set vols then Some (ex_volume n) else None)"
  by (auto simp: drivers_answer_def ex_answer_def)

definition ex_volume_ops :: "vs_op list" where
  "ex_volume_ops =
     [OpCreate ''data'' ''local'' ''c1'' [] [], OpGetWithRef ''data'' ''local'' ''c2'', OpRemove (ex_volume ''data''),
      OpDereference (ex_volume ''data'') ''c1'', OpGet ''old'']"

definition ex_volumes :: "string list volume_store \<times> volume_error option list" where
  "ex_volumes = vs_run ex_drivers ex_volume_ops (NewVolumeStore ex_drivers [] [''old''])"

text \<open>
  C13. References of volumes. After any sequence of operations the references of every volume are those of the abstract
  store, which takes one for each successful call with a reference, and gives one up when it is dereferenced, and all of a name when it is purged
  or when looking it up finds that its driver no longer has it. A volume with references is known, and
  removing it fails with the list of them, asks no driver and changes nothing.
\<close>

theorem volume_refs_refine:
  assumes "drivers_named D" "vs_run D ops (NewVolumeStore D db w) = (s, es)"
  shows "refs_abs s = refs_run ops es (\<lambda>_. {}) \<and>
    (\<forall>v r. r \<in> refs_abs s (vol_Name v) \<longrightarrow>
       getNamed (vol_Name v) s \<noteq> None \<and>
       vs_Remove D v s = (s, Some (OpErr ''remove'' (vol_Name v) (vs_Refs v s) VolumeInUse)))"
proof -
  have *: "refs_abs s = refs_run ops es (\<lambda>_. {}) \<and> vs_inv s"
    using vs_run_refs [OF assms(1) _ assms(2)] NewVolumeStore_inv [OF assms(1), of db w] by simp
  have "hasRef (vol_Name v) s" if "r \<in> refs_abs s (vol_Name v)" for v r
    using that by (auto simp: refs_abs_def hasRef_getRefs)
  then show ?thesis
    using * by (auto simp: vs_inv_def vs_Remove_def vs_Refs_def Let_def)
qed

theorem volume_refs_refine_witness:
  "refs_abs (fst ex_volumes) ''data'' = {''c2''} \<and>
   vs_Remove ex_drivers (ex_volume ''data'') (fst ex_volumes) =
     (fst ex_volumes, Some (OpErr ''remove'' ''data'' [''c2''] VolumeInUse))"
proof -
  obtain s es where run: "vs_run ex_drivers ex_volume_ops (NewVolumeStore ex_drivers [] [''old'']) = (s, es)" by fastforce
  have "snd (vs_run ex_drivers ex_volume_ops (NewVolumeStore ex_drivers [] [''old''])) =
    [None, None, Some (OpErr ''remove'' ''data'' [''c1'', ''c2''] VolumeInUse), None, None]" by code_simp
  then have es: "es = [None, None, Some (OpErr ''remove'' ''data'' [''c1'', ''c2''] VolumeInUse), None, None]"
    by (simp add: run)
  have s: "fst ex_volumes = s" by (simp add: ex_volumes_def run)
  note main = volume_refs_refine [OF ex_drivers_named run]
  have "refs_abs s = refs_run ex_volume_ops es (\<lambda>_. {})" using main by simp
  then have refs: "refs_abs s ''data'' = {''c2''}" by (auto simp add: es ex_volume_ops_def ex_volume_def)
  have "vs_Refs (ex_volume ''data'') (fst ex_volumes) = [''c2'']" by code_simp
  then show ?thesis using main refs unfolding s by (simp add: ex_volume_def)
qed

lemma create_frame:
  assumes "drivers_named D" "vs_inv s" "CreateWithRef D n d ref opts labels s = (s', r)"
  shows "refs_abs s m \<subseteq> refs_abs s' m \<and> (m \<noteq> n \<longrightarrow> refs_abs s' m = refs_abs s m \<and> getNamed m s' = getNamed m s)"
  using assms
proof (cases rule: CreateWithRef_cases)
  case (failed e)
  then show ?thesis by (simp add: refs_abs_keeps) (simp add: keeps_refs_of_def)
next
  case (created v s1)
  then have "refs_abs s1 = refs_abs s" "m \<noteq> n \<Longrightarrow> getNamed m s1 = getNamed m s"
    by (simp_all add: refs_abs_keeps) (simp add: keeps_refs_of_def)
  then show ?thesis using created by (auto simp: refs_abs_setNamed setNamed_views(1) good_volume_def)
qed

lemma CreateWithRef_error:
  assumes "checkConflict D n d s = (s1, Inl e)" "\<not> is_OpErr e"
  shows "CreateWithRef D n d ref opts labels s = (s1, Inl (OpErr ''create'' n [] e))"
  using assms by (simp add: CreateWithRef_def vs_create_def)

lemma create_known:
  assumes inv: "vs_inv s" and u: "getNamed n s = Some u"
    and d: "(if d = '''' then Inr None else map_sum id Some (dr_lookup D d (vs_world s))) = asked"
    and x: "volumeExists D u s = (s1, x)" and run: "CreateWithRef D n d ref opts labels s = (s', r)"
  shows "case asked of
      Inl e \<Rightarrow> r = Inl (OpErr ''create'' n [] (DriverError e))
    | Inr vd \<Rightarrow>
       (case x of
          Inl e \<Rightarrow> r = Inl (OpErr ''create'' n [] (NameConflict Unchecked))
        | Inr True \<Rightarrow>
            if vd = None \<or> vol_DriverName u = dv_Name (the vd) then r = Inr u
            else r = Inl (OpErr ''create'' n [] (NameConflict (OtherDriver (vol_DriverName u))))
        | Inr False \<Rightarrow>
            if refs_abs s n \<noteq> {} then r = Inl (OpErr ''create'' n [] (NameConflict StillReferenced))
            else getNamed n (Purge D n s1) = None \<and> (s', r) = CreateWithRef D n d ref opts labels (Purge D n s1))"
proof -
  have name: "vol_Name u = n" using vs_invD(1) [OF inv u] by (simp add: good_volume_def)
  have gone: "getNamed n (Purge D n s1) = None" by (simp add: forgot_views(1) [OF Purge_forgot])
  have none: "checkConflict D n d (Purge D n s1) = (Purge D n s1, Inr None)" by (simp add: checkConflict_def gone)
  have "hasRef n s1 \<longleftrightarrow> refs_abs s n \<noteq> {}"
    using same_maps_views(3) [OF volumeExists_same [OF x], of n] by (simp add: hasRef_getRefs refs_abs_def)
  then have "checkConflict D n d s =
     (case asked of
        Inl e \<Rightarrow> (s, Inl (DriverError e))
      | Inr vd \<Rightarrow>
         (case x of
            Inl e \<Rightarrow> (s1, Inl (NameConflict Unchecked))
          | Inr True \<Rightarrow> (s1, if vd = None \<or> vol_DriverName u = dv_Name (the vd) then Inr (Some u)
               else Inl (NameConflict (OtherDriver (vol_DriverName u))))
          | Inr False \<Rightarrow> if refs_abs s n \<noteq> {} then (s1, Inl (NameConflict StillReferenced)) else (Purge D n s1, Inr None)))"
    unfolding d [symmetric]
    by (cases "d = ''''"; cases "dr_lookup D d (vs_world s)"; cases x) (auto simp: checkConflict_def u x name split: bool.split)
  moreover have [simp]: "\<not> is_OpErr (DriverError e)" "\<not> is_OpErr (NameConflict k)" for e k by (simp_all add: is_OpErr_def)
  ultimately show ?thesis
    using run by (auto simp: CreateWithRef_def vs_create_def gone none split: sum.splits bool.splits if_splits)
qed

text \<open>
  Where a creation goes on: in the store as it is when the name is unknown, without the volume when that was stale and
  nobody referred to it. A volume is made when no driver was asked for that has it on record or has it at all.
\<close>

definition goes_on :: "'w drivers \<Rightarrow> string \<Rightarrow> string \<Rightarrow> 'w volume_store \<Rightarrow> 'w volume_store \<Rightarrow> bool" where
  "goes_on D n d s t \<longleftrightarrow>
     (case getNamed n s of
        None \<Rightarrow> t = s
      | Some u \<Rightarrow> snd (volumeExists D u s) = Inr False \<and> refs_abs s n = {} \<and> (d = '''' \<or> is_ok (dr_lookup D d (vs_world s))) \<and>
          t = Purge D n (fst (volumeExists D u s)))"

definition must_create :: "'w drivers \<Rightarrow> string \<Rightarrow> string \<Rightarrow> 'w volume_store \<Rightarrow> 'w volume_store \<Rightarrow> bool" where
  "must_create D n d t t0 \<longleftrightarrow>
     (if d = '''' then fst (getVolume D n t) = t0 \<and> \<not> is_ok (snd (getVolume D n t)) else t0 = t)"

lemma goes_on_run:
  assumes "vs_inv s" "goes_on D n d s t" "CreateWithRef D n d ref opts labels s = (s', r)"
  shows "getNamed n t = None \<and> CreateWithRef D n d ref opts labels t = (s', r)"
proof (cases "getNamed n s")
  case None
  then show ?thesis using assms by (simp add: goes_on_def)
next
  case (Some u)
  obtain s1 where x: "volumeExists D u s = (s1, Inr False)" "t = Purge D n s1"
    using assms(2) Some by (cases "volumeExists D u s") (simp add: goes_on_def)
  have "d = '''' \<or> (\<exists>vd. dr_lookup D d (vs_world s) = Inr vd)" "refs_abs s n = {}"
    using assms(2) Some by (auto simp: goes_on_def is_ok_def split: sum.splits)
  then obtain vd where "(if d = '''' then Inr None else map_sum id Some (dr_lookup D d (vs_world s))) = Inr vd"
    by (cases "d = ''''") auto
  from create_known [OF assms(1) Some this x(1) assms(3)] \<open>refs_abs s n = {}\<close> x(2) show ?thesis by simp
qed

lemma create_made:
  assumes "getNamed n s = None" "must_create D n d s s0" "CreateWithRef D n d ref opts labels s = (s', r)"
  shows "case dr_acquire D d (vs_world s0) of
      (w1, Inl e) \<Rightarrow> r = Inl (OpErr ''create'' n [] (DriverError e))
    | (w1, Inr vd) \<Rightarrow>
       (case dr_get D (dv_Name vd) n w1 of
          (w2, Some v, e) \<Rightarrow> r = Inr v \<and> vs_db s' = vs_db s0
        | (w2, None, e) \<Rightarrow>
           (case dr_create D (dv_Name vd) n opts w2 of
              (w3, Inl e) \<Rightarrow> r = Inl (OpErr ''create'' n [] (DriverError e))
            | (w3, Inr v) \<Rightarrow>
               if snd (dr_write D w3)
               then r = Inr (wrap_volume v labels (dv_Scope vd) opts) \<and>
                 gm_get (vs_db s') n = Some (Some \<lparr>vm_Name = n, vm_Driver = dv_Name vd, vm_Labels = labels, vm_Options = opts\<rparr>)
               else r = Inl (OpErr ''create'' n [] DatabaseError)))"
proof -
  have none: "checkConflict D n d s = (s, Inr None)" using assms(1) by (simp add: checkConflict_def)
  have "vs_create D n d opts labels s = create_new D n d opts labels s0"
  proof (cases "d = ''''")
    case True
    then obtain e where "getVolume D n s = (s0, Inl e)"
      using assms(2) True by (cases "getVolume D n s"; cases "snd (getVolume D n s)") (auto simp: must_create_def)
    then show ?thesis using True none by (simp add: vs_create_def)
  qed (use assms(2) none in \<open>simp add: vs_create_def must_create_def\<close>)
  then have "CreateWithRef D n d ref opts labels s =
     (case create_new D n d opts labels s0 of
        (s1, Inl e) \<Rightarrow> (s1, Inl (if is_OpErr e then e else OpErr ''create'' n [] e))
      | (s1, Inr v) \<Rightarrow> (setNamed v ref s1, Inr v))" by (simp add: CreateWithRef_def)
  then show ?thesis
    using assms(3) by (auto simp: create_new_def setMeta_def setNamed_def is_OpErr_def Let_def
        split: prod.splits sum.splits option.splits if_splits bool.splits)
qed

lemma create_found:
  assumes "getNamed n s = None" "d = ''''" "CreateWithRef D n d ref opts labels s = (s', r)"
  shows "gm_get (vs_db s) n = Some (Some meta) \<and> vm_Driver meta \<noteq> '''' \<and> lookupVolume D (vm_Driver meta) n s = (s1, Inr (Some v)) \<Longrightarrow>
      \<exists>scope. r = Inr (wrap_volume v (vm_Labels meta) scope (vm_Options meta))"
    and "gm_get (vs_db s) n = None \<and> dr_all D (vs_world s) = Inr ds \<and> probe_drivers D ds n s = (s1, Some (vd, v)) \<and> snd (dr_write D (vs_world s1)) \<Longrightarrow>
      r = Inr (wrap_volume v [] (dv_Scope vd) []) \<and>
      gm_get (vs_db s') n = Some (Some \<lparr>vm_Name = '''', vm_Driver = vol_DriverName v, vm_Labels = [], vm_Options = []\<rparr>)"
  using assms
  by (auto simp: CreateWithRef_def vs_create_def checkConflict_def getVolume_def getMeta_def getNamed_def setMeta_def setNamed_def Let_def
      split: prod.splits)

lemma create_goes_on:
  assumes "getNamed n t = None" "CreateWithRef D n d ref opts labels t = (s', r)"
  shows "
       (\<forall>meta s1 v. d = '''' \<and> gm_get (vs_db t) n = Some (Some meta) \<and> vm_Driver meta \<noteq> '''' \<and>
         lookupVolume D (vm_Driver meta) n t = (s1, Inr (Some v)) \<longrightarrow>
           (\<exists>scope. r = Inr (wrap_volume v (vm_Labels meta) scope (vm_Options meta)))) \<and>
       (\<forall>ds s1 vd v. d = '''' \<and> gm_get (vs_db t) n = None \<and> dr_all D (vs_world t) = Inr ds \<and>
         probe_drivers D ds n t = (s1, Some (vd, v)) \<and> snd (dr_write D (vs_world s1)) \<longrightarrow>
           r = Inr (wrap_volume v [] (dv_Scope vd) []) \<and>
           gm_get (vs_db s') n = Some (Some \<lparr>vm_Name = '''', vm_Driver = vol_DriverName v, vm_Labels = [], vm_Options = []\<rparr>)) \<and>
       (\<forall>s0. must_create D n d t s0 \<longrightarrow>
         (case dr_acquire D d (vs_world s0) of
            (w1, Inl e) \<Rightarrow> r = Inl (OpErr ''create'' n [] (DriverError e))
          | (w1, Inr vd) \<Rightarrow>
             (case dr_get D (dv_Name vd) n w1 of
                (w2, Some v, e) \<Rightarrow> r = Inr v \<and> vs_db s' = vs_db s0
              | (w2, None, e) \<Rightarrow>
                 (case dr_create D (dv_Name vd) n opts w2 of
                    (w3, Inl e) \<Rightarrow> r = Inl (OpErr ''create'' n [] (DriverError e))
                  | (w3, Inr v) \<Rightarrow>
                     if snd (dr_write D w3)
                     then r = Inr (wrap_volume v labels (dv_Scope vd) opts) \<and>
                       gm_get (vs_db s') n = Some (Some \<lparr>vm_Name = n, vm_Driver = dv_Name vd, vm_Labels = labels, vm_Options = opts\<rparr>)
                     else r = Inl (OpErr ''create'' n [] DatabaseError)))))"
  by (intro conjI) (use create_found [OF assms(1) _ assms(2)] create_made [OF assms(1) _ assms(2)] in blast)+

text \<open>
  C14. Creating a volume. A volume that comes back has the name asked for, is the known one from then on and is
  referenced by the caller. Whether it fails or not, references are kept and no other volume is touched.
  A known volume: the creation fails when the driver asked for is unknown, and it is a conflict when the volume's own driver
  cannot be asked, when that driver still has it and another one was asked for, and when it no longer has it but the volume is
  referenced. It is the answer when its driver still has it; and when it is stale and not referenced it is forgotten, and the
  creation goes on as for an unknown name. An unknown name without a driver is first looked for on record and in
  all drivers. What is then not found is made: the answer is what the driver already has, with nothing
  recorded, or a new volume, with its driver, labels and options on disk; the errors of finding the driver, of making the
  volume and of recording it are the creation's.
\<close>

theorem volume_create_result:
  assumes "drivers_named D" "vs_run D ops (NewVolumeStore D db w) = (s, es)"
    and "CreateWithRef D n d ref opts labels s = (s', r)"
  shows "(\<forall>v. r = Inr v \<longrightarrow> vol_Name v = n \<and> getNamed n s' = Some v \<and> (ref \<noteq> '''' \<longrightarrow> ref \<in> refs_abs s' n)) \<and>
    (\<forall>m. refs_abs s m \<subseteq> refs_abs s' m \<and> (m \<noteq> n \<longrightarrow> refs_abs s' m = refs_abs s m \<and> getNamed m s' = getNamed m s)) \<and>
    (\<forall>u s1 x. getNamed n s = Some u \<and> volumeExists D u s = (s1, x) \<longrightarrow>
       (case (if d = '''' then Inr None else map_sum id Some (dr_lookup D d (vs_world s))) of
          Inl e \<Rightarrow> r = Inl (OpErr ''create'' n [] (DriverError e))
        | Inr vd \<Rightarrow>
           (case x of
              Inl e \<Rightarrow> r = Inl (OpErr ''create'' n [] (NameConflict Unchecked))
            | Inr True \<Rightarrow>
                if vd = None \<or> vol_DriverName u = dv_Name (the vd) then r = Inr u
                else r = Inl (OpErr ''create'' n [] (NameConflict (OtherDriver (vol_DriverName u))))
            | Inr False \<Rightarrow>
                if refs_abs s n \<noteq> {} then r = Inl (OpErr ''create'' n [] (NameConflict StillReferenced))
                else goes_on D n d s (Purge D n s1)))) \<and>
    (\<forall>t. goes_on D n d s t \<longrightarrow>
       (\<forall>meta s1 v. d = '''' \<and> gm_get (vs_db t) n = Some (Some meta) \<and> vm_Driver meta \<noteq> '''' \<and>
         lookupVolume D (vm_Driver meta) n t = (s1, Inr (Some v)) \<longrightarrow>
           (\<exists>scope. r = Inr (wrap_volume v (vm_Labels meta) scope (vm_Options meta)))) \<and>
       (\<forall>ds s1 vd v. d = '''' \<and> gm_get (vs_db t) n = None \<and> dr_all D (vs_world t) = Inr ds \<and>
         probe_drivers D ds n t = (s1, Some (vd, v)) \<and> snd (dr_write D (vs_world s1)) \<longrightarrow>
           r = Inr (wrap_volume v [] (dv_Scope vd) []) \<and>
           gm_get (vs_db s') n = Some (Some \<lparr>vm_Name = '''', vm_Driver = vol_DriverName v, vm_Labels = [], vm_Options = []\<rparr>)) \<and>
       (\<forall>s0. must_create D n d t s0 \<longrightarrow>
         (case dr_acquire D d (vs_world s0) of
            (w1, Inl e) \<Rightarrow> r = Inl (OpErr ''create'' n [] (DriverError e))
          | (w1, Inr vd) \<Rightarrow>
             (case dr_get D (dv_Name vd) n w1 of
                (w2, Some v, e) \<Rightarrow> r = Inr v \<and> vs_db s' = vs_db s0
              | (w2, None, e) \<Rightarrow>
                 (case dr_create D (dv_Name vd) n opts w2 of
                    (w3, Inl e) \<Rightarrow> r = Inl (OpErr ''create'' n [] (DriverError e))
                  | (w3, Inr v) \<Rightarrow>
                     if snd (dr_write D w3)
                     then r = Inr (wrap_volume v labels (dv_Scope vd) opts) \<and>
                       gm_get (vs_db s') n = Some (Some \<lparr>vm_Name = n, vm_Driver = dv_Name vd, vm_Labels = labels, vm_Options = opts\<rparr>)
                     else r = Inl (OpErr ''create'' n [] DatabaseError))))))"
proof -
  have inv: "vs_inv s"
    using vs_run_refs [OF assms(1) _ assms(2)] NewVolumeStore_inv [OF assms(1), of db w] by simp
  show ?thesis
  proof (intro conjI)
  show "\<forall>v. r = Inr v \<longrightarrow> vol_Name v = n \<and> getNamed n s' = Some v \<and> (ref \<noteq> '''' \<longrightarrow> ref \<in> refs_abs s' n)"
  proof (intro allI impI)
    fix v assume "r = Inr v"
    with assms(1) inv assms(3) show "vol_Name v = n \<and> getNamed n s' = Some v \<and> (ref \<noteq> '''' \<longrightarrow> ref \<in> refs_abs s' n)"
      by (cases rule: CreateWithRef_cases) (force simp: good_volume_def setNamed_views(1) refs_abs_setNamed)+
  qed
  show "\<forall>m. refs_abs s m \<subseteq> refs_abs s' m \<and> (m \<noteq> n \<longrightarrow> refs_abs s' m = refs_abs s m \<and> getNamed m s' = getNamed m s)"
    using create_frame [OF assms(1) inv assms(3)] by simp
  show "\<forall>u s1 x. getNamed n s = Some u \<and> volumeExists D u s = (s1, x) \<longrightarrow>
       (case (if d = '''' then Inr None else map_sum id Some (dr_lookup D d (vs_world s))) of
          Inl e \<Rightarrow> r = Inl (OpErr ''create'' n [] (DriverError e))
        | Inr vd \<Rightarrow>
           (case x of
              Inl e \<Rightarrow> r = Inl (OpErr ''create'' n [] (NameConflict Unchecked))
            | Inr True \<Rightarrow>
                if vd = None \<or> vol_DriverName u = dv_Name (the vd) then r = Inr u
                else r = Inl (OpErr ''create'' n [] (NameConflict (OtherDriver (vol_DriverName u))))
            | Inr False \<Rightarrow>
                if refs_abs s n \<noteq> {} then r = Inl (OpErr ''create'' n [] (NameConflict StillReferenced))
                else goes_on D n d s (Purge D n s1)))"
    using create_known [OF inv _ refl _ assms(3)]
    by (fastforce simp: goes_on_def is_ok_def split: sum.splits bool.splits if_splits)
  qed (rule allI, rule impI, drule goes_on_run [OF inv _ assms(3)], elim conjE, rule create_goes_on, assumption+)
qed

text \<open>The known volume is returned and gets one more reference.\<close>

theorem volume_create_result_witness:
  "snd (CreateWithRef ex_drivers ''data'' ''local'' ''c3'' [] [] (fst ex_volumes)) = Inr (ex_volume ''data'') \<and>
   {''c2'', ''c3''} \<subseteq> refs_abs (fst (CreateWithRef ex_drivers ''data'' ''local'' ''c3'' [] [] (fst ex_volumes))) ''data''"
proof -
  obtain s es where run: "vs_run ex_drivers ex_volume_ops (NewVolumeStore ex_drivers [] [''old'']) = (s, es)" by fastforce
  have s: "fst ex_volumes = s" by (simp add: ex_volumes_def run)
  obtain s' r where c: "CreateWithRef ex_drivers ''data'' ''local'' ''c3'' [] [] s = (s', r)" by fastforce
  have facts: "getNamed ''data'' (fst ex_volumes) = Some (ex_volume ''data'')"
    "snd (volumeExists ex_drivers (ex_volume ''data'') (fst ex_volumes)) = Inr True"
    "getRefs ''data'' (fst ex_volumes) = [''c2'']" by code_simp+
  have local: "dr_lookup ex_drivers ''local'' (vs_world s) = Inr ex_local" by (simp add: ex_drivers_def)
  note main = volume_create_result [OF ex_drivers_named run c]
  note known = main [THEN conjunct2, THEN conjunct2, THEN conjunct1, THEN spec, of "ex_volume ''data''",
      THEN spec, of "fst (volumeExists ex_drivers (ex_volume ''data'') s)", THEN spec, of "Inr True"]
  have driver: "vol_DriverName (ex_volume ''data'') = dv_Name ex_local" by (simp add: ex_volume_def ex_local_def)
  have r: "r = Inr (ex_volume ''data'')" using known facts local driver unfolding s by (simp add: prod_eq_iff)
  have "''c2'' \<in> refs_abs s ''data''" using facts(3) unfolding s refs_abs_def by simp
  moreover have "refs_abs s ''data'' \<subseteq> refs_abs s' ''data''" using main [THEN conjunct2, THEN conjunct1] by blast
  moreover have "''c3'' \<in> refs_abs s' ''data''" using main [THEN conjunct1, THEN spec, of "ex_volume ''data''"] r by simp
  ultimately have "''c3'' \<in> refs_abs s' ''data''" "''c2'' \<in> refs_abs s' ''data''" by auto
  then show ?thesis using r c unfolding s by simp
qed

text \<open>
  C15. Loading the volumes. After a restart, when every driver answers and the database can be written, a
  volume whose entry carries its name is known again with its labels and options, unless its driver does not have it any more, which
  drops the entry, or is itself unknown, which keeps the entry. A volume whose entry was written by a lookup carries no name: it is not known
  again and its entry stays.
\<close>

theorem volume_restart:
  assumes "drivers_named D" "vs_run D ops (NewVolumeStore D [] w) = (s, es)" "gm_get (vs_db s) n = Some (Some meta)"
    and "drivers_named D'" "drivers_answer D' known has" "\<forall>d. has d '''' = None" "n \<noteq> ''''"
    and "t = NewVolumeStore D' (vs_db s) w'"
  shows "if vm_Name meta = n
    then cached_as n t = (case found_volume known has meta of None \<Rightarrow> (None, [], []) | Some v \<Rightarrow> (Some v, vm_Labels meta, vm_Options meta)) \<and>
         gm_get (vs_db t) n = (if gone_volume known has meta then None else Some (Some meta))
    else vm_Name meta = '''' \<and> cached_as n t = (None, [], []) \<and> gm_get (vs_db t) n = Some (Some meta)"
proof -
  have db: "db_ok (vs_db s)"
    using vs_run_db [OF assms(1) _ _ assms(2)] NewVolumeStore_inv [OF assms(1), of "[]" w]
    by (simp add: NewVolumeStore_empty db_ok_def)
  let ?e = "\<lparr>vs_names = [], vs_refs = [], vs_labels = [], vs_options = [], vs_db = vs_db s, vs_world = w'\<rparr>"
  have t: "t = vs_restore D' ?e" by (simp add: assms(8) NewVolumeStore_def)
  have e: "db_ok (vs_db ?e)" "gm_wf (vs_db ?e)" using db by (simp_all add: db_ok_def)
  note r = vs_restore_answer [OF assms(4,5) e(1) t, of n n]
  have empty: "cached_as n ?e = (None, [], [])" by (simp add: cached_as_def getNamed_def gm_list_def)
  have key: "vm_Name m = k \<or> vm_Name m = ''''" if "gm_get (vs_db s) k = Some (Some m)" for k m
    using db_okD(1) [OF db that] .
  have unique: "m = meta" if m: "m \<in> set (listMeta ?e)" "vm_Name m = n" for m
  proof -
    obtain k where k: "gm_get (vs_db s) k = Some (Some m)" using m(1) listMeta_in [OF e(2), of m] by auto
    then have "k = n" using key [OF k] m(2) assms(7) by auto
    then show ?thesis using k assms(3) by simp
  qed
  have in_e: "meta \<in> set (listMeta ?e)" using listMeta_in [OF e(2), of meta] assms(3) by auto
  show ?thesis
  proof (cases "vm_Name meta = n")
    case True
    have gone: "(\<exists>m\<in>set (listMeta ?e). gone_volume known has m \<and> vm_Name m = n) = gone_volume known has meta"
      using unique in_e True by blast
    show ?thesis
    proof (cases "found_volume known has meta")
      case None
      have "found_volume known has m = None" if "m \<in> set (listMeta ?e)" "vm_Name m = n" for m
        using unique [OF that] None by simp
      then have "cached_as n t = (None, [], [])"
        using conjunct2 [OF r] fold_found_none [of "listMeta ?e" n known has] empty by simp
      then show ?thesis using True None r gone assms(3) by simp
    next
      case (Some v)
      have "cached_as n t = (Some v, vm_Labels meta, vm_Options meta)"
        using conjunct2 [OF r] fold_found_some [OF in_e unique True Some] by simp
      then show ?thesis using True Some r gone assms(3) by simp
    qed
  next
    case False
    have none: "\<not> (\<exists>m\<in>set (listMeta ?e). vm_Name m = n)" using unique False by blast
    then have "cached_as n t = (None, [], [])"
      using conjunct2 [OF r] fold_found_none [of "listMeta ?e" n known has] empty by auto
    then show ?thesis using False none r key [OF assms(3)] assms(3) by auto
  qed
qed

text \<open>The volume ''data'' was created, ''old'' only looked up; both exist in their driver after the restart.\<close>

theorem volume_restart_witness:
  "cached_as ''data'' (NewVolumeStore (ex_answer [''data'', ''old'']) (vs_db (fst ex_volumes)) ()) = (Some (ex_volume ''data''), [], []) \<and>
   getNamed ''old'' (NewVolumeStore (ex_answer [''data'', ''old'']) (vs_db (fst ex_volumes)) ()) = None"
proof -
  obtain s es where run: "vs_run ex_drivers ex_volume_ops (NewVolumeStore ex_drivers [] [''old'']) = (s, es)" by fastforce
  have s: "fst ex_volumes = s" by (simp add: ex_volumes_def run)
  have "vs_db (fst ex_volumes) =
     [(''data'', Some \<lparr>vm_Name = ''data'', vm_Driver = ''local'', vm_Labels = [], vm_Options = []\<rparr>),
      (''old'', Some \<lparr>vm_Name = '''', vm_Driver = ''local'', vm_Labels = [], vm_Options = []\<rparr>)]" by code_simp
  then have db: "gm_get (vs_db s) ''data'' = Some (Some \<lparr>vm_Name = ''data'', vm_Driver = ''local'', vm_Labels = [], vm_Options = []\<rparr>)"
      "gm_get (vs_db s) ''old'' = Some (Some \<lparr>vm_Name = '''', vm_Driver = ''local'', vm_Labels = [], vm_Options = []\<rparr>)"
    by (simp_all add: s)
  note main = volume_restart [OF ex_drivers_named run _ ex_answer_named [of "[''data'', ''old'']"] ex_answer_answers [of "[''data'', ''old'']"] _ _ refl, of _ _ "()"]
  show ?thesis
    using main [OF db(1)] main [OF db(2)] unfolding s by (simp add: found_volume_def ex_local_def cached_as_def)
qed



section \<open>Observations\<close>

text \<open>
  The purge of \<open>VolumeRm\<close> comes after the lock of the name is free again: a client that creates the volume anew in
  between, with a reference of its container, loses the volume and the reference, and the volume can then be removed while the container
  uses it.
\<close>

lemma volume_rm_race:
  assumes "vs_Remove D v s = (s1, None)" "CreateWithRef D (vol_Name v) d ref opts labels s1 = (s2, Inr u)"
  shows "let s3 = Purge D (vol_Name v) s2 in getNamed (vol_Name v) s3 = None \<and> refs_abs s3 (vol_Name v) = {}"
  by (simp add: Let_def refs_abs_forgot [OF Purge_forgot] forgot_views [OF Purge_forgot])

text \<open>A call with a reference for another driver replaces the known volume, and the references of both are one set.\<close>

lemma GetWithRef_replaces:
  assumes "drivers_named D" "GetWithRef D n d ref s = (s', Inr u)"
  shows "\<exists>v. getNamed n s' = Some v \<and> refs_abs s' n = refs_abs s n \<union> (if ref = '''' then {} else {ref})"
proof -
  from assms(2) obtain vd w v where v: "dr_get D (dv_Name (vd :: driver)) n (vs_world s) = (w, Some v, None)"
      "s' = setNamed v ref (s\<lparr>vs_world := w\<rparr>)"
    by (auto simp: GetWithRef_def Let_def split: sum.splits prod.splits option.splits)
  have "good_volume n v" by (rule drivers_namedD(1) [OF assms(1) v(1)])
  moreover have "refs_abs (s\<lparr>vs_world := w\<rparr>) = refs_abs s" by (rule refs_abs_same) (simp add: same_maps_def)
  ultimately show ?thesis using v(2) by (auto simp: setNamed_views(1) refs_abs_setNamed good_volume_def)
qed

end
