(* ===== verification/Symlink.thy ===== *)
theory Symlink
  imports GoPrelude
begin

text \<open>
  Following symbolic links inside a directory (pkg/symlink/fs.go), as copying from and to a container does: the code's
  loop over strings, a walk over the components of the path, their equivalence, and that the result stays inside.

  What \<open>os.Lstat\<close> and \<open>os.Readlink\<close> say of a path is a parameter; it does not change during the call, as the
  documentation of the function asks for. Paths are those of Unix.
\<close>

section \<open>The code\<close>

text \<open>What is at a path: nothing, something other than a link, a link and its target, or an error.\<close>

datatype entry = Absent | NotLink | LinkTo string | Unreadable

datatype symlink_error = NotIn string string | TooManyLinks string | LstatFailed string

definition isDriveOrRoot :: "string \<Rightarrow> bool" where
  "isDriveOrRoot p \<longleftrightarrow> p = ''/''"

definition IsAbs :: "string \<Rightarrow> bool" where
  "IsAbs p \<longleftrightarrow> take 1 p = ''/''"

definition fp_Abs :: "string \<Rightarrow> string \<Rightarrow> string" where
  "fp_Abs cwd p = (if IsAbs p then path_clean p else path_join [cwd, p])"

definition maxIter :: nat where
  "maxIter = 255"

text \<open>The loop: \<open>n\<close> counts its rounds, \<open>b\<close> is the buffer, \<open>path\<close> what is left.\<close>

function eval_loop :: "(string \<Rightarrow> entry) \<Rightarrow> string \<Rightarrow> string \<Rightarrow> nat \<Rightarrow> string \<Rightarrow> string \<Rightarrow> symlink_error + string" where
  "eval_loop lstat root originalPath n b path =
     (if path = '''' then Inr b
      else if n > maxIter then Inl (TooManyLinks originalPath)
      else
        (let (p, rest) = (case split_first (CHR ''/'') path of (p, None) \<Rightarrow> (p, '''') | (p, Some rest) \<Rightarrow> (p, rest))
         in if p = '''' then eval_loop lstat root originalPath (n + 1) b rest
            else
              (let cleanP = path_clean (''/'' @ b @ p)
               in if isDriveOrRoot cleanP then eval_loop lstat root originalPath (n + 1) '''' rest
                  else
                    (let fullP = path_clean (root @ cleanP)
                     in (case lstat fullP of
                           Absent \<Rightarrow> eval_loop lstat root originalPath (n + 1) (b @ p @ ''/'') rest
                         | Unreadable \<Rightarrow> Inl (LstatFailed fullP)
                         | NotLink \<Rightarrow> eval_loop lstat root originalPath (n + 1) (b @ p @ ''/'') rest
                         | LinkTo dest \<Rightarrow>
                             eval_loop lstat root originalPath (n + 1) (if IsAbs dest then '''' else b) (dest @ ''/'' @ rest))))))"
  by pat_completeness auto
termination
  by (relation "measure (\<lambda>(_, _, _, n, _, _). 256 - n)") (auto simp: maxIter_def)

definition evalSymlinksInScope :: "(string \<Rightarrow> entry) \<Rightarrow> string \<Rightarrow> string \<Rightarrow> symlink_error + string" where
  "evalSymlinksInScope lstat path root0 =
     (let root = path_clean root0
      in if path = root then Inr path
         else if take (length root) path \<noteq> root then Inl (NotIn path root)
         else
           (let path1 = drop (length root) path;
                path2 = (if root = ''/'' then ''/'' @ path1 else path1)
            in if take 1 path2 \<noteq> ''/'' then Inl (NotIn path2 root)
               else
                 (case eval_loop lstat root path 0 '''' (path_clean path2) of
                    Inl e \<Rightarrow> Inl e
                  | Inr b \<Rightarrow> Inr (path_clean (root @ path_clean (''/'' @ b))))))"

definition FollowSymlinkInScope :: "(string \<Rightarrow> entry) \<Rightarrow> string \<Rightarrow> string \<Rightarrow> string \<Rightarrow> symlink_error + string" where
  "FollowSymlinkInScope lstat cwd path root = evalSymlinksInScope lstat (fp_Abs cwd path) (fp_Abs cwd root)"

declare eval_loop.simps [simp del]

section \<open>Paths as components\<close>

text \<open>An absolute clean path is the list of its components.\<close>

definition abs_path :: "string list \<Rightarrow> string" where
  "abs_path parts = ''/'' @ join_with ''/'' parts"

definition parts_ok :: "string list \<Rightarrow> bool" where
  "parts_ok parts \<longleftrightarrow> (\<forall>e \<in> set parts. path_part e)"

lemma abs_path_slash [simp]: "take (Suc 0) (abs_path parts) = ''/''"
  by (simp add: abs_path_def)

text \<open>The components a stack ends with when more of them are walked; the stack has the last component first.\<close>

definition push_all :: "string list \<Rightarrow> string list \<Rightarrow> string list" where
  "push_all stack es = foldl (path_push True) stack es"

lemma push_all_simps [simp]:
  "push_all stack [] = stack"
  "push_all stack (e # es) = push_all (path_push True stack e) es"
  "push_all stack (es @ fs) = push_all (push_all stack es) fs"
  by (simp_all add: push_all_def)

lemma path_push_ok: "parts_ok stack \<Longrightarrow> CHR ''/'' \<notin> set e \<Longrightarrow> parts_ok (path_push True stack e)"
proof -
  assume ok: "parts_ok stack" and e: "CHR ''/'' \<notin> set e"
  consider "e = '''' \<or> e = ''.''" | "e = ''..''" | "path_part e" using e by (auto simp: path_part_def)
  then show ?thesis
  proof cases
    case 1
    then show ?thesis using ok by (auto simp: path_push_def)
  next
    case 2
    have "t \<noteq> ''..''" if "t \<in> set stack" for t using ok that by (simp add: parts_ok_def path_part_def)
    then show ?thesis using 2 ok by (cases stack) (simp_all add: path_push_def parts_ok_def)
  next
    case 3
    then show ?thesis using ok by (simp add: path_push_part parts_ok_def)
  qed
qed

lemma push_all_ok: "parts_ok stack \<Longrightarrow> \<forall>e \<in> set es. CHR ''/'' \<notin> set e \<Longrightarrow> parts_ok (push_all stack es)"
  by (induction es arbitrary: stack) (auto intro: path_push_ok)

lemma push_all_parts: "parts_ok es \<Longrightarrow> push_all stack es = rev es @ stack"
  by (induction es arbitrary: stack) (auto simp: parts_ok_def path_push_part)

lemma path_clean_abs: "take 1 s = ''/'' \<Longrightarrow> path_clean s = abs_path (rev (push_all [] (split_all (CHR ''/'') s)))"
  by (simp add: path_clean_def abs_path_def push_all_def)

lemma path_clean_parts:
  assumes "take 1 s = ''/''"
  obtains parts where "parts_ok parts" "path_clean s = abs_path parts"
proof -
  have "parts_ok (push_all [] (split_all (CHR ''/'') s))"
    by (rule push_all_ok) (use split_all_parts in \<open>auto simp: parts_ok_def\<close>)
  then have "parts_ok (rev (push_all [] (split_all (CHR ''/'') s)))" by (simp add: parts_ok_def)
  then show ?thesis using that path_clean_abs [OF assms] by blast
qed

lemma split_all_join:
  assumes "parts_ok parts" "parts \<noteq> []"
  shows "split_all (CHR ''/'') (join_with ''/'' parts) = parts"
  using assms
proof (induction parts rule: induct_list012)
  case (2 x)
  then show ?case by (simp add: parts_ok_def path_part_def split_all_plain)
next
  case (3 x y zs)
  then have "CHR ''/'' \<notin> set x" "split_all (CHR ''/'') (join_with ''/'' (y # zs)) = y # zs"
    by (simp_all add: parts_ok_def path_part_def)
  then show ?case using split_all_append [of "CHR ''/''" x "join_with ''/'' (y # zs)"] by simp
qed simp

lemma split_all_abs: "parts_ok parts \<Longrightarrow> split_all (CHR ''/'') (abs_path parts) = [] # (if parts = [] then [[]] else parts)"
  by (auto simp: abs_path_def split_all_join)

lemma split_all_concat: "split_all c (a @ b) = butlast (split_all c a) @ (last (split_all c a) @ hd (split_all c b)) # tl (split_all c b)"
proof (induction a)
  case Nil
  then show ?case by (cases "split_all c b") simp_all
next
  case (Cons x a)
  obtain p ps where s: "split_all c a = p # ps" by (cases "split_all c a") simp_all
  show ?case
    using Cons.IH by (cases ps) (simp_all add: s)
qed


lemma split_all_sep: "split_all c (a @ c # b) = split_all c a @ split_all c b"
proof (induction a)
  case (Cons x a)
  obtain p ps where "split_all c a = p # ps" by (cases "split_all c a") simp_all
  then show ?case using Cons.IH by simp
qed simp

lemma path_clean_under:
  assumes "parts_ok rp" "parts_ok ps"
  shows "path_clean (abs_path rp @ abs_path ps) = abs_path (rp @ ps)"
proof -
  have "split_all (CHR ''/'') (abs_path rp @ abs_path ps) =
      split_all (CHR ''/'') (abs_path rp) @ (if ps = [] then [[]] else ps)"
    using split_all_sep [of "CHR ''/''" "abs_path rp" "join_with ''/'' ps"] split_all_join [OF assms(2)]
    by (auto simp: abs_path_def)
  moreover have "push_all [] (split_all (CHR ''/'') (abs_path rp)) = rev rp"
    using assms(1) by (simp add: split_all_abs push_all_parts path_push_def)
  ultimately have "push_all [] (split_all (CHR ''/'') (abs_path rp @ abs_path ps)) = rev (rp @ ps)"
    using assms(2) by (simp add: push_all_parts path_push_def)
  moreover have "take 1 (abs_path rp @ abs_path ps) = ''/''" by (simp add: abs_path_def)
  ultimately show ?thesis by (simp add: path_clean_abs)
qed

lemma path_clean_id: "parts_ok ps \<Longrightarrow> path_clean (abs_path ps) = abs_path ps"
  by (subst path_clean_abs) (simp_all add: split_all_abs push_all_parts path_push_def)

lemma abs_path_inj: "parts_ok ps \<Longrightarrow> parts_ok qs \<Longrightarrow> abs_path ps = abs_path qs \<longleftrightarrow> ps = qs"
proof
  assume ok: "parts_ok ps" "parts_ok qs" and eq: "abs_path ps = abs_path qs"
  have "(if ps = [] then [[]] else ps) = (if qs = [] then [[]] else qs)"
    using split_all_abs [OF ok(1)] split_all_abs [OF ok(2)] eq by simp
  moreover have no: "[] \<notin> set ps" "[] \<notin> set qs" using ok by (simp_all add: parts_ok_def path_part_def) blast+
  moreover have "ps \<noteq> [[]]" "qs \<noteq> [[]]" using no by fastforce+
  ultimately show "ps = qs" by (cases "ps = []"; cases "qs = []") simp_all
qed simp

lemma abs_path_append: "rp \<noteq> [] \<Longrightarrow> qs \<noteq> [] \<Longrightarrow> abs_path (rp @ qs) = abs_path rp @ abs_path qs"
proof -
  assume "rp \<noteq> []" "qs \<noteq> []"
  then have "join_with ''/'' (rp @ qs) = join_with ''/'' rp @ ''/'' @ join_with ''/'' qs"
    by (induction rp rule: induct_list012) (auto simp: neq_Nil_conv)
  then show ?thesis by (simp add: abs_path_def)
qed

text \<open>The buffer holds the components walked so far, links resolved, each followed by a slash.\<close>

definition buffer :: "string list \<Rightarrow> string" where
  "buffer cs = concat (map (\<lambda>c. c @ ''/'') cs)"

lemma split_buffer:
  "\<forall>c \<in> set cs. CHR ''/'' \<notin> set c \<Longrightarrow> split_all (CHR ''/'') (buffer cs @ p) = cs @ split_all (CHR ''/'') p"
  by (induction cs) (auto simp: buffer_def split_all_append)

lemma path_clean_buffer:
  assumes "\<forall>c \<in> set cs. CHR ''/'' \<notin> set c" "CHR ''/'' \<notin> set p"
  shows "path_clean (''/'' @ buffer cs @ p) = abs_path (rev (path_push True (push_all [] cs) p))"
proof -
  have "split_all (CHR ''/'') (''/'' @ buffer cs @ p) = [] # cs @ [p]"
    using split_buffer [OF assms(1), of p] split_all_plain [OF assms(2)] by simp
  then show ?thesis using path_clean_abs [of "''/'' @ buffer cs @ p"] by (simp add: path_push_def [of True "[]" "[]"])
qed

text \<open>The components the loop takes of a path: those between the slashes, but none after a last slash.\<close>

definition comps :: "string \<Rightarrow> string list" where
  "comps p = (let l = split_all (CHR ''/'') p in if last l = '''' then butlast l else l)"

lemma comps_Nil [simp]: "comps [] = []"
  by (simp add: comps_def)

lemma comps_sep: "comps (d @ CHR ''/'' # r) = split_all (CHR ''/'') d @ comps r"
  by (simp add: comps_def split_all_sep Let_def last_append butlast_append)

lemma comps_plain: "CHR ''/'' \<notin> set p \<Longrightarrow> p \<noteq> [] \<Longrightarrow> comps p = [p]"
  by (simp add: comps_def split_all_plain)

lemma comps_notin: "c \<in> set (comps p) \<Longrightarrow> CHR ''/'' \<notin> set c"
  by (auto simp: comps_def Let_def split_all_parts dest: in_set_butlastD split: if_splits)

lemma comps_abs: "parts_ok ps \<Longrightarrow> comps (abs_path ps) = [] # ps"
proof -
  assume ok: "parts_ok ps"
  have "last ps \<noteq> []" if "ps \<noteq> []"
    using ok last_in_set [OF that] by (auto simp: parts_ok_def path_part_def)
  then show ?thesis using split_all_abs [OF ok] by (simp add: comps_def)
qed

section \<open>The walk\<close>

text \<open>
  The reference: the path is resolved component by component as inside a root directory of its own. The directory reached
  is a stack of components; \<^verbatim>\<open>..\<close> goes up and stops at the root, an absolute link starts again at the root.
\<close>

function walk :: "(string \<Rightarrow> entry) \<Rightarrow> string list \<Rightarrow> string \<Rightarrow> nat \<Rightarrow> string list \<Rightarrow> string list \<Rightarrow> symlink_error + string list" where
  "walk lstat rp original n stack [] = Inr stack"
| "walk lstat rp original n stack (c # rest) =
     (if n > maxIter then Inl (TooManyLinks original)
      else if c = '''' then walk lstat rp original (n + 1) stack rest
      else
        (let here = path_push True stack c
         in if here = [] then walk lstat rp original (n + 1) [] rest
            else
              (case lstat (abs_path (rp @ rev here)) of
                 Unreadable \<Rightarrow> Inl (LstatFailed (abs_path (rp @ rev here)))
               | LinkTo dest \<Rightarrow>
                   walk lstat rp original (n + 1) (if IsAbs dest then [] else stack) (split_all (CHR ''/'') dest @ rest)
               | _ \<Rightarrow> walk lstat rp original (n + 1) here rest)))"
  by pat_completeness auto
termination
  by (relation "measure (\<lambda>(_, _, _, n, _, _). 256 - n)") (auto simp: maxIter_def)

declare walk.simps(2) [simp del]

lemma loop_walk:
  assumes "parts_ok rp" "\<forall>c \<in> set cs. CHR ''/'' \<notin> set c"
  shows "map_sum id (\<lambda>b. path_clean (abs_path rp @ path_clean (''/'' @ b))) (eval_loop lstat (abs_path rp) original n (buffer cs) path) =
    map_sum id (\<lambda>st. abs_path (rp @ rev st)) (walk lstat rp original n (push_all [] cs) (comps path))"
  using assms(2)
proof (induction "256 - n" arbitrary: n cs path rule: less_induct)
  case less
  have done_ok: "path_clean (abs_path rp @ path_clean (''/'' @ buffer cs)) = abs_path (rp @ rev (push_all [] cs))"
  proof -
    have "path_clean (''/'' @ buffer cs) = abs_path (rev (push_all [] cs))"
      using path_clean_buffer [OF less.prems, of "[]"] by (simp add: path_push_def)
    moreover have "parts_ok (rev (push_all [] cs))"
      using push_all_ok [of "[]" cs] less.prems by (simp add: parts_ok_def)
    ultimately show ?thesis by (simp add: path_clean_under [OF assms(1)])
  qed
  show ?case
  proof (cases "path = '''' \<or> n > maxIter")
    case True
    show ?thesis
    proof (cases "path = ''''")
      case True
      then show ?thesis using done_ok by (simp add: eval_loop.simps)
    next
      case False
      obtain c rest where "comps path = c # rest"
        by (rule split_first_cases [of "CHR ''/''" path]) (use False in \<open>auto simp: comps_plain comps_sep split_all_plain\<close>)
      then show ?thesis using True False by (simp add: eval_loop.simps [of _ _ _ _ _ path] walk.simps(2))
    qed
  next
    case False
    then have n: "256 - (n + 1) < 256 - n" and ne: "path \<noteq> ''''" and le: "\<not> n > maxIter" by (auto simp: maxIter_def)
    obtain p rest where pr: "(case split_first (CHR ''/'') path of (p, None) \<Rightarrow> (p, '''') | (p, Some rest) \<Rightarrow> (p, rest)) = (p, rest)"
      by fastforce
    have cp: "CHR ''/'' \<notin> set p" "comps path = p # comps rest"
      using pr ne by (cases rule: split_first_cases [of "CHR ''/''" path]; auto simp: comps_plain comps_sep split_all_plain)+
    let ?here = "path_push True (push_all [] cs) p"
    have ok: "parts_ok (rev ?here)"
      using push_all_ok [of "[]" "cs @ [p]"] less.prems cp(1) by (auto simp: parts_ok_def)
    have clean: "path_clean (''/'' @ buffer cs @ p) = abs_path (rev ?here)"
      by (rule path_clean_buffer [OF less.prems cp(1)])
    have full: "path_clean (abs_path rp @ abs_path (rev ?here)) = abs_path (rp @ rev ?here)"
      by (rule path_clean_under [OF assms(1) ok])
    have root: "isDriveOrRoot (abs_path (rev ?here)) \<longleftrightarrow> ?here = []"
      using abs_path_inj [OF ok, of "[]"] by (auto simp: isDriveOrRoot_def abs_path_def parts_ok_def)
    have buf: "buffer cs @ p @ ''/'' = buffer (cs @ [p])" "push_all [] (cs @ [p]) = ?here" by (simp_all add: buffer_def)
    have cs: "\<forall>c \<in> set (cs @ [p]). CHR ''/'' \<notin> set c" using less.prems cp(1) by simp
    note IH = less.hyps [OF n]
    have link: "comps (dest @ ''/'' @ rest) = split_all (CHR ''/'') dest @ comps rest" for dest
      using comps_sep [of dest rest] by simp
    have reset: "'''' = buffer []" by (simp add: buffer_def)
    have loop: "eval_loop lstat (abs_path rp) original n (buffer cs) path =
        (if p = '''' then eval_loop lstat (abs_path rp) original (n + 1) (buffer cs) rest
         else if ?here = [] then eval_loop lstat (abs_path rp) original (n + 1) '''' rest
         else (case lstat (abs_path (rp @ rev ?here)) of
                 Absent \<Rightarrow> eval_loop lstat (abs_path rp) original (n + 1) (buffer cs @ p @ ''/'') rest
               | Unreadable \<Rightarrow> Inl (LstatFailed (abs_path (rp @ rev ?here)))
               | NotLink \<Rightarrow> eval_loop lstat (abs_path rp) original (n + 1) (buffer cs @ p @ ''/'') rest
               | LinkTo dest \<Rightarrow> eval_loop lstat (abs_path rp) original (n + 1) (if IsAbs dest then '''' else buffer cs) (dest @ ''/'' @ rest)))"
      unfolding eval_loop.simps [of _ _ _ _ _ path] if_not_P [OF ne] if_not_P [OF le] pr Let_def prod.case clean root full by (rule refl)
    have step: "walk lstat rp original n (push_all [] cs) (p # comps rest) =
        (if p = '''' then walk lstat rp original (n + 1) (push_all [] cs) (comps rest)
         else if ?here = [] then walk lstat rp original (n + 1) [] (comps rest)
         else (case lstat (abs_path (rp @ rev ?here)) of
                 Unreadable \<Rightarrow> Inl (LstatFailed (abs_path (rp @ rev ?here)))
               | LinkTo dest \<Rightarrow>
                   walk lstat rp original (n + 1) (if IsAbs dest then [] else push_all [] cs) (split_all (CHR ''/'') dest @ comps rest)
               | _ \<Rightarrow> walk lstat rp original (n + 1) ?here (comps rest)))"
      unfolding walk.simps(2) if_not_P [OF le] Let_def by (rule refl)
    have here: "map_sum id (\<lambda>b. path_clean (abs_path rp @ path_clean (''/'' @ b)))
          (eval_loop lstat (abs_path rp) original (n + 1) (buffer cs @ p @ ''/'') rest) =
        map_sum id (\<lambda>st. abs_path (rp @ rev st)) (walk lstat rp original (n + 1) ?here (comps rest))"
      using IH [OF cs, of rest] unfolding buf .
    have start: "map_sum id (\<lambda>b. path_clean (abs_path rp @ path_clean (''/'' @ b)))
          (eval_loop lstat (abs_path rp) original (n + 1) '''' r) =
        map_sum id (\<lambda>st. abs_path (rp @ rev st)) (walk lstat rp original (n + 1) [] (comps r))" for r
      using IH [of "[]" r] unfolding reset by simp
    show ?thesis
    proof (cases "p = '''' \<or> ?here = []")
      case True
      then show ?thesis
        unfolding cp(2) loop step using IH [OF less.prems, of rest] start [of rest] by (cases "p = ''''") simp_all
    next
      case False
      then have F: "p \<noteq> ''''" "?here \<noteq> []" by auto
      show ?thesis
      proof (cases "lstat (abs_path (rp @ rev ?here))")
        case (LinkTo dest)
        show ?thesis
          unfolding cp(2) loop step if_not_P [OF F(1)] if_not_P [OF F(2)] LinkTo entry.case
          using IH [OF less.prems, of "dest @ ''/'' @ rest"] start [of "dest @ ''/'' @ rest"]
          by (cases "IsAbs dest") (simp_all only: link if_True if_False)
      qed (use F here in \<open>simp_all add: cp(2) loop step\<close>)
    qed
  qed
qed


section \<open>From strings to components\<close>

lemma take_append_eq: "take (length a) b = a \<longleftrightarrow> (\<exists>c. b = a @ c)"
  by (metis append_eq_conv_conj)

text \<open>The checks of the code on the strings are that the components of the root are the first ones of the path.\<close>

lemma under_root:
  assumes "parts_ok pp" "parts_ok rp" "rp \<noteq> []" "abs_path pp = abs_path rp @ c" "take 1 c = ''/''"
  shows "\<exists>qs. qs \<noteq> [] \<and> parts_ok qs \<and> pp = rp @ qs \<and> c = abs_path qs"
proof -
  obtain q where q: "c = CHR ''/'' # q" using assms(5) by (cases c) auto
  have "split_all (CHR ''/'') (abs_path pp) = split_all (CHR ''/'') (abs_path rp) @ split_all (CHR ''/'') q"
    using split_all_sep [of "CHR ''/''" "abs_path rp" q] assms(4) q by simp
  then have "(if pp = [] then [[]] else pp) = rp @ split_all (CHR ''/'') q"
    using split_all_abs [OF assms(1)] split_all_abs [OF assms(2)] assms(3) by simp
  then have pp: "pp = rp @ split_all (CHR ''/'') q"
    using assms(2,3) by (cases rp) (auto simp: parts_ok_def path_part_def split: if_splits)
  moreover have "c = abs_path (split_all (CHR ''/'') q)" using join_split_all [of "CHR ''/''" q] q by (simp add: abs_path_def)
  moreover have "parts_ok (split_all (CHR ''/'') q)" using assms(1) unfolding pp by (simp add: parts_ok_def)
  ultimately show ?thesis using split_all_ne by blast
qed

lemma root_prefix:
  assumes "parts_ok pp" "parts_ok rp" "rp \<noteq> []" "pp \<noteq> rp"
  shows "(\<exists>c. abs_path pp = abs_path rp @ c \<and> take 1 c = ''/'') \<longleftrightarrow> take (length rp) pp = rp"
proof
  assume "\<exists>c. abs_path pp = abs_path rp @ c \<and> take 1 c = ''/''"
  then show "take (length rp) pp = rp" using under_root [OF assms(1-3)] by auto
next
  assume "take (length rp) pp = rp"
  then obtain qs where qs: "pp = rp @ qs" by (metis append_take_drop_id)
  then have "qs \<noteq> []" using assms(4) by auto
  then show "\<exists>c. abs_path pp = abs_path rp @ c \<and> take 1 c = ''/''"
    using abs_path_append [OF assms(3), of qs] qs by (intro exI [of _ "abs_path qs"]) simp
qed

definition walk_from :: "(string \<Rightarrow> entry) \<Rightarrow> string list \<Rightarrow> string list \<Rightarrow> symlink_error + string" where
  "walk_from lstat rp pp =
     map_sum id (\<lambda>st. abs_path (rp @ rev st)) (walk lstat rp (abs_path pp) 0 [] ([] # drop (length rp) pp))"

lemma eval_loop_walk:
  assumes "parts_ok rp" "parts_ok qs"
  shows "(case eval_loop lstat (abs_path rp) original 0 '''' (path_clean (abs_path qs)) of
      Inl e \<Rightarrow> Inl e | Inr b \<Rightarrow> Inr (path_clean (abs_path rp @ path_clean (''/'' @ b)))) =
    map_sum id (\<lambda>st. abs_path (rp @ rev st)) (walk lstat rp original 0 [] ([] # qs))"
proof -
  have "map_sum id (\<lambda>b. path_clean (abs_path rp @ path_clean (''/'' @ b))) (eval_loop lstat (abs_path rp) original 0 '''' (abs_path qs)) =
    map_sum id (\<lambda>st. abs_path (rp @ rev st)) (walk lstat rp original 0 [] ([] # qs))"
    using loop_walk [OF assms(1), of "[]" lstat original 0 "abs_path qs"] by (simp add: buffer_def comps_abs [OF assms(2)])
  moreover have "(case x of Inl e \<Rightarrow> Inl e | Inr b \<Rightarrow> Inr (f b)) = map_sum id f x" for x :: "symlink_error + string" and f :: "string \<Rightarrow> string"
    by (cases x) simp_all
  ultimately show ?thesis by (simp only: path_clean_id [OF assms(2)])
qed

lemma evalSymlinksInScope_walk:
  assumes "parts_ok pp" "parts_ok rp"
  shows "evalSymlinksInScope lstat (abs_path pp) (abs_path rp) =
    (if pp = rp then Inr (abs_path pp)
     else if take (length rp) pp = rp then walk_from lstat rp pp
     else Inl (NotIn (if take (length (abs_path rp)) (abs_path pp) = abs_path rp then drop (length (abs_path rp)) (abs_path pp)
                      else abs_path pp) (abs_path rp)))"
proof (cases "pp = rp")
  case True
  then show ?thesis by (simp add: evalSymlinksInScope_def path_clean_id [OF assms(2)])
next
  case ne: False
  then have ne': "abs_path pp \<noteq> abs_path rp" using abs_path_inj [OF assms] by simp
  note eval = evalSymlinksInScope_def [of lstat "abs_path pp" "abs_path rp", unfolded path_clean_id [OF assms(2)] Let_def if_not_P [OF ne']]
  show ?thesis
  proof (cases "rp = []")
    case True
    have "abs_path pp = ''/'' @ drop 1 (abs_path pp)" by (simp add: abs_path_def)
    then show ?thesis
      using ne True eval_loop_walk [OF assms(2) assms(1), of lstat "abs_path pp"]
      unfolding eval by (simp add: abs_path_def [of "[]"] walk_from_def)
  next
    case False
    have nr: "abs_path rp \<noteq> ''/''" using abs_path_inj [OF assms(2), of "[]"] False by (simp add: abs_path_def parts_ok_def)
    show ?thesis
    proof (cases "take (length rp) pp = rp")
      case True
      then obtain c where c: "abs_path pp = abs_path rp @ c" "take 1 c = ''/''" using root_prefix [OF assms False ne] by blast
      obtain qs where qs: "parts_ok qs" "pp = rp @ qs" "c = abs_path qs" using under_root [OF assms False c] by blast
      show ?thesis
        unfolding eval using c nr ne True qs eval_loop_walk [OF assms(2) qs(1), of lstat "abs_path pp"]
        by (simp add: walk_from_def)
    next
      case no: False
      show ?thesis
      proof (cases "take (length (abs_path rp)) (abs_path pp) = abs_path rp")
        case True
        then obtain c where c: "abs_path pp = abs_path rp @ c" using take_append_eq by blast
        then have "take 1 c \<noteq> ''/''" using root_prefix [OF assms False ne] no by blast
        then show ?thesis unfolding eval using c nr ne no by simp
      next
        case False
        then show ?thesis unfolding eval using ne no by simp
      qed
    qed
  qed
qed

lemma fp_Abs_parts:
  assumes "IsAbs cwd"
  obtains ps where "parts_ok ps" "fp_Abs cwd p = abs_path ps"
proof (cases "IsAbs p")
  case True
  then show ?thesis using path_clean_parts [of p] that by (auto simp: fp_Abs_def IsAbs_def)
next
  case False
  have cwd: "cwd \<noteq> ''''" using assms by (auto simp: IsAbs_def)
  obtain r where "join_with ''/'' [cwd, p] = cwd @ r" by (cases p) auto
  then have "take 1 (join_with ''/'' [cwd, p]) = ''/''" using assms cwd by (cases cwd) (auto simp: IsAbs_def)
  then obtain ps where "parts_ok ps" "path_clean (join_with ''/'' [cwd, p]) = abs_path ps" by (rule path_clean_parts)
  then show ?thesis using that False cwd by (simp add: fp_Abs_def path_join_def)
qed

section \<open>What the walk guarantees\<close>

text \<open>No directory on the way to the end of the stack is a link.\<close>

definition no_links :: "(string \<Rightarrow> entry) \<Rightarrow> string list \<Rightarrow> string list \<Rightarrow> bool" where
  "no_links lstat rp stack \<longleftrightarrow> (\<forall>k < length stack. lstat (abs_path (rp @ rev (drop k stack))) \<in> {Absent, NotLink})"

lemma no_links_push:
  assumes "no_links lstat rp stack" "parts_ok stack" "CHR ''/'' \<notin> set c"
    and "path_push True stack c \<noteq> [] \<Longrightarrow> lstat (abs_path (rp @ rev (path_push True stack c))) \<in> {Absent, NotLink}"
  shows "no_links lstat rp (path_push True stack c)"
  unfolding no_links_def
proof (intro allI impI)
  fix k
  assume k: "k < length (path_push True stack c)"
  show "lstat (abs_path (rp @ rev (drop k (path_push True stack c)))) \<in> {Absent, NotLink}"
  proof (cases k)
    case 0
    then show ?thesis using k assms(4) by auto
  next
    case (Suc j)
    consider "path_push True stack c = stack" | t where "stack = t # path_push True stack c" | "path_push True stack c = c # stack"
    proof -
      consider "c = '''' \<or> c = ''.''" | "c = ''..''" | "path_part c" using assms(3) by (auto simp: path_part_def)
      then show ?thesis
      proof cases
        case 1
        then show ?thesis using that(1) by (auto simp: path_push_def)
      next
        case 2
        have "t \<noteq> ''..''" if "t \<in> set stack" for t using assms(2) that by (simp add: parts_ok_def path_part_def)
        then show ?thesis using 2 that(1,2) by (cases stack) (simp_all add: path_push_def)
      next
        case 3
        then show ?thesis using that(3) by (simp add: path_push_part)
      qed
    qed
    then show ?thesis
    proof cases
      case 1
      then show ?thesis using k assms(1) by (simp add: no_links_def)
    next
      case 2
      then have "drop k (path_push True stack c) = drop (Suc k) stack" "Suc k < length stack" using k by (metis drop_Suc_Cons, metis Suc_less_eq length_Cons)
      then show ?thesis using assms(1) by (auto simp: no_links_def)
    next
      case 3
      then have "drop k (path_push True stack c) = drop j stack" "j < length stack" using k Suc by simp_all
      then show ?thesis using assms(1) by (auto simp: no_links_def)
    qed
  qed
qed

lemma walk_safe:
  "walk lstat rp original n stack todo = Inr st \<Longrightarrow> parts_ok stack \<Longrightarrow> no_links lstat rp stack \<Longrightarrow>
   \<forall>c \<in> set todo. CHR ''/'' \<notin> set c \<Longrightarrow> parts_ok st \<and> no_links lstat rp st"
proof (induction lstat rp original n stack todo rule: walk.induct)
  case (2 lstat rp original n stack c rest)
  have le: "\<not> n > maxIter" using 2(6) by (auto simp: walk.simps(2) split: if_splits)
  let ?here = "path_push True stack c"
  have c: "CHR ''/'' \<notin> set c" "\<forall>c \<in> set rest. CHR ''/'' \<notin> set c" using 2(9) by simp_all
  have ok: "parts_ok ?here" by (rule path_push_ok [OF 2(7) c(1)])
  have nl: "no_links lstat rp []" "parts_ok []" by (simp_all add: no_links_def parts_ok_def)
  show ?case
  proof (cases "c = '''' \<or> ?here = []")
    case True
    then show ?thesis
      using 2(1) [OF le _ _ 2(7,8) c(2)] 2(2) [OF le _ refl _ _ nl(2,1) c(2)] 2(6) le by (cases "c = ''''") (auto simp: walk.simps(2))
  next
    case False
    then have F: "c \<noteq> ''''" "?here \<noteq> []" by auto
    show ?thesis
    proof (cases "lstat (abs_path (rp @ rev ?here))")
      case (LinkTo dest)
      have "\<forall>c \<in> set (split_all (CHR ''/'') dest @ rest). CHR ''/'' \<notin> set c" using c(2) split_all_parts by auto
      moreover have "walk lstat rp original (n + 1) (if IsAbs dest then [] else stack) (split_all (CHR ''/'') dest @ rest) = Inr st"
        using 2(6) F LinkTo le by (simp add: walk.simps(2))
      ultimately show ?thesis using 2(5) [OF le F(1) refl F(2) LinkTo] 2(7,8) nl by (cases "IsAbs dest") auto
    next
      case Absent
      have "no_links lstat rp ?here" by (rule no_links_push [OF 2(8,7) c(1)]) (simp add: Absent)
      moreover have "walk lstat rp original (n + 1) ?here rest = Inr st" using 2(6) F Absent le by (simp add: walk.simps(2))
      ultimately show ?thesis using 2(3) [OF le F(1) refl F(2) Absent _ ok _ c(2)] by blast
    next
      case NotLink
      have "no_links lstat rp ?here" by (rule no_links_push [OF 2(8,7) c(1)]) (simp add: NotLink)
      moreover have "walk lstat rp original (n + 1) ?here rest = Inr st" using 2(6) F NotLink le by (simp add: walk.simps(2))
      ultimately show ?thesis using 2(4) [OF le F(1) refl F(2) NotLink _ ok _ c(2)] by blast
    next
      case Unreadable
      then show ?thesis using 2(6) F le by (simp add: walk.simps(2))
    qed
  qed
qed simp


section \<open>Properties\<close>

text \<open>
  C17. Following links is a walk. For absolute paths the code, which cleans strings over and over, does what resolving the path component by component in a root
  directory of its own does, with 256 rounds at most; a path that does not begin with the components of the root is refused.
\<close>

theorem symlink_follow_equiv:
  assumes "fp_Abs cwd path = abs_path pp" "parts_ok pp" "fp_Abs cwd root = abs_path rp" "parts_ok rp"
  shows "FollowSymlinkInScope lstat cwd path root =
    (if pp = rp then Inr (abs_path rp)
     else if take (length rp) pp = rp
     then map_sum id (\<lambda>st. abs_path (rp @ rev st)) (walk lstat rp (abs_path pp) 0 [] ([] # drop (length rp) pp))
     else Inl (NotIn (if take (length (abs_path rp)) (abs_path pp) = abs_path rp then drop (length (abs_path rp)) (abs_path pp)
                      else abs_path pp) (abs_path rp)))"
  unfolding FollowSymlinkInScope_def assms(1,3) evalSymlinksInScope_walk [OF assms(2,4)] walk_from_def by (rule if_cong) simp_all

text \<open>
  C16. The result is inside. Whatever links there are, the path returned is the root followed by ordinary components, so it has no
  \<^verbatim>\<open>..\<close>, and none of the directories on the way down from the root, nor the end, is a link: the
  system, which resolves the path again, does not leave the root.
\<close>

theorem symlink_in_scope:
  assumes "IsAbs cwd" "FollowSymlinkInScope lstat cwd path root = Inr r"
  shows "\<exists>rp ps. fp_Abs cwd root = abs_path rp \<and> r = abs_path (rp @ ps) \<and> (\<forall>e \<in> set (rp @ ps). path_part e) \<and>
    (\<forall>k. 0 < k \<and> k \<le> length ps \<longrightarrow> lstat (abs_path (rp @ take k ps)) \<in> {Absent, NotLink})"
proof -
  obtain pp where pp: "parts_ok pp" "fp_Abs cwd path = abs_path pp" by (rule fp_Abs_parts [OF assms(1)])
  obtain rp where rp: "parts_ok rp" "fp_Abs cwd root = abs_path rp" by (rule fp_Abs_parts [OF assms(1)])
  note eval = assms(2) [unfolded FollowSymlinkInScope_def pp(2) rp(2) evalSymlinksInScope_walk [OF pp(1) rp(1)] walk_from_def]
  show ?thesis
  proof (cases "pp = rp")
    case True
    then have "r = abs_path (rp @ [])" using eval by simp
    moreover have "\<forall>e \<in> set (rp @ []). path_part e" using rp(1) by (simp add: parts_ok_def)
    ultimately show ?thesis using rp(2) by (metis le_zero_eq less_irrefl list.size(3))
  next
    case False
    then obtain st where st: "walk lstat rp (abs_path pp) 0 [] ([] # drop (length rp) pp) = Inr st" "r = abs_path (rp @ rev st)"
      using eval by (cases "walk lstat rp (abs_path pp) 0 [] ([] # drop (length rp) pp)") (auto split: if_splits)
    have "\<forall>c \<in> set ([] # drop (length rp) pp). CHR ''/'' \<notin> set c"
      using pp(1) by (auto simp: parts_ok_def path_part_def dest: in_set_dropD)
    then have safe: "parts_ok st" "no_links lstat rp st"
      using walk_safe [OF st(1)] by (simp_all add: parts_ok_def no_links_def)
    have "lstat (abs_path (rp @ take k (rev st))) \<in> {Absent, NotLink}" if "0 < k \<and> k \<le> length (rev st)" for k
    proof -
      have "length st - k < length st" using that unfolding length_rev by arith
      moreover have "take k (rev st) = rev (drop (length st - k) st)" by (simp add: take_rev)
      ultimately show ?thesis using safe(2) by (simp add: no_links_def)
    qed
    moreover have "\<forall>e \<in> set (rp @ rev st). path_part e" using rp(1) safe(1) by (auto simp: parts_ok_def)
    ultimately show ?thesis using rp(2) st(2) by blast
  qed
qed

lemma walk_no_links:
  assumes "\<And>p. lstat p \<in> {Absent, NotLink}"
  shows "parts_ok ps \<Longrightarrow> n \<le> 256 \<Longrightarrow> walk lstat rp original n stack ps =
    (if n + length ps \<le> 256 then Inr (rev ps @ stack) else Inl (TooManyLinks original))"
proof (induction ps arbitrary: n stack)
  case (Cons c ps)
  have c: "path_part c" "c \<noteq> ''''" using Cons.prems by (auto simp: parts_ok_def path_part_def)
  have push: "path_push True stack c = c # stack" by (rule path_push_part [OF c(1)])
  have l: "lstat p = Absent \<or> lstat p = NotLink" for p using assms [of p] by simp
  show ?case
  proof (cases "n = 256")
    case False
    then have "walk lstat rp original (n + 1) (c # stack) ps =
        (if n + 1 + length ps \<le> 256 then Inr (rev ps @ c # stack) else Inl (TooManyLinks original))"
      using Cons by (simp add: parts_ok_def)
    then show ?thesis
      using l [of "abs_path (rp @ rev (c # stack))"] c(2) False Cons.prems(2) by (auto simp: walk.simps(2) push maxIter_def)
  qed (simp add: walk.simps(2) maxIter_def)
qed simp

text \<open>
  Where nothing is a link. A path below the root comes back as it is when it has at most 255 components under the root; with more
  the call fails as for too many links, though there is none.
\<close>

theorem symlink_depth:
  assumes "fp_Abs cwd path = abs_path (rp @ ps)" "fp_Abs cwd root = abs_path rp" "parts_ok (rp @ ps)"
    and "\<forall>p. lstat p \<in> {Absent, NotLink}"
  shows "FollowSymlinkInScope lstat cwd path root =
    (if length ps \<le> 255 then Inr (abs_path (rp @ ps)) else Inl (TooManyLinks (abs_path (rp @ ps))))"
proof -
  have ok: "parts_ok rp" "parts_ok ps" using assms(3) by (simp_all add: parts_ok_def)
  have "walk lstat rp (abs_path (rp @ ps)) 1 [] ps = (if 1 + length ps \<le> 256 then Inr (rev ps) else Inl (TooManyLinks (abs_path (rp @ ps))))"
    using walk_no_links [OF _ ok(2), of lstat 1 rp _ "[]"] assms(4) by simp
  then have "walk lstat rp (abs_path (rp @ ps)) 0 [] ([] # ps) = (if length ps \<le> 255 then Inr (rev ps) else Inl (TooManyLinks (abs_path (rp @ ps))))"
    by (simp add: walk.simps(2) maxIter_def)
  then show ?thesis
    unfolding FollowSymlinkInScope_def assms(1,2) evalSymlinksInScope_walk [OF assms(3) ok(1)] walk_from_def by simp
qed

text \<open>
  A container's root with a link out of it: \<^verbatim>\<open>/c/etc -> /../outside\<close> and \<^verbatim>\<open>/c/run -> ../etc\<close>.
\<close>

definition ex_lstat :: "string \<Rightarrow> entry" where
  "ex_lstat p = (if p = ''/c/etc'' then LinkTo ''/../outside'' else if p = ''/c/run'' then LinkTo ''../etc'' else NotLink)"

theorem symlink_follow_equiv_witness:
  "FollowSymlinkInScope ex_lstat ''/'' ''/c/run/passwd'' ''/c'' = Inr ''/c/outside/passwd''"
proof -
  have "fp_Abs ''/'' ''/c/run/passwd'' = abs_path [''c'', ''run'', ''passwd'']" "fp_Abs ''/'' ''/c'' = abs_path [''c'']" by code_simp+
  moreover have "parts_ok [''c'', ''run'', ''passwd'']" "parts_ok [''c'']" by (simp_all add: parts_ok_def path_part_def)
  moreover have "map_sum id (\<lambda>st. abs_path ([''c''] @ rev st))
      (walk ex_lstat [''c''] (abs_path [''c'', ''run'', ''passwd'']) 0 [] ([] # drop (length [''c'']) [''c'', ''run'', ''passwd'']))
    = Inr ''/c/outside/passwd''" by code_simp
  ultimately show ?thesis using symlink_follow_equiv [of "''/''" "''/c/run/passwd''" _ "''/c''" "[''c'']" ex_lstat] by simp
qed

theorem symlink_in_scope_witness:
  "\<exists>ps. ''/c/outside/passwd'' = abs_path (''c'' # ps) \<and> parts_ok ps"
proof -
  have "IsAbs ''/''" "FollowSymlinkInScope ex_lstat ''/'' ''/c/run/passwd'' ''/c'' = Inr ''/c/outside/passwd''" by code_simp+
  from symlink_in_scope [OF this] obtain rp ps where *: "fp_Abs ''/'' ''/c'' = abs_path rp"
    "''/c/outside/passwd'' = abs_path (rp @ ps)" "\<forall>e \<in> set (rp @ ps). path_part e" by blast
  have "fp_Abs ''/'' ''/c'' = abs_path [''c'']" by code_simp
  then have "rp = [''c'']" using * abs_path_inj [of rp "[''c'']"] by (simp add: parts_ok_def path_part_def)
  then show ?thesis using * by (auto simp: parts_ok_def)
qed

theorem symlink_depth_witness:
  "FollowSymlinkInScope (\<lambda>_. Absent) ''/'' ''/c/a/b'' ''/c'' = Inr ''/c/a/b''"
proof -
  have "fp_Abs ''/'' ''/c/a/b'' = abs_path ([''c''] @ [''a'', ''b''])" "fp_Abs ''/'' ''/c'' = abs_path [''c'']"
    "abs_path ([''c''] @ [''a'', ''b'']) = ''/c/a/b''" by code_simp+
  moreover have "parts_ok ([''c''] @ [''a'', ''b''])" by (simp add: parts_ok_def path_part_def)
  ultimately show ?thesis using symlink_depth [of "''/''" "''/c/a/b''" "[''c'']" "[''a'', ''b'']" "''/c''" "\<lambda>_. Absent"] by simp
qed

end
