(* ===== verification/Runc.thy ===== *)
theory Runc
  imports GoPrelude
begin

text \<open>
  The states of a container in runc (opencontainers/runc, libcontainer/state_linux.go and the operations of
  container_linux.go that move them). An object keeps the state it last saw; before most operations it
  looks at the freezer and at the process and moves its state after them.

  The system is a record of the processes and the freezer. Which of its calls fail, and the identifier of a process that is started,
  are parameters of an operation.
\<close>

section \<open>The container and the system\<close>

datatype rstatus = Created | Running | Pausing | Paused | Stopped

fun status_string :: "rstatus \<Rightarrow> string" where
  "status_string Created = ''created''"
| "status_string Running = ''running''"
| "status_string Pausing = ''pausing''"
| "status_string Paused = ''paused''"
| "status_string Stopped = ''stopped''"

datatype runc_error =
    InvalidTransition rstatus rstatus
  | ContainerNotStopped
  | ContainerNotRunning
  | ContainerNotPaused
  | ContainerIsPaused
  | AlreadyRunning
  | SystemError

datatype runc_state = stoppedState | runningState | createdState | pausedState | restoredState string | loadedState rstatus

text \<open>
  The init process of a container is a process identifier and the time it was started, which together tell it from any other;
  \<open>lc_start\<close> is the start time the container compares with, \<^const>\<open>None\<close> for the empty string.
\<close>

record lcont =
  lc_state :: runc_state
  lc_init :: "(nat \<times> nat) option"
  lc_start :: "nat option"
  lc_newpid :: bool

text \<open>
  A process has a start time and, as long as it waits to become the user's process, \<^verbatim>\<open>_LIBCONTAINER\<close> in its environment.
  \<open>rw_clock\<close> is the start time of the next process.
\<close>

record rworld =
  rw_procs :: "(nat, nat \<times> bool) gomap"
  rw_frozen :: bool
  rw_dir :: bool
  rw_clock :: nat

record runc_sys =
  sy_freezer :: bool
  sy_kill :: bool
  sy_stat :: bool
  sy_environ :: bool
  sy_freeze :: bool
  sy_set :: bool
  sy_killall :: bool
  sy_cgroup :: bool
  sy_remove :: bool
  sy_poststop :: bool
  sy_checkpoint :: bool
  sy_parent :: bool
  sy_started :: bool
  sy_starttime :: bool
  sy_save :: bool
  sy_poststart :: bool
  sy_fifo :: bool
  sy_fifo_data :: string
  sy_pid :: nat

section \<open>States\<close>

fun cs_status :: "runc_state \<Rightarrow> rstatus" where
  "cs_status stoppedState = Stopped"
| "cs_status runningState = Running"
| "cs_status createdState = Created"
| "cs_status pausedState = Paused"
| "cs_status (restoredState dir) = Running"
| "cs_status (loadedState s) = s"

definition doesInitProcessExist :: "runc_sys \<Rightarrow> nat \<Rightarrow> lcont \<Rightarrow> runc_error + bool" where
  "doesInitProcessExist sys startTime c = (if \<not> sy_stat sys then Inl SystemError else Inr (lc_start c = Some startTime))"

text \<open>Signal 0 finds no process with the identifier, or fails, or finds one, which may be another.\<close>

definition runType :: "runc_sys \<Rightarrow> rworld \<Rightarrow> lcont \<Rightarrow> runc_error + rstatus" where
  "runType sys w c =
     (case lc_init c of
        None \<Rightarrow> Inr Stopped
      | Some (pid, _) \<Rightarrow>
         (case gm_get (rw_procs w) pid of
            None \<Rightarrow> Inr Stopped
          | Some (startTime, waiting) \<Rightarrow>
              if \<not> sy_kill sys then Inl SystemError
              else
                (case doesInitProcessExist sys startTime c of
                   Inl e \<Rightarrow> Inl e
                 | Inr False \<Rightarrow> Inr Stopped
                 | Inr True \<Rightarrow> if \<not> sy_environ sys then Inl SystemError else Inr (if waiting then Created else Running))))"

text \<open>Where no freezer is mounted nothing is ever frozen.\<close>

definition isPaused :: "runc_sys \<Rightarrow> rworld \<Rightarrow> runc_error + bool" where
  "isPaused sys w = (if \<not> sy_freezer sys then Inl SystemError else Inr (rw_frozen w))"

definition invalid :: "runc_state \<Rightarrow> runc_state \<Rightarrow> lcont \<Rightarrow> lcont \<times> runc_error option" where
  "invalid s t c = (c, Some (InvalidTransition (cs_status s) (cs_status t)))"

definition stopped_transition :: "runc_state \<Rightarrow> lcont \<Rightarrow> lcont \<times> runc_error option" where
  "stopped_transition t c =
     (case t of
        runningState \<Rightarrow> (c\<lparr>lc_state := t\<rparr>, None)
      | restoredState _ \<Rightarrow> (c\<lparr>lc_state := t\<rparr>, None)
      | stoppedState \<Rightarrow> (c, None)
      | _ \<Rightarrow> invalid stoppedState t c)"

definition running_transition :: "runc_sys \<Rightarrow> rworld \<Rightarrow> runc_state \<Rightarrow> lcont \<Rightarrow> lcont \<times> runc_error option" where
  "running_transition sys w t c =
     (case t of
        stoppedState \<Rightarrow>
          (case runType sys w c of
             Inl e \<Rightarrow> (c, Some e)
           | Inr s \<Rightarrow> if s = Running then (c, Some ContainerNotStopped) else (c\<lparr>lc_state := t\<rparr>, None))
      | pausedState \<Rightarrow> (c\<lparr>lc_state := t\<rparr>, None)
      | runningState \<Rightarrow> (c, None)
      | _ \<Rightarrow> invalid runningState t c)"

definition created_transition :: "runc_state \<Rightarrow> lcont \<Rightarrow> lcont \<times> runc_error option" where
  "created_transition t c =
     (case t of
        runningState \<Rightarrow> (c\<lparr>lc_state := t\<rparr>, None)
      | pausedState \<Rightarrow> (c\<lparr>lc_state := t\<rparr>, None)
      | stoppedState \<Rightarrow> (c\<lparr>lc_state := t\<rparr>, None)
      | createdState \<Rightarrow> (c, None)
      | _ \<Rightarrow> invalid createdState t c)"

definition paused_transition :: "runc_state \<Rightarrow> lcont \<Rightarrow> lcont \<times> runc_error option" where
  "paused_transition t c =
     (case t of
        runningState \<Rightarrow> (c\<lparr>lc_state := t\<rparr>, None)
      | stoppedState \<Rightarrow> (c\<lparr>lc_state := t\<rparr>, None)
      | pausedState \<Rightarrow> (c, None)
      | _ \<Rightarrow> invalid pausedState t c)"

definition restored_transition :: "runc_state \<Rightarrow> lcont \<Rightarrow> lcont \<times> runc_error option" where
  "restored_transition t c =
     (case t of
        stoppedState \<Rightarrow> (c, None)
      | runningState \<Rightarrow> (c, None)
      | _ \<Rightarrow> invalid (lc_state c) t c)"

definition loaded_transition :: "runc_state \<Rightarrow> lcont \<Rightarrow> lcont \<times> runc_error option" where
  "loaded_transition t c = (c\<lparr>lc_state := t\<rparr>, None)"

definition transition :: "runc_sys \<Rightarrow> rworld \<Rightarrow> runc_state \<Rightarrow> lcont \<Rightarrow> lcont \<times> runc_error option" where
  "transition sys w t c =
     (case lc_state c of
        stoppedState \<Rightarrow> stopped_transition t c
      | runningState \<Rightarrow> running_transition sys w t c
      | createdState \<Rightarrow> created_transition t c
      | pausedState \<Rightarrow> paused_transition t c
      | restoredState _ \<Rightarrow> restored_transition t c
      | loadedState _ \<Rightarrow> loaded_transition t c)"

lemmas transitions = transition_def stopped_transition_def running_transition_def created_transition_def
  paused_transition_def restored_transition_def loaded_transition_def

definition refreshState :: "runc_sys \<Rightarrow> rworld \<Rightarrow> lcont \<Rightarrow> lcont \<times> runc_error option" where
  "refreshState sys w c =
     (case isPaused sys w of
        Inl e \<Rightarrow> (c, Some e)
      | Inr True \<Rightarrow> transition sys w pausedState c
      | Inr False \<Rightarrow>
         (case runType sys w c of
            Inl e \<Rightarrow> (c, Some e)
          | Inr Created \<Rightarrow> transition sys w createdState c
          | Inr Running \<Rightarrow> transition sys w runningState c
          | Inr _ \<Rightarrow> transition sys w stoppedState c))"

definition currentStatus :: "runc_sys \<Rightarrow> rworld \<Rightarrow> lcont \<Rightarrow> lcont \<times> (runc_error + rstatus)" where
  "currentStatus sys w c =
     (case refreshState sys w c of
        (c1, Some e) \<Rightarrow> (c1, Inl e)
      | (c1, None) \<Rightarrow> (c1, Inr (cs_status (lc_state c1))))"

section \<open>Operations\<close>

text \<open>
  A signal to the init process goes to whatever process has its identifier. The processes of the control
  group are the container's own; the init process is the one modelled here.
\<close>

definition kill_init :: "lcont \<Rightarrow> rworld \<Rightarrow> rworld" where
  "kill_init c w = (case lc_init c of None \<Rightarrow> w | Some (pid, _) \<Rightarrow> w\<lparr>rw_procs := gm_del pid (rw_procs w)\<rparr>)"

definition signalAllProcesses :: "lcont \<Rightarrow> rworld \<Rightarrow> rworld" where
  "signalAllProcesses c w =
     (case lc_init c of
        None \<Rightarrow> w
      | Some (pid, started) \<Rightarrow>
          (case gm_get (rw_procs w) pid of
             Some (st, _) \<Rightarrow> if st = started then w\<lparr>rw_procs := gm_del pid (rw_procs w)\<rparr> else w
           | None \<Rightarrow> w))"

text \<open>Without a namespace of processes everything in the control group is killed; a failure of that is only logged.\<close>

definition rc_destroy :: "runc_sys \<Rightarrow> rworld \<Rightarrow> lcont \<Rightarrow> rworld \<times> lcont \<times> runc_error option" where
  "rc_destroy sys w c =
     (let w1 = (if \<not> lc_newpid c \<and> sy_killall sys then signalAllProcesses c w else w);
          w2 = (if sy_cgroup sys then w1\<lparr>rw_frozen := False\<rparr> else w1);
          w3 = (if sy_remove sys then w2\<lparr>rw_dir := False\<rparr> else w2)
      in (w3, c\<lparr>lc_init := None, lc_state := stoppedState\<rparr>,
          if sy_cgroup sys \<and> sy_remove sys \<and> sy_poststop sys then None else Some SystemError))"

definition running_destroy :: "runc_sys \<Rightarrow> rworld \<Rightarrow> lcont \<Rightarrow> rworld \<times> lcont \<times> runc_error option" where
  "running_destroy sys w c =
     (case runType sys w c of
        Inl e \<Rightarrow> (w, c, Some e)
      | Inr s \<Rightarrow> if s = Running then (w, c, Some ContainerNotStopped) else rc_destroy sys w c)"

definition created_destroy :: "runc_sys \<Rightarrow> rworld \<Rightarrow> lcont \<Rightarrow> rworld \<times> lcont \<times> runc_error option" where
  "created_destroy sys w c = rc_destroy sys (kill_init c w) c"

definition paused_destroy :: "runc_sys \<Rightarrow> rworld \<Rightarrow> lcont \<Rightarrow> rworld \<times> lcont \<times> runc_error option" where
  "paused_destroy sys w c =
     (case runType sys w c of
        Inl e \<Rightarrow> (w, c, Some e)
      | Inr s \<Rightarrow>
          if s \<noteq> Running \<and> s \<noteq> Created
          then if \<not> sy_freeze sys then (w, c, Some SystemError) else rc_destroy sys (w\<lparr>rw_frozen := False\<rparr>) c
          else (w, c, Some ContainerIsPaused))"

definition restored_destroy :: "runc_sys \<Rightarrow> rworld \<Rightarrow> lcont \<Rightarrow> rworld \<times> lcont \<times> runc_error option" where
  "restored_destroy sys w c = (if \<not> sy_checkpoint sys then (w, c, Some SystemError) else rc_destroy sys w c)"

text \<open>A container whose state is \<open>loadedState\<close> first takes another one, so the second look ends.\<close>

definition state_destroy :: "runc_sys \<Rightarrow> rworld \<Rightarrow> lcont \<Rightarrow> rworld \<times> lcont \<times> runc_error option" where
  "state_destroy sys w c =
     (case lc_state c of
        stoppedState \<Rightarrow> rc_destroy sys w c
      | runningState \<Rightarrow> running_destroy sys w c
      | createdState \<Rightarrow> created_destroy sys w c
      | pausedState \<Rightarrow> paused_destroy sys w c
      | restoredState _ \<Rightarrow> restored_destroy sys w c
      | loadedState _ \<Rightarrow> (w, c, None))"

definition loaded_destroy :: "runc_sys \<Rightarrow> rworld \<Rightarrow> lcont \<Rightarrow> rworld \<times> lcont \<times> runc_error option" where
  "loaded_destroy sys w c =
     (case refreshState sys w c of
        (c1, Some e) \<Rightarrow> (w, c1, Some e)
      | (c1, None) \<Rightarrow> state_destroy sys w c1)"

definition Destroy :: "runc_sys \<Rightarrow> rworld \<Rightarrow> lcont \<Rightarrow> rworld \<times> lcont \<times> runc_error option" where
  "Destroy sys w c = (case lc_state c of loadedState _ \<Rightarrow> loaded_destroy sys w c | _ \<Rightarrow> state_destroy sys w c)"

lemmas destroys = state_destroy_def running_destroy_def created_destroy_def paused_destroy_def restored_destroy_def

text \<open>
  \<^verbatim>\<open>currentState\<close> drops the error of reading the start time of the process (\<open>sy_starttime\<close>): what is saved and compared with is then empty.
\<close>

definition rc_start :: "runc_sys \<Rightarrow> bool \<Rightarrow> rworld \<Rightarrow> lcont \<Rightarrow> rworld \<times> lcont \<times> runc_error option" where
  "rc_start sys isInit w c =
     (if \<not> sy_parent sys \<or> \<not> sy_started sys then (w, c, Some SystemError)
      else
        (let proc = (sy_pid sys, rw_clock w);
             w1 = w\<lparr>rw_procs := gm_set (sy_pid sys) (rw_clock w, isInit) (rw_procs w), rw_clock := rw_clock w + 1\<rparr>;
             c1 = c\<lparr>lc_state := runningState\<rparr>
         in if \<not> isInit then (w1, c1, None)
            else
              (let c2 = c1\<lparr>lc_state := createdState, lc_init := Some proc\<rparr>
               in if \<not> sy_save sys then (w1, c2, Some SystemError)
                  else
                    (let c3 = c2\<lparr>lc_start := if sy_starttime sys then Some (rw_clock w) else None\<rparr>
                     in if \<not> sy_poststart sys then (kill_init c3 w1, c3, Some SystemError) else (w1, c3, None)))))"

text \<open>The init process that was read from the fifo goes on to become the user's process.\<close>

definition rc_exec :: "runc_sys \<Rightarrow> rworld \<Rightarrow> lcont \<Rightarrow> rworld \<times> runc_error option" where
  "rc_exec sys w c =
     (if \<not> sy_fifo sys then (w, Some SystemError)
      else if length (sy_fifo_data sys) > 0
      then (case lc_init c of
              None \<Rightarrow> (w, None)
            | Some (pid, started) \<Rightarrow>
                if gm_get (rw_procs w) pid = Some (started, True)
                then (w\<lparr>rw_procs := gm_set pid (started, False) (rw_procs w)\<rparr>, None) else (w, None))
      else (w, Some AlreadyRunning))"

definition rc_Start :: "runc_sys \<Rightarrow> rworld \<Rightarrow> lcont \<Rightarrow> rworld \<times> lcont \<times> runc_error option" where
  "rc_Start sys w c =
     (case currentStatus sys w c of
        (c1, Inl e) \<Rightarrow> (w, c1, Some e)
      | (c1, Inr st) \<Rightarrow> rc_start sys (st = Stopped) w c1)"

definition rc_Run :: "runc_sys \<Rightarrow> rworld \<Rightarrow> lcont \<Rightarrow> rworld \<times> lcont \<times> runc_error option" where
  "rc_Run sys w c =
     (case currentStatus sys w c of
        (c1, Inl e) \<Rightarrow> (w, c1, Some e)
      | (c1, Inr st) \<Rightarrow>
         (case rc_start sys (st = Stopped) w c1 of
            (w2, c2, Some e) \<Rightarrow> (w2, c2, Some e)
          | (w2, c2, None) \<Rightarrow>
              if st = Stopped then (case rc_exec sys w2 c2 of (w3, e) \<Rightarrow> (w3, c2, e)) else (w2, c2, None)))"

definition rc_Set :: "runc_sys \<Rightarrow> rworld \<Rightarrow> lcont \<Rightarrow> lcont \<times> runc_error option" where
  "rc_Set sys w c =
     (case currentStatus sys w c of
        (c1, Inl e) \<Rightarrow> (c1, Some e)
      | (c1, Inr st) \<Rightarrow>
          if st = Stopped then (c1, Some ContainerNotRunning)
          else (c1, if sy_set sys then None else Some SystemError))"

definition rc_Pause :: "runc_sys \<Rightarrow> rworld \<Rightarrow> lcont \<Rightarrow> rworld \<times> lcont \<times> runc_error option" where
  "rc_Pause sys w c =
     (case currentStatus sys w c of
        (c1, Inl e) \<Rightarrow> (w, c1, Some e)
      | (c1, Inr st) \<Rightarrow>
          if st = Running \<or> st = Created
          then if \<not> sy_freeze sys then (w, c1, Some SystemError)
               else (let w1 = w\<lparr>rw_frozen := True\<rparr> in (w1, transition sys w1 pausedState c1))
          else (w, c1, Some ContainerNotRunning))"

definition rc_Resume :: "runc_sys \<Rightarrow> rworld \<Rightarrow> lcont \<Rightarrow> rworld \<times> lcont \<times> runc_error option" where
  "rc_Resume sys w c =
     (case currentStatus sys w c of
        (c1, Inl e) \<Rightarrow> (w, c1, Some e)
      | (c1, Inr st) \<Rightarrow>
          if st \<noteq> Paused then (w, c1, Some ContainerNotPaused)
          else if \<not> sy_freeze sys then (w, c1, Some SystemError)
          else (let w1 = w\<lparr>rw_frozen := False\<rparr> in (w1, transition sys w1 runningState c1)))"

text \<open>
  The end of a restore: criu started the process and tells its identifier. The start time the container compares with is not set.
\<close>

definition post_restore :: "runc_sys \<Rightarrow> string \<Rightarrow> rworld \<Rightarrow> lcont \<Rightarrow> rworld \<times> lcont \<times> runc_error option" where
  "post_restore sys imageDir w c =
     (let w1 = w\<lparr>rw_procs := gm_set (sy_pid sys) (rw_clock w, False) (rw_procs w), rw_clock := rw_clock w + 1\<rparr>
      in (case transition sys w1 (restoredState imageDir) c of
            (c1, Some e) \<Rightarrow> (w1, c1, Some e)
          | (c1, None) \<Rightarrow>
              (w1, c1\<lparr>lc_init := Some (sy_pid sys, rw_clock w)\<rparr>, if sy_save sys then None else Some SystemError)))"

text \<open>A container object, made new or from the saved state of another process.\<close>

definition lf_Create :: "bool \<Rightarrow> lcont" where
  "lf_Create newpid = \<lparr>lc_state = stoppedState, lc_init = None, lc_start = None, lc_newpid = newpid\<rparr>"

text \<open>\<open>saved\<close> is the start time in the saved state.\<close>

definition lf_Load :: "runc_sys \<Rightarrow> rworld \<Rightarrow> nat \<times> nat \<Rightarrow> nat option \<Rightarrow> bool \<Rightarrow> runc_error + lcont" where
  "lf_Load sys w init saved newpid =
     (case refreshState sys w \<lparr>lc_state = loadedState Created, lc_init = Some init, lc_start = saved, lc_newpid = newpid\<rparr> of
        (c, Some e) \<Rightarrow> Inl e
      | (c, None) \<Rightarrow> Inr c)"

end
