(* ===== verification/RuncProps.thy ===== *)
theory RuncProps
  imports Runc
begin

text \<open>
  What a runc container object guarantees: the status it tells is the one the processes have, when it refuses to tell one, and
  which processes a destruction can end.
\<close>

section \<open>The status of the processes\<close>

definition proc_status :: "rworld \<Rightarrow> lcont \<Rightarrow> rstatus" where
  "proc_status w c =
     (case lc_init c of
        None \<Rightarrow> Stopped
      | Some (pid, started) \<Rightarrow>
         (case gm_get (rw_procs w) pid of
            None \<Rightarrow> Stopped
          | Some (st, waiting) \<Rightarrow> if st = started then (if waiting then Created else Running) else Stopped))"

definition actual_status :: "rworld \<Rightarrow> lcont \<Rightarrow> rstatus" where
  "actual_status w c = (if rw_frozen w then Paused else proc_status w c)"

lemma proc_status_frame [simp]:
  "proc_status (w\<lparr>rw_frozen := f\<rparr>) c = proc_status w c"
  "proc_status (w\<lparr>rw_dir := d\<rparr>) c = proc_status w c"
  "proc_status w (c\<lparr>lc_state := x\<rparr>) = proc_status w c"
  by (simp_all add: proc_status_def split: option.split)

text \<open>The container compares with the start time of its own process.\<close>

definition knows_start :: "lcont \<Rightarrow> bool" where
  "knows_start c \<longleftrightarrow> (\<forall>pid started. lc_init c = Some (pid, started) \<longrightarrow> lc_start c = Some started)"

definition sys_reads :: "runc_sys \<Rightarrow> bool" where
  "sys_reads sys \<longleftrightarrow> sy_freezer sys \<and> sy_kill sys \<and> sy_stat sys \<and> sy_environ sys"

text \<open>The moves a state allows when the container is found to have a status.\<close>

definition moves :: "runc_state \<Rightarrow> rstatus \<Rightarrow> bool" where
  "moves s a =
     (case s of
        stoppedState \<Rightarrow> a = Stopped \<or> a = Running
      | runningState \<Rightarrow> a = Running \<or> a = Stopped \<or> a = Paused
      | createdState \<Rightarrow> True
      | pausedState \<Rightarrow> a = Paused \<or> a = Running \<or> a = Stopped
      | restoredState _ \<Rightarrow> a = Stopped \<or> a = Running
      | loadedState _ \<Rightarrow> True)"

lemma runType_status: "runType sys w c = Inr s \<Longrightarrow> knows_start c \<Longrightarrow> s = proc_status w c"
  by (auto simp: runType_def proc_status_def knows_start_def doesInitProcessExist_def split: option.splits if_splits sum.splits bool.splits)

lemma runType_reads: "sys_reads sys \<Longrightarrow> knows_start c \<Longrightarrow> runType sys w c = Inr (proc_status w c)"
  by (auto simp: runType_def proc_status_def knows_start_def doesInitProcessExist_def sys_reads_def
      split: option.splits if_splits sum.splits bool.splits)

lemma proc_status_range: "proc_status w c = Created \<or> proc_status w c = Running \<or> proc_status w c = Stopped"
  by (simp add: proc_status_def split: option.splits)

lemma refresh_reads:
  assumes "sys_reads sys" "knows_start c"
  shows "refreshState sys w c = transition sys w
    (case actual_status w c of Paused \<Rightarrow> pausedState | Created \<Rightarrow> createdState | Running \<Rightarrow> runningState | _ \<Rightarrow> stoppedState) c"
  using assms runType_reads [OF assms, of w] proc_status_range [of w c]
  by (auto simp: refreshState_def isPaused_def actual_status_def sys_reads_def)

lemma runc_status:
  assumes "sys_reads sys" "knows_start c"
  shows "snd (currentStatus sys w c) =
    (if moves (lc_state c) (actual_status w c)
     then Inr (case lc_state c of restoredState _ \<Rightarrow> Running | _ \<Rightarrow> actual_status w c)
     else Inl (InvalidTransition (cs_status (lc_state c)) (actual_status w c)))"
proof -
  consider (p) "actual_status w c = Paused" | (q) "actual_status w c = proc_status w c"     by (cases "rw_frozen w") (auto simp: actual_status_def)
  then show ?thesis
  proof cases
    case p
    then show ?thesis
      by (cases "lc_state c") (simp_all add: currentStatus_def refresh_reads [OF assms] transitions invalid_def moves_def)
  next
    case q
    then show ?thesis
      using proc_status_range [of w c] runType_reads [OF assms, of w]
      by (cases "lc_state c") (auto simp: currentStatus_def refresh_reads [OF assms] transitions invalid_def moves_def)
  qed
qed

section \<open>The machine\<close>

text \<open>
  A process works with one object; other processes run, freeze and thaw the container, processes of the system come and go. Every process has a start
  time of its own. Saving the state succeeds, so does reading the start time of a process that was started, and the container is not
  restored from a checkpoint: what happens otherwise is below (\<open>start_time_lost\<close>, \<open>restored_blind\<close>).
\<close>

datatype runc_op = OpStatus | OpStart | OpRun | OpExec | OpPause | OpResume | OpSet | OpDestroy

fun runc_do :: "runc_sys \<Rightarrow> runc_op \<Rightarrow> rworld \<Rightarrow> lcont \<Rightarrow> rworld \<times> lcont \<times> runc_error option" where
  "runc_do sys OpStatus w c = (case currentStatus sys w c of (c1, Inl e) \<Rightarrow> (w, c1, Some e) | (c1, Inr _) \<Rightarrow> (w, c1, None))"
| "runc_do sys OpStart w c = rc_Start sys w c"
| "runc_do sys OpRun w c = rc_Run sys w c"
| "runc_do sys OpExec w c = (case rc_exec sys w c of (w1, e) \<Rightarrow> (w1, c, e))"
| "runc_do sys OpPause w c = rc_Pause sys w c"
| "runc_do sys OpResume w c = rc_Resume sys w c"
| "runc_do sys OpSet w c = (case rc_Set sys w c of (c1, e) \<Rightarrow> (w, c1, e))"
| "runc_do sys OpDestroy w c = Destroy sys w c"

definition procs_ok :: "rworld \<Rightarrow> bool" where
  "procs_ok w \<longleftrightarrow> (\<forall>pid st b. gm_get (rw_procs w) pid = Some (st, b) \<longrightarrow> st < rw_clock w)"

inductive runc_reach :: "lcont \<Rightarrow> rworld \<Rightarrow> bool" where
  created: "procs_ok w \<Longrightarrow> runc_reach (lf_Create newpid) w"
| loaded: "procs_ok w \<Longrightarrow> st < rw_clock w \<Longrightarrow> lf_Load sys w (pid, st) (Some st) newpid = Inr c \<Longrightarrow> runc_reach c w"
| operation: "runc_reach c w \<Longrightarrow> sy_save sys \<Longrightarrow> sy_starttime sys \<Longrightarrow> gm_get (rw_procs w) (sy_pid sys) = None \<Longrightarrow>
    runc_do sys op w c = (w', c', e) \<Longrightarrow> runc_reach c' w'"
| executes: "runc_reach c w \<Longrightarrow> gm_get (rw_procs w) pid = Some (st, True) \<Longrightarrow>
    runc_reach c (w\<lparr>rw_procs := gm_set pid (st, False) (rw_procs w)\<rparr>)"
| exits: "runc_reach c w \<Longrightarrow> runc_reach c (w\<lparr>rw_procs := gm_del pid (rw_procs w)\<rparr>)"
| forks: "runc_reach c w \<Longrightarrow> gm_get (rw_procs w) pid = None \<Longrightarrow>
    runc_reach c (w\<lparr>rw_procs := gm_set pid (rw_clock w, b) (rw_procs w), rw_clock := rw_clock w + 1\<rparr>)"
| freezes: "runc_reach c w \<Longrightarrow> runc_reach c (w\<lparr>rw_frozen := f\<rparr>)"

definition runc_inv :: "lcont \<Rightarrow> rworld \<Rightarrow> bool" where
  "runc_inv c w \<longleftrightarrow>
     procs_ok w \<and> (\<forall>pid st. lc_init c = Some (pid, st) \<longrightarrow> st < rw_clock w \<and> lc_start c = Some st) \<and>
     (case lc_state c of stoppedState \<Rightarrow> proc_status w c = Stopped | createdState \<Rightarrow> lc_init c \<noteq> None
      | restoredState _ \<Rightarrow> False | loadedState _ \<Rightarrow> False | _ \<Rightarrow> True)"

lemma runc_inv_knows: "runc_inv c w \<Longrightarrow> knows_start c"
  by (simp add: runc_inv_def knows_start_def)

lemma procs_ok_frame [simp]: "procs_ok (w\<lparr>rw_frozen := f\<rparr>) = procs_ok w" "procs_ok (w\<lparr>rw_dir := d\<rparr>) = procs_ok w"
  by (simp_all add: procs_ok_def)

lemma procs_ok_del: "procs_ok w \<Longrightarrow> procs_ok (w\<lparr>rw_procs := gm_del pid (rw_procs w)\<rparr>)"
  by (auto simp: procs_ok_def)

text \<open>What keeps the invariant: worlds in which no dead process of the container is alive again.\<close>

lemma runc_inv_world:
  assumes "runc_inv c w" "procs_ok w'" "rw_clock w \<le> rw_clock w'" "proc_status w c = Stopped \<Longrightarrow> proc_status w' c = Stopped"
  shows "runc_inv c w'"
  using assms by (fastforce simp: runc_inv_def split: runc_state.splits)

lemma signalAll_world:
  "rw_clock (signalAllProcesses c w) = rw_clock w" "rw_frozen (signalAllProcesses c w) = rw_frozen w"
  "procs_ok w \<Longrightarrow> procs_ok (signalAllProcesses c w)"
  by (auto simp: signalAllProcesses_def procs_ok_def split: option.splits)

lemma kill_init_world:
  "rw_clock (kill_init c w) = rw_clock w" "rw_frozen (kill_init c w) = rw_frozen w"
  "procs_ok w \<Longrightarrow> procs_ok (kill_init c w)"
  by (auto simp: kill_init_def procs_ok_def split: option.splits)

lemma transition_inv:
  assumes inv: "runc_inv c w" and t: "t \<in> {stoppedState, runningState, createdState, pausedState}"
    and run: "transition sys w t c = (c', e)"
    and fits: "t = stoppedState \<Longrightarrow> proc_status w c = Stopped" "t = createdState \<Longrightarrow> lc_init c \<noteq> None"
  shows "runc_inv c' w \<and> lc_init c' = lc_init c \<and> lc_start c' = lc_start c \<and> (e = None \<longrightarrow> lc_state c' = t) \<and>
    (lc_state c' = lc_state c \<or> e = None)"
proof -
  have c': "c' = c \<or> c' = c\<lparr>lc_state := t\<rparr>" and e: "c' = c \<and> e \<noteq> None \<or> lc_state c' = t \<and> e = None"
    using run inv t by (auto simp: transitions invalid_def runc_inv_def split: runc_state.splits sum.splits if_splits)
  have "proc_status w (c\<lparr>lc_state := t\<rparr>) = proc_status w c" by (simp add: proc_status_def)
  then have "runc_inv (c\<lparr>lc_state := t\<rparr>) w" using inv t fits by (auto simp: runc_inv_def)
  then show ?thesis using c' e inv by auto
qed

lemma refresh_inv:
  assumes inv: "runc_inv c w" and run: "refreshState sys w c = (c', e)"
  shows "runc_inv c' w \<and> lc_init c' = lc_init c \<and> lc_start c' = lc_start c \<and>
    (e = None \<longrightarrow> cs_status (lc_state c') = actual_status w c) \<and> (lc_state c' = lc_state c \<or> e = None)"
proof (cases "isPaused sys w")
  case (Inl x)
  then show ?thesis using run inv by (auto simp: refreshState_def)
next
  case paused: (Inr b)
  show ?thesis
  proof (cases b)
    case True
    then have f: "rw_frozen w" using paused by (auto simp: isPaused_def split: if_splits)
    have "transition sys w pausedState c = (c', e)" using run paused True by (simp add: refreshState_def)
    then show ?thesis using transition_inv [OF inv, of pausedState] f by (auto simp: actual_status_def)
  next
    case False
    then have f: "\<not> rw_frozen w" using paused by (auto simp: isPaused_def split: if_splits)
    show ?thesis
    proof (cases "runType sys w c")
      case (Inl x)
      then show ?thesis using run inv paused False by (auto simp: refreshState_def)
    next
      case (Inr s)
      have s: "s = proc_status w c" by (rule runType_status [OF Inr runc_inv_knows [OF inv]])
      define t where "t = (case s of Created \<Rightarrow> createdState | Running \<Rightarrow> runningState | _ \<Rightarrow> stoppedState)"
      have "transition sys w t c = (c', e)" using run paused False Inr by (auto simp: refreshState_def t_def split: rstatus.splits)
      moreover have "t \<in> {stoppedState, runningState, createdState, pausedState}" by (auto simp: t_def split: rstatus.splits)
      moreover have "t = stoppedState \<Longrightarrow> proc_status w c = Stopped"
        using proc_status_range [of w c] by (auto simp: t_def s split: rstatus.splits)
      moreover have "t = createdState \<Longrightarrow> lc_init c \<noteq> None"
        by (auto simp: t_def s proc_status_def split: rstatus.splits option.splits)
      ultimately have "runc_inv c' w \<and> lc_init c' = lc_init c \<and> lc_start c' = lc_start c \<and> (e = None \<longrightarrow> lc_state c' = t) \<and>
          (lc_state c' = lc_state c \<or> e = None)"
        using transition_inv [OF inv] by blast
      moreover have "cs_status t = actual_status w c"
        using proc_status_range [of w c] f by (auto simp: t_def s actual_status_def)
      ultimately show ?thesis by auto
    qed
  qed
qed

lemma currentStatus_inv:
  assumes inv: "runc_inv c w" and run: "currentStatus sys w c = (c', r)"
  shows "runc_inv c' w \<and> lc_init c' = lc_init c \<and> lc_start c' = lc_start c \<and> (\<forall>st. r = Inr st \<longrightarrow> st = actual_status w c)"
proof -
  obtain c1 e where 1: "refreshState sys w c = (c1, e)" by fastforce
  then have "c' = c1" "\<forall>st. r = Inr st \<longrightarrow> e = None \<and> st = cs_status (lc_state c1)"
    using run by (auto simp: currentStatus_def split: option.splits)
  then show ?thesis using refresh_inv [OF inv 1] by auto
qed

lemma rc_destroy_inv:
  assumes "procs_ok w" "rc_destroy sys w c = (w', c', e)"
  shows "runc_inv c' w'"
proof -
  have "procs_ok w'" "rw_clock w' = rw_clock w" "lc_init c' = None" "lc_state c' = stoppedState"
    using assms signalAll_world(3) [OF assms(1), of c]
    by (auto simp: rc_destroy_def Let_def signalAll_world)
  then show ?thesis by (simp add: runc_inv_def proc_status_def)
qed

lemma state_destroy_cases:
  assumes "state_destroy sys w c = (w', c', e)"
  obtains (refused) "w' = w" "c' = c"
    | (destroyed) w1 where "w1 = w \<or> w1 = kill_init c w \<or> w1 = w\<lparr>rw_frozen := False\<rparr>" "rc_destroy sys w1 c = (w', c', e)"
proof (cases "lc_state c")
  case stoppedState
  then show ?thesis using assms that(2) [of w] by (simp add: destroys)
next
  case runningState
  then show ?thesis using assms that(1) that(2) [of w] by (cases "runType sys w c") (auto simp: destroys split: if_splits)
next
  case createdState
  then show ?thesis using assms that(2) [of "kill_init c w"] by (simp add: destroys)
next
  case pausedState
  then show ?thesis
    using assms that(1) that(2) [of "w\<lparr>rw_frozen := False\<rparr>"] by (cases "runType sys w c") (auto simp: destroys split: if_splits)
next
  case (restoredState x)
  then show ?thesis using assms that(1) that(2) [of w] by (auto simp: destroys split: if_splits)
next
  case (loadedState x)
  then show ?thesis using assms that(1) by (auto simp: destroys)
qed

lemma state_destroy_inv:
  assumes inv: "runc_inv c w" and run: "state_destroy sys w c = (w', c', e)"
  shows "runc_inv c' w'"
proof -
  have ok: "procs_ok w" "procs_ok (kill_init c w)" "procs_ok (w\<lparr>rw_frozen := f\<rparr>)" for f
    using inv kill_init_world(3) by (auto simp: runc_inv_def procs_ok_def)
  show ?thesis
    using run
  proof (cases rule: state_destroy_cases)
    case refused
    then show ?thesis using inv by simp
  next
    case (destroyed w1)
    then have "procs_ok w1" using ok by auto
    then show ?thesis using destroyed(2) rc_destroy_inv by blast
  qed
qed

lemma Destroy_state: "runc_inv c w \<Longrightarrow> Destroy sys w c = state_destroy sys w c"
  by (auto simp: Destroy_def runc_inv_def split: runc_state.splits)

lemma rc_start_inv:
  assumes inv: "runc_inv c w" and save: "sy_save sys" "sy_starttime sys" and pid: "gm_get (rw_procs w) (sy_pid sys) = None"
    and run: "rc_start sys isInit w c = (w', c', e)"
  shows "runc_inv c' w'"
proof (cases "sy_parent sys \<and> sy_started sys")
  case False
  then show ?thesis using run inv by (auto simp: rc_start_def)
next
  case True
  define w1 where "w1 = w\<lparr>rw_procs := gm_set (sy_pid sys) (rw_clock w, isInit) (rw_procs w), rw_clock := rw_clock w + 1\<rparr>"
  have ok: "procs_ok w1" using inv by (auto simp: runc_inv_def procs_ok_def w1_def less_SucI)
  have clock: "rw_clock w1 = rw_clock w + 1" by (simp add: w1_def)
  show ?thesis
  proof (cases isInit)
    case False
    then have "w' = w1" "c' = c\<lparr>lc_state := runningState\<rparr>" using run True by (auto simp: rc_start_def w1_def Let_def)
    then show ?thesis using inv ok clock by (auto simp: runc_inv_def less_SucI)
  next
    case init: True
    define c3 where "c3 = c\<lparr>lc_state := createdState, lc_init := Some (sy_pid sys, rw_clock w), lc_start := Some (rw_clock w)\<rparr>"
    have "c' = c3" "w' = w1 \<or> w' = kill_init c3 w1"
      using run True init save by (auto simp: rc_start_def w1_def c3_def Let_def split: if_splits)
    moreover have "procs_ok (kill_init c3 w1)" "rw_clock (kill_init c3 w1) = rw_clock w1" using ok kill_init_world by simp_all
    ultimately show ?thesis using ok clock by (auto simp: runc_inv_def c3_def)
  qed
qed

lemma rc_exec_world:
  assumes "rc_exec sys w c = (w', e)"
  shows "w' = w \<or> (\<exists>pid st. gm_get (rw_procs w) pid = Some (st, True) \<and> w' = w\<lparr>rw_procs := gm_set pid (st, False) (rw_procs w)\<rparr>)"
proof (cases "lc_init c")
  case (Some p)
  obtain pid st where "p = (pid, st)" by fastforce
  then show ?thesis using assms Some by (cases "gm_get (rw_procs w) pid = Some (st, True)") (auto simp: rc_exec_def split: if_splits)
qed (use assms in \<open>auto simp: rc_exec_def split: if_splits\<close>)

lemma executes_inv:
  assumes inv: "runc_inv c w" and p: "gm_get (rw_procs w) pid = Some (st, True)"
  shows "runc_inv c (w\<lparr>rw_procs := gm_set pid (st, False) (rw_procs w)\<rparr>)"
  by (rule runc_inv_world [OF inv])
    (use inv p in \<open>auto simp: runc_inv_def procs_ok_def proc_status_def split: option.splits if_splits\<close>)

lemma rc_exec_inv: "runc_inv c w \<Longrightarrow> rc_exec sys w c = (w', e) \<Longrightarrow> runc_inv c w'"
  using rc_exec_world executes_inv by blast

lemma frozen_inv: "runc_inv c w \<Longrightarrow> runc_inv c (w\<lparr>rw_frozen := f\<rparr>)"
  by (rule runc_inv_world) (simp_all add: runc_inv_def)

lemma runc_do_inv:
  assumes inv: "runc_inv c w" and save: "sy_save sys" "sy_starttime sys" and pid: "gm_get (rw_procs w) (sy_pid sys) = None"
    and run: "runc_do sys op w c = (w', c', e)"
  shows "runc_inv c' w'"
proof -
  obtain c1 r where cs: "currentStatus sys w c = (c1, r)" by fastforce
  have inv1: "runc_inv c1 w" and status: "\<And>st. r = Inr st \<Longrightarrow> st = actual_status w c" using currentStatus_inv [OF inv cs] by auto
  have pause: "runc_inv c2 (w\<lparr>rw_frozen := f\<rparr>)" if "transition sys (w\<lparr>rw_frozen := f\<rparr>) t c1 = (c2, e2)"
    "t = pausedState \<or> t = runningState" for c2 f t e2
    using transition_inv [OF frozen_inv [OF inv1] _ that(1)] that(2) by auto
  show ?thesis
  proof (cases op)
    case OpStatus
    then show ?thesis using run cs inv1 by (cases r) auto
  next
    case OpStart
    then show ?thesis using run cs inv1 rc_start_inv [OF inv1 save pid] by (cases r) (auto simp: rc_Start_def)
  next
    case OpRun
    show ?thesis
    proof (cases r)
      case (Inl x)
      then show ?thesis using OpRun run cs inv1 by (simp add: rc_Run_def)
    next
      case (Inr st)
      obtain w2 c2 e2 where s: "rc_start sys (st = Stopped) w c1 = (w2, c2, e2)" by (metis prod_cases3)
      have inv2: "runc_inv c2 w2" by (rule rc_start_inv [OF inv1 save pid s])
      obtain w3 e3 where x: "rc_exec sys w2 c2 = (w3, e3)" by fastforce
      have "c' = c2 \<and> (w' = w2 \<or> w' = w3)" using OpRun run cs Inr s x by (auto simp: rc_Run_def split: option.splits if_splits)
      then show ?thesis using inv2 rc_exec_inv [OF inv2 x] by auto
    qed
  next
    case OpExec
    then show ?thesis using run rc_exec_inv [OF inv] by (auto split: prod.splits)
  next
    case OpPause
    then show ?thesis using run cs inv1 pause by (cases r) (auto simp: rc_Pause_def Let_def split: if_splits)
  next
    case OpResume
    then show ?thesis using run cs inv1 pause by (cases r) (auto simp: rc_Resume_def Let_def split: if_splits)
  next
    case OpSet
    then show ?thesis using run cs inv1 by (cases r) (auto simp: rc_Set_def split: if_splits)
  next
    case OpDestroy
    then show ?thesis using run state_destroy_inv [OF inv] Destroy_state [OF inv] by simp
  qed
qed

lemma lf_Load_inv:
  assumes ok: "procs_ok w" "st < rw_clock w" and run: "lf_Load sys w (pid, st) (Some st) newpid = Inr c"
  shows "runc_inv c w"
proof -
  let ?c = "\<lparr>lc_state = loadedState Created, lc_init = Some (pid, st), lc_start = Some st, lc_newpid = newpid\<rparr>"
  have known: "knows_start ?c" by (simp add: knows_start_def)
  have r: "refreshState sys w ?c = (c, None)" using run by (auto simp: lf_Load_def split: prod.splits option.splits)
  obtain b where b: "isPaused sys w = Inr b" using r by (auto simp: refreshState_def split: sum.splits)
  show ?thesis
  proof (cases b)
    case True
    then have "c = ?c\<lparr>lc_state := pausedState\<rparr>" using r b by (simp add: refreshState_def transitions)
    then show ?thesis using ok by (simp add: runc_inv_def)
  next
    case False
    then obtain s where s: "runType sys w ?c = Inr s" using r b by (auto simp: refreshState_def split: sum.splits)
    have eq: "s = proc_status w ?c" by (rule runType_status [OF s known])
    have "c = ?c\<lparr>lc_state := (case s of Created \<Rightarrow> createdState | Running \<Rightarrow> runningState | _ \<Rightarrow> stoppedState)\<rparr>"
      using r b False s by (cases s) (simp_all add: refreshState_def transitions)
    moreover have "proc_status w (?c\<lparr>lc_state := x\<rparr>) = proc_status w ?c" for x by (simp add: proc_status_def)
    ultimately show ?thesis using ok eq proc_status_range [of w ?c] by (auto simp: runc_inv_def)
  qed
qed

lemma runc_reach_inv: "runc_reach c w \<Longrightarrow> runc_inv c w"
proof (induction rule: runc_reach.induct)
  case (created w newpid)
  then show ?case by (simp add: runc_inv_def lf_Create_def proc_status_def)
next
  case (loaded w st sys pid newpid c)
  then show ?case by (rule lf_Load_inv)
next
  case (operation c w sys op w' c' e)
  then show ?case using runc_do_inv by blast
next
  case (executes c w pid st)
  then show ?case using executes_inv by blast
next
  case (exits c w pid)
  then show ?case
    by (intro runc_inv_world [OF exits.IH]) (auto simp: runc_inv_def procs_ok_def proc_status_def split: option.splits if_splits)
next
  case (forks c w pid b)
  have "procs_ok (w\<lparr>rw_procs := gm_set pid (rw_clock w, b) (rw_procs w), rw_clock := rw_clock w + 1\<rparr>)"
    using forks.IH by (auto simp: runc_inv_def procs_ok_def less_SucI)
  moreover have "proc_status (w\<lparr>rw_procs := gm_set pid (rw_clock w, b) (rw_procs w), rw_clock := rw_clock w + 1\<rparr>) c = Stopped"
    if "proc_status w c = Stopped"
    using that forks.IH by (fastforce simp: runc_inv_def proc_status_def split: option.splits if_splits)
  ultimately show ?case by (intro runc_inv_world [OF forks.IH]) simp_all
next
  case (freezes c w f)
  then show ?case by (intro frozen_inv)
qed



section \<open>Properties\<close>

text \<open>
  C19. The status of a container whose start time is known. In every state reached without a failed save, without a failed read of
  the start time of a new process and without a restore from a checkpoint, a status that is told is the one of the init process, or \<open>Paused\<close> when
  the container is frozen. When the system can be read, it is told exactly if the state last seen allows the move to it, and the error
  names both otherwise. A lost start time makes a living container stopped (\<open>start_time_lost\<close>), a restored one runs for ever (\<open>restored_blind\<close>).
\<close>

theorem runc_status_exact:
  assumes "runc_reach c w"
  shows "(\<forall>sys st. snd (currentStatus sys w c) = Inr st \<longrightarrow> st = actual_status w c) \<and>
    (\<forall>sys. sys_reads sys \<longrightarrow>
       snd (currentStatus sys w c) = (if moves (lc_state c) (actual_status w c) then Inr (actual_status w c)
         else Inl (InvalidTransition (cs_status (lc_state c)) (actual_status w c))))"
proof -
  have inv: "runc_inv c w" by (rule runc_reach_inv [OF assms])
  have "st = actual_status w c" if "snd (currentStatus sys w c) = Inr st" for sys st
  proof -
    obtain c1 r where cs: "currentStatus sys w c = (c1, r)" by fastforce
    then show ?thesis using currentStatus_inv [OF inv cs] that by simp
  qed
  moreover have "snd (currentStatus sys w c) = (if moves (lc_state c) (actual_status w c) then Inr (actual_status w c)
         else Inl (InvalidTransition (cs_status (lc_state c)) (actual_status w c)))" if "sys_reads sys" for sys
    using runc_status [OF that runc_inv_knows [OF inv], of w] inv by (auto simp: runc_inv_def split: runc_state.splits)
  ultimately show ?thesis by blast
qed

lemma Destroy_running:
  assumes inv: "runc_inv c w" and run: "Destroy sys w c = (w', c', e)" and alive: "proc_status w c = Running" and st: "lc_state c \<noteq> createdState"
  shows "e \<noteq> None \<and> w' = w \<and> c' = c"
proof -
  have known: "knows_start c" by (rule runc_inv_knows [OF inv])
  have rt: "runType sys w c = Inr s \<Longrightarrow> s = Running" for s using runType_status [OF _ known] alive by simp
  have "lc_state c = runningState \<or> lc_state c = pausedState" using inv alive st by (auto simp: runc_inv_def split: runc_state.splits)
  then show ?thesis
    using run rt unfolding Destroy_state [OF inv] destroys
    by (cases "runType sys w c") (auto split: if_splits)
qed

lemma kill_init_dead: "proc_status (kill_init c w) c = Stopped"
  by (auto simp: kill_init_def proc_status_def split: option.splits)

text \<open>
  C20. What a destruction can end, in the same states. A container whose init process runs the user's process is not destroyed: the call fails, and nothing
  changes. The one exception is a container last seen as created, whose process has meanwhile gone on: it is killed without another look.
  The comment of the interface and the specification say that a destruction kills the running processes first; the code refuses.
\<close>

theorem runc_destroy_refused:
  assumes "runc_reach c w" "proc_status w c = Running" "Destroy sys w c = (w', c', e)"
  shows "if lc_state c = createdState then proc_status w' c = Stopped \<and> lc_init c' = None else e \<noteq> None \<and> w' = w \<and> c' = c"
proof -
  have inv: "runc_inv c w" by (rule runc_reach_inv [OF assms(1)])
  show ?thesis
  proof (cases "lc_state c = createdState")
    case True
    have r: "rc_destroy sys (kill_init c w) c = (w', c', e)"
      using assms(3) True by (simp add: Destroy_state [OF inv] destroys)
    have frame: "proc_status (rw_dir_update f v) c = proc_status v c" "proc_status (rw_frozen_update f v) c = proc_status v c" for f v
      by (simp_all add: proc_status_def split: option.split)
    have kk: "signalAllProcesses c (kill_init c w) = kill_init c w"
      by (auto simp: kill_init_def signalAllProcesses_def split: option.splits)
    have "proc_status w' c = Stopped" "lc_init c' = None"
      using r by (auto simp: rc_destroy_def Let_def frame kk kill_init_dead)
    then show ?thesis using True by simp
  next
    case False
    then show ?thesis using Destroy_running [OF inv assms(3,2)] by simp
  qed
qed

section \<open>Observations\<close>

text \<open>
  A created container that is paused and resumed is left in the state of a running one, from which there is no way back: its status cannot be told,
  and it cannot be started, until its process runs.
\<close>

lemma pause_resume_created:
  assumes "sys_reads sys" "sy_freeze sys" "knows_start c" "lc_state c = createdState" "rw_frozen w = False" "proc_status w c = Created"
    and "rc_Pause sys w c = (w1, c1, e1)" "rc_Resume sys w1 c1 = (w2, c2, e2)"
  shows "e1 = None \<and> e2 = None \<and> snd (currentStatus sys w2 c2) = Inl (InvalidTransition Running Created)"
proof -
  have s: "sy_freezer sys" using assms(1) by (simp add: sys_reads_def)
  have "currentStatus sys w c = (c, Inr Created)"
    using assms(4-6) by (simp add: currentStatus_def refresh_reads [OF assms(1,3)] actual_status_def transitions)
  then have 1: "w1 = w\<lparr>rw_frozen := True\<rparr>" "c1 = c\<lparr>lc_state := pausedState\<rparr>" "e1 = None"
    using assms(2,4,7) by (auto simp: rc_Pause_def Let_def transitions)
  have "currentStatus sys w1 c1 = (c1, Inr Paused)"
    using 1 s by (simp add: currentStatus_def refreshState_def isPaused_def transitions)
  then have 2: "w2 = w1\<lparr>rw_frozen := False\<rparr>" "c2 = c1\<lparr>lc_state := runningState\<rparr>" "e2 = None"
    using assms(2,8) 1 by (auto simp: rc_Resume_def Let_def transitions)
  have known: "knows_start c2" using assms(3) 1 2 by (simp add: knows_start_def)
  have "actual_status w2 c2 = Created" using assms(6) 1 2 by (simp add: actual_status_def)
  then have "snd (currentStatus sys w2 c2) = Inl (InvalidTransition Running Created)"
    using runc_status [OF assms(1) known, of w2] 2 by (simp add: moves_def)
  then show ?thesis using 1 2 by simp
qed

text \<open>
  The error of reading the start time of a new process is dropped, and a save can fail: the container then compares with another
  start time than its process has. It is told as stopped as long as its process lives, a destruction from the state of a running container
  goes through, and a start makes a second init process.
\<close>

lemma start_time_lost:
  assumes "lc_init c = Some (pid, st)" "gm_get (rw_procs w) pid = Some (st, b)" "lc_start c \<noteq> Some st" "\<not> rw_frozen w" "sys_reads sys"
  shows "lc_state c \<in> {createdState, runningState, pausedState, stoppedState} \<Longrightarrow> snd (currentStatus sys w c) = Inr Stopped"
    "lc_state c = runningState \<Longrightarrow> Destroy sys w c = rc_destroy sys w c"
proof -
  have rt: "runType sys w c = Inr Stopped"
    using assms by (simp add: runType_def doesInitProcessExist_def sys_reads_def)
  then show "lc_state c = runningState \<Longrightarrow> Destroy sys w c = rc_destroy sys w c" by (simp add: Destroy_def destroys)
  have "isPaused sys w = Inr False" using assms(4,5) by (simp add: isPaused_def sys_reads_def)
  then show "lc_state c \<in> {createdState, runningState, pausedState, stoppedState} \<Longrightarrow> snd (currentStatus sys w c) = Inr Stopped"
    using rt by (auto simp: currentStatus_def refreshState_def transitions)
qed

text \<open>
  A container last seen as created whose process is gone: the signal of its destruction goes to the process that has the identifier now.
\<close>

lemma created_destroy_stranger:
  assumes "lc_state c = createdState" "lc_init c = Some (pid, st)" "gm_get (rw_procs w) pid = Some (st', b)" "st' \<noteq> st"
    and "Destroy sys w c = (w', c', e)"
  shows "proc_status w c = Stopped \<and> gm_get (rw_procs w') pid = None"
  using assms by (auto simp: Destroy_def destroys rc_destroy_def kill_init_def signalAllProcesses_def proc_status_def Let_def)

text \<open>
  A restored container tells the status \<open>Running\<close> whatever its process does, can be destroyed while it runs, and
  a pause freezes it and then fails.
\<close>

lemma restored_blind:
  assumes "lc_state c = restoredState dir"
  shows "snd (currentStatus sys w c) = Inr st \<Longrightarrow> st = Running"
    "sy_checkpoint sys \<Longrightarrow> Destroy sys w c = rc_destroy sys w c"
    "rc_Pause sys w c = (w', c', None) \<Longrightarrow> False"
proof -
  have still: "lc_state c1 = restoredState dir" if "refreshState sys w c = (c1, e)" for c1 e
    using that assms by (auto simp: refreshState_def transitions invalid_def split: sum.splits bool.splits rstatus.splits)
  then show st: "snd (currentStatus sys w c) = Inr st \<Longrightarrow> st = Running" for st
    by (auto simp: currentStatus_def split: prod.splits option.splits)
  show "sy_checkpoint sys \<Longrightarrow> Destroy sys w c = rc_destroy sys w c" using assms by (simp add: Destroy_def destroys)
  obtain c1 r where cs: "currentStatus sys w c = (c1, r)" by fastforce
  obtain c2 e2 where rf: "refreshState sys w c = (c2, e2)" by fastforce
  have c1: "lc_state c1 = restoredState dir" using cs rf still [OF rf] by (auto simp: currentStatus_def split: option.splits)
  show "rc_Pause sys w c = (w', c', None) \<Longrightarrow> False"
    using cs c1 by (cases r) (auto simp: rc_Pause_def Let_def transitions invalid_def split: if_splits)
qed

section \<open>A concrete container\<close>

definition ex_sys :: "nat \<Rightarrow> runc_sys" where
  "ex_sys pid = \<lparr>sy_freezer = True, sy_kill = True, sy_stat = True, sy_environ = True, sy_freeze = True, sy_set = True, sy_killall = True,
     sy_cgroup = True, sy_remove = True, sy_poststop = True, sy_checkpoint = True, sy_parent = True, sy_started = True, sy_starttime = True, sy_save = True,
     sy_poststart = True, sy_fifo = True, sy_fifo_data = ''0'', sy_pid = pid\<rparr>"

definition ex_rworld :: rworld where
  "ex_rworld = \<lparr>rw_procs = [], rw_frozen = False, rw_dir = True, rw_clock = 7\<rparr>"

definition ex_running :: "rworld \<times> lcont" where
  "ex_running = (let (w1, c1, _) = rc_Start (ex_sys 5) ex_rworld (lf_Create True); (w2, _) = rc_exec (ex_sys 6) w1 c1;
     (c3, _) = currentStatus (ex_sys 6) w2 c1 in (w2, c3))"

lemma ex_running_reach: "runc_reach (snd ex_running) (fst ex_running)"
proof -
  have 0: "runc_reach (lf_Create True) ex_rworld" by (rule runc_reach.created) (simp add: procs_ok_def ex_rworld_def)
  obtain w1 c1 e1 where 1: "rc_Start (ex_sys 5) ex_rworld (lf_Create True) = (w1, c1, e1)" by (metis prod_cases3)
  have r1: "runc_reach c1 w1"
    by (rule runc_reach.operation [OF 0, of "ex_sys 5" OpStart]) (use 1 in \<open>simp_all add: ex_sys_def ex_rworld_def\<close>)
  obtain w2 e2 where 2: "rc_exec (ex_sys 6) w1 c1 = (w2, e2)" by fastforce
  have "rw_procs (fst (rc_Start (ex_sys 5) ex_rworld (lf_Create True))) = [(5, (7, True))]" by code_simp
  then have p1: "gm_get (rw_procs w1) 6 = None" using 1 by simp
  have r2: "runc_reach c1 w2"
    by (rule runc_reach.operation [OF r1, of "ex_sys 6" OpExec]) (use 2 p1 in \<open>simp_all add: ex_sys_def\<close>)
  have "rw_procs (fst (rc_exec (ex_sys 6) (fst (rc_Start (ex_sys 5) ex_rworld (lf_Create True))) (fst (snd (rc_Start (ex_sys 5) ex_rworld (lf_Create True)))))) = [(5, (7, False))]"
    by code_simp
  then have p2: "gm_get (rw_procs w2) 6 = None" using 1 2 by simp
  have pid: "gm_get (rw_procs w2) (sy_pid (ex_sys 6)) = None" and save: "sy_save (ex_sys 6) = True" "sy_starttime (ex_sys 6) = True" using p2 by (simp_all add: ex_sys_def)
  obtain c3 r where 3: "currentStatus (ex_sys 6) w2 c1 = (c3, r)" by fastforce
  have "runc_reach c3 w2"
    by (rule runc_reach.operation [OF r2, where sys = "ex_sys 6" and op = OpStatus and e = "case r of Inl e \<Rightarrow> Some e | Inr _ \<Rightarrow> None"])
      (simp_all only: pid save runc_do.simps 3 prod.case, cases r, simp_all)
  then show ?thesis using 1 2 3 by (simp add: ex_running_def)
qed

text \<open>A start whose reading of the start time fails: no error is told, the process lives, the status is stopped, and it can be started again.\<close>

definition ex_lost :: "rworld \<times> lcont" where
  "ex_lost = (case rc_Start (ex_sys 5\<lparr>sy_starttime := False\<rparr>) ex_rworld (lf_Create True) of (w, c, _) \<Rightarrow> (w, c))"

lemma ex_lost_values:
  "snd (snd (rc_Start (ex_sys 5\<lparr>sy_starttime := False\<rparr>) ex_rworld (lf_Create True))) = None"
  "proc_status (fst ex_lost) (snd ex_lost) = Created"
  "snd (currentStatus (ex_sys 6) (fst ex_lost) (snd ex_lost)) = Inr Stopped"
  "rw_procs (fst (rc_Start (ex_sys 6) (fst ex_lost) (snd ex_lost))) = [(5, (7, True)), (6, (8, True))]"
  by code_simp+

theorem runc_status_exact_witness:
  "snd (currentStatus (ex_sys 6) (fst ex_running) (snd ex_running)) = Inr Running"
proof -
  have "actual_status (fst ex_running) (snd ex_running) = Running" "moves (lc_state (snd ex_running)) Running" "sys_reads (ex_sys 6)"
    by code_simp+
  then show ?thesis using runc_status_exact [OF ex_running_reach] by simp
qed

theorem runc_destroy_refused_witness:
  "fst (Destroy (ex_sys 6) (fst ex_running) (snd ex_running)) = fst ex_running \<and>
   snd (snd (Destroy (ex_sys 6) (fst ex_running) (snd ex_running))) \<noteq> None"
proof -
  obtain w' c' e where d: "Destroy (ex_sys 6) (fst ex_running) (snd ex_running) = (w', c', e)" by (metis prod_cases3)
  have "proc_status (fst ex_running) (snd ex_running) = Running" "lc_state (snd ex_running) = runningState" by code_simp+
  then show ?thesis using runc_destroy_refused [OF ex_running_reach _ d] d by simp
qed

end
