(* ===== verification/Endpoints.thy ===== *)
theory Endpoints
  imports ReferenceStore
begin

text \<open>
  Pulls and pushes over the endpoints of a registry (distribution/pull.go, push.go) and the classification of
  errors that says whether the next endpoint is tried (distribution/errors.go, allowV1Fallback of pull_v2.go).

  What happens at one endpoint is a parameter over any state; the text of an error is given by \<open>etext\<close>.
\<close>

section \<open>Endpoints and errors\<close>

datatype version = APIVersion1 | APIVersion2 | OtherVersion

record endpoint =
  ep_version :: version
  ep_scheme :: string
  ep_host :: string
  ep_path :: string

datatype ecode = Unauthorized | Unsupported | Denied | TooManyRequests | NameUnknown | ManifestUnknown | OtherCode string

text \<open>
  The types of error the code tells apart: errcode.Errors and errcode.Error, url.Error, the errors of the
  registry client and its authentication, and those of the package itself. \<open>Errorf\<close> is an error made from a message.
\<close>

datatype 'x go_error =
    ErrorList "'x go_error list"
  | CodeError ecode
  | UrlError "'x go_error"
  | UnexpectedHTTP
  | BlobUnknown
  | NoBasicAuth
  | NoToken
  | NoSupport "'x go_error option"
  | ConfigPullError "'x go_error"
  | NoRetry "'x go_error"
  | Fallback "'x go_error" bool bool
  | UnknownVersion endpoint
  | Errorf string
  | Other 'x

text \<open>\<open>Fallback e v2 tls\<close> has the error, whether a v2 registry was confirmed, and whether the transport worked.\<close>

fun shouldV2Fallback :: "ecode \<Rightarrow> bool" where
  "shouldV2Fallback Unauthorized = True"
| "shouldV2Fallback ManifestUnknown = True"
| "shouldV2Fallback NameUnknown = True"
| "shouldV2Fallback _ = False"

fun no_retry_code :: "ecode \<Rightarrow> bool" where
  "no_retry_code Unauthorized = True"
| "no_retry_code Unsupported = True"
| "no_retry_code Denied = True"
| "no_retry_code TooManyRequests = True"
| "no_retry_code NameUnknown = True"
| "no_retry_code _ = False"

definition enospc :: string where
  "enospc = ''no space left on device''"

fun continueOnError :: "('x go_error \<Rightarrow> string) \<Rightarrow> 'x go_error \<Rightarrow> bool" where
  "continueOnError etext (ErrorList []) = True"
| "continueOnError etext (ErrorList (e # es)) = continueOnError etext e"
| "continueOnError etext (NoSupport None) = True"
| "continueOnError etext (NoSupport (Some e)) = continueOnError etext e"
| "continueOnError etext (CodeError c) = shouldV2Fallback c"
| "continueOnError etext UnexpectedHTTP = True"
| "continueOnError etext (ConfigPullError e) = False"
| "continueOnError etext e = (\<not> sublist enospc (etext e))"

fun retryOnError :: "('x go_error \<Rightarrow> string) \<Rightarrow> 'x go_error \<Rightarrow> 'x go_error" where
  "retryOnError etext (ErrorList []) = ErrorList []"
| "retryOnError etext (ErrorList (e # es)) = retryOnError etext e"
| "retryOnError etext (CodeError c) = (if no_retry_code c then NoRetry (CodeError c) else CodeError c)"
| "retryOnError etext (UrlError NoBasicAuth) = NoRetry NoBasicAuth"
| "retryOnError etext (UrlError NoToken) = NoRetry NoToken"
| "retryOnError etext (UrlError e) = retryOnError etext e"
| "retryOnError etext UnexpectedHTTP = NoRetry UnexpectedHTTP"
| "retryOnError etext BlobUnknown = NoRetry BlobUnknown"
| "retryOnError etext e = (if sublist enospc (etext e) then NoRetry e else e)"

fun TranslatePullError :: "named \<Rightarrow> 'x go_error \<Rightarrow> 'x go_error" where
  "TranslatePullError ref (ErrorList (e # es)) = TranslatePullError ref e"
| "TranslatePullError ref (CodeError Denied) =
     Errorf (''repository '' @ FamiliarName ref @ '' not found: does not exist or no pull access'')"
| "TranslatePullError ref (CodeError ManifestUnknown) = Errorf (''manifest for '' @ FamiliarString ref @ '' not found'')"
| "TranslatePullError ref (CodeError NameUnknown) = Errorf (''repository '' @ FamiliarName ref @ '' not found'')"
| "TranslatePullError ref (NoRetry e) = TranslatePullError ref e"
| "TranslatePullError ref e = e"

fun allowV1Fallback :: "'x go_error \<Rightarrow> 'x go_error" where
  "allowV1Fallback (ErrorList (CodeError c # es)) =
     (if shouldV2Fallback c then Fallback (ErrorList (CodeError c # es)) False True else ErrorList (CodeError c # es))"
| "allowV1Fallback (CodeError c) = (if shouldV2Fallback c then Fallback (CodeError c) False True else CodeError c)"
| "allowV1Fallback (UrlError NoBasicAuth) = Fallback (UrlError NoBasicAuth) False False"
| "allowV1Fallback e = e"

section \<open>The loops\<close>

text \<open>What was learnt from the endpoints tried so far.\<close>

record 'x learnt =
  le_last :: "'x go_error option"
  le_discard :: bool
  le_v2 :: bool
  le_tls :: "string goset"

definition learnt0 :: "'x learnt" where
  "learnt0 = \<lparr>le_last = None, le_discard = False, le_v2 = False, le_tls = []\<rparr>"

text \<open>The outcome at an endpoint: whether the request is cancelled by now, and the error.\<close>

type_synonym ('x, 's) attempt_at = "endpoint \<Rightarrow> 's \<Rightarrow> 's \<times> bool \<times> 'x go_error option"

definition ep_skipped :: "bool \<Rightarrow> endpoint \<Rightarrow> 'x learnt \<Rightarrow> bool" where
  "ep_skipped requireSchema2 ep l \<longleftrightarrow>
     requireSchema2 \<and> ep_version ep = APIVersion1 \<or>
     le_v2 l \<and> ep_version ep = APIVersion1 \<or>
     ep_scheme ep \<noteq> ''https'' \<and> ep_host ep \<in> set (le_tls l)"

definition learn :: "endpoint \<Rightarrow> bool \<Rightarrow> bool \<Rightarrow> 'x learnt \<Rightarrow> 'x learnt" where
  "learn ep v2 tls l =
     l\<lparr>le_v2 := le_v2 l \<or> v2,
       le_tls := (if tls \<and> ep_scheme ep = ''https'' then gs_add (ep_host ep) (le_tls l) else le_tls l)\<rparr>"

fun lacks_support :: "'x go_error \<Rightarrow> bool" where
  "lacks_support (NoSupport x) = True"
| "lacks_support _ = False"

text \<open>The error a pull keeps: an error that says the endpoint lacks support does not replace another.\<close>

definition pull_keep :: "'x go_error \<Rightarrow> 'x learnt \<Rightarrow> 'x learnt" where
  "pull_keep e l =
     (if \<not> lacks_support e then l\<lparr>le_discard := True, le_last := Some e\<rparr>
      else if \<not> le_discard l then l\<lparr>le_last := Some e\<rparr>
      else l)"

fun pull_loop ::
  "('x, 's) attempt_at \<Rightarrow> (string \<times> string \<times> string \<Rightarrow> 's \<Rightarrow> 's) \<Rightarrow> bool \<Rightarrow> named \<Rightarrow> endpoint list \<Rightarrow> 'x learnt \<Rightarrow> 's \<Rightarrow> 's \<times> 'x go_error option" where
  "pull_loop puller logEvent req ref [] l s =
     (s, Some (TranslatePullError ref
        (case le_last l of None \<Rightarrow> Errorf (''no endpoints found for '' @ FamiliarString ref) | Some e \<Rightarrow> e)))"
| "pull_loop puller logEvent req ref (ep # eps) l s =
     (if ep_skipped req ep l then pull_loop puller logEvent req ref eps l s
      else if ep_version ep = OtherVersion then pull_loop puller logEvent req ref eps (l\<lparr>le_last := Some (UnknownVersion ep)\<rparr>) s
      else
        (case puller ep s of
           (s1, cancelled, None) \<Rightarrow> (logEvent (FamiliarString ref, FamiliarName ref, ''pull'') s1, None)
         | (s1, cancelled, Some err) \<Rightarrow>
            (case err of
               Fallback e v2 tls \<Rightarrow>
                 if \<not> cancelled then pull_loop puller logEvent req ref eps (pull_keep e (learn ep v2 tls l)) s1
                 else (s1, Some (TranslatePullError ref err))
             | _ \<Rightarrow> (s1, Some (TranslatePullError ref err)))))"

definition ValidateRepoName :: "named \<Rightarrow> 'x go_error option" where
  "ValidateRepoName name = (if FamiliarName name = ''scratch'' then Some (Errorf (CHR 0x27 # ''scratch'' @ CHR 0x27 # '' is a reserved name'')) else None)"

text \<open>\<open>resolve\<close> and \<open>endpoints\<close> are the registry service; the name of the repository is that of the reference.\<close>

definition Pull ::
  "('x go_error option) \<Rightarrow> ('x go_error + endpoint list) \<Rightarrow> ('x, 's) attempt_at \<Rightarrow> (string \<times> string \<times> string \<Rightarrow> 's \<Rightarrow> 's) \<Rightarrow> bool \<Rightarrow> named \<Rightarrow> 's \<Rightarrow> 's \<times> 'x go_error option" where
  "Pull resolve endpoints puller logEvent req ref s =
     (case resolve of
        Some e \<Rightarrow> (s, Some e)
      | None \<Rightarrow>
         (case ValidateRepoName ref of
            Some e \<Rightarrow> (s, Some e)
          | None \<Rightarrow>
             (case endpoints of
                Inl e \<Rightarrow> (s, Some e)
              | Inr eps \<Rightarrow> pull_loop puller logEvent req ref eps learnt0 s)))"

fun push_loop ::
  "('x, 's) attempt_at \<Rightarrow> (string \<times> string \<times> string \<Rightarrow> 's \<Rightarrow> 's) \<Rightarrow> bool \<Rightarrow> named \<Rightarrow> endpoint list \<Rightarrow> 'x learnt \<Rightarrow> 's \<Rightarrow> 's \<times> 'x go_error option" where
  "push_loop pusher logEvent req ref [] l s =
     (s, Some (case le_last l of None \<Rightarrow> Errorf (''no endpoints found for '' @ repo_name (ref_repo ref)) | Some e \<Rightarrow> e))"
| "push_loop pusher logEvent req ref (ep # eps) l s =
     (if ep_skipped req ep l then push_loop pusher logEvent req ref eps l s
      else if ep_version ep = OtherVersion then push_loop pusher logEvent req ref eps (l\<lparr>le_last := Some (UnknownVersion ep)\<rparr>) s
      else
        (case pusher ep s of
           (s1, cancelled, None) \<Rightarrow> (logEvent (FamiliarString ref, FamiliarName ref, ''push'') s1, None)
         | (s1, cancelled, Some err) \<Rightarrow>
            (case err of
               Fallback e v2 tls \<Rightarrow>
                 if \<not> cancelled then push_loop pusher logEvent req ref eps ((learn ep v2 tls l)\<lparr>le_last := Some e\<rparr>) s1
                 else (s1, Some err)
             | _ \<Rightarrow> (s1, Some err))))"

text \<open>\<open>tagged\<close> is the number of names the reference store has for the repository.\<close>

definition Push ::
  "('x go_error option) \<Rightarrow> ('x go_error + endpoint list) \<Rightarrow> nat \<Rightarrow> ('x, 's) attempt_at \<Rightarrow> (string \<times> string \<times> string \<Rightarrow> 's \<Rightarrow> 's) \<Rightarrow> bool \<Rightarrow> named \<Rightarrow> 's \<Rightarrow> 's \<times> 'x go_error option" where
  "Push resolve endpoints tagged pusher logEvent req ref s =
     (case resolve of
        Some e \<Rightarrow> (s, Some e)
      | None \<Rightarrow>
         (case endpoints of
            Inl e \<Rightarrow> (s, Some e)
          | Inr eps \<Rightarrow>
              if tagged = 0 then (s, Some (Errorf (''An image does not exist locally with the tag: '' @ FamiliarName ref)))
              else push_loop pusher logEvent req ref eps learnt0 s))"


section \<open>What is tried\<close>

text \<open>A puller or pusher that keeps a record of the endpoints it was used on, and of what came of them.\<close>

type_synonym 'x trail = "(endpoint \<times> bool \<times> 'x go_error option) list"

definition logged :: "('x, 's) attempt_at \<Rightarrow> ('x, 's \<times> 'x trail) attempt_at" where
  "logged p ep st = (case p ep (fst st) of (s1, c, e) \<Rightarrow> ((s1, snd st @ [(ep, c, e)]), c, e))"

definition logged_event :: "(string \<times> string \<times> string \<Rightarrow> 's \<Rightarrow> 's) \<Rightarrow> string \<times> string \<times> string \<Rightarrow> 's \<times> 'x trail \<Rightarrow> 's \<times> 'x trail" where
  "logged_event f ev st = (f ev (fst st), snd st)"

text \<open>What an attempt told: whether a v2 registry was confirmed and the transport worked; nothing when the loop ends with it.\<close>

fun told :: "endpoint \<times> bool \<times> 'x go_error option \<Rightarrow> (bool \<times> bool) option" where
  "told (ep, False, Some (Fallback e v2 tls)) = Some (v2, tls)"
| "told _ = None"

text \<open>The endpoint \<open>y\<close> may be tried after \<open>x\<close>.\<close>

definition may_follow :: "endpoint \<times> bool \<times> 'x go_error option \<Rightarrow> endpoint \<times> bool \<times> 'x go_error option \<Rightarrow> bool" where
  "may_follow x y =
     (case told x of
        None \<Rightarrow> False
      | Some (v2, tls) \<Rightarrow>
          (v2 \<longrightarrow> ep_version (fst y) \<noteq> APIVersion1) \<and>
          (tls \<and> ep_scheme (fst x) = ''https'' \<and> ep_scheme (fst y) \<noteq> ''https'' \<longrightarrow> ep_host (fst y) \<noteq> ep_host (fst x)))"

lemma pull_step:
  assumes "\<not> ep_skipped req ep l" "ep_version ep \<noteq> OtherVersion" "p ep s = (s1, c, e)"
  shows "pull_loop p f req ref (ep # eps) l s =
    (case told (ep, c, e) of
       None \<Rightarrow> (case e of None \<Rightarrow> (f (FamiliarString ref, FamiliarName ref, ''pull'') s1, None)
                | Some err \<Rightarrow> (s1, Some (TranslatePullError ref err)))
     | Some (v2, tls) \<Rightarrow> pull_loop p f req ref eps (pull_keep (case e of Some (Fallback x _ _) \<Rightarrow> x) (learn ep v2 tls l)) s1)"
  using assms by (cases c) (auto split: option.split go_error.split)

lemma push_step:
  assumes "\<not> ep_skipped req ep l" "ep_version ep \<noteq> OtherVersion" "p ep s = (s1, c, e)"
  shows "push_loop p f req ref (ep # eps) l s =
    (case told (ep, c, e) of
       None \<Rightarrow> (case e of None \<Rightarrow> (f (FamiliarString ref, FamiliarName ref, ''push'') s1, None)
                | Some err \<Rightarrow> (s1, Some err))
     | Some (v2, tls) \<Rightarrow>
         push_loop p f req ref eps ((learn ep v2 tls l)\<lparr>le_last := Some (case e of Some (Fallback x _ _) \<Rightarrow> x)\<rparr>) s1)"
  using assms by (cases c) (auto split: option.split go_error.split)

lemma loop_skip:
  "ep_skipped req ep l \<Longrightarrow> pull_loop p f req ref (ep # eps) l s = pull_loop p f req ref eps l s"
  "ep_skipped req ep l \<Longrightarrow> push_loop p f req ref (ep # eps) l s = push_loop p f req ref eps l s"
  "\<not> ep_skipped req ep l \<Longrightarrow> ep_version ep = OtherVersion \<Longrightarrow>
     pull_loop p f req ref (ep # eps) l s = pull_loop p f req ref eps (l\<lparr>le_last := Some (UnknownVersion ep)\<rparr>) s"
  "\<not> ep_skipped req ep l \<Longrightarrow> ep_version ep = OtherVersion \<Longrightarrow>
     push_loop p f req ref (ep # eps) l s = push_loop p f req ref eps (l\<lparr>le_last := Some (UnknownVersion ep)\<rparr>) s"
  by simp_all

declare pull_loop.simps(2) [simp del] push_loop.simps(2) [simp del]

text \<open>The attempts of either loop, without what it does with the errors.\<close>

definition knows_same :: "'x learnt \<Rightarrow> 'x learnt \<Rightarrow> bool" where
  "knows_same l l' \<longleftrightarrow> le_v2 l' = le_v2 l \<and> le_tls l' = le_tls l"

inductive tries :: "bool \<Rightarrow> 'x learnt \<Rightarrow> endpoint list \<Rightarrow> 'x trail \<Rightarrow> bool" for req where
  at_end: "tries req l [] []"
| past: "ep_skipped req ep l \<or> ep_version ep = OtherVersion \<Longrightarrow> knows_same l l' \<Longrightarrow> tries req l' eps tr \<Longrightarrow> tries req l (ep # eps) tr"
| over: "\<not> ep_skipped req ep l \<Longrightarrow> told (ep, c, e) = None \<Longrightarrow> tries req l (ep # eps) [(ep, c, e)]"
| onward: "\<not> ep_skipped req ep l \<Longrightarrow> told (ep, c, e) = Some (v2, tls) \<Longrightarrow> knows_same (learn ep v2 tls l) l' \<Longrightarrow>
    tries req l' eps tr \<Longrightarrow> tries req l (ep # eps) ((ep, c, e) # tr)"

lemma skipped_same: "knows_same l l' \<Longrightarrow> ep_skipped req ep l' = ep_skipped req ep l"
  by (simp add: knows_same_def ep_skipped_def)

lemma skipped_learn: "ep_skipped req y l \<Longrightarrow> ep_skipped req y (learn ep v2 tls l)"
  by (auto simp: ep_skipped_def learn_def)

lemma skipped_follow: "told (ep, c, e) = Some (v2, tls) \<Longrightarrow> \<not> ep_skipped req (fst y) (learn ep v2 tls l) \<Longrightarrow> may_follow (ep, c, e) y"
  by (auto simp: may_follow_def ep_skipped_def learn_def)

lemma tries_ok: "tries req l eps tr \<Longrightarrow> sorted_wrt may_follow tr \<and> subseq (map fst tr) eps \<and> (\<forall>y \<in> set tr. \<not> ep_skipped req (fst y) l)"
proof (induction rule: tries.induct)
  case (past ep l l' eps tr)
  then show ?case using skipped_same [of l l'] by auto
next
  case (onward ep l c e v2 tls l' eps tr)
  have rest: "\<not> ep_skipped req (fst y) (learn ep v2 tls l)" if "y \<in> set tr" for y
    using onward.IH that skipped_same [OF onward.hyps(3)] by auto
  have "may_follow (ep, c, e) y" if "y \<in> set tr" for y by (rule skipped_follow [OF onward.hyps(2) rest [OF that]])
  moreover have "\<not> ep_skipped req (fst y) l" if "y \<in> set tr" for y using rest [OF that] skipped_learn by blast
  ultimately show ?case using onward.IH onward.hyps(1) by auto
qed auto

text \<open>What the two loops share.\<close>

locale endpoint_loop =
  fixes loop :: "('x, 's \<times> 'x trail) attempt_at \<Rightarrow> bool \<Rightarrow> endpoint list \<Rightarrow> 'x learnt \<Rightarrow> 's \<times> 'x trail \<Rightarrow> ('s \<times> 'x trail) \<times> 'x go_error option"
  assumes no_endpoint: "snd (fst (loop p req [] l st)) = snd st"
    and pass: "ep_skipped req ep l \<or> ep_version ep = OtherVersion \<Longrightarrow>
      \<exists>l'. knows_same l l' \<and> loop p req (ep # eps) l st = loop p req eps l' st"
    and stop: "\<not> ep_skipped req ep l \<Longrightarrow> ep_version ep \<noteq> OtherVersion \<Longrightarrow> p ep st = (st1, c, e) \<Longrightarrow> told (ep, c, e) = None \<Longrightarrow>
      snd (fst (loop p req (ep # eps) l st)) = snd st1"
    and continue: "\<not> ep_skipped req ep l \<Longrightarrow> ep_version ep \<noteq> OtherVersion \<Longrightarrow> p ep st = (st1, c, e) \<Longrightarrow> told (ep, c, e) = Some (v2, tls) \<Longrightarrow>
      \<exists>l'. knows_same (learn ep v2 tls l) l' \<and> loop p req (ep # eps) l st = loop p req eps l' st1"
begin

lemma loop_tries: "\<exists>t. snd (fst (loop (logged p) req eps l st)) = snd st @ t \<and> tries req l eps t"
proof (induction eps arbitrary: l st)
  case Nil
  then show ?case using tries.at_end [of req l] by (auto simp: no_endpoint)
next
  case (Cons ep eps)
  obtain s1 c e where "p ep (fst st) = (s1, c, e)" by (metis prod_cases3)
  then have p: "logged p ep st = ((s1, snd st @ [(ep, c, e)]), c, e)" by (simp add: logged_def)
  consider (skip) "ep_skipped req ep l \<or> ep_version ep = OtherVersion" | (go) "\<not> ep_skipped req ep l" "ep_version ep \<noteq> OtherVersion" by blast
  then show ?case
  proof cases
    case skip
    obtain l' where l': "knows_same l l'" "loop (logged p) req (ep # eps) l st = loop (logged p) req eps l' st" using pass [OF skip] by blast
    then show ?thesis using Cons.IH [of l' st] tries.past [OF skip l'(1)] by auto
  next
    case go
    show ?thesis
    proof (cases "told (ep, c, e)")
      case None
      then show ?thesis using stop [where p = "logged p", OF go p None] tries.over [OF go(1) None] by auto
    next
      case (Some t)
      obtain v2 tls where t: "told (ep, c, e) = Some (v2, tls)" using Some by (cases t) simp
      obtain l' where l': "knows_same (learn ep v2 tls l) l'"
          "loop (logged p) req (ep # eps) l st = loop (logged p) req eps l' (s1, snd st @ [(ep, c, e)])"
        using continue [where p = "logged p", OF go p t] by blast
      then show ?thesis using Cons.IH [of l' "(s1, snd st @ [(ep, c, e)])"] tries.onward [OF go(1) t l'(1)] by auto
    qed
  qed
qed

lemma loop_order: "loop (logged p) req eps l (s, []) = ((s', tr), r) \<Longrightarrow> sorted_wrt may_follow tr"
  using loop_tries [of p req eps l "(s, [])"] tries_ok by fastforce

end

interpretation pulling: endpoint_loop "\<lambda>p req. pull_loop p (logged_event f) req ref" for f ref
proof
  show "snd (fst (pull_loop p (logged_event f) req ref [] l st)) = snd st" for p req l st by simp
  show "\<exists>l'. knows_same l l' \<and> pull_loop p (logged_event f) req ref (ep # eps) l st = pull_loop p (logged_event f) req ref eps l' st"
    if "ep_skipped req ep l \<or> ep_version ep = OtherVersion" for req ep l p eps st
    by (rule exI [of _ "if ep_skipped req ep l then l else l\<lparr>le_last := Some (UnknownVersion ep)\<rparr>"])
      (use that in \<open>auto simp: loop_skip knows_same_def\<close>)
  show "\<exists>l'. knows_same (learn ep v2 tls l) l' \<and> pull_loop p (logged_event f) req ref (ep # eps) l st = pull_loop p (logged_event f) req ref eps l' st1"
    if "\<not> ep_skipped req ep l" "ep_version ep \<noteq> OtherVersion" "p ep st = (st1, c, e)" "told (ep, c, e) = Some (v2, tls)"
    for req ep l p eps st st1 c e v2 tls
    by (rule exI [of _ "pull_keep (case e of Some (Fallback x _ _) \<Rightarrow> x) (learn ep v2 tls l)"]) (use that in \<open>simp add: pull_step knows_same_def pull_keep_def\<close>)
qed (auto simp: pull_step logged_event_def split: option.splits)

interpretation pushing: endpoint_loop "\<lambda>p req. push_loop p (logged_event f) req ref" for f ref
proof
  show "snd (fst (push_loop p (logged_event f) req ref [] l st)) = snd st" for p req l st by simp
  show "\<exists>l'. knows_same l l' \<and> push_loop p (logged_event f) req ref (ep # eps) l st = push_loop p (logged_event f) req ref eps l' st"
    if "ep_skipped req ep l \<or> ep_version ep = OtherVersion" for req ep l p eps st
    by (rule exI [of _ "if ep_skipped req ep l then l else l\<lparr>le_last := Some (UnknownVersion ep)\<rparr>"])
      (use that in \<open>auto simp: loop_skip knows_same_def\<close>)
  show "\<exists>l'. knows_same (learn ep v2 tls l) l' \<and> push_loop p (logged_event f) req ref (ep # eps) l st = push_loop p (logged_event f) req ref eps l' st1"
    if "\<not> ep_skipped req ep l" "ep_version ep \<noteq> OtherVersion" "p ep st = (st1, c, e)" "told (ep, c, e) = Some (v2, tls)"
    for req ep l p eps st st1 c e v2 tls
    by (rule exI [of _ "(learn ep v2 tls l)\<lparr>le_last := Some (case e of Some (Fallback x _ _) \<Rightarrow> x)\<rparr>"]) (use that in \<open>simp add: push_step knows_same_def\<close>)
qed (auto simp: push_step logged_event_def split: option.splits)

text \<open>The record changes nothing else.\<close>

lemma pull_loop_logged:
  "pull_loop (logged p) (logged_event f) req ref eps l st = ((s', tr), r) \<Longrightarrow> pull_loop p f req ref eps l (fst st) = (s', r)"
proof (induction eps arbitrary: l st)
  case (Cons ep eps)
  obtain s1 c e where p: "p ep (fst st) = (s1, c, e)" by (metis prod_cases3)
  then have lp: "logged p ep st = ((s1, snd st @ [(ep, c, e)]), c, e)" by (simp add: logged_def)
  consider (skip) "ep_skipped req ep l" | (other) "\<not> ep_skipped req ep l" "ep_version ep = OtherVersion"
    | (attempt) "\<not> ep_skipped req ep l" "ep_version ep \<noteq> OtherVersion" by blast
  then show ?case
  proof cases
    case attempt
    note run = Cons.prems [unfolded pull_step [where p = "logged p", OF attempt lp]]
    show ?thesis
    proof (cases "told (ep, c, e)")
      case None
      then show ?thesis
        using run unfolding pull_step [where p = p, OF attempt p] by (auto simp: logged_event_def split: option.splits)
    next
      case (Some t)
      then show ?thesis
        using run Cons.IH [of _ "(s1, snd st @ [(ep, c, e)])"] unfolding pull_step [where p = p, OF attempt p]
        by (auto split: prod.splits)
    qed
  qed (use Cons in \<open>auto simp: loop_skip\<close>)
qed auto

section \<open>The error of a pull\<close>

text \<open>Of the errors of the endpoints: the last that is not a lack of support, else the last.\<close>

definition fallback_error :: "endpoint \<times> bool \<times> 'x go_error option \<Rightarrow> 'x go_error" where
  "fallback_error x = (case x of (_, _, Some (Fallback e _ _)) \<Rightarrow> e)"

definition reported :: "named \<Rightarrow> 'x go_error list \<Rightarrow> 'x go_error" where
  "reported ref es =
     (let real = filter (\<lambda>e. \<not> lacks_support e) es
      in if es = [] then Errorf (''no endpoints found for '' @ FamiliarString ref) else if real = [] then last es else last real)"

definition keeps :: "named \<Rightarrow> 'x learnt \<Rightarrow> 'x go_error list \<Rightarrow> bool" where
  "keeps ref l es \<longleftrightarrow>
     le_discard l = (\<exists>e \<in> set es. \<not> lacks_support e) \<and>
     (case le_last l of None \<Rightarrow> es = [] | Some e \<Rightarrow> es \<noteq> [] \<and> e = reported ref es)"

lemma keeps_keep:
  assumes "keeps ref l es"
  shows "keeps ref (pull_keep e l) (es @ [e])"
proof -
  have none: "(\<forall>x \<in> set es. lacks_support x) \<Longrightarrow> filter (\<lambda>e. \<not> lacks_support e) es = []" by (simp add: filter_empty_conv)
  have some: "(\<exists>x \<in> set es. \<not> lacks_support x) \<Longrightarrow> filter (\<lambda>e. \<not> lacks_support e) es \<noteq> []" by (auto simp: filter_empty_conv)
  show ?thesis
    using assms none some
    by (cases "lacks_support e") (auto simp: keeps_def pull_keep_def reported_def Let_def split: option.splits if_splits)
qed

definition known_versions :: "endpoint list \<Rightarrow> bool" where
  "known_versions eps \<longleftrightarrow> (\<forall>ep \<in> set eps. ep_version ep \<noteq> OtherVersion)"

text \<open>The result of a pull from what the endpoints answered.\<close>

definition pull_result :: "named \<Rightarrow> 'x trail \<Rightarrow> 'x go_error option" where
  "pull_result ref tr =
     (if tr \<noteq> [] \<and> told (last tr) = None
      then map_option (TranslatePullError ref) (snd (snd (last tr)))
      else Some (TranslatePullError ref (reported ref (map fallback_error tr))))"

lemma pull_loop_result:
  "pull_loop (logged p) (logged_event f) req ref eps l (s, tr0) = ((s', tr), r) \<Longrightarrow> known_versions eps \<Longrightarrow>
     keeps ref l (map fallback_error tr0) \<Longrightarrow> \<forall>x \<in> set tr0. told x \<noteq> None \<Longrightarrow> r = pull_result ref tr"
proof (induction eps arbitrary: l s tr0)
  case Nil
  then have "tr = tr0" by simp
  moreover have "tr0 = [] \<or> told (last tr0) \<noteq> None" using Nil(4) last_in_set [of tr0] by blast
  ultimately have "tr = tr0" "tr = [] \<or> told (last tr) \<noteq> None" by simp_all
  then have "pull_result ref tr = Some (TranslatePullError ref (reported ref (map fallback_error tr0)))"
    by (auto simp: pull_result_def)
  moreover have "(case le_last l of None \<Rightarrow> Errorf (''no endpoints found for '' @ FamiliarString ref) | Some e \<Rightarrow> e) = reported ref (map fallback_error tr0)"
    using Nil(3) by (auto simp: keeps_def reported_def split: option.splits)
  ultimately show ?case using Nil(1) by auto
next
  case (Cons ep eps)
  obtain s1 c e where p: "p ep s = (s1, c, e)" by (metis prod_cases3)
  then have lp: "logged p ep (s, tr0) = ((s1, tr0 @ [(ep, c, e)]), c, e)" by (simp add: logged_def)
  have known: "ep_version ep \<noteq> OtherVersion" "known_versions eps" using Cons.prems(2) by (simp_all add: known_versions_def)
  show ?case
  proof (cases "ep_skipped req ep l")
    case True
    then have "pull_loop (logged p) (logged_event f) req ref eps l (s, tr0) = ((s', tr), r)" using Cons.prems(1) by (simp add: loop_skip)
    then show ?thesis by (rule Cons.IH [OF _ known(2) Cons.prems(3,4)])
  next
    case False
    note run = Cons.prems(1) [unfolded pull_step [where p = "logged p", OF False known(1) lp]]
    show ?thesis
    proof (cases "told (ep, c, e)")
      case None
      then have "tr = tr0 @ [(ep, c, e)]" "r = map_option (TranslatePullError ref) e"
        using run by (auto simp: logged_event_def split: option.splits)
      then show ?thesis using None by (simp add: pull_result_def)
    next
      case (Some t)
      obtain x v2 tls where x: "e = Some (Fallback x v2 tls)" "\<not> c" "t = (v2, tls)"
        using Some by (cases "(ep, c, e)" rule: told.cases) auto
      have run': "pull_loop (logged p) (logged_event f) req ref eps (pull_keep x (learn ep v2 tls l)) (s1, tr0 @ [(ep, c, e)]) = ((s', tr), r)"
        using run Some x by simp
      have "keeps ref (learn ep v2 tls l) (map fallback_error tr0)" using Cons.prems(3) by (simp add: keeps_def learn_def)
      then have "keeps ref (pull_keep x (learn ep v2 tls l)) (map fallback_error (tr0 @ [(ep, c, e)]))"
        using keeps_keep [of ref _ "map fallback_error tr0" x] x by (simp add: fallback_error_def)
      then show ?thesis using Cons.IH [OF run' known(2)] Cons.prems(4) Some by auto
    qed
  qed
qed

section \<open>Properties\<close>

text \<open>
  C34. No step back in safety. A pull or a push goes on to another endpoint only after an error that allows it, and when the request is
  not cancelled. After an endpoint that confirmed a v2 registry none of version 1 is tried, and after one that
  spoke TLS none of the same host without.
\<close>

theorem endpoints_no_downgrade:
  assumes "Pull resolve endpoints (logged p) (logged_event f) req ref (s, []) = ((s1, tr), r) \<or>
    Push resolve endpoints tagged (logged p) (logged_event f) req ref (s, []) = ((s1, tr), r)"
  shows "sorted_wrt may_follow tr"
proof -
  consider "tr = []"
    | eps where "pull_loop (logged p) (logged_event f) req ref eps learnt0 (s, []) = ((s1, tr), r) \<or>
        push_loop (logged p) (logged_event f) req ref eps learnt0 (s, []) = ((s1, tr), r)"
    using assms by (auto simp: Pull_def Push_def split: option.splits sum.splits if_splits)
  then show ?thesis
  proof cases
    case 2
    then show ?thesis by (elim disjE) (rule pulling.loop_order, assumption, rule pushing.loop_order, assumption)
  qed simp
qed

text \<open>
  C35. The error a pull reports. When it gets to the endpoints and all have a version that is known, its result is that of the endpoint
  that ended it, and otherwise the last error that is not a lack of support, or the last one when all of them are; it is
  translated for the user.
\<close>

theorem pull_error_reported:
  assumes "known_versions eps" "FamiliarName ref \<noteq> ''scratch''"
    and "Pull None (Inr eps) (logged p) (logged_event f) req ref (s, []) = ((s1, tr), r)"
  shows "r = pull_result ref tr"
proof -
  have "pull_loop (logged p) (logged_event f) req ref eps learnt0 (s, []) = ((s1, tr), r)"
    using assms(2,3) by (simp add: Pull_def ValidateRepoName_def)
  then show ?thesis by (rule pull_loop_result [OF _ assms(1)]) (simp_all add: keeps_def learnt0_def)
qed

section \<open>A concrete registry\<close>

definition ex_endpoint :: "version \<Rightarrow> string \<Rightarrow> endpoint" where
  "ex_endpoint v scheme = \<lparr>ep_version = v, ep_scheme = scheme, ep_host = ''r'', ep_path = '' ''\<rparr>"

definition ex_endpoints :: "endpoint list" where
  "ex_endpoints = [ex_endpoint APIVersion2 ''https'', ex_endpoint APIVersion2 ''http'', ex_endpoint APIVersion1 ''https'']"

text \<open>The v2 endpoint does not know the manifest; it is not confirmed, so version 1 is tried, which lacks support.\<close>

definition ex_puller :: "(unit, unit) attempt_at" where
  "ex_puller ep s = (s, False, Some (if ep_version ep = APIVersion1 then Fallback (NoSupport None) False False
     else Fallback (CodeError ManifestUnknown) False True))"

definition ex_trail :: "unit trail" where
  "ex_trail = [(ex_endpoint APIVersion2 ''https'', False, Some (Fallback (CodeError ManifestUnknown) False True)),
     (ex_endpoint APIVersion1 ''https'', False, Some (Fallback (NoSupport None) False False))]"

lemma ex_pull_run:
  "Pull None (Inr ex_endpoints) (logged ex_puller) (logged_event (\<lambda>_ s. s)) False (TaggedRef ex_repo ''t'') ((), []) =
     (((), ex_trail), Some (Errorf (''manifest for '' @ FamiliarString (TaggedRef ex_repo ''t'') @ '' not found'')))"
  by code_simp

theorem endpoints_no_downgrade_witness:
  "sorted_wrt may_follow ex_trail \<and> length ex_trail = 2"
  using endpoints_no_downgrade [OF disjI1 [OF ex_pull_run]] by (simp add: ex_trail_def)

theorem pull_error_reported_witness:
  "pull_result (TaggedRef ex_repo ''t'') ex_trail = Some (Errorf (''manifest for '' @ FamiliarString (TaggedRef ex_repo ''t'') @ '' not found''))"
proof -
  have "known_versions ex_endpoints" "FamiliarName (TaggedRef ex_repo ''t'') \<noteq> ''scratch''" by code_simp+
  then show ?thesis using pull_error_reported [OF _ _ ex_pull_run] by simp
qed

end
