(* ===== verification/BlobDownload.thy ===== *)
theory BlobDownload
  imports Endpoints DigestSet
begin

text \<open>
  The download of one layer from a registry (distribution/pull_v2.go, v2LayerDescriptor): the temporary file that is
  resumed by the next attempt, and the checksum over what was received.

  What the registry answers and which system calls fail is given for each attempt. \<open>G a b\<close> is the
  digest of the bytes \<open>b\<close> by the algorithm \<open>a\<close>.
\<close>

section \<open>The descriptor\<close>

text \<open>\<open>ld_tmp\<close> is the content of the temporary file, \<open>ld_hashed\<close> what the verifier has been given.\<close>

record layer_desc =
  ld_digest :: string
  ld_tmp :: "string option"
  ld_hashed :: "string option"

datatype dl_error = CreateFailed | SeekFailed | TruncateFailed | WrongRange | BlobVerification string

text \<open>An error \<open>NoRetry e\<close> is final, any other lets the download manager try again.\<close>

datatype dl_result = Blob string nat | Failed "dl_error go_error"

definition Again :: "dl_error \<Rightarrow> dl_result" where
  "Again e = Failed (Other e)"

definition DoNotRetry :: "dl_error \<Rightarrow> dl_result" where
  "DoNotRetry e = Failed (NoRetry (Other e))"

text \<open>How the copy ends: at the end of the stream, or with an error; a write that fails has stored only some of the bytes.\<close>

datatype copy_end = CopyDone | CopyWrongRange | CopyReadError "dl_error go_error" | CopyWriteError nat "dl_error go_error"

record attempt =
  at_create :: bool
  at_seek_end :: bool
  at_open :: "dl_error go_error option"
  at_seek_off :: bool
  at_size :: "nat option"
  at_seek_back :: bool
  at_trunc_seek :: bool
  at_truncate :: bool
  at_data :: string
  at_copy :: copy_end
  at_rewind :: bool

definition ld_Key :: "layer_desc \<Rightarrow> string" where
  "ld_Key ld = ''v2:'' @ ld_digest ld"

definition createDownloadFile :: "attempt \<Rightarrow> layer_desc \<Rightarrow> layer_desc \<times> bool" where
  "createDownloadFile at ld = (if at_create at then (ld\<lparr>ld_tmp := Some ''''\<rparr>, True) else (ld\<lparr>ld_tmp := None\<rparr>, False))"

definition truncateDownloadFile :: "attempt \<Rightarrow> layer_desc \<Rightarrow> layer_desc \<times> bool" where
  "truncateDownloadFile at ld =
     (let ld1 = ld\<lparr>ld_hashed := None\<rparr>
      in if \<not> at_trunc_seek at then (ld1, False)
         else if \<not> at_truncate at then (ld1, False)
         else (ld1\<lparr>ld_tmp := Some ''''\<rparr>, True))"

text \<open>The file to write to and the offset to go on from.\<close>

definition open_file :: "attempt \<Rightarrow> layer_desc \<Rightarrow> layer_desc \<times> nat option" where
  "open_file at ld =
     (case ld_tmp ld of
        None \<Rightarrow> (case createDownloadFile at ld of (ld1, ok) \<Rightarrow> (ld1, if ok then Some 0 else None))
      | Some c \<Rightarrow>
          if \<not> at_seek_end at
          then (case createDownloadFile at ld of (ld1, ok) \<Rightarrow> (ld1, if ok then Some 0 else None))
          else (ld, Some (length c)))"

text \<open>Everything received is given to the verifier before it is written.\<close>

definition copy_data :: "attempt \<Rightarrow> layer_desc \<Rightarrow> layer_desc" where
  "copy_data at ld =
     (let written = (case at_copy at of CopyWriteError k _ \<Rightarrow> take k (at_data at) | _ \<Rightarrow> at_data at)
      in ld\<lparr>ld_tmp := Some ((case ld_tmp ld of None \<Rightarrow> '''' | Some c \<Rightarrow> c) @ written),
            ld_hashed := Some ((case ld_hashed ld of None \<Rightarrow> '''' | Some h \<Rightarrow> h) @ at_data at)\<rparr>)"

definition ld_finish :: "(string \<Rightarrow> string \<Rightarrow> string) \<Rightarrow> attempt \<Rightarrow> nat \<Rightarrow> nat \<Rightarrow> layer_desc \<Rightarrow> layer_desc \<times> dl_result" where
  "ld_finish G at offset sz ld =
     (if G (dg_alg (ld_digest ld)) (the (ld_hashed ld)) \<noteq> ld_digest ld
      then if offset \<noteq> 0
           then (case truncateDownloadFile at ld of
                   (ld1, False) \<Rightarrow> (ld1, DoNotRetry TruncateFailed)
                 | (ld1, True) \<Rightarrow> (ld1, Again (BlobVerification (ld_digest ld))))
           else (ld, DoNotRetry (BlobVerification (ld_digest ld)))
      else if \<not> at_rewind at then (ld\<lparr>ld_tmp := None, ld_hashed := None\<rparr>, DoNotRetry SeekFailed)
      else (ld\<lparr>ld_tmp := None\<rparr>, Blob (the (ld_tmp ld)) sz))"

definition ld_receive :: "(dl_error go_error \<Rightarrow> string) \<Rightarrow> (string \<Rightarrow> string \<Rightarrow> string) \<Rightarrow> attempt \<Rightarrow> nat \<Rightarrow> nat \<Rightarrow> layer_desc \<Rightarrow> layer_desc \<times> dl_result" where
  "ld_receive etext G at offset sz ld =
     (let ld1 = copy_data at ld
      in (case at_copy at of
            CopyDone \<Rightarrow> ld_finish G at offset sz ld1
          | CopyWrongRange \<Rightarrow>
              (case truncateDownloadFile at ld1 of
                 (ld2, False) \<Rightarrow> (ld2, DoNotRetry TruncateFailed)
               | (ld2, True) \<Rightarrow> (ld2, Again WrongRange))
          | CopyReadError e \<Rightarrow> (ld1, Failed (retryOnError etext e))
          | CopyWriteError _ e \<Rightarrow> (ld1, Failed (retryOnError etext e))))"

definition ld_Download :: "(dl_error go_error \<Rightarrow> string) \<Rightarrow> (string \<Rightarrow> string \<Rightarrow> string) \<Rightarrow> attempt \<Rightarrow> layer_desc \<Rightarrow> layer_desc \<times> dl_result" where
  "ld_Download etext G at ld =
     (case open_file at ld of
        (ld1, None) \<Rightarrow> (ld1, DoNotRetry CreateFailed)
      | (ld1, Some offset) \<Rightarrow>
         (case at_open at of
            Some e \<Rightarrow> (ld1, Failed (retryOnError etext e))
          | None \<Rightarrow>
          if offset \<noteq> 0 \<and> \<not> at_seek_off at
          then (case truncateDownloadFile at ld1 of
                  (ld2, False) \<Rightarrow> (ld2, DoNotRetry TruncateFailed)
                | (ld2, True) \<Rightarrow> (ld2, Again SeekFailed))
          else
            (case at_size at of
               None \<Rightarrow> ld_receive etext G at offset 0 ld1
             | Some sz \<Rightarrow>
                 if sz \<noteq> 0 \<and> offset > sz
                 then (case truncateDownloadFile at ld1 of
                         (ld2, False) \<Rightarrow> (ld2, DoNotRetry TruncateFailed)
                       | (ld2, True) \<Rightarrow> if \<not> at_seek_back at then (ld2, Again SeekFailed) else ld_receive etext G at 0 sz ld2)
                 else if \<not> at_seek_back at then (ld1, Again SeekFailed)
                 else ld_receive etext G at offset sz ld1)))"

fun final :: "'x go_error \<Rightarrow> bool" where
  "final (NoRetry e) = True"
| "final _ = False"

text \<open>The attempts of the download manager: the next one follows an error that may be retried.\<close>

fun ld_attempts :: "(dl_error go_error \<Rightarrow> string) \<Rightarrow> (string \<Rightarrow> string \<Rightarrow> string) \<Rightarrow> attempt list \<Rightarrow> layer_desc \<Rightarrow> layer_desc \<times> dl_result option" where
  "ld_attempts etext G [] ld = (ld, None)"
| "ld_attempts etext G (at # ats) ld =
     (case ld_Download etext G at ld of
        (ld1, Blob b n) \<Rightarrow> (ld1, Some (Blob b n))
      | (ld1, Failed e) \<Rightarrow>
          (if final e \<or> ats = [] then (ld1, Some (Failed e)) else ld_attempts etext G ats ld1))"

definition new_desc :: "string \<Rightarrow> layer_desc" where
  "new_desc d = \<lparr>ld_digest = d, ld_tmp = None, ld_hashed = None\<rparr>"

section \<open>What is accepted\<close>

text \<open>The verifier has been given exactly what the file holds.\<close>

definition in_step :: "layer_desc \<Rightarrow> bool" where
  "in_step ld \<longleftrightarrow> (case ld_tmp ld of None \<Rightarrow> ld_hashed ld = None | Some c \<Rightarrow> ld_hashed ld = Some c \<or> ld_hashed ld = None \<and> c = '''')"

text \<open>An attempt in which no call on the temporary file fails.\<close>

definition file_ok :: "attempt \<Rightarrow> bool" where
  "file_ok at \<longleftrightarrow> at_seek_end at \<and> at_trunc_seek at \<and> at_truncate at \<and> (\<forall>k e. at_copy at \<noteq> CopyWriteError k e)"

lemma truncate_ok: "file_ok at \<Longrightarrow> truncateDownloadFile at ld = (ld\<lparr>ld_hashed := None, ld_tmp := Some ''''\<rparr>, True)"
  by (simp add: truncateDownloadFile_def file_ok_def Let_def)

lemma copy_step:
  assumes "file_ok at" "in_step ld" "ld_tmp ld \<noteq> None"
  shows "\<exists>c. ld_tmp (copy_data at ld) = Some c \<and> ld_hashed (copy_data at ld) = Some c \<and> ld_digest (copy_data at ld) = ld_digest ld"
  using assms by (auto simp: copy_data_def in_step_def file_ok_def split: copy_end.splits option.splits)

lemma receive_step:
  assumes ok: "file_ok at" and step: "in_step ld" "ld_tmp ld \<noteq> None" and run: "ld_receive etext G at offset sz ld = (ld', r)"
  shows "ld_digest ld' = ld_digest ld \<and> (\<forall>e. r = Failed e \<and> \<not> final e \<longrightarrow> in_step ld') \<and>
    (\<forall>b n. r = Blob b n \<longrightarrow> G (dg_alg (ld_digest ld)) b = ld_digest ld)"
proof -
  obtain c where c: "ld_tmp (copy_data at ld) = Some c" "ld_hashed (copy_data at ld) = Some c"
      "ld_digest (copy_data at ld) = ld_digest ld"
    using copy_step [OF ok step] by auto
  show ?thesis
    using run ok c
    by (auto simp: ld_receive_def ld_finish_def truncate_ok [OF ok] Again_def DoNotRetry_def in_step_def file_ok_def Let_def
        split: copy_end.splits if_splits)
qed

lemma Download_step:
  assumes ok: "file_ok at" and step: "in_step ld" and run: "ld_Download etext G at ld = (ld', r)"
  shows "ld_digest ld' = ld_digest ld \<and> (\<forall>e. r = Failed e \<and> \<not> final e \<longrightarrow> in_step ld') \<and>
    (\<forall>b n. r = Blob b n \<longrightarrow> G (dg_alg (ld_digest ld)) b = ld_digest ld)"
proof -
  obtain ld1 off where o: "open_file at ld = (ld1, off)" by fastforce
  have ld1: "in_step ld1" "ld_digest ld1 = ld_digest ld" "off \<noteq> None \<Longrightarrow> ld_tmp ld1 \<noteq> None"
    using o step ok by (auto simp: open_file_def createDownloadFile_def in_step_def file_ok_def split: option.splits if_splits)
  have trunc: "in_step (ld1\<lparr>ld_hashed := None, ld_tmp := Some ''''\<rparr>)" by (simp add: in_step_def)
  note rec = receive_step [OF ok ld1(1), of etext G] receive_step [OF ok trunc, of etext G]
  show ?thesis
  proof (cases off)
    case None
    then show ?thesis using run o ld1 by (auto simp: ld_Download_def DoNotRetry_def)
  next
    case (Some offset)
    then show ?thesis
      using run o ld1 rec trunc
      by (auto simp: ld_Download_def truncate_ok [OF ok] Again_def DoNotRetry_def split: if_splits option.splits)
  qed
qed

lemma attempts_verified:
  "in_step ld \<Longrightarrow> \<forall>at \<in> set ats. file_ok at \<Longrightarrow> ld_attempts etext G ats ld = (ld', Some (Blob b n)) \<Longrightarrow>
     G (dg_alg (ld_digest ld)) b = ld_digest ld"
proof (induction ats arbitrary: ld)
  case (Cons at ats)
  obtain ld1 r where r: "ld_Download etext G at ld = (ld1, r)" by fastforce
  have ok: "file_ok at" using Cons.prems(2) by simp
  note step = Download_step [OF ok Cons.prems(1) r]
  show ?case
  proof (cases r)
    case (Failed e)
    then have "\<not> final e" "ld_attempts etext G ats ld1 = (ld', Some (Blob b n))" using Cons.prems(3) r by (auto split: if_splits)
    then show ?thesis using Cons.IH [of ld1] step Failed Cons.prems(2) by auto
  next
    case (Blob x y)
    then show ?thesis using Cons.prems(3) r step by simp
  qed
qed simp


section \<open>Properties\<close>

text \<open>
  C36. What a download hands over. However often the download of a layer is broken off and resumed, a blob that is handed over
  has the digest that was asked for, whatever the registry sent, as long as no call on the temporary file fails.
\<close>

theorem blob_verified:
  assumes "\<forall>at \<in> set ats. file_ok at" "ld_attempts etext G ats (new_desc d) = (ld, Some (Blob b n))"
  shows "G (dg_alg d) b = d"
  using attempts_verified [OF _ assms] by (simp add: new_desc_def in_step_def)

definition ex_attempt :: "string \<Rightarrow> copy_end \<Rightarrow> attempt" where
  "ex_attempt bytes e = \<lparr>at_create = True, at_seek_end = True, at_open = None, at_seek_off = True, at_size = Some 3, at_seek_back = True,
     at_trunc_seek = True, at_truncate = True, at_data = bytes, at_copy = e, at_rewind = True\<rparr>"

definition ex_digest :: "string \<Rightarrow> string \<Rightarrow> string" where
  "ex_digest a b = a @ '':'' @ b"

text \<open>The first attempt breaks off, the second is answered with wrong bytes, the third starts over.\<close>

theorem blob_verified_witness:
  "\<exists>ld. ld_attempts (\<lambda>_. '''') ex_digest [ex_attempt ''ab'' (CopyReadError (Errorf ''eof'')), ex_attempt ''x'' CopyDone, ex_attempt ''abc'' CopyDone] (new_desc ''s:abc'')
     = (ld, Some (Blob ''abc'' 3)) \<and> ex_digest ''s'' ''abc'' = ''s:abc''"
proof -
  let ?ats = "[ex_attempt ''ab'' (CopyReadError (Errorf ''eof'')), ex_attempt ''x'' CopyDone, ex_attempt ''abc'' CopyDone]"
  have run: "snd (ld_attempts (\<lambda>_. '''') ex_digest ?ats (new_desc ''s:abc'')) = Some (Blob ''abc'' 3)" by code_simp
  then obtain ld where ld: "ld_attempts (\<lambda>_. '''') ex_digest ?ats (new_desc ''s:abc'') = (ld, Some (Blob ''abc'' 3))" by (metis prod.collapse)
  have ok: "\<forall>at \<in> set ?ats. file_ok at" by (simp add: file_ok_def ex_attempt_def)
  have "dg_alg ''s:abc'' = ''s''" by code_simp
  then show ?thesis using blob_verified [OF ok ld] ld by simp
qed

text \<open>
  The checksum is over what was received and not over the file: after a write that stored a part of a chunk, a registry can
  complete the checksum with bytes that leave another file.
\<close>

lemma blob_unverified_write:
  "snd (ld_attempts (\<lambda>_. '''') ex_digest [ex_attempt ''ab'' (CopyWriteError 1 (Errorf ''io'')), ex_attempt ''c'' CopyDone] (new_desc ''s:abc'')) = Some (Blob ''ac'' 3)"
  by code_simp

text \<open>A temporary file that is made anew because the old one cannot be read to its end keeps the checksum of the old one.\<close>

lemma blob_unverified_new_file:
  "snd (ld_attempts (\<lambda>_. '''') ex_digest [ex_attempt ''ab'' (CopyReadError (Errorf ''eof'')), (ex_attempt ''c'' CopyDone)\<lparr>at_seek_end := False\<rparr>] (new_desc ''s:abc'')) = Some (Blob ''c'' 3)"
  by code_simp

end
