(* ===== verification/PullV2.thy ===== *)
theory PullV2
  imports Endpoints DigestSet ImageStore
begin

text \<open>
  Pulling an image by the second version of the registry protocol (distribution/pull_v2.go, with the image configurations of
  config.go and the digest references of pull.go).

  A registry answers requests for tags, manifests and blobs; what it answers is not trusted. \<open>pe_G a b\<close> is the digest of
  the bytes \<open>b\<close> by the algorithm \<open>a\<close>. Decoding of JSON and the download manager are parameters: the download manager changes the layer
  store, and returns the identifiers of the layers it got with a handle to release them.
\<close>

section \<open>Manifests\<close>

text \<open>\<open>s1_canonical\<close> is the signed part of a manifest of the first schema; its layers run from the top to the bottom.\<close>

record schema1 =
  s1_canonical :: string
  s1_version :: int
  s1_layers :: "string list"
  s1_history :: "string list"

record schema2 =
  s2_payload :: "string option"
  s2_config_type :: string
  s2_config :: string
  s2_layers :: "string list"

record manifest_entry =
  me_arch :: string
  me_os :: string
  me_digest :: string

record manifest_list =
  ml_payload :: "string option"
  ml_manifests :: "manifest_entry list"

datatype manifest = Schema1 schema1 | Schema2 schema2 | ManifestList manifest_list | OtherManifest

datatype 'e pull_reason =
    NeitherTagNorDigest
  | ManifestMissing string
  | UnsupportedConfig string
  | NotSchema2
  | UnsupportedFormat
  | PayloadFailed
  | ManifestVerification string
  | ConfigVerification string
  | ImageVerification string
  | SchemaVersion int
  | HistoryLength
  | NoFSLayers
  | BadV1Config
  | InvalidID string
  | InvalidBaseParent
  | RepeatedID string
  | InvalidParentID string string
  | NoPlatform
  | RootFSInvalid
  | RootFSMismatch
  | ConfigUndecodable
  | WrongOS string
  | BadReference
  | NilDownloadManager
  | ImageFailed "'e image_error"
  | RefFailed ref_error

type_synonym 'e pull_error = "'e pull_reason go_error"

record 'e registry =
  rg_service :: "'e pull_error option"
  rg_by_tag :: "string \<Rightarrow> 'e pull_error + manifest option"
  rg_by_digest :: "string \<Rightarrow> 'e pull_error + manifest option"
  rg_tags :: "'e pull_error + string list"
  rg_blob :: "string \<Rightarrow> 'e pull_error + string"

record ('e, 'r, 's, 'h) pull_env =
  pe_G :: "string \<Rightarrow> string \<Rightarrow> string"
  pe_parse :: "string \<Rightarrow> image_config option"
  pe_image_os :: "string \<Rightarrow> string"
  pe_disk :: "fs_call \<Rightarrow> bool"
  pe_lget :: "string \<Rightarrow> 's \<Rightarrow> 's \<times> ('e + 'r)"
  pe_digest_ok :: "string \<Rightarrow> bool"
  pe_wok :: bool
  pe_v1 :: "string \<Rightarrow> (string \<times> string) option"
  pe_throwaway :: "string \<Rightarrow> bool option"
  pe_history :: "string \<Rightarrow> bool \<Rightarrow> string option"
  pe_makeConfig :: "string \<Rightarrow> string list \<Rightarrow> string list \<Rightarrow> string option"
  pe_GOARCH :: string
  pe_GOOS :: string
  pe_types :: "string list"
  pe_requireSchema2 :: bool
  pe_download :: "(bool \<Rightarrow> string list \<Rightarrow> 's \<Rightarrow> 's \<times> ('e pull_error + string list \<times> 'h)) option"
  pe_release :: "'h \<Rightarrow> 's \<Rightarrow> 's"
  pe_text :: "'e pull_error \<Rightarrow> string"

text \<open>
  The first argument of a download says whether the request is cancelled. A puller has its endpoint confirmed or not; the daemon may be without a reference store.
\<close>

record ('r, 's) pull_state =
  ps_images :: "('r, 's) image_store"
  ps_refs :: "ref_store option"
  ps_confirmed :: bool

definition pe_H :: "('e, 'r, 's, 'h) pull_env \<Rightarrow> string \<Rightarrow> string" where
  "pe_H env = pe_G env ''sha256''"

text \<open>A verifier of the digest \<open>d\<close> accepts the bytes \<open>b\<close>.\<close>

definition verified :: "('e, 'r, 's, 'h) pull_env \<Rightarrow> string \<Rightarrow> string \<Rightarrow> bool" where
  "verified env d b \<longleftrightarrow> pe_G env (dg_alg d) b = d"

definition on_layers :: "('s \<Rightarrow> 's) \<Rightarrow> ('r, 's) pull_state \<Rightarrow> ('r, 's) pull_state" where
  "on_layers f st = st\<lparr>ps_images := (ps_images st)\<lparr>is_ls := f (is_ls (ps_images st))\<rparr>\<rparr>"

section \<open>Image configurations\<close>

definition ics_Put :: "('e, 'r, 's, 'h) pull_env \<Rightarrow> string \<Rightarrow> ('r, 's) pull_state \<Rightarrow> ('r, 's) pull_state \<times> ('e pull_error + string)" where
  "ics_Put env c st =
     (case is_Create (pe_H env) (pe_parse env) (pe_lget env) (pe_disk env) c (ps_images st) of
        (is1, Inl e) \<Rightarrow> (st\<lparr>ps_images := is1\<rparr>, Inl (Other (ImageFailed e)))
      | (is1, Inr i) \<Rightarrow> (st\<lparr>ps_images := is1\<rparr>, Inr i))"

definition ics_has :: "('e, 'r, 's, 'h) pull_env \<Rightarrow> string \<Rightarrow> ('r, 's) pull_state \<Rightarrow> bool" where
  "ics_has env d st =
     (case is_Get (pe_H env) (pe_parse env) (pe_disk env) d (ps_images st) :: 'e image_error + image of Inl _ \<Rightarrow> False | Inr _ \<Rightarrow> True)"

definition RootFSFromConfig :: "('e, 'r, 's, 'h) pull_env \<Rightarrow> string \<Rightarrow> 'e pull_error + string list option" where
  "RootFSFromConfig env c =
     (case pe_parse env c of
        None \<Rightarrow> Inl (Other ConfigUndecodable)
      | Some img \<Rightarrow>
          if pe_GOOS env = ''windows'' \<and> pe_image_os env c = ''linux'' then Inl (Other (WrongOS (pe_image_os env c)))
          else if pe_GOOS env \<noteq> ''windows'' \<and> pe_image_os env c = ''windows'' then Inl (Other (WrongOS (pe_image_os env c)))
          else Inr (ic_rootfs img))"

definition pullSchema2Config :: "('e, 'r, 's, 'h) pull_env \<Rightarrow> 'e registry \<Rightarrow> string \<Rightarrow> 'e pull_error + string" where
  "pullSchema2Config env reg dgst =
     (case rg_blob reg dgst of
        Inl e \<Rightarrow> Inl e
      | Inr configJSON \<Rightarrow>
          if \<not> verified env dgst configJSON then Inl (Other (ConfigVerification dgst)) else Inr configJSON)"

definition receiveConfig :: "('e, 'r, 's, 'h) pull_env \<Rightarrow> 'e pull_error + string \<Rightarrow> 'e pull_error + string \<times> string list option" where
  "receiveConfig env chan =
     (case chan of
        Inl e \<Rightarrow> Inl (ConfigPullError e)
      | Inr configJSON \<Rightarrow>
          (case RootFSFromConfig env configJSON of
             Inl e \<Rightarrow> Inl e
           | Inr rootfs \<Rightarrow> Inr (configJSON, rootfs)))"

definition schema2ManifestDigest :: "('e, 'r, 's, 'h) pull_env \<Rightarrow> named \<Rightarrow> string option \<Rightarrow> 'e pull_error + string" where
  "schema2ManifestDigest env ref payload =
     (case payload of
        None \<Rightarrow> Inl (Other PayloadFailed)
      | Some canonical \<Rightarrow>
          (case canonical_digest ref of
             Some d \<Rightarrow> if \<not> verified env d canonical then Inl (Other (ManifestVerification d)) else Inr d
           | None \<Rightarrow> Inr (pe_H env canonical)))"

section \<open>Manifests of the second schema\<close>

text \<open>
  The configuration and the layers are pulled at the same time. An error of the configuration cancels the download, which then ends in any way; what it got is not released.
  On Windows the configuration comes first.
\<close>

definition config_result :: "('e, 'r, 's, 'h) pull_env \<Rightarrow> 'e registry \<Rightarrow> string \<Rightarrow> 'e pull_error + string \<times> string list" where
  "config_result env reg d =
     (case receiveConfig env (pullSchema2Config env reg d) of
        Inl e \<Rightarrow> Inl e
      | Inr (json, None) \<Rightarrow> Inl (Other RootFSInvalid)
      | Inr (json, Some diffs) \<Rightarrow> Inr (json, diffs))"

definition run_download ::
  "('e, 'r, 's, 'h) pull_env \<Rightarrow> bool \<Rightarrow> string list \<Rightarrow> ('r, 's) pull_state \<Rightarrow> ('r, 's) pull_state \<times> ('e pull_error + (string list \<times> 'h) option)" where
  "run_download env cancelled layers st =
     (case pe_download env of
        None \<Rightarrow> (st, Inr None)
      | Some download \<Rightarrow>
          (case download cancelled layers (is_ls (ps_images st)) of
             (ls, Inl e) \<Rightarrow> (on_layers (\<lambda>_. ls) st, Inl e)
           | (ls, Inr r) \<Rightarrow> (on_layers (\<lambda>_. ls) st, Inr (Some r))))"

definition release_download :: "('e, 'r, 's, 'h) pull_env \<Rightarrow> (string list \<times> 'h) option \<Rightarrow> ('r, 's) pull_state \<Rightarrow> ('r, 's) pull_state" where
  "release_download env got st = (case got of None \<Rightarrow> st | Some (_, h) \<Rightarrow> on_layers (pe_release env h) st)"

definition store_config ::
  "('e, 'r, 's, 'h) pull_env \<Rightarrow> string \<Rightarrow> string list \<Rightarrow> (string list \<times> 'h) option \<Rightarrow> ('r, 's) pull_state
     \<Rightarrow> ('r, 's) pull_state \<times> ('e pull_error + string)" where
  "store_config env json diffs got st =
     (if (case got of None \<Rightarrow> False | Some (ds, _) \<Rightarrow> ds \<noteq> diffs) then (st, Inl (Other RootFSMismatch))
      else ics_Put env json st)"

definition pullSchema2 ::
  "('e, 'r, 's, 'h) pull_env \<Rightarrow> 'e registry \<Rightarrow> named \<Rightarrow> schema2 \<Rightarrow> ('r, 's) pull_state
     \<Rightarrow> ('r, 's) pull_state \<times> ('e pull_error + string \<times> string)" where
  "pullSchema2 env reg ref mfst st =
     (case schema2ManifestDigest env ref (s2_payload mfst) of
        Inl e \<Rightarrow> (st, Inl e)
      | Inr manifestDigest \<Rightarrow>
          if ics_has env (s2_config mfst) st then (st, Inr (s2_config mfst, manifestDigest))
          else
            (case config_result env reg (s2_config mfst) of
               Inl e \<Rightarrow> (if pe_GOOS env = ''windows'' then st else fst (run_download env True (s2_layers mfst) st), Inl e)
             | Inr (json, diffs) \<Rightarrow>
                 (case run_download env False (s2_layers mfst) st of
                    (st1, Inl e) \<Rightarrow> (st1, Inl e)
                  | (st1, Inr got) \<Rightarrow>
                      (case store_config env json diffs got st1 of
                         (st2, Inl e) \<Rightarrow> (release_download env got st2, Inl e)
                       | (st2, Inr imageID) \<Rightarrow> (release_download env got st2, Inr (imageID, manifestDigest))))))"

section \<open>Manifests of the first schema\<close>

definition verifySchema1Manifest :: "('e, 'r, 's, 'h) pull_env \<Rightarrow> schema1 \<Rightarrow> named \<Rightarrow> 'e pull_error + schema1" where
  "verifySchema1Manifest env m ref =
     (if (case canonical_digest ref of Some d \<Rightarrow> \<not> verified env d (s1_canonical m) | None \<Rightarrow> False)
      then Inl (Other (ImageVerification (the (canonical_digest ref))))
      else if s1_version m \<noteq> 1 then Inl (Other (SchemaVersion (s1_version m)))
      else if length (s1_layers m) \<noteq> length (s1_history m) then Inl (Other HistoryLength)
      else if length (s1_layers m) = 0 then Inl (Other NoFSLayers)
      else Inr m)"

text \<open>\<^verbatim>\<open>ValidateID\<close> of pkg/stringid, by its regular expression: 64 digits in lower case.\<close>

definition v1_ValidateID :: "string \<Rightarrow> bool" where
  "v1_ValidateID i \<longleftrightarrow> length i = 64 \<and> list_all (\<lambda>c. c \<in> set ''abcdef0123456789'') i"

text \<open>The images of the history: identifier and parent.\<close>

fun decode_images :: "('e, 'r, 's, 'h) pull_env \<Rightarrow> string list \<Rightarrow> 'e pull_error + (string \<times> string) list" where
  "decode_images env [] = Inr []"
| "decode_images env (h # hs) =
     (case pe_v1 env h of
        None \<Rightarrow> Inl (Other BadV1Config)
      | Some img \<Rightarrow>
          if \<not> v1_ValidateID (fst img) then Inl (Other (InvalidID (fst img)))
          else (case decode_images env hs of Inl e \<Rightarrow> Inl e | Inr imgs \<Rightarrow> Inr (img # imgs)))"

text \<open>An identifier that comes again, but not right after itself.\<close>

fun repeated_id :: "string \<Rightarrow> string goset \<Rightarrow> (string \<times> string) list \<Rightarrow> string option" where
  "repeated_id lastID idmap [] = None"
| "repeated_id lastID idmap (img # imgs) =
     (if fst img \<noteq> lastID \<and> fst img \<in> set idmap then Some (fst img)
      else repeated_id (fst img) (gs_add (fst img) idmap) imgs)"

definition remove_at :: "nat \<Rightarrow> 'a list \<Rightarrow> 'a list" where
  "remove_at i xs = take i xs @ drop (i + 1) xs"

text \<open>The loop runs from the last index but one down to 0; its argument is one more than the index.\<close>

fun fix_loop :: "(string \<times> string) list \<Rightarrow> nat \<Rightarrow> string list \<times> string list \<Rightarrow> 'e pull_error + string list \<times> string list" where
  "fix_loop imgs 0 m = Inr m"
| "fix_loop imgs (Suc i) (layers, history) =
     (if fst (imgs ! i) = fst (imgs ! (i + 1)) then fix_loop imgs i (remove_at i layers, remove_at i history)
      else if snd (imgs ! i) \<noteq> fst (imgs ! (i + 1)) then Inl (Other (InvalidParentID (fst (imgs ! (i + 1))) (snd (imgs ! i))))
      else fix_loop imgs i (layers, history))"

definition fixManifestLayers :: "('e, 'r, 's, 'h) pull_env \<Rightarrow> schema1 \<Rightarrow> 'e pull_error + schema1" where
  "fixManifestLayers env m =
     (case decode_images env (s1_history m) of
        Inl e \<Rightarrow> Inl e
      | Inr imgs \<Rightarrow>
          if snd (last imgs) \<noteq> '''' \<and> pe_GOOS env \<noteq> ''windows'' then Inl (Other InvalidBaseParent)
          else
            (case repeated_id '''' [] imgs of
               Some i \<Rightarrow> Inl (Other (RepeatedID i))
             | None \<Rightarrow>
                 (case fix_loop imgs (length imgs - 1) (s1_layers m, s1_history m) of
                    Inl e \<Rightarrow> Inl e
                  | Inr (layers, history) \<Rightarrow> Inr (m\<lparr>s1_layers := layers, s1_history := history\<rparr>))))"

text \<open>From the bottom to the top: the history in the new format, and the layers that are not thrown away.\<close>

fun schema1_descriptors :: "('e, 'r, 's, 'h) pull_env \<Rightarrow> (string \<times> string) list \<Rightarrow> 'e pull_error + string list \<times> string list" where
  "schema1_descriptors env [] = Inr ([], [])"
| "schema1_descriptors env ((blobSum, v1) # rest) =
     (case pe_throwaway env v1 of
        None \<Rightarrow> Inl (Other BadV1Config)
      | Some throwAway \<Rightarrow>
          (case pe_history env v1 throwAway of
             None \<Rightarrow> Inl (Other BadV1Config)
           | Some h \<Rightarrow>
               (case schema1_descriptors env rest of
                  Inl e \<Rightarrow> Inl e
                | Inr (hs, ds) \<Rightarrow> Inr (h # hs, if throwAway then ds else blobSum # ds))))"

text \<open>Without a download manager the code dereferences nil here, which is an error of its own in the model.\<close>

definition pullSchema1 ::
  "('e, 'r, 's, 'h) pull_env \<Rightarrow> named \<Rightarrow> schema1 \<Rightarrow> ('r, 's) pull_state \<Rightarrow> ('r, 's) pull_state \<times> ('e pull_error + string \<times> string)" where
  "pullSchema1 env ref unverified st =
     (case verifySchema1Manifest env unverified ref of
        Inl e \<Rightarrow> (st, Inl e)
      | Inr m1 \<Rightarrow>
          (case fixManifestLayers env m1 of
             Inl e \<Rightarrow> (st, Inl e)
           | Inr m \<Rightarrow>
               (case schema1_descriptors env (rev (zip (s1_layers m) (s1_history m))) of
                  Inl e \<Rightarrow> (st, Inl e)
                | Inr (history, layers) \<Rightarrow>
                    (case run_download env False layers st of
                       (st1, Inl e) \<Rightarrow> (st1, Inl e)
                     | (st1, Inr None) \<Rightarrow> (st1, Inl (Other NilDownloadManager))
                     | (st1, Inr (Some (diffs, h))) \<Rightarrow>
                         (case pe_makeConfig env (hd (s1_history m)) diffs history of
                            None \<Rightarrow> (release_download env (Some (diffs, h)) st1, Inl (Other BadV1Config))
                          | Some config \<Rightarrow>
                              (case ics_Put env config st1 of
                                 (st2, Inl e) \<Rightarrow> (release_download env (Some (diffs, h)) st2, Inl e)
                               | (st2, Inr imageID) \<Rightarrow>
                                   (release_download env (Some (diffs, h)) st2, Inr (imageID, pe_H env (s1_canonical unverified)))))))))"

section \<open>Manifest lists\<close>

text \<open>The first entry for the platform; an empty digest counts as none.\<close>

definition find_platform :: "('e, 'r, 's, 'h) pull_env \<Rightarrow> manifest_entry list \<Rightarrow> string" where
  "find_platform env entries =
     (case List.find (\<lambda>m. me_arch m = pe_GOARCH env \<and> me_os m = pe_GOOS env) entries of None \<Rightarrow> '''' | Some m \<Rightarrow> me_digest m)"

definition WithDigest :: "('e, 'r, 's, 'h) pull_env \<Rightarrow> named \<Rightarrow> string \<Rightarrow> 'e pull_error + named" where
  "WithDigest env ref d = (if pe_digest_ok env d then Inr (CanonicalRef (ref_repo ref) d) else Inl (Other BadReference))"

definition pullManifestList ::
  "('e, 'r, 's, 'h) pull_env \<Rightarrow> 'e registry \<Rightarrow> named \<Rightarrow> manifest_list \<Rightarrow> ('r, 's) pull_state
     \<Rightarrow> ('r, 's) pull_state \<times> ('e pull_error + string \<times> string)" where
  "pullManifestList env reg ref mfstList st =
     (case schema2ManifestDigest env ref (ml_payload mfstList) of
        Inl e \<Rightarrow> (st, Inl e)
      | Inr listDigest \<Rightarrow>
         (let manifestDigest = find_platform env (ml_manifests mfstList) in
          if manifestDigest = '''' then (st, Inl (Other NoPlatform))
          else
            (case rg_service reg of
               Some e \<Rightarrow> (st, Inl e)
             | None \<Rightarrow>
                 (case rg_by_digest reg manifestDigest of
                    Inl e \<Rightarrow> (st, Inl e)
                  | Inr manifest \<Rightarrow>
                      (case WithDigest env ref manifestDigest of
                         Inl e \<Rightarrow> (st, Inl e)
                       | Inr manifestRef \<Rightarrow>
                           (case (case manifest of
                                    Some (Schema1 m) \<Rightarrow> pullSchema1 env manifestRef m st
                                  | Some (Schema2 m) \<Rightarrow> pullSchema2 env reg manifestRef m st
                                  | _ \<Rightarrow> (st, Inl (Other UnsupportedFormat))) of
                              (st1, Inl e) \<Rightarrow> (st1, Inl e)
                            | (st1, Inr (i, _)) \<Rightarrow> (st1, Inr (i, listDigest))))))))"

section \<open>Pulling a reference\<close>

definition addDigestReference ::
  "('e, 'r, 's, 'h) pull_env \<Rightarrow> named \<Rightarrow> string \<Rightarrow> string \<Rightarrow> ref_store \<Rightarrow> ref_store \<times> 'e pull_error option" where
  "addDigestReference env ref dgst i rs =
     (case WithDigest env ref dgst of
        Inl e \<Rightarrow> (rs, Some e)
      | Inr dgstRef \<Rightarrow>
          (case ref_get (pe_digest_ok env) dgstRef rs of
             Inr oldTagID \<Rightarrow> (rs, None)
           | Inl e \<Rightarrow>
               if e \<noteq> RefDoesNotExist then (rs, Some (Other (RefFailed e)))
               else
                 (case AddDigest (pe_digest_ok env) dgstRef i True (pe_wok env) rs of
                    (rs1, e) \<Rightarrow> (rs1, map_option (\<lambda>e. Other (RefFailed e)) e))))"

text \<open>The reference is new, or names another image.\<close>

definition record_new ::
  "('e, 'r, 's, 'h) pull_env \<Rightarrow> named \<Rightarrow> string \<Rightarrow> string \<Rightarrow> ref_store \<Rightarrow> ref_store \<times> ('e pull_error + bool)" where
  "record_new env ref i manifestDigest rs =
     (if canonical_digest ref \<noteq> None
      then (case AddDigest (pe_digest_ok env) ref i True (pe_wok env) rs of
              (rs1, Some e) \<Rightarrow> (rs1, Inl (Other (RefFailed e)))
            | (rs1, None) \<Rightarrow> (rs1, Inr True))
      else
        (case addDigestReference env ref manifestDigest i rs of
           (rs1, Some e) \<Rightarrow> (rs1, Inl e)
         | (rs1, None) \<Rightarrow>
             (case AddTag (pe_digest_ok env) ref i True (pe_wok env) rs1 of
                (rs2, Some e) \<Rightarrow> (rs2, Inl (Other (RefFailed e)))
              | (rs2, None) \<Rightarrow> (rs2, Inr True))))"

definition record_refs ::
  "('e, 'r, 's, 'h) pull_env \<Rightarrow> named \<Rightarrow> string \<Rightarrow> string \<Rightarrow> ref_store \<Rightarrow> ref_store \<times> ('e pull_error + bool)" where
  "record_refs env ref i manifestDigest rs =
     (case ref_get (pe_digest_ok env) ref rs of
        Inr oldTagID \<Rightarrow>
          if oldTagID = i
          then (case addDigestReference env ref manifestDigest i rs of
                  (rs1, Some e) \<Rightarrow> (rs1, Inl e) | (rs1, None) \<Rightarrow> (rs1, Inr False))
          else record_new env ref i manifestDigest rs
      | Inl e \<Rightarrow>
          if e \<noteq> RefDoesNotExist then (rs, Inl (Other (RefFailed e))) else record_new env ref i manifestDigest rs)"

text \<open>The manifest of a reference, by its tag when it has one.\<close>

definition fetch_manifest :: "'e registry \<Rightarrow> named \<Rightarrow> 'e pull_error + manifest" where
  "fetch_manifest reg ref =
     (let missing = (\<lambda>what m. case m of None \<Rightarrow> Inl (Other (ManifestMissing what)) | Some x \<Rightarrow> Inr x);
          by_tag = (\<lambda>t. case rg_by_tag reg t of Inl e \<Rightarrow> Inl (allowV1Fallback e) | Inr m \<Rightarrow> missing t m)
      in (case rg_service reg of
            Some e \<Rightarrow> Inl e
          | None \<Rightarrow>
              (case ref of
                 TaggedRef _ t \<Rightarrow> by_tag t
               | FullRef _ t _ \<Rightarrow> by_tag t
               | CanonicalRef _ d \<Rightarrow> (case rg_by_digest reg d of Inl e \<Rightarrow> Inl e | Inr m \<Rightarrow> missing d m)
               | Repository _ \<Rightarrow> Inl (Other NeitherTagNorDigest))))"

definition allowed_type :: "('e, 'r, 's, 'h) pull_env \<Rightarrow> manifest \<Rightarrow> 'e pull_error option" where
  "allowed_type env m =
     (case m of
        Schema2 m \<Rightarrow> if s2_config_type m \<in> set (pe_types env) then None else Some (Other (UnsupportedConfig (s2_config_type m)))
      | _ \<Rightarrow> None)"

definition pull_manifest ::
  "('e, 'r, 's, 'h) pull_env \<Rightarrow> 'e registry \<Rightarrow> named \<Rightarrow> manifest \<Rightarrow> ('r, 's) pull_state
     \<Rightarrow> ('r, 's) pull_state \<times> ('e pull_error + string \<times> string)" where
  "pull_manifest env reg ref manifest st =
     (case manifest of
        Schema1 m \<Rightarrow> if pe_requireSchema2 env then (st, Inl (Other NotSchema2)) else pullSchema1 env ref m st
      | Schema2 m \<Rightarrow> pullSchema2 env reg ref m st
      | ManifestList m \<Rightarrow> pullManifestList env reg ref m st
      | OtherManifest \<Rightarrow> (st, Inl (Other UnsupportedFormat)))"

text \<open>The result says whether anything new was pulled.\<close>

definition pullV2Tag ::
  "('e, 'r, 's, 'h) pull_env \<Rightarrow> 'e registry \<Rightarrow> named \<Rightarrow> ('r, 's) pull_state \<Rightarrow> ('r, 's) pull_state \<times> ('e pull_error + bool)" where
  "pullV2Tag env reg ref st =
     (case fetch_manifest reg ref of
        Inl e \<Rightarrow> (st, Inl e)
      | Inr manifest \<Rightarrow>
          (case allowed_type env manifest of
             Some e \<Rightarrow> (st, Inl e)
           | None \<Rightarrow>
               (case pull_manifest env reg ref manifest (st\<lparr>ps_confirmed := True\<rparr>) of
                  (st1, Inl e) \<Rightarrow> (st1, Inl e)
                | (st1, Inr (i, manifestDigest)) \<Rightarrow>
                    (case ps_refs st1 of
                       None \<Rightarrow> (st1, Inr True)
                     | Some rs \<Rightarrow>
                         (case record_refs env ref i manifestDigest rs of
                            (rs1, r) \<Rightarrow> (st1\<lparr>ps_refs := Some rs1\<rparr>, r))))))"

text \<open>All tags of a repository in their order; an error that would go on to version 1 loses that.\<close>

fun no_fallback :: "'x go_error \<Rightarrow> 'x go_error" where
  "no_fallback (Fallback e v2 tls) = e"
| "no_fallback e = e"

fun pull_tags ::
  "('e, 'r, 's, 'h) pull_env \<Rightarrow> 'e registry \<Rightarrow> repo \<Rightarrow> (string \<Rightarrow> bool) \<Rightarrow> string list \<Rightarrow> bool \<Rightarrow> ('r, 's) pull_state
     \<Rightarrow> ('r, 's) pull_state \<times> ('e pull_error + bool)" where
  "pull_tags env reg r tag_ok [] fresh st = (st, Inr fresh)"
| "pull_tags env reg r tag_ok (t # ts) fresh st =
     (if \<not> tag_ok t then (st, Inl (Other BadReference))
      else
        (case pullV2Tag env reg (TaggedRef r t) st of
           (st1, Inl e) \<Rightarrow> (st1, Inl (no_fallback e))
         | (st1, Inr pulledNew) \<Rightarrow> pull_tags env reg r tag_ok ts (fresh \<or> pulledNew) st1))"

definition pullV2Repository ::
  "('e, 'r, 's, 'h) pull_env \<Rightarrow> 'e registry \<Rightarrow> (string \<Rightarrow> bool) \<Rightarrow> named \<Rightarrow> ('r, 's) pull_state
     \<Rightarrow> ('r, 's) pull_state \<times> ('e pull_error + bool)" where
  "pullV2Repository env reg tag_ok ref st =
     (case ref of
        Repository r \<Rightarrow>
          (case rg_tags reg of
             Inl e \<Rightarrow> (st, Inl (allowV1Fallback e))
           | Inr tags \<Rightarrow> pull_tags env reg r tag_ok tags False (st\<lparr>ps_confirmed := True\<rparr>))
      | _ \<Rightarrow> pullV2Tag env reg ref st)"

text \<open>\<open>conn\<close> is the result of connecting: whether a v2 registry was found, and the error.\<close>

definition v2_Pull ::
  "('e, 'r, 's, 'h) pull_env \<Rightarrow> bool \<times> 'e pull_error option \<Rightarrow> 'e registry \<Rightarrow> (string \<Rightarrow> bool) \<Rightarrow> named \<Rightarrow> ('r, 's) pull_state
     \<Rightarrow> ('r, 's) pull_state \<times> 'e pull_error option" where
  "v2_Pull env conn reg tag_ok ref st =
     (let st0 = st\<lparr>ps_confirmed := fst conn\<rparr> in
      case snd conn of
        Some e \<Rightarrow> (st0, Some e)
      | None \<Rightarrow>
          (case pullV2Repository env reg tag_ok ref st0 of
             (st1, Inr _) \<Rightarrow> (st1, None)
           | (st1, Inl (Fallback e v2 tls)) \<Rightarrow> (st1, Some (Fallback e v2 tls))
           | (st1, Inl e) \<Rightarrow>
               (st1, Some (if continueOnError (pe_text env) e then Fallback e (ps_confirmed st1) True else e))))"

end
