(* ===== verification/PullProps.thy ===== *)
theory PullProps
  imports PullV2
begin

text \<open>
  What a pull guarantees: which bytes were verified on the way from a reference to the stored image, what the reference names afterwards, and the
  chain of images of a manifest of the first schema.
\<close>

section \<open>The stores\<close>

definition stored :: "('r, 's) pull_state \<Rightarrow> string \<Rightarrow> string option" where
  "stored st i = gm_get (db_content (is_fs (ps_images st))) i"

lemma on_layers_frame [simp]:
  "stored (on_layers f st) i = stored st i" "ps_refs (on_layers f st) = ps_refs st"
  by (simp_all add: on_layers_def stored_def)

lemma release_frame [simp]:
  "stored (release_download env got st) i = stored st i" "ps_refs (release_download env got st) = ps_refs st"
  by (simp_all add: release_download_def split: option.split)

lemma confirmed_frame [simp]: "stored (st\<lparr>ps_confirmed := b\<rparr>) i = stored st i" "stored (st\<lparr>ps_refs := r\<rparr>) i = stored st i"
  by (simp_all add: stored_def)

lemma run_download_frame:
  "run_download env c ls st = (st', r) \<Longrightarrow> stored st' i = stored st i \<and> ps_refs st' = ps_refs st"
  by (auto simp: run_download_def split: option.splits prod.splits sum.splits)

lemma create_commit_fs: "is_fs (fst (create_commit H lget d diffs st)) = is_fs st"
  by (auto simp: create_commit_def Let_def split: option.splits prod.splits sum.splits if_splits)

lemma create_commit_id: "create_commit H lget d diffs st = (st', Inr i) \<Longrightarrow> i = d"
  by (auto simp: create_commit_def Let_def split: option.splits prod.splits sum.splits if_splits)

lemma ics_Put_ok:
  fixes env :: "('e, 'r, 's, 'h) pull_env"
  assumes "ics_Put env c st = (st', Inr i)"
  shows "i = pe_H env c" "stored st' i = Some c" "ps_refs st' = ps_refs st"
proof -
  obtain is1 where cr: "is_Create (pe_H env) (pe_parse env) (pe_lget env) (pe_disk env) c (ps_images st) = (is1, Inr i)"
      and st': "st' = st\<lparr>ps_images := is1\<rparr>"
    using assms by (auto simp: ics_Put_def split: prod.splits sum.splits)
  obtain is0 d diffs where cs: "create_set (pe_H env) (pe_parse env) (pe_disk env) c (ps_images st) = (is0, (Inr (d, diffs) :: 'e image_error + _))"
      and cc: "create_commit (pe_H env) (pe_lget env) d diffs is0 = (is1, Inr i)"
    using cr by (auto simp: is_Create_def split: prod.splits sum.splits)
  have "d = pe_H env c" "gm_get (db_content (is_fs is0)) d = Some c"
    using cs by (auto simp: create_set_def fs_Set_def Let_def split: sum.splits prod.splits if_splits)
  moreover have "is_fs is1 = is_fs is0" "i = d" using create_commit_fs [of "pe_H env" "pe_lget env" d diffs is0] create_commit_id [OF cc] cc by simp_all
  ultimately show "i = pe_H env c" "stored st' i = Some c" "ps_refs st' = ps_refs st" by (simp_all add: st' stored_def)
qed

lemma ics_Put_refs: "ics_Put env c st = (st', r) \<Longrightarrow> ps_refs st' = ps_refs st"
  by (auto simp: ics_Put_def split: prod.splits sum.splits)

lemma ics_has_stored: "ics_has env d st \<Longrightarrow> \<exists>json. stored st d = Some json \<and> pe_H env json = d"
  by (auto simp: ics_has_def is_Get_def fs_get_def stored_def split: sum.splits option.splits if_splits)

section \<open>From the manifest to the image\<close>

text \<open>A digest by SHA-256 says so.\<close>

definition sha_named :: "('e, 'r, 's, 'h) pull_env \<Rightarrow> bool" where
  "sha_named env \<longleftrightarrow> (\<forall>b. dg_alg (pe_H env b) = ''sha256'')"

lemma sha_verified: "sha_named env \<Longrightarrow> pe_H env json = d \<Longrightarrow> verified env d json"
  by (auto simp: sha_named_def verified_def pe_H_def)

definition bytes_of :: "manifest \<Rightarrow> string option" where
  "bytes_of m =
     (case m of Schema1 m \<Rightarrow> Some (s1_canonical m) | Schema2 m \<Rightarrow> s2_payload m | ManifestList m \<Rightarrow> ml_payload m | OtherManifest \<Rightarrow> None)"

text \<open>The manifest is of the bytes \<open>b\<close>, which have the digest of the reference, if it has one.\<close>

definition matches :: "('e, 'r, 's, 'h) pull_env \<Rightarrow> named \<Rightarrow> manifest \<Rightarrow> bool" where
  "matches env ref m \<longleftrightarrow> (\<exists>b. bytes_of m = Some b \<and> (\<forall>d. canonical_digest ref = Some d \<longrightarrow> verified env d b))"

definition names_config :: "('e, 'r, 's, 'h) pull_env \<Rightarrow> manifest \<Rightarrow> string \<Rightarrow> bool" where
  "names_config env m json \<longleftrightarrow>
     (case m of Schema1 _ \<Rightarrow> True | Schema2 m \<Rightarrow> verified env (s2_config m) json | _ \<Rightarrow> False)"

text \<open>The configuration is the one of the manifest, by the entry of a list for the platform.\<close>

definition config_of :: "('e, 'r, 's, 'h) pull_env \<Rightarrow> 'e registry \<Rightarrow> manifest \<Rightarrow> string \<Rightarrow> bool" where
  "config_of env reg m json \<longleftrightarrow>
     (case m of
        ManifestList l \<Rightarrow>
          (\<exists>m2 b. rg_by_digest reg (find_platform env (ml_manifests l)) = Inr (Some m2) \<and> bytes_of m2 = Some b \<and>
             verified env (find_platform env (ml_manifests l)) b \<and> names_config env m2 json)
      | _ \<Rightarrow> names_config env m json)"

definition image_there :: "('e, 'r, 's, 'h) pull_env \<Rightarrow> ('r, 's) pull_state \<Rightarrow> string \<Rightarrow> string \<Rightarrow> bool" where
  "image_there env st i json \<longleftrightarrow> i = pe_H env json \<and> stored st i = Some json"

lemma image_there_release [simp]: "image_there env (release_download env' got st) i json = image_there env st i json"
  by (simp add: image_there_def)

lemma manifest_digest_ok:
  "schema2ManifestDigest env ref p = Inr d \<Longrightarrow>
     \<exists>b. p = Some b \<and> (\<forall>x. canonical_digest ref = Some x \<longrightarrow> verified env x b \<and> d = x)"
  by (auto simp: schema2ManifestDigest_def split: option.splits if_splits)

lemma config_result_ok:
  "config_result env reg d = Inr (json, diffs) \<Longrightarrow> verified env d json \<and> (\<exists>img. pe_parse env json = Some img \<and> ic_rootfs img = Some diffs)"
  by (auto simp: config_result_def receiveConfig_def pullSchema2Config_def RootFSFromConfig_def split: sum.splits if_splits option.splits)

lemma store_config_ok:
  "store_config env json diffs got st = (st', Inr i) \<Longrightarrow> image_there env st' i json \<and> ps_refs st' = ps_refs st \<and>
     (\<forall>ds h. got = Some (ds, h) \<longrightarrow> ds = diffs)"
  using ics_Put_ok [of env json st st' i] by (auto simp: store_config_def image_there_def split: if_splits option.splits)

lemma store_config_refs: "store_config env json diffs got st = (st', r) \<Longrightarrow> ps_refs st' = ps_refs st"
  using ics_Put_refs by (auto simp: store_config_def split: if_splits option.splits prod.splits)

lemma pullSchema2_ok:
  assumes law: "sha_named env" and run: "pullSchema2 env reg ref m st = (st', Inr (i, md))"
  shows "matches env ref (Schema2 m) \<and> (\<forall>d. canonical_digest ref = Some d \<longrightarrow> md = d) \<and> ps_refs st' = ps_refs st \<and>
    (\<exists>json. verified env (s2_config m) json \<and> image_there env st' i json)"
proof -
  have md: "schema2ManifestDigest env ref (s2_payload m) = Inr md" using run by (auto simp: pullSchema2_def split: sum.splits if_splits prod.splits)
  have mm: "matches env ref (Schema2 m)" "\<forall>d. canonical_digest ref = Some d \<longrightarrow> md = d"
    using manifest_digest_ok [OF md] by (auto simp: matches_def bytes_of_def)
  show ?thesis
  proof (cases "ics_has env (s2_config m) st")
    case True
    then have "st' = st" "i = s2_config m" using run md by (simp_all add: pullSchema2_def)
    moreover obtain json where "stored st (s2_config m) = Some json" "pe_H env json = s2_config m" using ics_has_stored [OF True] by blast
    ultimately show ?thesis using sha_verified [OF law, of json "s2_config m"] mm by (auto simp: image_there_def)
  next
    case False
    obtain json diffs st1 got st2 where c: "config_result env reg (s2_config m) = Inr (json, diffs)"
        and d: "run_download env False (s2_layers m) st = (st1, Inr got)"
        and s: "store_config env json diffs got st1 = (st2, Inr i)" and st': "st' = release_download env got st2"
      using run md False by (auto simp: pullSchema2_def split: sum.splits prod.splits)
    have "verified env (s2_config m) json" using config_result_ok [OF c] by simp
    moreover have "image_there env st' i json" "ps_refs st' = ps_refs st"
      using store_config_ok [OF s] run_download_frame [OF d] by (simp_all add: st')
    ultimately show ?thesis using mm by blast
  qed
qed

text \<open>The layers that were downloaded for a new image are those its configuration names.\<close>

lemma pullSchema2_layers:
  assumes "pullSchema2 env reg ref m st = (st', Inr (i, md))" "\<not> ics_has env (s2_config m) st" "pe_download env = Some download"
  shows "\<exists>json img diffs h ls. pe_parse env json = Some img \<and> i = pe_H env json \<and> ic_rootfs img = Some diffs \<and>
    download False (s2_layers m) (is_ls (ps_images st)) = (ls, Inr (diffs, h))"
proof -
  obtain json diffs st1 got st2 where c: "config_result env reg (s2_config m) = Inr (json, diffs)"
      and d: "run_download env False (s2_layers m) st = (st1, Inr got)"
      and s: "store_config env json diffs got st1 = (st2, Inr i)"
    using assms(1,2) by (auto simp: pullSchema2_def split: sum.splits prod.splits)
  obtain ls ds h where "download False (s2_layers m) (is_ls (ps_images st)) = (ls, Inr (ds, h))" "got = Some (ds, h)"
    using d assms(3) by (auto simp: run_download_def split: prod.splits sum.splits)
  then show ?thesis using config_result_ok [OF c] store_config_ok [OF s] by (auto simp: image_there_def)
qed

lemma pullSchema1_ok:
  assumes run: "pullSchema1 env ref m st = (st', Inr (i, md))"
  shows "matches env ref (Schema1 m) \<and> md = pe_H env (s1_canonical m) \<and> ps_refs st' = ps_refs st \<and> (\<exists>json. image_there env st' i json)"
proof -
  obtain m1 where v: "verifySchema1Manifest env m ref = Inr m1" using run by (auto simp: pullSchema1_def split: sum.splits)
  have mm: "matches env ref (Schema1 m)"
    using v by (auto simp: verifySchema1Manifest_def matches_def bytes_of_def split: if_splits option.splits)
  obtain layers st1 diffs h config st2 where d: "run_download env False layers st = (st1, Inr (Some (diffs, h)))"
      and s: "ics_Put env config st1 = (st2, Inr i)" and st': "st' = release_download env (Some (diffs, h)) st2" "md = pe_H env (s1_canonical m)"
    using run v by (auto simp: pullSchema1_def split: sum.splits prod.splits option.splits)
  have "image_there env st' i config" "ps_refs st' = ps_refs st"
    using ics_Put_ok [OF s] run_download_frame [OF d] by (simp_all add: st' image_there_def)
  then show ?thesis using mm st' by blast
qed

lemma pullManifestList_ok:
  assumes law: "sha_named env" and run: "pullManifestList env reg ref l st = (st', Inr (i, md))"
  shows "matches env ref (ManifestList l) \<and> (\<forall>d. canonical_digest ref = Some d \<longrightarrow> md = d) \<and> ps_refs st' = ps_refs st \<and>
    (\<exists>json. config_of env reg (ManifestList l) json \<and> image_there env st' i json)"
proof -
  let ?d = "find_platform env (ml_manifests l)"
  have md: "schema2ManifestDigest env ref (ml_payload l) = Inr md"
    using run by (auto simp: pullManifestList_def Let_def split: sum.splits if_splits prod.splits option.splits)
  have mm: "matches env ref (ManifestList l)" "\<forall>d. canonical_digest ref = Some d \<longrightarrow> md = d"
    using manifest_digest_ok [OF md] by (auto simp: matches_def bytes_of_def)
  obtain m2 r2 where m2: "rg_by_digest reg ?d = Inr m2" and r2: "WithDigest env ref ?d = Inr r2"
    using run md by (auto simp: pullManifestList_def Let_def split: sum.splits if_splits prod.splits option.splits)
  have dig: "canonical_digest r2 = Some ?d" using r2 by (auto simp: WithDigest_def split: if_splits)
  consider (one) m md2 where "m2 = Some (Schema1 m)" "pullSchema1 env r2 m st = (st', Inr (i, md2))"
    | (two) m md2 where "m2 = Some (Schema2 m)" "pullSchema2 env reg r2 m st = (st', Inr (i, md2))"
    using run md m2 r2
    by (auto simp: pullManifestList_def Let_def split: sum.splits if_splits prod.splits option.splits manifest.splits)
  then show ?thesis
  proof cases
    case one
    note ok = pullSchema1_ok [OF one(2)]
    then have "verified env ?d (s1_canonical m)" using dig by (auto simp: matches_def bytes_of_def)
    then have "config_of env reg (ManifestList l) json" for json using one m2 by (simp add: config_of_def bytes_of_def names_config_def)
    then show ?thesis using ok mm by blast
  next
    case two
    note ok = pullSchema2_ok [OF law two(2)]
    obtain b where b: "bytes_of (Schema2 m) = Some b" "verified env ?d b" using ok dig by (auto simp: matches_def)
    obtain json where json: "verified env (s2_config m) json" "image_there env st' i json" using ok by blast
    have "config_of env reg (ManifestList l) json" using two m2 b json by (simp add: config_of_def names_config_def)
    then show ?thesis using ok mm json by blast
  qed
qed

lemma pull_manifest_ok:
  assumes law: "sha_named env" and run: "pull_manifest env reg ref m st = (st', Inr (i, md))"
  shows "matches env ref m \<and> ps_refs st' = ps_refs st \<and> (\<exists>json. config_of env reg m json \<and> image_there env st' i json)"
proof (cases m)
  case (Schema1 x)
  then show ?thesis using run pullSchema1_ok [of env ref x st st' i md]
    by (auto simp: pull_manifest_def config_of_def names_config_def split: if_splits)
next
  case (Schema2 x)
  then show ?thesis using run pullSchema2_ok [OF law, of reg ref x st st' i md]
    by (auto simp: pull_manifest_def config_of_def names_config_def)
next
  case (ManifestList x)
  then show ?thesis using run pullManifestList_ok [OF law, of reg ref x st st' i md] by (auto simp: pull_manifest_def)
next
  case OtherManifest
  then show ?thesis using run by (simp add: pull_manifest_def)
qed

section \<open>What the reference names afterwards\<close>

lemma add_ok:
  assumes laws: "ref_laws parse dok valid" and inv: "ref_inv valid st"
    and fav: "favorDigest dok ref0 = Inr ref" and ref: "valid ref" "stored_form ref"
    and run: "addReference dok ref0 i force wok st = (st', None)"
  shows "ref_inv valid st' \<and> rs_abs valid st' = (rs_abs valid st)(ref := Some i)"
proof -
  have may: "may_add ref force st" using addReference_outcome [OF laws inv fav ref run] by (auto split: if_splits)
  then have "ref_inv valid st'"
      "\<And>n s. rs_look st' n s = (if n = FamiliarName ref \<and> s = FamiliarString ref then Some i else rs_look st n s)"
    using addReference_outcome [OF laws inv fav ref run] by simp_all
  then show ?thesis using rs_abs_update [OF laws ref] by blast
qed

text \<open>The laws of references, with those of a name that is given a digest.\<close>

definition pull_laws :: "(string \<Rightarrow> named option) \<Rightarrow> ('e, 'r, 's, 'h) pull_env \<Rightarrow> (named \<Rightarrow> bool) \<Rightarrow> bool" where
  "pull_laws parse env valid \<longleftrightarrow> ref_laws parse (pe_digest_ok env) valid \<and>
     (\<forall>ref d. valid ref \<and> pe_digest_ok env d \<longrightarrow> valid (CanonicalRef (ref_repo ref) d))"

lemma addDigestReference_ok:
  assumes laws: "pull_laws parse env valid" and inv: "ref_inv valid rs" and v: "valid ref"
    and run: "addDigestReference env ref d i rs = (rs', None)"
  shows "ref_inv valid rs' \<and> (\<forall>r. rs_abs valid rs r \<noteq> None \<longrightarrow> rs_abs valid rs' r = rs_abs valid rs r)"
proof -
  have rl: "ref_laws parse (pe_digest_ok env) valid" using laws by (simp add: pull_laws_def)
  let ?c = "CanonicalRef (ref_repo ref) d"
  have w: "WithDigest env ref d = Inr ?c" "valid ?c"
    using run laws v by (auto simp: addDigestReference_def WithDigest_def pull_laws_def split: if_splits)
  show ?thesis
  proof (cases "ref_get (pe_digest_ok env) ?c rs")
    case (Inr old)
    then show ?thesis using run w inv by (simp add: addDigestReference_def)
  next
    case (Inl e)
    then have e: "e = RefDoesNotExist" "addReference (pe_digest_ok env) ?c i True (pe_wok env) rs = (rs', None)"
      using run w by (auto simp: addDigestReference_def AddDigest_def split: if_splits prod.splits option.splits)
    have n: "normal_ref ?c = ?c" by (simp add: normal_ref_def)
    have none: "rs_abs valid rs ?c = None" using Inl ref_get_abs [OF rl w(2), of rs] n by (auto split: option.splits)
    have fav: "favorDigest (pe_digest_ok env) ?c = Inr ?c" by (simp add: favorDigest_def)
    have st: "stored_form ?c" by (simp add: stored_form_def)
    show ?thesis using add_ok [OF rl inv fav w(2) st e(2)] none by auto
  qed
qed

lemma favor_normal: "ref_laws parse dok valid \<Longrightarrow> valid ref \<Longrightarrow> canonical_digest ref \<noteq> None \<Longrightarrow> favorDigest dok ref = Inr (normal_ref ref)"
  by (cases ref) (auto simp: favorDigest_def normal_ref_def ref_laws_def)

lemma tag_normal: "canonical_digest ref = None \<Longrightarrow> favorDigest dok (TagNameOnly ref) = Inr (normal_ref ref)"
  by (cases ref) (simp_all add: favorDigest_def normal_ref_def)

lemma record_refs_ok:
  assumes laws: "pull_laws parse env valid" and inv: "ref_inv valid rs" and v: "valid ref"
    and run: "record_refs env ref i md rs = (rs', Inr fresh)"
  shows "ref_get (pe_digest_ok env) ref rs' = Inr i"
proof -
  have rl: "ref_laws parse (pe_digest_ok env) valid" using laws by (simp add: pull_laws_def)
  note n = normal_ref_valid [OF rl v]
  note get = ref_get_abs [OF rl v]
  have "rs_abs valid rs' (normal_ref ref) = Some i"
  proof (cases "ref_get (pe_digest_ok env) ref rs = Inr i")
    case True
    then have "addDigestReference env ref md i rs = (rs', None)" "rs_abs valid rs (normal_ref ref) = Some i"
      using run get by (auto simp: record_refs_def split: prod.splits option.splits)
    then show ?thesis using addDigestReference_ok [OF laws inv v] by simp
  next
    case False
    then have new: "record_new env ref i md rs = (rs', Inr fresh)" using run by (auto simp: record_refs_def split: sum.splits if_splits)
    show ?thesis
    proof (cases "canonical_digest ref")
      case (Some d)
      then have "addReference (pe_digest_ok env) ref i True (pe_wok env) rs = (rs', None)"
        using new by (auto simp: record_new_def AddDigest_def split: prod.splits option.splits)
      then show ?thesis using add_ok [OF rl inv favor_normal [OF rl v] n] Some by simp
    next
      case None
      obtain rs1 where a: "addDigestReference env ref md i rs = (rs1, None)"
          "addReference (pe_digest_ok env) (TagNameOnly ref) i True (pe_wok env) rs1 = (rs', None)"
        using new None by (auto simp: record_new_def AddTag_def split: prod.splits option.splits)
      have "ref_inv valid rs1" using addDigestReference_ok [OF laws inv v a(1)] by simp
      then show ?thesis using add_ok [OF rl _ tag_normal [OF None] n a(2)] by simp
    qed
  qed
  then show ?thesis using get by simp
qed

lemma pullV2Tag_ok:
  assumes law: "sha_named env" and laws: "pull_laws parse env valid" and v: "valid ref"
    and inv: "\<forall>rs. ps_refs st = Some rs \<longrightarrow> ref_inv valid rs" and run: "pullV2Tag env reg ref st = (st', Inr fresh)"
  shows "\<exists>m i json. fetch_manifest reg ref = Inr m \<and> matches env ref m \<and> config_of env reg m json \<and> image_there env st' i json \<and>
    (\<forall>rs. ps_refs st' = Some rs \<longrightarrow> ref_get (pe_digest_ok env) ref rs = Inr i)"
proof -
  obtain m st1 i md where m: "fetch_manifest reg ref = Inr m"
      and p: "pull_manifest env reg ref m (st\<lparr>ps_confirmed := True\<rparr>) = (st1, Inr (i, md))"
      and r: "(case ps_refs st1 of None \<Rightarrow> (st1, Inr True)
        | Some rs \<Rightarrow> (case record_refs env ref i md rs of (rs1, r) \<Rightarrow> (st1\<lparr>ps_refs := Some rs1\<rparr>, r))) = (st', Inr fresh)"
    using run by (auto simp: pullV2Tag_def split: sum.splits option.splits prod.splits)
  note ok = pull_manifest_ok [OF law p]
  obtain json where json: "config_of env reg m json" "image_there env st1 i json" using ok by blast
  have refs: "ps_refs st1 = ps_refs st" using ok by simp
  have "image_there env st' i json" using r json(2) by (auto simp: image_there_def split: option.splits prod.splits)
  moreover have "ref_get (pe_digest_ok env) ref rs = Inr i" if "ps_refs st' = Some rs" for rs
    using r that refs inv record_refs_ok [OF laws _ v, of _ i md] by (auto split: option.splits prod.splits)
  ultimately show ?thesis using m ok json(1) by blast
qed

section \<open>The chain of a manifest of the first schema\<close>

type_synonym chain = "((string \<times> string) \<times> string \<times> string) list"

definition ch_id :: "(string \<times> string) \<times> string \<times> string \<Rightarrow> string" where "ch_id x = fst (fst x)"
definition ch_parent :: "(string \<times> string) \<times> string \<times> string \<Rightarrow> string" where "ch_parent x = snd (fst x)"
definition ch_layer :: "(string \<times> string) \<times> string \<times> string \<Rightarrow> string" where "ch_layer x = fst (snd x)"
definition ch_history :: "(string \<times> string) \<times> string \<times> string \<Rightarrow> string" where "ch_history x = snd (snd x)"

text \<open>Of images that repeat, one after the other, the lowest.\<close>

fun squash :: "chain \<Rightarrow> chain" where
  "squash [] = []"
| "squash [x] = [x]"
| "squash (x # y # zs) = (if ch_id x = ch_id y then squash (y # zs) else x # squash (y # zs))"

lemma squash_hd: "zs \<noteq> [] \<Longrightarrow> squash zs \<noteq> [] \<and> ch_id (hd (squash zs)) = ch_id (hd zs)"
  by (induction zs rule: squash.induct) auto

lemma squash_last: "zs \<noteq> [] \<Longrightarrow> last (squash zs) = last zs"
  by (induction zs rule: squash.induct) (auto simp: squash_hd)

lemma squash_ids: "map ch_id (squash zs) = remdups_adj (map ch_id zs)"
  by (induction zs rule: squash.induct) auto

lemma squash_drop:
  assumes "Suc i < length z"
  shows "squash (drop i z) = (if ch_id (z ! i) = ch_id (z ! Suc i) then squash (drop (Suc i) z) else z ! i # squash (drop (Suc i) z))"
proof -
  have "drop i z = z ! i # z ! Suc i # drop (Suc (Suc i)) z"
    using assms by (metis Cons_nth_drop_Suc Suc_lessD)
  moreover have "drop (Suc i) z = z ! Suc i # drop (Suc (Suc i)) z" using assms by (metis Cons_nth_drop_Suc)
  ultimately show ?thesis by simp
qed

lemma squash_linked:
  "successively (\<lambda>x y. ch_id x = ch_id y \<or> ch_parent x = ch_id y) zs \<Longrightarrow> successively (\<lambda>x y. ch_parent x = ch_id y) (squash zs)"
proof (induction zs rule: squash.induct)
  case (3 x y zs)
  have "ch_id (hd (squash (y # zs))) = ch_id y" "squash (y # zs) \<noteq> []" using squash_hd [of "y # zs"] by simp_all
  then show ?case using 3 by (auto simp: successively_Cons)
qed simp_all

lemma repeated_id_distinct:
  "repeated_id l S imgs = None \<Longrightarrow> l \<in> set S \<Longrightarrow> distinct (remdups_adj (l # map fst imgs)) \<and> set (map fst imgs) \<inter> set S \<subseteq> {l}"
proof (induction imgs arbitrary: l S)
  case (Cons img imgs)
  have step: "fst img = l \<or> fst img \<notin> set S" "repeated_id (fst img) (gs_add (fst img) S) imgs = None"
    using Cons.prems(1) by (auto split: if_splits)
  have ih: "distinct (remdups_adj (fst img # map fst imgs))" "set (map fst imgs) \<inter> set (gs_add (fst img) S) \<subseteq> {fst img}"
    using Cons.IH [OF step(2)] by simp_all
  show ?case
  proof (cases "fst img = l")
    case True
    then show ?thesis using ih by auto
  next
    case False
    then have "l \<notin> set (map fst imgs)" "set (map fst imgs) \<inter> set S \<subseteq> {l}" using ih(2) Cons.prems(2) step(1) by auto
    then show ?thesis using ih False step(1) by auto
  qed
qed simp

lemma repeated_id_start: "repeated_id l [] imgs = None \<Longrightarrow> distinct (remdups_adj (map fst imgs))"
  using repeated_id_distinct [of "fst (hd imgs)" "gs_add (fst (hd imgs)) []" "tl imgs"]
  by (cases imgs) auto

lemma remove_mid: "remove_at (length xs) (xs @ y # ys) = xs @ ys"
  by (simp add: remove_at_def)

lemma fix_loop_squash:
  assumes "fix_loop (map fst z) i (map ch_layer (take i z @ squash (drop i z)), map ch_history (take i z @ squash (drop i z))) = (Inr (ls, hs) :: 'e pull_error + _)"
    and "i < length z"
  shows "ls = map ch_layer (squash z) \<and> hs = map ch_history (squash z) \<and>
    (\<forall>j < i. ch_id (z ! j) = ch_id (z ! Suc j) \<or> ch_parent (z ! j) = ch_id (z ! Suc j))"
  using assms
proof (induction i)
  case (Suc i)
  let ?m = "\<lambda>i. (map ch_layer (take i z @ squash (drop i z)), map ch_history (take i z @ squash (drop i z)))"
  have len: "length (take i z) = i" using Suc.prems(2) by simp
  have split: "take (Suc i) z @ squash (drop (Suc i) z) = take i z @ z ! i # squash (drop (Suc i) z)"
    using Suc.prems(2) by (simp add: take_Suc_conv_app_nth)
  have ids: "fst (map fst z ! i) = ch_id (z ! i)" "fst (map fst z ! (i + 1)) = ch_id (z ! Suc i)" "snd (map fst z ! i) = ch_parent (z ! i)"
    using Suc.prems(2) by (simp_all add: ch_id_def ch_parent_def)
  have same: "(remove_at i (map ch_layer (take (Suc i) z @ squash (drop (Suc i) z))), remove_at i (map ch_history (take (Suc i) z @ squash (drop (Suc i) z)))) = ?m i"
    if "ch_id (z ! i) = ch_id (z ! Suc i)"
    using that squash_drop [OF Suc.prems(2)] remove_mid [of "map ch_layer (take i z)"] remove_mid [of "map ch_history (take i z)"] len
    unfolding split by simp
  have keep: "?m (Suc i) = ?m i" if "ch_id (z ! i) \<noteq> ch_id (z ! Suc i)"
    using that squash_drop [OF Suc.prems(2)] unfolding split by simp
  have ok: "(ch_id (z ! i) = ch_id (z ! Suc i) \<or> ch_parent (z ! i) = ch_id (z ! Suc i)) \<and>
      fix_loop (map fst z) i (?m i) = (Inr (ls, hs) :: 'e pull_error + _)"
  proof (cases "ch_id (z ! i) = ch_id (z ! Suc i)")
    case True
    have "fix_loop (map fst z) i (?m i) = (Inr (ls, hs) :: 'e pull_error + _)"
      unfolding same [OF True, symmetric] using Suc.prems(1) True by (simp only: fix_loop.simps ids simp_thms if_True)
    then show ?thesis using True by blast
  next
    case False
    have "fix_loop (map fst z) i (?m i) = (Inr (ls, hs) :: 'e pull_error + _)"
      unfolding keep [OF False, symmetric] using Suc.prems(1) False by (simp only: fix_loop.simps ids simp_thms sum.distinct if_False split: if_splits)
    moreover have "ch_parent (z ! i) = ch_id (z ! Suc i)"
      using Suc.prems(1) False by (simp only: fix_loop.simps ids simp_thms sum.distinct if_False split: if_splits)
    ultimately show ?thesis by blast
  qed
  show ?case using Suc.IH [OF conjunct2 [OF ok]] Suc.prems(2) conjunct1 [OF ok] by (auto simp: less_Suc_eq)
qed simp

lemma decode_length: "decode_images env hs = Inr imgs \<Longrightarrow> length imgs = length hs"
  by (induction hs arbitrary: imgs) (auto split: option.splits if_splits sum.splits)

section \<open>Properties\<close>

text \<open>
  C31. What a pull verifies. After a successful pull of a reference, the reference names an image whose stored configuration is the one
  the manifest names by digest, through the entry for the platform when the manifest is a list; the image is named by
  the digest of that configuration; and the manifest has the digest of the reference, when it has one. Whatever the registry sent.
\<close>

theorem pull_verified:
  assumes "sha_named env" "pull_laws parse env valid" "valid ref" "\<forall>rs. ps_refs st = Some rs \<longrightarrow> ref_inv valid rs"
    and "pullV2Tag env reg ref st = (st', Inr fresh)"
  shows "\<exists>m i json. fetch_manifest reg ref = Inr m \<and> matches env ref m \<and> config_of env reg m json \<and> image_there env st' i json \<and>
    (\<forall>rs. ps_refs st' = Some rs \<longrightarrow> ref_get (pe_digest_ok env) ref rs = Inr i)"
  using assms pullV2Tag_ok by blast

text \<open>A registry that decodes manifests as \<open>dec\<close> does, has their contents from \<open>C\<close>, and none of the first schema.\<close>

definition decodes :: "(string \<Rightarrow> manifest) \<Rightarrow> string set \<Rightarrow> 'e registry \<Rightarrow> bool" where
  "decodes dec C reg \<longleftrightarrow>
     (\<forall>x m b. (rg_by_tag reg x = Inr (Some m) \<or> rg_by_digest reg x = Inr (Some m)) \<and> bytes_of m = Some b \<longrightarrow>
        m = dec b \<and> b \<in> C \<and> (\<forall>s. m \<noteq> Schema1 s))"

lemma decodes_digest: "decodes dec C reg \<Longrightarrow> rg_by_digest reg x = Inr (Some m) \<Longrightarrow> bytes_of m = Some b \<Longrightarrow> m = dec b \<and> b \<in> C \<and> (\<forall>s. m \<noteq> Schema1 s)"
  unfolding decodes_def by blast

lemma fetch_decodes:
  assumes "fetch_manifest reg ref = Inr m" "decodes dec C reg" "bytes_of m = Some b"
  shows "m = dec b \<and> b \<in> C \<and> (\<forall>s. m \<noteq> Schema1 s)"
proof -
  have "\<exists>x. rg_by_tag reg x = Inr (Some m) \<or> rg_by_digest reg x = Inr (Some m)"
    using assms(1) by (auto simp: fetch_manifest_def Let_def split: option.splits named.splits sum.splits)
  then show ?thesis using assms(2,3) by (auto simp: decodes_def)
qed

definition collision_free :: "('e, 'r, 's, 'h) pull_env \<Rightarrow> string set \<Rightarrow> bool" where
  "collision_free env C \<longleftrightarrow> (\<forall>a. inj_on (pe_G env a) C)"

lemma verified_unique: "collision_free env C \<Longrightarrow> verified env d x \<Longrightarrow> verified env d y \<Longrightarrow> x \<in> C \<Longrightarrow> y \<in> C \<Longrightarrow> x = y"
  unfolding collision_free_def verified_def by (metis inj_onD)

lemma names_unique:
  "collision_free env C \<Longrightarrow> \<forall>s. m \<noteq> Schema1 s \<Longrightarrow> names_config env m j1 \<Longrightarrow> names_config env m j2 \<Longrightarrow> j1 \<in> C \<Longrightarrow> j2 \<in> C \<Longrightarrow> j1 = j2"
  by (auto simp: names_config_def verified_unique split: manifest.splits)

lemma config_unique:
  assumes cf: "collision_free env C" and dec: "decodes dec C reg1" "decodes dec C reg2" and no1: "\<forall>s. m \<noteq> Schema1 s"
    and c: "config_of env reg1 m j1" "config_of env reg2 m j2" and C: "j1 \<in> C" "j2 \<in> C"
  shows "j1 = j2"
proof (cases "\<exists>l. m = ManifestList l")
  case True
  then obtain l where l: "m = ManifestList l" by blast
  let ?d = "find_platform env (ml_manifests l)"
  obtain m1 b1 where 1: "rg_by_digest reg1 ?d = Inr (Some m1)" "bytes_of m1 = Some b1" "verified env ?d b1" "names_config env m1 j1"
    using c(1) l by (auto simp: config_of_def)
  obtain m2 b2 where 2: "rg_by_digest reg2 ?d = Inr (Some m2)" "bytes_of m2 = Some b2" "verified env ?d b2" "names_config env m2 j2"
    using c(2) l by (auto simp: config_of_def)
  have "b1 = b2"
    by (rule verified_unique [OF cf 1(3) 2(3)]) (use decodes_digest [OF dec(1) 1(1,2)] decodes_digest [OF dec(2) 2(1,2)] in blast)+
  moreover have "m1 = dec b1" "\<forall>s. m1 \<noteq> Schema1 s" "m2 = dec b2"
    using decodes_digest [OF dec(1) 1(1,2)] decodes_digest [OF dec(2) 2(1,2)] by blast+
  ultimately show ?thesis using names_unique [OF cf _ 1(4) _ C] 2(4) by simp
next
  case False
  then have "names_config env m j1" "names_config env m j2" using c by (auto simp: config_of_def split: manifest.splits)
  then show ?thesis by (rule names_unique [OF cf no1 _ _ C])
qed

text \<open>Two daemons of the same platform, which compute the same digests; all else can differ.\<close>

definition same_platform :: "('e, 'r, 's, 'h) pull_env \<Rightarrow> ('e, 'r2, 's2, 'h2) pull_env \<Rightarrow> bool" where
  "same_platform env env2 \<longleftrightarrow> pe_G env2 = pe_G env \<and> pe_GOARCH env2 = pe_GOARCH env \<and> pe_GOOS env2 = pe_GOOS env"

lemma same_platform_eq:
  assumes "same_platform env env2"
  shows "verified env2 d b = verified env d b" "pe_H env2 = pe_H env" "sha_named env2 = sha_named env"
    "matches env2 ref m = matches env ref m" "config_of env2 reg m j = config_of env reg m j"
proof -
  show v: "verified env2 d b = verified env d b" for d b using assms by (simp add: verified_def same_platform_def)
  show h: "pe_H env2 = pe_H env" using assms by (simp add: pe_H_def same_platform_def fun_eq_iff)
  show "sha_named env2 = sha_named env" by (simp add: sha_named_def h)
  show "matches env2 ref m = matches env ref m" by (simp add: matches_def v)
  have "find_platform env2 ms = find_platform env ms" for ms using assms by (simp add: find_platform_def same_platform_def)
  moreover have "names_config env2 m j = names_config env m j" for m by (simp add: names_config_def v split: manifest.split)
  ultimately show "config_of env2 reg m j = config_of env reg m j" by (simp add: config_of_def v split: manifest.split)
qed

text \<open>
  C32. A digest is an image. Two successful pulls of the same reference with a digest, into two daemons of the same platform with
  stores and settings of their own, leave it naming the same image, when no two different contents of those served and stored have the
  same digest. The registries may differ and may lie, but both decode the same bytes as the same manifest, whatever
  content type they are sent with, and neither serves manifests of the first schema, whose image is made on the way.
\<close>

theorem pull_same_image:
  assumes "collision_free env C" "sha_named env" "same_platform env env2" "valid ref" "valid2 ref" "canonical_digest ref = Some d"
    and "pull_laws parse env valid" "decodes dec C reg1" "pullV2Tag env reg1 ref st1 = (st1', Inr fresh1)"
    and "ps_refs st1 = Some rs1" "ref_inv valid rs1" "ps_refs st1' = Some rs1'" "\<forall>i x. stored st1' i = Some x \<longrightarrow> x \<in> C"
    and "pull_laws parse2 env2 valid2" "decodes dec C reg2" "pullV2Tag env2 reg2 ref st2 = (st2', Inr fresh2)"
    and "ps_refs st2 = Some rs2" "ref_inv valid2 rs2" "ps_refs st2' = Some rs2'" "\<forall>i x. stored st2' i = Some x \<longrightarrow> x \<in> C"
  shows "ref_get (pe_digest_ok env) ref rs1' = ref_get (pe_digest_ok env2) ref rs2'"
proof -
  note P = same_platform_eq [OF assms(3)]
  obtain m1 i1 j1 where 1: "fetch_manifest reg1 ref = Inr m1" "matches env ref m1" "config_of env reg1 m1 j1" "i1 = pe_H env j1" "j1 \<in> C"
      "ref_get (pe_digest_ok env) ref rs1' = Inr i1"
    using pullV2Tag_ok [OF assms(2,7,4) _ assms(9)] assms(10-13) by (auto simp: image_there_def)
  have "sha_named env2" using assms(2) P(3) by simp
  from pullV2Tag_ok [OF this assms(14,5) _ assms(16)]
  obtain m2 i2 j2 where 2: "fetch_manifest reg2 ref = Inr m2" "matches env ref m2" "config_of env reg2 m2 j2" "i2 = pe_H env j2" "j2 \<in> C"
      "ref_get (pe_digest_ok env2) ref rs2' = Inr i2"
    using assms(17-20) by (auto simp: image_there_def P)
  obtain b1 where b1: "bytes_of m1 = Some b1" "verified env d b1" using 1(2) assms(6) by (auto simp: matches_def)
  obtain b2 where b2: "bytes_of m2 = Some b2" "verified env d b2" using 2(2) assms(6) by (auto simp: matches_def)
  have "b1 = b2"
    by (rule verified_unique [OF assms(1) b1(2) b2(2)])
      (use fetch_decodes [OF 1(1) assms(8) b1(1)] fetch_decodes [OF 2(1) assms(15) b2(1)] in blast)+
  then have m: "m1 = m2" "\<forall>s. m1 \<noteq> Schema1 s"
    using fetch_decodes [OF 1(1) assms(8) b1(1)] fetch_decodes [OF 2(1) assms(15) b2(1)] by auto
  have "j1 = j2" by (rule config_unique [OF assms(1,8,15) m(2) 1(3) 2(3) [folded m(1)] 1(5) 2(5)])
  then show ?thesis using 1 2 by simp
qed

text \<open>
  C33. The chain of an old manifest. What is left of a manifest of the first schema is a chain of different images, each the
  parent of the one above, with the lowest of every run of the same image, its layer and its history; on Linux the lowest has no parent.
\<close>

theorem schema1_chain:
  fixes env :: "('e, 'r, 's, 'h) pull_env"
  assumes "fixManifestLayers env m = Inr m'" "length (s1_layers m) = length (s1_history m)" "s1_history m \<noteq> []"
  shows "\<exists>imgs chain. decode_images env (s1_history m) = Inr imgs \<and> chain = squash (zip imgs (zip (s1_layers m) (s1_history m))) \<and>
    s1_layers m' = map ch_layer chain \<and> s1_history m' = map ch_history chain \<and> distinct (map ch_id chain) \<and>
    successively (\<lambda>x y. ch_parent x = ch_id y) chain \<and> (pe_GOOS env = ''windows'' \<or> ch_parent (last chain) = '''')"
proof -
  obtain imgs layers history where d: "decode_images env (s1_history m) = Inr imgs"
      and base: "snd (last imgs) = '''' \<or> pe_GOOS env = ''windows''" and rep: "repeated_id '''' [] imgs = None"
      and loop: "fix_loop imgs (length imgs - 1) (s1_layers m, s1_history m) = (Inr (layers, history) :: 'e pull_error + _)"
      and m': "m' = m\<lparr>s1_layers := layers, s1_history := history\<rparr>"
    using assms(1) by (auto simp: fixManifestLayers_def split: sum.splits if_splits option.splits)
  let ?z = "zip imgs (zip (s1_layers m) (s1_history m))"
  have len: "length imgs = length (s1_history m)" by (rule decode_length [OF d])
  have lz: "length ?z = length imgs" "?z \<noteq> []" using len assms(2,3) by auto
  have parts: "map fst ?z = imgs" "map ch_layer ?z = s1_layers m" "map ch_history ?z = s1_history m"
    using len assms(2) by (auto simp: list_eq_iff_nth_eq ch_layer_def ch_history_def)
  define n where "n = length imgs - 1"
  have n: "n < length ?z" "Suc n = length ?z" using lz by (auto simp: n_def)
  have "drop n ?z = [last ?z]" using n by (metis append_butlast_last_id append_eq_conv_conj length_butlast lz(2) diff_Suc_1)
  then have whole: "take n ?z @ squash (drop n ?z) = ?z" by (metis append_take_drop_id squash.simps(2))
  have loop': "fix_loop (map fst ?z) n (map ch_layer (take n ?z @ squash (drop n ?z)), map ch_history (take n ?z @ squash (drop n ?z))) =
      (Inr (layers, history) :: 'e pull_error + _)"
    unfolding whole parts by (rule loop [folded n_def])
  have fl: "layers = map ch_layer (squash ?z)" "history = map ch_history (squash ?z)"
      "\<forall>j < n. ch_id (?z ! j) = ch_id (?z ! Suc j) \<or> ch_parent (?z ! j) = ch_id (?z ! Suc j)"
    using fix_loop_squash [OF loop' n(1)] by blast+
  have "successively (\<lambda>x y. ch_id x = ch_id y \<or> ch_parent x = ch_id y) ?z"
    unfolding successively_conv_nth using fl(3) n(2) by (metis Suc_less_eq)
  then have link: "successively (\<lambda>x y. ch_parent x = ch_id y) (squash ?z)" by (rule squash_linked)
  have "map ch_id ?z = map fst (map fst ?z)" by (simp add: ch_id_def)
  then have ids: "map ch_id ?z = map fst imgs" unfolding parts .
  have dist: "distinct (map ch_id (squash ?z))" unfolding squash_ids ids by (rule repeated_id_start [OF rep])
  have "last (map fst ?z) = fst (last ?z)" by (rule last_map [OF lz(2)])
  then have "ch_parent (last (squash ?z)) = snd (last imgs)" unfolding squash_last [OF lz(2)] parts by (simp add: ch_parent_def)
  then show ?thesis
    by (intro exI [of _ imgs] exI [of _ "squash ?z"]) (use d fl(1,2) m' dist link base in auto)
qed

section \<open>A concrete pull\<close>

definition px_id :: "string \<Rightarrow> string" where
  "px_id c = concat (replicate 64 c)"

definition px_env :: "(unit, unit, unit, unit) pull_env" where
  "px_env = \<lparr>pe_G = (\<lambda>a b. a @ '':'' @ (if b = ''c'' then px_id ''c'' else b)),
     pe_parse = (\<lambda>s. if s = ''c'' then Some \<lparr>ic_rootfs = Some [], ic_history = []\<rparr> else None),
     pe_image_os = (\<lambda>_. ''linux''), pe_disk = (\<lambda>_. True), pe_lget = (\<lambda>_ s. (s, Inl ())),
     pe_digest_ok = (\<lambda>d. d = ''sha256:00''), pe_wok = True,
     pe_v1 = (\<lambda>h. if h = ''top'' then Some (px_id ''b'', px_id ''a'') else if h = ''base'' then Some (px_id ''a'', '''') else None),
     pe_throwaway = (\<lambda>_. Some False), pe_history = (\<lambda>h _. Some h), pe_makeConfig = (\<lambda>_ _ _. None),
     pe_GOARCH = ''amd64'', pe_GOOS = ''linux'', pe_types = [''t''], pe_requireSchema2 = False,
     pe_download = Some (\<lambda>_ _ s. (s, Inr ([], ()))), pe_release = (\<lambda>_ s. s), pe_text = (\<lambda>_. '''')\<rparr>"

definition px_manifest :: schema2 where
  "px_manifest = \<lparr>s2_payload = Some ''00'', s2_config_type = ''t'', s2_config = ''sha256:'' @ px_id ''c'', s2_layers = []\<rparr>"

text \<open>A registry, and one that has only the manifest.\<close>

definition px_registry :: "bool \<Rightarrow> unit registry" where
  "px_registry blobs = \<lparr>rg_service = None, rg_by_tag = (\<lambda>_. Inl UnexpectedHTTP),
     rg_by_digest = (\<lambda>d. if d = ''sha256:00'' then Inr (Some (Schema2 px_manifest)) else Inl UnexpectedHTTP),
     rg_tags = Inr [], rg_blob = (\<lambda>d. if blobs then Inr ''c'' else Inl BlobUnknown)\<rparr>"

definition px_refs :: ref_store where
  "px_refs = \<lparr>rs_repos = [], rs_cache = [], rs_file = Absent\<rparr>"

definition px_state :: "(unit, unit) pull_state" where
  "px_state = \<lparr>ps_images = \<lparr>is_ls = (), is_images = [], is_fs = \<lparr>db_content = [], db_meta = []\<rparr>, is_digestSet = []\<rparr>,
     ps_refs = Some px_refs, ps_confirmed = False\<rparr>"

abbreviation px_ref :: named where
  "px_ref \<equiv> CanonicalRef ex_repo ''sha256:00''"

definition px_pulled :: "(unit, unit) pull_state \<times> (unit pull_error + bool)" where
  "px_pulled = pullV2Tag px_env (px_registry True) px_ref px_state"

lemma px_run: "snd px_pulled = Inr True"
  by code_simp

text \<open>
  Pulled once more, with the image there and the references lost, with other settings, without a download manager and from a registry
  that has no configurations.
\<close>

definition px_env2 :: "(unit, unit, unit, unit) pull_env" where
  "px_env2 = px_env\<lparr>pe_types := [''t'', ''u''], pe_requireSchema2 := True, pe_download := None\<rparr>"

definition px_again :: "(unit, unit) pull_state \<times> (unit pull_error + bool)" where
  "px_again = pullV2Tag px_env2 (px_registry False) px_ref ((fst px_pulled)\<lparr>ps_refs := Some px_refs\<rparr>)"

lemma px_run_again: "snd px_again = Inr True"
  by code_simp

lemma px_stored: "stored (fst px_pulled) i = (if i = ''sha256:'' @ px_id ''c'' then Some ''c'' else None)"
  "stored (fst px_again) i = (if i = ''sha256:'' @ px_id ''c'' then Some ''c'' else None)"
proof -
  have "db_content (is_fs (ps_images (fst px_pulled))) = [(''sha256:'' @ px_id ''c'', ''c'')]"
    "db_content (is_fs (ps_images (fst px_again))) = [(''sha256:'' @ px_id ''c'', ''c'')]" by code_simp+
  then show "stored (fst px_pulled) i = (if i = ''sha256:'' @ px_id ''c'' then Some ''c'' else None)"
    "stored (fst px_again) i = (if i = ''sha256:'' @ px_id ''c'' then Some ''c'' else None)" by (auto simp: stored_def)
qed

lemma px_laws: "sha_named px_env" "pull_laws ex_parse px_env ex_valid" "ex_valid px_ref" "ref_inv ex_valid px_refs"
proof -
  have "dg_alg (''sha256:'' @ s) = ''sha256''" for s by (simp add: dg_alg_def split_first_def)
  then show "sha_named px_env" by (simp add: sha_named_def pe_H_def px_env_def)
  show "pull_laws ex_parse px_env ex_valid"
    by (auto simp: pull_laws_def px_env_def ref_laws_def ex_valid_def ex_parse_def)
  show "ex_valid px_ref" by (simp add: ex_valid_def)
  show "ref_inv ex_valid px_refs" unfolding px_refs_def by (rule ref_inv_empty)
qed

theorem pull_verified_witness:
  "\<exists>m i json. fetch_manifest (px_registry True) px_ref = Inr m \<and> matches px_env px_ref m \<and> config_of px_env (px_registry True) m json \<and>
     image_there px_env (fst px_pulled) i json"
proof -
  have run: "pullV2Tag px_env (px_registry True) px_ref px_state = (fst px_pulled, Inr True)"
    using px_run by (metis prod.collapse px_pulled_def)
  have "\<forall>rs. ps_refs px_state = Some rs \<longrightarrow> ref_inv ex_valid rs" using px_laws(4) by (simp add: px_state_def)
  then show ?thesis using pull_verified [OF px_laws(1-3) _ run] by blast
qed

theorem pull_same_image_witness:
  "ref_get (pe_digest_ok px_env) px_ref (the (ps_refs (fst px_pulled))) = ref_get (pe_digest_ok px_env2) px_ref (the (ps_refs (fst px_again)))"
proof -
  have run: "pullV2Tag px_env (px_registry True) px_ref px_state = (fst px_pulled, Inr True)"
    "pullV2Tag px_env2 (px_registry False) px_ref ((fst px_pulled)\<lparr>ps_refs := Some px_refs\<rparr>) = (fst px_again, Inr True)"
    using px_run px_run_again by (metis prod.collapse px_pulled_def, metis prod.collapse px_again_def)
  have same: "same_platform px_env px_env2" by (simp add: same_platform_def px_env2_def)
  have laws2: "pull_laws ex_parse px_env2 ex_valid" using px_laws(2) by (simp add: pull_laws_def px_env2_def)
  have cf: "collision_free px_env {''00'', ''c''}"
    by (simp add: collision_free_def px_env_def px_id_def numeral_eq_Suc)
  have dec: "decodes (\<lambda>_. Schema2 px_manifest) {''00'', ''c''} (px_registry b)" for b
    by (auto simp: decodes_def px_registry_def bytes_of_def px_manifest_def)
  have "ps_refs (fst px_pulled) \<noteq> None" "ps_refs (fst px_again) \<noteq> None" by code_simp+
  then obtain r1 r2 where r: "ps_refs (fst px_pulled) = Some r1" "ps_refs (fst px_again) = Some r2" by blast
  have st: "\<forall>i x. stored (fst px_pulled) i = Some x \<longrightarrow> x \<in> {''00'', ''c''}" "\<forall>i x. stored (fst px_again) i = Some x \<longrightarrow> x \<in> {''00'', ''c''}"
    by (simp_all add: px_stored)
  have ps: "ps_refs px_state = Some px_refs" "ps_refs ((fst px_pulled)\<lparr>ps_refs := Some px_refs\<rparr>) = Some px_refs" by (simp_all add: px_state_def)
  show ?thesis
    using pull_same_image [OF cf px_laws(1) same px_laws(3,3) _ px_laws(2) dec run(1) ps(1) px_laws(4) r(1) st(1)
        laws2 dec run(2) ps(2) px_laws(4) r(2) st(2)] r by simp
qed

definition px_schema1 :: schema1 where
  "px_schema1 = \<lparr>s1_canonical = '''', s1_version = 1, s1_layers = [''l3'', ''l2'', ''l1''], s1_history = [''top'', ''top'', ''base'']\<rparr>"

theorem schema1_chain_witness:
  "\<exists>m' imgs chain. fixManifestLayers px_env px_schema1 = Inr m' \<and> s1_layers m' = [''l2'', ''l1''] \<and>
     decode_images px_env (s1_history px_schema1) = Inr imgs \<and>
     chain = squash (zip imgs (zip (s1_layers px_schema1) (s1_history px_schema1))) \<and> s1_layers m' = map ch_layer chain \<and>
     distinct (map ch_id chain)"
proof -
  have "(case fixManifestLayers px_env px_schema1 of Inl _ \<Rightarrow> False | Inr m \<Rightarrow> s1_layers m = [''l2'', ''l1''])" by code_simp
  then obtain m' where m': "fixManifestLayers px_env px_schema1 = Inr m'" "s1_layers m' = [''l2'', ''l1'']" by (auto split: sum.splits)
  have "length (s1_layers px_schema1) = length (s1_history px_schema1)" "s1_history px_schema1 \<noteq> []" by (simp_all add: px_schema1_def)
  then show ?thesis using schema1_chain [OF m'(1)] m' by blast
qed

section \<open>Observations\<close>

text \<open>When the configuration cannot be had, what the download got is not released.\<close>

lemma config_error_keeps_layers:
  assumes "schema2ManifestDigest env ref (s2_payload m) = Inr md" "\<not> ics_has env (s2_config m) st"
    and "config_result env reg (s2_config m) = Inl e" "pe_GOOS env \<noteq> ''windows''"
    and "pe_download env = Some download" "download True (s2_layers m) (is_ls (ps_images st)) = (ls, Inr (diffs, h))"
  shows "pullSchema2 env reg ref m st = (on_layers (\<lambda>_. ls) st, Inl e)"
  using assms by (simp add: pullSchema2_def run_download_def)

end
