(* ===== verification/Spec2Isabelle.thy ===== *)
theory Spec2Isabelle
  imports NamingSteps ReferenceStore MetadataStore Locker RefCounter ContainerProps ContainerOps ImageRestart TransferProps TransferRetry ImageDelete BytesPipe StdCopy VolumeProps Symlink RuncProps BlobDownload PullProps
begin

text \<open>
  A verification library for the core of the Docker daemon, version 17.05.0-ce. All paths
  below are under \<^verbatim>\<open>src/docker/moby-17.05.0-ce\<close>.

  \<^bold>\<open>The program.\<close> The daemon keeps containers, images and layers. A container has an identifier and
  names; the registrar, the truncated index, the link index and the container store find it by
  any of them. Its state moves by calls of the user, by events of containerd and by the restart
  manager. It runs on a mount over a chain of layers. Layers are shared: by images, by mounts and
  by layers on top, and are deleted when the last of them lets go. Images are configurations on
  disk that name their layers; the reference store gives them names. Each of these parts is a
  Go struct behind a mutex, with files that bring it back after a restart.

  \<^bold>\<open>Conventions.\<close> A Go map is an association list with one entry per key and a loop over a map goes
  in its order; what depends on that order is not claimed. A struct is a record, an operation
  under one mutex a function from state to state, an error a value of a sum or option type. What
  runs between locks is an inductive step relation; its invariants are proved by rule induction
  over the reachable states. Strings are bytes. Times are integers of nanoseconds. Library code
  that is not modelled, system calls, containerd and the clock are parameters or arguments: a
  graph driver, a file that can or cannot be written, a digest function, the result of a
  call. No theorem assumes that such a call succeeds unless it says so.

  \<^bold>\<open>Theories and code.\<close>
  \<^item> GoPrelude: maps, sets, strings and the lemmas that all other theories share.
  \<^item> Registrar: pkg/registrar/registrar.go, with a refinement to one partial function.
  \<^item> TruncIndex: pkg/truncindex/truncindex.go over the interface of a prefix tree.
  \<^item> ContainerStore: container/memory_store.go, history.go and env.go.
  \<^item> LinkIndex: daemon/links.go.
  \<^item> DaemonNames, NamingSteps: daemon/names.go, rename.go, container.go and delete.go as far as they
    name, find, register, rename and forget containers; then every sequence of these, one after another
    (a rename that others run into can break the naming, which two lemmas show).
  \<^item> ReferenceStore: reference/store.go with its file, refined to a map of references.
  \<^item> LayerStore, LayerInv, LayerSteps, LayerProps: layer/layer_store.go, ro_layer.go, mounted_layer.go and
    layer.go; the invariant that counts references; the machine of concurrent clients; what
    follows for them.
  \<^item> FileStore, MetadataStore: layer/filestore.go and pkg/ioutils/fswriters.go, and the layer store
    on top of those files.
  \<^item> LayerHolds: the interface that a keeper of layer references relies on (a locale) and the proof
    that the layer store provides it.
  \<^item> DigestSet: lookup of digests by prefix, by binary search.
  \<^item> ImageStore, ImageInv, ImageProps, ImageRestart: image/store.go, fs.go and rootfs.go; the
    invariants over any provider of layers; the machine of image store and layer store together;
    loading from disk.
  \<^item> ImageDelete: daemon/image.go, image_tag.go and image_delete.go over the reference store, the image store
    and the container store together.
  \<^item> BytesPipe, StdCopy: pkg/ioutils/bytespipe.go and buffer.go; pkg/stdcopy/stdcopy.go.
  \<^item> VolumeStore, VolumeProps: volume/store and the removal of a volume in daemon/delete.go; its references refined to
    sets, what creating answers, what loading restores.
  \<^item> Symlink: pkg/symlink/fs.go, against a walk over components.
  \<^item> Transfers, TransferSteps, TransferProps, TransferRetry: distribution/xfer/transfer.go, the phases of
    download.go and upload.go and their retries.
  \<^item> Endpoints: the loops over endpoints of distribution/pull.go and push.go, and the classification of errors of errors.go.
  \<^item> PullV2, PullProps: distribution/pull_v2.go with config.go, on the image store and the reference store; what is verified,
    what a digest determines. BlobDownload: the download of one layer.
  \<^item> Locker, RefCounter: pkg/locker/locker.go and daemon/graphdriver/counter.go.
  \<^item> ContainerState, HealthCheck, RestartManager: container/state.go and health.go, daemon/health.go,
    restartmanager/restartmanager.go.
  \<^item> ContainerLifecycle, ContainerStop: daemon/start.go, kill.go, pause.go, unpause.go, stop.go,
    restart.go, update.go and monitor.go, libcontainerd/container_unix.go.
  \<^item> Runc, RuncProps: \<^verbatim>\<open>src/opencontainers/runc/libcontainer\<close>, state_linux.go and the operations of container_linux.go; what their
    status and their destruction mean for the processes.
  \<^item> ContainerSteps, ContainerProps, ContainerOps: the container with its process and the queue of
    containerd's events as a machine, its invariant, and the results of the operations.

  \<^bold>\<open>What is shown.\<close>
  \<^item> Names: no two containers share one as long as operations do not overlap, a failed rename changes nothing, lookups agree.
  \<^item> Layers: counts are exact, a release frees what is unused and nothing else, all operations
    return from every reachable state without a panic (operations on mounts wait while a mount is being created), chain identifiers and depths are right, and what is
    written reads back.
  \<^item> Images: their layers stay, the search index and the children are exact, a restart restores
    them; a creation writes its configuration before it takes the lock and is two steps, between which
    anything happens but the deletion of the same image, which would break this (\<open>create_delete_race\<close>). The children
    are exact on a disk that works.
  \<^item> Deleting an image takes away no image and no reference that something needs, and says why it refuses.
  \<^item> Volumes: a reference is kept until it is given up, a volume in use is not removed, created volumes survive a restart.
  \<^item> Links: following them inside a directory stays inside, and is what a walk in a root of its own does.
  \<^item> Streams: a pipe is a bounded queue of bytes; multiplexed streams are separated exactly.
  \<^item> Containers: flags agree with the process, a stop prevents restarts, restarts make progress and
    back off, an update is complete or void, health follows the probes. Two ends of a restart by the restart manager are left out
    of the machine and stated apart (\<open>life_fault\<close>): a specification that cannot be read back, and a process that was started but
    not recorded on disk.
  \<^item> Transfers: slots are exact, requests share, everything comes to an end, five attempts at most.
  \<^item> Pulls: what is stored was verified from the reference down, a digest names one image on one platform, endpoints are never tried with less safety.
  \<^item> runc: a status that is told is the right one, and what runs is not destroyed, as long as the start time of the process
    could be read, states could be saved and nothing was restored from a checkpoint; lemmas show what happens otherwise.
  \<^item> Locks: at most one goroutine holds a name.
  \<^item> Where the code does not do what it means to, a theorem exhibits it, and the statement says so.

  \<^bold>\<open>Bounds and recursion.\<close> Nothing is bounded by fuel. Loops along the parents of a layer
  (\<open>release_loop\<close>, \<open>layer_depth\<close>, \<open>layer_Size\<close>, \<open>layer_diffs\<close>) are partial functions whose value is
  \<open>None\<close> when they do not end, as they would on a cyclic chain; that they return on every
  reachable store is proved. Binary search terminates by its interval.

  \<^bold>\<open>Not modelled.\<close> The graph drivers, libnetwork and the network files of the daemon, the cluster,
  the plugins and the volume drivers, which are operating system and network calls throughout (the store of volumes is modelled);
  the protocol of registries over HTTP, its first version and the pushing of layers; the builder; the HTTP interface, its client and the
  command line; containerd, and of runc all but the states of a container; the daemon sees the events of containerd
  modelled here; archives; vendored packages apart from digests, digest sets and
  the names of references. Of the components above, what configures and cleans up a
  container through the operating system, and JSON, which is a parameter where it is read.
\<close>

end
